(* ===== verification/CPrelude.thy ===== *)
theory CPrelude
  imports Main "HOL-Library.Word"
begin

text \<open>
  Prelude of the cntlm development: the machine types, bytes and C strings, and the part of
  the C standard library the program calls (\<open>ctype.h\<close>, \<open>string.h\<close>, \<open>strtol\<close> and its
  kin, the conversions of \<open>printf\<close>), in the C locale and on an LP64 machine.

  A C string is the \<open>string\<close> (list of 8-bit \<open>char\<close>) of its characters without the
  terminating NUL; a buffer of fixed size is a list of that size and \<open>cstr_of\<close> reads the C
  string stored at its start.  Raw memory handled by the cryptographic code is a list of
  \<open>8 word\<close>.
\<close>

unbundle bit_operations_syntax

named_theorems cstr_simps \<open>equations of the C string functions\<close>
named_theorems layout_simps \<open>lengths and positions of encoded fields\<close>

type_synonym byte = "8 word"
type_synonym u16 = "16 word"
type_synonym u32 = "32 word"
type_synonym u64 = "64 word"

abbreviation NUL :: char where "NUL \<equiv> CHR 0x00"
abbreviation CR :: char where "CR \<equiv> CHR 0x0D"
abbreviation LF :: char where "LF \<equiv> CHR 0x0A"

text \<open>
  The result of a C function that may leave defined behaviour (an access outside an object, a
  NULL dereference): \<open>UB\<close>, or \<open>Ret\<close> of what it returns.
\<close>

datatype 'a c_result = UB | Ret 'a

fun c_bind :: "'a c_result \<Rightarrow> ('a \<Rightarrow> 'b c_result) \<Rightarrow> 'b c_result" where
  "c_bind UB f = UB"
| "c_bind (Ret x) f = f x"

definition the_ret :: "'a c_result \<Rightarrow> 'a" where
  "the_ret r = (case r of Ret x \<Rightarrow> x)"

lemma the_ret_Ret [simp]: "the_ret (Ret x) = x"
  by (simp add: the_ret_def)

lemma c_bind_Ret_iff: "c_bind r f = Ret y \<longleftrightarrow> (\<exists>x. r = Ret x \<and> f x = Ret y)"
  by (cases r) auto

lemma c_bind_assoc [simp]: "c_bind (c_bind r f) g = c_bind r (\<lambda>x. c_bind (f x) g)"
  by (cases r) auto

text \<open>A computation that may also not return: \<open>None\<close>.\<close>

type_synonym 'a c_prog = "'a c_result option"

definition p_bind :: "'a c_prog \<Rightarrow> ('a \<Rightarrow> 'b c_prog) \<Rightarrow> 'b c_prog" where
  "p_bind m f = (case m of None \<Rightarrow> None | Some UB \<Rightarrow> Some UB | Some (Ret x) \<Rightarrow> f x)"

lemma p_bind_simps [simp]:
  "p_bind None f = None" "p_bind (Some UB) f = Some UB" "p_bind (Some (Ret x)) f = f x"
  by (simp_all add: p_bind_def)

lemma p_bind_Ret_iff: "p_bind m f = Some (Ret y) \<longleftrightarrow> (\<exists>x. m = Some (Ret x) \<and> f x = Some (Ret y))"
  by (auto simp: p_bind_def split: option.split c_result.split)

text \<open>A store into a buffer.\<close>

definition buf_write :: "'a list \<Rightarrow> nat \<Rightarrow> 'a \<Rightarrow> 'a list c_result" where
  "buf_write buf i x = (if i < length buf then Ret (buf[i := x]) else UB)"

section \<open>Bit-by-bit equality of words\<close>

lemma byte_eqI:
  fixes a b :: byte
  assumes "bit a 0 = bit b 0" "bit a 1 = bit b 1" "bit a 2 = bit b 2" "bit a 3 = bit b 3"
    "bit a 4 = bit b 4" "bit a 5 = bit b 5" "bit a 6 = bit b 6" "bit a 7 = bit b 7"
  shows "a = b"
proof (rule bit_word_eqI)
  fix n assume "n < LENGTH(8)"
  then have "n \<in> {0, 1, 2, 3, 4, 5, 6, 7}" by auto
  with assms show "bit a n = bit b n" by auto
qed

lemma byte_bit_ge [simp]: "8 \<le> n \<Longrightarrow> \<not> bit (a :: byte) n"
  using bit_imp_le_length [of a n] by auto

section \<open>Bytes and characters\<close>

definition bytes_of :: "string \<Rightarrow> byte list" where
  "bytes_of s = map of_char s"

definition char_of_byte :: "byte \<Rightarrow> char" where
  "char_of_byte b = char_of (unat b)"

definition chars_of :: "byte list \<Rightarrow> string" where
  "chars_of bs = map char_of_byte bs"

lemma unat_of_char [simp]: "unat (of_char c :: byte) = (of_char c :: nat)"
proof -
  have "(of_char c :: byte) = of_nat (of_char c)" by (simp only: of_nat_of_char)
  then have "unat (of_char c :: byte) = of_char c mod 256"
    by (simp only: unat_of_nat) simp
  then show ?thesis using nat_of_char_less_256 [of c] by simp
qed

lemma of_char_char_of_byte [simp]: "of_char (char_of_byte b) = b"
proof -
  have "unat b < 256" using unsigned_less [of b, where ?'a = nat] by simp
  then have "unat (of_char (char_of (unat b)) :: byte) = unat b" by simp
  then show ?thesis by (simp only: char_of_byte_def word_unat_eq_iff)
qed

lemma char_of_byte_of_char [simp]: "char_of_byte (of_char c) = c"
  by (simp add: char_of_byte_def)

lemma of_char_byte_eq [simp]: "(of_char c :: byte) = of_char d \<longleftrightarrow> c = d"
  by (metis char_of_byte_of_char)

lemma chars_of_bytes_of [simp]: "chars_of (bytes_of s) = s"
  by (simp add: chars_of_def bytes_of_def comp_def)

lemma bytes_of_chars_of [simp]: "bytes_of (chars_of bs) = bs"
  by (simp add: chars_of_def bytes_of_def comp_def)

lemma length_bytes_of [simp]: "length (bytes_of s) = length s"
  by (simp add: bytes_of_def)

lemma length_chars_of [simp]: "length (chars_of bs) = length bs"
  by (simp add: chars_of_def)

lemma bytes_of_append [simp]: "bytes_of (s @ t) = bytes_of s @ bytes_of t"
  by (simp add: bytes_of_def)

text \<open>The C string stored at the start of a buffer.\<close>

definition cstr_of :: "string \<Rightarrow> string" where
  "cstr_of buf = takeWhile (\<lambda>c. c \<noteq> NUL) buf"

lemma cstr_of_append_NUL [simp]: "NUL \<notin> set s \<Longrightarrow> cstr_of (s @ NUL # r) = s"
  by (induction s) (auto simp: cstr_of_def)

lemma cstr_of_noNUL [simp]: "NUL \<notin> set (cstr_of buf)"
  by (auto simp: cstr_of_def dest: set_takeWhileD)

lemma cstr_of_id: "NUL \<notin> set s \<Longrightarrow> cstr_of s = s"
  by (auto simp: cstr_of_def takeWhile_eq_all_conv)

section \<open>Character classes (ctype.h, C locale)\<close>

definition c_isspace :: "char \<Rightarrow> bool" where
  "c_isspace c \<longleftrightarrow> c = CHR '' '' \<or> c = CHR 0x09 \<or> c = LF \<or> c = CHR 0x0B \<or> c = CHR 0x0C \<or> c = CR"

definition c_isdigit :: "char \<Rightarrow> bool" where
  "c_isdigit c \<longleftrightarrow> 48 \<le> (of_char c :: nat) \<and> (of_char c :: nat) \<le> 57"

definition c_isupper :: "char \<Rightarrow> bool" where
  "c_isupper c \<longleftrightarrow> 65 \<le> (of_char c :: nat) \<and> (of_char c :: nat) \<le> 90"

definition c_islower :: "char \<Rightarrow> bool" where
  "c_islower c \<longleftrightarrow> 97 \<le> (of_char c :: nat) \<and> (of_char c :: nat) \<le> 122"

definition c_isalnum :: "char \<Rightarrow> bool" where
  "c_isalnum c \<longleftrightarrow> c_isdigit c \<or> c_isupper c \<or> c_islower c"

definition c_tolower :: "char \<Rightarrow> char" where
  "c_tolower c = (if c_isupper c then char_of (of_char c + (32::nat)) else c)"

definition c_toupper :: "char \<Rightarrow> char" where
  "c_toupper c = (if c_islower c then char_of (of_char c - (32::nat)) else c)"

lemma NUL_not_space [simp]: "\<not> c_isspace NUL"
  by (simp add: c_isspace_def)

lemma c_tolower_idem [simp]: "c_tolower (c_tolower c) = c_tolower c"
  by (simp add: c_tolower_def c_isupper_def)

lemma of_char_toupper: "c_islower c \<Longrightarrow> (of_char (c_toupper c) :: nat) = of_char c - 32"
proof -
  assume "c_islower c"
  then have "(of_char c :: nat) - 32 < 256" unfolding c_islower_def by linarith
  with \<open>c_islower c\<close> show ?thesis by (simp add: c_toupper_def)
qed

lemma c_toupper_idem [simp]: "c_toupper (c_toupper c) = c_toupper c"
proof (cases "c_islower c")
  case True
  then have "\<not> c_islower (c_toupper c)"
    using of_char_toupper [OF True] unfolding c_islower_def by linarith
  then show ?thesis by (simp add: c_toupper_def [of "c_toupper c"])
qed (simp add: c_toupper_def)

lemma c_tolower_NUL [simp]: "c_tolower c = NUL \<longleftrightarrow> c = NUL"
proof -
  have "c_tolower c \<noteq> NUL" if "c_isupper c"
  proof
    assume "c_tolower c = NUL"
    then have "(of_char (c_tolower c) :: nat) = 0" by simp
    with that show False by (simp add: c_tolower_def c_isupper_def)
  qed
  then show ?thesis by (auto simp: c_tolower_def c_isupper_def)
qed

lemma c_toupper_NUL [simp]: "c_toupper c = NUL \<longleftrightarrow> c = NUL"
proof -
  have "c_toupper c \<noteq> NUL" if "c_islower c"
  proof
    assume "c_toupper c = NUL"
    then have "(of_char (c_toupper c) :: nat) = 0" by simp
    with that show False using of_char_toupper [OF that] by (simp add: c_islower_def)
  qed
  then show ?thesis by (auto simp: c_toupper_def c_islower_def)
qed

section \<open>string.h\<close>

text \<open>\<open>strcasecmp(a, b) == 0\<close> and \<open>strncasecmp(a, b, n) == 0\<close>.\<close>

definition strcaseeq :: "string \<Rightarrow> string \<Rightarrow> bool" where
  "strcaseeq a b \<longleftrightarrow> map c_tolower a = map c_tolower b"

definition strncaseeq :: "string \<Rightarrow> string \<Rightarrow> nat \<Rightarrow> bool" where
  "strncaseeq a b n \<longleftrightarrow> strcaseeq (take n a) (take n b)"

lemma strcaseeq_refl [simp, intro]: "strcaseeq a a"
  by (simp add: strcaseeq_def)

lemma strcaseeq_sym: "strcaseeq a b \<longleftrightarrow> strcaseeq b a"
  by (auto simp: strcaseeq_def)

lemma strcaseeq_trans [trans]: "strcaseeq a b \<Longrightarrow> strcaseeq b c \<Longrightarrow> strcaseeq a c"
  by (simp add: strcaseeq_def)

lemma strcaseeq_cong: "strcaseeq k k' \<Longrightarrow> strcaseeq a k \<longleftrightarrow> strcaseeq a k'"
  by (simp add: strcaseeq_def)

definition strcspn :: "string \<Rightarrow> string \<Rightarrow> nat" where
  "strcspn s reject = length (takeWhile (\<lambda>c. c \<notin> set reject) s)"

text \<open>The searches return the rest of the string from the match on; \<open>None\<close> is NULL.\<close>

definition strchr :: "string \<Rightarrow> char \<Rightarrow> string option" where
  "strchr s c = (case dropWhile (\<lambda>x. x \<noteq> c) s of [] \<Rightarrow> None | r \<Rightarrow> Some r)"

fun strstr :: "string \<Rightarrow> string \<Rightarrow> string option" where
  "strstr [] n = (if n = [] then Some [] else None)"
| "strstr (x # xs) n =
     (if take (length n) (x # xs) = n then Some (x # xs) else strstr xs n)"

text \<open>
  \<open>strtok_r\<close>: skips delimiters, returns the token and the string after the delimiter that
  ended it.
\<close>

definition strtok_r :: "string \<Rightarrow> string \<Rightarrow> (string \<times> string) option" where
  "strtok_r s delim =
     (let s' = dropWhile (\<lambda>c. c \<in> set delim) s
      in if s' = [] then None
         else Some (takeWhile (\<lambda>c. c \<notin> set delim) s',
                    drop 1 (dropWhile (\<lambda>c. c \<notin> set delim) s')))"

lemma strcspn_le [simp]: "strcspn s r \<le> length s"
  by (simp add: strcspn_def length_takeWhile_le)

lemma take_strcspn: "take (strcspn s r) s = takeWhile (\<lambda>c. c \<notin> set r) s"
  by (simp add: strcspn_def takeWhile_eq_take [symmetric])

lemma drop_strcspn: "drop (strcspn s r) s = dropWhile (\<lambda>c. c \<notin> set r) s"
  by (simp add: strcspn_def dropWhile_eq_drop [symmetric])

lemma strcspn_eq_length: "strcspn s r = length s \<longleftrightarrow> (\<forall>c \<in> set s. c \<notin> set r)"
proof -
  have "strcspn s r = length s \<longleftrightarrow> takeWhile (\<lambda>c. c \<notin> set r) s = s"
    by (metis strcspn_def take_all_iff take_strcspn order_refl length_takeWhile_le)
  then show ?thesis by (simp add: takeWhile_eq_all_conv)
qed

lemma strchr_None: "strchr s c = None \<longleftrightarrow> c \<notin> set s"
proof -
  have nil: "dropWhile (\<lambda>x. x \<noteq> c) s = [] \<longleftrightarrow> c \<notin> set s" by (auto simp: dropWhile_eq_Nil_conv)
  have "strchr s c = None \<longleftrightarrow> dropWhile (\<lambda>x. x \<noteq> c) s = []"
    unfolding strchr_def by (rule list.case_eq_if [THEN ssubst]) simp
  with nil show ?thesis by simp
qed

lemma strchr_append: "c \<notin> set a \<Longrightarrow> strchr (a @ c # b) c = Some (c # b)"
  by (induction a) (auto simp: strchr_def)

lemma strstr_SomeD: "strstr s n = Some r \<Longrightarrow> \<exists>a b. s = a @ r \<and> r = n @ b"
proof (induction s n rule: strstr.induct)
  case (1 n)
  then show ?case by (auto split: if_splits)
next
  case (2 x xs n)
  show ?case
  proof (cases "take (length n) (x # xs) = n")
    case True
    with "2.prems" have "r = x # xs" by simp
    with True have "r = n @ drop (length n) (x # xs)"
      by (metis append_take_drop_id)
    with \<open>r = x # xs\<close> show ?thesis by blast
  next
    case False
    with 2 obtain a b where "xs = a @ r" "r = n @ b" by auto
    then show ?thesis by (metis append_Cons)
  qed
qed

lemma strstr_NoneD: "strstr s n = None \<Longrightarrow> \<nexists>a b. s = a @ n @ b"
proof (induction s n rule: strstr.induct)
  case (1 n)
  then show ?case by (auto split: if_splits)
next
  case (2 x xs n)
  then have ne: "take (length n) (x # xs) \<noteq> n" and IH: "\<nexists>a b. xs = a @ n @ b"
    by (auto split: if_splits)
  show ?case
  proof (intro notI, elim exE)
    fix a b assume eq: "x # xs = a @ n @ b"
    show False
    proof (cases a)
      case Nil
      with eq ne show False by simp
    next
      case (Cons y ys)
      with eq IH show False by auto
    qed
  qed
qed

text \<open>\<open>strstr\<close> finds the needle exactly when it occurs.\<close>

lemma strstr_Some_iff: "(\<exists>r. strstr s n = Some r) \<longleftrightarrow> (\<exists>a b. s = a @ n @ b)"
  using strstr_SomeD strstr_NoneD by (metis not_None_eq)

section \<open>Numbers in strings\<close>

definition digit_val :: "char \<Rightarrow> nat option" where
  "digit_val c =
     (if c_isdigit c then Some (of_char c - 48)
      else if c_isupper c then Some (of_char c - 55)
      else if c_islower c then Some (of_char c - 87)
      else None)"

definition is_digit_in :: "nat \<Rightarrow> char \<Rightarrow> bool" where
  "is_digit_in base c = (case digit_val c of None \<Rightarrow> False | Some d \<Rightarrow> d < base)"

definition digits_val :: "nat \<Rightarrow> string \<Rightarrow> nat" where
  "digits_val base ds = fold (\<lambda>c n. base * n + the (digit_val c)) ds 0"

definition strip_0x :: "nat \<Rightarrow> string \<Rightarrow> string" where
  "strip_0x base s =
     (if base = 16 \<and> 3 \<le> length s \<and> s ! 0 = CHR ''0'' \<and> c_tolower (s ! 1) = CHR ''x''
         \<and> is_digit_in 16 (s ! 2)
      then drop 2 s else s)"

definition strip_sign :: "string \<Rightarrow> bool \<times> string" where
  "strip_sign s = (case s of
       [] \<Rightarrow> (False, [])
     | c # r \<Rightarrow> if c = CHR ''-'' then (True, r) else if c = CHR ''+'' then (False, r) else (False, s))"

text \<open>
  \<open>strtol(s, &end, base)\<close> for base 10 and 16: the value, clamped to the range of a 64-bit
  \<open>long\<close>, and the rest of the string at \<open>end\<close> (the whole string when there is no number).
\<close>

definition strtol :: "nat \<Rightarrow> string \<Rightarrow> int \<times> string" where
  "strtol base s =
     (let (neg, s2) = strip_sign (dropWhile c_isspace s);
          s3 = strip_0x base s2;
          ds = takeWhile (is_digit_in base) s3;
          v = (if neg then - int (digits_val base ds) else int (digits_val base ds))
      in if ds = [] then (0, s)
         else (max (- (2 ^ 63)) (min (2 ^ 63 - 1) v), dropWhile (is_digit_in base) s3))"

text \<open>Conversion to \<open>int\<close> keeps the low 32 bits as a two's complement value.\<close>

definition to_int32 :: "int \<Rightarrow> int" where
  "to_int32 i = sint (word_of_int i :: 32 word)"

definition atoi :: "string \<Rightarrow> int" where
  "atoi s = to_int32 (fst (strtol 10 s))"

definition atoll :: "string \<Rightarrow> int" where
  "atoll s = fst (strtol 10 s)"

lemma to_int32_id: "- (2 ^ 31) \<le> i \<Longrightarrow> i < 2 ^ 31 \<Longrightarrow> to_int32 i = i"
  by (simp add: to_int32_def signed_of_int signed_take_bit_int_eq_self)

lemma to_int32_range: "- (2 ^ 31) \<le> to_int32 i" "to_int32 i < 2 ^ 31"
  using sint_range_size [of "word_of_int i :: 32 word"]
  by (auto simp: to_int32_def word_size)

text \<open>Decimal output (\<open>%d\<close> of a non-negative value).\<close>

fun show_nat :: "nat \<Rightarrow> string" where
  "show_nat n = (if n < 10 then [char_of (48 + n)] else show_nat (n div 10) @ [char_of (48 + n mod 10)])"

declare show_nat.simps [simp del]

definition show_int :: "int \<Rightarrow> string" where
  "show_int i = (if i < 0 then CHR ''-'' # show_nat (nat (- i)) else show_nat (nat i))"

text \<open>\<open>%03d\<close> of a non-negative value.\<close>

definition show_nat3 :: "nat \<Rightarrow> string" where
  "show_nat3 n = replicate (3 - length (show_nat n)) (CHR ''0'') @ show_nat n"

lemma digit_chars [simp]:
  "char_of (48 :: nat) = CHR ''0''" "char_of (49 :: nat) = CHR ''1''" "char_of (50 :: nat) = CHR ''2''"
  "char_of (51 :: nat) = CHR ''3''" "char_of (52 :: nat) = CHR ''4''" "char_of (53 :: nat) = CHR ''5''"
  "char_of (54 :: nat) = CHR ''6''" "char_of (55 :: nat) = CHR ''7''" "char_of (56 :: nat) = CHR ''8''"
  "char_of (57 :: nat) = CHR ''9''"
  by code_simp+

lemma show_nat_nonempty [simp]: "show_nat n \<noteq> []"
  by (subst show_nat.simps) simp

lemma is_digit_10_char_of: "n < 10 \<Longrightarrow> is_digit_in 10 (char_of (48 + n))" for n :: nat
  by (simp add: is_digit_in_def digit_val_def c_isdigit_def)

lemma show_nat_digits: "\<forall>c \<in> set (show_nat n). is_digit_in 10 c"
proof (induction n rule: show_nat.induct)
  case (1 n)
  then show ?case
    by (subst show_nat.simps) (auto simp: is_digit_10_char_of)
qed

lemma digits_val_append: "digits_val b (xs @ [c]) = b * digits_val b xs + the (digit_val c)"
  by (simp add: digits_val_def)

lemma digit_val_char_of: "n < 10 \<Longrightarrow> digit_val (char_of (48 + n)) = Some n" for n :: nat
  by (simp add: digit_val_def c_isdigit_def)

lemma digits_val_show_nat: "digits_val 10 (show_nat n) = n"
proof (induction n rule: show_nat.induct)
  case (1 n)
  show ?case
  proof (cases "n < 10")
    case True
    then show ?thesis
      by (subst show_nat.simps) (simp add: digits_val_def digit_val_char_of)
  next
    case False
    with 1 show ?thesis
      by (subst show_nat.simps) (simp add: digits_val_append digit_val_char_of)
  qed
qed

lemma digit_10_plain: "is_digit_in 10 c \<Longrightarrow> \<not> c_isspace c \<and> c \<noteq> CHR ''-'' \<and> c \<noteq> CHR ''+''"
  by (auto simp: is_digit_in_def digit_val_def c_isdigit_def c_isupper_def c_islower_def
      c_isspace_def split: if_splits)

lemma strtol_show_nat:
  assumes "r = [] \<or> \<not> is_digit_in 10 (hd r)" "n < 2 ^ 63"
  shows "strtol 10 (show_nat n @ r) = (int n, r)"
proof -
  obtain c s where cs: "show_nat n = c # s" by (cases "show_nat n") auto
  with show_nat_digits [of n] have c: "is_digit_in 10 c" by simp
  have d: "dropWhile c_isspace (show_nat n @ r) = show_nat n @ r"
    "strip_sign (show_nat n @ r) = (False, show_nat n @ r)"
    using digit_10_plain [OF c] by (simp_all add: cs strip_sign_def)
  have "takeWhile (is_digit_in 10) (show_nat n @ r) = show_nat n"
    "dropWhile (is_digit_in 10) (show_nat n @ r) = r"
    using assms(1) show_nat_digits [of n] by (cases r; simp)+
  with d assms(2) show ?thesis
    by (simp add: strtol_def strip_0x_def digits_val_show_nat)
qed

lemma atoi_show_nat: "n < 2 ^ 31 \<Longrightarrow> atoi (show_nat n) = int n"
  using strtol_show_nat [of "[]" n] by (simp add: atoi_def to_int32_id)

end
