(* ===== verification/PList.thy ===== *)
theory PList
  imports CPrelude "HOL-Library.Multiset"
begin

text \<open>
  \<open>plist_t\<close> of utils.c: the singly linked list that associates a pointer with an
  \<open>unsigned long\<close> key.  A list is the HOL list of its nodes (the empty list is NULL), the
  loops over \<open>next\<close> are recursion.  The pointer of a node is an option (\<open>None\<close> is NULL);
  the operations that release nodes also return the non-NULL pointers they pass to
  \<open>free\<close> and the descriptors they close.
\<close>

record 'a plist_s =
  pkey :: u64
  paux :: "'a option"

type_synonym 'a plist_t = "'a plist_s list"

fun plist_add :: "'a plist_t \<Rightarrow> u64 \<Rightarrow> 'a option \<Rightarrow> 'a plist_t" where
  "plist_add [] key aux = [\<lparr>pkey = key, paux = aux\<rparr>]"
| "plist_add (t # ts) key aux = t # plist_add ts key aux"

text \<open>Returns the list without the first node of that key, and the pointer freed with it.\<close>

fun plist_del :: "'a plist_t \<Rightarrow> u64 \<Rightarrow> 'a plist_t \<times> 'a list" where
  "plist_del [] key = ([], [])"
| "plist_del (t # ts) key =
     (if pkey t = key then (ts, (case paux t of None \<Rightarrow> [] | Some a \<Rightarrow> [a]))
      else (let (ts', freed) = plist_del ts key in (t # ts', freed)))"

fun plist_in :: "'a plist_t \<Rightarrow> u64 \<Rightarrow> bool" where
  "plist_in [] key = False"
| "plist_in (t # ts) key = (pkey t = key \<or> plist_in ts key)"

text \<open>The key is an \<open>int\<close> here; the comparison converts it to \<open>unsigned long\<close>.\<close>

fun plist_get :: "'a plist_t \<Rightarrow> int \<Rightarrow> 'a option" where
  "plist_get [] key = None"
| "plist_get (t # ts) key = (if pkey t = word_of_int key then paux t else plist_get ts key)"

text \<open>The descriptor stored in a key: \<open>id = t->key\<close> keeps the low 32 bits.\<close>

definition key_fd :: "u64 \<Rightarrow> int" where
  "key_fd k = sint (ucast k :: 32 word)"

text \<open>
  \<open>plist_pop\<close> scans for an open descriptor, closing and dropping the closed ones on the
  way.  The loop yields the node found (its descriptor and pointer), the remaining list, the
  descriptors closed and the pointers freed.  The verdict of \<open>so_closed\<close> on each
  descriptor is the parameter \<open>closed\<close>.
\<close>

fun plist_pop_loop ::
  "(int \<Rightarrow> bool) \<Rightarrow> 'a plist_t \<Rightarrow> int list \<Rightarrow> 'a list \<Rightarrow>
    (int \<times> 'a option) option \<times> 'a plist_t \<times> int list \<times> 'a list" where
  "plist_pop_loop closed [] cl fr = (None, [], cl, fr)"
| "plist_pop_loop closed (t # ts) cl fr =
     (let fd = key_fd (pkey t) in
      if closed fd
      then plist_pop_loop closed ts (cl @ [fd]) (fr @ (case paux t of None \<Rightarrow> [] | Some a \<Rightarrow> [a]))
      else (Some (fd, paux t), ts, cl, fr))"

record 'a pop_result =
  pop_id :: int
  pop_aux :: "'a option"
  pop_list :: "'a plist_t"
  pop_closed :: "int list"
  pop_freed :: "'a list"

definition plist_pop :: "(int \<Rightarrow> bool) \<Rightarrow> 'a plist_t \<Rightarrow> 'a pop_result" where
  "plist_pop closed list =
     (case plist_pop_loop closed list [] [] of
        (None, l, cl, fr) \<Rightarrow>
          \<lparr>pop_id = 0, pop_aux = None, pop_list = l, pop_closed = cl, pop_freed = fr\<rparr>
      | (Some (fd, a), l, cl, fr) \<Rightarrow>
          \<lparr>pop_id = fd, pop_aux = a, pop_list = l, pop_closed = cl, pop_freed = fr\<rparr>)"

fun plist_count :: "'a plist_t \<Rightarrow> nat" where
  "plist_count [] = 0"
| "plist_count (t # ts) = Suc (plist_count ts)"

text \<open>Frees every node; returns the pointers passed to \<open>free\<close>.\<close>

fun plist_free :: "'a plist_t \<Rightarrow> 'a plist_t \<times> 'a list" where
  "plist_free [] = ([], [])"
| "plist_free (t # ts) =
     (let (l, fr) = plist_free ts in (l, (case paux t of None \<Rightarrow> [] | Some a \<Rightarrow> [a]) @ fr))"

section \<open>Lemmas\<close>

text \<open>A descriptor survives being stored as a key.\<close>

lemma key_fd_of: "0 < i \<Longrightarrow> i < 2 ^ 31 \<Longrightarrow> key_fd (word_of_int i) = i"
  by (simp add: key_fd_def unsigned_of_int signed_of_int take_bit_int_eq_self signed_take_bit_int_eq_self)

text \<open>The pointers a list owns.\<close>

definition owned :: "'a plist_t \<Rightarrow> 'a multiset" where
  "owned l = mset (List.map_filter paux l)"

lemma owned_Nil [simp]: "owned [] = {#}"
  by (simp add: owned_def map_filter_simps)

lemma owned_Cons [simp]:
  "owned (t # ts) = mset (case paux t of None \<Rightarrow> [] | Some a \<Rightarrow> [a]) + owned ts"
  by (simp add: owned_def map_filter_simps split: option.splits)

lemma plist_add_append: "plist_add l k a = l @ [\<lparr>pkey = k, paux = a\<rparr>]"
  by (induction l) auto

lemma plist_count_length [simp]: "plist_count l = length l"
  by (induction l) auto

lemma plist_in_iff [simp]: "plist_in l k \<longleftrightarrow> k \<in> pkey ` set l"
  by (induction l) auto

lemma plist_del_count:
  "plist_in l k \<Longrightarrow> Suc (plist_count (fst (plist_del l k))) = plist_count l"
  by (induction l) (auto split: prod.splits)

lemma plist_del_absent: "\<not> plist_in l k \<Longrightarrow> plist_del l k = (l, [])"
  by (induction l) auto

lemma plist_del_owned:
  "plist_del l k = (l', fr) \<Longrightarrow> owned l = owned l' + mset fr"
  by (induction l arbitrary: l' fr) (auto split: if_splits option.splits prod.splits)

lemma plist_free_owned: "plist_free l = (l', fr) \<Longrightarrow> l' = [] \<and> owned l = mset fr"
  by (induction l arbitrary: l' fr) (auto split: prod.splits option.splits)

lemma plist_get_add_absent:
  "\<not> plist_in l (word_of_int k) \<Longrightarrow> plist_get (plist_add l (word_of_int k) a) k = a"
  by (induction l) auto

lemma plist_pop_loop_split:
  "plist_pop_loop closed (dead @ l) cl fr =
     plist_pop_loop closed l (cl @ map (key_fd \<circ> pkey) dead) (fr @ List.map_filter paux dead)"
  if "\<forall>t \<in> set dead. closed (key_fd (pkey t))"
  using that
  by (induction dead arbitrary: cl fr) (auto simp: Let_def map_filter_simps split: option.splits)

lemma plist_pop_all_dead:
  "\<forall>t \<in> set l. closed (key_fd (pkey t)) \<Longrightarrow>
   plist_pop closed l = \<lparr>pop_id = 0, pop_aux = None, pop_list = [],
     pop_closed = map (key_fd \<circ> pkey) l, pop_freed = List.map_filter paux l\<rparr>"
  using plist_pop_loop_split [of l closed "[]" "[]" "[]"] by (simp add: plist_pop_def)

lemma plist_pop_live:
  "\<forall>t \<in> set dead. closed (key_fd (pkey t)) \<Longrightarrow> \<not> closed (key_fd (pkey n)) \<Longrightarrow>
   plist_pop closed (dead @ n # rest) = \<lparr>pop_id = key_fd (pkey n), pop_aux = paux n, pop_list = rest,
     pop_closed = map (key_fd \<circ> pkey) dead, pop_freed = List.map_filter paux dead\<rparr>"
  by (simp add: plist_pop_def plist_pop_loop_split Let_def)

section \<open>The connection cache as a queue\<close>

text \<open>
  The contract its clients rely on: a queue of descriptors, of which \<open>pop\<close> takes the
  first live one.  \<open>contents\<close> is the sequence of (descriptor, credentials) it holds.
\<close>

locale conn_cache =
  fixes push :: "'q \<Rightarrow> u64 \<Rightarrow> 'a option \<Rightarrow> 'q"
    and pop :: "(int \<Rightarrow> bool) \<Rightarrow> 'q \<Rightarrow> int \<times> 'a option \<times> 'q"
    and contents :: "'q \<Rightarrow> (int \<times> 'a option) list"
  assumes contents_push: "contents (push q k a) = contents q @ [(key_fd k, a)]"
    and pop_skips: "contents q = dead @ rest \<Longrightarrow> \<forall>(d, a) \<in> set dead. closed d \<Longrightarrow>
        rest = [] \<or> \<not> closed (fst (hd rest)) \<Longrightarrow> pop closed q = (d, a, q') \<Longrightarrow>
        contents q' = tl rest \<and> (d, a) = (if rest = [] then (0, None) else hd rest)"
begin

lemma pop_fifo:
  assumes "contents q = []" "\<not> closed (key_fd k)"
    and "pop closed (push (push q k a) k2 a2) = (d, b, q')"
  shows "d = key_fd k \<and> b = a \<and> contents q' = [(key_fd k2, a2)]"
  using pop_skips [of "push (push q k a) k2 a2" "[]" _ closed d b q'] assms
  by (auto simp: contents_push)

lemma pop_all_closed:
  assumes "\<forall>(d, a) \<in> set (contents q). closed d" "pop closed q = (d, a, q')"
  shows "d = 0 \<and> a = None \<and> contents q' = []"
  using pop_skips [of q "contents q" "[]" closed d a q'] assms by auto

lemma pop_result_live:
  assumes "pop closed q = (d, a, q')" "d \<noteq> 0"
  shows "\<not> closed d \<and> (d, a) \<in> set (contents q)"
proof -
  let ?P = "\<lambda>(d, a). closed d"
  let ?dead = "takeWhile ?P (contents q)" and ?rest = "dropWhile ?P (contents q)"
  have "?rest = [] \<or> \<not> closed (fst (hd ?rest))"
    using hd_dropWhile [of ?P "contents q"] by (simp only: case_prod_unfold) blast
  moreover have "\<forall>(d, a) \<in> set ?dead. closed d"
    by (auto dest: set_takeWhileD)
  ultimately have r: "(d, a) = (if ?rest = [] then (0, None) else hd ?rest)"
    and nd: "?rest = [] \<or> \<not> closed (fst (hd ?rest))"
    using pop_skips [of q ?dead ?rest closed d a q'] assms(1) by auto
  with assms(2) have "?rest \<noteq> []" "(d, a) = hd ?rest" by (auto split: if_splits)
  then show ?thesis using nd by (metis fst_conv hd_in_set set_dropWhileD)
qed

end

definition pop3 :: "(int \<Rightarrow> bool) \<Rightarrow> 'a plist_t \<Rightarrow> int \<times> 'a option \<times> 'a plist_t" where
  "pop3 closed l = (let r = plist_pop closed l in (pop_id r, pop_aux r, pop_list r))"

lemma plist_pop_cases:
  assumes "map (\<lambda>t. (key_fd (pkey t), paux t)) q = dead @ rest"
    and "\<forall>(d, a) \<in> set dead. closed d" and "rest = [] \<or> \<not> closed (fst (hd rest))"
    and "pop3 closed q = (d, a, q')"
  shows "map (\<lambda>t. (key_fd (pkey t), paux t)) q' = tl rest
    \<and> (d, a) = (if rest = [] then (0, None) else hd rest)"
proof -
  from assms(1) obtain qd qr where q: "q = qd @ qr"
    and d: "dead = map (\<lambda>t. (key_fd (pkey t), paux t)) qd"
    and r: "rest = map (\<lambda>t. (key_fd (pkey t), paux t)) qr"
    by (auto simp: map_eq_append_conv)
  have dead: "\<forall>t \<in> set qd. closed (key_fd (pkey t))" using assms(2) d by auto
  show ?thesis
  proof (cases qr)
    case Nil
    with q dead assms(4) r show ?thesis by (simp add: pop3_def plist_pop_all_dead)
  next
    case (Cons n ns)
    with assms(3) r have "\<not> closed (key_fd (pkey n))" by simp
    with Cons q dead assms(4) r show ?thesis by (auto simp: pop3_def plist_pop_live)
  qed
qed

interpretation cc: conn_cache plist_add pop3 "map (\<lambda>t. (key_fd (pkey t), paux t))"
proof unfold_locales
  fix q :: "'a plist_t" and dead rest closed d a q'
  assume "map (\<lambda>t. (key_fd (pkey t), paux t)) q = dead @ rest"
    "\<forall>(d, a) \<in> set dead. closed d" "rest = [] \<or> \<not> closed (fst (hd rest))"
    "pop3 closed q = (d, a, q')"
  then show "map (\<lambda>t. (key_fd (pkey t), paux t)) q' = tl rest
    \<and> (d, a) = (if rest = [] then (0, None) else hd rest)"
    by (rule plist_pop_cases)
qed (simp add: plist_add_append)

section \<open>Properties\<close>

lemma plist_pop_split:
  "plist_pop closed l =
     (let dead = takeWhile (\<lambda>t. closed (key_fd (pkey t))) l
      in case dropWhile (\<lambda>t. closed (key_fd (pkey t))) l of
           [] \<Rightarrow> \<lparr>pop_id = 0, pop_aux = None, pop_list = [],
                  pop_closed = map (key_fd \<circ> pkey) dead, pop_freed = List.map_filter paux dead\<rparr>
         | n # rest \<Rightarrow> \<lparr>pop_id = key_fd (pkey n), pop_aux = paux n, pop_list = rest,
                  pop_closed = map (key_fd \<circ> pkey) dead, pop_freed = List.map_filter paux dead\<rparr>)"
proof -
  let ?P = "\<lambda>t. closed (key_fd (pkey t))"
  have dead: "\<forall>t \<in> set (takeWhile ?P l). ?P t" by (auto dest: set_takeWhileD)
  show ?thesis
  proof (cases "dropWhile ?P l")
    case Nil
    then have "takeWhile ?P l = l" by (metis append_Nil2 takeWhile_dropWhile_id)
    with dead have "plist_pop closed l = \<lparr>pop_id = 0, pop_aux = None, pop_list = [],
        pop_closed = map (key_fd \<circ> pkey) l, pop_freed = List.map_filter paux l\<rparr>"
      by (intro plist_pop_all_dead) simp
    then show ?thesis unfolding Let_def Nil \<open>takeWhile ?P l = l\<close> by simp
  next
    case (Cons n rest)
    then have "\<not> ?P n" by (metis hd_dropWhile list.distinct(1) list.sel(1))
    with plist_pop_live [OF dead this, of rest] Cons show ?thesis
      by (simp add: Let_def) (metis takeWhile_dropWhile_id)
  qed
qed

lemma mset_map_filter_paux: "mset (List.map_filter paux l) = owned l"
  by (simp add: owned_def)

lemma owned_append: "owned (a @ b) = owned a + owned b"
  by (induction a) (simp_all add: add.assoc)

text \<open>
  Plist_pop, the cache lookup of forward.c, returns the first connection of the list that
  is still open together with its credentials; it closes and releases exactly the dead
  connections before it, in order, and leaves exactly the entries after it.
\<close>

theorem plist_pop_first_open:
  "plist_pop closed l =
     (let dead = takeWhile (\<lambda>t. closed (key_fd (pkey t))) l
      in case dropWhile (\<lambda>t. closed (key_fd (pkey t))) l of
           [] \<Rightarrow> \<lparr>pop_id = 0, pop_aux = None, pop_list = [],
                  pop_closed = map (key_fd \<circ> pkey) dead, pop_freed = List.map_filter paux dead\<rparr>
         | n # rest \<Rightarrow> \<lparr>pop_id = key_fd (pkey n), pop_aux = paux n, pop_list = rest,
                  pop_closed = map (key_fd \<circ> pkey) dead, pop_freed = List.map_filter paux dead\<rparr>)"
  by (rule plist_pop_split)

text \<open>
  Ownership of the credentials.  Every pointer a cache list owns is after a pop either still
  owned by the list, or returned to the caller, or released, each exactly once (a multiset
  equation); a deletion by key releases what it removes, and plist_free releases all.  So no
  credentials are released twice and none are lost.
\<close>

theorem plist_ownership:
  "owned l = owned (pop_list (plist_pop closed l)) + mset (pop_freed (plist_pop closed l))
      + mset (case pop_aux (plist_pop closed l) of None \<Rightarrow> [] | Some a \<Rightarrow> [a])
   \<and> owned l = owned (fst (plist_del l k)) + mset (snd (plist_del l k))
   \<and> fst (plist_free l) = [] \<and> owned l = mset (snd (plist_free l))
   \<and> owned (plist_add l k a) = owned l + mset (case a of None \<Rightarrow> [] | Some x \<Rightarrow> [x])"
proof (intro conjI)
  let ?P = "\<lambda>t. closed (key_fd (pkey t))"
  have "owned l = owned (takeWhile ?P l) + owned (dropWhile ?P l)"
    by (metis owned_append takeWhile_dropWhile_id)
  then show "owned l = owned (pop_list (plist_pop closed l)) + mset (pop_freed (plist_pop closed l))
      + mset (case pop_aux (plist_pop closed l) of None \<Rightarrow> [] | Some a \<Rightarrow> [a])"
    by (cases "dropWhile ?P l") (simp_all only: plist_pop_split Let_def mset_map_filter_paux
          list.case pop_result.simps option.case owned_Nil owned_Cons ac_simps mset.simps add_0)
  show "owned l = owned (fst (plist_del l k)) + mset (snd (plist_del l k))"
    by (rule plist_del_owned) simp
  show "fst (plist_free l) = []" "owned l = mset (snd (plist_free l))"
    using plist_free_owned [of l "fst (plist_free l)" "snd (plist_free l)"] by simp_all
  show "owned (plist_add l k a) = owned l + mset (case a of None \<Rightarrow> [] | Some x \<Rightarrow> [x])"
    by (simp add: plist_add_append owned_append)
qed

end
