(* ===== verification/CString.thy ===== *)
theory CString
  imports CPrelude
begin

text \<open>
  The string routines of utils.c: \<open>strlcpy\<close> and \<open>strlcat\<close> on a destination buffer of
  fixed size, \<open>substr\<close>, \<open>trimr\<close>, the case conversions, \<open>unicode\<close>, \<open>urlencode\<close> and the
  hexadecimal \<open>printmem\<close> and \<open>scanmem\<close>.  A routine that allocates its result returns the
  C string its buffer holds.
\<close>

section \<open>strlcpy and strlcat\<close>

text \<open>
  The copy loop from destination index \<open>d\<close>, with \<open>s\<close> the rest of the source and \<open>n\<close> the room
  left; the first equation is the terminator written when the room is used up, the second the
  copy of the source's own NUL.
\<close>

fun strlcpy_loop :: "string \<Rightarrow> nat \<Rightarrow> string \<Rightarrow> nat \<Rightarrow> string c_result" where
  "strlcpy_loop dst d s 0 = Ret dst"
| "strlcpy_loop dst d s (Suc 0) = buf_write dst d NUL"
| "strlcpy_loop dst d [] (Suc (Suc m)) = buf_write dst d NUL"
| "strlcpy_loop dst d (c # s) (Suc (Suc m)) =
     c_bind (buf_write dst d c) (\<lambda>dst'. strlcpy_loop dst' (Suc d) s (Suc m))"

text \<open>Returns the buffer and the length of the source.\<close>

definition strlcpy :: "string \<Rightarrow> string \<Rightarrow> nat \<Rightarrow> (string \<times> nat) c_result" where
  "strlcpy dst src siz =
     c_bind (if siz \<noteq> 0 then strlcpy_loop dst 0 src siz else Ret dst)
       (\<lambda>dst'. Ret (dst', length src))"

text \<open>The scan of \<open>strlcat\<close> for the end of the destination, within the first \<open>n\<close> characters.\<close>

fun strlcat_scan :: "string \<Rightarrow> nat \<Rightarrow> nat c_result" where
  "strlcat_scan dst 0 = Ret 0"
| "strlcat_scan [] (Suc n) = UB"
| "strlcat_scan (c # dst) (Suc n) =
     (if c = NUL then Ret 0 else c_bind (strlcat_scan dst n) (\<lambda>k. Ret (Suc k)))"

fun strlcat_loop :: "string \<Rightarrow> nat \<Rightarrow> string \<Rightarrow> nat \<Rightarrow> string c_result" where
  "strlcat_loop dst d [] n = buf_write dst d NUL"
| "strlcat_loop dst d (c # s) n =
     (if n \<noteq> 1 then c_bind (buf_write dst d c) (\<lambda>dst'. strlcat_loop dst' (Suc d) s (n - 1))
      else strlcat_loop dst d s n)"

definition strlcat :: "string \<Rightarrow> string \<Rightarrow> nat \<Rightarrow> (string \<times> nat) c_result" where
  "strlcat dst src siz =
     c_bind (strlcat_scan dst siz) (\<lambda>dlen.
       if siz - dlen = 0 then Ret (dst, dlen + length src)
       else c_bind (strlcat_loop dst dlen src (siz - dlen))
              (\<lambda>dst'. Ret (dst', dlen + length src)))"

lemma strlcpy_loop_eq:
  "0 < n \<Longrightarrow> d + n \<le> length dst \<Longrightarrow>
   strlcpy_loop dst d s n =
     Ret (take d dst @ take (n - 1) s @ NUL # drop (Suc (d + length (take (n - 1) s))) dst)"
proof (induction dst d s n rule: strlcpy_loop.induct)
  case (4 dst d c s m)
  then have "strlcpy_loop dst d (c # s) (Suc (Suc m)) = strlcpy_loop (dst[d := c]) (Suc d) s (Suc m)"
    by (simp add: buf_write_def)
  also have "\<dots> = Ret (take (Suc d) (dst[d := c]) @ take m s @ NUL
      # drop (Suc (Suc d + length (take m s))) (dst[d := c]))"
    using 4 by (simp add: buf_write_def)
  finally show ?case using 4
    by (simp add: take_Suc_conv_app_nth drop_update_cancel)
qed (simp_all add: buf_write_def upd_conv_take_nth_drop)

lemma strlcpy_eq:
  assumes "0 < siz" "siz \<le> length dst"
  shows "strlcpy dst src siz =
    Ret (take (siz - 1) src @ NUL # drop (Suc (min (length src) (siz - 1))) dst, length src)"
  using assms by (simp add: strlcpy_def strlcpy_loop_eq)

lemma strlcpy_cstr:
  assumes "0 < siz" "siz \<le> length dst" "NUL \<notin> set src"
  shows "\<exists>dst'. strlcpy dst src siz = Ret (dst', length src) \<and> length dst' = length dst
    \<and> cstr_of dst' = take (siz - 1) src"
proof -
  have "NUL \<notin> set (take (siz - 1) src)" using assms(3) by (meson in_set_takeD)
  then show ?thesis using assms by (auto simp: strlcpy_eq)
qed

lemma strlcat_scan_eq:
  "NUL \<in> set dst \<Longrightarrow> strlcat_scan dst n = Ret (min n (length (cstr_of dst)))"
proof (induction dst n rule: strlcat_scan.induct)
  case (3 c dst n)
  then show ?case by (auto simp: cstr_of_def)
qed auto

lemma strlcat_loop_eq:
  "0 < n \<Longrightarrow> d + n \<le> length dst \<Longrightarrow>
   strlcat_loop dst d s n =
     Ret (take d dst @ take (n - 1) s @ NUL # drop (Suc (d + length (take (n - 1) s))) dst)"
proof (induction dst d s n rule: strlcat_loop.induct)
  case (1 dst d n)
  then show ?case by (simp add: buf_write_def upd_conv_take_nth_drop)
next
  case (2 dst d c s n)
  show ?case
  proof (cases "n = 1")
    case True
    with 2 show ?thesis by simp
  next
    case False
    with 2 have "strlcat_loop dst d (c # s) n = strlcat_loop (dst[d := c]) (Suc d) s (n - 1)"
      by (simp add: buf_write_def)
    also have "\<dots> = Ret (take (Suc d) (dst[d := c]) @ take (n - 2) s @ NUL
        # drop (Suc (Suc d + length (take (n - 2) s))) (dst[d := c]))"
      using 2 False by (simp add: buf_write_def numeral_2_eq_2)
    finally show ?thesis using 2 False
      by (cases n) (simp_all add: take_Suc_conv_app_nth drop_update_cancel numeral_2_eq_2 take_Cons')
  qed
qed

lemma strlcat_cstr:
  assumes "siz \<le> length dst" "NUL \<in> set (take siz dst)" "NUL \<notin> set src"
  shows "\<exists>dst'. strlcat dst src siz = Ret (dst', length (cstr_of dst) + length src)
    \<and> length dst' = length dst \<and> cstr_of dst' = take (siz - 1) (cstr_of dst @ src)"
proof -
  let ?k = "length (cstr_of dst)"
  have N: "NUL \<in> set dst" using assms(2) by (meson in_set_takeD)
  have k: "?k < siz"
  proof (rule ccontr)
    assume "\<not> ?k < siz"
    then have "take siz dst = take siz (cstr_of dst)"
      unfolding cstr_of_def by (metis leI takeWhile_eq_take take_take min.absorb1)
    then show False using assms(2) by (metis cstr_of_noNUL in_set_takeD)
  qed
  have "take ?k dst = cstr_of dst" by (simp add: cstr_of_def takeWhile_eq_take [symmetric])
  then have eq: "strlcat dst src siz = Ret (cstr_of dst @ take (siz - ?k - 1) src @ NUL
      # drop (Suc (?k + length (take (siz - ?k - 1) src))) dst, ?k + length src)"
    using k assms(1) N by (simp add: strlcat_def strlcat_scan_eq strlcat_loop_eq)
  have "NUL \<notin> set (cstr_of dst @ take (siz - ?k - 1) src)"
    using assms(3) by (auto dest: in_set_takeD)
  from cstr_of_append_NUL [OF this] eq k show ?thesis using assms(1)
    by auto
qed

section \<open>substr, trimr and case\<close>

text \<open>
  \<open>substr(src, pos, len)\<close>: the length is compared as \<open>size_t\<close> and stored in an \<open>int\<close>; a
  length of 0 stands for the whole string.  A start beyond the string is read out of bounds.
\<close>

definition substr :: "string \<Rightarrow> int \<Rightarrow> int \<Rightarrow> string c_result" where
  "substr src pos len =
     (let len' = (if len = 0 then to_int32 (int (length src)) else len);
          a = (word_of_int len' :: u64);
          b = (word_of_int (int (length src) - pos) :: u64);
          l = to_int32 (uint (if a < b then a else b))
      in if l \<le> 0 then Ret []
         else if 0 \<le> pos \<and> pos \<le> int (length src) then Ret (take (nat l) (drop (nat pos) src))
         else UB)"

fun trimr_loop :: "string \<Rightarrow> nat \<Rightarrow> string" where
  "trimr_loop buf 0 = []"
| "trimr_loop buf (Suc i) = (if c_isspace (buf ! i) then trimr_loop buf i else take (Suc i) buf)"

definition trimr :: "string \<Rightarrow> string" where
  "trimr buf = trimr_loop buf (length buf)"

definition lowercase :: "string \<Rightarrow> string" where
  "lowercase str = map c_tolower str"

definition uppercase :: "string \<Rightarrow> string" where
  "uppercase str = map c_toupper str"

text \<open>Strings of a length an \<open>int\<close> holds, which every bound below assumes.\<close>

lemma word_of_int_less_u64:
  "0 \<le> i \<Longrightarrow> i < 2 ^ 63 \<Longrightarrow> 0 \<le> j \<Longrightarrow> j < 2 ^ 63 \<Longrightarrow>
   (word_of_int i :: u64) < word_of_int j \<longleftrightarrow> i < j"
  by (simp add: word_less_def uint_word_of_int)

lemma substr_eq:
  assumes "0 \<le> pos" "pos \<le> int (length src)" "0 < len" "len < 2 ^ 31" "length src < 2 ^ 31"
  shows "substr src pos len = Ret (take (nat len) (drop (nat pos) src))"
proof -
  define d where "d = int (length src) - pos"
  have b: "0 \<le> d" "d < 2 ^ 31" using assms by (auto simp: d_def)
  have less: "(word_of_int len :: u64) < word_of_int d \<longleftrightarrow> len < d"
    using assms b by (intro word_of_int_less_u64) auto
  have u: "uint (word_of_int len :: u64) = len" "uint (word_of_int d :: u64) = d"
    using assms b by (auto simp: uint_word_of_int)
  have l: "to_int32 (uint (if (word_of_int len :: u64) < word_of_int d then word_of_int len
      else word_of_int d :: u64)) = min len d"
    using less u assms b by (simp add: to_int32_id min_def)
  have "substr src pos len = (if min len d \<le> 0 then Ret []
      else Ret (take (nat (min len d)) (drop (nat pos) src)))"
  proof -
    have len': "(if len = 0 then to_int32 (int (length src)) else len) = len" using assms by simp
    show ?thesis unfolding substr_def Let_def d_def [symmetric] len' l using assms by simp
  qed
  moreover have "take (nat (min len d)) (drop (nat pos) src) = take (nat len) (drop (nat pos) src)"
    using assms by (simp add: min_def d_def)
  ultimately show ?thesis using assms by (auto simp: d_def)
qed

lemma substr_zero:
  assumes "0 \<le> pos" "pos \<le> int (length src)" "length src < 2 ^ 31"
  shows "substr src pos 0 = Ret (drop (nat pos) src)"
proof (cases "src = []")
  case True
  with assms show ?thesis by (simp add: substr_def to_int32_id)
next
  case False
  have "substr src pos 0 = substr src pos (int (length src))"
    using False assms by (simp add: substr_def to_int32_id)
  with assms False show ?thesis by (simp add: substr_eq)
qed

lemma trimr_loop_eq:
  "i \<le> length buf \<Longrightarrow> trimr_loop buf i = rev (dropWhile c_isspace (rev (take i buf)))"
  by (induction i) (auto simp: take_Suc_conv_app_nth)

lemma trimr_eq: "trimr buf = rev (dropWhile c_isspace (rev buf))"
  by (simp add: trimr_def trimr_loop_eq)

lemma trimr_append: "trimr (s @ ws) = trimr s" if "\<forall>c \<in> set ws. c_isspace c"
  using that by (simp add: trimr_eq dropWhile_append)

lemma trimr_id: "s = [] \<or> \<not> c_isspace (last s) \<Longrightarrow> trimr s = s"
  by (cases s rule: rev_cases) (auto simp: trimr_eq)

lemma trimr_prefix: "\<exists>ws. s = trimr s @ ws \<and> (\<forall>c \<in> set ws. c_isspace c)"
proof -
  have "rev s = takeWhile c_isspace (rev s) @ dropWhile c_isspace (rev s)" by simp
  then have "s = trimr s @ rev (takeWhile c_isspace (rev s))"
    unfolding trimr_eq by (metis rev_append rev_rev_ident)
  then show ?thesis by (metis set_rev set_takeWhileD)
qed

lemma lowercase_strcaseeq: "lowercase a = lowercase b \<longleftrightarrow> strcaseeq a b"
  by (simp add: lowercase_def strcaseeq_def)

lemma length_uppercase [simp]: "length (uppercase s) = length s"
  by (simp add: uppercase_def)

lemma length_lowercase [simp]: "length (lowercase s) = length s"
  by (simp add: lowercase_def)

lemma NUL_in_uppercase [simp]: "NUL \<in> set (uppercase s) \<longleftrightarrow> NUL \<in> set s"
  by (simp add: uppercase_def image_iff) (metis c_toupper_NUL)

section \<open>unicode and urlencode\<close>

text \<open>UTF-16LE of the first 64 characters: the bytes and their number.\<close>

definition unicode :: "string option \<Rightarrow> byte list option \<times> nat" where
  "unicode src = (case src of
       None \<Rightarrow> (None, 0)
     | Some s \<Rightarrow> (let l = min 64 (length s)
                 in (Some (concat (map (\<lambda>c. [of_char c, 0]) (take l s))), 2 * l)))"

definition hextab :: "char list" where
  "hextab = ''0123456789ABCDEF''"

text \<open>\<open>%X\<close> of a byte: no leading zero.\<close>

definition show_hex :: "byte \<Rightarrow> string" where
  "show_hex b = (if unat b < 16 then [hextab ! unat b]
                 else [hextab ! (unat b div 16), hextab ! (unat b mod 16)])"

definition url_plain :: "char \<Rightarrow> bool" where
  "url_plain c \<longleftrightarrow> c_isdigit c \<or> c_islower (c_tolower c)
     \<or> c = CHR ''.'' \<or> c = CHR ''-'' \<or> c = CHR ''_'' \<or> c = CHR ''~''"

text \<open>
  The loop with the buffer written so far (its length is \<open>pos\<close>).  \<open>sprintf\<close> writes a percent
  sign, the digits and a NUL, and \<open>pos\<close> advances by 3 whatever the number of digits, so a
  one-digit value leaves its NUL in the buffer.
\<close>

fun urlencode_loop :: "string \<Rightarrow> string \<Rightarrow> string" where
  "urlencode_loop out [] = out"
| "urlencode_loop out (c # s) =
     urlencode_loop
       (out @ (if url_plain c then [c] else take 3 (CHR ''%'' # show_hex (of_char c) @ [NUL]))) s"

definition urlencode :: "string \<Rightarrow> string" where
  "urlencode str = cstr_of (urlencode_loop [] str @ [NUL])"

lemma length_unicode [simp]:
  "length (the (fst (unicode (Some s)))) = snd (unicode (Some s))"
proof -
  have "length (concat (map (\<lambda>c. [of_char c :: byte, 0]) xs)) = 2 * length xs" for xs
    by (induction xs) auto
  then show ?thesis by (simp add: unicode_def Let_def)
qed

lemma unicode_bound: "snd (unicode src) \<le> 128"
  by (auto simp: unicode_def Let_def split: option.splits)

lemma unicode_inj:
  assumes "fst (unicode (Some s)) = fst (unicode (Some t))" "length s \<le> 64" "length t \<le> 64"
  shows "s = t"
proof -
  have "concat (map (\<lambda>c. [of_char c :: byte, 0]) xs) = concat (map (\<lambda>c. [of_char c, 0]) ys) \<Longrightarrow> xs = ys"
    for xs ys
    by (induction xs ys rule: list_induct2') auto
  then show ?thesis using assms by (simp add: unicode_def Let_def)
qed

section \<open>printmem and scanmem\<close>

definition hexindex :: "int list" where
  "hexindex = [
   -1, -1, -1, -1, -1, -1, -1, -1, -1, -1, -1, -1, -1, -1, -1, -1, -1, -1, -1, -1, -1, -1,
   -1, -1, -1, -1, -1, -1, -1, -1, -1, -1, -1, -1, -1, -1, -1, -1, -1, -1, -1, -1, -1, -1,
   -1, -1, -1, -1, 0, 1, 2, 3, 4, 5, 6, 7, 8, 9, -1, -1, -1, -1, -1, -1, -1, 10, 11, 12, 13,
   14, 15, -1, -1, -1, -1, -1, -1, -1, -1, -1, -1, -1, -1, -1, -1, -1, -1, -1, -1, -1, -1,
   -1, -1, -1, -1, -1, -1, 10, 11, 12, 13, 14, 15, -1, -1, -1, -1, -1, -1, -1, -1, -1, -1,
   -1, -1, -1, -1, -1, -1, -1, -1, -1, -1, -1, -1, -1, -1, -1]"

definition bitmask :: "int \<Rightarrow> byte" where
  "bitmask bitwidth = word_of_int (7 - bitwidth)"

text \<open>\<open>printmem(src, len, bitwidth)\<close> reads \<open>len\<close> bytes of \<open>src\<close>.\<close>

definition printmem :: "byte list \<Rightarrow> nat \<Rightarrow> int \<Rightarrow> string c_result" where
  "printmem src len bitwidth =
     (if length src < len then UB
      else Ret (concat (map (\<lambda>b. [hextab ! unat (drop_bit 4 (b XOR bitmask bitwidth)),
                                  hextab ! unat ((b XOR bitmask bitwidth) AND 15)])
                          (take len src))))"

text \<open>
  The loop of \<open>scanmem\<close>: a character above 127 indexes before the table (\<open>char\<close> is signed);
  a character that is no digit makes the result NULL.
\<close>

fun scanmem_loop :: "string \<Rightarrow> int \<Rightarrow> byte list \<Rightarrow> byte list option c_result" where
  "scanmem_loop (c # d # s) bitwidth acc =
     (if 128 \<le> (of_char c :: nat) \<or> 128 \<le> (of_char d :: nat) then UB
      else let h = hexindex ! of_char c; l = hexindex ! of_char d
           in if h < 0 \<or> l < 0 then Ret None
              else scanmem_loop s bitwidth (acc @ [word_of_int (16 * h + l) XOR bitmask bitwidth]))"
| "scanmem_loop s bitwidth acc = Ret (Some acc)"

definition scanmem :: "string \<Rightarrow> int \<Rightarrow> byte list option c_result" where
  "scanmem src bitwidth =
     (if length src mod 2 \<noteq> 0 then Ret None else scanmem_loop src bitwidth [])"

lemma hexindex_hextab:
  "n < 16 \<Longrightarrow> (of_char (hextab ! n) :: nat) < 128 \<and> hexindex ! of_char (hextab ! n) = int n"
proof -
  assume "n < 16"
  then have "n \<in> set [0..<16]" by simp
  moreover have "\<forall>n \<in> set [0..<16].
    (of_char (hextab ! n) :: nat) < 128 \<and> hexindex ! of_char (hextab ! n) = int n"
    by code_simp
  ultimately show ?thesis by blast
qed

lemma nibbles:
  fixes b :: byte
  shows "unat (drop_bit 4 b) < 16" "unat (b AND 15) < 16"
    "word_of_int (16 * int (unat (drop_bit 4 b)) + int (unat (b AND 15))) = b"
proof -
  have "unat (drop_bit 4 b) = drop_bit 4 (unat b)" by (rule unat_drop_bit_eq)
  then have d: "unat (drop_bit 4 b) = unat b div 16" by (simp only: drop_bit_eq_div) simp
  have "b AND 15 = take_bit 4 b" by (simp add: take_bit_eq_mask mask_eq_exp_minus_1)
  then have "unat (b AND 15) = take_bit 4 (unat b)" by (simp only: unsigned_take_bit_eq)
  then have m: "unat (b AND 15) = unat b mod 16" by (simp only: take_bit_eq_mod) simp
  show "unat (drop_bit 4 b) < 16" using d unsigned_less [of b, where ?'a = nat] by auto
  show "unat (b AND 15) < 16" using m by simp
  have "16 * int (unat (drop_bit 4 b)) + int (unat (b AND 15)) = int (unat b)"
    unfolding d m by presburger
  then show "word_of_int (16 * int (unat (drop_bit 4 b)) + int (unat (b AND 15))) = b"
    by (simp only:) simp
qed

lemma scanmem_loop_print:
  "scanmem_loop (concat (map (\<lambda>b. [hextab ! unat (drop_bit 4 (b XOR m)),
      hextab ! unat ((b XOR m) AND 15)]) bs)) bw acc
   = Ret (Some (acc @ bs))" if "m = bitmask bw"
proof (induction bs arbitrary: acc)
  case (Cons b bs)
  have "(b XOR m) XOR m = b" by (simp add: xor.assoc)
  then show ?case
    using Cons that nibbles [of "b XOR m"] hexindex_hextab [OF nibbles(1) [of "b XOR m"]]
      hexindex_hextab [OF nibbles(2) [of "b XOR m"]]
    by (simp add: Let_def not_le)
qed simp

section \<open>Properties\<close>

text \<open>
  The bounded string copies.  On a destination of at least siz characters, strlcpy leaves the
  buffer's size alone and stores the source cut to siz - 1 characters; strlcat on a buffer that
  holds a C string within its first siz characters appends the source, cut so that the result
  has at most siz - 1 characters; both return the length the uncut result would have and neither
  writes outside the buffer.
\<close>

theorem strlcpy_strlcat_bounded:
  assumes "0 < siz" "siz \<le> length dst" "NUL \<notin> set src" "NUL \<notin> set more"
  shows "\<exists>d1 d2. strlcpy dst src siz = Ret (d1, length src) \<and> length d1 = length dst
     \<and> cstr_of d1 = take (siz - 1) src
     \<and> strlcat d1 more siz = Ret (d2, min (siz - 1) (length src) + length more)
     \<and> length d2 = length dst \<and> cstr_of d2 = take (siz - 1) (take (siz - 1) src @ more)"
proof -
  from strlcpy_cstr [OF assms(1-3)] obtain d1 where d1: "strlcpy dst src siz = Ret (d1, length src)"
    "length d1 = length dst" "cstr_of d1 = take (siz - 1) src" by blast
  from assms strlcpy_eq [of siz dst src] d1(1)
  have "d1 = take (siz - 1) src @ NUL # drop (Suc (min (length src) (siz - 1))) dst" by simp
  moreover have "Suc (siz - Suc (length (take (siz - 1) src))) = siz - length (take (siz - 1) src)"
    using assms(1) by auto
  ultimately have "NUL \<in> set (take siz d1)" by (metis in_set_conv_decomp take_Suc_Cons take_append)
  from strlcat_cstr [OF _ this assms(4)] d1 assms(2) obtain d2 where
    "strlcat d1 more siz = Ret (d2, length (cstr_of d1) + length more)" "length d2 = length dst"
    "cstr_of d2 = take (siz - 1) (cstr_of d1 @ more)" by auto
  with d1 show ?thesis by (auto simp: min.commute)
qed

theorem strlcpy_strlcat_bounded_witness:
  "\<exists>d1 d2. strlcpy (replicate 6 CHR ''x'') ''abc'' 5 = Ret (d1, 3) \<and> length d1 = 6
     \<and> cstr_of d1 = ''abc'' \<and> strlcat d1 ''defg'' 5 = Ret (d2, 7)
     \<and> length d2 = 6 \<and> cstr_of d2 = ''abcd''"
  using strlcpy_strlcat_bounded [of 5 "replicate 6 CHR ''x''" "''abc''" "''defg''"]
  by (simp add: numeral_eq_Suc)

lemma urlencode_loop_append:
  "urlencode_loop out s = out @ concat (map (\<lambda>c.
     if url_plain c then [c] else take 3 (CHR ''%'' # show_hex (of_char c) @ [NUL])) s)"
  by (induction s arbitrary: out) auto

definition url_ok :: "char \<Rightarrow> bool" where
  "url_ok c \<longleftrightarrow> url_plain c \<or> 16 \<le> (of_char c :: nat)"

definition url_code :: "char \<Rightarrow> string" where
  "url_code c = (if url_plain c then [c] else CHR ''%'' # show_hex (of_char c))"

lemma set_hextab: "n < 16 \<Longrightarrow> hextab ! n \<noteq> NUL"
  using hexindex_hextab [of n] by (auto simp: hexindex_def)

lemma url_plain_NUL [simp]: "\<not> url_plain NUL"
  by (simp add: url_plain_def c_isdigit_def c_islower_def c_tolower_def c_isupper_def)

lemma url_code_noNUL: "NUL \<notin> set (url_code c)"
proof -
  have "(of_char c :: nat) div 16 < 16"
    using nat_of_char_less_256 [of c] by (simp add: less_mult_imp_div_less)
  then show ?thesis
    using set_hextab [of "(of_char c :: nat) div 16"] set_hextab [of "(of_char c :: nat) mod 16"]
      set_hextab [of "of_char c"]
    by (auto simp: url_code_def show_hex_def) 
qed

lemma url_step:
  "(if url_plain c then [c] else take 3 (CHR ''%'' # show_hex (of_char c) @ [NUL])) =
     url_code c @ (if url_ok c then [] else [NUL])"
  by (simp add: url_code_def url_ok_def show_hex_def numeral_3_eq_3)

text \<open>
  What urlencode produces.  Letters, digits and ". - _ ~" stand for themselves and every other
  character from code 16 on becomes a percent sign and two hexadecimal digits, up to the first
  character below code 16 (a tab, a line feed): its code has one digit only, the terminating NUL
  of sprintf stays in the buffer, and the rest of the input is lost.
\<close>

theorem urlencode_result:
  "urlencode s = concat (map url_code (takeWhile url_ok s))
     @ (case dropWhile url_ok s of [] \<Rightarrow> [] | c # _ \<Rightarrow> url_code c)"
proof -
  have "cstr_of (concat (map (\<lambda>c. url_code c @ (if url_ok c then [] else [NUL])) s) @ [NUL]) =
      concat (map url_code (takeWhile url_ok s))
       @ (case dropWhile url_ok s of [] \<Rightarrow> [] | c # _ \<Rightarrow> url_code c)"
  proof (induction s)
    case (Cons c s)
    have pre: "cstr_of (url_code c @ r) = url_code c @ cstr_of r" for r
      using url_code_noNUL [of c] unfolding cstr_of_def by (subst takeWhile_append2) auto
    show ?case using Cons pre by (cases "url_ok c") (simp_all add: cstr_of_def)
  qed (simp add: cstr_of_def)
  then show ?thesis unfolding urlencode_def urlencode_loop_append url_step by simp
qed

text \<open>
  Substr on a position inside the string returns the len characters from there on (fewer when
  the string ends), a length of 0 stands for everything up to the end of the string, and the
  access stays inside the string.
\<close>

theorem substr_slice:
  assumes "0 \<le> pos" "pos \<le> int (length src)" "0 \<le> len" "len < 2 ^ 31" "length src < 2 ^ 31"
  shows "substr src pos len =
    Ret (if len = 0 then drop (nat pos) src else take (nat len) (drop (nat pos) src))"
  using assms substr_zero [of pos src] substr_eq [of pos src len] by auto

theorem substr_slice_witness:
  "substr ''Content-Length: 17'' 14 2 = Ret '': '' \<and> substr ''Host'' 1 0 = Ret ''ost''"
  using substr_slice [of 14 "''Content-Length: 17''" 2] substr_slice [of 1 "''Host''" 0]
  by simp

end
