(* ===== verification/Base64.thy ===== *)
theory Base64
  imports CString
begin

text \<open>
  The base 64 coder of utils.c: \<open>to_base64\<close> with the bound \<open>olen\<close> of the output buffer, and
  \<open>from_base64\<close> with its table lookups and error returns.  Both directions meet in the locale
  \<open>codec\<close>, whose lemmas give injectivity of the encoders; it is interpreted on base 64 and
  on the hexadecimal pair \<open>printmem\<close> and \<open>scanmem\<close>.
\<close>

definition base64 :: "char list" where
  "base64 = ''ABCDEFGHIJKLMNOPQRSTUVWXYZabcdefghijklmnopqrstuvwxyz0123456789+/''"

definition index64 :: "int list" where
  "index64 = [
   -1, -1, -1, -1, -1, -1, -1, -1, -1, -1, -1, -1, -1, -1, -1, -1, -1, -1, -1, -1, -1, -1,
   -1, -1, -1, -1, -1, -1, -1, -1, -1, -1, -1, -1, -1, -1, -1, -1, -1, -1, -1, -1, -1, 62,
   -1, -1, -1, 63, 52, 53, 54, 55, 56, 57, 58, 59, 60, 61, -1, -1, -1, -1, -1, -1, -1, 0, 1,
   2, 3, 4, 5, 6, 7, 8, 9, 10, 11, 12, 13, 14, 15, 16, 17, 18, 19, 20, 21, 22, 23, 24, 25,
   -1, -1, -1, -1, -1, -1, 26, 27, 28, 29, 30, 31, 32, 33, 34, 35, 36, 37, 38, 39, 40, 41,
   42, 43, 44, 45, 46, 47, 48, 49, 50, 51, -1, -1, -1, -1, -1]"

text \<open>\<open>base64val\<close>, only used on characters below 128.\<close>

definition base64val :: "char \<Rightarrow> int" where
  "base64val c = index64 ! of_char c"

section \<open>Encoding\<close>

text \<open>The clean-up of the remainder: it needs more than 4 bytes of room.\<close>

fun to_base64_rest :: "byte list \<Rightarrow> nat \<Rightarrow> string" where
  "to_base64_rest [] olen = []"
| "to_base64_rest (a # r) olen =
     (if 4 < olen then
        [base64 ! unat (drop_bit 2 a),
         base64 ! unat ((push_bit 4 a AND 0x30) OR (case r of [] \<Rightarrow> 0 | b # _ \<Rightarrow> drop_bit 4 b)),
         (case r of [] \<Rightarrow> CHR ''='' | b # _ \<Rightarrow> base64 ! unat (push_bit 2 b AND 0x3c)),
         CHR ''='']
      else [])"

text \<open>The characters written before the terminating NUL.\<close>

fun to_base64 :: "byte list \<Rightarrow> nat \<Rightarrow> string" where
  "to_base64 (a # b # c # r) olen =
     (if 10 < olen then
        base64 ! unat (drop_bit 2 a)
        # base64 ! unat ((push_bit 4 a AND 0x30) OR drop_bit 4 b)
        # base64 ! unat ((push_bit 2 b AND 0x3c) OR drop_bit 6 c)
        # base64 ! unat (c AND 0x3f)
        # to_base64 r (olen - 4)
      else to_base64_rest (a # b # c # r) olen)"
| "to_base64 bs olen = to_base64_rest bs olen"

section \<open>Decoding\<close>

definition bad_digit :: "char \<Rightarrow> bool" where
  "bad_digit c \<longleftrightarrow> (of_char c :: nat) > 127 \<or> base64val c = -1"

definition b64byte :: "char \<Rightarrow> byte" where
  "b64byte c = word_of_int (base64val c)"

text \<open>The bytes one group of four digits yields: one, two or three.\<close>

definition b64_group :: "char \<Rightarrow> char \<Rightarrow> char \<Rightarrow> char \<Rightarrow> byte list" where
  "b64_group d1 d2 d3 d4 =
     (push_bit 2 (b64byte d1) OR drop_bit 4 (b64byte d2))
     # (if d3 \<noteq> CHR ''='' then
          ((push_bit 4 (b64byte d2) AND 0xf0) OR drop_bit 2 (b64byte d3))
          # (if d4 \<noteq> CHR ''='' then [(push_bit 6 (b64byte d3) AND 0xc0) OR b64byte d4] else [])
        else [])"

text \<open>
  The loop with the bytes written so far: the return value (\<open>-1\<close> on a bad digit) and the bytes
  in the output buffer, which keeps what was decoded before an error.  Reading the terminating
  NUL gives a bad digit, so fewer than four characters are an error.
\<close>

fun from_base64_loop :: "byte list \<Rightarrow> string \<Rightarrow> int \<times> byte list" where
  "from_base64_loop out (d1 # d2 # d3 # d4 # s) =
     (if bad_digit d1 \<or> bad_digit d2 then (-1, out)
      else if d3 \<noteq> CHR ''='' \<and> bad_digit d3 then (-1, out)
      else if d4 \<noteq> CHR ''='' \<and> bad_digit d4 then (-1, out)
      else
        let out' = out @ b64_group d1 d2 d3 d4
        in if s \<noteq> [] \<and> d4 \<noteq> CHR ''='' then from_base64_loop out' s
           else (int (length out'), out'))"
| "from_base64_loop out s = (-1, out)"

definition from_base64 :: "string \<Rightarrow> int \<times> byte list" where
  "from_base64 s = from_base64_loop [] s"

section \<open>Lemmas\<close>

lemma base64_index64: "map (\<lambda>c. index64 ! of_char c) base64 = map int [0..<64]"
  by code_simp

lemma base64_plain: "list_all (\<lambda>c. (of_char c :: nat) \<le> 127 \<and> c \<noteq> CHR ''='' \<and> c \<noteq> NUL) base64"
  by code_simp

lemma base64_tables:
  assumes "n < 64"
  shows "(of_char (base64 ! n) :: nat) \<le> 127" "base64 ! n \<noteq> CHR ''=''" "base64 ! n \<noteq> NUL"
    "base64val (base64 ! n) = int n"
proof -
  have len: "length base64 = 64" by (simp add: base64_def)
  then show "(of_char (base64 ! n) :: nat) \<le> 127" "base64 ! n \<noteq> CHR ''=''" "base64 ! n \<noteq> NUL"
    using base64_plain assms by (auto simp: list_all_length)
  have "map (\<lambda>c. index64 ! of_char c) base64 ! n = map int [0..<64] ! n"
    by (simp only: base64_index64)
  then show "base64val (base64 ! n) = int n" using assms len by (simp add: base64val_def)
qed

text \<open>The digit of a 6-bit value.\<close>

lemma digit64:
  assumes "take_bit 6 v = (v :: byte)"
  shows "\<not> bad_digit (base64 ! unat v)" "base64 ! unat v \<noteq> CHR ''=''" "b64byte (base64 ! unat v) = v"
    "base64 ! unat v \<noteq> NUL"
proof -
  define n where "n = unat v"
  have "n = take_bit 6 n" using assms unfolding n_def by (metis unsigned_take_bit_eq)
  then have "n < 64" by (simp add: take_bit_eq_mod)
  moreover have "word_of_int (int n) = v" by (simp add: n_def)
  ultimately show "\<not> bad_digit (base64 ! unat v)" "base64 ! unat v \<noteq> CHR ''=''" "base64 ! unat v \<noteq> NUL"
    "b64byte (base64 ! unat v) = v"
    unfolding n_def [symmetric] using base64_tables [of n] by (auto simp: bad_digit_def b64byte_def)
qed

lemma sextets:
  fixes a b c :: byte
  shows "take_bit 6 (drop_bit 2 a) = drop_bit 2 a"
    "take_bit 6 ((push_bit 4 a AND 0x30) OR drop_bit 4 b) = (push_bit 4 a AND 0x30) OR drop_bit 4 b"
    "take_bit 6 ((push_bit 2 b AND 0x3c) OR drop_bit 6 c) = (push_bit 2 b AND 0x3c) OR drop_bit 6 c"
    "take_bit 6 (c AND 0x3f) = c AND 0x3f"
    "take_bit 6 (push_bit 4 a AND 0x30) = push_bit 4 a AND 0x30"
    "take_bit 6 (push_bit 2 b AND 0x3c) = push_bit 2 b AND 0x3c"
  by (rule byte_eqI; simp add: bit_simps)+

lemmas sextet_digits [simp] =
  digit64 [OF sextets(1)] digit64 [OF sextets(2)] digit64 [OF sextets(3)] digit64 [OF sextets(4)]
  digit64 [OF sextets(5)] digit64 [OF sextets(6)]
  digit64(4) [OF sextets(1), THEN not_sym] digit64(4) [OF sextets(2), THEN not_sym]
  digit64(4) [OF sextets(3), THEN not_sym] digit64(4) [OF sextets(4), THEN not_sym]
  digit64(4) [OF sextets(5), THEN not_sym] digit64(4) [OF sextets(6), THEN not_sym]

lemma regroup [simp]:
  fixes a b c :: byte
  shows "push_bit 2 (drop_bit 2 a) OR drop_bit 4 ((push_bit 4 a AND 0x30) OR drop_bit 4 b) = a"
    "(push_bit 4 ((push_bit 4 a AND 0x30) OR drop_bit 4 b) AND 0xf0)
       OR drop_bit 2 ((push_bit 2 b AND 0x3c) OR drop_bit 6 c) = b"
    "(push_bit 6 ((push_bit 2 b AND 0x3c) OR drop_bit 6 c) AND 0xc0) OR (c AND 0x3f) = c"
    "push_bit 2 (drop_bit 2 a) OR drop_bit 4 (push_bit 4 a AND 0x30) = a"
    "(push_bit 4 ((push_bit 4 a AND 0x30) OR drop_bit 4 b) AND 0xf0)
       OR drop_bit 2 (push_bit 2 b AND 0x3c) = b"
  by (rule byte_eqI; simp add: bit_simps)+

lemma regroup_nf [simp]:
  fixes a b c :: byte
  shows "push_bit 2 (drop_bit 2 a) OR drop_bit 4 (push_bit 4 a) AND 3 = a"
    "push_bit 4 (drop_bit 4 b) AND 240 OR drop_bit 2 (push_bit 2 b) AND 15 = b"
    "push_bit 6 (drop_bit 6 c) AND 192 OR c AND 63 = c"
  by (rule byte_eqI; simp add: bit_simps)+

text \<open>The encoder never writes past the bound it is given.\<close>

lemma to_base64_rest_bound: "0 < olen \<Longrightarrow> Suc (length (to_base64_rest bs olen)) \<le> olen"
  by (cases bs) auto

lemma to_base64_bound: "0 < olen \<Longrightarrow> Suc (length (to_base64 bs olen)) \<le> olen"
proof (induction bs olen rule: to_base64.induct)
  case (1 a b c r olen)
  show ?case
  proof (cases "10 < olen")
    case True
    with 1 have "Suc (length (to_base64 r (olen - 4))) \<le> olen - 4" by simp
    with True show ?thesis by simp
  next
    case False
    with to_base64_rest_bound [OF "1.prems", of "a # b # c # r"] show ?thesis by simp
  qed
qed auto

definition b64_room :: "nat \<Rightarrow> nat" where
  "b64_room n = 4 * ((n + 2) div 3) + 7"

lemma b64_room_add3: "b64_room (Suc (Suc (Suc n))) = b64_room n + 4"
  unfolding b64_room_def by presburger

lemma b64_room_ge: "11 \<le> b64_room (Suc n)"
  unfolding b64_room_def by presburger

lemma to_base64_noNUL: "NUL \<notin> set (to_base64 bs olen)"
  by (induction bs olen rule: to_base64.induct) (auto split: list.splits)

lemma from_base64_step:
  "from_base64_loop out
     (base64 ! unat (drop_bit 2 a)
      # base64 ! unat ((push_bit 4 a AND 0x30) OR drop_bit 4 b)
      # base64 ! unat ((push_bit 2 b AND 0x3c) OR drop_bit 6 c)
      # base64 ! unat (c AND 0x3f) # s) =
   (if s \<noteq> [] then from_base64_loop (out @ [a, b, c]) s
    else (int (length (out @ [a, b, c])), out @ [a, b, c]))"
  by (simp add: Let_def b64_group_def)

lemma to_base64_nonempty: "bs \<noteq> [] \<Longrightarrow> 4 < olen \<Longrightarrow> to_base64 bs olen \<noteq> []"
  by (cases "(bs, olen)" rule: to_base64.cases) auto

lemma from_base64_loop_to_base64:
  "bs \<noteq> [] \<Longrightarrow> b64_room (length bs) \<le> olen \<Longrightarrow>
   from_base64_loop out (to_base64 bs olen) = (int (length (out @ bs)), out @ bs)"
proof (induction bs olen arbitrary: out rule: to_base64.induct)
  case (1 a b c r olen)
  have room: "b64_room (length r) \<le> olen - 4" "10 < olen"
    using "1.prems" b64_room_ge [of "Suc (Suc (length r))"] by (auto simp: b64_room_add3)
  show ?case
  proof (cases "r = []")
    case True
    then have "to_base64 (a # b # c # r) olen = base64 ! unat (drop_bit 2 a)
      # base64 ! unat ((push_bit 4 a AND 0x30) OR drop_bit 4 b)
      # base64 ! unat ((push_bit 2 b AND 0x3c) OR drop_bit 6 c) # base64 ! unat (c AND 0x3f) # []"
      using room(2) by simp
    then show ?thesis using True by (simp only: from_base64_step) simp
  next
    case False
    have ne: "to_base64 r (olen - 4) \<noteq> []"
      using False room by (intro to_base64_nonempty) auto
    have "from_base64_loop out (to_base64 (a # b # c # r) olen)
      = from_base64_loop (out @ [a, b, c]) (to_base64 r (olen - 4))"
      unfolding to_base64.simps if_P [OF room(2)] from_base64_step if_P [OF ne] ..
    then show ?thesis using "1.IH" [OF room(2) False room(1)] by simp
  qed
qed (auto simp: b64_room_def Let_def b64_group_def)

lemma from_base64_to_base64:
  "bs \<noteq> [] \<Longrightarrow> b64_room (length bs) \<le> olen \<Longrightarrow>
   from_base64 (to_base64 bs olen) = (int (length bs), bs)"
  by (simp add: from_base64_def from_base64_loop_to_base64)

lemma to_base64_length:
  "b64_room (length bs) \<le> olen \<Longrightarrow> length (to_base64 bs olen) = 4 * ((length bs + 2) div 3)"
proof (induction bs olen rule: to_base64.induct)
  case (1 a b c r olen)
  then have "b64_room (length r) \<le> olen - 4" "10 < olen"
    using b64_room_ge [of "Suc (Suc (length r))"] by (auto simp: b64_room_add3)
  moreover have "(Suc (Suc (Suc (length r))) + 2) div 3 = Suc ((length r + 2) div 3)" by presburger
  ultimately show ?case using 1 by (simp del: One_nat_def)
qed (auto simp: b64_room_def)

text \<open>The decoder writes at most three bytes for every four characters.\<close>

lemma from_base64_loop_bound:
  "length (snd (from_base64_loop out s)) \<le> length out + 3 * (length s div 4)"
proof (induction out s rule: from_base64_loop.induct)
  case (1 out d1 d2 d3 d4 s)
  have "length (b64_group a b c d) \<le> 3" for a b c d by (simp add: b64_group_def)
  then have grp: "length (b64_group a b c d) \<le> 3 + n" for a b c d n by (rule trans_le_add1)
  have q: "length (d1 # d2 # d3 # d4 # s) div 4 = Suc (length s div 4)" by simp
  show ?case
  proof (cases "(bad_digit d1 \<or> bad_digit d2) \<or> d3 \<noteq> CHR ''='' \<and> bad_digit d3 \<or> d4 \<noteq> CHR ''='' \<and> bad_digit d4")
    case False
    note this [simp]
    show ?thesis
    proof (cases "s \<noteq> [] \<and> d4 \<noteq> CHR ''=''")
      case True
      with 1 False have "length (snd (from_base64_loop (out @ b64_group d1 d2 d3 d4) s))
        \<le> length (out @ b64_group d1 d2 d3 d4) + 3 * (length s div 4)" by blast
      also have "\<dots> \<le> length out + 3 * (length (d1 # d2 # d3 # d4 # s) div 4)"
        unfolding q using grp [of d1 d2 d3 d4 0] by simp
      finally show ?thesis using True False by (auto simp: Let_def)
    next
      case False': False
      have "length (out @ b64_group d1 d2 d3 d4) \<le> length out + 3 * (length (d1 # d2 # d3 # d4 # s) div 4)"
        unfolding q using grp [of d1 d2 d3 d4 "3 * (length s div 4)"] by simp
      with False False' show ?thesis by (auto simp: Let_def)
    qed
  qed auto
qed auto

section \<open>Coders in general\<close>

locale codec =
  fixes enc :: "byte list \<Rightarrow> string" and dec :: "string \<Rightarrow> byte list option"
    and dom_ok :: "byte list \<Rightarrow> bool"
  assumes dec_enc: "dom_ok bs \<Longrightarrow> dec (enc bs) = Some bs"
    and enc_cstr: "NUL \<notin> set (enc bs)"
begin

lemma enc_inj: "inj_on enc (Collect dom_ok)"
proof (rule inj_onI)
  fix a b assume "a \<in> Collect dom_ok" "b \<in> Collect dom_ok" "enc a = enc b"
  then show "a = b" by (metis dec_enc mem_Collect_eq option.inject)
qed

lemma dec_cstr_enc: "dom_ok bs \<Longrightarrow> dec (cstr_of (enc bs)) = Some bs"
  by (simp only: cstr_of_id [OF enc_cstr] dec_enc)

end

definition b64_enc :: "nat \<Rightarrow> byte list \<Rightarrow> string" where
  "b64_enc olen bs = to_base64 bs olen"

definition b64_dec :: "string \<Rightarrow> byte list option" where
  "b64_dec s = (case from_base64 s of (n, bs) \<Rightarrow> if n = -1 then None else Some bs)"

definition b64_ok :: "nat \<Rightarrow> byte list \<Rightarrow> bool" where
  "b64_ok olen bs \<longleftrightarrow> bs \<noteq> [] \<and> b64_room (length bs) \<le> olen"

interpretation b64: codec "b64_enc olen" b64_dec "b64_ok olen"
  by unfold_locales
    (auto simp: b64_enc_def b64_dec_def b64_ok_def from_base64_to_base64 to_base64_noNUL)

definition hex_enc :: "int \<Rightarrow> byte list \<Rightarrow> string" where
  "hex_enc bw bs = (case printmem bs (length bs) bw of UB \<Rightarrow> [] | Ret s \<Rightarrow> s)"

definition hex_dec :: "int \<Rightarrow> string \<Rightarrow> byte list option" where
  "hex_dec bw s = (case scanmem s bw of UB \<Rightarrow> None | Ret r \<Rightarrow> r)"

lemma scanmem_printmem:
  assumes "len \<le> length bs"
  shows "\<exists>s. printmem bs len bw = Ret s \<and> length s = 2 * len \<and> scanmem s bw = Ret (Some (take len bs))"
proof -
  have len: "length (concat (map (\<lambda>b. [f b, g b]) xs)) = 2 * length xs"
    for f g :: "byte \<Rightarrow> char" and xs by (induction xs) auto
  show ?thesis using assms scanmem_loop_print [OF refl, where bs = "take len bs" and acc = "[]" and bw = bw]
    by (simp add: printmem_def scanmem_def len)
qed

lemma hextab_noNUL: "n < 16 \<Longrightarrow> hextab ! n \<noteq> NUL"
  using hexindex_hextab [of n] by (auto simp: hexindex_def)

interpretation hex: codec "hex_enc bw" "hex_dec bw" "\<lambda>_. True"
proof unfold_locales
  show "hex_dec bw (hex_enc bw bs) = Some bs" for bs
    using scanmem_printmem [of "length bs" bs bw] by (auto simp: hex_enc_def hex_dec_def)
  have noNUL: "NUL \<notin> set (concat (map (\<lambda>b. [hextab ! unat (drop_bit 4 (f b)), hextab ! unat (f b AND 15)]) xs))"
    for f :: "byte \<Rightarrow> byte" and xs
    using hextab_noNUL [OF nibbles(1)] hextab_noNUL [OF nibbles(2)] by (induction xs) (simp_all, metis)
  show "NUL \<notin> set (hex_enc bw bs)" for bs
    using noNUL [of "\<lambda>b. b XOR bitmask bw" bs] by (simp add: hex_enc_def printmem_def)
qed

section \<open>Properties\<close>

text \<open>
  Base64 round trip.  On an output buffer with room for the encoding, from_base64 reads back
  exactly the bytes to_base64 wrote and their number, whatever the bytes.
\<close>

theorem base64_roundtrip:
  "bs \<noteq> [] \<Longrightarrow> b64_room (length bs) \<le> olen \<Longrightarrow>
   from_base64 (to_base64 bs olen) = (int (length bs), bs)
   \<and> length (to_base64 bs olen) = 4 * ((length bs + 2) div 3)"
  by (simp add: from_base64_to_base64 to_base64_length)

theorem base64_roundtrip_witness:
  "from_base64 (to_base64 [77, 0, 255, 128] 16) = (4, [77, 0, 255, 128])
   \<and> to_base64 [77, 0, 255, 128] 16 = ''TQD/gA==''"
  using base64_roundtrip [of "[77, 0, 255, 128]" 16] by (simp add: b64_room_def) code_simp

text \<open>
  The coders stay in their buffers.  to_base64 writes at most olen characters with its
  terminator, however long the input is, and from_base64 writes at most three bytes for every
  four characters it reads.
\<close>

theorem base64_bounds:
  "(0 < olen \<longrightarrow> Suc (length (to_base64 bs olen)) \<le> olen)
   \<and> length (snd (from_base64 s)) \<le> 3 * (length s div 4)"
  using to_base64_bound [of olen bs] from_base64_loop_bound [of "[]" s] by (simp add: from_base64_def)

theorem base64_bounds_witness:
  "Suc (length (to_base64 [1, 2, 3, 4, 5] 8)) \<le> 8 \<and> length (snd (from_base64 ''TQD/gA==''))  \<le> 6"
  using base64_bounds [of 8 "[1, 2, 3, 4, 5]" "''TQD/gA==''"] by simp

text \<open>
  Printmem and scanmem, which write and read the password hashes of the configuration file,
  are inverse for every bit width: the printed form has two digits per byte and reads back to the
  same bytes.
\<close>

theorem hex_roundtrip:
  "\<exists>s. printmem bs (length bs) bw = Ret s \<and> length s = 2 * length bs \<and> scanmem s bw = Ret (Some bs)"
  using scanmem_printmem [of "length bs" bs bw] by simp

end
