(* ===== verification/Swap.thy ===== *)
theory Swap
  imports CPrelude
begin

text \<open>
  swap.h: the byte swaps and the conversions to a fixed byte order, on both endiannesses, with
  the stores and loads of 16, 32 and 64-bit values (the macro VAL of utils.h).  The value of
  \<open>config_endian\<close> is an argument: 0 stands for a big-endian machine.
\<close>

section \<open>The swaps\<close>

definition swap16 :: "u16 \<Rightarrow> u16" where
  "swap16 x = push_bit 8 (x AND 0x00ff) OR drop_bit 8 (x AND 0xff00)"

definition swap32 :: "u32 \<Rightarrow> u32" where
  "swap32 x = push_bit 24 (x AND 0x000000ff) OR push_bit 8 (x AND 0x0000ff00)
     OR drop_bit 8 (x AND 0x00ff0000) OR drop_bit 24 (x AND 0xff000000)"

definition swap64 :: "u64 \<Rightarrow> u64" where
  "swap64 x = drop_bit 56 (x AND 0xff00000000000000) OR drop_bit 40 (x AND 0x00ff000000000000)
     OR drop_bit 24 (x AND 0x0000ff0000000000) OR drop_bit 8 (x AND 0x000000ff00000000)
     OR push_bit 8 (x AND 0x00000000ff000000) OR push_bit 24 (x AND 0x0000000000ff0000)
     OR push_bit 40 (x AND 0x000000000000ff00) OR push_bit 56 (x AND 0x00000000000000ff)"

definition U16LE :: "nat \<Rightarrow> u16 \<Rightarrow> u16" where "U16LE endian x = (if endian = 0 then swap16 x else x)"
definition U32LE :: "nat \<Rightarrow> u32 \<Rightarrow> u32" where "U32LE endian x = (if endian = 0 then swap32 x else x)"
definition U64LE :: "nat \<Rightarrow> u64 \<Rightarrow> u64" where "U64LE endian x = (if endian = 0 then swap64 x else x)"

section \<open>Memory\<close>

text \<open>The bytes of a value, least significant first, and how a machine stores it.\<close>

definition le16 :: "u16 \<Rightarrow> byte list" where
  "le16 x = [ucast x, ucast (drop_bit 8 x)]"

definition le32 :: "u32 \<Rightarrow> byte list" where
  "le32 x = [ucast x, ucast (drop_bit 8 x), ucast (drop_bit 16 x), ucast (drop_bit 24 x)]"

definition le64 :: "u64 \<Rightarrow> byte list" where
  "le64 x = [ucast x, ucast (drop_bit 8 x), ucast (drop_bit 16 x), ucast (drop_bit 24 x),
     ucast (drop_bit 32 x), ucast (drop_bit 40 x), ucast (drop_bit 48 x), ucast (drop_bit 56 x)]"

definition store16 :: "nat \<Rightarrow> u16 \<Rightarrow> byte list" where
  "store16 endian x = (if endian = 0 then rev (le16 x) else le16 x)"

definition store32 :: "nat \<Rightarrow> u32 \<Rightarrow> byte list" where
  "store32 endian x = (if endian = 0 then rev (le32 x) else le32 x)"

definition store64 :: "nat \<Rightarrow> u64 \<Rightarrow> byte list" where
  "store64 endian x = (if endian = 0 then rev (le64 x) else le64 x)"

definition get_le16 :: "byte list \<Rightarrow> nat \<Rightarrow> u16" where
  "get_le16 m off = ucast (m ! off) OR push_bit 8 (ucast (m ! (off + 1)))"

definition get_le32 :: "byte list \<Rightarrow> nat \<Rightarrow> u32" where
  "get_le32 m off = ucast (m ! off) OR push_bit 8 (ucast (m ! (off + 1)))
     OR push_bit 16 (ucast (m ! (off + 2))) OR push_bit 24 (ucast (m ! (off + 3)))"

section \<open>Lemmas\<close>

lemma less_8_cases: "n < 8 \<Longrightarrow> n = 0 \<or> n = 1 \<or> n = 2 \<or> n = 3 \<or> n = 4 \<or> n = 5 \<or> n = 6 \<or> n = (7::nat)"
  by arith

lemma byte_masks:
  "(0xff00 :: u16) = push_bit 8 (mask 8)" "(0x00ff :: u16) = mask 8"
  "(0x000000ff :: u32) = mask 8" "(0x0000ff00 :: u32) = push_bit 8 (mask 8)"
  "(0x00ff0000 :: u32) = push_bit 16 (mask 8)" "(0xff000000 :: u32) = push_bit 24 (mask 8)"
  by (simp_all add: mask_eq_exp_minus_1 push_bit_eq_mult)

lemma bit_swap16: "bit (swap16 x) n \<longleftrightarrow> n < 16 \<and> bit x (if n < 8 then n + 8 else n - 8)"
proof (cases "n < 16")
  case True
  then show ?thesis unfolding swap16_def byte_masks by (auto simp: bit_simps ac_simps)
next
  case False
  then show ?thesis using bit_imp_le_length [of "swap16 x" n] by auto
qed

lemma bit_swap32: "bit (swap32 x) n \<longleftrightarrow> n < 32 \<and>
   bit x (if n < 8 then n + 24 else if n < 16 then n + 8 else if n < 24 then n - 8 else n - 24)"
proof (cases "n < 32")
  case True
  consider "n < 8" | "8 \<le> n" "n < 16" | "16 \<le> n" "n < 24" | "24 \<le> n" "n < 32"
    using True by linarith
  then show ?thesis unfolding swap32_def byte_masks
    by cases (auto simp: bit_simps ac_simps)
next
  case False
  then show ?thesis using bit_imp_le_length [of "swap32 x" n] by auto
qed

lemma swap16_swap16 [simp]: "swap16 (swap16 x) = x"
  by (rule bit_word_eqI) (auto simp: bit_swap16)

lemma swap32_swap32 [simp]: "swap32 (swap32 x) = x"
proof (rule bit_word_eqI)
  fix n assume "n < LENGTH(32)"
  then consider "n < 8" | "8 \<le> n" "n < 16" | "16 \<le> n" "n < 24" | "24 \<le> n" "n < 32"
    by force
  then show "bit (swap32 (swap32 x)) n = bit x n" by cases (auto simp: bit_swap32)
qed

lemma swap32_and: "swap32 (x AND y) = swap32 x AND swap32 y"
  by (rule bit_word_eqI) (auto simp: bit_swap32 bit_and_iff)

lemma swap32_eq_iff [simp]: "swap32 x = swap32 y \<longleftrightarrow> x = y"
  by (metis swap32_swap32)

lemma length_le [simp]: "length (le16 a) = 2" "length (le32 b) = 4" "length (le64 c) = 8"
  by (simp_all add: le16_def le32_def le64_def)

lemma store16_U16LE: "store16 endian (U16LE endian x) = le16 x"
proof -
  have "le16 (swap16 x) = rev (le16 x)"
    unfolding le16_def by (auto intro!: byte_eqI simp: bit_simps bit_swap16)
  then show ?thesis by (simp add: store16_def U16LE_def)
qed

lemma store32_U32LE: "store32 endian (U32LE endian x) = le32 x"
proof -
  have "le32 (swap32 x) = rev (le32 x)"
    unfolding le32_def by (auto intro!: byte_eqI simp: bit_simps bit_swap32)
  then show ?thesis by (simp add: store32_def U32LE_def)
qed

lemma get_le16_le16: "get_le16 (a @ le16 x @ b) (length a) = x"
proof -
  have "get_le16 (a @ le16 x @ b) (length a) = ucast (ucast x :: byte) OR push_bit 8 (ucast (ucast (drop_bit 8 x) :: byte))"
    by (simp add: get_le16_def le16_def nth_append)
  also have "\<dots> = x"
    by (rule bit_word_eqI) (auto simp: bit_simps)
  finally show ?thesis .
qed

lemma get_le32_le32: "get_le32 (a @ le32 x @ b) (length a) = x"
proof -
  have "get_le32 (a @ le32 x @ b) (length a) = ucast (ucast x :: byte)
      OR push_bit 8 (ucast (ucast (drop_bit 8 x) :: byte))
      OR push_bit 16 (ucast (ucast (drop_bit 16 x) :: byte))
      OR push_bit 24 (ucast (ucast (drop_bit 24 x) :: byte))"
    by (simp add: get_le32_def le32_def nth_append numeral_2_eq_2 numeral_3_eq_3)
  also have "\<dots> = x"
  proof (rule bit_word_eqI)
    fix n assume "n < LENGTH(32)"
    then consider "n < 8" | "8 \<le> n" "n < 16" | "16 \<le> n" "n < 24" | "24 \<le> n" "n < 32"
      by force
    then show "bit ((ucast (ucast x :: byte) :: u32) OR push_bit 8 (ucast (ucast (drop_bit 8 x) :: byte))
      OR push_bit 16 (ucast (ucast (drop_bit 16 x) :: byte))
      OR push_bit 24 (ucast (ucast (drop_bit 24 x) :: byte))) n = bit x n"
      by cases (auto simp: bit_simps)
  qed
  finally show ?thesis .
qed

section \<open>Properties\<close>

text \<open>
  The wire layout does not depend on the machine: on a big-endian and on a little-endian one,
  storing a value through U16LE or U32LE puts its bytes in memory least significant first.
\<close>

theorem layout_endian_independent:
  "store16 endian (U16LE endian x) = le16 x \<and> store32 endian (U32LE endian y) = le32 y"
  by (simp add: store16_U16LE store32_U32LE)

end
