(* ===== verification/Rules.thy ===== *)
theory Rules
  imports CPrelude
begin

text \<open>
  Lists of rules where the first one that decides wins: the access list (acl.c), the NoProxy
  patterns and the list of agents of the scanner.  The locale \<open>rule_list\<close> states the contract of
  such a check, over what one rule says: it decides with a verdict, it leaves the decision to
  the rules after it, or looking at it is undefined.  The interpretations stand where the checks
  are defined.
\<close>

locale rule_list =
  fixes check :: "'r list \<Rightarrow> 'x \<Rightarrow> 'v c_result"
    and says :: "'r \<Rightarrow> 'x \<Rightarrow> 'v option c_result"
    and dflt :: 'v
  assumes check_Nil: "check [] x = Ret dflt"
    and check_Cons: "check (r # rs) x =
        (case says r x of UB \<Rightarrow> UB | Ret None \<Rightarrow> check rs x | Ret (Some v) \<Rightarrow> Ret v)"
begin

text \<open>Rules that leave the decision open can be left out.\<close>

lemma check_skip: "(\<And>r. r \<in> set rs \<Longrightarrow> says r x = Ret None) \<Longrightarrow> check (rs @ rs') x = check rs' x"
  by (induction rs) (simp_all add: check_Cons)

text \<open>Rules after one that decides do not matter.\<close>

lemma check_decided:
  "(\<And>u. u \<in> set rs \<Longrightarrow> says u x = Ret None) \<Longrightarrow> says r x = Ret (Some v) \<Longrightarrow> check (rs @ r # rs') x = Ret v"
  by (simp add: check_skip check_Cons)

lemma check_find:
  "(\<And>r. r \<in> set rs \<Longrightarrow> says r x = Ret (if P r then Some (v r) else None)) \<Longrightarrow>
   check rs x = Ret (case find P rs of None \<Rightarrow> dflt | Some r \<Rightarrow> v r)"
  by (induction rs) (simp_all add: check_Nil check_Cons)

text \<open>The check is undefined exactly when the first rule that does not pass is undefined.\<close>

lemma check_UB_iff:
  "check rs x = UB \<longleftrightarrow> (\<exists>r. find (\<lambda>r. says r x \<noteq> Ret None) rs = Some r \<and> says r x = UB)"
  by (induction rs) (auto simp: check_Nil check_Cons split: c_result.splits option.splits)

lemma check_defined: "(\<And>r. r \<in> set rs \<Longrightarrow> says r x \<noteq> UB) \<Longrightarrow> check rs x \<noteq> UB"
  by (auto simp: check_UB_iff find_Some_iff)

text \<open>An added rule is asked last.\<close>

lemma check_snoc:
  "check (rs @ [r]) x =
     (if \<forall>u \<in> set rs. says u x = Ret None then check [r] x else check rs x)"
proof (induction rs)
  case (Cons u rs)
  then show ?case by (auto simp: check_Cons split: c_result.splits option.splits)
qed (simp add: check_Nil)

end

end
