(* ===== verification/Acl.thy ===== *)
theory Acl
  imports PList Swap Rules
begin

text \<open>
  acl.c: the access list.  A rule is a network address in network byte order, read on a
  little-endian machine, with the number of leading bits that count; the list is a \<open>plist\<close> whose
  keys are the verdicts.  \<open>getaddrinfo\<close>, which resolves a source address, is a parameter: it fails,
  or gives the list of its results (an entry without an address is NULL).
\<close>

section \<open>Data\<close>

datatype acl_t = ACL_ALLOW | ACL_DENY

record network_t =
  net_ip :: u32
  net_mask :: int

type_synonym gai = "string \<Rightarrow> u32 option list option"

fun acl_key :: "acl_t \<Rightarrow> u64" where
  "acl_key ACL_ALLOW = 0"
| "acl_key ACL_DENY = 1"

definition acl_of_key :: "u64 \<Rightarrow> acl_t" where
  "acl_of_key k = (if k = 0 then ACL_ALLOW else ACL_DENY)"

section \<open>Resolution (socket.c)\<close>

text \<open>\<open>host\<close> is the value of the caller's variable, kept when nothing is stored.\<close>

fun so_resolv_loop :: "u32 \<Rightarrow> bool \<Rightarrow> u32 option list \<Rightarrow> bool \<times> u32" where
  "so_resolv_loop host addr_set [] = (True, host)"
| "so_resolv_loop host addr_set (None # ps) = (False, host)"
| "so_resolv_loop host addr_set (Some ad # ps) =
     so_resolv_loop (if addr_set then host else ad) True ps"

definition so_resolv :: "gai \<Rightarrow> u32 \<Rightarrow> string \<Rightarrow> bool \<times> u32" where
  "so_resolv getaddrinfo host name =
     (case getaddrinfo name of None \<Rightarrow> (False, host) | Some ps \<Rightarrow> so_resolv_loop host False ps)"

section \<open>Rules\<close>

text \<open>\<open>swap32(~(((uint64_t)1 << (32-mask)) - 1))\<close>\<close>

definition netmask :: "int \<Rightarrow> u32" where
  "netmask m = swap32 (ucast (NOT (push_bit (nat (32 - m)) 1 - 1 :: u64)))"

text \<open>
  Splits the specification at the first slash and reads the prefix length; \<open>None\<close> is the
  rejection.  The \<open>long\<close> that strtol returns is stored in an \<open>int\<close>.
\<close>

definition acl_split :: "string \<Rightarrow> (string \<times> int) option" where
  "acl_split spec =
     (let i = strcspn spec ''/'' in
      if i < length spec then
        (let (v, tmp) = strtol 10 (drop (i + 1) spec); bits = to_int32 v in
         if bits < 0 \<or> bits > 32 \<or> drop (i + 1) spec = [] \<or> tmp \<noteq> [] then None
         else Some (take i spec, bits))
      else Some (spec, 32))"

text \<open>
  Parses a source; the returned pair is address and prefix length.  \<open>src0\<close> is the initial value
  of the local address.
\<close>

definition acl_parse :: "gai \<Rightarrow> u32 \<Rightarrow> string \<Rightarrow> network_t option" where
  "acl_parse getaddrinfo src0 spec =
     (case acl_split spec of
        None \<Rightarrow> None
      | Some (host, bits) \<Rightarrow>
          if host = ''*'' then Some \<lparr>net_ip = 0, net_mask = 0\<rparr>
          else if host = ''0'' then Some \<lparr>net_ip = 0, net_mask = bits\<rparr>
          else (case so_resolv getaddrinfo src0 host of
                  (False, _) \<Rightarrow> None
                | (True, ip) \<Rightarrow> Some \<lparr>net_ip = ip, net_mask = bits\<rparr>))"

definition acl_add :: "gai \<Rightarrow> u32 \<Rightarrow> network_t plist_t \<Rightarrow> string \<Rightarrow> acl_t \<Rightarrow> network_t plist_t \<times> int" where
  "acl_add getaddrinfo src0 rules spec acl =
     (case acl_parse getaddrinfo src0 spec of
        None \<Rightarrow> (rules, 0)
      | Some aux \<Rightarrow> (plist_add rules (acl_key acl) (Some aux), 1))"

text \<open>The warning that a rule has address bits beyond its prefix.\<close>

definition acl_warns :: "network_t \<Rightarrow> bool" where
  "acl_warns n \<longleftrightarrow> net_ip n AND netmask (net_mask n) \<noteq> net_ip n"

definition acl_match :: "network_t \<Rightarrow> u32 \<Rightarrow> bool" where
  "acl_match aux naddr \<longleftrightarrow> naddr AND netmask (net_mask aux) = net_ip aux AND netmask (net_mask aux)"

fun acl_check :: "network_t plist_t \<Rightarrow> u32 \<Rightarrow> acl_t c_result" where
  "acl_check [] naddr = Ret ACL_ALLOW"
| "acl_check (r # rules) naddr =
     (case paux r of
        None \<Rightarrow> UB
      | Some aux \<Rightarrow> if acl_match aux naddr then Ret (acl_of_key (pkey r)) else acl_check rules naddr)"

section \<open>Lemmas\<close>

text \<open>An address belongs to a network when the leading bits agree in host byte order.\<close>

definition in_net :: "network_t \<Rightarrow> u32 \<Rightarrow> bool" where
  "in_net n a \<longleftrightarrow> drop_bit (nat (32 - net_mask n)) (swap32 a) = drop_bit (nat (32 - net_mask n)) (swap32 (net_ip n))"

definition net_wf :: "network_t \<Rightarrow> bool" where
  "net_wf n \<longleftrightarrow> 0 \<le> net_mask n \<and> net_mask n \<le> 32"

definition rules_wf :: "network_t plist_t \<Rightarrow> bool" where
  "rules_wf rules = list_all (\<lambda>r. pkey r \<in> {0, 1} \<and> pred_option net_wf (paux r) \<and> paux r \<noteq> None) rules"

lemma acl_of_key_key [simp]: "acl_of_key (acl_key a) = a"
  by (cases a) (simp_all add: acl_of_key_def)

lemma acl_key_01 [simp]: "acl_key a \<in> {0, 1}"
  by (cases a) simp_all

lemma drop_bit_32: "drop_bit 32 x = 0" for x :: u32
  using bit_imp_le_length [of x] by (intro bit_word_eqI) (auto simp: bit_drop_bit_eq)

lemma mask_word_and: "x AND NOT (mask n) = y AND NOT (mask n) \<longleftrightarrow> drop_bit n x = drop_bit n y"
  for x y :: u32
proof
  assume "x AND NOT (mask n) = y AND NOT (mask n)"
  then have *: "bit (x AND NOT (mask n)) (n + k) = bit (y AND NOT (mask n)) (n + k)" for k by simp
  have "bit x (n + k) = bit y (n + k)" for k
    using * [of k] bit_imp_le_length [of x "n + k"] bit_imp_le_length [of y "n + k"]
    by (auto simp: bit_and_iff bit_not_iff bit_mask_iff)
  then show "drop_bit n x = drop_bit n y"
    by (intro bit_word_eqI) (simp add: bit_drop_bit_eq)
next
  assume "drop_bit n x = drop_bit n y"
  then have *: "bit x (n + k) = bit y (n + k)" for k by (metis bit_drop_bit_eq comp_apply)
  show "x AND NOT (mask n) = y AND NOT (mask n)"
  proof (rule bit_word_eqI)
    fix k assume "k < LENGTH(32)"
    show "bit (x AND NOT (mask n)) k = bit (y AND NOT (mask n)) k"
    proof (cases "k < n")
      case False
      then show ?thesis using * [of "k - n"] by (auto simp: bit_simps)
    qed (auto simp: bit_simps)
  qed
qed

lemma netmask_eq: "0 \<le> m \<Longrightarrow> netmask m = swap32 (NOT (mask (nat (32 - m))))"
proof -
  have "(push_bit n 1 - 1 :: u64) = mask n" for n
    by (simp only: mask_eq_exp_minus_1 push_bit_of_1)
  moreover have "(ucast (NOT (mask n) :: u64) :: u32) = NOT (mask n)" for n
    by (rule bit_word_eqI) (auto simp: bit_simps)
  ultimately have "(ucast (NOT (push_bit n 1 - 1 :: u64)) :: u32) = NOT (mask n)" for n
    by (simp only:)
  then show ?thesis by (simp add: netmask_def)
qed

lemma acl_match_in_net: "net_wf n \<Longrightarrow> acl_match n a \<longleftrightarrow> in_net n a"
proof -
  assume "net_wf n"
  then have e: "swap32 (x AND netmask (net_mask n)) = swap32 x AND NOT (mask (nat (32 - net_mask n)))" for x
    by (simp add: net_wf_def netmask_eq swap32_and)
  have "acl_match n a \<longleftrightarrow> swap32 (a AND netmask (net_mask n)) = swap32 (net_ip n AND netmask (net_mask n))"
    by (simp add: acl_match_def)
  then show ?thesis by (simp only: e mask_word_and in_net_def)
qed

lemma acl_split_mask: "acl_split spec = Some (h, m) \<Longrightarrow> 0 \<le> m \<and> m \<le> 32"
  by (auto simp: acl_split_def Let_def split: if_splits prod.splits)

lemma acl_parse_wf: "acl_parse g s spec = Some n \<Longrightarrow> net_wf n"
  by (auto simp: acl_parse_def net_wf_def dest: acl_split_mask split: option.splits if_splits prod.splits bool.splits)

lemma acl_add_wf: "rules_wf rules \<Longrightarrow> rules_wf (fst (acl_add g s rules spec acl))"
  by (cases acl) (auto simp: acl_add_def plist_add_append rules_wf_def dest: acl_parse_wf split: option.splits)

text \<open>What one rule says of an address.\<close>

definition acl_says :: "network_t plist_s \<Rightarrow> u32 \<Rightarrow> acl_t option c_result" where
  "acl_says r a = (case paux r of
       None \<Rightarrow> UB
     | Some n \<Rightarrow> Ret (if acl_match n a then Some (acl_of_key (pkey r)) else None))"

interpretation ac: rule_list acl_check acl_says ACL_ALLOW
proof unfold_locales
  fix r rs x
  show "acl_check (r # rs) x =
      (case acl_says r x of UB \<Rightarrow> UB | Ret None \<Rightarrow> acl_check rs x | Ret (Some v) \<Rightarrow> Ret v)"
    by (cases "paux r") (simp_all add: acl_says_def)
qed simp

lemma acl_check_first:
  "rules_wf rules \<Longrightarrow> acl_check rules a = Ret
     (case find (\<lambda>r. in_net (the (paux r)) a) rules of None \<Rightarrow> ACL_ALLOW | Some r \<Rightarrow> acl_of_key (pkey r))"
  by (rule ac.check_find) (fastforce simp: rules_wf_def list_all_iff acl_says_def acl_match_in_net)

section \<open>Properties\<close>

definition acl_build :: "gai \<Rightarrow> u32 \<Rightarrow> (string \<times> acl_t) list \<Rightarrow> network_t plist_t" where
  "acl_build g s specs = foldl (\<lambda>rs (spec, acl). fst (acl_add g s rs spec acl)) [] specs"

lemma acl_build_snoc:
  "acl_build g s (specs @ [(spec, acl)]) = fst (acl_add g s (acl_build g s specs) spec acl)"
  by (simp add: acl_build_def)

lemma acl_build_wf: "rules_wf (acl_build g s specs)"
proof (induction specs rule: rev_induct)
  case (snoc x specs)
  then show ?case by (cases x) (simp add: acl_build_snoc acl_add_wf)
qed (simp add: acl_build_def rules_wf_def)

lemma acl_build_list:
  "acl_build g s specs = List.map_filter (\<lambda>(spec, acl). case acl_parse g s spec of None \<Rightarrow> None
      | Some n \<Rightarrow> Some \<lparr>pkey = acl_key acl, paux = Some n\<rparr>) specs"
proof (induction specs rule: rev_induct)
  case (snoc x specs)
  then show ?case
    by (cases x) (auto simp: acl_build_snoc acl_add_def plist_add_append map_filter_def split: option.splits)
qed (simp add: acl_build_def map_filter_simps)

text \<open>
  C35: the access decision.  The list is built from any sequence of rule specifications (the
  rejected ones leave no trace); a client is given the verdict of the first accepted rule whose
  network contains its address, that is, agrees with it in the rule's number of leading bits
  read in host byte order, and is allowed when there is none.
\<close>

theorem acl_first_match:
  "acl_check (acl_build g s specs) a = Ret
     (case find (\<lambda>(spec, acl). case acl_parse g s spec of None \<Rightarrow> False | Some n \<Rightarrow> in_net n a) specs of
        None \<Rightarrow> ACL_ALLOW | Some (spec, acl) \<Rightarrow> acl)"
  unfolding acl_check_first [OF acl_build_wf] unfolding acl_build_list
  by (induction specs) (auto simp: map_filter_simps split: option.splits)

lemma acl_split_slash:
  assumes "CHR ''/'' \<notin> set host"
  shows "strcspn (host @ CHR ''/'' # r) ''/'' = length host"
proof -
  have "takeWhile (\<lambda>c. c \<notin> set ''/'') (host @ CHR ''/'' # r) = host"
    using assms by (subst takeWhile_append2) auto
  then show ?thesis by (simp add: strcspn_def)
qed

lemma acl_split_show:
  assumes "CHR ''/'' \<notin> set host" "n < 2 ^ 63"
  shows "acl_split (host @ CHR ''/'' # show_nat n) =
    (if 0 \<le> to_int32 (int n) \<and> to_int32 (int n) \<le> 32 then Some (host, to_int32 (int n)) else None)"
  using strtol_show_nat [of "[]" n] assms by (auto simp: acl_split_def acl_split_slash)

text \<open>
  The prefix length of a rule.  A decimal length below 2^31 is accepted exactly when it is at
  most 32 and then taken as written; the stored rule always has a length between 0 and 32.
\<close>

theorem acl_prefix_length:
  assumes "CHR ''/'' \<notin> set host" "n < 2 ^ 31"
  shows "acl_split (host @ CHR ''/'' # show_nat n) = (if n \<le> 32 then Some (host, int n) else None)
    \<and> (\<forall>net. acl_parse g s spec = Some net \<longrightarrow> net_wf net)"
  using acl_split_show [of host n] assms acl_parse_wf by (auto simp: to_int32_id)

theorem acl_prefix_length_witness:
  "acl_split ''10.0.0.0/24'' = Some (''10.0.0.0'', 24) \<and> acl_split ''10.0.0.0/33'' = None"
  using acl_prefix_length [of "''10.0.0.0''" 24] acl_prefix_length [of "''10.0.0.0''" 33]
  by (simp add: show_nat.simps)

text \<open>
  A prefix length outside the range of int is reduced modulo 2^32 before it is checked, so
  that 4294967296 is accepted as 0 and the rule matches every client.
\<close>

theorem acl_prefix_truncated:
  "\<exists>net. acl_parse (\<lambda>_. Some [Some 0x0100000a]) 0 ''10.0.0.1/4294967296'' = Some net
     \<and> net_mask net = 0 \<and> (acl_match net a \<longleftrightarrow> True)"
proof -
  have "show_nat 4294967296 = ''4294967296''" by (simp add: show_nat.simps)
  then have "acl_split ''10.0.0.1/4294967296'' = Some (''10.0.0.1'', 0)"
    using acl_split_show [of "''10.0.0.1''" 4294967296] by (simp add: to_int32_def)
  moreover have "acl_match \<lparr>net_ip = 0x0100000a, net_mask = 0\<rparr> a"
    by (simp add: acl_match_in_net net_wf_def in_net_def drop_bit_32)
  ultimately show ?thesis by (simp add: acl_parse_def so_resolv_def)
qed

end
