(* ===== verification/HList.thy ===== *)
theory HList
  imports CString
begin

text \<open>
  \<open>hlist_t\<close> of utils.c: the list of (key, value) strings that holds HTTP headers and
  configuration options, looked up without regard to case.  A node's strings are values, so
  the \<open>HLIST_ALLOC\<close> flags, which choose between sharing and copying them, do not appear; an
  argument that the C code allows to be NULL is an option.

  The locale \<open>header_store\<close> states the laws the clients (configuration file, request
  rewriting) rely on; it is interpreted on the operations below.
\<close>

record hlist_s =
  hkey :: string
  hvalue :: string

type_synonym hlist_t = "hlist_s list"

definition hlist_add :: "hlist_t \<Rightarrow> string option \<Rightarrow> string option \<Rightarrow> hlist_t" where
  "hlist_add list key val =
     (case (key, val) of
        (Some k, Some v) \<Rightarrow> list @ [\<lparr>hkey = k, hvalue = v\<rparr>]
      | _ \<Rightarrow> list)"

fun hlist_dup_loop :: "hlist_t \<Rightarrow> hlist_t \<Rightarrow> hlist_t" where
  "hlist_dup_loop tmp [] = tmp"
| "hlist_dup_loop tmp (t # ts) =
     hlist_dup_loop (hlist_add tmp (Some (hkey t)) (Some (hvalue t))) ts"

definition hlist_dup :: "hlist_t \<Rightarrow> hlist_t" where
  "hlist_dup list = hlist_dup_loop [] list"

fun hlist_del :: "hlist_t \<Rightarrow> string \<Rightarrow> hlist_t" where
  "hlist_del [] key = []"
| "hlist_del (t # ts) key = (if strcaseeq (hkey t) key then ts else t # hlist_del ts key)"

fun hlist_in :: "hlist_t \<Rightarrow> string \<Rightarrow> bool" where
  "hlist_in [] key = False"
| "hlist_in (t # ts) key = (strcaseeq (hkey t) key \<or> hlist_in ts key)"

fun hlist_set_first :: "hlist_t \<Rightarrow> string \<Rightarrow> string \<Rightarrow> hlist_t" where
  "hlist_set_first [] key v = []"
| "hlist_set_first (t # ts) key v =
     (if strcaseeq (hkey t) key then t\<lparr>hvalue := v\<rparr> # ts else t # hlist_set_first ts key v)"

definition hlist_mod :: "hlist_t \<Rightarrow> string \<Rightarrow> string \<Rightarrow> bool \<Rightarrow> hlist_t" where
  "hlist_mod list key v add =
     (if hlist_in list key then hlist_set_first list key v
      else if add then hlist_add list (Some key) (Some v) else list)"

fun hlist_count :: "hlist_t \<Rightarrow> nat" where
  "hlist_count [] = 0"
| "hlist_count (t # ts) = Suc (hlist_count ts)"

fun hlist_get :: "hlist_t \<Rightarrow> string \<Rightarrow> string option" where
  "hlist_get [] key = None"
| "hlist_get (t # ts) key = (if strcaseeq (hkey t) key then Some (hvalue t) else hlist_get ts key)"

definition hlist_subcmp :: "hlist_t \<Rightarrow> string \<Rightarrow> string \<Rightarrow> bool" where
  "hlist_subcmp list key sub =
     (case hlist_get list key of
        None \<Rightarrow> False
      | Some v \<Rightarrow> strstr (lowercase v) (lowercase sub) \<noteq> None)"

fun hlist_subcmp_loop :: "hlist_t \<Rightarrow> string \<Rightarrow> string \<Rightarrow> bool \<Rightarrow> bool" where
  "hlist_subcmp_loop [] key low found = found"
| "hlist_subcmp_loop (t # ts) key low found =
     hlist_subcmp_loop ts key low
       (if strcaseeq (hkey t) key \<and> strstr (lowercase (hvalue t)) low \<noteq> None then True else found)"

definition hlist_subcmp_all :: "hlist_t \<Rightarrow> string \<Rightarrow> string \<Rightarrow> bool" where
  "hlist_subcmp_all list key sub = hlist_subcmp_loop list key (lowercase sub) False"

text \<open>
  The loop \<open>while (hlist_get(l, k)) l = hlist_del(l, k);\<close> with which forward_request removes
  every header of a name.
\<close>

lemma hlist_del_shorter: "hlist_get l k \<noteq> None \<Longrightarrow> length (hlist_del l k) < length l"
  by (induction l) auto

function hlist_purge :: "hlist_t \<Rightarrow> string \<Rightarrow> hlist_t" where
  "hlist_purge l k = (if hlist_get l k \<noteq> None then hlist_purge (hlist_del l k) k else l)"
  by pat_completeness auto
termination
  by (relation "measure (\<lambda>(l, k). length l)") (simp_all add: hlist_del_shorter del: not_None_eq)

declare hlist_purge.simps [simp del]

text \<open>A fold of \<open>hlist_mod\<close> over a list of substitutions, the header replacement loop.\<close>

fun hlist_replace :: "hlist_t \<Rightarrow> hlist_t \<Rightarrow> bool \<Rightarrow> hlist_t" where
  "hlist_replace l [] add = l"
| "hlist_replace l (t # ts) add = hlist_replace (hlist_mod l (hkey t) (hvalue t) add) ts add"

section \<open>Lemmas\<close>

lemma hlist_count_length [simp]: "hlist_count l = length l"
  by (induction l) auto

lemma hlist_in_iff: "hlist_in l k \<longleftrightarrow> (\<exists>t \<in> set l. strcaseeq (hkey t) k)"
  by (induction l) auto

lemma hlist_in_get: "hlist_in l k \<longleftrightarrow> hlist_get l k \<noteq> None"
  by (induction l) auto

lemma hlist_get_append:
  "hlist_get (a @ b) k = (case hlist_get a k of None \<Rightarrow> hlist_get b k | Some v \<Rightarrow> Some v)"
  by (induction a) auto

lemma hlist_get_cong: "strcaseeq k k' \<Longrightarrow> hlist_get l k = hlist_get l k'"
  by (induction l) (simp_all add: strcaseeq_cong)

lemma hlist_get_set_first:
  "hlist_get (hlist_set_first l k v) k' =
     (if strcaseeq k k' \<and> hlist_in l k then Some v else hlist_get l k')"
proof (induction l)
  case (Cons t ts)
  show ?case
  proof (cases "strcaseeq k k'")
    case True
    then have "strcaseeq (hkey t) k' \<longleftrightarrow> strcaseeq (hkey t) k" by (simp add: strcaseeq_cong)
    with True Cons show ?thesis by auto
  next
    case False
    then have "strcaseeq (hkey t) k \<Longrightarrow> \<not> strcaseeq (hkey t) k'"
      by (metis strcaseeq_sym strcaseeq_trans)
    with False Cons show ?thesis by auto
  qed
qed simp

lemma hlist_get_mod:
  "hlist_get (hlist_mod l k v add) k' =
     (if strcaseeq k k' \<and> (add \<or> hlist_in l k) then Some v else hlist_get l k')"
proof (cases "hlist_in l k")
  case True
  then show ?thesis by (simp add: hlist_mod_def hlist_get_set_first)
next
  case False
  then have "strcaseeq k k' \<Longrightarrow> hlist_get l k' = None"
    using hlist_get_cong [of k k' l] by (auto simp: hlist_in_get)
  with False show ?thesis
    by (auto simp: hlist_mod_def hlist_add_def hlist_get_append split: option.splits)
qed

lemma hlist_get_del_other:
  "\<not> strcaseeq k k' \<Longrightarrow> hlist_get (hlist_del l k) k' = hlist_get l k'"
  by (induction l) (auto simp: strcaseeq_def)

lemma keys_hlist_set_first: "map hkey (hlist_set_first l k v) = map hkey l"
  by (induction l) auto

lemma hlist_mod_count:
  "hlist_count (hlist_mod l k v add) =
     (if hlist_in l k \<or> \<not> add then hlist_count l else Suc (hlist_count l))"
  using keys_hlist_set_first [of l k v, THEN arg_cong, of length]
  by (simp add: hlist_mod_def hlist_add_def)

lemma hlist_dup_loop_append: "hlist_dup_loop a l = a @ l"
  by (induction l arbitrary: a) (auto simp: hlist_add_def)

lemma hlist_dup_id [simp]: "hlist_dup l = l"
  by (simp add: hlist_dup_def hlist_dup_loop_append)

lemma hlist_del_filter:
  "filter (\<lambda>t. \<not> strcaseeq (hkey t) k) (hlist_del l k) = filter (\<lambda>t. \<not> strcaseeq (hkey t) k) l"
  by (induction l) auto

lemma hlist_purge_filter: "hlist_purge l k = filter (\<lambda>t. \<not> strcaseeq (hkey t) k) l"
proof (induction l k rule: hlist_purge.induct)
  case (1 l k)
  show ?case
  proof (cases "hlist_get l k = None")
    case True
    then have "\<forall>t \<in> set l. \<not> strcaseeq (hkey t) k"
      using hlist_in_get [of l k] by (auto simp: hlist_in_iff)
    with True show ?thesis by (subst hlist_purge.simps) (simp add: filter_id_conv)
  next
    case False
    with 1 show ?thesis by (subst hlist_purge.simps) (simp add: hlist_del_filter)
  qed
qed

lemma hlist_subcmp_loop_iff:
  "hlist_subcmp_loop l k low found \<longleftrightarrow>
     found \<or> (\<exists>t \<in> set l. strcaseeq (hkey t) k \<and> strstr (lowercase (hvalue t)) low \<noteq> None)"
  by (induction l arbitrary: found) auto

lemma hlist_subcmp_imp_all: "hlist_subcmp l k s \<Longrightarrow> hlist_subcmp_all l k s"
  unfolding hlist_subcmp_def hlist_subcmp_all_def hlist_subcmp_loop_iff
  by (induction l) (auto split: option.splits if_splits)

section \<open>The header store contract\<close>

locale header_store =
  fixes get :: "'h \<Rightarrow> string \<Rightarrow> string option"
    and md :: "'h \<Rightarrow> string \<Rightarrow> string \<Rightarrow> bool \<Rightarrow> 'h"
    and del :: "'h \<Rightarrow> string \<Rightarrow> 'h"
    and cnt :: "'h \<Rightarrow> nat"
  assumes get_md: "get (md h k v add) k' =
        (if strcaseeq k k' \<and> (add \<or> get h k \<noteq> None) then Some v else get h k')"
    and get_del_other: "\<not> strcaseeq k k' \<Longrightarrow> get (del h k) k' = get h k'"
    and cnt_del: "get h k \<noteq> None \<Longrightarrow> cnt (del h k) < cnt h"
    and get_cong: "strcaseeq k k' \<Longrightarrow> get h k = get h k'"
begin

lemma get_md_same: "get (md h k v True) k = Some v"
  by (simp add: get_md)

lemma md_False_absent: "get h k = None \<Longrightarrow> get (md h k v False) k' = get h k'"
  by (simp add: get_md)

lemma md_md_same: "get (md (md h k v True) k w add) k' = get (md h k w True) k'"
  by (simp add: get_md)

lemma md_commute:
  "\<not> strcaseeq k k' \<Longrightarrow> get (md (md h k v True) k' w True) x = get (md (md h k' w True) k v True) x"
  by (auto simp: get_md strcaseeq_def)

lemma get_fold_md:
  "get (fold (\<lambda>(k, v) h. md h k v True) kvs h) k =
     (case find (\<lambda>(k', v). strcaseeq k' k) (rev kvs) of
        None \<Rightarrow> get h k | Some (k', v) \<Rightarrow> Some v)"
proof (induction kvs rule: rev_induct)
  case (snoc kv kvs)
  obtain k' v where "kv = (k', v)" by fastforce
  with snoc show ?case by (simp add: get_md)
qed simp

text \<open>A loop that deletes while the key is present stops, within the number of entries.\<close>

lemma purge_reaches:
  "\<exists>n \<le> cnt h. get (((\<lambda>h. del h k) ^^ n) h) k = None"
proof (induction "cnt h" arbitrary: h rule: less_induct)
  case less
  show ?case
  proof (cases "get h k = None")
    case True
    then show ?thesis by (intro exI [of _ 0]) simp
  next
    case False
    then have d: "cnt (del h k) < cnt h" by (rule cnt_del)
    with less obtain n where "n \<le> cnt (del h k)" "get (((\<lambda>h. del h k) ^^ n) (del h k)) k = None"
      by blast
    with d show ?thesis by (intro exI [of _ "Suc n"]) (simp add: funpow_Suc_right del: funpow.simps(2))
  qed
qed

end

interpretation hs: header_store hlist_get hlist_mod hlist_del hlist_count
proof unfold_locales
  show "hlist_get h k \<noteq> None \<Longrightarrow> hlist_count (hlist_del h k) < hlist_count h" for h k
    using hlist_del_shorter [of h k] by simp
qed (auto simp: hlist_get_mod hlist_in_get hlist_get_del_other intro: hlist_get_cong)

lemma hlist_replace_fold:
  "hlist_replace l ts True = fold (\<lambda>(k, v) h. hlist_mod h k v True) (map (\<lambda>t. (hkey t, hvalue t)) ts) l"
  by (induction ts arbitrary: l) auto

section \<open>Properties\<close>

text \<open>
  Hlist_mod is a map update.  A lookup afterwards gives the new value under every spelling
  of the key when the header was present or was to be added, and the old value for every other
  name; the number of headers grows only when a missing one is added.
\<close>

theorem hlist_mod_update:
  "hlist_get (hlist_mod l k v add) k' =
     (if strcaseeq k k' \<and> (add \<or> hlist_in l k) then Some v else hlist_get l k')
   \<and> hlist_count (hlist_mod l k v add) =
     (if hlist_in l k then hlist_count l else if add then Suc (hlist_count l) else hlist_count l)"
  using hlist_get_mod [of l k v add k'] hlist_mod_count [of l k v add] by presburger

text \<open>
  The loops that strip hop-by-hop headers.  Deleting a header while it is found ends, removes
  every header of that name in any spelling and keeps the others in their order, so that no
  lookup finds the name and every other lookup is unchanged.
\<close>

theorem hlist_purge_exact:
  "hlist_purge l k = filter (\<lambda>t. \<not> strcaseeq (hkey t) k) l
   \<and> hlist_get (hlist_purge l k) k' = (if strcaseeq k k' then None else hlist_get l k')"
proof -
  have "hlist_get (filter (\<lambda>t. \<not> strcaseeq (hkey t) k) l) k' =
      (if strcaseeq k k' then None else hlist_get l k')"
    by (induction l) (auto simp: strcaseeq_def)
  then show ?thesis by (simp add: hlist_purge_filter)
qed

end
