(* ===== verification/Auth.thy ===== *)
theory Auth
  imports CString
begin

text \<open>
  auth.c and auth.h: the credentials structure, with its six buffers of MINIBUF_SIZE bytes, its
  allocation and its copies.  The buffers of names hold C strings; the buffers of password hashes
  hold bytes.  dump_auth only prints.
\<close>

abbreviation MINIBUF_SIZE :: nat where "MINIBUF_SIZE \<equiv> 50"

record auth_s =
  auth_user :: string
  auth_domain :: string
  auth_workstation :: string
  passlm :: "byte list"
  passnt :: "byte list"
  passntlm2 :: "byte list"
  hashntlm2 :: int
  hashnt :: int
  hashlm :: int
  auth_flags :: u32

definition zero_str :: string where "zero_str = replicate MINIBUF_SIZE NUL"
definition zero_bytes :: "byte list" where "zero_bytes = replicate MINIBUF_SIZE 0"

definition new_auth :: auth_s where
  "new_auth = \<lparr>auth_user = zero_str, auth_domain = zero_str, auth_workstation = zero_str,
     passlm = zero_bytes, passnt = zero_bytes, passntlm2 = zero_bytes,
     hashntlm2 = 1, hashnt = 0, hashlm = 0, auth_flags = 0\<rparr>"

text \<open>Reading a buffer as a C string leaves it when it has no terminator.\<close>

definition read_cstr :: "string \<Rightarrow> string c_result" where
  "read_cstr buf = (if NUL \<in> set buf then Ret (cstr_of buf) else UB)"

definition buf_strlcpy :: "string \<Rightarrow> string \<Rightarrow> string c_result" where
  "buf_strlcpy dst src = c_bind (strlcpy dst src MINIBUF_SIZE) (\<lambda>(d, _). Ret d)"

definition buf_copy :: "string \<Rightarrow> string \<Rightarrow> string c_result" where
  "buf_copy dst src = c_bind (read_cstr src) (buf_strlcpy dst)"

text \<open>\<open>memcpy\<close> of the first \<open>n\<close> bytes.\<close>

definition memcpy :: "'a list \<Rightarrow> 'a list \<Rightarrow> nat \<Rightarrow> 'a list c_result" where
  "memcpy dst src n = (if n \<le> length src \<and> n \<le> length dst then Ret (take n src @ drop n dst) else UB)"

definition copy_auth :: "auth_s \<Rightarrow> auth_s \<Rightarrow> bool \<Rightarrow> auth_s c_result" where
  "copy_auth dst src fullcopy =
     c_bind (buf_copy (auth_domain dst) (auth_domain src)) (\<lambda>dom.
     c_bind (buf_copy (auth_workstation dst) (auth_workstation src)) (\<lambda>wks.
     let d = dst\<lparr>hashntlm2 := hashntlm2 src, hashnt := hashnt src, hashlm := hashlm src,
               auth_flags := auth_flags src, auth_domain := dom, auth_workstation := wks\<rparr>
     in if fullcopy then
          c_bind (buf_copy (auth_user dst) (auth_user src)) (\<lambda>u.
          c_bind (memcpy (passntlm2 dst) (passntlm2 src) MINIBUF_SIZE) (\<lambda>p2.
          c_bind (memcpy (passnt dst) (passnt src) MINIBUF_SIZE) (\<lambda>pn.
          c_bind (memcpy (passlm dst) (passlm src) MINIBUF_SIZE) (\<lambda>pl.
            Ret (d\<lparr>auth_user := u, passntlm2 := p2, passnt := pn, passlm := pl\<rparr>)))))
        else Ret (d\<lparr>auth_user := zero_str, passntlm2 := zero_bytes, passnt := zero_bytes,
               passlm := zero_bytes\<rparr>)))"

definition dup_auth :: "auth_s \<Rightarrow> bool \<Rightarrow> auth_s c_result" where
  "dup_auth creds fullcopy = copy_auth new_auth creds fullcopy"

text \<open>The macros \<open>auth_strcpy\<close> and \<open>auth_memcpy\<close>, on one of the buffers.\<close>

definition auth_strcpy :: "string \<Rightarrow> string option \<Rightarrow> string c_result" where
  "auth_strcpy field v = (case v of None \<Rightarrow> Ret field | Some s \<Rightarrow> buf_strlcpy field s)"

definition auth_memcpy :: "byte list \<Rightarrow> byte list option \<Rightarrow> nat \<Rightarrow> byte list c_result" where
  "auth_memcpy field v len =
     (case v of None \<Rightarrow> Ret field | Some s \<Rightarrow> memcpy field s (min len MINIBUF_SIZE))"

section \<open>Well-formed credentials\<close>

definition str_wf :: "string \<Rightarrow> bool" where
  "str_wf b \<longleftrightarrow> length b = MINIBUF_SIZE \<and> NUL \<in> set b"

definition auth_wf :: "auth_s \<Rightarrow> bool" where
  "auth_wf a \<longleftrightarrow> str_wf (auth_user a) \<and> str_wf (auth_domain a) \<and> str_wf (auth_workstation a)
     \<and> length (passlm a) = MINIBUF_SIZE \<and> length (passnt a) = MINIBUF_SIZE
     \<and> length (passntlm2 a) = MINIBUF_SIZE"

text \<open>What the rest of the program reads of credentials.\<close>

record auth_view =
  v_user :: string
  v_domain :: string
  v_workstation :: string
  v_hashes :: "byte list \<times> byte list \<times> byte list"
  v_flags :: "int \<times> int \<times> int \<times> u32"

definition view_auth :: "auth_s \<Rightarrow> auth_view" where
  "view_auth a = \<lparr>v_user = cstr_of (auth_user a), v_domain = cstr_of (auth_domain a),
     v_workstation = cstr_of (auth_workstation a), v_hashes = (passlm a, passnt a, passntlm2 a),
     v_flags = (hashntlm2 a, hashnt a, hashlm a, auth_flags a)\<rparr>"

lemma zero_wf [simp]: "str_wf zero_str" "length zero_bytes = MINIBUF_SIZE" "cstr_of zero_str = []"
  by (simp_all add: str_wf_def zero_str_def zero_bytes_def cstr_of_def)

lemma new_auth_wf [simp]: "auth_wf new_auth"
  by (simp add: auth_wf_def new_auth_def)

lemma length_cstr_less: "NUL \<in> set b \<Longrightarrow> length (cstr_of b) < length b"
proof (induction b)
  case (Cons c b)
  then show ?case by (auto simp: cstr_of_def)
qed simp

lemma buf_strlcpy_wf:
  assumes "length dst = MINIBUF_SIZE" "NUL \<notin> set s"
  shows "\<exists>d. buf_strlcpy dst s = Ret d \<and> str_wf d \<and> cstr_of d = take 49 s"
proof -
  have eq: "buf_strlcpy dst s = Ret (take 49 s @ NUL # drop (Suc (min (length s) 49)) dst)"
    using assms by (simp add: buf_strlcpy_def strlcpy_eq)
  have "NUL \<notin> set (take 49 s)" using assms(2) by (meson in_set_takeD)
  then have "cstr_of (take 49 s @ NUL # drop (Suc (min (length s) 49)) dst) = take 49 s" by simp
  moreover have "str_wf (take 49 s @ NUL # drop (Suc (min (length s) 49)) dst)"
    using assms by (auto simp: str_wf_def)
  ultimately show ?thesis using eq by blast
qed

lemma buf_copy_wf:
  assumes "str_wf dst" "str_wf src"
  shows "\<exists>d. buf_copy dst src = Ret d \<and> str_wf d \<and> cstr_of d = cstr_of src"
proof -
  have "length (cstr_of src) \<le> 49"
    using assms(2) length_cstr_less [of src] by (simp add: str_wf_def)
  then show ?thesis using buf_strlcpy_wf [of dst "cstr_of src"] assms
    by (auto simp: buf_copy_def read_cstr_def str_wf_def)
qed

lemma copy_auth_result:
  assumes "auth_wf dst" "auth_wf src"
  shows "\<exists>d. copy_auth dst src full = Ret d \<and> auth_wf d \<and> view_auth d =
    (if full then view_auth src
     else (view_auth src)\<lparr>v_user := [], v_hashes := (zero_bytes, zero_bytes, zero_bytes)\<rparr>)"
proof -
  note wf = assms [unfolded auth_wf_def]
  obtain dom where dom: "buf_copy (auth_domain dst) (auth_domain src) = Ret dom" "str_wf dom"
    "cstr_of dom = cstr_of (auth_domain src)" using buf_copy_wf wf by blast
  obtain wks where wks: "buf_copy (auth_workstation dst) (auth_workstation src) = Ret wks"
    "str_wf wks" "cstr_of wks = cstr_of (auth_workstation src)" using buf_copy_wf wf by blast
  obtain u where u: "buf_copy (auth_user dst) (auth_user src) = Ret u" "str_wf u"
    "cstr_of u = cstr_of (auth_user src)" using buf_copy_wf wf by blast
  show ?thesis
    using dom wks u wf
    by (cases full) (simp_all add: copy_auth_def memcpy_def Let_def auth_wf_def view_auth_def)
qed

section \<open>Properties\<close>

text \<open>
  Copies of credentials.  On well-formed structures a copy is defined and well formed; a full
  copy has the names, hashes and flags of the source, and a partial one has the domain, the
  workstation and the flags of the source but an empty user and zeroed hashes, whatever the
  destination held before.
\<close>

theorem copy_auth_exact:
  assumes "auth_wf dst" "auth_wf src"
  shows "\<exists>d. copy_auth dst src full = Ret d \<and> auth_wf d \<and> view_auth d =
    (if full then view_auth src
     else (view_auth src)\<lparr>v_user := [], v_hashes := (zero_bytes, zero_bytes, zero_bytes)\<rparr>)"
  using assms by (rule copy_auth_result)

theorem copy_auth_exact_witness:
  "\<exists>d. copy_auth new_auth (new_auth\<lparr>hashnt := 2\<rparr>) True = Ret d \<and> auth_wf d
     \<and> view_auth d = view_auth (new_auth\<lparr>hashnt := 2\<rparr>)"
  using copy_auth_exact [of new_auth "new_auth\<lparr>hashnt := 2\<rparr>" True]
  by (simp add: auth_wf_def new_auth_def)

end
