(* ===== verification/RRData.thy ===== *)
theory RRData
  imports HList Auth
begin

text \<open>
  The request/response structure of utils.c (\<open>rr_data_s\<close>): allocation, reset, copy and
  duplication.  A NULL structure is \<open>None\<close>; the body is raw memory with its length beside it.
\<close>

record rr_data_s =
  rr_req :: int
  rr_headers :: hlist_t
  rr_code :: int
  rr_skip_http :: int
  rr_body_len :: int
  rr_empty :: int
  rr_port :: int
  rr_method :: "string option"
  rr_url :: "string option"
  rr_rel_url :: "string option"
  rr_hostname :: "string option"
  rr_http :: "string option"
  rr_msg :: "string option"
  rr_body :: "byte list option"
  rr_errmsg :: "string option"

definition new_rr_data :: rr_data_s where
  "new_rr_data = \<lparr>rr_req = 0, rr_headers = [], rr_code = 0, rr_skip_http = 0, rr_body_len = 0,
     rr_empty = 1, rr_port = 0, rr_method = None, rr_url = None, rr_rel_url = None,
     rr_hostname = None, rr_http = None, rr_msg = None, rr_body = None, rr_errmsg = None\<rparr>"

definition reset_rr_data :: "rr_data_s option \<Rightarrow> rr_data_s option" where
  "reset_rr_data data = (case data of
       None \<Rightarrow> None
     | Some d \<Rightarrow> Some (d\<lparr>rr_req := 0, rr_code := 0, rr_skip_http := 0, rr_body_len := 0,
         rr_empty := 1, rr_port := 0, rr_headers := [], rr_method := None, rr_url := None,
         rr_rel_url := None, rr_hostname := None, rr_http := None, rr_msg := None,
         rr_body := None, rr_errmsg := None\<rparr>))"

text \<open>\<open>strdup\<close> of a pointer that may be NULL, guarded.\<close>

definition dup_opt :: "string option \<Rightarrow> string option \<Rightarrow> string option" where
  "dup_opt dst src = (case src of None \<Rightarrow> dst | Some s \<Rightarrow> Some s)"

text \<open>The destination is another structure than the source.\<close>

definition copy_rr_data :: "rr_data_s option \<Rightarrow> rr_data_s option \<Rightarrow> rr_data_s option c_result" where
  "copy_rr_data dst src =
     (case (reset_rr_data dst, src) of
        (Some d, Some s) \<Rightarrow>
          (let d1 = d\<lparr>rr_req := rr_req s, rr_code := rr_code s, rr_skip_http := rr_skip_http s,
                 rr_body_len := rr_body_len s, rr_empty := rr_empty s, rr_port := rr_port s,
                 rr_headers := (if rr_headers s \<noteq> [] then hlist_dup (rr_headers s) else rr_headers d),
                 rr_method := dup_opt (rr_method d) (rr_method s),
                 rr_url := dup_opt (rr_url d) (rr_url s),
                 rr_rel_url := dup_opt (rr_rel_url d) (rr_rel_url s),
                 rr_hostname := dup_opt (rr_hostname d) (rr_hostname s),
                 rr_http := dup_opt (rr_http d) (rr_http s),
                 rr_msg := dup_opt (rr_msg d) (rr_msg s)\<rparr>
           in case rr_body s of
                Some b \<Rightarrow>
                  if rr_body_len s > 0
                  then c_bind (memcpy (replicate (nat (rr_body_len s)) 0) b (nat (rr_body_len s)))
                         (\<lambda>b'. Ret (Some (d1\<lparr>rr_body := Some b'\<rparr>)))
                  else Ret (Some d1)
              | None \<Rightarrow> Ret (Some d1))
      | _ \<Rightarrow> Ret None)"

definition dup_rr_data :: "rr_data_s option \<Rightarrow> rr_data_s option c_result" where
  "dup_rr_data data =
     (case data of None \<Rightarrow> Ret None | Some d \<Rightarrow> copy_rr_data (Some new_rr_data) (Some d))"

section \<open>Lemmas\<close>

lemma dup_opt_None [simp]: "dup_opt None s = s"
  by (simp add: dup_opt_def split: option.split)

lemma hlist_dup_cond [simp]: "(if h \<noteq> [] then hlist_dup h else []) = h"
  by simp

lemma reset_rr_data_new: "reset_rr_data (Some d) = Some new_rr_data"
  by (cases d) (simp add: reset_rr_data_def new_rr_data_def)

text \<open>A body whose length says how much of it is there.\<close>

definition body_wf :: "rr_data_s \<Rightarrow> bool" where
  "body_wf d = (case rr_body d of None \<Rightarrow> True | Some b \<Rightarrow> rr_body_len d \<le> int (length b))"

lemma copy_rr_data_eq:
  assumes "body_wf s"
  shows "copy_rr_data (Some d) (Some s) = Ret (Some (s\<lparr>rr_errmsg := None,
      rr_body := (if rr_body_len s > 0 then map_option (take (nat (rr_body_len s))) (rr_body s) else None)\<rparr>))
    \<and> dup_rr_data (Some s) = copy_rr_data (Some d) (Some s)"
  using assms by (cases s; cases "rr_body s")
    (auto simp: copy_rr_data_def dup_rr_data_def reset_rr_data_new new_rr_data_def body_wf_def
      memcpy_def nat_le_iff)

section \<open>Properties\<close>

text \<open>
  Duplication of a request or response.  The copy of a structure whose body buffer is as long
  as its length field says has every field of the source, whatever the destination held, except
  the static error text, which is never copied, and the part of the body buffer beyond the
  length (all of it when the length is not positive).
\<close>

theorem copy_rr_data_exact:
  assumes "body_wf s"
  shows "copy_rr_data (Some d) (Some s) = Ret (Some (s\<lparr>rr_errmsg := None,
      rr_body := (if rr_body_len s > 0 then map_option (take (nat (rr_body_len s))) (rr_body s) else None)\<rparr>))
    \<and> dup_rr_data (Some s) = copy_rr_data (Some d) (Some s)"
  by (rule copy_rr_data_eq [OF assms])

theorem copy_rr_data_exact_witness:
  "copy_rr_data (Some new_rr_data) (Some (new_rr_data\<lparr>rr_code := 200, rr_body := Some [1, 2], rr_body_len := 1\<rparr>))
   = Ret (Some (new_rr_data\<lparr>rr_code := 200, rr_body := Some [1], rr_body_len := 1\<rparr>))"
  using copy_rr_data_exact [of "new_rr_data\<lparr>rr_code := 200, rr_body := Some [1, 2], rr_body_len := 1\<rparr>" new_rr_data]
  by (simp add: body_wf_def new_rr_data_def)

end
