(* ===== verification/ConfigFile.thy ===== *)
theory ConfigFile
  imports HList
begin

text \<open>
  config.c: the reader of the configuration file and the option store it fills.  The file is its
  text (\<open>None\<close> when it cannot be opened).  The line buffer of BUFSIZE bytes is kept from line to
  line, because the search for a closing quote may run past the end of the current line.
\<close>

abbreviation BUFSIZE :: nat where "BUFSIZE \<equiv> 4096"

record config_s =
  cf_options :: hlist_t

section \<open>Lines\<close>

fun upto_newline :: "nat \<Rightarrow> string \<Rightarrow> string" where
  "upto_newline 0 s = []"
| "upto_newline (Suc n) [] = []"
| "upto_newline (Suc n) (c # s) = (if c = LF then [c] else c # upto_newline n s)"

text \<open>
  \<open>fgets(buf, n, fp)\<close>: the line, the rest of the file and whether the end of the file was
  met; \<open>None\<close> when nothing is left.
\<close>

definition fgets :: "nat \<Rightarrow> string \<Rightarrow> (string \<times> string \<times> bool) option" where
  "fgets n inp =
     (if inp = [] then None
      else let line = upto_newline (n - 1) inp
           in Some (line, drop (length line) inp,
                    length line < n - 1 \<and> (line = [] \<or> last line \<noteq> LF)))"

text \<open>\<open>for (; j < len && p(buf[j]); ++j);\<close>\<close>

definition scan :: "(char \<Rightarrow> bool) \<Rightarrow> string \<Rightarrow> nat \<Rightarrow> nat \<Rightarrow> nat" where
  "scan p buf j len = j + length (takeWhile p (drop j (take len buf)))"

definition is_comment :: "char \<Rightarrow> bool" where
  "is_comment c \<longleftrightarrow> c = CHR ''#'' \<or> c = CHR '';''"

text \<open>
  The search for the closing quote from \<open>i\<close>, whose bound tests \<open>j\<close> and not \<open>i\<close>: it runs on in
  the buffer, over what earlier lines left there, and beyond it.
\<close>

definition find_quote :: "string \<Rightarrow> nat \<Rightarrow> nat c_result" where
  "find_quote buf i =
     (let k = i + length (takeWhile (\<lambda>c. c \<noteq> CHR 0x22) (drop i buf))
      in if k < length buf then Ret k else UB)"

text \<open>The value from position \<open>j\<close> on, up to \<open>i\<close>; unquoted it ends before a hash sign.\<close>

definition take_value :: "string \<Rightarrow> bool \<Rightarrow> nat \<Rightarrow> nat \<Rightarrow> string c_result" where
  "take_value line quote j i =
     c_bind (substr line (int j) (int i - int j)) (\<lambda>v.
       Ret (if quote then v else trimr (take (strcspn v ''#'') v)))"

section \<open>One line\<close>

text \<open>The part after the keyword at positions \<open>i\<close> to \<open>j\<close>.\<close>

definition parse_value :: "string \<Rightarrow> nat \<Rightarrow> nat \<Rightarrow> nat \<Rightarrow> hlist_t \<Rightarrow> hlist_t c_result" where
  "parse_value buf len i j opts =
     c_bind (substr (cstr_of buf) (int i) (int j - int i)) (\<lambda>key.
     let j = scan c_isspace buf j len in
     if j \<ge> len \<or> is_comment (buf ! j) then Ret opts
     else if buf ! j = CHR 0x22 then
       (let j = j + 1 in
        c_bind (if j < len then find_quote buf j else Ret j) (\<lambda>i.
        if i \<ge> len then Ret opts
        else c_bind (take_value (cstr_of buf) True j i)
               (\<lambda>v. Ret (hlist_add opts (Some key) (Some v)))))
     else c_bind (take_value (cstr_of buf) False j len)
            (\<lambda>v. Ret (hlist_add opts (Some key) (Some v))))"

text \<open>A section header from position \<open>j\<close> (after the bracket): the new section name.\<close>

definition parse_section :: "string \<Rightarrow> nat \<Rightarrow> nat \<Rightarrow> string \<Rightarrow> string" where
  "parse_section buf len j section =
     (let slen = scan c_isspace buf j len;
          k = min (scan (\<lambda>c. c \<noteq> CHR '']'' \<and> \<not> c_isspace c) buf slen len) (slen + 49)
      in if k - slen > 0 then take (k - slen) (drop slen buf) else section)"

definition parse_line :: "string \<Rightarrow> string \<Rightarrow> hlist_t \<Rightarrow> (string \<times> hlist_t) c_result" where
  "parse_line buf section opts =
     (let len = min BUFSIZE (length (cstr_of buf));
          j = scan c_isspace buf 0 len in
      if j \<ge> len \<or> is_comment (buf ! j) then Ret (section, opts)
      else let i = j; j = scan c_isalnum buf i len in
        if j \<ge> len then Ret (section, opts)
        else if buf ! j = CHR ''['' then Ret (parse_section buf len (j + 1) section, opts)
        else c_bind (parse_value buf len i j opts) (\<lambda>opts'. Ret (section, opts')))"

section \<open>The file\<close>

lemma length_upto_newline: "length (upto_newline n s) \<le> length s"
  by (induction n s rule: upto_newline.induct) auto

lemma upto_newline_Nil: "upto_newline n s = [] \<longleftrightarrow> n = 0 \<or> s = []"
  by (cases n; cases s) auto

lemma fgets_shorter: "fgets BUFSIZE inp = Some (line, rest, e) \<Longrightarrow> length rest < length inp"
  using length_upto_newline [of 4095 inp] upto_newline_Nil [of 4095 inp]
  by (auto simp: fgets_def Let_def split: if_splits)

text \<open>\<open>eof\<close> is the end-of-file state of the stream.\<close>

function config_loop :: "string \<Rightarrow> bool \<Rightarrow> string \<Rightarrow> string \<Rightarrow> hlist_t \<Rightarrow> hlist_t c_result" where
  "config_loop buf eof section inp opts =
     (if eof then Ret opts
      else case fgets BUFSIZE inp of
        None \<Rightarrow> Ret opts
      | Some (line, rest, eof') \<Rightarrow>
          (let buf' = line @ NUL # drop (Suc (length line)) buf in
           if cstr_of buf' = [] \<or> eof' then config_loop buf' eof' section rest opts
           else case parse_line buf' section opts of
                  UB \<Rightarrow> UB
                | Ret (section', opts') \<Rightarrow> config_loop buf' eof' section' rest opts'))"
  by pat_completeness auto
termination
  by (relation "measure (\<lambda>(_, _, _, inp, _). length inp)") (auto dest: fgets_shorter)

declare config_loop.simps [simp del]

definition config_open :: "string option \<Rightarrow> config_s option c_result" where
  "config_open file =
     (case file of
        None \<Rightarrow> Ret None
      | Some inp \<Rightarrow>
          c_bind (config_loop (replicate BUFSIZE NUL) False ''global'' inp [])
            (\<lambda>opts. Ret (Some \<lparr>cf_options = opts\<rparr>)))"

section \<open>The option store\<close>

definition config_set :: "config_s \<Rightarrow> string \<Rightarrow> string \<Rightarrow> config_s" where
  "config_set cf opt v = cf\<lparr>cf_options := hlist_mod (cf_options cf) opt v True\<rparr>"

definition config_pop :: "config_s \<Rightarrow> string \<Rightarrow> string option \<times> config_s" where
  "config_pop cf opt =
     (case hlist_get (cf_options cf) opt of
        None \<Rightarrow> (None, cf)
      | Some v \<Rightarrow> (Some v, cf\<lparr>cf_options := hlist_del (cf_options cf) opt\<rparr>))"

definition config_count :: "config_s \<Rightarrow> nat" where
  "config_count cf = hlist_count (cf_options cf)"

section \<open>Lemmas\<close>

lemma scan_split:
  assumes "\<forall>x \<in> set b. p x" "c = [] \<or> \<not> p (hd c)"
  shows "scan p (a @ b @ c @ z) (length a) (length a + length b + length c) = length a + length b"
proof -
  have "takeWhile p (b @ c) = b" using assms by (cases c) auto
  then show ?thesis by (simp add: scan_def)
qed

lemma scan_at:
  assumes "\<forall>x \<in> set b. p x" "c = [] \<or> \<not> p (hd c)" "buf = a @ b @ c @ z"
    "i = length a" "len = length a + length b + length c"
  shows "scan p buf i len = length a + length b"
  using scan_split [OF assms(1,2)] assms(3-5) by simp

lemma substr_mid:
  assumes "line = a @ b @ c" "b \<noteq> []" "length line < 2 ^ 31" "i = int (length a)" "l = int (length b)"
  shows "substr line i l = Ret b"
  using assms by (subst substr_eq) auto

lemma upto_newline_line:
  "LF \<notin> set l \<Longrightarrow> length l < n \<Longrightarrow> upto_newline n (l @ LF # r) = l @ [LF]"
proof (induction l arbitrary: n)
  case Nil
  then show ?case by (cases n) auto
next
  case (Cons c l)
  then show ?case by (cases n) auto
qed

lemma upto_newline_short: "LF \<notin> set l \<Longrightarrow> length l \<le> n \<Longrightarrow> upto_newline n l = l"
  by (induction n l rule: upto_newline.induct) auto

lemma fgets_line:
  "LF \<notin> set l \<Longrightarrow> length l < 4095 \<Longrightarrow> fgets BUFSIZE (l @ LF # r) = Some (l @ [LF], r, False)"
  by (simp add: fgets_def upto_newline_line Let_def)

lemma fgets_last:
  "LF \<notin> set l \<Longrightarrow> length l < 4095 \<Longrightarrow> l \<noteq> [] \<Longrightarrow> fgets BUFSIZE l = Some (l, [], True)"
proof -
  assume l: "LF \<notin> set l" "length l < 4095" "l \<noteq> []"
  then have "upto_newline 4095 l = l" by (simp add: upto_newline_short)
  moreover have "last l \<noteq> LF" using l by (metis last_in_set)
  ultimately show ?thesis using l by (simp add: fgets_def Let_def)
qed

section \<open>The lines of a configuration file\<close>

datatype cline =
    Blank string
  | Comment string char string
  | Section string string
  | Setting string string string string string
  | QSetting string string string string string
  | Unset string string string char string

text \<open>The text of a line without its newline.\<close>

fun line_text :: "cline \<Rightarrow> string" where
  "line_text (Blank w) = w"
| "line_text (Comment w c t) = w @ c # t"
| "line_text (Section n t) = CHR ''['' # n @ CHR '']'' # t"
| "line_text (Setting w k w1 v t) = w @ k @ w1 @ v @ t"
| "line_text (QSetting w k w1 v t) = w @ k @ w1 @ CHR 0x22 # v @ CHR 0x22 # t"
| "line_text (Unset w k w1 c t) = w @ k @ w1 @ c # t"

definition spaces :: "string \<Rightarrow> bool" where "spaces w = list_all c_isspace w"

definition tail_ok :: "string \<Rightarrow> bool" where
  "tail_ok t \<longleftrightarrow> spaces (takeWhile (\<lambda>c. c \<noteq> CHR ''#'') t)"

fun line_ok :: "cline \<Rightarrow> bool" where
  "line_ok (Blank w) \<longleftrightarrow> spaces w"
| "line_ok (Comment w c t) \<longleftrightarrow> spaces w \<and> is_comment c"
| "line_ok (Section n t) \<longleftrightarrow> True"
| "line_ok (Setting w k w1 v t) \<longleftrightarrow> spaces w \<and> k \<noteq> [] \<and> list_all c_isalnum k \<and> spaces w1 \<and> w1 \<noteq> []
     \<and> v \<noteq> [] \<and> \<not> c_isspace (hd v) \<and> \<not> c_isspace (last v) \<and> CHR ''#'' \<notin> set v
     \<and> hd v \<noteq> CHR '';'' \<and> hd v \<noteq> CHR 0x22 \<and> tail_ok t"
| "line_ok (QSetting w k w1 v t) \<longleftrightarrow> spaces w \<and> k \<noteq> [] \<and> list_all c_isalnum k \<and> spaces w1 \<and> w1 \<noteq> []
     \<and> v \<noteq> [] \<and> CHR 0x22 \<notin> set v"
| "line_ok (Unset w k w1 c t) \<longleftrightarrow> spaces w \<and> k \<noteq> [] \<and> list_all c_isalnum k \<and> spaces w1 \<and> w1 \<noteq> [] \<and> is_comment c"

definition line_wf :: "cline \<Rightarrow> bool" where
  "line_wf l \<longleftrightarrow> line_ok l \<and> length (line_text l) < 4095 \<and> LF \<notin> set (line_text l) \<and> NUL \<notin> set (line_text l)"

fun line_option :: "cline \<Rightarrow> hlist_t" where
  "line_option (Setting w k w1 v t) = hlist_add [] (Some k) (Some v)"
| "line_option (QSetting w k w1 v t) = hlist_add [] (Some k) (Some v)"
| "line_option _ = []"

definition config_text :: "cline list \<Rightarrow> string" where
  "config_text ls = concat (map (\<lambda>l. line_text l @ [LF]) ls)"

lemma not_alnum [simp]:
  "\<not> c_isalnum CHR '' ''" "\<not> c_isalnum CHR 0x09" "\<not> c_isalnum LF" "\<not> c_isalnum CHR 0x0B"
  "\<not> c_isalnum CHR 0x0C" "\<not> c_isalnum CR" "\<not> c_isalnum CHR ''#''" "\<not> c_isalnum CHR '';''"
  "\<not> c_isalnum CHR ''[''"
  by (simp_all add: c_isalnum_def c_isdigit_def c_isupper_def c_islower_def)

lemma alnum_not_space: "c_isalnum c \<Longrightarrow> \<not> c_isspace c \<and> \<not> is_comment c \<and> c \<noteq> CHR ''[''"
  by (auto simp: c_isspace_def is_comment_def)

lemma space_not_alnum: "c_isspace c \<Longrightarrow> \<not> c_isalnum c \<and> c \<noteq> CHR ''[''"
  by (auto simp: alnum_not_space c_isspace_def)

lemma spaces_LF: "spaces w \<Longrightarrow> \<forall>c \<in> set (w @ [LF]). c_isspace c"
  by (auto simp: spaces_def list_all_iff c_isspace_def)

lemma hlist_add_append: "hlist_add l (Some k) (Some v) = l @ hlist_add [] (Some k) (Some v)"
  by (simp add: hlist_add_def)

section \<open>Reading one line\<close>

text \<open>The buffer after fgets: the line, its terminator and old contents \<open>z\<close>.\<close>

definition line_buf :: "string \<Rightarrow> string \<Rightarrow> bool" where
  "line_buf line buf \<longleftrightarrow> length line \<le> 4095 \<and> NUL \<notin> set line \<and> (\<exists>z. buf = line @ NUL # z)"

lemma line_bufD:
  assumes "line_buf line buf"
  shows "cstr_of buf = line" "min BUFSIZE (length line) = length line" "length line < 2 ^ 31"
    "take (length line) buf = line" "\<exists>z. buf = line @ z"
  using assms by (auto simp: line_buf_def)

lemma line_buf_nth: "line_buf (a @ c # r) buf \<Longrightarrow> buf ! length a = c"
  by (auto simp: line_buf_def nth_append)

lemma line_buf_scan:
  assumes "line_buf (a @ b @ c) buf" "\<forall>x \<in> set b. p x" "c = [] \<or> \<not> p (hd c)" "i = length a"
  shows "scan p buf i (length (a @ b @ c)) = length a + length b"
proof -
  obtain z where "buf = a @ b @ c @ z" using line_bufD(5) [OF assms(1)] by auto
  from scan_at [OF assms(2,3) this assms(4)] show ?thesis by (simp add: add.assoc)
qed

lemma parse_line_blank:
  assumes "line_buf (w @ [LF]) buf" "spaces w"
  shows "parse_line buf sec opts = Ret (sec, opts)"
  using line_buf_scan [of "[]" "w @ [LF]" "[]" buf c_isspace 0] assms spaces_LF [OF assms(2)]
    line_bufD(1,2) [OF assms(1)]
  by (simp add: parse_line_def Let_def)

lemma parse_line_comment:
  assumes "line_buf (w @ c # r) buf" "spaces w" "is_comment c"
  shows "parse_line buf sec opts = Ret (sec, opts)"
proof -
  have "\<not> c_isspace c" using assms(3) by (auto simp: is_comment_def c_isspace_def)
  then have "scan c_isspace buf 0 (length (w @ c # r)) = length w"
    using line_buf_scan [of "[]" w "c # r" buf c_isspace 0] assms
    by (simp add: spaces_def list_all_iff)
  then show ?thesis using line_bufD(1,2) [OF assms(1)] line_buf_nth [OF assms(1)] assms(3)
    by (simp add: parse_line_def Let_def)
qed

lemma parse_line_key:
  assumes b: "line_buf (w @ k @ c # r) buf" and ok: "spaces w" "list_all c_isalnum k" "\<not> c_isalnum c"
    "k \<noteq> [] \<or> \<not> c_isspace c \<and> \<not> is_comment c"
  shows "parse_line buf sec opts =
    (if c = CHR ''['' then Ret (parse_section buf (length (w @ k @ c # r)) (Suc (length (w @ k))) sec, opts)
     else c_bind (parse_value buf (length (w @ k @ c # r)) (length w) (length (w @ k)) opts)
            (\<lambda>opts'. Ret (sec, opts')))"
proof -
  have hd: "\<not> c_isspace (hd (k @ [c])) \<and> \<not> is_comment (hd (k @ [c]))"
    using ok by (cases k) (auto simp: alnum_not_space)
  have s1: "scan c_isspace buf 0 (length (w @ k @ c # r)) = length w"
    using line_buf_scan [of "[]" w "k @ c # r" buf c_isspace 0] b ok(1) hd
    by (cases k) (auto simp: spaces_def list_all_iff)
  have s2: "scan c_isalnum buf (length w) (length (w @ k @ c # r)) = length (w @ k)"
    using line_buf_scan [of w k "c # r" buf c_isalnum "length w"] b ok(2,3)
    by (auto simp: list_all_iff)
  have n1: "\<not> is_comment (buf ! length w)"
    using line_buf_nth [of w "hd (k @ [c])" "tl (k @ [c]) @ r" buf] b hd by (cases k) auto
  have n2: "buf ! length (w @ k) = c"
    using line_buf_nth [of "w @ k" c r buf] b by simp
  have len: "min BUFSIZE (length (cstr_of buf)) = length (w @ k @ c # r)"
    using line_bufD(1,2) [OF b] by simp
  have lt: "length w < length (w @ k @ c # r)" "length (w @ k) < length (w @ k @ c # r)" by auto
  show ?thesis
    unfolding parse_line_def len Let_def s1 s2 n2 using n1 lt by auto
qed

lemma parse_value_head:
  assumes b: "line_buf (w @ k @ w1 @ d # r) buf" and ok: "k \<noteq> []" "spaces w1" "\<not> c_isspace d" "\<not> is_comment d"
  shows "parse_value buf (length (w @ k @ w1 @ d # r)) (length w) (length (w @ k)) opts =
    (let j = length (w @ k @ w1); len = length (w @ k @ w1 @ d # r) in
     if d = CHR 0x22 then
        c_bind (if j + 1 < len then find_quote buf (j + 1) else Ret (j + 1)) (\<lambda>i.
        if i \<ge> len then Ret opts
        else c_bind (take_value (w @ k @ w1 @ d # r) True (j + 1) i)
               (\<lambda>v. Ret (hlist_add opts (Some k) (Some v))))
     else c_bind (take_value (w @ k @ w1 @ d # r) False j len)
            (\<lambda>v. Ret (hlist_add opts (Some k) (Some v))))"
proof -
  have key: "substr (w @ k @ w1 @ d # r) (int (length w)) (int (length (w @ k)) - int (length w)) = Ret k"
    using line_bufD(3) [OF b] ok(1) by (intro substr_mid [of _ w k "w1 @ d # r"]) auto
  have s: "scan c_isspace buf (length (w @ k)) (length (w @ k @ w1 @ d # r)) = length (w @ k @ w1)"
    using line_buf_scan [of "w @ k" w1 "d # r" buf c_isspace "length (w @ k)"] b ok
    by (auto simp: spaces_def list_all_iff)
  have n: "buf ! length (w @ k @ w1) = d"
    using line_buf_nth [of "w @ k @ w1" d r buf] b by simp
  have lt: "\<not> length (w @ k @ w1 @ d # r) \<le> length (w @ k @ w1)" by auto
  show ?thesis
    unfolding parse_value_def line_bufD(1) [OF b] key c_bind.simps Let_def s n
    using lt ok(4) by auto
qed

text \<open>A keyword whose value is a comment.\<close>

lemma parse_value_comment:
  assumes b: "line_buf (w @ k @ w1 @ d # r) buf" and ok: "k \<noteq> []" "spaces w1" "is_comment d"
  shows "parse_value buf (length (w @ k @ w1 @ d # r)) (length w) (length (w @ k)) opts = Ret opts"
proof -
  have d: "\<not> c_isspace d" using ok(3) by (auto simp: is_comment_def c_isspace_def)
  have key: "substr (w @ k @ w1 @ d # r) (int (length w)) (int (length (w @ k)) - int (length w)) = Ret k"
    using line_bufD(3) [OF b] ok(1) by (intro substr_mid [of _ w k "w1 @ d # r"]) auto
  have s: "scan c_isspace buf (length (w @ k)) (length (w @ k @ w1 @ d # r)) = length (w @ k @ w1)"
    using line_buf_scan [of "w @ k" w1 "d # r" buf c_isspace "length (w @ k)"] b ok(2) d
    by (auto simp: spaces_def list_all_iff)
  have n: "buf ! length (w @ k @ w1) = d" using line_buf_nth [of "w @ k @ w1" d r buf] b by simp
  show ?thesis
    unfolding parse_value_def line_bufD(1) [OF b] key c_bind.simps Let_def s n using ok(3) by simp
qed

lemma take_value_quoted:
  assumes "length (a @ v @ r) < 2 ^ 31" "v \<noteq> []"
  shows "take_value (a @ v @ r) True (length a) (length a + length v) = Ret v"
  using assms unfolding take_value_def by (subst substr_mid [of _ a v r]) auto

lemma trimr_last: "v \<noteq> [] \<Longrightarrow> \<not> c_isspace (last v) \<Longrightarrow> spaces t \<Longrightarrow> trimr (v @ t) = v"
  using trimr_append [of t v] trimr_id [of v] by (auto simp: spaces_def list_all_iff)

lemma take_value_plain:
  assumes "length (a @ v @ t @ [LF]) < 2 ^ 31" "v \<noteq> []" "\<not> c_isspace (last v)" "CHR ''#'' \<notin> set v" "tail_ok t"
  shows "take_value (a @ v @ t @ [LF]) False (length a) (length (a @ v @ t @ [LF])) = Ret v"
proof -
  have tw: "takeWhile (\<lambda>c. c \<noteq> CHR ''#'') (v @ t @ [LF]) = v @ takeWhile (\<lambda>c. c \<noteq> CHR ''#'') (t @ [LF])"
    using assms(4) by (subst takeWhile_append2) auto
  have "spaces (takeWhile (\<lambda>c. c \<noteq> CHR ''#'') (t @ [LF]))"
  proof -
    have "takeWhile (\<lambda>c. c \<noteq> CHR ''#'') (t @ [LF]) \<in>
        {takeWhile (\<lambda>c. c \<noteq> CHR ''#'') t, takeWhile (\<lambda>c. c \<noteq> CHR ''#'') t @ [LF]}"
      by (induction t) auto
    then show ?thesis using assms(5) by (auto simp: tail_ok_def spaces_def c_isspace_def)
  qed
  then have "trimr (takeWhile (\<lambda>c. c \<noteq> CHR ''#'') (v @ t @ [LF])) = v"
    using assms(2,3) tw by (simp add: trimr_last)
  moreover have "substr (a @ v @ t @ [LF]) (int (length a)) (int (length (a @ v @ t @ [LF])) - int (length a))
      = Ret (v @ t @ [LF])"
    using assms(1) by (intro substr_mid [of _ a "v @ t @ [LF]" "[]"]) auto
  ultimately show ?thesis by (simp add: take_value_def take_strcspn)
qed

lemma find_quote_next:
  assumes "line_buf (a @ v @ CHR 0x22 # r) buf" "CHR 0x22 \<notin> set v"
  shows "find_quote buf (length a) = Ret (length a + length v)"
proof -
  obtain z where z: "buf = a @ v @ CHR 0x22 # r @ z" using line_bufD(5) [OF assms(1)] by auto
  have "takeWhile (\<lambda>c. c \<noteq> CHR 0x22) (v @ CHR 0x22 # r @ z) = v"
    using assms(2) by (subst takeWhile_append2) auto
  then show ?thesis by (simp add: find_quote_def z Let_def)
qed

text \<open>What one well-formed line does to the section and the options.\<close>

lemma parse_line_text:
  assumes "line_wf l" "line_buf (line_text l @ [LF]) buf"
  shows "\<exists>sec'. parse_line buf sec opts = Ret (sec', opts @ line_option l)"
proof (cases l)
  case (Blank w)
  then show ?thesis using parse_line_blank [of w buf] assms by (simp add: line_wf_def)
next
  case (Comment w c t)
  then show ?thesis using parse_line_comment [of w c "t @ [LF]" buf] assms
    by (simp add: line_wf_def)
next
  case (Section n t)
  then show ?thesis using parse_line_key [of "[]" "[]" "CHR ''[''" "n @ CHR '']'' # t @ [LF]" buf] assms
    by (auto simp: line_wf_def is_comment_def spaces_def c_isspace_def)
next
  case (Setting w k w1 v t)
  then have ok: "spaces w" "k \<noteq> []" "list_all c_isalnum k" "spaces w1" "w1 \<noteq> []"
     "v \<noteq> []" "\<not> c_isspace (hd v)" "\<not> c_isspace (last v)" "CHR ''#'' \<notin> set v"
     "hd v \<noteq> CHR '';''" "hd v \<noteq> CHR 0x22" "tail_ok t"
    using assms(1) by (auto simp: line_wf_def)
  let ?L = "w @ k @ w1 @ v @ t @ [LF]"
  have b: "line_buf ?L buf" using assms(2) Setting by simp
  obtain s1 sr where w1: "w1 = s1 # sr" using ok(5) by (cases w1) auto
  obtain d vr where v: "v = d # vr" using ok(6) by (cases v) auto
  have s1: "\<not> c_isalnum s1" "s1 \<noteq> CHR ''[''" using ok(4) w1 space_not_alnum by (auto simp: spaces_def)
  have d: "\<not> is_comment d" "d \<noteq> CHR 0x22" using ok v by (auto simp: is_comment_def)
  have val: "take_value ?L False (length (w @ k @ w1)) (length ?L) = Ret v"
    using take_value_plain [of "w @ k @ w1" v t] line_bufD(3) [OF b] ok by simp
  have pv: "parse_value buf (length ?L) (length w) (length (w @ k)) opts = Ret (hlist_add opts (Some k) (Some v))"
    using parse_value_head [of w k w1 d "vr @ t @ [LF]" buf opts] b ok(2,4,7) d val v
    unfolding Let_def by simp
  show ?thesis
    using parse_line_key [of w k s1 "sr @ v @ t @ [LF]" buf sec opts] b ok(1-3) s1 pv w1
    by (simp add: Setting hlist_add_append [of opts])
next
  case (QSetting w k w1 v t)
  then have ok: "spaces w" "k \<noteq> []" "list_all c_isalnum k" "spaces w1" "w1 \<noteq> []"
     "v \<noteq> []" "CHR 0x22 \<notin> set v"
    using assms(1) by (auto simp: line_wf_def)
  let ?A = "w @ k @ w1 @ [CHR 0x22]" and ?R = "CHR 0x22 # t @ [LF]"
  let ?L = "w @ k @ w1 @ CHR 0x22 # v @ ?R"
  have b: "line_buf ?L buf" using assms(2) QSetting by simp
  obtain s1 sr where w1: "w1 = s1 # sr" using ok(5) by (cases w1) auto
  have s1: "\<not> c_isalnum s1" "s1 \<noteq> CHR ''[''" using ok(4) w1 space_not_alnum by (auto simp: spaces_def)
  have A: "length (w @ k @ w1) + 1 = length ?A" "?L = ?A @ v @ ?R" by auto
  have q: "find_quote buf (length ?A) = Ret (length ?A + length v)"
    by (rule find_quote_next [OF _ ok(7)]) (use b in simp)
  have val: "take_value ?L True (length ?A) (length ?A + length v) = Ret v"
    using take_value_quoted [of ?A v ?R] line_bufD(3) [OF b] ok(6) by simp
  have nc: "\<not> c_isspace CHR 0x22" "\<not> is_comment CHR 0x22"
    by (auto simp: c_isspace_def is_comment_def)
  have lt: "length ?A < length ?L" "\<not> length ?L \<le> length ?A + length v" by auto
  have pv: "parse_value buf (length ?L) (length w) (length (w @ k)) opts = Ret (hlist_add opts (Some k) (Some v))"
    unfolding parse_value_head [OF b ok(2,4) nc] Let_def A(1)
    by (simp only: lt if_True if_False q c_bind.simps val simp_thms)
  show ?thesis
    using parse_line_key [of w k s1 "sr @ CHR 0x22 # v @ ?R" buf sec opts] b ok(1-3) s1 pv w1
    by (simp add: QSetting hlist_add_append [of opts])
next
  case (Unset w k w1 c t)
  then have ok: "spaces w" "k \<noteq> []" "list_all c_isalnum k" "spaces w1" "w1 \<noteq> []" "is_comment c"
    using assms(1) by (auto simp: line_wf_def)
  have b: "line_buf (w @ k @ w1 @ c # t @ [LF]) buf" using assms(2) Unset by simp
  obtain s1 sr where w1: "w1 = s1 # sr" using ok(5) by (cases w1) auto
  have s1: "\<not> c_isalnum s1" "s1 \<noteq> CHR ''[''" using ok(4) w1 space_not_alnum by (auto simp: spaces_def)
  show ?thesis
    using parse_line_key [of w k s1 "sr @ c # t @ [LF]" buf sec opts] b ok(1-3) s1
      parse_value_comment [OF b ok(2,4,6), of opts] w1
    by (simp add: Unset)
qed

section \<open>Reading the file\<close>

lemma config_loop_lines:
  assumes "\<forall>l \<in> set ls. line_wf l"
  shows "\<exists>buf' sec'. config_loop buf False sec (config_text ls @ r) opts =
     config_loop buf' False sec' r (opts @ concat (map line_option ls))"
  using assms
proof (induction ls arbitrary: buf sec opts)
  case (Cons l ls)
  let ?line = "line_text l @ [LF]"
  let ?buf = "?line @ NUL # drop (Suc (length ?line)) buf"
  have wf: "line_wf l" using Cons.prems by simp
  then have lb: "line_buf ?line ?buf"
    unfolding line_wf_def line_buf_def by auto
  obtain sec' where p: "parse_line ?buf sec opts = Ret (sec', opts @ line_option l)"
    using parse_line_text [OF wf lb] by blast
  have f: "fgets BUFSIZE (config_text (l # ls) @ r) = Some (?line, config_text ls @ r, False)"
    using fgets_line [of "line_text l" "config_text ls @ r"] wf by (simp add: line_wf_def config_text_def)
  have "config_loop buf False sec (config_text (l # ls) @ r) opts
      = config_loop ?buf False sec' (config_text ls @ r) (opts @ line_option l)"
    using line_bufD(1) [OF lb] p f by (subst config_loop.simps) (simp add: Let_def)
  with Cons.IH [of ?buf sec' "opts @ line_option l"] Cons.prems show ?case by simp
qed (auto simp: config_text_def)

lemma config_loop_end [simp]: "config_loop buf e sec [] opts = Ret opts"
  by (subst config_loop.simps) (simp add: fgets_def)

lemma config_loop_eof [simp]: "config_loop buf True sec inp opts = Ret opts"
  by (subst config_loop.simps) simp

lemma config_loop_last:
  "LF \<notin> set l \<Longrightarrow> length l < 4095 \<Longrightarrow> config_loop buf False sec l opts = Ret opts"
  by (cases "l = []") (simp, subst config_loop.simps, simp add: fgets_last Let_def)

lemma config_open_lines:
  assumes "\<forall>l \<in> set ls. line_wf l" "LF \<notin> set last_line" "length last_line < 4095"
  shows "config_open (Some (config_text ls @ last_line)) =
    Ret (Some \<lparr>cf_options = concat (map line_option ls)\<rparr>)"
proof -
  obtain buf' sec' where "config_loop (replicate BUFSIZE NUL) False ''global'' (config_text ls @ last_line) [] =
     config_loop buf' False sec' last_line (concat (map line_option ls))"
    using config_loop_lines [OF assms(1), of "replicate BUFSIZE NUL" "''global''" last_line "[]"] by auto
  then show ?thesis using assms(2,3) by (simp add: config_open_def config_loop_last)
qed

section \<open>Properties\<close>

text \<open>
  C38: reading a configuration file.  A file made of blank lines, comments (from a hash or a
  semicolon), section headers, settings, plain or quoted, and keywords with a comment in place of the value,
  each shorter than the line buffer, is read into exactly the options its settings name, with
  their values, in the order of the file.  After a plain value, blanks and a comment from a hash
  are dropped, but a semicolon after a value does not start a comment, as the manual says it does: it
  and the text after it belong to the value.  After a quoted value everything is dropped.  The last
  line counts only when it ends in a newline: anything after the last newline is ignored.
\<close>

theorem config_open_settings:
  assumes "\<forall>l \<in> set ls. line_wf l" "LF \<notin> set last_line" "length last_line < 4095"
  shows "config_open (Some (config_text ls @ last_line)) =
    Ret (Some \<lparr>cf_options = concat (map line_option ls)\<rparr>)"
  using assms by (rule config_open_lines)

theorem config_open_settings_witness:
  "config_open (Some (config_text [Comment [] CHR ''#'' '' cntlm'', Comment '' '' CHR '';'' '' old'', Section ''main'' [],
       Setting [] ''Username'' '' '' ''joe'' '' # me'', QSetting '' '' ''Password'' '' '' ''a#b'' '' ; secret'',
       Setting [] ''Domain'' '' '' ''corp ; office'' [], Unset [] ''Auth'' '' '' CHR '';'' '' NTLM'']
       @ ''Proxy 10.0.0.1:8080''))
   = Ret (Some \<lparr>cf_options = [\<lparr>hkey = ''Username'', hvalue = ''joe''\<rparr>, \<lparr>hkey = ''Password'', hvalue = ''a#b''\<rparr>,
       \<lparr>hkey = ''Domain'', hvalue = ''corp ; office''\<rparr>]\<rparr>)"
proof -
  let ?ls = "[Comment [] CHR ''#'' '' cntlm'', Comment '' '' CHR '';'' '' old'', Section ''main'' [],
       Setting [] ''Username'' '' '' ''joe'' '' # me'', QSetting '' '' ''Password'' '' '' ''a#b'' '' ; secret'',
       Setting [] ''Domain'' '' '' ''corp ; office'' [], Unset [] ''Auth'' '' '' CHR '';'' '' NTLM'']"
  have "\<forall>l \<in> set ?ls. line_wf l"
    by (simp add: line_wf_def spaces_def tail_ok_def c_isspace_def c_isalnum_def c_isdigit_def
        c_isupper_def c_islower_def is_comment_def)
  from config_open_settings [OF this, of "''Proxy 10.0.0.1:8080''"] show ?thesis
    by (simp add: hlist_add_def)
qed

lemma find_quote_none:
  assumes "buf = a @ v" "CHR 0x22 \<notin> set v" "i = length a"
  shows "find_quote buf i = UB"
proof -
  have "takeWhile (\<lambda>c. c \<noteq> CHR 0x22) v = v" using assms(2) by (auto simp: takeWhile_eq_all_conv)
  then have "length (takeWhile (\<lambda>c. c \<noteq> CHR 0x22) v) = length v" by (rule arg_cong)
  then show ?thesis using assms(1,3) by (simp add: find_quote_def Let_def)
qed

lemma config_loop_unterminated:
  assumes ok: "spaces w" "k \<noteq> []" "list_all c_isalnum k" "spaces w1" "w1 \<noteq> []" "v \<noteq> []"
    and plain: "{LF, NUL, CHR 0x22} \<inter> set (w @ k @ w1 @ v) = {}" "length (w @ k @ w1 @ v) < 4000"
  shows "config_loop (replicate BUFSIZE NUL) False sec (w @ k @ w1 @ CHR 0x22 # v @ LF # r) opts = UB"
proof -
  let ?A = "w @ k @ w1 @ [CHR 0x22]" and ?line = "w @ k @ w1 @ CHR 0x22 # v @ [LF]"
  let ?z = "drop (Suc (length ?line)) (replicate BUFSIZE NUL)"
  let ?buf = "?line @ NUL # ?z"
  have lb: "line_buf ?line ?buf" unfolding line_buf_def using plain by auto
  have f: "fgets BUFSIZE (w @ k @ w1 @ CHR 0x22 # v @ LF # r) = Some (?line, r, False)"
    using fgets_line [of "w @ k @ w1 @ CHR 0x22 # v" r] plain by auto
  have q: "find_quote ?buf (length ?A) = UB"
    by (rule find_quote_none [of _ ?A "v @ LF # NUL # ?z"]) (use plain in auto)
  have nc: "\<not> c_isspace CHR 0x22" "\<not> is_comment CHR 0x22"
    by (auto simp: c_isspace_def is_comment_def)
  have A: "length (w @ k @ w1) + 1 = length ?A" by simp
  have lt: "length ?A < length ?line" by simp
  have pv: "parse_value ?buf (length ?line) (length w) (length (w @ k)) opts = UB"
    unfolding parse_value_head [OF lb ok(2,4) nc] Let_def A
    by (simp only: lt if_True q c_bind.simps simp_thms)
  obtain s1 sr where w1: "w1 = s1 # sr" using ok(5) by (cases w1) auto
  have s1: "\<not> c_isalnum s1" "s1 \<noteq> CHR ''[''" using ok(4) w1 space_not_alnum by (auto simp: spaces_def)
  have p: "parse_line ?buf sec opts = UB"
    using parse_line_key [of w k s1 "sr @ CHR 0x22 # v @ [LF]" ?buf sec opts] lb ok(1-3) s1 pv w1
    by simp
  have ne: "cstr_of ?buf \<noteq> []" unfolding line_bufD(1) [OF lb] by simp
  show ?thesis
    unfolding config_loop.simps [of _ False] f option.case prod.case Let_def if_False
    using p ne by simp
qed

text \<open>
  An unterminated quote.  The search for the closing quote is bounded by the wrong index, so a
  first line with an opening and no closing quote sends it beyond the line buffer.
\<close>

theorem config_open_unterminated_quote:
  assumes "spaces w" "k \<noteq> []" "list_all c_isalnum k" "spaces w1" "w1 \<noteq> []" "v \<noteq> []"
    and "{LF, NUL, CHR 0x22} \<inter> set (w @ k @ w1 @ v) = {}" "length (w @ k @ w1 @ v) < 4000"
  shows "config_open (Some (w @ k @ w1 @ CHR 0x22 # v @ LF # r)) = UB"
  using config_loop_unterminated [OF assms] by (simp add: config_open_def)

theorem config_open_unterminated_quote_witness:
  "config_open (Some (''Password'' @ '' '' @ CHR 0x22 # ''secret'' @ LF # ''Proxy x'')) = UB"
  using config_open_unterminated_quote [of "[]" "''Password''" "'' ''" "''secret''" "''Proxy x''"]
  by (simp add: spaces_def c_isspace_def c_isalnum_def c_isdigit_def c_isupper_def c_islower_def)

section \<open>Taking the options out\<close>

text \<open>The loop \<open>while ((tmp = config_pop(cf, opt))) ...\<close> of main.c: all values of an option.\<close>

function config_pop_all :: "config_s \<Rightarrow> string \<Rightarrow> string list \<times> config_s" where
  "config_pop_all cf opt =
     (case config_pop cf opt of
        (None, cf') \<Rightarrow> ([], cf')
      | (Some v, cf') \<Rightarrow> (let (vs, cf'') = config_pop_all cf' opt in (v # vs, cf'')))"
  by pat_completeness auto
termination
  by (relation "measure (\<lambda>(cf, opt). length (cf_options cf))")
    (auto simp: config_pop_def hlist_del_shorter split: option.splits)

declare config_pop_all.simps [simp del]

lemma hlist_get_filter:
  "hlist_get l k = None \<longleftrightarrow> filter (\<lambda>t. strcaseeq (hkey t) k) l = []"
  by (induction l) auto

lemma hlist_get_del_filter:
  "hlist_get l k = Some v \<Longrightarrow>
   map hvalue (filter (\<lambda>t. strcaseeq (hkey t) k) l) = v # map hvalue (filter (\<lambda>t. strcaseeq (hkey t) k) (hlist_del l k))
   \<and> filter (\<lambda>t. \<not> strcaseeq (hkey t) k) (hlist_del l k) = filter (\<lambda>t. \<not> strcaseeq (hkey t) k) l"
  by (induction l) (auto split: if_splits)

text \<open>
  Taking an option out of the configuration.  Popping it until nothing is left, the loop main
  uses for the options that may repeat, ends with all its values in the order of the file,
  whatever the case of the names, and leaves every other option in place.
\<close>

lemma config_pop_all_eq:
  "config_pop_all cf opt =
     (map hvalue (filter (\<lambda>t. strcaseeq (hkey t) opt) (cf_options cf)),
      cf\<lparr>cf_options := filter (\<lambda>t. \<not> strcaseeq (hkey t) opt) (cf_options cf)\<rparr>)"
proof (induction cf opt rule: config_pop_all.induct)
  case (1 cf opt)
  show ?case
  proof (cases "hlist_get (cf_options cf) opt")
    case None
    then have "filter (\<lambda>t. strcaseeq (hkey t) opt) (cf_options cf) = []" by (simp add: hlist_get_filter)
    moreover from this have "filter (\<lambda>t. \<not> strcaseeq (hkey t) opt) (cf_options cf) = cf_options cf"
      by (simp add: filter_empty_conv filter_id_conv)
    ultimately show ?thesis using None by (subst config_pop_all.simps) (simp add: config_pop_def)
  next
    case (Some v)
    with 1 hlist_get_del_filter [OF Some] show ?thesis
      by (subst config_pop_all.simps) (simp add: config_pop_def)
  qed
qed

section \<open>The options as queues\<close>

text \<open>
  What the rest of the program may rely on: an option is a queue of values under its name, in lower
  case, and the queues are independent.
\<close>

definition queues :: "config_s \<Rightarrow> string \<Rightarrow> string list" where
  "queues cf k = map hvalue (filter (\<lambda>t. map c_tolower (hkey t) = k) (cf_options cf))"

definition queue_pop :: "string \<Rightarrow> (string \<Rightarrow> string list) \<Rightarrow> string option \<times> (string \<Rightarrow> string list)" where
  "queue_pop k q = (case q k of [] \<Rightarrow> (None, q) | v # vs \<Rightarrow> (Some v, q(k := vs)))"

definition queue_set :: "string \<Rightarrow> string \<Rightarrow> (string \<Rightarrow> string list) \<Rightarrow> string \<Rightarrow> string list" where
  "queue_set k v q = q(k := v # tl (q k))"

lemma queues_pop:
  "(case config_pop cf opt of (v, cf') \<Rightarrow> (v, queues cf')) = queue_pop (map c_tolower opt) (queues cf)"
proof (cases "hlist_get (cf_options cf) opt")
  case None
  then have "queues cf (map c_tolower opt) = []" by (simp add: queues_def hlist_get_filter flip: strcaseeq_def)
  with None show ?thesis by (simp add: config_pop_def queue_pop_def)
next
  case (Some v)
  let ?l = "cf_options cf"
  from hlist_get_del_filter [OF Some] have d: "map hvalue (filter (\<lambda>t. map c_tolower (hkey t) = map c_tolower opt) ?l) =
      v # map hvalue (filter (\<lambda>t. map c_tolower (hkey t) = map c_tolower opt) (hlist_del ?l opt))"
    by (simp add: strcaseeq_def)
  have o: "filter (\<lambda>t. map c_tolower (hkey t) = k) (hlist_del l opt) = filter (\<lambda>t. map c_tolower (hkey t) = k) l"
    if "k \<noteq> map c_tolower opt" for k l
    using that by (induction l) (auto simp: strcaseeq_def)
  show ?thesis using Some d o by (auto simp: config_pop_def queue_pop_def queues_def fun_eq_iff)
qed

lemma queues_set: "queues (config_set cf opt v) = queue_set (map c_tolower opt) v (queues cf)"
proof (cases "hlist_in (cf_options cf) opt")
  case True
  have "map hvalue (filter (\<lambda>t. map c_tolower (hkey t) = k) (hlist_set_first l opt v)) =
    (if k = map c_tolower opt then v # tl (map hvalue (filter (\<lambda>t. map c_tolower (hkey t) = k) l))
     else map hvalue (filter (\<lambda>t. map c_tolower (hkey t) = k) l))" if "hlist_in l opt" for l k
    using that by (induction l) (auto simp: strcaseeq_def)
  with True show ?thesis by (simp add: config_set_def hlist_mod_def queues_def queue_set_def fun_eq_iff)
next
  case False
  then have "filter (\<lambda>t. map c_tolower (hkey t) = map c_tolower opt) (cf_options cf) = []"
    by (simp add: hlist_in_get hlist_get_filter flip: strcaseeq_def)
  with False show ?thesis
    by (auto simp: config_set_def hlist_mod_def hlist_add_def queues_def queue_set_def fun_eq_iff)
qed

text \<open>
  The interface the start of the program uses: taking and setting an option, over the queues.  A
  loop that takes an option until there is none gets the whole queue in order and leaves the others
  alone; what was set is what is taken next.
\<close>

locale option_queue =
  fixes qs :: "'c \<Rightarrow> string \<Rightarrow> string list"
    and take_opt :: "'c \<Rightarrow> string \<Rightarrow> string option \<times> 'c"
    and put_opt :: "'c \<Rightarrow> string \<Rightarrow> string \<Rightarrow> 'c"
    and key :: "string \<Rightarrow> string"
  assumes take_opt_queue: "(case take_opt c k of (v, c') \<Rightarrow> (v, qs c')) = queue_pop (key k) (qs c)"
    and put_opt_queue: "qs (put_opt c k v) = queue_set (key k) v (qs c)"
begin

lemma take_empty: "qs c (key k) = [] \<Longrightarrow> fst (take_opt c k) = None \<and> qs (snd (take_opt c k)) = qs c"
  using take_opt_queue [of c k] by (auto simp: queue_pop_def split: prod.splits)

lemma take_front:
  "qs c (key k) = v # vs \<Longrightarrow> fst (take_opt c k) = Some v \<and> qs (snd (take_opt c k)) = (qs c)(key k := vs)"
  using take_opt_queue [of c k] by (auto simp: queue_pop_def split: prod.splits)

lemma take_put: "fst (take_opt (put_opt c k v) k) = Some v \<and>
    qs (snd (take_opt (put_opt c k v) k)) = (qs c)(key k := tl (qs c (key k)))"
  using take_front [of "put_opt c k v" k v "tl (qs c (key k))"] by (simp add: put_opt_queue queue_set_def)

lemma take_other: "key k \<noteq> key k' \<Longrightarrow> qs (snd (take_opt c k)) (key k') = qs c (key k')"
  by (cases "qs c (key k)") (use take_empty [of c k] take_front [of c k] in auto)

text \<open>Taking as often as there are values.\<close>

lemma take_all:
  "qs c (key k) = vs \<Longrightarrow> length vs = n \<Longrightarrow>
   map (\<lambda>i. fst (take_opt (((\<lambda>c. snd (take_opt c k)) ^^ i) c) k)) [0..<n] = map Some vs
   \<and> qs (((\<lambda>c. snd (take_opt c k)) ^^ n) c) = (qs c)(key k := [])"
proof (induction n arbitrary: c vs)
  case 0
  then show ?case by auto
next
  case (Suc n)
  from Suc.prems obtain w ws where w: "vs = w # ws" "length ws = n" by (cases vs) auto
  let ?c = "snd (take_opt c k)"
  from take_front [of c k w ws] Suc.prems w have t: "fst (take_opt c k) = Some w" "qs ?c = (qs c)(key k := ws)" by auto
  then have "qs ?c (key k) = ws" by simp
  from Suc.IH [OF this w(2)] have IH: "map (\<lambda>i. fst (take_opt (((\<lambda>c. snd (take_opt c k)) ^^ i) ?c) k)) [0..<n] = map Some ws"
    "qs (((\<lambda>c. snd (take_opt c k)) ^^ n) ?c) = (qs ?c)(key k := [])" by auto
  have up: "[0..<Suc n] = 0 # map Suc [0..<n]" by (simp add: upt_conv_Cons map_Suc_upt)
  show ?case
    using IH t w(1) unfolding up by (simp add: funpow_Suc_right comp_def del: funpow.simps(2))
qed

end

interpretation oq: option_queue queues config_pop config_set "map c_tolower"
  by unfold_locales (simp_all only: queues_pop queues_set)

text \<open>
  C28: the configuration implements queues.  Seen as a queue of values per name, taking an option out
  takes the front of its queue, setting one replaces the front (or starts the queue), so that what
  was set is what is taken next; taking one as often as its queue is long gives the values in
  order and leaves it empty, the other queues as they were; an empty configuration has empty
  queues, and the number of options is that of all values.
\<close>

theorem config_refines_queues:
  "(case config_pop cf opt of (v, cf') \<Rightarrow> (v, queues cf')) = queue_pop (map c_tolower opt) (queues cf)
   \<and> queues (config_set cf opt v) = queue_set (map c_tolower opt) v (queues cf)
   \<and> fst (config_pop (config_set cf opt v) opt) = Some v
   \<and> map (\<lambda>i. fst (config_pop (((\<lambda>c. snd (config_pop c opt)) ^^ i) cf) opt))
        [0..<length (queues cf (map c_tolower opt))] = map Some (queues cf (map c_tolower opt))
   \<and> queues (((\<lambda>c. snd (config_pop c opt)) ^^ length (queues cf (map c_tolower opt))) cf)
        = (queues cf)(map c_tolower opt := [])
   \<and> queues \<lparr>cf_options = []\<rparr> = (\<lambda>_. [])
   \<and> config_count cf = (\<Sum>k \<in> set (map (\<lambda>t. map c_tolower (hkey t)) (cf_options cf)). length (queues cf k))"
proof -
  have "length l = (\<Sum>k \<in> set (map f l). length (filter (\<lambda>t. f t = k) l))" for l and f :: "hlist_s \<Rightarrow> string"
  proof -
    have "count_list (map f l) k = length (filter (\<lambda>t. f t = k) l)" for k by (induction l) auto
    then show ?thesis using sum_count_set [of "map f l" "set (map f l)"] by simp
  qed
  note count = this
  have nil: "queues \<lparr>cf_options = []\<rparr> = (\<lambda>_. [])"
    by (simp add: queues_def fun_eq_iff)
  have "config_count cf = (\<Sum>k \<in> set (map (\<lambda>t. map c_tolower (hkey t)) (cf_options cf)). length (queues cf k))"
    unfolding config_count_def hlist_count_length queues_def length_map by (rule count)
  with oq.take_all [of cf opt, OF refl refl] oq.take_put [of cf opt v] show ?thesis
    unfolding queues_pop queues_set nil by blast
qed

end
