(* ===== verification/Des.thy ===== *)
theory Des
  imports CPrelude
begin

text \<open>
  The DES of xcrypt.c: the substitution tables, the key schedule, the weak-key test and the block
  cipher.  Blocks and keys are lists of eight bytes; the macros that swap bits across two words
  are functions on a pair of words.  A shift of a promoted byte into the sign bit is read as the
  shift of the unsigned word.
\<close>

section \<open>Tables\<close>

definition sbox1 :: "u32 list" where
  "sbox1 = [
    0x01010400, 0x00000000, 0x00010000, 0x01010404, 0x01010004, 0x00010404,
    0x00000004, 0x00010000, 0x00000400, 0x01010400, 0x01010404, 0x00000400,
    0x01000404, 0x01010004, 0x01000000, 0x00000004, 0x00000404, 0x01000400,
    0x01000400, 0x00010400, 0x00010400, 0x01010000, 0x01010000, 0x01000404,
    0x00010004, 0x01000004, 0x01000004, 0x00010004, 0x00000000, 0x00000404,
    0x00010404, 0x01000000, 0x00010000, 0x01010404, 0x00000004, 0x01010000,
    0x01010400, 0x01000000, 0x01000000, 0x00000400, 0x01010004, 0x00010000,
    0x00010400, 0x01000004, 0x00000400, 0x00000004, 0x01000404, 0x00010404,
    0x01010404, 0x00010004, 0x01010000, 0x01000404, 0x01000004, 0x00000404,
    0x00010404, 0x01010400, 0x00000404, 0x01000400, 0x01000400, 0x00000000,
    0x00010004, 0x00010400, 0x00000000, 0x01010004]"

definition sbox2 :: "u32 list" where
  "sbox2 = [
    0x80108020, 0x80008000, 0x00008000, 0x00108020, 0x00100000, 0x00000020,
    0x80100020, 0x80008020, 0x80000020, 0x80108020, 0x80108000, 0x80000000,
    0x80008000, 0x00100000, 0x00000020, 0x80100020, 0x00108000, 0x00100020,
    0x80008020, 0x00000000, 0x80000000, 0x00008000, 0x00108020, 0x80100000,
    0x00100020, 0x80000020, 0x00000000, 0x00108000, 0x00008020, 0x80108000,
    0x80100000, 0x00008020, 0x00000000, 0x00108020, 0x80100020, 0x00100000,
    0x80008020, 0x80100000, 0x80108000, 0x00008000, 0x80100000, 0x80008000,
    0x00000020, 0x80108020, 0x00108020, 0x00000020, 0x00008000, 0x80000000,
    0x00008020, 0x80108000, 0x00100000, 0x80000020, 0x00100020, 0x80008020,
    0x80000020, 0x00100020, 0x00108000, 0x00000000, 0x80008000, 0x00008020,
    0x80000000, 0x80100020, 0x80108020, 0x00108000]"

definition sbox3 :: "u32 list" where
  "sbox3 = [
    0x00000208, 0x08020200, 0x00000000, 0x08020008, 0x08000200, 0x00000000,
    0x00020208, 0x08000200, 0x00020008, 0x08000008, 0x08000008, 0x00020000,
    0x08020208, 0x00020008, 0x08020000, 0x00000208, 0x08000000, 0x00000008,
    0x08020200, 0x00000200, 0x00020200, 0x08020000, 0x08020008, 0x00020208,
    0x08000208, 0x00020200, 0x00020000, 0x08000208, 0x00000008, 0x08020208,
    0x00000200, 0x08000000, 0x08020200, 0x08000000, 0x00020008, 0x00000208,
    0x00020000, 0x08020200, 0x08000200, 0x00000000, 0x00000200, 0x00020008,
    0x08020208, 0x08000200, 0x08000008, 0x00000200, 0x00000000, 0x08020008,
    0x08000208, 0x00020000, 0x08000000, 0x08020208, 0x00000008, 0x00020208,
    0x00020200, 0x08000008, 0x08020000, 0x08000208, 0x00000208, 0x08020000,
    0x00020208, 0x00000008, 0x08020008, 0x00020200]"

definition sbox4 :: "u32 list" where
  "sbox4 = [
    0x00802001, 0x00002081, 0x00002081, 0x00000080, 0x00802080, 0x00800081,
    0x00800001, 0x00002001, 0x00000000, 0x00802000, 0x00802000, 0x00802081,
    0x00000081, 0x00000000, 0x00800080, 0x00800001, 0x00000001, 0x00002000,
    0x00800000, 0x00802001, 0x00000080, 0x00800000, 0x00002001, 0x00002080,
    0x00800081, 0x00000001, 0x00002080, 0x00800080, 0x00002000, 0x00802080,
    0x00802081, 0x00000081, 0x00800080, 0x00800001, 0x00802000, 0x00802081,
    0x00000081, 0x00000000, 0x00000000, 0x00802000, 0x00002080, 0x00800080,
    0x00800081, 0x00000001, 0x00802001, 0x00002081, 0x00002081, 0x00000080,
    0x00802081, 0x00000081, 0x00000001, 0x00002000, 0x00800001, 0x00002001,
    0x00802080, 0x00800081, 0x00002001, 0x00002080, 0x00800000, 0x00802001,
    0x00000080, 0x00800000, 0x00002000, 0x00802080]"

definition sbox5 :: "u32 list" where
  "sbox5 = [
    0x00000100, 0x02080100, 0x02080000, 0x42000100, 0x00080000, 0x00000100,
    0x40000000, 0x02080000, 0x40080100, 0x00080000, 0x02000100, 0x40080100,
    0x42000100, 0x42080000, 0x00080100, 0x40000000, 0x02000000, 0x40080000,
    0x40080000, 0x00000000, 0x40000100, 0x42080100, 0x42080100, 0x02000100,
    0x42080000, 0x40000100, 0x00000000, 0x42000000, 0x02080100, 0x02000000,
    0x42000000, 0x00080100, 0x00080000, 0x42000100, 0x00000100, 0x02000000,
    0x40000000, 0x02080000, 0x42000100, 0x40080100, 0x02000100, 0x40000000,
    0x42080000, 0x02080100, 0x40080100, 0x00000100, 0x02000000, 0x42080000,
    0x42080100, 0x00080100, 0x42000000, 0x42080100, 0x02080000, 0x00000000,
    0x40080000, 0x42000000, 0x00080100, 0x02000100, 0x40000100, 0x00080000,
    0x00000000, 0x40080000, 0x02080100, 0x40000100]"

definition sbox6 :: "u32 list" where
  "sbox6 = [
    0x20000010, 0x20400000, 0x00004000, 0x20404010, 0x20400000, 0x00000010,
    0x20404010, 0x00400000, 0x20004000, 0x00404010, 0x00400000, 0x20000010,
    0x00400010, 0x20004000, 0x20000000, 0x00004010, 0x00000000, 0x00400010,
    0x20004010, 0x00004000, 0x00404000, 0x20004010, 0x00000010, 0x20400010,
    0x20400010, 0x00000000, 0x00404010, 0x20404000, 0x00004010, 0x00404000,
    0x20404000, 0x20000000, 0x20004000, 0x00000010, 0x20400010, 0x00404000,
    0x20404010, 0x00400000, 0x00004010, 0x20000010, 0x00400000, 0x20004000,
    0x20000000, 0x00004010, 0x20000010, 0x20404010, 0x00404000, 0x20400000,
    0x00404010, 0x20404000, 0x00000000, 0x20400010, 0x00000010, 0x00004000,
    0x20400000, 0x00404010, 0x00004000, 0x00400010, 0x20004010, 0x00000000,
    0x20404000, 0x20000000, 0x00400010, 0x20004010]"

definition sbox7 :: "u32 list" where
  "sbox7 = [
    0x00200000, 0x04200002, 0x04000802, 0x00000000, 0x00000800, 0x04000802,
    0x00200802, 0x04200800, 0x04200802, 0x00200000, 0x00000000, 0x04000002,
    0x00000002, 0x04000000, 0x04200002, 0x00000802, 0x04000800, 0x00200802,
    0x00200002, 0x04000800, 0x04000002, 0x04200000, 0x04200800, 0x00200002,
    0x04200000, 0x00000800, 0x00000802, 0x04200802, 0x00200800, 0x00000002,
    0x04000000, 0x00200800, 0x04000000, 0x00200800, 0x00200000, 0x04000802,
    0x04000802, 0x04200002, 0x04200002, 0x00000002, 0x00200002, 0x04000000,
    0x04000800, 0x00200000, 0x04200800, 0x00000802, 0x00200802, 0x04200800,
    0x00000802, 0x04000002, 0x04200802, 0x04200000, 0x00200800, 0x00000000,
    0x00000002, 0x04200802, 0x00000000, 0x00200802, 0x04200000, 0x00000800,
    0x04000002, 0x04000800, 0x00000800, 0x00200002]"

definition sbox8 :: "u32 list" where
  "sbox8 = [
    0x10001040, 0x00001000, 0x00040000, 0x10041040, 0x10000000, 0x10001040,
    0x00000040, 0x10000000, 0x00040040, 0x10040000, 0x10041040, 0x00041000,
    0x10041000, 0x00041040, 0x00001000, 0x00000040, 0x10040000, 0x10000040,
    0x10001000, 0x00001040, 0x00041000, 0x00040040, 0x10040040, 0x10041000,
    0x00001040, 0x00000000, 0x00000000, 0x10040040, 0x10000040, 0x10001000,
    0x00041040, 0x00040000, 0x00041040, 0x00040000, 0x10041000, 0x00001000,
    0x00000040, 0x10040040, 0x00001000, 0x00041040, 0x10001000, 0x00000040,
    0x10000040, 0x10040000, 0x10040040, 0x10000000, 0x00040000, 0x10001040,
    0x00000000, 0x10041040, 0x00040040, 0x10000040, 0x10040000, 0x10001000,
    0x10001040, 0x00000000, 0x10041040, 0x00041000, 0x00041000, 0x00001040,
    0x00001040, 0x00040040, 0x10000000, 0x10041000]"

definition leftkey_swap :: "u32 list" where
  "leftkey_swap = [
    0x00000000, 0x00000001, 0x00000100, 0x00000101,
    0x00010000, 0x00010001, 0x00010100, 0x00010101,
    0x01000000, 0x01000001, 0x01000100, 0x01000101,
    0x01010000, 0x01010001, 0x01010100, 0x01010101]"

definition rightkey_swap :: "u32 list" where
  "rightkey_swap = [
    0x00000000, 0x01000000, 0x00010000, 0x01010000,
    0x00000100, 0x01000100, 0x00010100, 0x01010100,
    0x00000001, 0x01000001, 0x00010001, 0x01010001,
    0x00000101, 0x01000101, 0x00010101, 0x01010101]"

definition encrypt_rotate_tab :: "nat list" where
  "encrypt_rotate_tab = [1, 1, 2, 2, 2, 2, 2, 2, 1, 2, 2, 2, 2, 2, 2, 1]"

definition weak_keys :: "byte list list" where
  "weak_keys = [
    [0x00, 0x00, 0x00, 0x00, 0x00, 0x00, 0x00, 0x00],
    [0x00, 0x00, 0x1e, 0x1e, 0x00, 0x00, 0x0e, 0x0e],
    [0x00, 0x00, 0xe0, 0xe0, 0x00, 0x00, 0xf0, 0xf0],
    [0x00, 0x00, 0xfe, 0xfe, 0x00, 0x00, 0xfe, 0xfe],
    [0x00, 0x1e, 0x00, 0x1e, 0x00, 0x0e, 0x00, 0x0e],
    [0x00, 0x1e, 0x1e, 0x00, 0x00, 0x0e, 0x0e, 0x00],
    [0x00, 0x1e, 0xe0, 0xfe, 0x00, 0x0e, 0xf0, 0xfe],
    [0x00, 0x1e, 0xfe, 0xe0, 0x00, 0x0e, 0xfe, 0xf0],
    [0x00, 0xe0, 0x00, 0xe0, 0x00, 0xf0, 0x00, 0xf0],
    [0x00, 0xe0, 0x1e, 0xfe, 0x00, 0xf0, 0x0e, 0xfe],
    [0x00, 0xe0, 0xe0, 0x00, 0x00, 0xf0, 0xf0, 0x00],
    [0x00, 0xe0, 0xfe, 0x1e, 0x00, 0xf0, 0xfe, 0x0e],
    [0x00, 0xfe, 0x00, 0xfe, 0x00, 0xfe, 0x00, 0xfe],
    [0x00, 0xfe, 0x1e, 0xe0, 0x00, 0xfe, 0x0e, 0xf0],
    [0x00, 0xfe, 0xe0, 0x1e, 0x00, 0xfe, 0xf0, 0x0e],
    [0x00, 0xfe, 0xfe, 0x00, 0x00, 0xfe, 0xfe, 0x00],
    [0x1e, 0x00, 0x00, 0x1e, 0x0e, 0x00, 0x00, 0x0e],
    [0x1e, 0x00, 0x1e, 0x00, 0x0e, 0x00, 0x0e, 0x00],
    [0x1e, 0x00, 0xe0, 0xfe, 0x0e, 0x00, 0xf0, 0xfe],
    [0x1e, 0x00, 0xfe, 0xe0, 0x0e, 0x00, 0xfe, 0xf0],
    [0x1e, 0x1e, 0x00, 0x00, 0x0e, 0x0e, 0x00, 0x00],
    [0x1e, 0x1e, 0x1e, 0x1e, 0x0e, 0x0e, 0x0e, 0x0e],
    [0x1e, 0x1e, 0xe0, 0xe0, 0x0e, 0x0e, 0xf0, 0xf0],
    [0x1e, 0x1e, 0xfe, 0xfe, 0x0e, 0x0e, 0xfe, 0xfe],
    [0x1e, 0xe0, 0x00, 0xfe, 0x0e, 0xf0, 0x00, 0xfe],
    [0x1e, 0xe0, 0x1e, 0xe0, 0x0e, 0xf0, 0x0e, 0xf0],
    [0x1e, 0xe0, 0xe0, 0x1e, 0x0e, 0xf0, 0xf0, 0x0e],
    [0x1e, 0xe0, 0xfe, 0x00, 0x0e, 0xf0, 0xfe, 0x00],
    [0x1e, 0xfe, 0x00, 0xe0, 0x0e, 0xfe, 0x00, 0xf0],
    [0x1e, 0xfe, 0x1e, 0xfe, 0x0e, 0xfe, 0x0e, 0xfe],
    [0x1e, 0xfe, 0xe0, 0x00, 0x0e, 0xfe, 0xf0, 0x00],
    [0x1e, 0xfe, 0xfe, 0x1e, 0x0e, 0xfe, 0xfe, 0x0e],
    [0xe0, 0x00, 0x00, 0xe0, 0xf0, 0x00, 0x00, 0xf0],
    [0xe0, 0x00, 0x1e, 0xfe, 0xf0, 0x00, 0x0e, 0xfe],
    [0xe0, 0x00, 0xe0, 0x00, 0xf0, 0x00, 0xf0, 0x00],
    [0xe0, 0x00, 0xfe, 0x1e, 0xf0, 0x00, 0xfe, 0x0e],
    [0xe0, 0x1e, 0x00, 0xfe, 0xf0, 0x0e, 0x00, 0xfe],
    [0xe0, 0x1e, 0x1e, 0xe0, 0xf0, 0x0e, 0x0e, 0xf0],
    [0xe0, 0x1e, 0xe0, 0x1e, 0xf0, 0x0e, 0xf0, 0x0e],
    [0xe0, 0x1e, 0xfe, 0x00, 0xf0, 0x0e, 0xfe, 0x00],
    [0xe0, 0xe0, 0x00, 0x00, 0xf0, 0xf0, 0x00, 0x00],
    [0xe0, 0xe0, 0x1e, 0x1e, 0xf0, 0xf0, 0x0e, 0x0e],
    [0xe0, 0xe0, 0xe0, 0xe0, 0xf0, 0xf0, 0xf0, 0xf0],
    [0xe0, 0xe0, 0xfe, 0xfe, 0xf0, 0xf0, 0xfe, 0xfe],
    [0xe0, 0xfe, 0x00, 0x1e, 0xf0, 0xfe, 0x00, 0x0e],
    [0xe0, 0xfe, 0x1e, 0x00, 0xf0, 0xfe, 0x0e, 0x00],
    [0xe0, 0xfe, 0xe0, 0xfe, 0xf0, 0xfe, 0xf0, 0xfe],
    [0xe0, 0xfe, 0xfe, 0xe0, 0xf0, 0xfe, 0xfe, 0xf0],
    [0xfe, 0x00, 0x00, 0xfe, 0xfe, 0x00, 0x00, 0xfe],
    [0xfe, 0x00, 0x1e, 0xe0, 0xfe, 0x00, 0x0e, 0xf0],
    [0xfe, 0x00, 0xe0, 0x1e, 0xfe, 0x00, 0xf0, 0x0e],
    [0xfe, 0x00, 0xfe, 0x00, 0xfe, 0x00, 0xfe, 0x00],
    [0xfe, 0x1e, 0x00, 0xe0, 0xfe, 0x0e, 0x00, 0xf0],
    [0xfe, 0x1e, 0x1e, 0xfe, 0xfe, 0x0e, 0x0e, 0xfe],
    [0xfe, 0x1e, 0xe0, 0x00, 0xfe, 0x0e, 0xf0, 0x00],
    [0xfe, 0x1e, 0xfe, 0x1e, 0xfe, 0x0e, 0xfe, 0x0e],
    [0xfe, 0xe0, 0x00, 0x1e, 0xfe, 0xf0, 0x00, 0x0e],
    [0xfe, 0xe0, 0x1e, 0x00, 0xfe, 0xf0, 0x0e, 0x00],
    [0xfe, 0xe0, 0xe0, 0xfe, 0xfe, 0xf0, 0xf0, 0xfe],
    [0xfe, 0xe0, 0xfe, 0xe0, 0xfe, 0xf0, 0xfe, 0xf0],
    [0xfe, 0xfe, 0x00, 0x00, 0xfe, 0xfe, 0x00, 0x00],
    [0xfe, 0xfe, 0x1e, 0x1e, 0xfe, 0xfe, 0x0e, 0x0e],
    [0xfe, 0xfe, 0xe0, 0xe0, 0xfe, 0xfe, 0xf0, 0xf0],
    [0xfe, 0xfe, 0xfe, 0xfe, 0xfe, 0xfe, 0xfe, 0xfe]]"

section \<open>Weak keys\<close>

text \<open>\<open>memcmp\<close> on equally long regions: the sign is that of the first difference.\<close>

fun memcmp :: "byte list \<Rightarrow> byte list \<Rightarrow> int" where
  "memcmp (a # as) (b # bs) = (if a = b then memcmp as bs else int (unat a) - int (unat b))"
| "memcmp as bs = 0"

function weak_search :: "byte list \<Rightarrow> int \<Rightarrow> int \<Rightarrow> bool" where
  "weak_search work left right =
     (if left \<le> right then
        (let middle = (left + right) div 2; cmp_result = memcmp work (weak_keys ! nat middle) in
         if cmp_result = 0 then True
         else if cmp_result > 0 then weak_search work (middle + 1) right
         else weak_search work left (middle - 1))
      else False)"
  by pat_completeness auto
termination
  by (relation "measure (\<lambda>(work, left, right). nat (right + 1 - left))") auto

declare weak_search.simps [simp del]

definition gl_des_is_weak_key :: "byte list \<Rightarrow> bool" where
  "gl_des_is_weak_key key = weak_search (map (\<lambda>b. b AND 0xfe) (take 8 key)) 0 63"

section \<open>Permutations\<close>

text \<open>\<open>DO_PERMUTATION\<close> on the words \<open>a\<close> and \<open>b\<close>.\<close>

definition do_permutation :: "nat \<Rightarrow> u32 \<Rightarrow> u32 \<times> u32 \<Rightarrow> u32 \<times> u32" where
  "do_permutation offset msk ab =
     (let temp = (drop_bit offset (fst ab) XOR snd ab) AND msk
      in (fst ab XOR push_bit offset temp, snd ab XOR temp))"

definition rol1 :: "u32 \<Rightarrow> u32" where "rol1 x = push_bit 1 x OR drop_bit 31 x"
definition ror1 :: "u32 \<Rightarrow> u32" where "ror1 x = push_bit 31 x OR drop_bit 1 x"

text \<open>The exchange of the odd bits of the two words.\<close>

definition mix_odd :: "u32 \<times> u32 \<Rightarrow> u32 \<times> u32" where
  "mix_odd lr = (let temp = (fst lr XOR snd lr) AND 0xaaaaaaaa in (fst lr XOR temp, snd lr XOR temp))"

definition on_first :: "('a \<Rightarrow> 'b) \<Rightarrow> 'a \<times> 'c \<Rightarrow> 'b \<times> 'c" where "on_first f p = (f (fst p), snd p)"
definition on_second :: "('c \<Rightarrow> 'b) \<Rightarrow> 'a \<times> 'c \<Rightarrow> 'a \<times> 'b" where "on_second f p = (fst p, f (snd p))"

text \<open>The pair is (left, right); a permutation with the words exchanged is between two swaps.\<close>

definition initial_permutation :: "u32 \<times> u32 \<Rightarrow> u32 \<times> u32" where
  "initial_permutation lr =
     on_first rol1 (mix_odd (on_second rol1
       (prod.swap (do_permutation 8 0x00ff00ff (do_permutation 2 0x33333333
         (prod.swap (do_permutation 16 0x0000ffff (do_permutation 4 0x0f0f0f0f lr))))))))"

definition final_permutation :: "u32 \<times> u32 \<Rightarrow> u32 \<times> u32" where
  "final_permutation lr =
     do_permutation 4 0x0f0f0f0f (do_permutation 16 0x0000ffff
       (prod.swap (do_permutation 2 0x33333333 (do_permutation 8 0x00ff00ff
         (prod.swap (on_second ror1 (mix_odd (on_first ror1 lr))))))))"

section \<open>Rounds\<close>

definition sbox_at :: "u32 list \<Rightarrow> u32 \<Rightarrow> nat \<Rightarrow> u32" where
  "sbox_at sbox work n = sbox ! unat (drop_bit n work AND 0x3f)"

text \<open>What \<open>DES_ROUND\<close> adds to the other word, with the two subkeys of the round.\<close>

definition des_f :: "u32 \<Rightarrow> u32 \<times> u32 \<Rightarrow> u32" where
  "des_f from k =
     (let work = from XOR fst k; work2 = (push_bit 28 from OR drop_bit 4 from) XOR snd k
      in sbox_at sbox8 work 0 XOR sbox_at sbox6 work 8 XOR sbox_at sbox4 work 16 XOR sbox_at sbox2 work 24
         XOR sbox_at sbox7 work2 0 XOR sbox_at sbox5 work2 8 XOR sbox_at sbox3 work2 16 XOR sbox_at sbox1 work2 24)"

text \<open>
  Rounds in sequence; the words trade places after each, so that the first argument is always
  the \<open>from\<close> of the next round.
\<close>

fun feistel_rounds :: "('w \<Rightarrow> 'w \<Rightarrow> 'w) \<Rightarrow> ('w \<Rightarrow> 'k \<Rightarrow> 'w) \<Rightarrow> 'w \<Rightarrow> 'w \<Rightarrow> 'k list \<Rightarrow> 'w \<times> 'w" where
  "feistel_rounds xr f from to [] = (from, to)"
| "feistel_rounds xr f from to (k # ks) = feistel_rounds xr f (xr to (f from k)) from ks"

section \<open>Blocks\<close>

definition read_word :: "byte list \<Rightarrow> nat \<Rightarrow> u32" where
  "read_word d i = push_bit 24 (ucast (d ! i)) OR push_bit 16 (ucast (d ! (i + 1)))
     OR push_bit 8 (ucast (d ! (i + 2))) OR ucast (d ! (i + 3))"

definition read_64bit_data :: "byte list \<Rightarrow> u32 \<times> u32" where
  "read_64bit_data d = (read_word d 0, read_word d 4)"

definition write_word :: "u32 \<Rightarrow> byte list" where
  "write_word w = [ucast (drop_bit 24 w), ucast (drop_bit 16 w), ucast (drop_bit 8 w), ucast w]"

definition write_64bit_data :: "u32 \<times> u32 \<Rightarrow> byte list" where
  "write_64bit_data lr = write_word (fst lr) @ write_word (snd lr)"

section \<open>The key schedule\<close>

definition subkey_even :: "u32 \<Rightarrow> u32 \<Rightarrow> u32" where
  "subkey_even left right =
     (push_bit 4 left AND 0x24000000) OR (push_bit 28 left AND 0x10000000)
     OR (push_bit 14 left AND 0x08000000) OR (push_bit 18 left AND 0x02080000)
     OR (push_bit 6 left AND 0x01000000) OR (push_bit 9 left AND 0x00200000)
     OR (drop_bit 1 left AND 0x00100000) OR (push_bit 10 left AND 0x00040000)
     OR (push_bit 2 left AND 0x00020000) OR (drop_bit 10 left AND 0x00010000)
     OR (drop_bit 13 right AND 0x00002000) OR (drop_bit 4 right AND 0x00001000)
     OR (push_bit 6 right AND 0x00000800) OR (drop_bit 1 right AND 0x00000400)
     OR (drop_bit 14 right AND 0x00000200) OR (right AND 0x00000100)
     OR (drop_bit 5 right AND 0x00000020) OR (drop_bit 10 right AND 0x00000010)
     OR (drop_bit 3 right AND 0x00000008) OR (drop_bit 18 right AND 0x00000004)
     OR (drop_bit 26 right AND 0x00000002) OR (drop_bit 24 right AND 0x00000001)"

definition subkey_odd :: "u32 \<Rightarrow> u32 \<Rightarrow> u32" where
  "subkey_odd left right =
     (push_bit 15 left AND 0x20000000) OR (push_bit 17 left AND 0x10000000)
     OR (push_bit 10 left AND 0x08000000) OR (push_bit 22 left AND 0x04000000)
     OR (drop_bit 2 left AND 0x02000000) OR (push_bit 1 left AND 0x01000000)
     OR (push_bit 16 left AND 0x00200000) OR (push_bit 11 left AND 0x00100000)
     OR (push_bit 3 left AND 0x00080000) OR (drop_bit 6 left AND 0x00040000)
     OR (push_bit 15 left AND 0x00020000) OR (drop_bit 4 left AND 0x00010000)
     OR (drop_bit 2 right AND 0x00002000) OR (push_bit 8 right AND 0x00001000)
     OR (drop_bit 14 right AND 0x00000808) OR (drop_bit 9 right AND 0x00000400)
     OR (right AND 0x00000200) OR (push_bit 7 right AND 0x00000100)
     OR (drop_bit 7 right AND 0x00000020) OR (drop_bit 3 right AND 0x00000011)
     OR (push_bit 2 right AND 0x00000004) OR (drop_bit 21 right AND 0x00000002)"

definition key_left :: "u32 \<Rightarrow> u32" where
  "key_left left =
     (push_bit 3 (leftkey_swap ! unat (drop_bit 0 left AND 0xf))
      OR push_bit 2 (leftkey_swap ! unat (drop_bit 8 left AND 0xf))
      OR push_bit 1 (leftkey_swap ! unat (drop_bit 16 left AND 0xf))
      OR leftkey_swap ! unat (drop_bit 24 left AND 0xf)
      OR push_bit 7 (leftkey_swap ! unat (drop_bit 5 left AND 0xf))
      OR push_bit 6 (leftkey_swap ! unat (drop_bit 13 left AND 0xf))
      OR push_bit 5 (leftkey_swap ! unat (drop_bit 21 left AND 0xf))
      OR push_bit 4 (leftkey_swap ! unat (drop_bit 29 left AND 0xf))) AND 0x0fffffff"

definition key_right :: "u32 \<Rightarrow> u32" where
  "key_right right =
     (push_bit 3 (rightkey_swap ! unat (drop_bit 1 right AND 0xf))
      OR push_bit 2 (rightkey_swap ! unat (drop_bit 9 right AND 0xf))
      OR push_bit 1 (rightkey_swap ! unat (drop_bit 17 right AND 0xf))
      OR rightkey_swap ! unat (drop_bit 25 right AND 0xf)
      OR push_bit 7 (rightkey_swap ! unat (drop_bit 4 right AND 0xf))
      OR push_bit 6 (rightkey_swap ! unat (drop_bit 12 right AND 0xf))
      OR push_bit 5 (rightkey_swap ! unat (drop_bit 20 right AND 0xf))
      OR push_bit 4 (rightkey_swap ! unat (drop_bit 28 right AND 0xf))) AND 0x0fffffff"

definition rotate28 :: "nat \<Rightarrow> u32 \<Rightarrow> u32" where
  "rotate28 n x = (push_bit n x OR drop_bit (28 - n) x) AND 0x0fffffff"

text \<open>The two key halves in each round, after the rotation.\<close>

fun key_rounds :: "u32 \<Rightarrow> u32 \<Rightarrow> nat list \<Rightarrow> (u32 \<times> u32) list" where
  "key_rounds left right [] = []"
| "key_rounds left right (n # ns) =
     (rotate28 n left, rotate28 n right) # key_rounds (rotate28 n left) (rotate28 n right) ns"

definition round_keys :: "u32 \<times> u32 \<Rightarrow> u32 list" where
  "round_keys lr = [subkey_even (fst lr) (snd lr), subkey_odd (fst lr) (snd lr)]"

text \<open>The permuted choice 1: the words exchanged, then the two permutations.\<close>

definition key_halves :: "u32 \<times> u32 \<Rightarrow> u32 \<times> u32" where
  "key_halves rl = (key_left (snd rl), key_right (fst rl))"

definition schedule :: "u32 \<times> u32 \<Rightarrow> u32 list" where
  "schedule lr = concat (map round_keys (key_rounds (fst lr) (snd lr) encrypt_rotate_tab))"

definition des_key_schedule :: "byte list \<Rightarrow> u32 list" where
  "des_key_schedule rawkey =
     schedule (key_halves (do_permutation 0 0x10101010 (do_permutation 4 0x0f0f0f0f
       (prod.swap (read_64bit_data rawkey)))))"

section \<open>The cipher\<close>

record gl_des_ctx =
  encrypt_subkeys :: "u32 list"
  decrypt_subkeys :: "u32 list"

text \<open>\<open>decrypt_subkeys[i] = encrypt_subkeys[30 - i]\<close> and its odd neighbour, for even \<open>i\<close>.\<close>

definition reverse_subkeys :: "u32 list \<Rightarrow> u32 list" where
  "reverse_subkeys e = concat (map (\<lambda>j. [e ! (30 - 2 * j), e ! (31 - 2 * j)]) [0..<16])"

definition gl_des_setkey :: "byte list \<Rightarrow> gl_des_ctx" where
  "gl_des_setkey key =
     \<lparr>encrypt_subkeys = des_key_schedule key, decrypt_subkeys = reverse_subkeys (des_key_schedule key)\<rparr>"

definition gl_des_makekey :: "gl_des_ctx \<Rightarrow> byte list \<Rightarrow> nat \<Rightarrow> gl_des_ctx \<times> bool" where
  "gl_des_makekey ctx key keylen =
     (if keylen \<noteq> 8 then (ctx, False)
      else (gl_des_setkey key, \<not> gl_des_is_weak_key key))"

text \<open>The subkeys of the rounds, two by two.\<close>

fun pairs :: "'a list \<Rightarrow> ('a \<times> 'a) list" where
  "pairs (a # b # r) = (a, b) # pairs r"
| "pairs r = []"

text \<open>From (left, right) to (right, left).\<close>

definition des_rounds :: "u32 list \<Rightarrow> u32 \<times> u32 \<Rightarrow> u32 \<times> u32" where
  "des_rounds keys lr = feistel_rounds (XOR) des_f (snd lr) (fst lr) (pairs keys)"

definition des_block :: "u32 list \<Rightarrow> byte list \<Rightarrow> byte list" where
  "des_block keys from =
     write_64bit_data (final_permutation (des_rounds keys (initial_permutation (read_64bit_data from))))"

definition gl_des_ecb_crypt :: "gl_des_ctx \<Rightarrow> byte list \<Rightarrow> int \<Rightarrow> byte list" where
  "gl_des_ecb_crypt ctx from mode =
     des_block (if mode \<noteq> 0 then decrypt_subkeys ctx else encrypt_subkeys ctx) from"

section \<open>Feistel networks\<close>

text \<open>
  The shape of the cipher, whatever the round function: the rounds with the keys in reverse
  order and the words exchanged undo the rounds.
\<close>

locale feistel =
  fixes xr :: "'w \<Rightarrow> 'w \<Rightarrow> 'w" and f :: "'w \<Rightarrow> 'k \<Rightarrow> 'w"
  assumes xr_cancel: "xr (xr a b) b = a"
begin

lemma rounds_append:
  "feistel_rounds xr f a b (ks @ ls) =
     (case feistel_rounds xr f a b ks of (c, d) \<Rightarrow> feistel_rounds xr f c d ls)"
  by (induction ks arbitrary: a b) auto

lemma rounds_reverse:
  "feistel_rounds xr f a b ks = (c, d) \<Longrightarrow> feistel_rounds xr f d c (rev ks) = (b, a)"
proof (induction ks arbitrary: a b)
  case (Cons k ks)
  then have "feistel_rounds xr f d c (rev ks) = (a, xr b (f a k))" by simp
  then show ?case by (simp add: rounds_append xr_cancel)
qed simp

end

interpretation des: feistel "(XOR)" des_f
  by unfold_locales (simp add: xor.assoc)

section \<open>The permutations are invertible\<close>

lemma do_permutation_invol:
  assumes "drop_bit n (push_bit n m) = m"
  shows "do_permutation n m (do_permutation n m ab) = ab"
proof -
  have drop: "drop_bit n (x XOR push_bit n (t AND m)) = drop_bit n x XOR (t AND m)" for x t :: u32
  proof (rule bit_word_eqI)
    fix k assume "k < LENGTH(32)"
    have "bit m k \<Longrightarrow> n + k < 32"
    proof -
      assume "bit m k"
      then have "bit (drop_bit n (push_bit n m)) k" by (simp add: assms)
      then show "n + k < 32" using bit_imp_le_length [of "push_bit n m" "n + k"]
        by (simp add: bit_drop_bit_eq)
    qed
    then show "bit (drop_bit n (x XOR push_bit n (t AND m))) k = bit (drop_bit n x XOR (t AND m)) k"
      by (auto simp: bit_simps)
  qed
  obtain a b where ab: "ab = (a, b)" by fastforce
  define t where "t = (drop_bit n a XOR b) AND m"
  have "(drop_bit n (a XOR push_bit n t) XOR (b XOR t)) AND m = t"
  proof -
    have "t = t AND m" by (simp add: t_def and.assoc)
    then have "drop_bit n (a XOR push_bit n t) = drop_bit n a XOR t" using drop [of a t] by simp
    then have "drop_bit n (a XOR push_bit n t) XOR (b XOR t) = drop_bit n a XOR b"
      by (simp add: ac_simps)
    then show ?thesis by (simp add: t_def)
  qed
  then have "do_permutation n m (a XOR push_bit n t, b XOR t) = (a, b)"
    by (simp add: do_permutation_def Let_def xor.assoc)
  then show ?thesis by (simp add: ab do_permutation_def [of _ _ "(a, b)"] Let_def flip: t_def)
qed

lemma perm_invol [simp]:
  "do_permutation 4 0x0f0f0f0f (do_permutation 4 0x0f0f0f0f p) = p"
  "do_permutation 16 0x0000ffff (do_permutation 16 0x0000ffff p) = p"
  "do_permutation 2 0x33333333 (do_permutation 2 0x33333333 p) = p"
  "do_permutation 8 0x00ff00ff (do_permutation 8 0x00ff00ff p) = p"
  by (rule do_permutation_invol, simp)+

lemma rol_ror [simp]: "rol1 (ror1 x) = x" "ror1 (rol1 x) = x"
proof -
  have rol: "bit (rol1 x) n \<longleftrightarrow> n < 32 \<and> bit x (if n = 0 then 31 else n - 1)" for x n
    using bit_imp_le_length [of x "31 + n"]
    unfolding rol1_def bit_or_iff bit_push_bit_iff bit_drop_bit_eq comp_def by auto
  have ror: "bit (ror1 x) n \<longleftrightarrow> n < 32 \<and> bit x (if n = 31 then 0 else n + 1)" for x n
    using bit_imp_le_length [of x "1 + n"]
    unfolding ror1_def bit_or_iff bit_push_bit_iff bit_drop_bit_eq comp_def by auto
  show "rol1 (ror1 x) = x" by (rule bit_word_eqI) (auto simp: rol ror)
  show "ror1 (rol1 x) = x" by (rule bit_word_eqI) (auto simp: rol ror)
qed

lemma on_comp [simp]:
  "on_first f (on_first g p) = on_first (\<lambda>x. f (g x)) p" "on_second f (on_second g p) = on_second (\<lambda>x. f (g x)) p"
  "on_first (\<lambda>x. x) p = p" "on_second (\<lambda>x. x) p = p"
  by (simp_all add: on_first_def on_second_def)

lemma mix_odd_invol [simp]: "mix_odd (mix_odd p) = p"
proof -
  have "((a XOR t) XOR (b XOR t)) = a XOR b" for a b t :: u32
    by (simp add: ac_simps)
  then show ?thesis by (cases p) (simp add: mix_odd_def Let_def xor.assoc)
qed

lemma final_initial [simp]: "final_permutation (initial_permutation p) = p"
  by (simp add: final_permutation_def initial_permutation_def)

lemma initial_final [simp]: "initial_permutation (final_permutation p) = p"
  by (simp add: final_permutation_def initial_permutation_def)

section \<open>Bytes and words\<close>

lemma write_read_word: "read_word (write_word w @ r) 0 = w"
proof -
  have "read_word (write_word w @ r) 0 = push_bit 24 (ucast (ucast (drop_bit 24 w) :: byte))
      OR push_bit 16 (ucast (ucast (drop_bit 16 w) :: byte))
      OR push_bit 8 (ucast (ucast (drop_bit 8 w) :: byte)) OR ucast (ucast w :: byte)"
    by (simp add: read_word_def write_word_def numeral_2_eq_2 numeral_3_eq_3)
  also have "\<dots> = w"
  proof (rule bit_word_eqI)
    fix n assume "n < LENGTH(32)"
    then consider "n < 8" | "8 \<le> n" "n < 16" | "16 \<le> n" "n < 24" | "24 \<le> n" "n < 32" by force
    then show "bit (push_bit 24 (ucast (ucast (drop_bit 24 w) :: byte))
      OR push_bit 16 (ucast (ucast (drop_bit 16 w) :: byte))
      OR push_bit 8 (ucast (ucast (drop_bit 8 w) :: byte)) OR (ucast (ucast w :: byte) :: u32)) n = bit w n"
      by cases (auto simp: bit_simps)
  qed
  finally show ?thesis .
qed

lemma read_word_append: "length a = i \<Longrightarrow> read_word (a @ b) i = read_word b 0"
  by (auto simp: read_word_def nth_append numeral_2_eq_2 numeral_3_eq_3)

lemma read_write_word:
  assumes "length d = 4" shows "write_word (read_word d 0) = d"
proof -
  obtain a b c e where d: "d = [a, b, c, e]"
    using assms by (auto simp: numeral_eq_Suc length_Suc_conv)
  have "ucast (drop_bit 24 (read_word d 0)) = a" "ucast (drop_bit 16 (read_word d 0)) = b"
    "ucast (drop_bit 8 (read_word d 0)) = c" "ucast (read_word d 0) = e"
    unfolding read_word_def d by (rule bit_word_eqI; auto simp: bit_simps numeral_2_eq_2 numeral_3_eq_3)+
  then show ?thesis by (simp add: write_word_def d)
qed

lemma length_write_word [simp]: "length (write_word w) = 4"
  by (simp add: write_word_def)

lemma read_write_block [simp]: "read_64bit_data (write_64bit_data lr) = lr"
  using write_read_word [of "fst lr"] write_read_word [of "snd lr" "[]"] read_word_append [of "write_word (fst lr)" 4 "write_word (snd lr)"]
  by (simp add: read_64bit_data_def write_64bit_data_def)

lemma write_read_block:
  assumes "length d = 8" shows "write_64bit_data (read_64bit_data d) = d"
proof -
  have "length (take 4 d) = 4" "length (drop 4 d) = 4" using assms by auto
  moreover have "read_word d 0 = read_word (take 4 d) 0" using assms
    by (simp add: read_word_def)
  moreover have "read_word d 4 = read_word (drop 4 d) 0"
    using assms by (simp add: read_word_def)
  ultimately show ?thesis
    by (simp add: write_64bit_data_def read_64bit_data_def read_write_word)
qed

lemma length_write_block [simp]: "length (write_64bit_data lr) = 8"
  by (simp add: write_64bit_data_def)

section \<open>Keys\<close>

lemma length_key_rounds [simp]: "length (key_rounds l r ns) = length ns"
  by (induction ns arbitrary: l r) auto

lemma pairs_round_keys: "pairs (concat (map round_keys xs)) = map (\<lambda>lr. (subkey_even (fst lr) (snd lr), subkey_odd (fst lr) (snd lr))) xs"
  by (induction xs) (auto simp: round_keys_def)

lemma length_schedule: "length (pairs (des_key_schedule k)) = 16" "length (des_key_schedule k) = 32"
proof -
  have l: "length (concat (map round_keys xs)) = 2 * length xs" for xs
    by (induction xs) (auto simp: round_keys_def)
  have tab: "length encrypt_rotate_tab = 16" by (simp add: encrypt_rotate_tab_def)
  show "length (pairs (des_key_schedule k)) = 16" "length (des_key_schedule k) = 32"
    by (simp_all add: des_key_schedule_def schedule_def pairs_round_keys l tab)
qed

lemma pairs_reverse:
  assumes "length e = 32"
  shows "pairs (reverse_subkeys e) = rev (pairs e)"
proof -
  have p: "pairs e = map (\<lambda>i. (e ! (2 * i), e ! (2 * i + 1))) [0..<length e div 2]" for e :: "u32 list"
  proof (induction e rule: pairs.induct)
    case (1 a b r)
    have "[0..<length (a # b # r) div 2] = 0 # map Suc [0..<length r div 2]"
      by (simp add: map_Suc_upt upt_conv_Cons)
    then show ?case using 1 by simp
  qed auto
  have q: "pairs (concat (map (\<lambda>j. [g j, h j]) xs)) = map (\<lambda>j. (g j, h j)) xs" for g h :: "nat \<Rightarrow> u32" and xs
    by (induction xs) auto
  have "rev (map (\<lambda>i. (e ! (2 * i), e ! (2 * i + 1))) [0..<16]) = map (\<lambda>j. (e ! (30 - 2 * j), e ! (31 - 2 * j))) [0..<16]"
    by (simp add: upt_rec)
  then show ?thesis unfolding p [of e] reverse_subkeys_def q using assms by simp
qed

lemma des_rounds_undo:
  assumes "pairs ks' = rev (pairs ks)"
  shows "des_rounds ks' (des_rounds ks lr) = lr"
proof -
  obtain c d where cd: "feistel_rounds (XOR) des_f (snd lr) (fst lr) (pairs ks) = (c, d)" by fastforce
  from des.rounds_reverse [OF this] show ?thesis
    by (simp add: des_rounds_def cd assms)
qed

lemma des_block_undo:
  assumes "pairs ks' = rev (pairs ks)" "length d = 8"
  shows "des_block ks' (des_block ks d) = d"
  using assms by (simp add: des_block_def des_rounds_undo write_read_block)

section \<open>The weak-key search\<close>

lemma memcmp_0: "length a = length b \<Longrightarrow> memcmp a b = 0 \<longleftrightarrow> a = b"
  by (induction a b rule: memcmp.induct) (auto dest: word_uint_eqI)

lemma memcmp_sym: "memcmp b a = - memcmp a b"
  by (induction a b rule: memcmp.induct) auto

lemma memcmp_trans: "length a = length b \<Longrightarrow> length b = length c \<Longrightarrow> memcmp a b < 0 \<Longrightarrow> memcmp b c < 0 \<Longrightarrow> memcmp a c < 0"
proof (induction a b arbitrary: c rule: memcmp.induct)
  case (1 a as b bs)
  then show ?case by (cases c) (auto split: if_splits)
qed auto

lemma sorted_chain:
  "(\<And>i. Suc i < length t \<Longrightarrow> memcmp (t ! i) (t ! Suc i) < 0) \<Longrightarrow> \<forall>x \<in> set t. length x = 8 \<Longrightarrow>
   j < length t \<Longrightarrow> i < j \<Longrightarrow> memcmp (t ! i) (t ! j) < 0"
proof (induction j)
  case (Suc j)
  then show ?case
    using memcmp_trans [of "t ! i" "t ! j" "t ! Suc j"] by (cases "i = j") (auto simp: less_Suc_eq)
qed simp

lemma weak_keys_table:
  "length weak_keys = 64" "\<forall>x \<in> set weak_keys. length x = 8"
  "Suc i < 64 \<Longrightarrow> memcmp (weak_keys ! i) (weak_keys ! Suc i) < 0"
proof -
  show "length weak_keys = 64" by (simp add: weak_keys_def)
  show "\<forall>x \<in> set weak_keys. length x = 8" by (simp add: weak_keys_def)
  have "list_all2 (\<lambda>a b. memcmp a b < 0) (butlast weak_keys) (tl weak_keys)" by code_simp
  moreover have "length (butlast weak_keys) = 63" by (simp add: weak_keys_def)
  moreover assume "Suc i < 64"
  ultimately have "memcmp (butlast weak_keys ! i) (tl weak_keys ! i) < 0"
    by (simp add: list_all2_conv_all_nth)
  then show "memcmp (weak_keys ! i) (weak_keys ! Suc i) < 0"
    using \<open>Suc i < 64\<close> \<open>length (butlast weak_keys) = 63\<close> \<open>length weak_keys = 64\<close>
    by (simp add: nth_butlast nth_tl)
qed

lemma weak_keys_less: "i < j \<Longrightarrow> j < 64 \<Longrightarrow> memcmp (weak_keys ! i) (weak_keys ! j) < 0"
  using sorted_chain [of weak_keys j i] weak_keys_table by simp

lemma weak_keys_len8: "j < 64 \<Longrightarrow> length (weak_keys ! j) = 8"
  using weak_keys_table by (metis nth_mem)

lemma weak_keys_above:
  "length work = 8 \<Longrightarrow> m < 64 \<Longrightarrow> j \<le> m \<Longrightarrow> memcmp work (weak_keys ! m) > 0 \<Longrightarrow> work \<noteq> weak_keys ! j"
  using weak_keys_less [of j m] memcmp_sym [of work "weak_keys ! m"] memcmp_0 [of work "weak_keys ! m"]
  by (cases "j = m") (auto simp: weak_keys_len8)

lemma weak_keys_below:
  "length work = 8 \<Longrightarrow> j < 64 \<Longrightarrow> m \<le> j \<Longrightarrow> memcmp work (weak_keys ! m) < 0 \<Longrightarrow> work \<noteq> weak_keys ! j"
  using weak_keys_less [of m j] memcmp_sym [of work "weak_keys ! m"] memcmp_0 [of work "weak_keys ! m"]
  by (cases "j = m") (auto simp: weak_keys_len8)

lemma weak_search_iff:
  "length work = 8 \<Longrightarrow> 0 \<le> left \<Longrightarrow> right \<le> 63 \<Longrightarrow>
    (\<And>j. j < 64 \<Longrightarrow> int j < left \<Longrightarrow> work \<noteq> weak_keys ! j) \<Longrightarrow>
    (\<And>j. j < 64 \<Longrightarrow> right < int j \<Longrightarrow> work \<noteq> weak_keys ! j) \<Longrightarrow>
    weak_search work left right \<longleftrightarrow> work \<in> set weak_keys"
proof (induction work left right rule: weak_search.induct)
  case (1 work left right)
  note len = 1(3) and lo = 1(4) and hi = 1(5) and below = 1(6) and above = 1(7)
  define m where "m = (left + right) div 2"
  define c where "c = memcmp work (weak_keys ! nat m)"
  show ?case
  proof (cases "left \<le> right")
    case False
    then have "\<forall>j < 64. work \<noteq> weak_keys ! j" using below above by force
    then have "work \<notin> set weak_keys" using weak_keys_table(1) by (metis in_set_conv_nth)
    with False show ?thesis by (subst weak_search.simps) simp
  next
    case True
    have m: "left \<le> m" "m \<le> right" "0 \<le> m" "nat m < 64" using True lo hi by (auto simp: m_def)
    have step: "weak_search work left right = (if c = 0 then True
        else if c > 0 then weak_search work (m + 1) right else weak_search work left (m - 1))"
      using True by (subst weak_search.simps) (simp add: Let_def c_def m_def)
    consider "c = 0" | "c > 0" | "c < 0" by linarith
    then show ?thesis
    proof cases
      case eq: 1
      then have "work = weak_keys ! nat m"
        using memcmp_0 [of work "weak_keys ! nat m"] len m weak_keys_len8 by (simp add: c_def)
      then have "work \<in> set weak_keys" using m weak_keys_table(1) by simp
      with step eq show ?thesis by simp
    next
      case gt: 2
      have "work \<noteq> weak_keys ! j" if "int j < m + 1" for j
        using weak_keys_above [OF len m(4), of j] gt that unfolding c_def by linarith
      then have "weak_search work (m + 1) right \<longleftrightarrow> work \<in> set weak_keys"
        using 1(1) [OF True m_def c_def] gt len m lo hi above by auto
      with step gt show ?thesis by simp
    next
      case lt: 3
      have "work \<noteq> weak_keys ! j" if "j < 64" "m - 1 < int j" for j
        using weak_keys_below [OF len, of j "nat m"] lt that m unfolding c_def by linarith
      then have "weak_search work left (m - 1) \<longleftrightarrow> work \<in> set weak_keys"
        using 1(2) [OF True m_def c_def] lt len m lo hi below by auto
      with step lt show ?thesis by simp
    qed
  qed
qed

section \<open>Properties\<close>

text \<open>
  C27: DES decrypts what it encrypts.  With the context gl_des_setkey makes of any key, decryption
  in ECB mode undoes encryption, and encryption undoes decryption, on every block of eight bytes.
\<close>

theorem des_decrypt_encrypt:
  assumes "length d = 8"
  shows "gl_des_ecb_crypt (gl_des_setkey key) (gl_des_ecb_crypt (gl_des_setkey key) d 0) 1 = d
    \<and> gl_des_ecb_crypt (gl_des_setkey key) (gl_des_ecb_crypt (gl_des_setkey key) d 1) 0 = d"
proof -
  have p: "pairs (reverse_subkeys (des_key_schedule key)) = rev (pairs (des_key_schedule key))"
    by (rule pairs_reverse) (rule length_schedule)
  then have "pairs (des_key_schedule key) = rev (pairs (reverse_subkeys (des_key_schedule key)))" by simp
  with p show ?thesis using assms
    by (simp add: gl_des_ecb_crypt_def gl_des_setkey_def des_block_undo)
qed

theorem des_decrypt_encrypt_witness:
  "gl_des_ecb_crypt (gl_des_setkey [1, 2, 3, 4, 5, 6, 7, 8])
    (gl_des_ecb_crypt (gl_des_setkey [1, 2, 3, 4, 5, 6, 7, 8]) [0x4b, 0x47, 0x53, 0x21, 0x40, 0x23, 0x24, 0x25] 0) 1
   = [0x4b, 0x47, 0x53, 0x21, 0x40, 0x23, 0x24, 0x25]"
  using des_decrypt_encrypt [of "[0x4b, 0x47, 0x53, 0x21, 0x40, 0x23, 0x24, 0x25]" "[1, 2, 3, 4, 5, 6, 7, 8]"]
  by simp

text \<open>
  The weak-key test.  The binary search finds exactly the keys that equal an entry of the table
  up to the parity bit of each byte; gl_des_makekey refuses every key that is not eight bytes long
  without touching the context and otherwise reports a weak key after setting it.
\<close>

theorem weak_key_exact:
  assumes "length key = 8"
  shows "(gl_des_is_weak_key key \<longleftrightarrow> map (\<lambda>b. b AND 0xfe) key \<in> set weak_keys)
    \<and> gl_des_makekey ctx key keylen =
       (if keylen = 8 then (gl_des_setkey key, map (\<lambda>b. b AND 0xfe) key \<notin> set weak_keys) else (ctx, False))"
proof -
  have "gl_des_is_weak_key key \<longleftrightarrow> map (\<lambda>b. b AND 0xfe) key \<in> set weak_keys"
    unfolding gl_des_is_weak_key_def using assms by (subst weak_search_iff) auto
  then show ?thesis by (simp add: gl_des_makekey_def)
qed

theorem weak_key_exact_witness:
  "gl_des_is_weak_key [1, 1, 1, 1, 1, 1, 1, 1]"
  using weak_key_exact [of "[1, 1, 1, 1, 1, 1, 1, 1]" "\<lparr>encrypt_subkeys = [], decrypt_subkeys = []\<rparr>" 8] by (simp add: weak_keys_def)

end
