(* ===== verification/MdHash.thy ===== *)
theory MdHash
  imports Swap
begin

text \<open>
  MD4, MD5 and HMAC-MD5 of xcrypt.c.  The two digests share the shape of their contexts and the
  buffering of input (the two \<open>process_bytes\<close> functions have the same text), so these are modelled
  once with the compression function as an argument; the compressions and the two ways of
  finishing are modelled apart.  The context's buffer is its 128 bytes; words are read from it and
  written to it least significant byte first, on every machine, by the SWAP macro (theory Swap).
\<close>

type_synonym md_state = "u32 \<times> u32 \<times> u32 \<times> u32"

record md_ctx =
  md_state :: md_state
  md_total0 :: u32
  md_total1 :: u32
  md_buflen :: nat
  md_buffer :: "byte list"

definition md_rol :: "u32 \<Rightarrow> nat \<Rightarrow> u32" where
  "md_rol x n = push_bit n x OR drop_bit (32 - n) x"

text \<open>The word \<open>k\<close> of a block.\<close>

definition block_word :: "byte list \<Rightarrow> nat \<Rightarrow> u32" where
  "block_word blk k = get_le32 blk (4 * k)"

section \<open>The MD4 compression\<close>

text \<open>
  The operations of a round are a table of word indices and shift counts.  Each operation
  changes the first register, and the next one takes the registers rotated by one place; after
  four operations they are back in place.
\<close>

definition md4_round1 :: "(nat \<times> nat) list" where
  "md4_round1 = [
     (0, 3), (1, 7), (2, 11), (3, 19), (4, 3), (5, 7), (6, 11), (7, 19),
     (8, 3), (9, 7), (10, 11), (11, 19), (12, 3), (13, 7), (14, 11), (15, 19)]"

definition md4_round2 :: "(nat \<times> nat) list" where
  "md4_round2 = [
     (0, 3), (4, 5), (8, 9), (12, 13), (1, 3), (5, 5), (9, 9), (13, 13),
     (2, 3), (6, 5), (10, 9), (14, 13), (3, 3), (7, 5), (11, 9), (15, 13)]"

definition md4_round3 :: "(nat \<times> nat) list" where
  "md4_round3 = [
     (0, 3), (8, 9), (4, 11), (12, 15), (2, 3), (10, 9), (6, 11), (14, 15),
     (1, 3), (9, 9), (5, 11), (13, 15), (3, 3), (11, 9), (7, 11), (15, 15)]"

definition md4_F :: "u32 \<Rightarrow> u32 \<Rightarrow> u32 \<Rightarrow> u32" where "md4_F x y z = z XOR (x AND (y XOR z))"
definition md4_G :: "u32 \<Rightarrow> u32 \<Rightarrow> u32 \<Rightarrow> u32" where "md4_G x y z = (x AND y) OR (x AND z) OR (y AND z)"
definition md4_H :: "u32 \<Rightarrow> u32 \<Rightarrow> u32 \<Rightarrow> u32" where "md4_H x y z = x XOR y XOR z"

fun md4_op :: "(u32 \<Rightarrow> u32 \<Rightarrow> u32 \<Rightarrow> u32) \<Rightarrow> u32 \<Rightarrow> byte list \<Rightarrow> nat \<times> nat \<Rightarrow> md_state \<Rightarrow> md_state" where
  "md4_op f K blk (k, s) (a, b, c, d) = (d, md_rol (a + f b c d + block_word blk k + K) s, b, c)"

fun md_add :: "md_state \<Rightarrow> md_state \<Rightarrow> md_state" where
  "md_add (a, b, c, d) (a', b', c', d') = (a + a', b + b', c + c', d + d')"

definition md4_compress :: "md_state \<Rightarrow> byte list \<Rightarrow> md_state" where
  "md4_compress st blk = md_add st
     (fold (md4_op md4_H 0x6ed9eba1 blk) md4_round3
       (fold (md4_op md4_G 0x5a827999 blk) md4_round2
         (fold (md4_op md4_F 0 blk) md4_round1 st)))"

section \<open>The MD5 compression\<close>

definition md5_round1 :: "(nat \<times> nat \<times> u32) list" where
  "md5_round1 = [
     (0, 7, 0xd76aa478), (1, 12, 0xe8c7b756), (2, 17, 0x242070db), (3, 22, 0xc1bdceee),
     (4, 7, 0xf57c0faf), (5, 12, 0x4787c62a), (6, 17, 0xa8304613), (7, 22, 0xfd469501),
     (8, 7, 0x698098d8), (9, 12, 0x8b44f7af), (10, 17, 0xffff5bb1), (11, 22, 0x895cd7be),
     (12, 7, 0x6b901122), (13, 12, 0xfd987193), (14, 17, 0xa679438e), (15, 22, 0x49b40821)]"

definition md5_round2 :: "(nat \<times> nat \<times> u32) list" where
  "md5_round2 = [
     (1, 5, 0xf61e2562), (6, 9, 0xc040b340), (11, 14, 0x265e5a51), (0, 20, 0xe9b6c7aa),
     (5, 5, 0xd62f105d), (10, 9, 0x02441453), (15, 14, 0xd8a1e681), (4, 20, 0xe7d3fbc8),
     (9, 5, 0x21e1cde6), (14, 9, 0xc33707d6), (3, 14, 0xf4d50d87), (8, 20, 0x455a14ed),
     (13, 5, 0xa9e3e905), (2, 9, 0xfcefa3f8), (7, 14, 0x676f02d9), (12, 20, 0x8d2a4c8a)]"

definition md5_round3 :: "(nat \<times> nat \<times> u32) list" where
  "md5_round3 = [
     (5, 4, 0xfffa3942), (8, 11, 0x8771f681), (11, 16, 0x6d9d6122), (14, 23, 0xfde5380c),
     (1, 4, 0xa4beea44), (4, 11, 0x4bdecfa9), (7, 16, 0xf6bb4b60), (10, 23, 0xbebfbc70),
     (13, 4, 0x289b7ec6), (0, 11, 0xeaa127fa), (3, 16, 0xd4ef3085), (6, 23, 0x04881d05),
     (9, 4, 0xd9d4d039), (12, 11, 0xe6db99e5), (15, 16, 0x1fa27cf8), (2, 23, 0xc4ac5665)]"

definition md5_round4 :: "(nat \<times> nat \<times> u32) list" where
  "md5_round4 = [
     (0, 6, 0xf4292244), (7, 10, 0x432aff97), (14, 15, 0xab9423a7), (5, 21, 0xfc93a039),
     (12, 6, 0x655b59c3), (3, 10, 0x8f0ccc92), (10, 15, 0xffeff47d), (1, 21, 0x85845dd1),
     (8, 6, 0x6fa87e4f), (15, 10, 0xfe2ce6e0), (6, 15, 0xa3014314), (13, 21, 0x4e0811a1),
     (4, 6, 0xf7537e82), (11, 10, 0xbd3af235), (2, 15, 0x2ad7d2bb), (9, 21, 0xeb86d391)]"

definition md5_FF :: "u32 \<Rightarrow> u32 \<Rightarrow> u32 \<Rightarrow> u32" where "md5_FF b c d = d XOR (b AND (c XOR d))"
definition md5_FG :: "u32 \<Rightarrow> u32 \<Rightarrow> u32 \<Rightarrow> u32" where "md5_FG b c d = md5_FF d b c"
definition md5_FH :: "u32 \<Rightarrow> u32 \<Rightarrow> u32 \<Rightarrow> u32" where "md5_FH b c d = b XOR c XOR d"
definition md5_FI :: "u32 \<Rightarrow> u32 \<Rightarrow> u32 \<Rightarrow> u32" where "md5_FI b c d = c XOR (b OR NOT d)"

fun md5_op :: "(u32 \<Rightarrow> u32 \<Rightarrow> u32 \<Rightarrow> u32) \<Rightarrow> byte list \<Rightarrow> nat \<times> nat \<times> u32 \<Rightarrow> md_state \<Rightarrow> md_state" where
  "md5_op f blk (k, s, T) (a, b, c, d) = (d, md_rol (a + (f b c d + block_word blk k + T)) s + b, b, c)"

definition md5_compress :: "md_state \<Rightarrow> byte list \<Rightarrow> md_state" where
  "md5_compress st blk = md_add
     (fold (md5_op md5_FI blk) md5_round4
       (fold (md5_op md5_FH blk) md5_round3
         (fold (md5_op md5_FG blk) md5_round2
           (fold (md5_op md5_FF blk) md5_round1 st)))) st"

section \<open>Contexts\<close>

definition md_iv :: md_state where
  "md_iv = (0x67452301, 0xefcdab89, 0x98badcfe, 0x10325476)"

text \<open>The initialisation leaves the buffer as it is.\<close>

definition md4_init_ctx :: "md_ctx \<Rightarrow> md_ctx" where
  "md4_init_ctx ctx = ctx\<lparr>md_state := md_iv, md_total0 := 0, md_total1 := 0, md_buflen := 0\<rparr>"

definition md5_init_ctx :: "md_ctx \<Rightarrow> md_ctx" where
  "md5_init_ctx ctx = ctx\<lparr>md_state := md_iv, md_total0 := 0, md_total1 := 0, md_buflen := 0\<rparr>"

fun md_out :: "md_state \<Rightarrow> byte list" where
  "md_out (a, b, c, d) = le32 a @ le32 b @ le32 c @ le32 d"

definition md4_read_ctx :: "md_ctx \<Rightarrow> byte list" where "md4_read_ctx ctx = md_out (md_state ctx)"
definition md5_read_ctx :: "md_ctx \<Rightarrow> byte list" where "md5_read_ctx ctx = md_out (md_state ctx)"

text \<open>The double word increment of the byte count; the comparison is made in 64 bits.\<close>

definition md_count :: "md_ctx \<Rightarrow> nat \<Rightarrow> md_ctx" where
  "md_count ctx len =
     (let t0 = md_total0 ctx + of_nat len
      in ctx\<lparr>md_total0 := t0, md_total1 := (if unat t0 < len then md_total1 ctx + 1 else md_total1 ctx)\<rparr>)"

function md_blocks :: "(md_state \<Rightarrow> byte list \<Rightarrow> md_state) \<Rightarrow> md_state \<Rightarrow> byte list \<Rightarrow> md_state" where
  "md_blocks cmpr st data = (if data = [] then st else md_blocks cmpr (cmpr st (take 64 data)) (drop 64 data))"
  by pat_completeness auto
termination
  by (relation "measure (\<lambda>(_, _, d). length d)") auto

declare md_blocks.simps [simp del]

text \<open>\<open>process_block\<close> on data of a length that is a multiple of 64.\<close>

definition md_process_block :: "(md_state \<Rightarrow> byte list \<Rightarrow> md_state) \<Rightarrow> byte list \<Rightarrow> md_ctx \<Rightarrow> md_ctx" where
  "md_process_block cmpr data ctx =
     (let ctx' = md_count ctx (length data) in ctx'\<lparr>md_state := md_blocks cmpr (md_state ctx') data\<rparr>)"

definition md4_process_block :: "byte list \<Rightarrow> md_ctx \<Rightarrow> md_ctx" where
  "md4_process_block = md_process_block md4_compress"

definition md5_process_block :: "byte list \<Rightarrow> md_ctx \<Rightarrow> md_ctx" where
  "md5_process_block = md_process_block md5_compress"

text \<open>\<open>memcpy\<close> into the buffer at an offset; one that goes past the end would lengthen the list.\<close>

definition buf_put :: "byte list \<Rightarrow> nat \<Rightarrow> byte list \<Rightarrow> byte list" where
  "buf_put buf off data = take off buf @ data @ drop (off + length data) buf"

definition floor64 :: "nat \<Rightarrow> nat" where "floor64 n = n div 64 * 64"

text \<open>The first part of \<open>process_bytes\<close>: fills up the internal buffer; the rest of the input is returned.\<close>

definition md_fill :: "(md_state \<Rightarrow> byte list \<Rightarrow> md_state) \<Rightarrow> byte list \<Rightarrow> md_ctx \<Rightarrow> byte list \<times> md_ctx" where
  "md_fill cmpr data ctx =
     (if md_buflen ctx \<noteq> 0 then
        let left_over = md_buflen ctx;
            add = (if 128 - left_over > length data then length data else 128 - left_over);
            ctx1 = ctx\<lparr>md_buffer := buf_put (md_buffer ctx) left_over (take add data),
                       md_buflen := left_over + add\<rparr>;
            ctx2 = (if md_buflen ctx1 > 64
                    then let c = md_process_block cmpr (take (floor64 (md_buflen ctx1)) (md_buffer ctx1)) ctx1;
                             n = md_buflen ctx1 mod 64
                         in c\<lparr>md_buflen := n,
                              md_buffer := buf_put (md_buffer c) 0
                                (take n (drop (floor64 (left_over + add)) (md_buffer c)))\<rparr>
                    else ctx1)
        in (drop add data, ctx2)
      else (data, ctx))"

text \<open>The loop over an unaligned input, block by block through the buffer.\<close>

function md_unaligned :: "(md_state \<Rightarrow> byte list \<Rightarrow> md_state) \<Rightarrow> byte list \<Rightarrow> md_ctx \<Rightarrow> byte list \<times> md_ctx" where
  "md_unaligned cmpr data ctx =
     (if length data > 64
      then md_unaligned cmpr (drop 64 data)
             (md_process_block cmpr (take 64 data) (ctx\<lparr>md_buffer := buf_put (md_buffer ctx) 0 (take 64 data)\<rparr>))
      else (data, ctx))"
  by pat_completeness auto
termination
  by (relation "measure (\<lambda>(_, d, _). length d)") auto

declare md_unaligned.simps [simp del]

definition md_whole :: "(md_state \<Rightarrow> byte list \<Rightarrow> md_state) \<Rightarrow> bool \<Rightarrow> byte list \<Rightarrow> md_ctx \<Rightarrow> byte list \<times> md_ctx" where
  "md_whole cmpr unaligned data ctx =
     (if length data \<ge> 64 then
        (if unaligned then md_unaligned cmpr data ctx
         else (drop (floor64 (length data)) data,
               md_process_block cmpr (take (floor64 (length data)) data) ctx))
      else (data, ctx))"

definition md_rest :: "(md_state \<Rightarrow> byte list \<Rightarrow> md_state) \<Rightarrow> byte list \<Rightarrow> md_ctx \<Rightarrow> md_ctx" where
  "md_rest cmpr data ctx =
     (if data = [] then ctx
      else let left_over = md_buflen ctx;
               ctx1 = ctx\<lparr>md_buffer := buf_put (md_buffer ctx) left_over data\<rparr>;
               n = left_over + length data
           in if n \<ge> 64
              then let c = md_process_block cmpr (take 64 (md_buffer ctx1)) ctx1
                   in c\<lparr>md_buffer := buf_put (md_buffer c) 0 (take (n - 64) (drop 64 (md_buffer c))),
                        md_buflen := n - 64\<rparr>
              else ctx1\<lparr>md_buflen := n\<rparr>)"

text \<open>
  \<open>process_bytes\<close>.  Whether the input pointer, once the buffer is filled, is unaligned (and
  the architecture cares) is an argument.
\<close>

definition md_process_bytes :: "(md_state \<Rightarrow> byte list \<Rightarrow> md_state) \<Rightarrow> bool \<Rightarrow> byte list \<Rightarrow> md_ctx \<Rightarrow> md_ctx" where
  "md_process_bytes cmpr unaligned data ctx =
     (let (data1, ctx1) = md_fill cmpr data ctx;
          (data2, ctx2) = md_whole cmpr unaligned data1 ctx1
      in md_rest cmpr data2 ctx2)"

definition md4_process_bytes :: "bool \<Rightarrow> byte list \<Rightarrow> md_ctx \<Rightarrow> md_ctx" where
  "md4_process_bytes = md_process_bytes md4_compress"

definition md5_process_bytes :: "bool \<Rightarrow> byte list \<Rightarrow> md_ctx \<Rightarrow> md_ctx" where
  "md5_process_bytes = md_process_bytes md5_compress"

section \<open>Finishing\<close>

definition fillbuf :: "byte list" where "fillbuf = 0x80 # replicate 63 0"

text \<open>The two words of the length in bits.\<close>

definition md_length_bytes :: "md_ctx \<Rightarrow> byte list" where
  "md_length_bytes ctx = le32 (push_bit 3 (md_total0 ctx))
     @ le32 (push_bit 3 (md_total1 ctx) OR drop_bit 29 (md_total0 ctx))"

definition md4_finish_ctx :: "md_ctx \<Rightarrow> byte list" where
  "md4_finish_ctx ctx =
     (let bytes = md_buflen ctx;
          ctx1 = md_count ctx bytes;
          pad = (if bytes \<ge> 56 then 64 + 56 - bytes else 56 - bytes);
          buf1 = buf_put (md_buffer ctx1) bytes (take pad fillbuf);
          buf2 = buf_put buf1 ((bytes + pad) div 4 * 4) (md_length_bytes ctx1)
      in md4_read_ctx (md4_process_block (take (bytes + pad + 8) buf2) (ctx1\<lparr>md_buffer := buf2\<rparr>)))"

definition md5_finish_ctx :: "md_ctx \<Rightarrow> byte list" where
  "md5_finish_ctx ctx =
     (let bytes = md_buflen ctx;
          sz = (if bytes < 56 then 64 div 4 else 64 * 2 div 4);
          ctx1 = md_count ctx bytes;
          buf1 = buf_put (md_buffer ctx1) ((sz - 2) * 4) (md_length_bytes ctx1);
          buf2 = buf_put buf1 bytes (take ((sz - 2) * 4 - bytes) fillbuf)
      in md5_read_ctx (md5_process_block (take (sz * 4) buf2) (ctx1\<lparr>md_buffer := buf2\<rparr>)))"

text \<open>A context on the stack, with arbitrary contents.\<close>

definition md4_buffer :: "md_ctx \<Rightarrow> bool \<Rightarrow> byte list \<Rightarrow> byte list" where
  "md4_buffer stk unaligned data = md4_finish_ctx (md4_process_bytes unaligned data (md4_init_ctx stk))"

definition md5_buffer :: "md_ctx \<Rightarrow> bool \<Rightarrow> byte list \<Rightarrow> byte list" where
  "md5_buffer stk unaligned data = md5_finish_ctx (md5_process_bytes unaligned data (md5_init_ctx stk))"

section \<open>HMAC\<close>

definition memxor :: "byte list \<Rightarrow> byte list \<Rightarrow> byte list" where
  "memxor dest src = map2 (XOR) dest src @ drop (length src) dest"

definition hmac_half :: "md_ctx \<Rightarrow> bool \<Rightarrow> byte \<Rightarrow> byte list \<Rightarrow> byte list \<Rightarrow> byte list" where
  "hmac_half stk unaligned pad key data =
     md5_finish_ctx (md5_process_bytes unaligned data
       (md5_process_block (memxor (replicate 64 pad) key) (md5_init_ctx stk)))"

definition hmac_md5 :: "md_ctx \<Rightarrow> bool \<Rightarrow> byte list \<Rightarrow> byte list \<Rightarrow> byte list" where
  "hmac_md5 stk unaligned key data =
     (let k = (if length key > 64 then md5_buffer stk unaligned key else key)
      in hmac_half stk unaligned 0x5c k (hmac_half stk unaligned 0x36 k data))"

section \<open>What a context stands for\<close>

definition md_bytes :: "md_ctx \<Rightarrow> nat" where
  "md_bytes ctx = unat (md_total1 ctx) * 2 ^ 32 + unat (md_total0 ctx)"

text \<open>The context has processed \<open>p\<close> and holds \<open>r\<close> in its buffer.\<close>

definition md_at :: "(md_state \<Rightarrow> byte list \<Rightarrow> md_state) \<Rightarrow> md_ctx \<Rightarrow> byte list \<Rightarrow> byte list \<Rightarrow> bool" where
  "md_at cmpr ctx p r \<longleftrightarrow> length (md_buffer ctx) = 128 \<and> 64 dvd length p \<and> md_buflen ctx = length r
     \<and> length r \<le> 128 \<and> take (length r) (md_buffer ctx) = r
     \<and> md_state ctx = md_blocks cmpr md_iv p \<and> md_bytes ctx = length p mod 2 ^ 64"

text \<open>Between calls at most one full block is held back.\<close>

definition md_repr :: "(md_state \<Rightarrow> byte list \<Rightarrow> md_state) \<Rightarrow> md_ctx \<Rightarrow> byte list \<Rightarrow> bool" where
  "md_repr cmpr ctx m \<longleftrightarrow> (\<exists>p r. m = p @ r \<and> length r \<le> 64 \<and> md_at cmpr ctx p r)"

lemma md_reprI: "md_at c ctx p r \<Longrightarrow> length r \<le> 64 \<Longrightarrow> m = p @ r \<Longrightarrow> md_repr c ctx m"
  by (auto simp: md_repr_def)

lemma unat_u32_less: "unat (x :: u32) < 4294967296"
  using unsigned_less [of x, where ?'a = nat] by simp

lemma md_bytes_count:
  assumes "len < 2 ^ 32"
  shows "md_bytes (md_count ctx len) = (md_bytes ctx + len) mod 2 ^ 64"
proof -
  define a b where "a = unat (md_total0 ctx)" and "b = unat (md_total1 ctx)"
  have ab: "a < 4294967296" "b < 4294967296" by (auto simp: a_def b_def unat_u32_less)
  have t0: "unat (md_total0 ctx + of_nat len) = (a + len) mod 4294967296"
    using assms by (simp add: a_def unat_word_ariths unsigned_of_nat take_bit_eq_mod)
  have t1: "unat (md_total1 ctx + 1) = Suc b mod 4294967296"
    by (simp add: b_def unat_word_ariths)
  show ?thesis
  proof (cases "a + len < 4294967296")
    case True
    then have "(a + len) mod 4294967296 = a + len" by simp
    then show ?thesis using t0 ab True by (simp add: md_bytes_def md_count_def Let_def flip: a_def b_def)
  next
    case False
    then have *: "(a + len) mod 4294967296 = a + len - 4294967296"
      using ab assms by (simp add: mod_if)
    have "a + len - 4294967296 < len" using ab False by auto
    then have "md_bytes (md_count ctx len) = Suc b mod 4294967296 * 4294967296 + (a + len - 4294967296)"
      using t0 t1 * by (simp add: md_bytes_def md_count_def Let_def flip: a_def b_def)
    also have "\<dots> = (b * 4294967296 + a + len) mod 18446744073709551616"
    proof (cases "Suc b = 4294967296")
      case True
      then have "b * 4294967296 + a + len = (a + len - 4294967296) + 18446744073709551616" using False by simp
      moreover have "a + len - 4294967296 < 18446744073709551616" using ab assms by simp
      ultimately have "(b * 4294967296 + a + len) mod 18446744073709551616 = a + len - 4294967296"
        by (metis mod_add_self2 mod_less)
      with True show ?thesis by (simp only: mod_self mult_0 add_0)
    next
      case False': False
      then have "Suc b < 4294967296" using ab by simp
      then have "Suc b * 4294967296 + (a + len - 4294967296) < 18446744073709551616"
        using ab assms by simp
      then show ?thesis using False False' ab by simp
    qed
    finally show ?thesis by (simp add: md_bytes_def flip: a_def b_def)
  qed
qed

lemma md_count_simps [simp]:
  "md_state (md_count ctx n) = md_state ctx" "md_buflen (md_count ctx n) = md_buflen ctx"
  "md_buffer (md_count ctx n) = md_buffer ctx"
  by (simp_all add: md_count_def Let_def)

lemma md_process_block_simps [simp]:
  "md_state (md_process_block c d ctx) = md_blocks c (md_state ctx) d"
  "md_buflen (md_process_block c d ctx) = md_buflen ctx"
  "md_buffer (md_process_block c d ctx) = md_buffer ctx"
  "md_bytes (md_process_block c d ctx) = md_bytes (md_count ctx (length d))"
  by (simp_all add: md_process_block_def Let_def md_bytes_def)

lemma md_bytes_updates [simp]:
  "md_bytes (ctx\<lparr>md_buffer := b\<rparr>) = md_bytes ctx" "md_bytes (ctx\<lparr>md_buflen := n\<rparr>) = md_bytes ctx"
  "md_bytes (md_count (ctx\<lparr>md_buffer := b\<rparr>) k) = md_bytes (md_count ctx k)"
  "md_bytes (md_count (ctx\<lparr>md_buflen := n\<rparr>) k) = md_bytes (md_count ctx k)"
  by (simp_all add: md_bytes_def md_count_def Let_def)

lemma md_blocks_Nil [simp]: "md_blocks c st [] = st"
  by (subst md_blocks.simps) simp

lemma md_blocks_append:
  "64 dvd length p \<Longrightarrow> md_blocks c st (p @ q) = md_blocks c (md_blocks c st p) q"
proof (induction c st p rule: md_blocks.induct)
  case (1 c st p)
  show ?case
  proof (cases "p = []")
    case False
    then have l: "64 \<le> length p" using 1(2) by (auto dest: dvd_imp_le)
    then have "64 dvd length (drop 64 p)" using 1(2) by (simp add: dvd_diff_nat)
    from 1(1) [OF False this]
    have "md_blocks c (c st (take 64 p)) (drop 64 p @ q) = md_blocks c (md_blocks c st p) q"
      using False by (simp add: md_blocks.simps [of c st p])
    then show ?thesis using False l by (subst md_blocks.simps) simp
  qed simp
qed

lemma buf_put_facts:
  "off + length d \<le> length b \<Longrightarrow> length (buf_put b off d) = length b"
  "off + length d \<le> length b \<Longrightarrow> take (off + length d) (buf_put b off d) = take off b @ d"
  by (simp_all add: buf_put_def)

lemma floor64_le: "floor64 n \<le> n" "64 dvd floor64 n" "n mod 64 = n - floor64 n"
  by (simp_all add: floor64_def minus_div_mult_eq_mod)

section \<open>Each step keeps the meaning\<close>

lemma md_at_put:
  assumes "md_at c ctx p r" "length r + length d \<le> 128" "n = length r + length d" "off = length r"
  shows "md_at c (ctx\<lparr>md_buffer := buf_put (md_buffer ctx) off d, md_buflen := n\<rparr>) p (r @ d)"
  using assms buf_put_facts [of "length r" d "md_buffer ctx"] by (simp add: md_at_def)

lemma md_at_flush:
  assumes at: "md_at c ctx p r" and n: "64 dvd n" "n \<le> length r" "k = length r - n"
  shows "md_at c ((md_process_block c (take n (md_buffer ctx)) ctx)\<lparr>md_buflen := k,
      md_buffer := buf_put (md_buffer ctx) 0 (take k (drop n (md_buffer ctx)))\<rparr>) (p @ take n r) (drop n r)"
proof -
  note at' = at [unfolded md_at_def]
  have tr: "take n (md_buffer ctx) = take n r"
    using at' n by (metis min.absorb1 take_take)
  have dr: "take k (drop n (md_buffer ctx)) = drop n r"
    using at' n by (metis drop_take)
  have ln: "length (take n r) = n" "length (drop n r) = k" using n by auto
  have "k + n \<le> 128" using at' n by auto
  have count: "md_bytes (md_count ctx n) = length (p @ take n r) mod 2 ^ 64"
    using at' n md_bytes_count [of n ctx] ln by (simp add: mod_add_left_eq)
  show ?thesis
    using at' n ln count \<open>k + n \<le> 128\<close>
      buf_put_facts [of 0 "drop n r" "md_buffer ctx"]
    unfolding md_at_def tr dr by (auto simp: md_blocks_append)
qed

lemma md_fill_repr:
  assumes "md_repr c ctx m"
  shows "\<exists>d0 d1 ctx'. md_fill c data ctx = (d1, ctx') \<and> data = d0 @ d1 \<and> md_repr c ctx' (m @ d0)
    \<and> (d1 \<noteq> [] \<longrightarrow> md_buflen ctx' = 0)"
proof -
  obtain p r where m: "m = p @ r" and r: "length r \<le> 64" and at: "md_at c ctx p r"
    using assms by (auto simp: md_repr_def)
  have bl: "md_buflen ctx = length r" using at by (simp add: md_at_def)
  show ?thesis
  proof (cases "length r = 0")
    case True
    then show ?thesis using assms bl by (intro exI [of _ "[]"] exI [of _ data] exI [of _ ctx]) (auto simp: md_fill_def)
  next
    case False
    define add where "add = (if 128 - length r > length data then length data else 128 - length r)"
    define ctx1 where "ctx1 = ctx\<lparr>md_buffer := buf_put (md_buffer ctx) (length r) (take add data),
                       md_buflen := length r + add\<rparr>"
    have add: "add \<le> length data" "length r + add \<le> 128" using r by (auto simp: add_def)
    have at1: "md_at c ctx1 p (r @ take add data)"
      unfolding ctx1_def by (rule md_at_put [OF at]) (use add in auto)
    have bl1: "md_buflen ctx1 = length r + add" by (simp add: ctx1_def)
    show ?thesis
    proof (cases "length r + add > 64")
      case False': False
      have fill: "md_fill c data ctx = (drop add data, ctx1)"
        using False False' bl by (simp add: md_fill_def Let_def flip: add_def) (simp add: ctx1_def)
      have "drop add data = []" using False' add_def r by (auto split: if_splits)
      moreover have "md_repr c ctx1 (m @ take add data)"
        unfolding md_repr_def using at1 m False' add by (intro exI [of _ p] exI [of _ "r @ take add data"]) auto
      ultimately show ?thesis using fill by (metis append_take_drop_id)
    next
      case True
      define n where "n = floor64 (length r + add)"
      define ctx2 where "ctx2 = (md_process_block c (take n (md_buffer ctx1)) ctx1)\<lparr>md_buflen := (length r + add) mod 64,
         md_buffer := buf_put (md_buffer ctx1) 0 (take ((length r + add) mod 64) (drop n (md_buffer ctx1)))\<rparr>"
      have fill: "md_fill c data ctx = (drop add data, ctx2)"
        using False True bl bl1 unfolding ctx2_def
        by (simp add: md_fill_def Let_def flip: add_def ctx1_def n_def)
      define q where "q = r @ take add data"
      have lr: "length q = length r + add" using add by (simp add: q_def)
      have at2: "md_at c ctx2 (p @ take n q) (drop n q)"
        unfolding ctx2_def by (rule md_at_flush [OF at1 [folded q_def]]) (use lr floor64_le n_def in auto)
      have "length (drop n q) < 64"
        using lr floor64_le(3) [of "length r + add"] by (simp add: n_def)
      then have "md_repr c ctx2 (m @ take add data)"
        by (intro md_reprI [OF at2]) (simp_all add: m flip: q_def)
      moreover have "md_buflen ctx2 = 0" if "drop add data \<noteq> []"
      proof -
        have "length r + add = 128" using that r by (auto simp: add_def split: if_splits)
        then show ?thesis by (simp add: ctx2_def)
      qed
      ultimately show ?thesis using fill by (metis append_take_drop_id)
    qed
  qed
qed

lemma md_at_blocks:
  assumes "md_at c ctx p []" "64 dvd length d" "length d < 2 ^ 32" "length b = 128"
  shows "md_at c (md_process_block c d (ctx\<lparr>md_buffer := b\<rparr>)) (p @ d) []"
proof -
  have "md_bytes (md_count ctx (length d)) = length (p @ d) mod 2 ^ 64"
    using assms md_bytes_count [of "length d" ctx] by (simp add: md_at_def mod_add_left_eq)
  then show ?thesis using assms by (simp add: md_at_def md_blocks_append)
qed

lemma md_at_blocks':
  assumes "md_at c ctx p []" "64 dvd length d" "length d < 2 ^ 32"
  shows "md_at c (md_process_block c d ctx) (p @ d) []"
  using md_at_blocks [OF assms, of "md_buffer ctx"] assms by (simp add: md_at_def)

lemma md_unaligned_repr:
  "md_at c ctx p [] \<Longrightarrow> \<exists>d0 d1 ctx'. md_unaligned c data ctx = (d1, ctx') \<and> data = d0 @ d1
    \<and> md_at c ctx' (p @ d0) [] \<and> length d1 \<le> 64"
proof (induction c data ctx arbitrary: p rule: md_unaligned.induct)
  case (1 c data ctx)
  show ?case
  proof (cases "length data > 64")
    case True
    have at: "md_at c (md_process_block c (take 64 data) (ctx\<lparr>md_buffer := buf_put (md_buffer ctx) 0 (take 64 data)\<rparr>)) (p @ take 64 data) []"
      using True 1(2) by (intro md_at_blocks) (auto simp: buf_put_facts md_at_def)
    have e: "md_unaligned c data ctx = md_unaligned c (drop 64 data) (md_process_block c (take 64 data)
        (ctx\<lparr>md_buffer := buf_put (md_buffer ctx) 0 (take 64 data)\<rparr>))"
      using True by (subst md_unaligned.simps) simp
    from 1(1) [OF True at] obtain d0 d1 ctx' where
      r: "md_unaligned c data ctx = (d1, ctx')" "drop 64 data = d0 @ d1"
      "md_at c ctx' ((p @ take 64 data) @ d0) []" "length d1 \<le> 64"
      unfolding e by blast
    have "data = (take 64 data @ d0) @ d1" using r(2) by (metis append.assoc append_take_drop_id)
    moreover have "md_at c ctx' (p @ (take 64 data @ d0)) []" using r(3) by (simp only: append.assoc)
    ultimately show ?thesis using r(1,4) by blast
  next
    case False
    with 1(2) show ?thesis
      by (intro exI [of _ "[]"] exI [of _ data] exI [of _ ctx]) (simp add: md_unaligned.simps)
  qed
qed

lemma md_whole_repr:
  assumes "md_at c ctx p []" "length data < 2 ^ 32"
  shows "\<exists>d0 d1 ctx'. md_whole c un data ctx = (d1, ctx') \<and> data = d0 @ d1
    \<and> md_at c ctx' (p @ d0) [] \<and> length d1 \<le> 64"
proof (cases "length data \<ge> 64 \<and> un")
  case True
  then show ?thesis using md_unaligned_repr [OF assms(1), of data] by (simp add: md_whole_def)
next
  case False
  show ?thesis
  proof (cases "length data \<ge> 64")
    case True
    let ?n = "floor64 (length data)"
    have l: "length (take ?n data) = ?n" using floor64_le(1) [of "length data"] by simp
    have "md_at c (md_process_block c (take ?n data) ctx) (p @ take ?n data) []"
      using assms floor64_le [of "length data"] l by (intro md_at_blocks') auto
    moreover have "length (drop ?n data) \<le> 64"
      using floor64_le(3) [of "length data"] by (metis length_drop less_imp_le_nat mod_less_divisor zero_less_numeral)
    ultimately show ?thesis using True False
      by (intro exI [of _ "take ?n data"] exI [of _ "drop ?n data"]
          exI [of _ "md_process_block c (take ?n data) ctx"]) (simp add: md_whole_def)
  next
    case False
    with assms show ?thesis
      by (intro exI [of _ "[]"] exI [of _ data] exI [of _ ctx]) (simp add: md_whole_def)
  qed
qed

lemma md_process_block_buflen:
  "md_process_block c d (ctx\<lparr>md_buflen := n\<rparr>) = (md_process_block c d ctx)\<lparr>md_buflen := n\<rparr>"
  by (simp add: md_process_block_def md_count_def Let_def)

lemma md_rest_repr:
  assumes "md_at c ctx p []" "length data \<le> 64"
  shows "md_repr c (md_rest c data ctx) (p @ data)"
proof (cases "data = []")
  case True
  with assms md_reprI [OF assms(1), of p] show ?thesis by (simp add: md_rest_def)
next
  case False
  have bl: "md_buflen ctx = 0" using assms by (simp add: md_at_def)
  define ctx1 where "ctx1 = ctx\<lparr>md_buffer := buf_put (md_buffer ctx) 0 data\<rparr>"
  have at: "md_at c (ctx1\<lparr>md_buflen := length data\<rparr>) p data"
    using md_at_put [OF assms(1), of data "length data" 0] assms(2) by (simp add: ctx1_def)
  show ?thesis
  proof (cases "length data = 64")
    case True
    have "md_at c ((md_process_block c (take 64 (md_buffer ctx1)) (ctx1\<lparr>md_buflen := length data\<rparr>))\<lparr>md_buflen := 0,
      md_buffer := buf_put (md_buffer ctx1) 0 (take 0 (drop 64 (md_buffer ctx1)))\<rparr>) (p @ take 64 data) (drop 64 data)"
      using md_at_flush [OF at, of 64 0] True by simp
    moreover have "md_rest c data ctx = (md_process_block c (take 64 (md_buffer ctx1)) (ctx1\<lparr>md_buflen := length data\<rparr>))\<lparr>md_buflen := 0,
      md_buffer := buf_put (md_buffer ctx1) 0 (take 0 (drop 64 (md_buffer ctx1)))\<rparr>"
    proof -
      have c1: "ctx\<lparr>md_buffer := buf_put (md_buffer ctx) 0 data\<rparr> = ctx1" by (simp add: ctx1_def)
      show ?thesis unfolding md_rest_def Let_def bl c1 using True False
        by (intro md_ctx.equality) (simp_all add: md_process_block_buflen)
    qed
    ultimately show ?thesis using True
      unfolding md_repr_def by (intro exI [of _ "p @ data"] exI [of _ "[]"]) simp
  next
    case False': False
    then have "md_rest c data ctx = ctx1\<lparr>md_buflen := length data\<rparr>"
      using False bl assms(2) by (simp add: md_rest_def Let_def flip: ctx1_def)
    then show ?thesis using at assms(2) unfolding md_repr_def by auto
  qed
qed

lemma md_process_bytes_repr:
  assumes "md_repr c ctx m" "length data < 2 ^ 32"
  shows "md_repr c (md_process_bytes c un data ctx) (m @ data)"
proof -
  obtain d0 d1 ctx1 where f: "md_fill c data ctx = (d1, ctx1)" "data = d0 @ d1"
    "md_repr c ctx1 (m @ d0)" "d1 \<noteq> [] \<longrightarrow> md_buflen ctx1 = 0"
    using md_fill_repr [OF assms(1), of data] by blast
  show ?thesis
  proof (cases "d1 = []")
    case True
    with f show ?thesis by (simp add: md_process_bytes_def md_whole_def md_rest_def)
  next
    case False
    then have "md_buflen ctx1 = 0" using f(4) by simp
    moreover obtain p r where pr: "m @ d0 = p @ r" "md_at c ctx1 p r"
      using f(3) unfolding md_repr_def by blast
    ultimately have "r = []" unfolding md_at_def by (metis length_0_conv)
    with pr have p: "m @ d0 = p" "md_at c ctx1 p []" by simp_all
    obtain e0 e1 ctx2 where w: "md_whole c un d1 ctx1 = (e1, ctx2)" "d1 = e0 @ e1"
      "md_at c ctx2 (p @ e0) []" "length e1 \<le> 64"
      using md_whole_repr [OF p(2), of d1 un] assms(2) f(2) by auto
    have "md_process_bytes c un data ctx = md_rest c e1 ctx2"
      using f(1) w(1) by (simp add: md_process_bytes_def)
    moreover have "m @ data = (p @ e0) @ e1" using f(2) w(2) p(1) by (metis append.assoc)
    ultimately show ?thesis using md_rest_repr [OF w(3,4)] by simp
  qed
qed

section \<open>The standard's digest\<close>

text \<open>The padded message of RFC 1320 and RFC 1321, the length in bits modulo 2^64.\<close>

definition md_pad :: "byte list \<Rightarrow> byte list" where
  "md_pad m = m @ 0x80 # replicate ((119 - length m mod 64) mod 64) 0 @ le64 (of_nat (8 * length m))"

definition md_digest :: "(md_state \<Rightarrow> byte list \<Rightarrow> md_state) \<Rightarrow> byte list \<Rightarrow> byte list" where
  "md_digest c m = md_out (md_blocks c md_iv (md_pad m))"

lemma le64_split: "le64 x = le32 (ucast x) @ le32 (ucast (drop_bit 32 x))"
  unfolding le64_def le32_def by (auto intro!: byte_eqI simp: bit_simps)

lemma u32_bit_ge: "32 \<le> n \<Longrightarrow> \<not> bit (x :: u32) n"
  using bit_imp_le_length [of x n] by auto

lemma md_length_bytes_eq:
  assumes "md_bytes ctx = n mod 2 ^ 64"
  shows "md_length_bytes ctx = le64 (of_nat (8 * n))"
proof -
  define c :: u64 where "c = push_bit 32 (ucast (md_total1 ctx)) OR ucast (md_total0 ctx)"
  have disj: "push_bit 32 (ucast (md_total1 ctx)) AND ucast (md_total0 ctx) = (0 :: u64)"
    by (rule bit_word_eqI) (auto simp: bit_simps dest: bit_imp_le_length)
  have "c = push_bit 32 (ucast (md_total1 ctx)) + ucast (md_total0 ctx)"
    unfolding c_def by (rule disjunctive_add_eq_or [symmetric]) (rule disj)
  also have "\<dots> = of_nat (md_bytes ctx)"
    by (simp add: md_bytes_def push_bit_eq_mult mult.commute)
  finally have "c = of_nat (n mod 2 ^ 64)" using assms by simp
  then have c: "c = of_nat n" by (simp only: word_of_nat_eq_iff) (simp add: take_bit_eq_mod)
  have "le64 (push_bit 3 c) = md_length_bytes ctx"
    unfolding md_length_bytes_def le64_def le32_def c_def
    by (auto intro!: byte_eqI simp: bit_simps u32_bit_ge)
  moreover have "push_bit 3 c = of_nat (8 * n)" by (simp add: c push_bit_eq_mult)
  ultimately show ?thesis by simp
qed

section \<open>Finishing produces the standard's digest\<close>

text \<open>The length of the fill after \<open>b\<close> buffered bytes.\<close>

definition md_padlen :: "nat \<Rightarrow> nat" where
  "md_padlen b = (if b \<ge> 56 then 120 - b else 56 - b)"

lemma md_padlen_facts:
  assumes "b \<le> 64"
  shows "b + md_padlen b = (if b < 56 then 56 else 120)" "0 < md_padlen b" "md_padlen b \<le> 64"
    "take (md_padlen b) fillbuf = 0x80 # replicate (md_padlen b - 1) 0"
    "64 dvd b + md_padlen b + 8"
  using assms by (auto simp: md_padlen_def fillbuf_def take_Cons' min_def)

lemma md_pad_split:
  assumes "64 dvd length p" "length r = b" "b \<le> 64"
  shows "md_pad (p @ r) = p @ r @ take (md_padlen b) fillbuf @ le64 (of_nat (8 * length (p @ r)))"
proof -
  obtain k where k: "length p = 64 * k" using assms(1) by (auto simp: dvd_def)
  have "(64 * k + b) mod 64 = (if b = 64 then 0 else b)" using assms(3) by simp
  then have "(119 - length (p @ r) mod 64) mod 64 = md_padlen b - 1"
    using assms(2,3) k by (auto simp: md_padlen_def mod_if)
  then show ?thesis
    using md_padlen_facts(4) [OF assms(3)] by (simp add: md_pad_def)
qed

text \<open>Both ways of finishing run the compression over the same bytes.\<close>

lemma md_finish_blocks:
  assumes "md_at c ctx p r" "length r \<le> 64" "m = p @ r" "b = length r"
  shows "md_out (md_blocks c (md_state ctx) (r @ take (md_padlen b) fillbuf @ md_length_bytes (md_count ctx b)))
    = md_digest c m"
proof -
  have "md_bytes (md_count ctx b) = length m mod 2 ^ 64"
    using assms md_bytes_count [of b ctx] by (simp add: md_at_def mod_add_left_eq)
  then have "md_length_bytes (md_count ctx b) = le64 (of_nat (8 * length m))"
    by (rule md_length_bytes_eq)
  then show ?thesis using assms md_pad_split [of p r b]
    by (simp add: md_digest_def md_at_def md_blocks_append)
qed

lemma take_two_puts:
  assumes "length buf = 128" "b + n + 8 \<le> 128" "length f = n" "length L = 8" "o' = b + n"
  shows "take (b + n + 8) (buf_put (buf_put buf b f) o' L) = take b buf @ f @ L"
    "take (b + n + 8) (buf_put (buf_put buf o' L) b f) = take b buf @ f @ L"
  using assms by (simp_all add: buf_put_def)

lemma length_md_length_bytes [simp]: "length (md_length_bytes ctx) = 8"
  by (simp add: md_length_bytes_def)

lemma md4_finish_repr:
  assumes "md_repr md4_compress ctx m"
  shows "md4_finish_ctx ctx = md_digest md4_compress m"
proof -
  obtain p r where pr: "m = p @ r" "length r \<le> 64" "md_at md4_compress ctx p r"
    using assms by (auto simp: md_repr_def)
  define b where "b = length r"
  have b: "b \<le> 64" "md_buflen ctx = b" "take b (md_buffer ctx) = r" "length (md_buffer ctx) = 128"
    using pr by (auto simp: md_at_def b_def)
  have pad: "(if b \<ge> 56 then 64 + 56 - b else 56 - b) = md_padlen b" by (simp add: md_padlen_def)
  have div4: "(b + md_padlen b) div 4 * 4 = b + md_padlen b"
    using md_padlen_facts(1) [OF b(1)] by simp
  have "b + md_padlen b + 8 \<le> 128" using md_padlen_facts(1) [OF b(1)] by (auto split: if_splits)
  then have t: "take (b + md_padlen b + 8) (buf_put (buf_put (md_buffer ctx) b (take (md_padlen b) fillbuf))
      (b + md_padlen b) L) = r @ take (md_padlen b) fillbuf @ L" if "length L = 8" for L
    using take_two_puts(1) [of "md_buffer ctx" b "md_padlen b" "take (md_padlen b) fillbuf" L "b + md_padlen b"]
      b md_padlen_facts(3) [OF b(1)] that by (simp add: fillbuf_def)
  show ?thesis
    unfolding md4_finish_ctx_def Let_def b(2) pad div4 md_count_simps
    unfolding t [OF length_md_length_bytes] md4_read_ctx_def md4_process_block_def md_process_block_simps
    using md_finish_blocks [OF pr(3,2,1) b_def] by simp
qed

lemma md5_finish_repr:
  assumes "md_repr md5_compress ctx m"
  shows "md5_finish_ctx ctx = md_digest md5_compress m"
proof -
  obtain p r where pr: "m = p @ r" "length r \<le> 64" "md_at md5_compress ctx p r"
    using assms by (auto simp: md_repr_def)
  define b where "b = length r"
  have b: "b \<le> 64" "md_buflen ctx = b" "take b (md_buffer ctx) = r" "length (md_buffer ctx) = 128"
    using pr by (auto simp: md_at_def b_def)
  define sz :: nat where "sz = (if b < 56 then 64 div 4 else 64 * 2 div 4)"
  have sz: "(sz - 2) * 4 = b + md_padlen b" "sz * 4 = b + md_padlen b + 8"
    using md_padlen_facts(1) [OF b(1)] by (auto simp: sz_def)
  have "b + md_padlen b + 8 \<le> 128" using md_padlen_facts(1) [OF b(1)] by (auto split: if_splits)
  then have t: "take (b + md_padlen b + 8) (buf_put (buf_put (md_buffer ctx) (b + md_padlen b) L)
      b (take (md_padlen b) fillbuf)) = r @ take (md_padlen b) fillbuf @ L" if "length L = 8" for L
    using take_two_puts(2) [of "md_buffer ctx" b "md_padlen b" "take (md_padlen b) fillbuf" L "b + md_padlen b"]
      b md_padlen_facts(3) [OF b(1)] that by (simp add: fillbuf_def)
  show ?thesis
    unfolding md5_finish_ctx_def Let_def b(2) sz_def [symmetric] sz md_count_simps diff_add_inverse
    unfolding t [OF length_md_length_bytes] md5_read_ctx_def md5_process_block_def md_process_block_simps
    using md_finish_blocks [OF pr(3,2,1) b_def] by simp
qed

section \<open>The streaming contract\<close>

text \<open>
  What a client of a digest relies on: a context can be started, fed pieces and finished, and the
  result is that of the concatenation.
\<close>

locale stream_hash =
  fixes init :: "md_ctx \<Rightarrow> md_ctx" and feed :: "bool \<Rightarrow> byte list \<Rightarrow> md_ctx \<Rightarrow> md_ctx"
    and block :: "byte list \<Rightarrow> md_ctx \<Rightarrow> md_ctx"
    and finish :: "md_ctx \<Rightarrow> byte list" and rep :: "md_ctx \<Rightarrow> byte list \<Rightarrow> bool"
    and digest :: "byte list \<Rightarrow> byte list"
  assumes rep_init: "length (md_buffer ctx) = 128 \<Longrightarrow> rep (init ctx) []"
    and rep_feed: "rep ctx m \<Longrightarrow> length d < 2 ^ 32 \<Longrightarrow> rep (feed un d ctx) (m @ d)"
    and rep_block: "length (md_buffer ctx) = 128 \<Longrightarrow> length d = 64 \<Longrightarrow> rep (block d (init ctx)) d"
    and finish_rep: "rep ctx m \<Longrightarrow> finish ctx = digest m"
begin

lemma feed_all:
  "rep ctx m \<Longrightarrow> \<forall>(un, d) \<in> set ds. length d < 2 ^ 32 \<Longrightarrow>
   rep (fold (\<lambda>(un, d). feed un d) ds ctx) (m @ concat (map snd ds))"
proof (induction ds arbitrary: ctx m)
  case (Cons x ds)
  obtain un d where x: "x = (un, d)" by fastforce
  with Cons.prems have "rep (feed un d ctx) (m @ d)" by (auto intro: rep_feed)
  from Cons.IH [OF this] Cons.prems(2) x show ?case by simp
qed simp

lemma stream_digest:
  assumes "length (md_buffer ctx) = 128" "\<forall>(un, d) \<in> set ds. length d < 2 ^ 32"
  shows "finish (fold (\<lambda>(un, d). feed un d) ds (init ctx)) = digest (concat (map snd ds))"
  using finish_rep [OF feed_all [OF rep_init [OF assms(1)] assms(2)]] by simp

lemma buffer_digest:
  "length (md_buffer ctx) = 128 \<Longrightarrow> length d < 2 ^ 32 \<Longrightarrow> finish (feed un d (init ctx)) = digest d"
  using finish_rep [OF rep_feed [OF rep_init, of ctx d un]] by simp

lemma keyed_digest:
  "length (md_buffer ctx) = 128 \<Longrightarrow> length k = 64 \<Longrightarrow> length d < 2 ^ 32 \<Longrightarrow>
   finish (feed un d (block k (init ctx))) = digest (k @ d)"
  by (rule finish_rep [OF rep_feed [OF rep_block]])

end

lemma md_at_init:
  "length (md_buffer ctx) = 128 \<Longrightarrow>
   md_at c (ctx\<lparr>md_state := md_iv, md_total0 := 0, md_total1 := 0, md_buflen := 0\<rparr>) [] []"
  by (simp add: md_at_def md_bytes_def)

lemma md_repr_block:
  "md_at c ctx [] [] \<Longrightarrow> length d = 64 \<Longrightarrow> md_repr c (md_process_block c d ctx) d"
  using md_at_blocks' [of c ctx "[]" d] by (auto intro: md_reprI)

interpretation md4: stream_hash md4_init_ctx md4_process_bytes md4_process_block md4_finish_ctx
  "md_repr md4_compress" "md_digest md4_compress"
proof unfold_locales
  fix ctx :: md_ctx and d assume b: "length (md_buffer ctx) = 128"
  from md_at_init [OF this] have at: "md_at md4_compress (md4_init_ctx ctx) [] []"
    by (simp add: md4_init_ctx_def)
  then show "md_repr md4_compress (md4_init_ctx ctx) []" by (rule md_reprI) simp_all
  show "length d = 64 \<Longrightarrow> md_repr md4_compress (md4_process_block d (md4_init_ctx ctx)) d"
    using md_repr_block [OF at] by (simp add: md4_process_block_def)
qed (auto simp: md4_finish_repr md4_process_bytes_def intro: md_process_bytes_repr)

interpretation md5: stream_hash md5_init_ctx md5_process_bytes md5_process_block md5_finish_ctx
  "md_repr md5_compress" "md_digest md5_compress"
proof unfold_locales
  fix ctx :: md_ctx and d assume b: "length (md_buffer ctx) = 128"
  from md_at_init [OF this] have at: "md_at md5_compress (md5_init_ctx ctx) [] []"
    by (simp add: md5_init_ctx_def)
  then show "md_repr md5_compress (md5_init_ctx ctx) []" by (rule md_reprI) simp_all
  show "length d = 64 \<Longrightarrow> md_repr md5_compress (md5_process_block d (md5_init_ctx ctx)) d"
    using md_repr_block [OF at] by (simp add: md5_process_block_def)
qed (auto simp: md5_finish_repr md5_process_bytes_def intro: md_process_bytes_repr)

section \<open>HMAC of RFC 2104\<close>

definition hmac_key :: "byte list \<Rightarrow> byte list" where
  "hmac_key key = (let k = (if length key > 64 then md_digest md5_compress key else key)
                   in k @ replicate (64 - length k) 0)"

definition rfc_hmac_md5 :: "byte list \<Rightarrow> byte list \<Rightarrow> byte list" where
  "rfc_hmac_md5 key data =
     md_digest md5_compress (map ((XOR) 0x5c) (hmac_key key)
       @ md_digest md5_compress (map ((XOR) 0x36) (hmac_key key) @ data))"

lemma length_md_digest [simp]: "length (md_digest c m) = 16"
  by (cases "md_blocks c md_iv (md_pad m)") (simp add: md_digest_def)

lemma memxor_pad:
  "length k \<le> n \<Longrightarrow> memxor (replicate n p) k = map ((XOR) p) (k @ replicate (n - length k) 0)"
proof (induction n arbitrary: k)
  case 0
  then show ?case by (simp add: memxor_def)
next
  case (Suc n)
  then show ?case by (cases k) (simp_all add: memxor_def)
qed

lemma hmac_half_eq:
  assumes "length (md_buffer stk) = 128" "length k \<le> 64" "length d < 2 ^ 32"
  shows "hmac_half stk un p k d = md_digest md5_compress (map ((XOR) p) (k @ replicate (64 - length k) 0) @ d)"
  using md5.keyed_digest [OF assms(1), of "memxor (replicate 64 p) k" d un] assms(2,3) memxor_pad [of k 64 p]
  by (simp add: hmac_half_def del: map_append)

lemma hmac_md5_eq:
  assumes "length (md_buffer stk) = 128" "length key < 2 ^ 32" "length data < 2 ^ 32"
  shows "hmac_md5 stk un key data = rfc_hmac_md5 key data"
proof -
  have b: "md5_buffer stk un key = md_digest md5_compress key"
    using md5.buffer_digest [OF assms(1,2)] by (simp add: md5_buffer_def)
  define k where "k = (if length key > 64 then md_digest md5_compress key else key)"
  have "length k \<le> 64" by (simp add: k_def)
  moreover have "hmac_key key = k @ replicate (64 - length k) 0"
    by (simp add: hmac_key_def Let_def k_def)
  moreover have "hmac_md5 stk un key data = hmac_half stk un 0x5c k (hmac_half stk un 0x36 k data)"
    by (simp add: hmac_md5_def b Let_def k_def)
  ultimately show ?thesis using assms
    by (simp add: hmac_half_eq rfc_hmac_md5_def del: map_append)
qed

definition blank_ctx :: md_ctx where
  "blank_ctx = \<lparr>md_state = (0, 0, 0, 0), md_total0 = 0, md_total1 = 0, md_buflen = 0, md_buffer = replicate 128 0\<rparr>"

lemma length_blank_ctx: "length (md_buffer blank_ctx) = 128"
  by (simp add: blank_ctx_def)

section \<open>Properties\<close>

text \<open>
  C10: MD4 and MD5 compute the standard's digest.  Whatever the pieces in which the input arrives (each
  below 2^32 bytes), whatever their alignment and the old contents of the context, the result is
  the digest of the concatenated input: the compression over its blocks after padding with 0x80,
  zeros and the length in bits.  Buffering neither loses, repeats nor reorders a byte.
\<close>

theorem md_stream_digest:
  assumes "length (md_buffer ctx) = 128" "\<forall>(un, d) \<in> set ds. length d < 2 ^ 32"
  shows "md4_finish_ctx (fold (\<lambda>(un, d). md4_process_bytes un d) ds (md4_init_ctx ctx))
      = md_digest md4_compress (concat (map snd ds))
    \<and> md5_finish_ctx (fold (\<lambda>(un, d). md5_process_bytes un d) ds (md5_init_ctx ctx))
      = md_digest md5_compress (concat (map snd ds))"
  using md4.stream_digest [OF assms] md5.stream_digest [OF assms] by simp

theorem md_stream_digest_witness:
  "md5_finish_ctx (md5_process_bytes True (replicate 100 1)
       (md5_process_bytes False (replicate 64 2) (md5_init_ctx blank_ctx)))
     = md_digest md5_compress (replicate 64 2 @ replicate 100 1)"
proof -
  have "\<forall>(un, d) \<in> set [(False, replicate 64 2), (True, replicate 100 (1 :: byte))]. length d < 2 ^ 32" by simp
  from md_stream_digest [OF length_blank_ctx this] show ?thesis
    by (simp del: replicate.simps)
qed

text \<open>
  C32: hmac_md5 is the HMAC of RFC 2104 over MD5, for keys of every length (a key above 64 bytes is
  hashed first) and data below 2^32 bytes.
\<close>

theorem hmac_md5_rfc2104:
  assumes "length (md_buffer stk) = 128" "length key < 2 ^ 32" "length data < 2 ^ 32"
  shows "hmac_md5 stk un key data = rfc_hmac_md5 key data"
  using assms by (rule hmac_md5_eq)

theorem hmac_md5_rfc2104_witness:
  "hmac_md5 blank_ctx True (bytes_of ''Jefe'') (bytes_of ''what do ya want for nothing?'')
    = rfc_hmac_md5 (bytes_of ''Jefe'') (bytes_of ''what do ya want for nothing?'')"
  by (rule hmac_md5_rfc2104 [OF length_blank_ctx]) simp_all

text \<open>
  The compressions are those of the standards: on the input "abc" the two digests are the ones
  listed in the test suites of RFC 1320 and RFC 1321.
\<close>

theorem digest_test_vectors:
  "md_digest md4_compress (bytes_of ''abc'') =
     [0xa4, 0x48, 0x01, 0x7a, 0xaf, 0x21, 0xd8, 0x52, 0x5f, 0xc1, 0x0a, 0xe8, 0x7a, 0xa6, 0x72, 0x9d]
   \<and> md_digest md5_compress (bytes_of ''abc'') =
     [0x90, 0x01, 0x50, 0x98, 0x3c, 0xd2, 0x4f, 0xb0, 0xd6, 0x96, 0x3f, 0x7d, 0x28, 0xe1, 0x7f, 0x72]"
  by code_simp

end
