(* ===== verification/Ntlm.thy ===== *)
theory Ntlm
  imports Auth Swap Des MdHash
begin

text \<open>
  ntlm.c: the password hashes, the responses to a challenge and the NTLM messages of type 1 and 3.
  Messages are memory objects (lists of bytes); a challenge is the memory object it was decoded
  into, with the decoded length beside it.  An access outside an object is \<open>UB\<close>.  The random
  numbers and the clock are arguments.  Digests are taken with a blank context and aligned input,
  which allocated memory is; neither changes them (theory MdHash).
\<close>

abbreviation NTLM_BUFSIZE :: nat where "NTLM_BUFSIZE \<equiv> 1024"

definition md4_of :: "byte list \<Rightarrow> byte list" where "md4_of d = md4_buffer blank_ctx False d"
definition md5_of :: "byte list \<Rightarrow> byte list" where "md5_of d = md5_buffer blank_ctx False d"
definition hmac_of :: "byte list \<Rightarrow> byte list \<Rightarrow> byte list" where "hmac_of k d = hmac_md5 blank_ctx False k d"

section \<open>Memory\<close>

definition slice :: "'a list \<Rightarrow> nat \<Rightarrow> nat \<Rightarrow> 'a list" where
  "slice m off n = take n (drop off m)"

definition mem_get :: "byte list \<Rightarrow> nat \<Rightarrow> nat \<Rightarrow> byte list c_result" where
  "mem_get m off n = (if n = 0 \<or> off + n \<le> length m then Ret (slice m off n) else UB)"

definition mem_get16 :: "byte list \<Rightarrow> nat \<Rightarrow> u16 c_result" where
  "mem_get16 m off = (if off + 2 \<le> length m then Ret (get_le16 m off) else UB)"

fun mem_puts :: "byte list \<Rightarrow> (nat \<times> byte list) list \<Rightarrow> byte list c_result" where
  "mem_puts m [] = Ret m"
| "mem_puts m ((off, d) # ps) =
     (if d = [] then mem_puts m ps
      else if off + length d \<le> length m then mem_puts (take off m @ d @ drop (off + length d) m) ps
      else UB)"

section \<open>Keys and responses\<close>

text \<open>Seven bytes of key spread over eight, for the DES key schedule.\<close>

definition ntlm_key :: "byte list \<Rightarrow> byte list" where
  "ntlm_key src =
     [src ! 0,
      push_bit 7 (src ! 0) OR drop_bit 1 (src ! 1),
      push_bit 6 (src ! 1) OR drop_bit 2 (src ! 2),
      push_bit 5 (src ! 2) OR drop_bit 3 (src ! 3),
      push_bit 4 (src ! 3) OR drop_bit 4 (src ! 4),
      push_bit 3 (src ! 4) OR drop_bit 5 (src ! 5),
      push_bit 2 (src ! 5) OR drop_bit 6 (src ! 6),
      push_bit 1 (src ! 6)]"

definition ntlm_set_key :: "byte list \<Rightarrow> gl_des_ctx" where
  "ntlm_set_key src = gl_des_setkey (ntlm_key src)"

definition ntlm_encrypt :: "byte list \<Rightarrow> byte list \<Rightarrow> byte list" where
  "ntlm_encrypt src blk = gl_des_ecb_crypt (ntlm_set_key src) blk 0"

text \<open>The 24-byte response: the challenge under three keys of seven bytes each.\<close>

definition ntlm_calc_resp :: "byte list \<Rightarrow> byte list \<Rightarrow> byte list c_result" where
  "ntlm_calc_resp keys challenge =
     c_bind (mem_get keys 0 21) (\<lambda>k. c_bind (mem_get challenge 0 8) (\<lambda>ch.
       Ret (ntlm_encrypt (slice k 0 7) ch @ ntlm_encrypt (slice k 7 7) ch @ ntlm_encrypt (slice k 14 7) ch)))"

text \<open>
  The time stamp (seconds since 1970 to units of 100 ns since 1601) and the client's blob.  The
  nonce is \<open>((uint64_t)random() << 32) | random()\<close>, stored in the order of the machine.
\<close>

definition ntlm_time :: "u64 \<Rightarrow> u64" where
  "ntlm_time now = (now + 11644473600) * 10000000"

definition ntlm2_blob :: "u64 \<Rightarrow> u64 \<Rightarrow> byte list \<Rightarrow> byte list" where
  "ntlm2_blob nonce now target =
     le32 0x00000101 @ le32 0 @ le64 (ntlm_time now) @ le64 nonce @ le32 0 @ target @ le32 0"

text \<open>Both responses of NTLMv2: for the NT and for the LM field.\<close>

definition ntlm2_calc_resp ::
  "nat \<Rightarrow> u64 \<Rightarrow> u64 \<Rightarrow> byte list \<Rightarrow> byte list \<Rightarrow> nat \<Rightarrow> nat \<Rightarrow> (byte list \<times> byte list) c_result" where
  "ntlm2_calc_resp endian nonce now passnt2 challenge tbofs tblen =
     c_bind (mem_get challenge tbofs tblen) (\<lambda>target.
     c_bind (mem_get challenge 24 8) (\<lambda>srv.
     c_bind (mem_get passnt2 0 16) (\<lambda>key.
     let blob = ntlm2_blob nonce now target; nb = store64 endian nonce
     in Ret (hmac_of key (srv @ blob) @ blob, hmac_of key (srv @ nb) @ nb))))"

text \<open>NTLM2 session response.\<close>

definition ntlm2sr_calc_rest ::
  "nat \<Rightarrow> u64 \<Rightarrow> byte list \<Rightarrow> byte list \<Rightarrow> (byte list \<times> byte list) c_result" where
  "ntlm2sr_calc_rest endian nonce keys challenge =
     c_bind (mem_get challenge 24 8) (\<lambda>srv.
     let nb = store64 endian nonce
     in c_bind (ntlm_calc_resp keys (md5_of (srv @ nb))) (\<lambda>nt. Ret (nt, nb @ replicate 16 0)))"

section \<open>Password hashes\<close>

definition lm_magic :: "byte list" where
  "lm_magic = [0x4B, 0x47, 0x53, 0x21, 0x40, 0x23, 0x24, 0x25]"

definition lm_pass :: "string \<Rightarrow> byte list" where
  "lm_pass password =
     (let s = uppercase (take (min 14 (length password)) password)
      in bytes_of s @ replicate (14 - length s) 0)"

definition ntlm_hash_lm_password :: "string \<Rightarrow> byte list" where
  "ntlm_hash_lm_password password =
     ntlm_encrypt (slice (lm_pass password) 0 7) lm_magic
     @ ntlm_encrypt (slice (lm_pass password) 7 7) lm_magic @ replicate 5 0"

definition ntlm_hash_nt_password :: "string \<Rightarrow> byte list" where
  "ntlm_hash_nt_password password = md4_of (the (fst (unicode (Some password)))) @ replicate 5 0"

definition ntlm2_hash_password :: "string \<Rightarrow> string \<Rightarrow> string \<Rightarrow> byte list" where
  "ntlm2_hash_password username domain password =
     hmac_of (slice (ntlm_hash_nt_password password) 0 16)
       (the (fst (unicode (Some (uppercase (username @ domain))))))"

section \<open>The request\<close>

text \<open>The flags, or none when the credentials ask for no method.\<close>

definition ntlm_request_flags :: "auth_s \<Rightarrow> u32 option" where
  "ntlm_request_flags creds =
     (if auth_flags creds = 0 then
        (if hashntlm2 creds \<noteq> 0 then Some 0xa208b205
         else if hashnt creds = 2 then Some 0xa208b207
         else if hashnt creds \<noteq> 0 \<and> hashlm creds \<noteq> 0 then Some 0xb207
         else if hashnt creds \<noteq> 0 then Some 0xb205
         else if hashlm creds \<noteq> 0 then Some 0xb206
         else None)
      else Some (auth_flags creds))"

definition ntlmssp :: "byte list" where "ntlmssp = bytes_of ''NTLMSSP'' @ [0]"

definition put16 :: "nat \<Rightarrow> nat \<Rightarrow> nat \<times> byte list" where "put16 off v = (off, le16 (of_nat v))"
definition put32 :: "nat \<Rightarrow> nat \<Rightarrow> nat \<times> byte list" where "put32 off v = (off, le32 (of_nat v))"

text \<open>The message and its length; no message when the length is 0.\<close>

definition ntlm_request :: "auth_s \<Rightarrow> (byte list option \<times> nat) c_result" where
  "ntlm_request creds =
     c_bind (read_cstr (auth_domain creds)) (\<lambda>domain.
     c_bind (read_cstr (auth_workstation creds)) (\<lambda>wks.
     let dlen = length domain; hlen = length wks
     in case ntlm_request_flags creds of
          None \<Rightarrow> Ret (None, 0)
        | Some flags \<Rightarrow>
            c_bind (mem_puts (replicate NTLM_BUFSIZE 0)
              [(0, ntlmssp), put32 8 1, (12, le32 flags),
               put16 16 dlen, put16 18 dlen, put32 20 (32 + hlen),
               put16 24 hlen, put16 26 hlen, put32 28 32,
               (32, bytes_of (uppercase wks)), (32 + hlen, bytes_of (uppercase domain))])
              (\<lambda>buf. Ret (Some buf, 32 + dlen + hlen))))"

section \<open>The target information of a challenge\<close>

text \<open>
  The loop over the attribute pairs.  \<open>tpos\<close> and \<open>tblen\<close> are 16 bits wide and wrap; with a
  challenge of more than 65535 bytes the position may stop advancing, and the loop then never
  ends (\<open>None\<close>).  The result is the last type read and the length of the pairs.
\<close>

partial_function (option) av_loop ::
  "byte list \<Rightarrow> int \<Rightarrow> u16 \<Rightarrow> u16 \<Rightarrow> u16 \<Rightarrow> (u16 \<times> u16) c_result option" where
  "av_loop chal challen tpos ttype tblen =
     (if int (unat tpos) + 4 \<le> challen then
        (case mem_get16 chal (unat tpos) of
           UB \<Rightarrow> Some UB
         | Ret ttype' \<Rightarrow>
             if ttype' = 0 then Some (Ret (ttype', tblen))
             else (case mem_get16 chal (unat tpos + 2) of
                     UB \<Rightarrow> Some UB
                   | Ret tlen \<Rightarrow>
                       if int (unat tpos) + 4 + int (unat tlen) > challen then Some (Ret (ttype', tblen))
                       else av_loop chal challen (tpos + (4 + tlen)) ttype' (tblen + (4 + tlen))))
      else Some (Ret (ttype, tblen)))"

text \<open>Offset and length of the target information; both 0 for a short challenge.\<close>

definition av_scan :: "byte list \<Rightarrow> int \<Rightarrow> (u16 \<times> u16) c_result option" where
  "av_scan chal challen =
     (if challen > 48 then
        (case mem_get16 chal 44 of
           UB \<Rightarrow> Some UB
         | Ret tbofs \<Rightarrow>
             (case av_loop chal challen tbofs (-1) 0 of
                None \<Rightarrow> None
              | Some UB \<Rightarrow> Some UB
              | Some (Ret (ttype, tblen)) \<Rightarrow>
                  Some (Ret (tbofs, if tblen \<noteq> 0 \<and> ttype = 0 then tblen + 4 else tblen))))
      else Some (Ret (0, 0)))"

section \<open>The response\<close>

text \<open>The hashes (for the NT and the LM field), method by method; a later one replaces an earlier one.\<close>

definition ntlm_hashes ::
  "nat \<Rightarrow> u64 \<Rightarrow> u64 \<Rightarrow> byte list \<Rightarrow> auth_s \<Rightarrow> nat \<Rightarrow> nat \<Rightarrow> (byte list \<times> byte list) c_result" where
  "ntlm_hashes endian nonce now chal creds tbofs tblen =
     c_bind (if hashntlm2 creds \<noteq> 0
             then ntlm2_calc_resp endian nonce now (passntlm2 creds) chal tbofs tblen
             else Ret ([], [])) (\<lambda>h1.
     c_bind (if hashnt creds = 2 then ntlm2sr_calc_rest endian nonce (passnt creds) chal else Ret h1) (\<lambda>h2.
     c_bind (if hashnt creds = 1
             then c_bind (mem_get chal 24 8) (\<lambda>srv. c_bind (ntlm_calc_resp (passnt creds) srv)
                    (\<lambda>nt. Ret (nt, snd h2)))
             else Ret h2) (\<lambda>h3.
     if hashlm creds \<noteq> 0
     then c_bind (mem_get chal 24 8) (\<lambda>srv. c_bind (ntlm_calc_resp (passlm creds) srv)
            (\<lambda>lm. Ret (fst h3, lm)))
     else Ret h3)))"

text \<open>The three names as they go into the message.\<close>

definition ntlm_names :: "auth_s \<Rightarrow> (byte list \<times> byte list \<times> byte list) c_result" where
  "ntlm_names creds =
     c_bind (read_cstr (auth_domain creds)) (\<lambda>domain.
     c_bind (read_cstr (auth_user creds)) (\<lambda>user.
     c_bind (read_cstr (auth_workstation creds)) (\<lambda>wks.
     let uni = (\<lambda>s. the (fst (unicode (Some s))))
     in Ret (if hashnt creds \<noteq> 0 \<or> hashntlm2 creds \<noteq> 0
             then (uni (uppercase domain), uni user, uni (uppercase wks))
             else (bytes_of (uppercase domain), bytes_of (uppercase user), bytes_of (uppercase wks))))))"

definition response_fields ::
  "byte list \<Rightarrow> byte list \<times> byte list \<times> byte list \<Rightarrow> byte list \<times> byte list \<Rightarrow> (nat \<times> byte list) list" where
  "response_fields flags names hashes =
     (case (names, hashes) of ((udomain, uuser, uhost), (nthash, lmhash)) \<Rightarrow>
       let dlen = length udomain; ulen = length uuser; hlen = length uhost;
           ntlen = length nthash; lmlen = length lmhash
       in [(0, ntlmssp), put32 8 3,
           put16 12 lmlen, put16 14 lmlen, put32 16 (64 + dlen + ulen + hlen),
           put16 20 ntlen, put16 22 ntlen, put32 24 (64 + dlen + ulen + hlen + lmlen),
           put16 28 dlen, put16 30 dlen, put32 32 64,
           put16 36 ulen, put16 38 ulen, put32 40 (64 + dlen),
           put16 44 hlen, put16 46 hlen, put32 48 (64 + dlen + ulen),
           put16 52 0, put16 54 0, put16 56 (64 + dlen + ulen + hlen + lmlen + ntlen),
           (60, flags),
           (64, udomain), (64 + dlen, uuser), (64 + dlen + ulen, uhost),
           (64 + dlen + ulen + hlen, lmhash),
           (64 + dlen + ulen + hlen + 24, nthash)])"

text \<open>\<open>None\<close> when the function does not return.\<close>

definition ntlm_response ::
  "nat \<Rightarrow> u64 \<Rightarrow> u64 \<Rightarrow> byte list \<Rightarrow> int \<Rightarrow> auth_s \<Rightarrow> (byte list option \<times> nat) c_result option" where
  "ntlm_response endian nonce now chal challen creds =
     (case av_scan chal challen of
        None \<Rightarrow> None
      | Some r \<Rightarrow> Some (c_bind r (\<lambda>(tbofs, tblen).
          if hashntlm2 creds \<noteq> 0 \<and> tblen = 0 then Ret (None, 0)
          else
            c_bind (ntlm_hashes endian nonce now chal creds (unat tbofs) (unat tblen)) (\<lambda>hashes.
            c_bind (ntlm_names creds) (\<lambda>names.
            c_bind (mem_get chal 20 4) (\<lambda>flags.
            c_bind (mem_puts (replicate NTLM_BUFSIZE 0) (response_fields flags names hashes)) (\<lambda>buf.
              (case (names, hashes) of ((d, u, h), (nt, lm)) \<Rightarrow>
                 Ret (Some buf, 64 + length d + length u + length h + length lm + length nt)))))))))"

section \<open>Lemmas on memory\<close>

lemma slice_append [simp]:
  "slice (a @ b) (length a) n = take n b" "length b = n \<Longrightarrow> slice (a @ b @ c) (length a) n = b"
  by (simp_all add: slice_def)

lemma length_slice: "off + n \<le> length m \<Longrightarrow> length (slice m off n) = n"
  by (simp add: slice_def)

text \<open>Where the writes of a list are in bounds, the result keeps the size of the object.\<close>

definition puts_ok :: "nat \<Rightarrow> (nat \<times> byte list) list \<Rightarrow> bool" where
  "puts_ok n ps = list_all (\<lambda>(off, d). d = [] \<or> off + length d \<le> n) ps"

lemma mem_puts_defined: "(\<exists>m'. mem_puts m ps = Ret m') \<longleftrightarrow> puts_ok (length m) ps"
  by (induction m ps rule: mem_puts.induct) (auto simp: puts_ok_def)

lemma length_mem_puts: "mem_puts m ps = Ret m' \<Longrightarrow> length m' = length m"
  by (induction m ps rule: mem_puts.induct) (auto split: if_splits)

text \<open>A write leaves the bytes outside it alone.\<close>

definition apart :: "nat \<Rightarrow> nat \<Rightarrow> nat \<times> byte list \<Rightarrow> bool" where
  "apart off n p \<longleftrightarrow> (case p of (o', d) \<Rightarrow> d = [] \<or> off + n \<le> o' \<or> o' + length d \<le> off)"

lemma mem_puts_apart:
  "mem_puts m ps = Ret m' \<Longrightarrow> list_all (apart off n) ps \<Longrightarrow> slice m' off n = slice m off n"
proof (induction m ps rule: mem_puts.induct)
  case (2 m o' d ps)
  show ?case
  proof (cases "d = []")
    case False
    with 2 have le: "o' + length d \<le> length m"
      and e: "mem_puts (take o' m @ d @ drop (o' + length d) m) ps = Ret m'"
      by (auto split: if_splits)
    have "slice (take o' m @ d @ drop (o' + length d) m) off n = slice m off n"
    proof (cases "off + n \<le> o'")
      case True
      then show ?thesis using le by (simp add: slice_def min_def take_drop)
    next
      case False
      then have "o' + length d \<le> off" using 2(4) \<open>d \<noteq> []\<close> by (auto simp: apart_def)
      then show ?thesis using le by (simp add: slice_def)
    qed
    then show ?thesis using 2(2) [OF False le e] 2(4) by simp
  qed (use 2 in auto)
qed simp

lemma mem_puts_append:
  "mem_puts m (ps @ qs) = c_bind (mem_puts m ps) (\<lambda>m'. mem_puts m' qs)"
  by (induction m ps rule: mem_puts.induct) auto

text \<open>What is written and not overwritten is there.\<close>

lemma mem_puts_read:
  assumes "mem_puts m (ps @ (off, d) # qs) = Ret m'" "list_all (apart off (length d)) qs"
  shows "slice m' off (length d) = d"
proof (cases "d = []")
  case False
  from assms(1) obtain m1 where m1: "mem_puts m ps = Ret m1" "mem_puts m1 ((off, d) # qs) = Ret m'"
    by (auto simp: mem_puts_append c_bind_Ret_iff)
  with False have "off + length d \<le> length m1"
    "mem_puts (take off m1 @ d @ drop (off + length d) m1) qs = Ret m'" by (auto split: if_splits)
  with mem_puts_apart [OF this(2) assms(2)] show ?thesis by (simp add: slice_def)
qed (simp add: slice_def)

text \<open>The same, looking the write up by its index.\<close>

fun reads_back :: "(nat \<times> byte list) list \<Rightarrow> bool" where
  "reads_back [] = True"
| "reads_back ((off, d) # qs) = (list_all (apart off (length d)) qs \<and> reads_back qs)"

lemma mem_puts_all:
  "mem_puts m ps = Ret m' \<Longrightarrow> reads_back ps \<Longrightarrow> list_all (\<lambda>(off, d). slice m' off (length d) = d) ps"
proof -
  assume m: "mem_puts m ps = Ret m'" and r: "reads_back ps"
  have "list_all (\<lambda>(off, d). slice m' off (length d) = d) qs"
    if "ps = rs @ qs" "reads_back qs" for qs rs
    using that
  proof (induction qs arbitrary: rs)
    case (Cons p qs)
    obtain off d where p: "p = (off, d)" by fastforce
    have "slice m' off (length d) = d"
      using mem_puts_read [of m rs off d qs m'] m Cons.prems p by simp
    with Cons.IH [of "rs @ [p]"] Cons.prems p show ?case by simp
  qed simp
  from this [of "[]" ps] r show ?thesis by simp
qed

section \<open>Digests\<close>

lemma md4_of_eq: "length d < 2 ^ 32 \<Longrightarrow> md4_of d = md_digest md4_compress d"
  unfolding md4_of_def md4_buffer_def by (rule md4.buffer_digest [OF length_blank_ctx])

lemma md5_of_eq: "length d < 2 ^ 32 \<Longrightarrow> md5_of d = md_digest md5_compress d"
  unfolding md5_of_def md5_buffer_def by (rule md5.buffer_digest [OF length_blank_ctx])

lemma hmac_of_eq: "length k < 2 ^ 32 \<Longrightarrow> length d < 2 ^ 32 \<Longrightarrow> hmac_of k d = rfc_hmac_md5 k d"
  unfolding hmac_of_def by (rule hmac_md5_eq [OF length_blank_ctx])

lemma length_rfc_hmac [simp]: "length (rfc_hmac_md5 k d) = 16"
  by (simp add: rfc_hmac_md5_def)

section \<open>Reading fields\<close>

text \<open>How the receiver finds a field: length, and offset of its bytes.\<close>

definition ntlm_field :: "byte list \<Rightarrow> nat \<Rightarrow> byte list" where
  "ntlm_field m off = slice m (unat (get_le32 m (off + 4))) (unat (get_le16 m off))"

lemma slice_split: "slice m off n = d \<Longrightarrow> length d = n \<Longrightarrow> n \<noteq> 0 \<Longrightarrow>
  \<exists>a b. m = a @ d @ b \<and> length a = off"
proof (intro exI conjI)
  assume s: "slice m off n = d" "length d = n" "n \<noteq> 0"
  then have "off \<le> length m" by (cases "off \<le> length m") (auto simp: slice_def)
  then show "length (take off m) = off" by simp
  show "m = take off m @ d @ drop (off + n) m"
    using s by (metis append_take_drop_id drop_drop slice_def add.commute)
qed

lemma get_le16_slice: "slice m off 2 = le16 x \<Longrightarrow> get_le16 m off = x"
  using slice_split [of m off 2 "le16 x"] get_le16_le16 by fastforce

lemma get_le32_slice: "slice m off 4 = le32 x \<Longrightarrow> get_le32 m off = x"
  using slice_split [of m off 4 "le32 x"] get_le32_le32 by fastforce

lemma ntlm_field_slice:
  assumes "slice m off 2 = le16 (of_nat n)" "slice m (off + 4) 4 = le32 (of_nat o')"
    "n < 2 ^ 16" "o' < 2 ^ 32" "slice m o' n = d"
  shows "ntlm_field m off = d"
  using assms get_le16_slice [OF assms(1)] get_le32_slice [OF assms(2)]
  by (simp add: ntlm_field_def unsigned_of_nat take_bit_nat_eq_self)

section \<open>The type 1 message\<close>

lemma auth_wf_lengths:
  assumes "auth_wf a"
  shows "length (cstr_of (auth_user a)) \<le> 49" "length (cstr_of (auth_domain a)) \<le> 49"
    "length (cstr_of (auth_workstation a)) \<le> 49"
    "read_cstr (auth_user a) = Ret (cstr_of (auth_user a))"
    "read_cstr (auth_domain a) = Ret (cstr_of (auth_domain a))"
    "read_cstr (auth_workstation a) = Ret (cstr_of (auth_workstation a))"
  using assms length_cstr_less [of "auth_user a"] length_cstr_less [of "auth_domain a"]
    length_cstr_less [of "auth_workstation a"]
  by (auto simp: auth_wf_def str_wf_def read_cstr_def)

lemma length_ntlmssp [simp]: "length ntlmssp = 8"
  by (simp add: ntlmssp_def bytes_of_def)

lemma le_nonempty [simp]: "le16 x \<noteq> []" "le32 y \<noteq> []" "ntlmssp \<noteq> []"
  by (simp_all add: le16_def le32_def ntlmssp_def)

lemma request_puts:
  fixes d h :: "byte list"
  assumes "length d \<le> 49" "length h \<le> 49"
    and ps: "ps = [(0, ntlmssp), put32 8 1, (12, le32 flags),
       put16 16 (length d), put16 18 (length d), put32 20 (32 + length h),
       put16 24 (length h), put16 26 (length h), put32 28 32, (32, h), (32 + length h, d)]"
  shows "puts_ok 1024 ps" "reads_back ps"
  using assms by (auto simp: puts_ok_def put16_def put32_def apart_def)

lemma ntlm_request_message:
  assumes "auth_wf creds" "ntlm_request_flags creds = Some flags"
  shows "\<exists>buf. ntlm_request creds = Ret (Some buf,
      32 + length (cstr_of (auth_domain creds)) + length (cstr_of (auth_workstation creds)))
    \<and> length buf = 1024 \<and> slice buf 0 8 = ntlmssp \<and> get_le32 buf 8 = 1 \<and> get_le32 buf 12 = flags
    \<and> ntlm_field buf 16 = bytes_of (uppercase (cstr_of (auth_domain creds)))
    \<and> ntlm_field buf 24 = bytes_of (uppercase (cstr_of (auth_workstation creds)))"
proof -
  let ?d = "bytes_of (uppercase (cstr_of (auth_domain creds)))"
  let ?h = "bytes_of (uppercase (cstr_of (auth_workstation creds)))"
  note l = auth_wf_lengths [OF assms(1)]
  define ps where "ps = [(0, ntlmssp), put32 8 1, (12, le32 flags),
       put16 16 (length ?d), put16 18 (length ?d), put32 20 (32 + length ?h),
       put16 24 (length ?h), put16 26 (length ?h), put32 28 32, (32, ?h), (32 + length ?h, ?d)]"
  have len: "length ?d \<le> 49" "length ?h \<le> 49" using l by simp_all
  note ok = request_puts [OF len ps_def]
  obtain buf where buf: "mem_puts (replicate 1024 0) ps = Ret buf"
    using ok(1) mem_puts_defined [of "replicate 1024 0" ps] by auto
  have req: "ntlm_request creds = Ret (Some buf, 32 + length ?d + length ?h)"
    using l assms(2) buf by (simp add: ntlm_request_def ps_def Let_def)
  have s: "slice buf 0 8 = ntlmssp" "slice buf 8 4 = le32 (of_nat 1)" "slice buf 12 4 = le32 flags"
    "slice buf 16 2 = le16 (of_nat (length ?d))" "slice buf 20 4 = le32 (of_nat (32 + length ?h))"
    "slice buf 24 2 = le16 (of_nat (length ?h))" "slice buf 28 4 = le32 (of_nat 32)"
    "slice buf 32 (length ?h) = ?h" "slice buf (32 + length ?h) (length ?d) = ?d"
    using mem_puts_all [OF buf ok(2)] unfolding ps_def by (simp_all add: put16_def put32_def)
  have "ntlm_field buf 16 = ?d"
    by (rule ntlm_field_slice [OF s(4) _ _ _ s(9)]) (use s(5) len in simp_all)
  moreover have "ntlm_field buf 24 = ?h"
    by (rule ntlm_field_slice [OF s(6) _ _ _ s(8)]) (use s(7) len in simp_all)
  ultimately show ?thesis
    using req s get_le32_slice [OF s(2)] get_le32_slice [OF s(3)] length_mem_puts [OF buf] by simp
qed

section \<open>The type 3 message\<close>

lemma response_puts:
  assumes "length flags = 4"
  shows "puts_ok 1024 (response_fields flags (d, u, h) (nt, lm)) \<longleftrightarrow>
      64 + length d + length u + length h + length lm \<le> 1024
      \<and> (nt = [] \<or> 64 + length d + length u + length h + 24 + length nt \<le> 1024)"
    "length lm \<le> 24 \<Longrightarrow> reads_back (response_fields flags (d, u, h) (nt, lm))"
  using assms by (auto simp: response_fields_def Let_def puts_ok_def put16_def put32_def apart_def)

lemma response_decode:
  assumes "length flags = 4" "length lm \<le> 24"
    and fits: "64 + length d + length u + length h + 24 + length nt \<le> 1024"
    and buf: "mem_puts (replicate 1024 0) (response_fields flags (d, u, h) (nt, lm)) = Ret buf"
  shows "get_le32 buf 8 = 3" "slice buf 60 4 = flags" "ntlm_field buf 28 = d" "ntlm_field buf 36 = u"
    "ntlm_field buf 44 = h" "ntlm_field buf 12 = lm" "length lm = 24 \<Longrightarrow> ntlm_field buf 20 = nt"
proof -
  have s: "slice buf 8 4 = le32 (of_nat 3)" "slice buf 12 2 = le16 (of_nat (length lm))"
    "slice buf 16 4 = le32 (of_nat (64 + length d + length u + length h))"
    "slice buf 20 2 = le16 (of_nat (length nt))"
    "slice buf 24 4 = le32 (of_nat (64 + length d + length u + length h + length lm))"
    "slice buf 28 2 = le16 (of_nat (length d))" "slice buf 32 4 = le32 (of_nat 64)"
    "slice buf 36 2 = le16 (of_nat (length u))" "slice buf 40 4 = le32 (of_nat (64 + length d))"
    "slice buf 44 2 = le16 (of_nat (length h))" "slice buf 48 4 = le32 (of_nat (64 + length d + length u))"
    "slice buf 60 4 = flags" "slice buf 64 (length d) = d" "slice buf (64 + length d) (length u) = u"
    "slice buf (64 + length d + length u) (length h) = h"
    "slice buf (64 + length d + length u + length h) (length lm) = lm"
    "slice buf (64 + length d + length u + length h + 24) (length nt) = nt"
    using mem_puts_all [OF buf response_puts(2) [OF assms(1,2)]] assms(1)
    unfolding response_fields_def Let_def by (simp_all add: put16_def put32_def)
  show "get_le32 buf 8 = 3" using get_le32_slice [OF s(1)] by simp
  show "slice buf 60 4 = flags" by (rule s)
  show "ntlm_field buf 28 = d" by (rule ntlm_field_slice [OF s(6) _ _ _ s(13)]) (use s(7) fits in simp_all)
  show "ntlm_field buf 36 = u" by (rule ntlm_field_slice [OF s(8) _ _ _ s(14)]) (use s(9) fits in simp_all)
  show "ntlm_field buf 44 = h" by (rule ntlm_field_slice [OF s(10) _ _ _ s(15)]) (use s(11) fits in simp_all)
  show "ntlm_field buf 12 = lm" by (rule ntlm_field_slice [OF s(2) _ _ _ s(16)]) (use s(3) fits assms(2) in simp_all)
  show "ntlm_field buf 20 = nt" if "length lm = 24"
    by (rule ntlm_field_slice [OF s(4) _ _ _ s(17)]) (use s(5) fits that in simp_all)
qed

text \<open>A response with no LM part: the NT field points at bytes that were never written.\<close>

lemma response_nt_misplaced:
  assumes "length flags = 4" "length nt = 24"
    and fits: "64 + length d + length u + length h + 24 + length nt \<le> 1024"
    and buf: "mem_puts (replicate 1024 0) (response_fields flags (d, u, h) (nt, [])) = Ret buf"
  shows "ntlm_field buf 20 = replicate 24 0"
proof -
  let ?o = "64 + length d + length u + length h"
  have s: "slice buf 20 2 = le16 (of_nat (length nt))" "slice buf 24 4 = le32 (of_nat ?o)"
    using mem_puts_all [OF buf response_puts(2) [OF assms(1)]] assms(1)
    unfolding response_fields_def Let_def by (simp_all add: put16_def put32_def)
  have "slice buf ?o 24 = slice (replicate 1024 0) ?o 24"
    by (rule mem_puts_apart [OF buf]) (use assms in \<open>auto simp: response_fields_def Let_def put16_def put32_def apart_def\<close>)
  also have "\<dots> = replicate 24 0" using fits assms(2) by (simp add: slice_def)
  finally have "slice buf ?o (length nt) = replicate 24 0" using assms(2) by simp
  from ntlm_field_slice [OF s(1) _ _ _ this] show ?thesis using s(2) fits assms(2) by simp
qed

section \<open>The target information\<close>

definition av_pair :: "u16 \<times> byte list \<Rightarrow> byte list" where
  "av_pair p = le16 (fst p) @ le16 (of_nat (length (snd p))) @ snd p"

definition av_pairs :: "(u16 \<times> byte list) list \<Rightarrow> byte list" where
  "av_pairs ps = concat (map av_pair ps)"

definition av_encode :: "(u16 \<times> byte list) list \<Rightarrow> byte list" where
  "av_encode ps = av_pairs ps @ le16 0 @ le16 0"

lemma mem_get16_le16: "off = length a \<Longrightarrow> mem_get16 (a @ le16 x @ b) off = Ret x"
  using get_le16_le16 [of a x b] by (simp add: mem_get16_def)

lemma of_nat_u16: "n < 65536 \<Longrightarrow> unat (of_nat n :: u16) = n"
  by (simp add: unsigned_of_nat take_bit_nat_eq_self)

lemma av_loop_pairs:
  assumes "\<forall>p \<in> set ps. fst p \<noteq> 0 \<and> length (snd p) < 65536"
    and "length pre + length (av_encode ps) < 65536"
    and "int (length pre + length (av_encode ps)) \<le> challen"
  shows "av_loop (pre @ av_encode ps @ post) challen (of_nat (length pre)) tt tb =
    Some (Ret (0, tb + of_nat (length (av_pairs ps))))"
  using assms
proof (induction ps arbitrary: pre tt tb)
  case Nil
  then have "unat (of_nat (length pre) :: u16) = length pre" by (simp add: av_encode_def of_nat_u16)
  moreover have "mem_get16 (pre @ av_encode [] @ post) (length pre) = Ret 0"
    using mem_get16_le16 [of "length pre" pre 0 "le16 0 @ post"] by (simp add: av_encode_def av_pairs_def)
  ultimately show ?case using Nil
    by (subst av_loop.simps) (simp add: av_encode_def av_pairs_def)
next
  case (Cons p ps)
  obtain t v where p: "p = (t, v)" by fastforce
  have t: "t \<noteq> 0" and v: "length v < 65536" using Cons.prems(1) p by auto
  let ?pre = "pre @ le16 t @ le16 (of_nat (length v)) @ v"
  let ?chal = "pre @ av_encode (p # ps) @ post"
  have chal: "?chal = ?pre @ av_encode ps @ post"
    by (simp add: av_encode_def av_pairs_def av_pair_def p)
  have len: "length pre + length (av_encode (p # ps)) = length ?pre + length (av_encode ps)"
    by (simp add: av_encode_def av_pairs_def av_pair_def p)
  have u: "unat (of_nat (length pre) :: u16) = length pre" "unat (of_nat (length v) :: u16) = length v"
    using Cons.prems(2) v by (simp_all add: of_nat_u16)
  have g: "mem_get16 ?chal (length pre) = Ret t" "mem_get16 ?chal (length pre + 2) = Ret (of_nat (length v))"
    using mem_get16_le16 [of "length pre" pre t "le16 (of_nat (length v)) @ v @ av_encode ps @ post"]
      mem_get16_le16 [of "length pre + 2" "pre @ le16 t" "of_nat (length v)" "v @ av_encode ps @ post"]
    unfolding chal by simp_all
  have fits: "int (length pre) + 4 + int (length v) \<le> challen"
    using Cons.prems(3) len by (simp add: av_encode_def)
  have pos: "(of_nat (length pre) :: u16) + (4 + of_nat (length v)) = of_nat (length ?pre)" by simp
  have "av_loop ?chal challen (of_nat (length pre)) tt tb =
      av_loop ?chal challen (of_nat (length ?pre)) t (tb + (4 + of_nat (length v)))"
    using fits t g u by (subst av_loop.simps) (simp only: u c_result.case option.case pos, simp)
  also have "\<dots> = Some (Ret (0, tb + (4 + of_nat (length v)) + of_nat (length (av_pairs ps))))"
    unfolding chal using Cons.prems len by (intro Cons.IH) auto
  also have "tb + (4 + of_nat (length v)) + of_nat (length (av_pairs ps)) = tb + of_nat (length (av_pairs (p # ps)))"
    by (simp add: av_pairs_def av_pair_def p)
  finally show ?case .
qed

lemma av_loop_terminates:
  assumes "challen < 65536"
  shows "\<exists>r. av_loop chal challen tpos ttype tblen = Some r"
proof (induction "65536 - unat tpos" arbitrary: tpos ttype tblen rule: less_induct)
  case less
  show ?case
  proof (cases "int (unat tpos) + 4 \<le> challen")
    case False
    then show ?thesis by (subst av_loop.simps) simp
  next
    case T: True
    show ?thesis
    proof (cases "mem_get16 chal (unat tpos)")
      case UB
      then show ?thesis using T by (subst av_loop.simps) simp
    next
      case (Ret t)
      show ?thesis
      proof (cases "mem_get16 chal (unat tpos + 2)")
        case UB
        then show ?thesis using T Ret by (subst av_loop.simps) simp
      next
        case R2: (Ret l)
        show ?thesis
        proof (cases "t = 0 \<or> int (unat tpos) + 4 + int (unat l) > challen")
          case True
          then show ?thesis using T Ret R2 by (subst av_loop.simps) auto
        next
          case False
          then have le: "unat tpos + (4 + unat l) < 65536" using assms by linarith
          then have "unat (tpos + (4 + l)) = unat tpos + (4 + unat l)"
            by (simp add: unat_word_ariths)
          then have "65536 - unat (tpos + (4 + l)) < 65536 - unat tpos" using le by linarith
          from less [OF this, of t "tblen + (4 + l)"] show ?thesis
            using T Ret R2 False by (subst av_loop.simps) auto
        qed
      qed
    qed
  qed
qed

text \<open>A pair of length 65532 leaves the 16-bit position where it is.\<close>

lemma av_loop_diverges:
  assumes g: "mem_get16 chal (unat p) = Ret t" "t \<noteq> 0" "mem_get16 chal (unat p + 2) = Ret 65532"
    and l: "int (unat p) + 65536 \<le> challen"
  shows "av_loop chal challen p tt tb = None"
proof (rule ccontr)
  assume "av_loop chal challen p tt tb \<noteq> None"
  then obtain y where y: "av_loop chal challen p tt tb = Some y" by auto
  have "(chal, challen, p) \<noteq> (chal, challen, p)"
  proof (rule av_loop.raw_induct [where P = "\<lambda>c n q a b y. (c, n, q) \<noteq> (chal, challen, p)", OF _ y])
    fix f c n q a b y
    assume IH: "\<And>c n q a b y. f c n q a b = Some y \<Longrightarrow> (c, n, q) \<noteq> (chal, challen, p)"
      and body: "(if int (unat q) + 4 \<le> n
      then case mem_get16 c (unat q) of UB \<Rightarrow> Some UB
           | Ret ttype' \<Rightarrow>
               if ttype' = 0 then Some (Ret (ttype', b))
               else case mem_get16 c (unat q + 2) of UB \<Rightarrow> Some UB
                    | Ret tlen \<Rightarrow>
                        if n < int (unat q) + 4 + int (unat tlen)
                        then Some (Ret (ttype', b))
                        else f c n (q + (4 + tlen)) ttype' (b + (4 + tlen))
      else Some (Ret (a, b))) = Some y"
    show "(c, n, q) \<noteq> (chal, challen, p)"
    proof
      assume eq: "(c, n, q) = (chal, challen, p)"
      have wrap: "x + 65536 = x" for x :: u16 by simp
      have "f chal challen p t b = Some y" using body eq g l by (simp add: wrap)
      from IH [OF this] show False by simp
    qed
  qed
  then show False by simp
qed

section \<open>Responses\<close>

lemma unat_u16_less: "unat (x :: u16) < 65536"
  using unsigned_less [of x, where ?'a = nat] by simp

lemma length_store64 [simp]: "length (store64 e x) = 8"
  by (simp add: store64_def)

lemma length_ntlm2_blob: "length (ntlm2_blob n t target) = 32 + length target"
  by (simp add: ntlm2_blob_def)

text \<open>The three names in UTF-16, and the NTLMv2 responses for a server nonce and target information.\<close>

definition unicode_names :: "auth_s \<Rightarrow> byte list \<times> byte list \<times> byte list" where
  "unicode_names creds =
     (the (fst (unicode (Some (uppercase (cstr_of (auth_domain creds)))))),
      the (fst (unicode (Some (cstr_of (auth_user creds))))),
      the (fst (unicode (Some (uppercase (cstr_of (auth_workstation creds)))))))"

definition ntlmv2_nt :: "byte list \<Rightarrow> byte list \<Rightarrow> byte list \<Rightarrow> byte list" where
  "ntlmv2_nt key srv blob = rfc_hmac_md5 key (srv @ blob) @ blob"

lemma names_unicode:
  "auth_wf creds \<Longrightarrow> hashnt creds \<noteq> 0 \<or> hashntlm2 creds \<noteq> 0 \<Longrightarrow>
   ntlm_names creds = Ret (unicode_names creds)"
  by (simp add: ntlm_names_def auth_wf_lengths unicode_names_def Let_def)

lemma length_unicode_names:
  "auth_wf creds \<Longrightarrow> unicode_names creds = (d, u, h) \<Longrightarrow>
   length d = 2 * length (cstr_of (auth_domain creds)) \<and> length u = 2 * length (cstr_of (auth_user creds))
   \<and> length h = 2 * length (cstr_of (auth_workstation creds))"
  using auth_wf_lengths [of creds] by (auto simp: unicode_names_def) (auto simp: unicode_def Let_def)

lemma ntlmv2_hashes:
  assumes "auth_wf creds" "hashntlm2 creds \<noteq> 0" "hashnt creds = 0" "hashlm creds = 0"
    and "tbofs + tblen \<le> length chal" "32 \<le> length chal" "tblen < 65536"
  shows "ntlm_hashes endian nonce now chal creds tbofs tblen =
    Ret (ntlmv2_nt (slice (passntlm2 creds) 0 16) (slice chal 24 8) (ntlm2_blob nonce now (slice chal tbofs tblen)),
         rfc_hmac_md5 (slice (passntlm2 creds) 0 16) (slice chal 24 8 @ store64 endian nonce) @ store64 endian nonce)"
proof -
  have l: "length (slice (passntlm2 creds) 0 16) = 16" "length (slice chal 24 8) = 8"
    "length (slice chal tbofs tblen) = tblen"
    using assms by (simp_all add: slice_def auth_wf_def)
  have "16 \<le> length (passntlm2 creds)" using assms(1) by (simp add: auth_wf_def)
  with assms l show ?thesis
    by (simp add: ntlm_hashes_def ntlm2_calc_resp_def mem_get_def Let_def hmac_of_eq length_ntlm2_blob ntlmv2_nt_def)
qed

text \<open>What ntlm_response does with the hashes and names once it has them.\<close>

lemma response_from_hashes:
  assumes "av_scan chal challen = Some (Ret (tbofs, tblen))" "\<not> (hashntlm2 creds \<noteq> 0 \<and> tblen = 0)"
    and "ntlm_hashes endian nonce now chal creds (unat tbofs) (unat tblen) = Ret (nt, lm)"
    and "ntlm_names creds = Ret (d, u, h)" "24 \<le> length chal"
  shows "ntlm_response endian nonce now chal challen creds =
    Some (c_bind (mem_puts (replicate NTLM_BUFSIZE 0) (response_fields (slice chal 20 4) (d, u, h) (nt, lm)))
      (\<lambda>buf. Ret (Some buf, 64 + length d + length u + length h + length lm + length nt)))"
  using assms by (auto simp: ntlm_response_def mem_get_def)

lemma response_fits:
  assumes "64 + length d + length u + length h + 24 + length nt \<le> 1024" "length lm \<le> 24" "length flags = 4"
  obtains buf where "mem_puts (replicate NTLM_BUFSIZE 0) (response_fields flags (d, u, h) (nt, lm)) = Ret buf"
proof -
  have "puts_ok 1024 (response_fields flags (d, u, h) (nt, lm))"
    using response_puts(1) [OF assms(3)] assms by auto
  then show ?thesis using that mem_puts_defined [of "replicate 1024 0"] by auto
qed

lemma response_overflow:
  assumes "64 + length d + length u + length h + 24 + length nt > 1024" "nt \<noteq> []" "length flags = 4"
  shows "mem_puts (replicate NTLM_BUFSIZE 0) (response_fields flags (d, u, h) (nt, lm)) = UB"
proof -
  have "\<not> puts_ok 1024 (response_fields flags (d, u, h) (nt, lm))"
    using response_puts(1) [OF assms(3)] assms by auto
  then show ?thesis using mem_puts_defined [of "replicate 1024 0" "response_fields flags (d, u, h) (nt, lm)"]
    by (cases "mem_puts (replicate NTLM_BUFSIZE 0) (response_fields flags (d, u, h) (nt, lm))") auto
qed

lemma av_scan_pairs:
  assumes "\<forall>p \<in> set ps. fst p \<noteq> 0 \<and> length (snd p) < 65536" "ps \<noteq> []"
    and "chal = pre @ av_encode ps @ post" "48 \<le> length pre" "slice chal 44 2 = le16 (of_nat (length pre))"
    and "length pre + length (av_encode ps) < 65536" "length pre + length (av_encode ps) \<le> challen"
  shows "av_scan chal (int challen) = Some (Ret (of_nat (length pre), of_nat (length (av_encode ps))))"
proof -
  have g: "mem_get16 chal 44 = Ret (of_nat (length pre))"
    using get_le16_slice [OF assms(5)] assms(3,4) by (simp add: mem_get16_def)
  have l: "av_loop chal (int challen) (of_nat (length pre)) (-1) 0 =
      Some (Ret (0, of_nat (length (av_pairs ps))))"
    using av_loop_pairs [of ps pre "int challen" post "-1" 0] assms by simp
  have pos: "0 < length (av_pairs ps)" "length (av_pairs ps) < 65536"
    using assms(2,6) by (cases ps; simp add: av_pairs_def av_pair_def av_encode_def)+
  then have nz: "(of_nat (length (av_pairs ps)) :: u16) \<noteq> 0"
    using of_nat_u16 [of "length (av_pairs ps)"] by (metis less_numeral_extra(3) unat_eq_zero)
  have "48 < challen" using assms(4,7) by (simp add: av_encode_def)
  then show ?thesis using g l nz by (simp add: av_scan_def av_encode_def)
qed

lemma length_ntlm_encrypt [simp]: "length (ntlm_encrypt k b) = 8"
  by (simp add: ntlm_encrypt_def gl_des_ecb_crypt_def des_block_def)

lemma ntlm_calc_resp_defined:
  "21 \<le> length keys \<Longrightarrow> 8 \<le> length ch \<Longrightarrow> \<exists>r. ntlm_calc_resp keys ch = Ret r \<and> length r = 24"
  by (simp add: ntlm_calc_resp_def mem_get_def)

lemma length_lm_pass [simp]: "length (lm_pass p) = 14"
  by (simp add: lm_pass_def Let_def)

lemma uppercase_idem [simp]: "uppercase (uppercase s) = uppercase s"
  by (simp add: uppercase_def)

lemma uppercase_take: "uppercase (take n s) = take n (uppercase s)"
  by (simp add: uppercase_def take_map)

lemma lm_pass_take: "slice (lm_pass (take 7 p)) 0 7 = slice (lm_pass p) 0 7"
proof (cases "7 \<le> length p")
  case True
  then show ?thesis
    by (simp add: lm_pass_def slice_def Let_def uppercase_take bytes_of_def take_map min_def)
next
  case False
  then show ?thesis by simp
qed

lemma ntlm_response_v2:
  assumes "auth_wf creds" "hashntlm2 creds \<noteq> 0" "hashnt creds = 0" "hashlm creds = 0"
    and "av_scan chal challen = Some (Ret (tbofs, tblen))" "tblen \<noteq> 0"
    and "unat tbofs + unat tblen \<le> length chal" "32 \<le> length chal"
    and "64 + 2 * (length (cstr_of (auth_domain creds)) + length (cstr_of (auth_user creds))
       + length (cstr_of (auth_workstation creds))) + 72 + unat tblen \<le> 1024"
  shows "\<exists>buf n. ntlm_response endian nonce now chal challen creds = Some (Ret (Some buf, n))
    \<and> 0 < n \<and> n \<le> 1024 \<and> length buf = 1024 \<and> get_le32 buf 8 = 3 \<and> slice buf 60 4 = slice chal 20 4
    \<and> (ntlm_field buf 28, ntlm_field buf 36, ntlm_field buf 44) = unicode_names creds
    \<and> ntlm_field buf 20 = ntlmv2_nt (slice (passntlm2 creds) 0 16) (slice chal 24 8)
        (ntlm2_blob nonce now (slice chal (unat tbofs) (unat tblen)))
    \<and> ntlm_field buf 12 = rfc_hmac_md5 (slice (passntlm2 creds) 0 16) (slice chal 24 8 @ store64 endian nonce)
        @ store64 endian nonce"
proof -
  obtain d u h where names: "unicode_names creds = (d, u, h)" by (cases "unicode_names creds")
  note len = length_unicode_names [OF assms(1) names]
  define nt where "nt = ntlmv2_nt (slice (passntlm2 creds) 0 16) (slice chal 24 8)
        (ntlm2_blob nonce now (slice chal (unat tbofs) (unat tblen)))"
  define lm where "lm = rfc_hmac_md5 (slice (passntlm2 creds) 0 16) (slice chal 24 8 @ store64 endian nonce)
        @ store64 endian nonce"
  have h: "ntlm_hashes endian nonce now chal creds (unat tbofs) (unat tblen) = Ret (nt, lm)"
    unfolding nt_def lm_def using assms by (intro ntlmv2_hashes) (auto simp: unat_u16_less)
  have l: "length nt = 48 + unat tblen" "length lm = 24" "length (slice chal 20 4) = 4"
    using assms(7,8) by (simp_all add: nt_def lm_def ntlmv2_nt_def length_ntlm2_blob length_slice)
  have fits: "64 + length d + length u + length h + 24 + length nt \<le> 1024"
    using assms(9) len l by simp
  obtain buf where buf: "mem_puts (replicate NTLM_BUFSIZE 0) (response_fields (slice chal 20 4) (d, u, h) (nt, lm)) = Ret buf"
    using response_fits [OF fits _ l(3), of lm] l(2) by auto
  have n: "ntlm_names creds = Ret (d, u, h)" using names_unicode [of creds] assms(1,2) names by simp
  have "ntlm_response endian nonce now chal challen creds =
      Some (Ret (Some buf, 64 + length d + length u + length h + length lm + length nt))"
    using response_from_hashes [OF assms(5) _ h n] assms(6,8) buf by simp
  moreover note response_decode [OF l(3) _ fits buf] l
  moreover have "length buf = 1024" using length_mem_puts [OF buf] by simp
  ultimately show ?thesis unfolding names nt_def [symmetric] lm_def [symmetric]
    using fits by auto
qed

section \<open>Properties\<close>

text \<open>
  The type 1 message.  For well-formed credentials that select a method, ntlm_request builds a
  message inside its buffer with the signature, type 1 and the method's flags, in which a receiver
  that follows the length and offset of the two fields finds the upper-cased domain and
  workstation, and returns the length up to the end of the last of them.
\<close>

theorem ntlm_request_decodes:
  assumes "auth_wf creds" "ntlm_request_flags creds = Some flags"
  shows "\<exists>buf. ntlm_request creds = Ret (Some buf,
      32 + length (cstr_of (auth_domain creds)) + length (cstr_of (auth_workstation creds)))
    \<and> length buf = 1024 \<and> slice buf 0 8 = ntlmssp \<and> get_le32 buf 8 = 1 \<and> get_le32 buf 12 = flags
    \<and> ntlm_field buf 16 = bytes_of (uppercase (cstr_of (auth_domain creds)))
    \<and> ntlm_field buf 24 = bytes_of (uppercase (cstr_of (auth_workstation creds)))"
  using assms by (rule ntlm_request_message)

theorem ntlm_request_decodes_witness:
  "\<exists>buf. ntlm_request new_auth = Ret (Some buf, 32) \<and> get_le32 buf 12 = 0xa208b205"
  using ntlm_request_decodes [of new_auth "0xa208b205"] new_auth_wf
  by (auto simp: ntlm_request_flags_def new_auth_def)

text \<open>
  The target information of a challenge.  A list of attribute pairs with its end mark, at the
  offset the challenge names, is found with exactly its length, whatever follows it.
\<close>

theorem av_scan_target_info:
  assumes "\<forall>p \<in> set ps. fst p \<noteq> 0 \<and> length (snd p) < 65536" "ps \<noteq> []"
    and "chal = pre @ av_encode ps @ post" "48 \<le> length pre" "slice chal 44 2 = le16 (of_nat (length pre))"
    and "length pre + length (av_encode ps) < 65536" "length pre + length (av_encode ps) \<le> challen"
  shows "av_scan chal (int challen) = Some (Ret (of_nat (length pre), of_nat (length (av_encode ps))))"
  using assms by (rule av_scan_pairs)

theorem av_scan_target_info_witness:
  "av_scan (replicate 44 0 @ [48, 0, 0, 0] @ av_encode [(2, [65, 0])] @ [7]) 59 = Some (Ret (48, 10))"
proof -
  have s: "slice (replicate 44 0 @ [48, 0, 0, 0] @ av_encode [(2, [65, 0])] @ [7 :: byte]) 44 2 = le16 48"
    by (simp add: slice_def le16_def)
  show ?thesis
    using av_scan_target_info [of "[(2, [65, 0])]" "replicate 44 0 @ [48, 0, 0, 0] @ av_encode [(2, [65, 0])] @ [7]"
        "replicate 44 0 @ [48, 0, 0, 0]" "[7]" 59] s
    by (simp add: av_encode_def av_pairs_def av_pair_def)
qed

text \<open>
  The scan of a challenge below 65536 bytes ends, and one of 64 KiB or more can make it run for
  ever: when the pair at the announced offset has length 65532 and lies inside the challenge, the
  16-bit position wraps to itself.
\<close>

theorem av_scan_termination:
  "(challen < 65536 \<longrightarrow> (\<exists>r. av_scan chal challen = Some r))
   \<and> (mem_get16 chal 44 = Ret p \<longrightarrow> mem_get16 chal (unat p) = Ret t \<longrightarrow> t \<noteq> 0 \<longrightarrow>
      mem_get16 chal (unat p + 2) = Ret 65532 \<longrightarrow> int (unat p) + 65536 \<le> challen \<longrightarrow>
      av_scan chal challen = None)"
proof (intro conjI impI)
  assume "challen < 65536"
  then show "\<exists>r. av_scan chal challen = Some r"
    using av_loop_terminates [of challen chal "the_ret (mem_get16 chal 44)" "-1" 0]
    by (cases "mem_get16 chal 44") (auto simp: av_scan_def split: c_result.split)
next
  assume "mem_get16 chal 44 = Ret p" "mem_get16 chal (unat p) = Ret t" "t \<noteq> 0"
    "mem_get16 chal (unat p + 2) = Ret 65532" "int (unat p) + 65536 \<le> challen"
  moreover from this have "48 < challen" by linarith
  ultimately show "av_scan chal challen = None"
    using av_loop_diverges [of chal p t challen] by (simp add: av_scan_def)
qed

theorem av_scan_termination_witness:
  "(\<exists>r. av_scan [] 40 = Some r)
   \<and> av_scan (replicate 44 0 @ [48, 0, 0, 0, 1, 0, 0xfc, 0xff] @ replicate 65532 0) 65584 = None"
proof
  show "\<exists>r. av_scan [] 40 = Some r" using av_scan_termination [of 40 "[]"] by simp
  let ?c = "replicate 44 0 @ [48, 0, 0, 0, 1, 0, 0xfc, 0xff] @ replicate 65532 (0 :: byte)"
  have "mem_get16 ?c 44 = Ret 48" "mem_get16 ?c 48 = Ret 1" "mem_get16 ?c 50 = Ret 65532"
    by (simp_all add: mem_get16_def get_le16_def nth_append del: replicate.simps)
  then show "av_scan ?c 65584 = None"
    using av_scan_termination [of 65584 ?c 48 1] by (simp del: replicate.simps)
qed

text \<open>
  C1: the NTLMv2 response.  For a challenge with target information, inside which that information
  lies, and names that leave room for it in the message buffer, the type 3 message has the
  challenge's flags and the names in UTF-16; in the NT field the receiver finds the HMAC-MD5 (RFC
  2104), under the stored hash, of the server's nonce and the blob, followed by the blob with
  the challenge's target information, and in the LM field the HMAC of the two nonces with the
  client's nonce.
\<close>

theorem ntlm_response_ntlmv2:
  assumes "auth_wf creds" "hashntlm2 creds \<noteq> 0" "hashnt creds = 0" "hashlm creds = 0"
    and "av_scan chal challen = Some (Ret (tbofs, tblen))" "tblen \<noteq> 0"
    and "unat tbofs + unat tblen \<le> length chal" "32 \<le> length chal"
    and "64 + 2 * (length (cstr_of (auth_domain creds)) + length (cstr_of (auth_user creds))
       + length (cstr_of (auth_workstation creds))) + 72 + unat tblen \<le> 1024"
  shows "\<exists>buf n. ntlm_response endian nonce now chal challen creds = Some (Ret (Some buf, n))
    \<and> n \<le> 1024 \<and> get_le32 buf 8 = 3 \<and> slice buf 60 4 = slice chal 20 4
    \<and> (ntlm_field buf 28, ntlm_field buf 36, ntlm_field buf 44) = unicode_names creds
    \<and> ntlm_field buf 20 = ntlmv2_nt (slice (passntlm2 creds) 0 16) (slice chal 24 8)
        (ntlm2_blob nonce now (slice chal (unat tbofs) (unat tblen)))
    \<and> ntlm_field buf 12 = rfc_hmac_md5 (slice (passntlm2 creds) 0 16) (slice chal 24 8 @ store64 endian nonce)
        @ store64 endian nonce"
  using ntlm_response_v2 [OF assms, of endian nonce now] by blast

theorem ntlm_response_ntlmv2_witness:
  "\<exists>buf n. ntlm_response 1 7 0 (replicate 44 0 @ [48, 0, 0, 0] @ av_encode [(2, [65, 0])] @ [7]) 59 new_auth
      = Some (Ret (Some buf, n)) \<and> get_le32 buf 8 = 3"
proof -
  let ?chal = "replicate 44 0 @ [48, 0, 0, 0] @ av_encode [(2, [65, 0])] @ [7 :: byte]"
  have "slice ?chal 44 2 = le16 48" by (simp add: slice_def le16_def)
  then have "av_scan ?chal 59 = Some (Ret (48, 10))"
    using av_scan_pairs [of "[(2, [65, 0])]" ?chal "replicate 44 0 @ [48, 0, 0, 0]" "[7]" 59]
    by (simp add: av_encode_def av_pairs_def av_pair_def)
  from ntlm_response_ntlmv2 [of new_auth, OF _ _ _ _ this, of 1 7 0] show ?thesis
    by (auto simp: new_auth_def [unfolded zero_bytes_def] auth_wf_def cstr_of_def zero_str_def str_wf_def
        av_encode_def av_pairs_def av_pair_def)
qed

text \<open>
  C19: the size of the response.  Under the same conditions the function stays inside its buffer of
  1024 bytes exactly when the names and the target information of the challenge fit; the server
  chooses the target information, so a challenge with a long one makes it write past the end.
\<close>

theorem ntlm_response_overflow:
  assumes "auth_wf creds" "hashntlm2 creds \<noteq> 0" "hashnt creds = 0" "hashlm creds = 0"
    and "av_scan chal challen = Some (Ret (tbofs, tblen))" "tblen \<noteq> 0"
    and "unat tbofs + unat tblen \<le> length chal" "32 \<le> length chal"
  shows "ntlm_response endian nonce now chal challen creds = Some UB \<longleftrightarrow>
    64 + 2 * (length (cstr_of (auth_domain creds)) + length (cstr_of (auth_user creds))
       + length (cstr_of (auth_workstation creds))) + 72 + unat tblen > 1024"
proof -
  obtain d u h where names: "unicode_names creds = (d, u, h)" by (cases "unicode_names creds")
  note len = length_unicode_names [OF assms(1) names]
  obtain nt lm where h: "ntlm_hashes endian nonce now chal creds (unat tbofs) (unat tblen) = Ret (nt, lm)"
      and l: "length nt = 48 + unat tblen" "length lm = 24"
    using ntlmv2_hashes [of creds "unat tbofs" "unat tblen" chal endian nonce now] assms unat_u16_less [of tblen]
    by (auto simp: ntlmv2_nt_def length_ntlm2_blob length_slice)
  have fl: "length (slice chal 20 4) = 4" using assms(8) by (simp add: length_slice)
  have n: "ntlm_names creds = Ret (d, u, h)" using names_unicode [of creds] assms(1,2) names by simp
  have r: "ntlm_response endian nonce now chal challen creds =
    Some (c_bind (mem_puts (replicate NTLM_BUFSIZE 0) (response_fields (slice chal 20 4) (d, u, h) (nt, lm)))
      (\<lambda>buf. Ret (Some buf, 64 + length d + length u + length h + length lm + length nt)))"
    using assms(6,8) by (intro response_from_hashes [OF assms(5) _ h n]) auto
  show ?thesis
  proof (cases "64 + length d + length u + length h + 24 + length nt \<le> 1024")
    case True
    then obtain buf where "mem_puts (replicate NTLM_BUFSIZE 0) (response_fields (slice chal 20 4) (d, u, h) (nt, lm)) = Ret buf"
      using response_fits [OF True _ fl, of lm] l(2) by auto
    then show ?thesis using r True len l by simp
  next
    case False
    have "nt \<noteq> []" using l(1) by auto
    then show ?thesis using False r response_overflow [of d u h nt "slice chal 20 4" lm] fl l len by auto
  qed
qed

theorem ntlm_response_overflow_witness:
  "\<exists>chal. ntlm_response 1 7 0 chal 1100 new_auth = Some UB"
proof -
  let ?ps = "[(2, replicate 1000 65)]" let ?pre = "replicate 44 0 @ [48, 0, 0, 0 :: byte]"
  let ?chal = "?pre @ av_encode ?ps @ []"
  have l: "length (av_encode ?ps) = 1008" by (simp add: av_encode_def av_pairs_def av_pair_def)
  have "slice ?chal 44 2 = le16 48" by (simp add: slice_def le16_def)
  then have "av_scan ?chal (int 1100) = Some (Ret (of_nat (length ?pre), of_nat (length (av_encode ?ps))))"
    by (intro av_scan_pairs [OF _ _ refl]) (simp_all only: l, simp_all)
  then have "av_scan ?chal 1100 = Some (Ret (48, 1008))" using l by simp
  then have "ntlm_response 1 7 0 ?chal 1100 new_auth = Some UB"
    using ntlm_response_overflow [of new_auth ?chal 1100 48 1008 1 7 0] l
    by (simp add: new_auth_def auth_wf_def cstr_of_def zero_str_def str_wf_def zero_bytes_def del: replicate.simps)
  then show ?thesis by blast
qed

text \<open>
  The plain NT response.  With the NT method alone (no LM hash) the header announces the 24-byte
  response right after the names, but the response is stored 24 bytes further on, where the LM
  response would end, beyond the returned length: the receiver finds 24 zero bytes.
\<close>

theorem ntlm_response_nt_only:
  assumes "auth_wf creds" "hashntlm2 creds = 0" "hashnt creds = 1" "hashlm creds = 0"
    and "av_scan chal challen = Some (Ret (tbofs, tblen))" "32 \<le> length chal"
  shows "\<exists>buf n nt. ntlm_calc_resp (passnt creds) (slice chal 24 8) = Ret nt \<and> length nt = 24
    \<and> ntlm_response endian nonce now chal challen creds = Some (Ret (Some buf, n))
    \<and> slice buf n 24 = nt \<and> ntlm_field buf 20 = replicate 24 0"
proof -
  obtain d u h where names: "unicode_names creds = (d, u, h)" by (cases "unicode_names creds")
  note len = length_unicode_names [OF assms(1) names] and lw = auth_wf_lengths(1-3) [OF assms(1)]
  obtain nt where nt: "ntlm_calc_resp (passnt creds) (slice chal 24 8) = Ret nt" "length nt = 24"
    using ntlm_calc_resp_defined [of "passnt creds" "slice chal 24 8"] assms(1,6)
    by (auto simp: auth_wf_def length_slice)
  have h: "ntlm_hashes endian nonce now chal creds (unat tbofs) (unat tblen) = Ret (nt, [])"
    using assms nt by (simp add: ntlm_hashes_def mem_get_def)
  have fl: "length (slice chal 20 4) = 4" using assms(6) by (simp add: length_slice)
  have fits: "64 + length d + length u + length h + 24 + length nt \<le> 1024" using len lw nt(2) by simp
  obtain buf where buf: "mem_puts (replicate NTLM_BUFSIZE 0) (response_fields (slice chal 20 4) (d, u, h) (nt, [])) = Ret buf"
    using response_fits [OF fits _ fl, of "[]"] by auto
  have n: "ntlm_names creds = Ret (d, u, h)" using names_unicode [of creds] assms(1,3) names by simp
  have "ntlm_response endian nonce now chal challen creds =
      Some (Ret (Some buf, 64 + length d + length u + length h + 24))"
    using response_from_hashes [OF assms(5) _ h n] assms(2,6) buf nt(2) by simp
  moreover have "slice buf (64 + length d + length u + length h + 24) (length nt) = nt"
    using mem_puts_all [OF buf response_puts(2) [OF fl]] by (simp add: response_fields_def Let_def)
  ultimately show ?thesis using nt response_nt_misplaced [OF fl nt(2) fits buf] by auto
qed

theorem ntlm_response_nt_only_witness:
  "\<exists>buf n. ntlm_response 1 7 0 (replicate 32 5) 32 (new_auth\<lparr>hashntlm2 := 0, hashnt := 1\<rparr>) = Some (Ret (Some buf, n))
    \<and> ntlm_field buf 20 = replicate 24 0"
proof -
  have "av_scan (replicate 32 5) 32 = Some (Ret (0, 0))" by (simp add: av_scan_def)
  from ntlm_response_nt_only [of "new_auth\<lparr>hashntlm2 := 0, hashnt := 1\<rparr>", OF _ _ _ _ this, of 1 7 0]
  moreover have "hashlm new_auth = 0" by (simp add: new_auth_def)
  ultimately show ?thesis using new_auth_wf by (auto simp: auth_wf_def simp del: replicate.simps)
qed

text \<open>
  The LM hash has 21 bytes, the last five zero; it does not depend on the case of the password
  nor on anything beyond 14 characters, and its first half only on the first seven.
\<close>

theorem lm_hash_weak:
  "length (ntlm_hash_lm_password p) = 21 \<and> drop 16 (ntlm_hash_lm_password p) = replicate 5 0
   \<and> ntlm_hash_lm_password (uppercase (take 14 p)) = ntlm_hash_lm_password p
   \<and> take 8 (ntlm_hash_lm_password (take 7 p)) = take 8 (ntlm_hash_lm_password p)"
proof -
  have "lm_pass (uppercase (take 14 p)) = lm_pass p"
    by (simp add: lm_pass_def Let_def uppercase_take min_def)
  then show ?thesis using lm_pass_take [of p] by (simp add: ntlm_hash_lm_password_def)
qed

text \<open>
  The spreading of a 7-byte key for DES.  The 56 bits of the seven bytes, most significant
  first, are the upper seven bits of the eight bytes of the result, in order.
\<close>

theorem ntlm_key_spreads:
  assumes "length src = 7"
  shows "concat (map (\<lambda>b. map (bit b) [7, 6, 5, 4, 3, 2, 1]) (ntlm_key src))
    = concat (map (\<lambda>b. map (bit b) [7, 6, 5, 4, 3, 2, 1, 0]) src)"
proof -
  obtain a b c d e f g where src: "src = [a, b, c, d, e, f, g]"
    using assms by (auto simp: numeral_eq_Suc length_Suc_conv)
  have "ntlm_key src = [a, push_bit 7 a OR drop_bit 1 b, push_bit 6 b OR drop_bit 2 c,
      push_bit 5 c OR drop_bit 3 d, push_bit 4 d OR drop_bit 4 e, push_bit 3 e OR drop_bit 5 f,
      push_bit 2 f OR drop_bit 6 g, push_bit 1 g]"
    by (simp add: ntlm_key_def src)
  moreover have "bit (push_bit 1 g) n \<longleftrightarrow> 1 \<le> n \<and> n < 8 \<and> bit g (n - 1)" for n
    by (simp only: bit_push_bit_iff) auto
  then have "bit (g * 2) n \<longleftrightarrow> 1 \<le> n \<and> n < 8 \<and> bit g (n - 1)" for n
    by (simp add: push_bit_eq_mult)
  ultimately show ?thesis unfolding src
    by (simp add: bit_simps) (simp add: numeral_2_eq_2 numeral_3_eq_3)
qed

theorem ntlm_key_spreads_witness:
  "concat (map (\<lambda>b. map (bit b) [7, 6, 5, 4, 3, 2, 1]) (ntlm_key [255, 1, 2, 3, 4, 5, 128]))
    = concat (map (\<lambda>b. map (bit b) [7, 6, 5, 4, 3, 2, 1, 0]) [255 :: byte, 1, 2, 3, 4, 5, 128])"
  by (rule ntlm_key_spreads) simp

end
