(* ===== verification/SockIO.thy ===== *)
theory SockIO
  imports CPrelude
begin

text \<open>
  Streams: socket.c so_recvln and the body transfers of http.c (data_send, chunked_data_send,
  tunnel).  A readable descriptor is the list of segments its reads will find, in order, and whether
  an error (-1) or the end of the stream (0) follows them; a read takes at most one
  segment.  A writable descriptor is the data it has accepted and a plan for the coming writes.
  Data are lists of 8-bit characters.
\<close>

section \<open>Descriptors\<close>

record sock =
  so_segs :: "string list"
  so_err :: bool

definition so_data :: "sock \<Rightarrow> string" where "so_data s = concat (so_segs s)"

text \<open>
  \<open>read(fd, buf, n)\<close>: the returned count, the data and the descriptor after it.  A count that is
  negative as an \<open>int\<close> is beyond \<open>SSIZE_MAX\<close> as a \<open>size_t\<close> and refused (EINVAL).
\<close>

definition so_read :: "int \<Rightarrow> sock \<Rightarrow> int \<times> string \<times> sock" where
  "so_read n s =
     (if n < 0 then (-1, [], s)
      else case so_segs s of
        [] \<Rightarrow> (if so_err s then -1 else 0, [], s)
      | d # ds \<Rightarrow> (int (length (take (nat n) d)), take (nat n) d,
                   s\<lparr>so_segs := if drop (nat n) d = [] then ds else drop (nat n) d # ds\<rparr>))"

text \<open>
  For each coming transfer to the descriptor: whether so_closed finds it closed, and what a write
  of \<open>n\<close> characters returns at most (\<open>None\<close>: all of it).  After the plan everything is accepted.
\<close>

record sink =
  sk_out :: string
  sk_plan :: "(bool \<times> int option) list"

definition sink_closed :: "sink \<Rightarrow> bool" where
  "sink_closed k = (case sk_plan k of [] \<Rightarrow> False | (cl, _) # _ \<Rightarrow> cl)"

text \<open>\<open>write(fd, data)\<close>.\<close>

definition so_write :: "string \<Rightarrow> sink \<Rightarrow> int \<times> sink" where
  "so_write d k =
     (let j = (case sk_plan k of (_, Some m) # _ \<Rightarrow> min m (int (length d)) | _ \<Rightarrow> int (length d))
      in (j, k\<lparr>sk_out := sk_out k @ take (nat j) d, sk_plan := tl (sk_plan k)\<rparr>))"

section \<open>so\_recvln\<close>

definition so_size :: "sock \<Rightarrow> nat" where "so_size s = length (so_segs s) + length (so_data s)"

lemma so_read_size: "so_read n s = (i, d, s') \<Longrightarrow> 0 < i \<Longrightarrow> so_size s' < so_size s"
  by (auto simp: so_read_def so_size_def so_data_def split: list.splits if_splits)

text \<open>
  The loop with the line read so far, the size of the buffer, the last character and the last
  result.  The buffer is doubled whenever it is full; its size stays an \<open>int\<close> (a line below
  1 GiB) and the reallocation succeeds.
\<close>

function recvln_loop :: "sock \<Rightarrow> string \<Rightarrow> nat \<Rightarrow> char \<Rightarrow> int \<Rightarrow> int \<times> string \<times> nat \<times> sock" where
  "recvln_loop s buf bsize c r =
     (if length buf < bsize - 1 \<and> c \<noteq> LF then
        (case so_read 1 s of (r', d, s') \<Rightarrow>
           if r' \<le> 0 then (r', buf, bsize, s')
           else let c' = hd d; buf' = buf @ [c'];
                    bsize' = (if length buf' = bsize - 1 \<and> c' \<noteq> LF then bsize * 2 else bsize)
                in recvln_loop s' buf' bsize' c' r')
      else (r, buf, bsize, s))"
  by pat_completeness auto
termination
  by (relation "measure (\<lambda>(s, _). so_size s)") (auto intro: so_read_size [OF sym])

declare recvln_loop.simps [simp del]

text \<open>The result, the line (up to the terminating NUL that is added), the size and the descriptor.\<close>

definition so_recvln :: "sock \<Rightarrow> nat \<Rightarrow> int \<times> string \<times> nat \<times> sock" where
  "so_recvln s bsize = recvln_loop s [] bsize NUL 1"

section \<open>data\_send\<close>

abbreviation BLOCK :: nat where "BLOCK \<equiv> 2048"

text \<open>
  The count passed to \<open>read\<close>: a \<open>long long\<close> stored in an \<open>int\<close>.
\<close>

definition ds_block :: "int \<Rightarrow> int \<Rightarrow> int" where
  "ds_block len c = to_int32 (if len = -1 \<or> len - c > int BLOCK then int BLOCK else len - c)"

text \<open>The verdict after the loop, on the last results of read and write.\<close>

definition ds_verdict :: "int \<Rightarrow> int \<Rightarrow> int \<Rightarrow> int \<Rightarrow> bool" where
  "ds_verdict i j len c \<longleftrightarrow>
     (if i \<le> 0 \<or> j \<le> 0 then i = 0 \<and> j > 0 \<and> (len = -1 \<or> c = len) else True)"

text \<open>
  One round: reads a block, and passes it on when there is a destination.  The results are those
  of read and write, the count and the descriptors.  More data than the block holds, and an
  overflow of the count, leave defined behaviour.
\<close>

definition ds_round ::
  "sink option \<Rightarrow> sock \<Rightarrow> int \<Rightarrow> int \<Rightarrow> int \<Rightarrow> (int \<times> int \<times> int \<times> bool \<times> sock \<times> sink option) c_result" where
  "ds_round dst src len c j =
     (case so_read (ds_block len c) src of (i, d, src') \<Rightarrow>
        if length d > BLOCK then UB
        else let c' = (if i > 0 then c + i else c) in
          if c' \<ge> 2 ^ 31 then UB
          else case dst of
            None \<Rightarrow> Ret (i, j, c', False, src', None)
          | Some k \<Rightarrow>
              if sink_closed k then Ret (-999, j, c', True, src', Some (k\<lparr>sk_plan := tl (sk_plan k)\<rparr>))
              else if i > 0
                then (case so_write d k of (j', k') \<Rightarrow> Ret (i, j', c', False, src', Some k'))
                else Ret (i, j, c', False, src', Some k))"

lemma ds_round_size:
  "ds_round dst src len c j = Ret (i, j', c', brk, src', dst') \<Longrightarrow> 0 < i \<Longrightarrow> so_size src' < so_size src"
  by (auto simp: ds_round_def Let_def dest: so_read_size split: prod.splits if_splits option.splits)

function ds_loop ::
  "sink option \<Rightarrow> sock \<Rightarrow> int \<Rightarrow> int \<Rightarrow> int \<Rightarrow> (bool \<times> sock \<times> sink option) c_result" where
  "ds_loop dst src len c j =
     (case ds_round dst src len c j of
        UB \<Rightarrow> UB
      | Ret (i, j', c', brk, src', dst') \<Rightarrow>
          if \<not> brk \<and> i > 0 \<and> j' > 0 \<and> (len = -1 \<or> c' < len) then ds_loop dst' src' len c' j'
          else Ret (ds_verdict i j' len c', src', dst'))"
  by pat_completeness auto
termination
  by (relation "measure (\<lambda>(_, src, _). so_size src)") (auto dest: ds_round_size)

declare ds_loop.simps [simp del]

definition data_send :: "sink option \<Rightarrow> sock \<Rightarrow> int \<Rightarrow> (bool \<times> sock \<times> sink option) c_result" where
  "data_send dst src len = (if len = 0 then Ret (True, src, dst) else ds_loop dst src len 0 1)"

section \<open>Reading lemmas\<close>

definition sock_wf :: "sock \<Rightarrow> bool" where "sock_wf s \<longleftrightarrow> [] \<notin> set (so_segs s)"

text \<open>What every reader keeps: the descriptor, after a prefix of its data has been read.\<close>

definition so_after :: "sock \<Rightarrow> string \<Rightarrow> sock \<Rightarrow> bool" where
  "so_after s d s' \<longleftrightarrow> sock_wf s' \<and> so_data s = d @ so_data s' \<and> so_err s' = so_err s"

lemma so_after_refl [simp]: "so_after s [] s \<longleftrightarrow> sock_wf s"
  by (simp add: so_after_def)

lemma so_after_trans: "so_after s d s' \<Longrightarrow> so_after s' e s'' \<Longrightarrow> so_after s (d @ e) s''"
  by (simp add: so_after_def)

lemma so_after_wf: "so_after s d s' \<Longrightarrow> sock_wf s'"
  by (simp add: so_after_def)

lemma so_read_end:
  "so_data s = [] \<Longrightarrow> sock_wf s \<Longrightarrow> 0 \<le> n \<Longrightarrow> so_read n s = (if so_err s then -1 else 0, [], s)"
  by (cases "so_segs s") (auto simp: so_read_def so_data_def sock_wf_def)

lemma so_read_some:
  assumes "so_data s \<noteq> []" "sock_wf s" "0 < n"
  obtains d s' where "so_read n s = (int (length d), d, s')" "d \<noteq> []" "int (length d) \<le> n"
    "so_after s d s'"
proof -
  from assms obtain e es where S: "so_segs s = e # es" and e: "e \<noteq> []"
    by (cases "so_segs s") (auto simp: so_data_def sock_wf_def)
  let ?s' = "s\<lparr>so_segs := if drop (nat n) e = [] then es else drop (nat n) e # es\<rparr>"
  have "so_read n s = (int (length (take (nat n) e)), take (nat n) e, ?s')"
    using S assms(3) by (simp add: so_read_def)
  moreover have "so_after s (take (nat n) e) ?s'"
    using S assms(2) by (auto simp: so_after_def sock_wf_def so_data_def)
  moreover have "take (nat n) e \<noteq> []" using e assms(3) by simp
  moreover have "int (length (take (nat n) e)) \<le> n" using assms(3) by simp
  ultimately show thesis using that by blast
qed

lemma so_read_one:
  assumes "so_data s = x # xs" "sock_wf s"
  obtains s' where "so_read 1 s = (1, [x], s')" "so_after s [x] s'" "so_data s' = xs"
proof -
  from so_read_some [of s 1] assms obtain d s' where d: "so_read 1 s = (int (length d), d, s')"
    "d \<noteq> []" "int (length d) \<le> 1" "so_after s d s'" by auto
  then have "length d = 1" by (cases d) auto
  then have "d = [hd d]" by (cases d) auto
  with d assms(1) have "d = [x]" "so_data s' = xs" unfolding so_after_def by (metis append_Cons append_Nil list.inject)+
  with d that show thesis by simp
qed

lemma recvln_loop_line:
  assumes "sock_wf s" "so_data s = a @ LF # r" "LF \<notin> set a" "c \<noteq> LF" "length buf < n - 1"
  shows "\<exists>n' s'. recvln_loop s buf n c q = (1, buf @ a @ [LF], n', s') \<and> so_after s (a @ [LF]) s'
    \<and> so_data s' = r \<and> n \<le> n' \<and> length (buf @ a @ [LF]) < n'"
  using assms
proof (induction a arbitrary: s buf n c q)
  case Nil
  from Nil.prems so_read_one [of s LF r] obtain s' where s': "so_read 1 s = (1, [LF], s')"
    "so_after s [LF] s'" "so_data s' = r" by auto
  then show ?case using Nil.prems
    by (subst recvln_loop.simps) (simp add: recvln_loop.simps [of s' "buf @ [LF]"])
next
  case (Cons x a)
  from Cons.prems so_read_one [of s x "a @ LF # r"] obtain s' where s': "so_read 1 s = (1, [x], s')"
    "so_after s [x] s'" "so_data s' = a @ LF # r" by auto
  define n1 where "n1 = (if length (buf @ [x]) = n - 1 \<and> x \<noteq> LF then n * 2 else n)"
  have x: "x \<noteq> LF" using Cons.prems by auto
  have step: "recvln_loop s buf n c q = recvln_loop s' (buf @ [x]) n1 x 1"
    using s'(1) Cons.prems by (subst recvln_loop.simps) (simp add: Let_def n1_def)
  have "length (buf @ [x]) < n1 - 1" using Cons.prems x by (auto simp: n1_def)
  with Cons.IH [of s' x "buf @ [x]" n1 1] s' x Cons.prems obtain n' s'' where
    "recvln_loop s' (buf @ [x]) n1 x 1 = (1, buf @ x # a @ [LF], n', s'')"
    "so_after s' (a @ [LF]) s''" "so_data s'' = r" "n1 \<le> n'" "length (buf @ x # a @ [LF]) < n'"
    by (auto simp: so_after_def)
  moreover have "n \<le> n1" by (simp add: n1_def)
  ultimately show ?case using step s'(2) so_after_trans [of s "[x]" s' "a @ [LF]" s''] by auto
qed

lemma recvln_loop_end:
  assumes "sock_wf s" "LF \<notin> set (so_data s)" "c \<noteq> LF" "length buf < n - 1"
  shows "\<exists>n' s'. recvln_loop s buf n c q = (if so_err s then -1 else 0, buf @ so_data s, n', s')
    \<and> so_after s (so_data s) s' \<and> so_data s' = [] \<and> n \<le> n' \<and> length (buf @ so_data s) < n'"
  using assms
proof (induction "so_data s" arbitrary: s buf n c q)
  case Nil
  then show ?case using so_read_end [of s 1] by (subst recvln_loop.simps) auto
next
  case (Cons x a)
  from Cons so_read_one [of s x a] obtain s' where s': "so_read 1 s = (1, [x], s')"
    "so_after s [x] s'" "so_data s' = a" by metis
  define n1 where "n1 = (if length (buf @ [x]) = n - 1 \<and> x \<noteq> LF then n * 2 else n)"
  have sx: "so_data s = x # a" using Cons.hyps(2) by simp
  have x: "x \<noteq> LF" "LF \<notin> set a" using Cons.prems sx by auto
  have step: "recvln_loop s buf n c q = recvln_loop s' (buf @ [x]) n1 x 1"
    using s'(1) Cons.prems by (subst recvln_loop.simps) (simp add: Let_def n1_def)
  have "length (buf @ [x]) < n1 - 1" using Cons.prems x by (auto simp: n1_def)
  with Cons.hyps(1) [of s' x "buf @ [x]" n1 1] s' x obtain n' s'' where
    "recvln_loop s' (buf @ [x]) n1 x 1 = (if so_err s then -1 else 0, buf @ x # a, n', s'')"
    "so_after s' a s''" "so_data s'' = []" "n1 \<le> n'" "length (buf @ x # a) < n'"
    by (auto simp: so_after_def)
  moreover have "n \<le> n1" by (simp add: n1_def)
  ultimately show ?case using step s'(2) sx so_after_trans [of s "[x]" s' a s''] by auto
qed

lemma so_recvln_line:
  assumes "sock_wf s" "so_data s = a @ LF # r" "LF \<notin> set a" "1 < n"
  obtains n' s' where "so_recvln s n = (1, a @ [LF], n', s')" "so_after s (a @ [LF]) s'"
    "so_data s' = r" "n \<le> n'" "length a + 1 < n'"
  using recvln_loop_line [of s a r NUL "[]" n 1] assms by (auto simp: so_recvln_def)

lemma so_recvln_end:
  assumes "sock_wf s" "LF \<notin> set (so_data s)" "1 < n"
  obtains n' s' where "so_recvln s n = (if so_err s then -1 else 0, so_data s, n', s')"
    "so_after s (so_data s) s'" "so_data s' = []" "n \<le> n'"
  using recvln_loop_end [of s NUL "[]" n 1] assms by (auto simp: so_recvln_def)

lemma recvln_loop_size:
  "recvln_loop s buf n c q = (i, l, n', s') \<Longrightarrow>
   so_size s' \<le> so_size s \<and> n \<le> n' \<and> (length buf < n - 1 \<and> c \<noteq> LF \<and> 0 < i \<longrightarrow> so_size s' < so_size s)"
proof (induction s buf n c q rule: recvln_loop.induct)
  case (1 s buf n c q)
  have le: "so_read 1 s = (i, d, s') \<Longrightarrow> so_size s' \<le> so_size s" for i d s'
    by (auto simp: so_read_def so_size_def so_data_def split: list.splits if_splits)
  show ?case
  proof (cases "length buf < n - 1 \<and> c \<noteq> LF")
    case False
    with "1.prems" show ?thesis by (auto simp: recvln_loop.simps [of s buf])
  next
    case True
    obtain r' d s1 where R: "so_read 1 s = (r', d, s1)" by (cases "so_read 1 s") auto
    show ?thesis
    proof (cases "r' \<le> 0")
      case True
      with \<open>length buf < n - 1 \<and> c \<noteq> LF\<close> R le [OF R] "1.prems" show ?thesis
        by (auto simp: recvln_loop.simps [of s buf])
    next
      case False
      with True R "1.prems" have "recvln_loop s1 (buf @ [hd d])
          (if length (buf @ [hd d]) = n - 1 \<and> hd d \<noteq> LF then n * 2 else n) (hd d) r' = (i, l, n', s')"
        by (simp add: recvln_loop.simps [of s buf] Let_def)
      from "1.IH" [OF True R [symmetric] refl False refl refl refl this] so_read_size [OF R] False
      show ?thesis by (auto split: if_splits)
    qed
  qed
qed

lemma so_recvln_size:
  "so_recvln s n = (i, l, n', s') \<Longrightarrow> 1 < n \<Longrightarrow> n \<le> n' \<and> (0 < i \<longrightarrow> so_size s' < so_size s)"
  using recvln_loop_size [of s "[]" n NUL 1 i l n' s'] by (simp add: so_recvln_def)

section \<open>Transfer lemmas\<close>

text \<open>A destination that takes all it is given, and what it holds after taking \<open>d\<close>.\<close>

definition sink_ideal :: "sink option \<Rightarrow> bool" where
  "sink_ideal dst = (case dst of None \<Rightarrow> True | Some k \<Rightarrow> sk_plan k = [])"

definition sink_add :: "sink option \<Rightarrow> string \<Rightarrow> sink option" where
  "sink_add dst d = map_option (\<lambda>k. k\<lparr>sk_out := sk_out k @ d\<rparr>) dst"

lemma sink_add_simps [simp]:
  "sink_add dst [] = dst" "sink_add (sink_add dst d) e = sink_add dst (d @ e)"
  "sink_ideal (sink_add dst d) = sink_ideal dst" "sink_ideal None" "sink_add None d = None"
  by (cases dst; simp add: sink_add_def sink_ideal_def comp_def)+

lemma so_write_ideal: "sk_plan k = [] \<Longrightarrow> so_write d k = (int (length d), k\<lparr>sk_out := sk_out k @ d\<rparr>)"
  by (cases k) (simp add: so_write_def)

lemma ds_round_ideal:
  assumes "so_read (ds_block len c) src = (i, d, src')" "sink_ideal dst" "length d \<le> BLOCK"
    "c + int (length d) < 2 ^ 31" "i = int (length d) \<or> i \<le> 0 \<and> d = []"
  shows "\<exists>j'. ds_round dst src len c j = Ret (i, j', c + int (length d), False, src', sink_add dst d)
    \<and> (0 < j \<longrightarrow> 0 < j')"
proof (cases dst)
  case None
  with assms show ?thesis by (auto simp: ds_round_def Let_def)
next
  case (Some k)
  with assms have "sk_plan k = []" by (simp add: sink_ideal_def)
  then show ?thesis using Some assms
    by (auto simp: ds_round_def Let_def sink_closed_def so_write_ideal sink_add_def)
qed

lemma ds_loop_exact:
  assumes "sock_wf src" "sink_ideal dst" "0 \<le> c" "c < len" "len < 2 ^ 31" "0 < j"
  shows "\<exists>src'. ds_loop dst src len c j =
      Ret (len - c \<le> int (length (so_data src)), src', sink_add dst (take (nat (len - c)) (so_data src)))
    \<and> so_after src (take (nat (len - c)) (so_data src)) src'"
  using assms
proof (induction "so_size src" arbitrary: src dst c j rule: less_induct)
  case less
  have block: "ds_block len c = min 2048 (len - c)"
    using less.prems by (auto simp: ds_block_def min_def to_int32_id)
  show ?case
  proof (cases "so_data src = []")
    case True
    define r :: int where "r = (if so_err src then -1 else 0)"
    have R: "so_read (ds_block len c) src = (r, [], src)"
      using so_read_end [OF True less.prems(1)] block less.prems by (simp add: r_def)
    have r: "r \<le> 0" by (simp add: r_def)
    with ds_round_ideal [OF R less.prems(2), of j] less.prems obtain j' where
      "ds_round dst src len c j = Ret (r, j', c, False, src, dst)" by auto
    with r show ?thesis using True less.prems
      by (subst ds_loop.simps) (auto simp: ds_verdict_def)
  next
    case False
    from so_read_some [OF False less.prems(1), of "ds_block len c"] obtain d src1 where
      R: "so_read (ds_block len c) src = (int (length d), d, src1)" "d \<noteq> []"
      and d: "int (length d) \<le> ds_block len c" and A: "so_after src d src1"
      using block less.prems by auto
    from d block have len: "length d \<le> 2048" "c + int (length d) \<le> len" by auto
    from ds_round_ideal [OF R(1) less.prems(2) len(1), of j] obtain j' where
      D: "ds_round dst src len c j = Ret (int (length d), j', c + int (length d), False, src1, sink_add dst d)"
      "0 < j'" using len less.prems by auto
    from A have dat: "so_data src = d @ so_data src1" by (simp add: so_after_def)
    show ?thesis
    proof (cases "c + int (length d) < len")
      case True
      have "ds_loop dst src len c j = ds_loop (sink_add dst d) src1 len (c + int (length d)) j'"
        using D True R(2) by (subst ds_loop.simps) simp
      moreover obtain src2 where "ds_loop (sink_add dst d) src1 len (c + int (length d)) j' =
          Ret (len - (c + int (length d)) \<le> int (length (so_data src1)), src2,
            sink_add (sink_add dst d) (take (nat (len - (c + int (length d)))) (so_data src1)))"
        "so_after src1 (take (nat (len - (c + int (length d)))) (so_data src1)) src2"
        using less.hyps [of src1 "sink_add dst d" "c + int (length d)" j'] so_read_size [OF R(1)]
          R(2) so_after_wf [OF A] less.prems True D(2) by auto
      moreover have "nat (len - c) = length d + nat (len - (c + int (length d)))" using True by simp
      ultimately show ?thesis using dat so_after_trans [OF A] by (auto simp: algebra_simps)
    next
      case False
      with len have "len = c + int (length d)" by simp
      moreover then have "ds_loop dst src len c j = Ret (True, src1, sink_add dst d)"
        using D R(2) less.prems by (subst ds_loop.simps) (simp add: ds_verdict_def)
      ultimately show ?thesis using dat A by simp
    qed
  qed
qed

lemma ds_loop_until_eof:
  assumes "sock_wf src" "sink_ideal dst" "0 \<le> c" "c + int (length (so_data src)) < 2 ^ 31" "0 < j"
  shows "\<exists>src'. ds_loop dst src (-1) c j = Ret (\<not> so_err src, src', sink_add dst (so_data src))
    \<and> so_after src (so_data src) src'"
  using assms
proof (induction "so_size src" arbitrary: src dst c j rule: less_induct)
  case less
  have block: "ds_block (-1) c = 2048" by (simp add: ds_block_def to_int32_id)
  show ?case
  proof (cases "so_data src = []")
    case True
    define r :: int where "r = (if so_err src then -1 else 0)"
    have R: "so_read (ds_block (-1) c) src = (r, [], src)"
      using so_read_end [OF True less.prems(1)] block by (simp add: r_def)
    have r: "r \<le> 0" by (simp add: r_def)
    with ds_round_ideal [OF R less.prems(2), of j] less.prems obtain j' where
      "ds_round dst src (-1) c j = Ret (r, j', c, False, src, dst)" "0 < j'" by auto
    with r have "ds_loop dst src (-1) c j = Ret (r = 0, src, dst)"
      by (subst ds_loop.simps) (auto simp: ds_verdict_def)
    with True less.prems show ?thesis by (simp add: r_def)
  next
    case False
    from so_read_some [OF False less.prems(1), of 2048] obtain d src1 where
      R: "so_read (ds_block (-1) c) src = (int (length d), d, src1)" "d \<noteq> []"
      and d: "int (length d) \<le> 2048" and A: "so_after src d src1"
      using block by auto
    from A have dat: "so_data src = d @ so_data src1" by (simp add: so_after_def)
    from d have len: "length d \<le> 2048" by simp
    from ds_round_ideal [OF R(1) less.prems(2) len, of j] obtain j' where
      D: "ds_round dst src (-1) c j = Ret (int (length d), j', c + int (length d), False, src1, sink_add dst d)"
      "0 < j'" using less.prems dat by auto
    have "ds_loop dst src (-1) c j = ds_loop (sink_add dst d) src1 (-1) (c + int (length d)) j'"
      using D R(2) by (subst ds_loop.simps) simp
    moreover obtain src2 where "ds_loop (sink_add dst d) src1 (-1) (c + int (length d)) j' =
        Ret (\<not> so_err src1, src2, sink_add (sink_add dst d) (so_data src1))"
      "so_after src1 (so_data src1) src2"
      using less.hyps [of src1 "sink_add dst d" "c + int (length d)" j'] so_read_size [OF R(1)]
        R(2) so_after_wf [OF A] less.prems D(2) dat by auto
    moreover have "so_err src1 = so_err src" using A by (simp add: so_after_def)
    ultimately show ?thesis using dat so_after_trans [OF A] by auto
  qed
qed

text \<open>A negative length of which the low 32 bits are a count above the block.\<close>

lemma data_send_negative:
  assumes "len < -1" "so_segs src = d # ds" "BLOCK < length d" "int BLOCK < to_int32 len"
  shows "data_send dst src len = UB"
proof -
  have "ds_block len 0 = to_int32 len" using assms(1) by (simp add: ds_block_def)
  then have "ds_round dst src len 0 1 = UB"
    using assms by (auto simp: ds_round_def so_read_def split: list.splits)
  then show ?thesis using assms(1) by (simp add: data_send_def ds_loop.simps [of dst src])
qed

section \<open>chunked\_data\_send\<close>

abbreviation BUFSIZE :: nat where "BUFSIZE \<equiv> 4096"

text \<open>
  A write whose result is not looked at (\<open>dst >= 0\<close>).
\<close>

definition sink_put :: "sink option \<Rightarrow> string \<Rightarrow> sink option" where
  "sink_put dst d = map_option (\<lambda>k. snd (so_write d k)) dst"

text \<open>
  The size on a chunk line: the \<open>long\<close> of \<open>strtol\<close> stored in an \<open>int\<close>, \<open>None\<close> when what follows
  it is neither white space nor a semicolon.
\<close>

definition chunk_size :: "string \<Rightarrow> int option" where
  "chunk_size line =
     (let (v, err) = strtol 16 line
      in case err of
           [] \<Rightarrow> None
         | e # _ \<Rightarrow> if \<not> c_isspace e \<and> e \<noteq> CHR '';'' then None else Some (to_int32 v))"

text \<open>
  The loop over the chunks: the descriptors after it, \<open>None\<close> for the return of 0, with the size
  of the line buffer.  Adding the line end to a size near 2^31 overflows.
\<close>

partial_function (option) chunk_loop ::
  "sink option \<Rightarrow> sock \<Rightarrow> nat \<Rightarrow> ((bool \<times> sock \<times> sink option \<times> nat) c_result) option" where
  "chunk_loop dst src bsize =
     (case so_recvln src bsize of (i, buf, bsize', src1) \<Rightarrow>
        if i \<le> 0 then Some (Ret (False, src1, dst, bsize'))
        else case chunk_size (cstr_of buf) of
          None \<Rightarrow> Some (Ret (False, src1, dst, bsize'))
        | Some csize \<Rightarrow>
            let dst1 = sink_put dst (cstr_of buf)
            in if csize = 0 then Some (Ret (True, src1, dst1, bsize'))
               else if csize + 2 \<ge> 2 ^ 31 then Some UB
               else case data_send dst1 src1 (csize + 2) of
                 UB \<Rightarrow> Some UB
               | Ret (ok, src2, dst2) \<Rightarrow>
                   if \<not> ok then Some (Ret (False, src2, dst2, bsize'))
                   else chunk_loop dst2 src2 bsize')"

text \<open>The trailer, up to an empty line or the end; the first character decides.\<close>

partial_function (option) trailer_loop ::
  "sink option \<Rightarrow> sock \<Rightarrow> nat \<Rightarrow> (sock \<times> sink option) option" where
  "trailer_loop dst src bsize =
     (case so_recvln src bsize of (i, buf, bsize', src1) \<Rightarrow>
        let dst1 = (if i > 0 then sink_put dst (cstr_of buf) else dst);
            b0 = hd (buf @ [NUL])
        in if i > 0 \<and> b0 \<noteq> CR \<and> b0 \<noteq> LF then trailer_loop dst1 src1 bsize'
           else Some (src1, dst1))"

definition chunked_data_send ::
  "sink option \<Rightarrow> sock \<Rightarrow> ((bool \<times> sock \<times> sink option) c_result) option" where
  "chunked_data_send dst src =
     (case chunk_loop dst src BUFSIZE of
        None \<Rightarrow> None
      | Some UB \<Rightarrow> Some UB
      | Some (Ret (ok, src1, dst1, bsize)) \<Rightarrow>
          if \<not> ok then Some (Ret (False, src1, dst1))
          else map_option (\<lambda>(src2, dst2). Ret (True, src2, dst2)) (trailer_loop dst1 src1 bsize))"

section \<open>Chunked bodies\<close>

lemma so_read_le: "so_read n s = (i, d, s') \<Longrightarrow> so_size s' \<le> so_size s"
  by (auto simp: so_read_def so_size_def so_data_def split: list.splits if_splits)

lemma ds_round_le:
  "ds_round dst src len c j = Ret (i, j', c', brk, src', dst') \<Longrightarrow> so_size src' \<le> so_size src"
  by (auto simp: ds_round_def Let_def dest: so_read_le split: prod.splits if_splits option.splits)

lemma ds_loop_le: "ds_loop dst src len c j = Ret (ok, src', dst') \<Longrightarrow> so_size src' \<le> so_size src"
proof (induction dst src len c j rule: ds_loop.induct)
  case (1 dst src len c j)
  show ?case
  proof (cases "ds_round dst src len c j")
    case UB
    with "1.prems" show ?thesis by (simp add: ds_loop.simps [of dst src])
  next
    case (Ret x)
    obtain i j' c' brk src1 dst1 where x: "x = (i, j', c', brk, src1, dst1)" by (cases x) auto
    have le: "so_size src1 \<le> so_size src" using ds_round_le Ret x by blast
    show ?thesis
    proof (cases "\<not> brk \<and> i > 0 \<and> j' > 0 \<and> (len = -1 \<or> c' < len)")
      case True
      with "1.prems" Ret x have "ds_loop dst1 src1 len c' j' = Ret (ok, src', dst')"
        by (simp add: ds_loop.simps [of dst src])
      from "1.IH" [OF Ret x [symmetric] refl refl refl refl True this] le show ?thesis by simp
    next
      case False
      with "1.prems" Ret x le show ?thesis by (auto simp: ds_loop.simps [of dst src] split: if_splits)
    qed
  qed
qed

lemma data_send_le: "data_send dst src len = Ret (ok, src', dst') \<Longrightarrow> so_size src' \<le> so_size src"
  by (auto simp: data_send_def dest: ds_loop_le split: if_splits)

lemma chunk_loop_total:
  "1 < n \<Longrightarrow> \<exists>r. chunk_loop dst src n = Some r \<and> (\<forall>ok s d m. r = Ret (ok, s, d, m) \<longrightarrow> 1 < m)"
proof (induction "so_size src" arbitrary: src dst n rule: less_induct)
  case less
  obtain i buf n' src1 where R: "so_recvln src n = (i, buf, n', src1)"
    by (cases "so_recvln src n") auto
  from so_recvln_size [OF R less.prems] have n': "1 < n'" and sz: "0 < i \<Longrightarrow> so_size src1 < so_size src"
    using less.prems by auto
  consider (stop) "i \<le> 0 \<or> chunk_size (cstr_of buf) = None"
    | (last) cs where "0 < i" "chunk_size (cstr_of buf) = Some cs" "cs = 0 \<or> cs + 2 \<ge> 2 ^ 31"
    | (more) cs where "0 < i" "chunk_size (cstr_of buf) = Some cs" "cs \<noteq> 0" "cs + 2 < 2 ^ 31"
    by (cases "chunk_size (cstr_of buf)") fastforce+
  then show ?case
  proof cases
    case stop
    with R n' show ?thesis by (subst chunk_loop.simps) auto
  next
    case last
    with R n' show ?thesis by (subst chunk_loop.simps) (auto simp: Let_def)
  next
    case more
    define dst1 where "dst1 = sink_put dst (cstr_of buf)"
    have step: "chunk_loop dst src n = (case data_send dst1 src1 (cs + 2) of
         UB \<Rightarrow> Some UB
       | Ret (ok, src2, dst2) \<Rightarrow>
           if \<not> ok then Some (Ret (False, src2, dst2, n')) else chunk_loop dst2 src2 n')"
      using R more by (subst chunk_loop.simps) (simp add: Let_def dst1_def)
    show ?thesis
    proof (cases "data_send dst1 src1 (cs + 2)")
      case UB
      with step show ?thesis by simp
    next
      case (Ret x)
      obtain ok src2 dst2 where x: "x = (ok, src2, dst2)" by (cases x) auto
      from Ret x data_send_le sz [OF more(1)] have "so_size src2 < so_size src" by fastforce
      from less.hyps [OF this n'] step Ret x n' show ?thesis by (cases ok) auto
    qed
  qed
qed

lemma trailer_loop_total: "1 < n \<Longrightarrow> \<exists>r. trailer_loop dst src n = Some r"
proof (induction "so_size src" arbitrary: src dst n rule: less_induct)
  case less
  obtain i buf n' src1 where R: "so_recvln src n = (i, buf, n', src1)"
    by (cases "so_recvln src n") auto
  from so_recvln_size [OF R less.prems] have n': "1 < n'" and sz: "0 < i \<Longrightarrow> so_size src1 < so_size src"
    using less.prems by auto
  show ?case
  proof (cases "i > 0 \<and> hd (buf @ [NUL]) \<noteq> CR \<and> hd (buf @ [NUL]) \<noteq> LF")
    case True
    with R less.hyps [OF sz n'] show ?thesis by (subst trailer_loop.simps) (simp add: Let_def)
  next
    case False
    with R show ?thesis by (subst trailer_loop.simps) (auto simp: Let_def)
  qed
qed

text \<open>
  A chunked body: each chunk has its size in hexadecimal digits, an extension (empty or from a
  semicolon on), and its data; then the last chunk and the trailer lines.
\<close>

abbreviation CRLF :: string where "CRLF \<equiv> [CR, LF]"

type_synonym chunk = "string \<times> string \<times> string"

definition size_line :: "string \<Rightarrow> string \<Rightarrow> string" where
  "size_line digits ext = digits @ ext @ CRLF"

definition size_line_wf :: "string \<Rightarrow> string \<Rightarrow> bool" where
  "size_line_wf digits ext \<longleftrightarrow> digits \<noteq> [] \<and> list_all (is_digit_in 16) digits
     \<and> (ext = [] \<or> hd ext = CHR '';'') \<and> LF \<notin> set ext \<and> NUL \<notin> set ext"

definition chunk_wf :: "chunk \<Rightarrow> bool" where
  "chunk_wf c = (case c of (digits, ext, d) \<Rightarrow>
     size_line_wf digits ext \<and> d \<noteq> [] \<and> digits_val 16 digits = length d \<and> length d + 2 < 2 ^ 31)"

definition chunk_text :: "chunk \<Rightarrow> string" where
  "chunk_text c = (case c of (digits, ext, d) \<Rightarrow> size_line digits ext @ d @ CRLF)"

definition trailer_wf :: "string \<Rightarrow> bool" where
  "trailer_wf t \<longleftrightarrow> t \<noteq> [] \<and> hd t \<noteq> CR \<and> LF \<notin> set t \<and> NUL \<notin> set t"

definition trailer_text :: "string list \<Rightarrow> string" where
  "trailer_text ts = concat (map (\<lambda>t. t @ CRLF) ts) @ CRLF"

lemma tolower_x: "c_tolower c = CHR ''x'' \<Longrightarrow> c = CHR ''x'' \<or> c = CHR ''X''"
proof -
  assume "c_tolower c = CHR ''x''"
  then have x: "(of_char (c_tolower c) :: nat) = 120" by simp
  show ?thesis
  proof (cases "c_isupper c")
    case True
    then have "(of_char (c_tolower c) :: nat) = of_char c + 32"
      by (simp add: c_tolower_def c_isupper_def)
    with x have "(of_char c :: nat) = of_char CHR ''X''" by simp
    then show ?thesis by (simp only: of_char_eq_iff) simp
  next
    case False
    with \<open>c_tolower c = CHR ''x''\<close> show ?thesis by (simp add: c_tolower_def)
  qed
qed

lemma hex_digit_plain:
  assumes "is_digit_in 16 c"
  shows "\<not> c_isspace c" "c \<noteq> CHR ''-''" "c \<noteq> CHR ''+''" "c \<noteq> NUL" "c \<noteq> LF" "c_tolower c \<noteq> CHR ''x''"
proof -
  show "c_tolower c \<noteq> CHR ''x''" using assms tolower_x [of c]
    by (auto simp: is_digit_in_def digit_val_def c_isdigit_def c_isupper_def c_islower_def)
qed (use assms in \<open>auto simp: is_digit_in_def digit_val_def c_isdigit_def c_isupper_def
  c_islower_def c_isspace_def split: if_splits\<close>)

lemma chunk_text_Pair: "chunk_text (digits, ext, d) = size_line digits ext @ d @ CRLF"
  by (simp add: chunk_text_def)

lemma strtol_hex:
  assumes "ds \<noteq> []" "list_all (is_digit_in 16) ds" "\<not> is_digit_in 16 e" "c_tolower e \<noteq> CHR ''x''"
    "digits_val 16 ds < 2 ^ 63"
  shows "strtol 16 (ds @ e # r) = (int (digits_val 16 ds), e # r)"
proof -
  from assms(1,2) obtain c s where ds: "ds = c # s" and c: "is_digit_in 16 c" by (cases ds) auto
  have d: "dropWhile c_isspace (ds @ e # r) = ds @ e # r" "strip_sign (ds @ e # r) = (False, ds @ e # r)"
    using hex_digit_plain [OF c] by (simp_all add: ds strip_sign_def)
  have "c_tolower ((ds @ e # r) ! 1) \<noteq> CHR ''x''"
    using assms(2,4) hex_digit_plain by (cases s) (auto simp: ds)
  then have x: "strip_0x 16 (ds @ e # r) = ds @ e # r" by (auto simp: strip_0x_def)
  have "takeWhile (is_digit_in 16) (ds @ e # r) = ds" "dropWhile (is_digit_in 16) (ds @ e # r) = e # r"
    using assms(2,3) by (auto simp: list_all_iff)
  with d x assms(1,5) show ?thesis by (simp add: strtol_def)
qed

lemma size_line_simps:
  assumes "size_line_wf digits ext"
  shows "NUL \<notin> set (size_line digits ext)" "LF \<notin> set (digits @ ext @ [CR])"
    "digits_val 16 digits < 2 ^ 31 \<Longrightarrow>
      chunk_size (size_line digits ext) = Some (int (digits_val 16 digits))"
proof -
  have dig: "c \<in> set digits \<Longrightarrow> c \<noteq> NUL \<and> c \<noteq> LF" for c
    using assms hex_digit_plain [of c] by (auto simp: size_line_wf_def list_all_iff)
  then show "NUL \<notin> set (size_line digits ext)" "LF \<notin> set (digits @ ext @ [CR])"
    using assms by (auto simp: size_line_def size_line_wf_def)
  assume small: "digits_val 16 digits < 2 ^ 31"
  define e where "e = hd (ext @ CRLF)"
  define r where "r = tl (ext @ CRLF)"
  have er: "ext @ CRLF = e # r" by (cases ext) (simp_all add: e_def r_def)
  have e: "e = CR \<or> e = CHR '';''" using assms by (cases ext) (auto simp: e_def size_line_wf_def)
  have "\<not> is_digit_in 16 CR" "\<not> is_digit_in 16 CHR '';''" "c_tolower CR \<noteq> CHR ''x''"
    "c_tolower CHR '';'' \<noteq> CHR ''x''" "c_isspace CR" by code_simp+
  with e have e': "\<not> is_digit_in 16 e" "c_tolower e \<noteq> CHR ''x''" "c_isspace e \<or> e = CHR '';''" by auto
  have "strtol 16 (size_line digits ext) = (int (digits_val 16 digits), e # r)"
    unfolding size_line_def er using assms e' small by (intro strtol_hex) (auto simp: size_line_wf_def)
  with e' small show "chunk_size (size_line digits ext) = Some (int (digits_val 16 digits))"
    by (auto simp: chunk_size_def to_int32_id)
qed

lemma sink_put_ideal: "sink_ideal dst \<Longrightarrow> sink_put dst d = sink_add dst d"
  by (cases dst) (simp_all add: sink_put_def sink_add_def sink_ideal_def so_write_ideal)

lemma recv_size_line:
  assumes "sock_wf src" "so_data src = size_line digits ext @ r" "size_line_wf digits ext" "1 < n"
  obtains n' src1 where "so_recvln src n = (1, size_line digits ext, n', src1)"
    "so_after src (size_line digits ext) src1" "so_data src1 = r" "1 < n'"
proof -
  have "so_data src = (digits @ ext @ [CR]) @ LF # r" using assms(2) by (simp add: size_line_def)
  from so_recvln_line [OF assms(1) this size_line_simps(2) [OF assms(3)] assms(4)] obtain n' src1 where
    R: "so_recvln src n = (1, (digits @ ext @ [CR]) @ [LF], n', src1)"
      "so_after src ((digits @ ext @ [CR]) @ [LF]) src1" "so_data src1 = r" "n \<le> n'" .
  have "(digits @ ext @ [CR]) @ [LF] = size_line digits ext" by (simp add: size_line_def)
  with R that [of n' src1] assms(4) show thesis by simp
qed

lemma data_send_exact:
  assumes "sock_wf src" "sink_ideal dst" "0 \<le> len" "len < 2 ^ 31"
  shows "\<exists>src'. data_send dst src len =
      Ret (len \<le> int (length (so_data src)), src', sink_add dst (take (nat len) (so_data src)))
    \<and> so_after src (take (nat len) (so_data src)) src'"
  using assms ds_loop_exact [of src dst 0 len 1] by (cases "len = 0") (auto simp: data_send_def)

lemma chunk_loop_chunks:
  assumes "sock_wf src" "sink_ideal dst" "list_all chunk_wf cs" "size_line_wf zs zext"
    "digits_val 16 zs = 0" "so_data src = concat (map chunk_text cs) @ size_line zs zext @ r" "1 < n"
  shows "\<exists>src' n'. chunk_loop dst src n = Some (Ret (True, src',
      sink_add dst (concat (map chunk_text cs) @ size_line zs zext), n'))
    \<and> so_after src (concat (map chunk_text cs) @ size_line zs zext) src' \<and> so_data src' = r \<and> 1 < n'"
  using assms
proof (induction cs arbitrary: src dst n)
  case Nil
  from recv_size_line [of src zs zext r n] Nil.prems obtain n' src1 where
    "so_recvln src n = (1, size_line zs zext, n', src1)" "so_after src (size_line zs zext) src1"
    "so_data src1 = r" "1 < n'" by auto
  then show ?case using size_line_simps [OF Nil.prems(4)] Nil.prems
    by (subst chunk_loop.simps) (simp add: cstr_of_id sink_put_ideal)
next
  case (Cons c cs)
  obtain digits ext d where c: "c = (digits, ext, d)" by (cases c) auto
  let ?rest = "concat (map chunk_text cs) @ size_line zs zext @ r"
  have wf: "size_line_wf digits ext" "d \<noteq> []" "digits_val 16 digits = length d" "length d + 2 < 2 ^ 31"
    using Cons.prems(3) by (auto simp: c chunk_wf_def)
  have "so_data src = size_line digits ext @ d @ CRLF @ ?rest"
    using Cons.prems(6) by (simp add: c chunk_text_Pair)
  from recv_size_line [OF Cons.prems(1) this wf(1) Cons.prems(7)] obtain n' src1 where
    R: "so_recvln src n = (1, size_line digits ext, n', src1)"
    and A: "so_after src (size_line digits ext) src1"
    and D: "so_data src1 = d @ CRLF @ ?rest" and n': "1 < n'" .
  let ?dst1 = "sink_add dst (size_line digits ext)"
  from data_send_exact [OF so_after_wf [OF A], of ?dst1 "int (length d) + 2"] wf Cons.prems(2) D
  obtain src2 where S: "data_send ?dst1 src1 (int (length d) + 2) =
      Ret (True, src2, sink_add ?dst1 (d @ CRLF))" and A2: "so_after src1 (d @ CRLF) src2"
    by (auto simp: nat_add_distrib)
  have "chunk_loop dst src n = chunk_loop (sink_add ?dst1 (d @ CRLF)) src2 n'"
    using R S wf size_line_simps [OF wf(1)] Cons.prems(2)
    by (subst chunk_loop.simps) (simp add: cstr_of_id sink_put_ideal Let_def)
  moreover from A2 D have "so_data src2 = ?rest" by (simp add: so_after_def)
  with Cons.IH [of src2 "sink_add ?dst1 (d @ CRLF)" n'] so_after_wf [OF A2] Cons.prems n' obtain src3 n3 where
    "chunk_loop (sink_add ?dst1 (d @ CRLF)) src2 n' = Some (Ret (True, src3, sink_add (sink_add ?dst1 (d @ CRLF))
      (concat (map chunk_text cs) @ size_line zs zext), n3))"
    "so_after src2 (concat (map chunk_text cs) @ size_line zs zext) src3" "so_data src3 = r" "1 < n3"
    by auto
  ultimately show ?case using so_after_trans [OF so_after_trans [OF A A2]]
    by (auto simp: c chunk_text_Pair)
qed

lemma trailer_loop_lines:
  assumes "sock_wf src" "sink_ideal dst" "list_all trailer_wf ts" "so_data src = trailer_text ts @ r" "1 < n"
  shows "\<exists>src'. trailer_loop dst src n = Some (src', sink_add dst (trailer_text ts))
    \<and> so_after src (trailer_text ts) src'"
  using assms
proof (induction ts arbitrary: src dst n)
  case Nil
  have "so_data src = [CR] @ LF # r" "LF \<notin> set [CR]" using Nil.prems(4) by (simp_all add: trailer_text_def)
  from so_recvln_line [OF Nil.prems(1) this Nil.prems(5)] obtain n' src1 where
    "so_recvln src n = (1, CRLF, n', src1)" "so_after src CRLF src1"
    by (metis append_Cons append_Nil)
  then show ?case using Nil.prems(2)
    by (subst trailer_loop.simps) (simp add: cstr_of_id sink_put_ideal trailer_text_def)
next
  case (Cons t ts)
  have t: "t \<noteq> []" "hd t \<noteq> CR" "hd t \<noteq> LF" "LF \<notin> set t" "NUL \<notin> set t"
    using Cons.prems(3) by (cases t; auto simp: trailer_wf_def)+
  have "so_data src = (t @ [CR]) @ LF # trailer_text ts @ r" "LF \<notin> set (t @ [CR])"
    using Cons.prems(4) t by (simp_all add: trailer_text_def)
  from so_recvln_line [OF Cons.prems(1) this Cons.prems(5)] obtain n' src1 where
    R: "so_recvln src n = (1, t @ CRLF, n', src1)" "so_after src (t @ CRLF) src1"
    "so_data src1 = trailer_text ts @ r" "n \<le> n'"
    by (metis append.assoc append_Cons append_Nil)
  have hd: "hd (t @ CRLF @ [NUL]) = hd t" using t by (cases t) auto
  have "trailer_loop dst src n = trailer_loop (sink_add dst (t @ CRLF)) src1 n'"
    using R t Cons.prems(2) hd
    by (subst trailer_loop.simps) (simp add: cstr_of_id sink_put_ideal Let_def)
  with Cons.IH [of src1 "sink_add dst (t @ CRLF)" n'] R Cons.prems so_after_wf [OF R(2)]
    so_after_trans [OF R(2)] show ?case
    by (auto simp: trailer_text_def)
qed

lemma chunked_data_send_forwards:
  assumes "sock_wf src" "sink_ideal dst" "list_all chunk_wf cs" "size_line_wf zs zext"
    "digits_val 16 zs = 0" "list_all trailer_wf ts"
    "so_data src = concat (map chunk_text cs) @ size_line zs zext @ trailer_text ts @ rest"
  shows "\<exists>src'. chunked_data_send dst src = Some (Ret (True, src',
      sink_add dst (concat (map chunk_text cs) @ size_line zs zext @ trailer_text ts)))
    \<and> so_data src' = rest \<and> sock_wf src' \<and> so_err src' = so_err src"
proof -
  let ?a = "concat (map chunk_text cs) @ size_line zs zext"
  from chunk_loop_chunks [OF assms(1-5,7), of BUFSIZE] obtain src1 n1 where
    L: "chunk_loop dst src BUFSIZE = Some (Ret (True, src1, sink_add dst ?a, n1))"
    and A: "so_after src ?a src1" "so_data src1 = trailer_text ts @ rest" "1 < n1" by auto
  from trailer_loop_lines [of src1 "sink_add dst ?a" ts rest n1] assms A so_after_wf [OF A(1)]
  obtain src2 where "trailer_loop (sink_add dst ?a) src1 n1 = Some (src2, sink_add (sink_add dst ?a) (trailer_text ts))"
    "so_after src1 (trailer_text ts) src2" by auto
  with L A(1,2) show ?thesis by (auto simp: chunked_data_send_def so_after_def)
qed

section \<open>tunnel\<close>

text \<open>
  The two peers of the full-duplex forwarding: each with what it sends and what it is sent.  Every
  round starts with \<open>select\<close>, which fails, returns nothing, or returns a set that has the client's
  descriptor or not; the client goes first.
\<close>

record peer =
  p_in :: sock
  p_out :: sink

datatype sel = SelError | SelNone | SelReady bool

datatype tun = Run peer peer | Stop bool peer peer

definition pass_on :: "string \<Rightarrow> peer \<Rightarrow> peer" where
  "pass_on d p = p\<lparr>p_out := snd (so_write d (p_out p))\<rparr>"

fun tunnel_round :: "sel \<Rightarrow> peer \<Rightarrow> peer \<Rightarrow> tun" where
  "tunnel_round SelError cd sd = Stop False cd sd"
| "tunnel_round SelNone cd sd = Run cd sd"
| "tunnel_round (SelReady True) cd sd =
     (case so_read (int BUFSIZE) (p_in cd) of (ret, d, s) \<Rightarrow>
        if ret > 0 then Run (cd\<lparr>p_in := s\<rparr>) (pass_on d sd) else Stop (ret = 0) (cd\<lparr>p_in := s\<rparr>) sd)"
| "tunnel_round (SelReady False) cd sd =
     (case so_read (int BUFSIZE) (p_in sd) of (ret, d, s) \<Rightarrow>
        if ret > 0 then Run (pass_on d cd) (sd\<lparr>p_in := s\<rparr>) else Stop (ret = 0) cd (sd\<lparr>p_in := s\<rparr>))"

text \<open>The loop over the results of \<open>select\<close>: where it is after them.\<close>

fun tunnel :: "sel list \<Rightarrow> tun \<Rightarrow> tun" where
  "tunnel (e # es) (Run cd sd) = tunnel es (tunnel_round e cd sd)"
| "tunnel es t = t"

text \<open>The steps as a relation, one rule per outcome of a round.\<close>

inductive tunnel_step :: "tun \<Rightarrow> tun \<Rightarrow> bool" where
  select_fails: "tunnel_step (Run cd sd) (Stop False cd sd)"
| select_none: "tunnel_step (Run cd sd) (Run cd sd)"
| client_sends: "so_read (int BUFSIZE) (p_in cd) = (ret, d, s) \<Longrightarrow> 0 < ret \<Longrightarrow>
    tunnel_step (Run cd sd) (Run (cd\<lparr>p_in := s\<rparr>) (pass_on d sd))"
| client_ends: "so_read (int BUFSIZE) (p_in cd) = (ret, d, s) \<Longrightarrow> ret \<le> 0 \<Longrightarrow>
    tunnel_step (Run cd sd) (Stop (ret = 0) (cd\<lparr>p_in := s\<rparr>) sd)"
| server_sends: "so_read (int BUFSIZE) (p_in sd) = (ret, d, s) \<Longrightarrow> 0 < ret \<Longrightarrow>
    tunnel_step (Run cd sd) (Run (pass_on d cd) (sd\<lparr>p_in := s\<rparr>))"
| server_ends: "so_read (int BUFSIZE) (p_in sd) = (ret, d, s) \<Longrightarrow> ret \<le> 0 \<Longrightarrow>
    tunnel_step (Run cd sd) (Stop (ret = 0) cd (sd\<lparr>p_in := s\<rparr>))"

inductive_cases tunnel_step_RunE: "tunnel_step (Run cd sd) t"
inductive_simps tunnel_step_Stop: "tunnel_step (Stop ok cd sd) t"

lemma tunnel_round_step: "tunnel_step (Run cd sd) (tunnel_round e cd sd)"
  by (cases "(e, cd, sd)" rule: tunnel_round.cases)
    (auto intro: tunnel_step.intros split: prod.split simp del: of_nat_numeral)

lemma tunnel_reach: "rtranclp tunnel_step t (tunnel es t)"
proof (induction es t rule: tunnel.induct)
  case (1 e es cd sd)
  then show ?case using converse_rtranclp_into_rtranclp [of tunnel_step, OF tunnel_round_step] by simp
qed auto

text \<open>
  The invariant: what a peer was sent and what the other still has to send are, together, what the
  other had to send; writes lose nothing.
\<close>

definition peer_wf :: "peer \<Rightarrow> bool" where
  "peer_wf p \<longleftrightarrow> sock_wf (p_in p) \<and> sk_plan (p_out p) = []"

definition flow_inv :: "peer \<Rightarrow> peer \<Rightarrow> peer \<Rightarrow> peer \<Rightarrow> bool" where
  "flow_inv cd0 sd0 cd sd \<longleftrightarrow> peer_wf cd \<and> peer_wf sd
     \<and> so_err (p_in cd) = so_err (p_in cd0) \<and> so_err (p_in sd) = so_err (p_in sd0)
     \<and> sk_out (p_out sd) @ so_data (p_in cd) = sk_out (p_out sd0) @ so_data (p_in cd0)
     \<and> sk_out (p_out cd) @ so_data (p_in sd) = sk_out (p_out cd0) @ so_data (p_in sd0)"

fun tun_inv :: "peer \<Rightarrow> peer \<Rightarrow> tun \<Rightarrow> bool" where
  "tun_inv cd0 sd0 (Run cd sd) = flow_inv cd0 sd0 cd sd"
| "tun_inv cd0 sd0 (Stop ok cd sd) = flow_inv cd0 sd0 cd sd"

lemma so_read_after: "sock_wf s \<Longrightarrow> 0 < n \<Longrightarrow> so_read n s = (ret, d, s') \<Longrightarrow> so_after s d s'"
  by (cases "so_data s = []") (auto simp: so_read_end elim: so_read_some)

lemma flow_client:
  assumes "flow_inv cd0 sd0 cd sd" "so_read (int BUFSIZE) (p_in cd) = (ret, d, s)"
  shows "flow_inv cd0 sd0 (cd\<lparr>p_in := s\<rparr>) (pass_on d sd)"
    "ret \<le> 0 \<Longrightarrow> flow_inv cd0 sd0 (cd\<lparr>p_in := s\<rparr>) sd"
proof -
  have "so_after (p_in cd) d s"
    using assms by (intro so_read_after) (auto simp: flow_inv_def peer_wf_def)
  moreover have "d = []" if "ret \<le> 0"
    using that assms(2) by (auto simp: so_read_def split: list.splits if_splits)
  ultimately show "flow_inv cd0 sd0 (cd\<lparr>p_in := s\<rparr>) (pass_on d sd)"
    "ret \<le> 0 \<Longrightarrow> flow_inv cd0 sd0 (cd\<lparr>p_in := s\<rparr>) sd"
    using assms(1)
    by (auto simp: flow_inv_def so_after_def peer_wf_def pass_on_def so_write_ideal)
qed

lemma flow_sym: "flow_inv cd0 sd0 cd sd \<longleftrightarrow> flow_inv sd0 cd0 sd cd"
  by (auto simp: flow_inv_def)

lemma tunnel_step_inv: "tunnel_step t t' \<Longrightarrow> tun_inv cd0 sd0 t \<Longrightarrow> tun_inv cd0 sd0 t'"
proof (induction rule: tunnel_step.induct)
  case (server_sends sd ret d s cd)
  then show ?case using flow_client(1) [of sd0 cd0 sd cd] by (simp add: flow_sym [of cd0 sd0])
next
  case (server_ends sd ret d s cd)
  then show ?case using flow_client(2) [of sd0 cd0 sd cd] by (simp add: flow_sym [of cd0 sd0])
qed (auto intro: flow_client)

lemma tunnel_reach_inv:
  "rtranclp tunnel_step t t' \<Longrightarrow> tun_inv cd0 sd0 t \<Longrightarrow> tun_inv cd0 sd0 t'"
  by (induction rule: rtranclp_induct) (auto intro: tunnel_step_inv)

lemma tunnel_round_size:
  "tunnel_round e cd sd = Run cd' sd' \<Longrightarrow>
   so_size (p_in cd') + so_size (p_in sd') + (if e = SelNone then 0 else 1)
     \<le> so_size (p_in cd) + so_size (p_in sd)"
  by (cases "(e, cd, sd)" rule: tunnel_round.cases)
    (auto split: prod.splits if_splits dest: so_read_size simp: pass_on_def simp del: of_nat_numeral)

lemma tunnel_size:
  "tunnel es (Run cd sd) = Run cd' sd' \<Longrightarrow>
   length (filter (\<lambda>e. e \<noteq> SelNone) es) \<le> so_size (p_in cd) + so_size (p_in sd)"
proof (induction es arbitrary: cd sd)
  case (Cons e es)
  show ?case
  proof (cases "tunnel_round e cd sd")
    case (Run c s)
    with Cons.IH [of c s] Cons.prems tunnel_round_size [OF Run] show ?thesis by auto
  next
    case (Stop ok c s)
    with Cons.prems show ?thesis by (cases es) auto
  qed
qed simp

text \<open>Why the tunnel stopped.\<close>

lemma tunnel_round_stop:
  assumes "tunnel_round e cd sd = Stop ok cd' sd'" "peer_wf cd" "peer_wf sd"
  shows "if ok then so_data (p_in cd') = [] \<or> so_data (p_in sd') = []
    else e = SelError \<or> so_err (p_in cd) \<or> so_err (p_in sd)"
proof -
  have R: "so_data s = [] \<and> s' = s \<and> ret = (if so_err s then -1 else 0)"
    if "so_read (int BUFSIZE) s = (ret, d, s')" "ret \<le> 0" "sock_wf s" for s s' ret d
  proof -
    have "so_data s = []" using that so_read_some [of s "int BUFSIZE"] by force
    with that so_read_end [of s "int BUFSIZE"] show ?thesis by simp
  qed
  show ?thesis
    using assms by (cases "(e, cd, sd)" rule: tunnel_round.cases)
      (auto simp: peer_wf_def simp del: of_nat_numeral dest!: R split: prod.splits if_splits)
qed

lemma tunnel_stop:
  assumes "tunnel es (Run cd sd) = Stop ok cd' sd'" "peer_wf cd" "peer_wf sd"
  shows "if ok then so_data (p_in cd') = [] \<or> so_data (p_in sd') = []
    else SelError \<in> set es \<or> so_err (p_in cd) \<or> so_err (p_in sd)"
  using assms
proof (induction es arbitrary: cd sd)
  case (Cons e es)
  have inv: "flow_inv cd sd cd sd" using Cons.prems by (simp add: flow_inv_def)
  show ?case
  proof (cases "tunnel_round e cd sd")
    case (Run c s)
    with tunnel_step_inv [OF tunnel_round_step [of cd sd e], of cd sd] inv
    have "peer_wf c" "peer_wf s" "so_err (p_in c) = so_err (p_in cd)" "so_err (p_in s) = so_err (p_in sd)"
      by (auto simp: flow_inv_def)
    with Cons.IH [of c s] Cons.prems Run show ?thesis by (auto split: if_splits)
  next
    case (Stop ok' c s)
    with Cons.prems have "ok' = ok" "c = cd'" "s = sd'" by (cases es; simp)+
    with tunnel_round_stop [OF Stop] Cons.prems show ?thesis by auto
  qed
qed simp

section \<open>Properties\<close>

text \<open>
  Reading a line.  However the stream is cut into segments and whatever the size of the buffer
  (2 at least), so_recvln returns exactly the characters up to and including the first line feed
  and leaves the rest unread, or everything there is with the result of the failing read when no
  line feed comes; the buffer it has grown holds the line with its terminator.
\<close>

theorem so_recvln_exact:
  assumes "sock_wf s" "1 < n"
  shows "\<exists>n' s'. so_recvln s n =
      (if LF \<in> set (so_data s) then (1, takeWhile (\<lambda>c. c \<noteq> LF) (so_data s) @ [LF], n', s')
       else (if so_err s then -1 else 0, so_data s, n', s'))
    \<and> length (fst (snd (so_recvln s n))) < n' \<and> n \<le> n'
    \<and> so_data s' = drop 1 (dropWhile (\<lambda>c. c \<noteq> LF) (so_data s))"
proof (cases "LF \<in> set (so_data s)")
  case True
  then obtain a r where split: "so_data s = a @ LF # r" "LF \<notin> set a" by (meson split_list_first)
  then have tw: "takeWhile (\<lambda>c. c \<noteq> LF) (so_data s) = a" "dropWhile (\<lambda>c. c \<noteq> LF) (so_data s) = LF # r"
    by (auto simp: takeWhile_append dropWhile_append)
  from so_recvln_line [OF assms(1) split assms(2)] obtain n' s' where
    "so_recvln s n = (1, a @ [LF], n', s')" "so_data s' = r" "n \<le> n'" "length a + 1 < n'" .
  with True show ?thesis unfolding tw by (intro exI [of _ n'] exI [of _ s']) simp
next
  case False
  then have dw: "dropWhile (\<lambda>c. c \<noteq> LF) (so_data s) = []" by auto
  from recvln_loop_end [of s NUL "[]" n 1] assms False obtain n' s' where
    "so_recvln s n = (if so_err s then -1 else 0, so_data s, n', s')" "so_data s' = []" "n \<le> n'"
    "length (so_data s) < n'" unfolding so_recvln_def by auto
  with False show ?thesis unfolding dw by (intro exI [of _ n'] exI [of _ s']) simp
qed

theorem so_recvln_exact_witness:
  "\<exists>n' s'. so_recvln \<lparr>so_segs = [''GE'', ''T /'' @ [CR, LF] @ ''Ho'', ''st''], so_err = False\<rparr> 2
     = (1, ''GET /'' @ [CR, LF], n', s') \<and> so_data s' = ''Host''"
proof -
  let ?s = "\<lparr>so_segs = [''GE'', ''T /'' @ [CR, LF] @ ''Ho'', ''st''], so_err = False\<rparr>"
  have wf: "sock_wf ?s" and d: "so_data ?s = ''GET /'' @ [CR, LF] @ ''Host''"
    by (simp_all add: sock_wf_def so_data_def)
  have lf: "LF \<in> set (so_data ?s)" "takeWhile (\<lambda>c. c \<noteq> LF) (so_data ?s) @ [LF] = ''GET /'' @ [CR, LF]"
    "drop 1 (dropWhile (\<lambda>c. c \<noteq> LF) (so_data ?s)) = ''Host''"
    unfolding d by simp_all
  from so_recvln_exact [OF wf, of 2] show ?thesis unfolding lf(2,3) if_P [OF lf(1)] by fastforce
qed

text \<open>
  A body of known length, or up to the end of the stream (length -1).  To a destination that
  takes all it is given (or to none) data_send passes on exactly the announced number of bytes, in
  order, however the stream is cut into segments, and reads nothing of what follows; when the
  stream ends or fails before, it passes on what there is and returns 0.  Without a length it
  passes on everything (less than 2 GiB: the count of bytes is an int) and returns whether the
  stream ended without an error.
\<close>

theorem data_send_delivers:
  assumes "sock_wf src" "sink_ideal dst" "-1 \<le> len" "len < 2 ^ 31"
    "len = -1 \<Longrightarrow> length (so_data src) < 2 ^ 31"
  shows "\<exists>src' sent. sent = (if len = -1 then so_data src else take (nat len) (so_data src))
    \<and> data_send dst src len =
      Ret (if len = -1 then \<not> so_err src else len \<le> int (length (so_data src)), src', sink_add dst sent)
    \<and> so_after src sent src'"
proof (cases "len = -1")
  case True
  with ds_loop_until_eof [of src dst 0 1] assms(1,2,5) show ?thesis
    by (auto simp: data_send_def)
next
  case False
  with assms(3) have "0 \<le> len" by simp
  from data_send_exact [OF assms(1,2) this assms(4)] False show ?thesis by auto
qed

theorem data_send_delivers_witness:
  "(\<exists>src'. data_send (Some \<lparr>sk_out = ''x'', sk_plan = []\<rparr>) \<lparr>so_segs = [''ab'', ''cde''], so_err = False\<rparr> 4 =
      Ret (True, src', Some \<lparr>sk_out = ''xabcd'', sk_plan = []\<rparr>) \<and> so_data src' = ''e'')
   \<and> (\<exists>src'. data_send None \<lparr>so_segs = [''ab'', ''cde''], so_err = True\<rparr> (-1) = Ret (False, src', None)
      \<and> so_data src' = [])"
proof
  have d: "so_data \<lparr>so_segs = [''ab'', ''cde''], so_err = e\<rparr> = ''abcde''"
    "sock_wf \<lparr>so_segs = [''ab'', ''cde''], so_err = e\<rparr>" for e
    by (simp_all add: so_data_def sock_wf_def)
  have t: "take (nat 4) ''abcde'' = ''abcd''" by (simp add: numeral_eq_Suc)
  have k: "sink_add (Some \<lparr>sk_out = ''x'', sk_plan = []\<rparr>) ''abcd'' = Some \<lparr>sk_out = ''xabcd'', sk_plan = []\<rparr>"
    "sink_ideal (Some \<lparr>sk_out = ''x'', sk_plan = []\<rparr>)"
    by (simp_all add: sink_add_def sink_ideal_def)
  from data_send_delivers [OF d(2) k(2), of 4 False]
  show "\<exists>src'. data_send (Some \<lparr>sk_out = ''x'', sk_plan = []\<rparr>) \<lparr>so_segs = [''ab'', ''cde''], so_err = False\<rparr> 4 =
      Ret (True, src', Some \<lparr>sk_out = ''xabcd'', sk_plan = []\<rparr>) \<and> so_data src' = ''e''"
    unfolding d t by (auto simp: k so_after_def d)
  from data_send_delivers [OF d(2), of None "-1" True]
  show "\<exists>src'. data_send None \<lparr>so_segs = [''ab'', ''cde''], so_err = True\<rparr> (-1) = Ret (False, src', None)
      \<and> so_data src' = []"
    unfolding d by (auto simp: so_after_def d)
qed

text \<open>
  C34: a chunked body.  For every chunked body (sizes in hexadecimal digits that are the lengths of
  the chunks, optional extensions, a last chunk of size 0, trailer lines and the empty line) and
  every way the stream is cut into segments, chunked_data_send passes on the body, byte for byte,
  reads nothing of what follows it, and returns 1.
\<close>

theorem chunked_data_send_exact:
  assumes "sock_wf src" "sink_ideal dst" "list_all chunk_wf cs" "size_line_wf zs zext"
    "digits_val 16 zs = 0" "list_all trailer_wf ts"
    "so_data src = concat (map chunk_text cs) @ size_line zs zext @ trailer_text ts @ rest"
  shows "\<exists>src'. chunked_data_send dst src = Some (Ret (True, src',
      sink_add dst (concat (map chunk_text cs) @ size_line zs zext @ trailer_text ts)))
    \<and> so_data src' = rest \<and> sock_wf src'"
  using chunked_data_send_forwards [OF assms] by blast

theorem chunked_data_send_exact_witness:
  "\<exists>src'. chunked_data_send (Some \<lparr>sk_out = [], sk_plan = []\<rparr>)
      \<lparr>so_segs = [''0'', ''3'' @ CRLF @ ''a'', ''bc'' @ CRLF @ ''0;last'' @ CRLF @ ''X: y'' @ CRLF @ CRLF @ ''HTTP''],
       so_err = False\<rparr>
    = Some (Ret (True, src', Some \<lparr>sk_out = ''03'' @ CRLF @ ''abc'' @ CRLF @ ''0;last'' @ CRLF @ ''X: y'' @ CRLF @ CRLF,
        sk_plan = []\<rparr>)) \<and> so_data src' = ''HTTP''"
proof -
  have wf: "size_line_wf ''03'' []" "digits_val 16 ''03'' = 3" "size_line_wf ''0'' '';last''"
    "digits_val 16 ''0'' = 0" "list_all trailer_wf [''X: y'']" by code_simp+
  then have "list_all chunk_wf [(''03'', [], ''abc'')]" by (simp add: chunk_wf_def)
  note wf = this wf(3-)
  let ?s = "\<lparr>so_segs = [''0'', ''3'' @ CRLF @ ''a'',
      ''bc'' @ CRLF @ ''0;last'' @ CRLF @ ''X: y'' @ CRLF @ CRLF @ ''HTTP''], so_err = False\<rparr>"
  have s: "sock_wf ?s" by (simp add: sock_wf_def)
  have d: "so_data ?s = concat (map chunk_text [(''03'', [], ''abc'')]) @ size_line ''0'' '';last''
      @ trailer_text [''X: y''] @ ''HTTP''"
    by (simp add: so_data_def chunk_text_Pair size_line_def trailer_text_def)
  have i: "sink_ideal (Some \<lparr>sk_out = [], sk_plan = []\<rparr>)" by (simp add: sink_ideal_def)
  have o: "sink_add (Some \<lparr>sk_out = [], sk_plan = []\<rparr>) (concat (map chunk_text [(''03'', [], ''abc'')])
      @ size_line ''0'' '';last'' @ trailer_text [''X: y''])
    = Some \<lparr>sk_out = ''03'' @ CRLF @ ''abc'' @ CRLF @ ''0;last'' @ CRLF @ ''X: y'' @ CRLF @ CRLF, sk_plan = []\<rparr>"
    by (simp add: sink_add_def chunk_text_Pair size_line_def trailer_text_def)
  from chunked_data_send_exact [OF s i wf d] show ?thesis unfolding o by blast
qed

text \<open>
  C40: chunked_data_send always returns: whatever the stream holds, whatever the destination does,
  the loops over chunks and trailer lines end, because each round reads at least one character.
\<close>

theorem chunked_data_send_returns: "\<exists>r. chunked_data_send dst src = Some r"
proof -
  from chunk_loop_total [of BUFSIZE dst src] obtain r where
    r: "chunk_loop dst src BUFSIZE = Some r" "\<forall>ok s d m. r = Ret (ok, s, d, m) \<longrightarrow> 1 < m" by auto
  show ?thesis
  proof (cases r)
    case (Ret x)
    obtain ok s d m where x: "x = (ok, s, d, m)" by (cases x) auto
    with Ret r have "1 < m" by blast
    from trailer_loop_total [OF this, of d s] Ret x r show ?thesis
      by (cases ok) (auto simp: chunked_data_send_def)
  qed (use r in \<open>simp add: chunked_data_send_def\<close>)
qed

text \<open>
  C37: the tunnel.  With writes that lose nothing, whatever select returns, both directions are passed
  on in order and nothing is lost or made up: at every moment, what a peer was sent followed by
  what the other has not yet been read of is what the other sends.  The loop goes on for at most as
  many ready descriptors as there are segments and bytes to read; it returns 1 only when one of the
  two streams is used up, and 0 only after select or a stream has failed.
\<close>

theorem tunnel_in_order:
  assumes "peer_wf cd" "peer_wf sd"
  shows "case tunnel es (Run cd sd) of
      Run cd' sd' \<Rightarrow> flow_inv cd sd cd' sd'
        \<and> length (filter (\<lambda>e. e \<noteq> SelNone) es) \<le> so_size (p_in cd) + so_size (p_in sd)
    | Stop ok cd' sd' \<Rightarrow> flow_inv cd sd cd' sd'
        \<and> (if ok then so_data (p_in cd') = [] \<or> so_data (p_in sd') = []
           else SelError \<in> set es \<or> so_err (p_in cd) \<or> so_err (p_in sd))"
proof -
  have "tun_inv cd sd (tunnel es (Run cd sd))"
    using tunnel_reach_inv [OF tunnel_reach] assms by (simp add: flow_inv_def)
  then show ?thesis using tunnel_size [of es cd sd] tunnel_stop [OF _ assms, of es]
    by (auto split: tun.split)
qed

theorem tunnel_in_order_witness:
  "\<exists>cd' sd'. tunnel [SelReady False, SelReady True, SelReady True]
      (Run \<lparr>p_in = \<lparr>so_segs = [''hello''], so_err = False\<rparr>, p_out = \<lparr>sk_out = [], sk_plan = []\<rparr>\<rparr>
           \<lparr>p_in = \<lparr>so_segs = [''w''], so_err = False\<rparr>, p_out = \<lparr>sk_out = [], sk_plan = []\<rparr>\<rparr>)
    = Stop True cd' sd' \<and> sk_out (p_out cd') = ''w'' \<and> sk_out (p_out sd') = ''hello''"
  using tunnel_in_order [of "\<lparr>p_in = \<lparr>so_segs = [''hello''], so_err = False\<rparr>, p_out = \<lparr>sk_out = [], sk_plan = []\<rparr>\<rparr>"
      "\<lparr>p_in = \<lparr>so_segs = [''w''], so_err = False\<rparr>, p_out = \<lparr>sk_out = [], sk_plan = []\<rparr>\<rparr>"
      "[SelReady False, SelReady True, SelReady True]"]
  by (simp add: peer_wf_def sock_wf_def so_read_def pass_on_def so_write_def flow_inv_def so_data_def)

end
