(* ===== verification/Http.thy ===== *)
theory Http
  imports RRData SockIO Base64 Ntlm
begin

text \<open>
  http.c: header lines, receiving and sending the head of a message, the decision whether a body
  follows, forwarding or discarding it, and the credentials of a Basic header.  A computation that
  reads until a stream ends has the type \<open>c_prog\<close>: \<open>None\<close> is not returning.
\<close>

section \<open>Header lines\<close>

definition is_http_header :: "string \<Rightarrow> bool" where
  "is_http_header src \<longleftrightarrow> strcspn src '':'' \<noteq> length src"

definition get_http_header_name :: "string \<Rightarrow> string option c_result" where
  "get_http_header_name src =
     (let i = strcspn src '':''
      in if i \<noteq> length src then c_bind (substr src 0 (int i)) (\<lambda>s. Ret (Some s)) else Ret None)"

definition get_http_header_value :: "string \<Rightarrow> string option" where
  "get_http_header_value src =
     (case strchr src CHR '':'' of
        None \<Rightarrow> None
      | Some sub \<Rightarrow> Some (dropWhile (\<lambda>c. c = CHR '' '') (drop 1 sub)))"

section \<open>headers\_recv\<close>

text \<open>A read line: the C string in the buffer without its trailing white space.\<close>

definition line_of :: "string \<Rightarrow> string" where
  "line_of buf = trimr (cstr_of buf)"

text \<open>
  The status line after its first token \<open>tok\<close>, with \<open>rest\<close> what follows the delimiter.  The
  result code is -2 when there is no three-character code or its value is 0; the message is all
  that follows the one blank after the code.
\<close>

definition recv_status :: "string \<Rightarrow> string \<Rightarrow> int \<Rightarrow> rr_data_s \<Rightarrow> int \<times> rr_data_s" where
  "recv_status tok rest i data =
     (let d = data\<lparr>rr_req := 0, rr_empty := 0, rr_http := Some tok, rr_msg := Some []\<rparr>
      in case strtok_r rest '' '' of
           None \<Rightarrow> (-2, d)
         | Some (ccode, msg) \<Rightarrow>
             let d1 = d\<lparr>rr_msg := Some msg\<rparr>
             in if length ccode \<noteq> 3 then (-2, d1)
                else let d2 = d1\<lparr>rr_code := atoi ccode\<rparr>
                     in if atoi ccode = 0 then (-2, d2) else (i, d2))"

text \<open>Host and relative part of a URL; the host of a URL that starts with a slash is all of it.\<close>

definition url_parts :: "string \<Rightarrow> (string \<times> string) c_result" where
  "url_parts url =
     (let tok = (case strstr url ''://'' of Some r \<Rightarrow> drop 3 r | None \<Rightarrow> url)
      in case strchr tok CHR ''/'' of
           Some s3 \<Rightarrow> c_bind (substr tok 0 (int (length tok - length s3))) (\<lambda>host. Ret (host, s3))
         | None \<Rightarrow> c_bind (substr tok 0 (int (length tok))) (\<lambda>host. Ret (host, ''/'')))"

text \<open>The request line after its first token: the host, when the line is complete.\<close>

definition recv_request ::
  "string \<Rightarrow> string \<Rightarrow> int \<Rightarrow> rr_data_s \<Rightarrow> (int \<times> rr_data_s \<times> string option) c_result" where
  "recv_request tok rest i data =
     (let d = data\<lparr>rr_req := 1, rr_empty := 0, rr_method := Some tok, rr_url := None,
               rr_rel_url := None, rr_http := None, rr_hostname := None\<rparr>;
          (url, rest2) = (case strtok_r rest '' '' of None \<Rightarrow> (None, []) | Some (t, r) \<Rightarrow> (Some t, r));
          http = map_option fst (strtok_r rest2 '' '');
          d1 = d\<lparr>rr_url := url, rr_http := http\<rparr>
      in case (url, http) of
           (Some u, Some h) \<Rightarrow>
             c_bind (url_parts u) (\<lambda>(host, rel). Ret (i, d1\<lparr>rr_rel_url := Some rel\<rparr>, Some host))
         | _ \<Rightarrow> Ret (-3, d1, None))"

text \<open>
  The first line: the result code so far, the structure, and the host of a request.  \<open>strtok_r\<close> has
  cut the buffer after the first token.
\<close>

definition recv_start ::
  "string \<Rightarrow> int \<Rightarrow> rr_data_s \<Rightarrow> (int \<times> rr_data_s \<times> string option) c_result" where
  "recv_start orig i data =
     (case strtok_r orig '' '' of
        Some (tok, rest) \<Rightarrow>
          let buf = takeWhile (\<lambda>c. c = CHR '' '') orig @ tok
          in if strncaseeq buf ''HTTP/'' 5 \<or> strncaseeq tok ''ICY'' 3
             then (case recv_status tok rest i data of (i', d) \<Rightarrow> Ret (i', d, None))
             else if strstr orig '' HTTP/'' \<noteq> None then recv_request tok rest i data
             else Ret (-4, data, None)
      | None \<Rightarrow> Ret (-4, data, None))"

text \<open>The loop over the header lines: the last result, the headers, and where the stream is.\<close>

partial_function (option) recv_headers ::
  "sock \<Rightarrow> nat \<Rightarrow> hlist_t \<Rightarrow> (int \<times> hlist_t \<times> sock) c_prog" where
  "recv_headers src bsize hs =
     (case so_recvln src bsize of (i, buf, bsize', src1) \<Rightarrow>
        let line = line_of buf
        in case (if i > 0 \<and> is_http_header line
                 then c_bind (get_http_header_name line)
                        (\<lambda>k. Ret (hlist_add hs k (get_http_header_value line)))
                 else Ret hs) of
             UB \<Rightarrow> Some UB
           | Ret hs' \<Rightarrow> if line \<noteq> [] \<and> i > 0 then recv_headers src1 bsize' hs'
                        else Some (Ret (i, hs', src1)))"

text \<open>
  The repairs of a request: host name, Host header and port.  Each branch gives the result code and
  the structure.
\<close>

definition fix_request :: "string option \<Rightarrow> int \<Rightarrow> rr_data_s \<Rightarrow> int \<times> rr_data_s" where
  "fix_request host i data =
     (case host of
        Some (c # h) \<Rightarrow>
          let name = c # h;
              d = data\<lparr>rr_hostname := Some name,
                    rr_headers := (if hlist_get (rr_headers data) ''Host'' = None
                                   then hlist_add (rr_headers data) (Some ''Host'') (Some name)
                                   else rr_headers data)\<rparr>;
              d1 = (case strchr name CHR '':'' of
                      Some r \<Rightarrow> d\<lparr>rr_hostname := Some (take (length name - length r) name),
                                  rr_port := atoi (drop 1 r)\<rparr>
                    | None \<Rightarrow>
                        (case rr_url d of
                           Some u \<Rightarrow> d\<lparr>rr_port := (if strncaseeq u ''https'' 5 then 443 else 80)\<rparr>
                         | None \<Rightarrow> d))
          in (if rr_hostname d1 = Some [] \<or> rr_port d1 = 0 then -5 else i, d1)
      | _ \<Rightarrow> (-6, data))"

text \<open>Returns whether the head was received, the structure and the stream.\<close>

definition headers_recv :: "sock \<Rightarrow> rr_data_s \<Rightarrow> (bool \<times> rr_data_s \<times> sock) c_prog" where
  "headers_recv src data =
     (case so_recvln src BUFSIZE of (i, buf, bsize, src1) \<Rightarrow>
        if i \<le> 0 then Some (Ret (False, data, src1))
        else p_bind (Some (recv_start (line_of buf) i data)) (\<lambda>(i1, d1, host).
          if i1 \<le> 0 then Some (Ret (False, d1, src1))
          else p_bind (recv_headers src1 bsize (rr_headers d1)) (\<lambda>(i2, hs, src2).
            let d2 = d1\<lparr>rr_headers := hs\<rparr>;
                (i3, d3) = (if rr_req d2 \<noteq> 0 then fix_request host i2 d2 else (i2, d2))
            in Some (Ret (i3 > 0, d3, src2)))))"

section \<open>headers\_send\<close>

text \<open>\<open>%03d\<close>.\<close>

definition show_int3 :: "int \<Rightarrow> string" where
  "show_int3 i =
     (if i < 0 then CHR ''-'' # replicate (2 - length (show_nat (nat (- i)))) CHR ''0'' @ show_nat (nat (- i))
      else show_nat3 (nat i))"

definition header_line :: "hlist_s \<Rightarrow> string" where
  "header_line t = hkey t @ '': '' @ hvalue t @ CRLF"

text \<open>What is written to the buffer: first line, headers and the empty line.\<close>

definition headers_text :: "rr_data_s \<Rightarrow> string c_result" where
  "headers_text data =
     (let hs = concat (map header_line (rr_headers data)) @ CRLF
      in if rr_req data \<noteq> 0 then
           (case (rr_method data, rr_url data, rr_http data) of
              (Some m, Some u, Some h) \<Rightarrow> Ret (m @ '' '' @ u @ '' '' @ h @ CRLF @ hs)
            | _ \<Rightarrow> UB)
         else
           (case (rr_http data, rr_msg data) of
              (Some h, Some m) \<Rightarrow>
                Ret ((if rr_skip_http data = 0 then h @ '' '' @ show_int3 (rr_code data) @ '' '' @ m @ CRLF
                      else []) @ hs)
            | _ \<Rightarrow> UB))"

text \<open>The size of the buffer, computed beforehand.\<close>

definition headers_size :: "rr_data_s \<Rightarrow> nat" where
  "headers_size data =
     (let len = (\<lambda>s. length (the s))
      in (if rr_req data \<noteq> 0 then 20 + len (rr_method data) + len (rr_url data) + len (rr_http data)
          else 20 + len (rr_http data) + len (rr_msg data))
         + sum_list (map (\<lambda>t. 20 + length (hkey t) + length (hvalue t)) (rr_headers data)))"

definition headers_send :: "sink \<Rightarrow> rr_data_s \<Rightarrow> (bool \<times> sink) c_result" where
  "headers_send k data =
     c_bind (headers_text data) (\<lambda>buf.
       if length buf + 1 > headers_size data then UB
       else if sink_closed k then Ret (False, k\<lparr>sk_plan := tl (sk_plan k)\<rparr>)
       else (case so_write buf k of (i, k') \<Rightarrow> Ret (i > 0 \<and> i = int (length buf), k')))"

section \<open>Bodies\<close>

text \<open>The macros CONNECT, HEAD and GET.\<close>

definition has_method :: "string \<Rightarrow> rr_data_s option \<Rightarrow> bool c_result" where
  "has_method name data =
     (case data of
        None \<Rightarrow> Ret False
      | Some d \<Rightarrow> if rr_req d = 0 then Ret False
                  else (case rr_method d of None \<Rightarrow> UB | Some m \<Rightarrow> Ret (strcaseeq name m)))"

text \<open>The length from the headers: 0 no body, -1 up to the end, otherwise the length or chunked.\<close>

definition body_length :: "hlist_t \<Rightarrow> bool \<Rightarrow> int" where
  "body_length hs nobody =
     (let tmp = hlist_get hs ''Content-Length''
      in if \<not> nobody \<and> tmp = None
            \<and> (hlist_in hs ''Content-Type'' \<or> hlist_in hs ''Transfer-Encoding''
               \<or> hlist_subcmp hs ''Connection'' ''close'')
         then (if hlist_in hs ''Transfer-Encoding'' \<and> hlist_subcmp hs ''Transfer-Encoding'' ''chunked''
               then 1 else -1)
         else (case tmp of None \<Rightarrow> 0 | Some t \<Rightarrow> if nobody then 0 else atoll t))"

text \<open>The request's own body; a structure that is NULL is dereferenced.\<close>

definition request_body :: "rr_data_s option \<Rightarrow> int c_result" where
  "request_body request =
     c_bind (has_method ''GET'' request) (\<lambda>g.
     c_bind (if g then Ret True else has_method ''HEAD'' request) (\<lambda>nobody.
       case request of
         None \<Rightarrow> UB
       | Some r \<Rightarrow> (let len = body_length (rr_headers r) nobody
                   in Ret (if len = -1 then 0 else len))))"

definition http_has_body :: "rr_data_s option \<Rightarrow> rr_data_s option \<Rightarrow> int c_result" where
  "http_has_body request response =
     (case response of
        None \<Rightarrow> request_body request
      | Some r \<Rightarrow>
          if rr_empty r \<noteq> 0 then request_body request
          else c_bind (has_method ''HEAD'' request) (\<lambda>head.
            Ret (body_length (rr_headers r)
              (head \<or> (100 \<le> rr_code r \<and> rr_code r < 200) \<or> rr_code r = 204 \<or> rr_code r = 304))))"

text \<open>The forwarding common to both operations below, for the message with headers \<open>hs\<close>.\<close>

definition body_transfer ::
  "sink option \<Rightarrow> sock \<Rightarrow> hlist_t \<Rightarrow> int \<Rightarrow> (bool \<times> sock \<times> sink option) c_prog" where
  "body_transfer dst src hs bodylen =
     (if bodylen = 0 then Some (Ret (True, src, dst))
      else if hlist_subcmp hs ''Transfer-Encoding'' ''chunked'' then chunked_data_send dst src
      else Some (data_send dst src bodylen))"

definition http_body_send ::
  "sink option \<Rightarrow> sock \<Rightarrow> rr_data_s option \<Rightarrow> rr_data_s option \<Rightarrow> (bool \<times> sock \<times> sink option) c_prog" where
  "http_body_send dst src request response =
     (case response of
        None \<Rightarrow> Some UB
      | Some r \<Rightarrow>
          p_bind (Some (http_has_body request response)) (\<lambda>bodylen.
            if bodylen = 0 then Some (Ret (True, src, dst))
            else case (if rr_empty r \<noteq> 0 then request else response) of
              None \<Rightarrow> Some UB
            | Some current \<Rightarrow> body_transfer dst src (rr_headers current) bodylen))"

definition http_body_drop :: "sock \<Rightarrow> rr_data_s option \<Rightarrow> (bool \<times> sock \<times> sink option) c_prog" where
  "http_body_drop src response =
     p_bind (Some (http_has_body None response)) (\<lambda>bodylen.
       case response of
         None \<Rightarrow> Some UB
       | Some r \<Rightarrow> body_transfer None src (rr_headers r) bodylen)"

section \<open>Basic credentials\<close>

text \<open>
  The start of the encoded credentials: the loop skips blanks from the character after the sixth on.
\<close>

definition basic_start :: "string \<Rightarrow> nat" where
  "basic_start tmp =
     (if length tmp \<le> 5 then 5
      else 6 + length (takeWhile (\<lambda>c. c = CHR '' '') (drop 6 tmp)))"

text \<open>The decoded credentials: the C string in the buffer, whatever \<open>from_base64\<close> returns.\<close>

definition basic_decoded :: "string \<Rightarrow> string" where
  "basic_decoded tmp = cstr_of (chars_of (snd (from_base64 (drop (basic_start tmp) tmp))))"

text \<open>Domain (when there is one), user and password.\<close>

definition basic_split :: "string \<Rightarrow> (string option \<times> string \<times> string) option" where
  "basic_split buf =
     (case strchr buf CHR '':'' of
        None \<Rightarrow> None
      | Some pos \<Rightarrow>
          let names = take (length buf - length pos) buf
          in Some (case strchr names (CHR 0x5C) of
               None \<Rightarrow> (None, names, drop 1 pos)
             | Some bs \<Rightarrow> (Some (take (length names - length bs) names), drop 1 bs, drop 1 pos)))"

text \<open>The password hashes the credentials ask for.\<close>

definition basic_hashes :: "string \<Rightarrow> auth_s \<Rightarrow> auth_s c_result" where
  "basic_hashes pass a =
     c_bind (if hashntlm2 a \<noteq> 0 then
               c_bind (read_cstr (auth_user a)) (\<lambda>u. c_bind (read_cstr (auth_domain a)) (\<lambda>d.
               auth_memcpy (passntlm2 a) (Some (ntlm2_hash_password u d pass)) 16))
             else Ret (passntlm2 a)) (\<lambda>p2.
     c_bind (if hashnt a \<noteq> 0 then auth_memcpy (passnt a) (Some (ntlm_hash_nt_password pass)) 21
             else Ret (passnt a)) (\<lambda>pn.
     c_bind (if hashlm a \<noteq> 0 then auth_memcpy (passlm a) (Some (ntlm_hash_lm_password pass)) 21
             else Ret (passlm a)) (\<lambda>pl.
       Ret (a\<lparr>passntlm2 := p2, passnt := pn, passlm := pl\<rparr>))))"

text \<open>1 credentials parsed, 0 none, -1 invalid.\<close>

definition http_parse_basic :: "hlist_t \<Rightarrow> string \<Rightarrow> auth_s \<Rightarrow> (int \<times> auth_s) c_result" where
  "http_parse_basic headers header tcreds =
     (case hlist_get headers header of
        None \<Rightarrow> Ret (0, tcreds)
      | Some tmp \<Rightarrow>
          if \<not> hlist_subcmp headers header ''basic'' then Ret (0, tcreds)
          else case basic_split (basic_decoded tmp) of
            None \<Rightarrow> Ret (-1, tcreds)
          | Some (domn, user, pass) \<Rightarrow>
              c_bind (case domn of
                        None \<Rightarrow> Ret tcreds
                      | Some d \<Rightarrow> c_bind (auth_strcpy (auth_domain tcreds) (Some d))
                                   (\<lambda>f. Ret (tcreds\<lparr>auth_domain := f\<rparr>))) (\<lambda>a1.
              c_bind (auth_strcpy (auth_user a1) (Some user)) (\<lambda>f.
              c_bind (basic_hashes pass (a1\<lparr>auth_user := f\<rparr>)) (\<lambda>a2. Ret (1, a2)))))"

section \<open>Lemmas on lines\<close>

lemma length_show_nat_le: "n < 10 ^ k \<Longrightarrow> 0 < k \<Longrightarrow> length (show_nat n) \<le> k"
proof (induction k arbitrary: n)
  case (Suc k)
  show ?case
  proof (cases "n < 10")
    case True
    then show ?thesis by (subst show_nat.simps) simp
  next
    case False
    then have "0 < k" "n div 10 < 10 ^ k" using Suc.prems by (cases k; simp add: less_mult_imp_div_less)+
    then have "length (show_nat (n div 10)) \<le> k" using Suc.IH by blast
    with False show ?thesis by (subst show_nat.simps) simp
  qed
qed simp

lemma length_show_nat_3:
  assumes "100 \<le> n" "n < 1000"
  shows "length (show_nat n) = 3"
proof -
  have "\<not> n < 10" "\<not> n div 10 < 10" "n div 10 div 10 < 10" using assms by linarith+
  then show ?thesis
    by (simp add: show_nat.simps [of n] show_nat.simps [of "n div 10"] show_nat.simps [of "n div 10 div 10"])
qed

lemma length_show_int3: "- (2 ^ 31) \<le> i \<Longrightarrow> i < 2 ^ 31 \<Longrightarrow> length (show_int3 i) \<le> 11"
proof -
  assume "- (2 ^ 31) \<le> i" "i < 2 ^ 31"
  then have "nat (- i) < 10 ^ 10" "nat i < 10 ^ 10" by simp_all
  then have "length (show_nat (nat (- i))) \<le> 10" "length (show_nat (nat i)) \<le> 10"
    by (simp_all only: length_show_nat_le)
  then show ?thesis unfolding show_int3_def show_nat3_def by (cases "i < 0"; simp; arith)
qed

lemma show_int3_code: "100 \<le> c \<Longrightarrow> c < 1000 \<Longrightarrow> show_int3 c = show_nat (nat c)"
  by (simp add: show_int3_def show_nat3_def length_show_nat_3)

lemma show_nat_noblank: "c \<in> set (show_nat n) \<Longrightarrow> \<not> c_isspace c \<and> c \<noteq> CHR '' '' \<and> c \<noteq> NUL \<and> c \<noteq> LF \<and> c \<noteq> CHR '':'' \<and> c \<noteq> CHR ''/''"
proof -
  assume "c \<in> set (show_nat n)"
  then have "is_digit_in 10 c" using show_nat_digits by blast
  then show ?thesis
    by (auto simp: is_digit_in_def digit_val_def c_isdigit_def c_isupper_def c_islower_def c_isspace_def
        split: if_splits)
qed

lemma strtok_r_more:
  assumes "t \<noteq> []" "CHR '' '' \<notin> set t"
  shows "strtok_r (t @ CHR '' '' # r) '' '' = Some (t, r)" "strtok_r t '' '' = Some (t, [])"
proof -
  from assms obtain c t' where t: "t = c # t'" "c \<noteq> CHR '' ''" by (cases t) auto
  have tw: "takeWhile (\<lambda>c. c \<notin> set '' '') (t @ CHR '' '' # r) = t"
    "dropWhile (\<lambda>c. c \<notin> set '' '') (t @ CHR '' '' # r) = CHR '' '' # r"
    "takeWhile (\<lambda>c. c \<notin> set '' '') t = t" "dropWhile (\<lambda>c. c \<notin> set '' '') t = []"
    using assms(2) by (auto simp: takeWhile_append dropWhile_append takeWhile_eq_all_conv)
  have dw: "dropWhile (\<lambda>c. c \<in> set '' '') (t @ s) = t @ s" for s using t by simp
  show "strtok_r (t @ CHR '' '' # r) '' '' = Some (t, r)"
    unfolding strtok_r_def Let_def dw tw using assms(1) by simp
  show "strtok_r t '' '' = Some (t, [])"
    using dw [of "[]"] unfolding strtok_r_def Let_def by (simp only: append_Nil2 tw) (simp add: assms(1))
qed

lemma line_of_CRLF:
  assumes "NUL \<notin> set l" "l = [] \<or> \<not> c_isspace (last l)"
  shows "line_of (l @ CRLF) = l" "line_of (l @ CHR '' '' # CRLF) = l"
proof -
  have sp: "\<forall>c \<in> set CRLF. c_isspace c" "\<forall>c \<in> set (CHR '' '' # CRLF). c_isspace c"
    by (simp_all add: c_isspace_def)
  show "line_of (l @ CRLF) = l" "line_of (l @ CHR '' '' # CRLF) = l"
    using assms trimr_append [OF sp(1), of l] trimr_append [OF sp(2), of l] trimr_id [of l]
    by (auto simp: line_of_def cstr_of_id)
qed

text \<open>Header lines that survive being sent and received.\<close>

definition header_wf :: "hlist_s \<Rightarrow> bool" where
  "header_wf t \<longleftrightarrow> hkey t \<noteq> [] \<and> CHR '':'' \<notin> set (hkey t) \<and> LF \<notin> set (hkey t) \<and> NUL \<notin> set (hkey t)
     \<and> LF \<notin> set (hvalue t) \<and> NUL \<notin> set (hvalue t) \<and> length (hkey t) < 2 ^ 29 \<and> length (hvalue t) < 2 ^ 29
     \<and> (hvalue t = [] \<or> hd (hvalue t) \<noteq> CHR '' '' \<and> \<not> c_isspace (last (hvalue t)))"

lemma header_line_parse:
  assumes "header_wf t"
  shows "line_of (header_line t) \<noteq> []" "is_http_header (line_of (header_line t))"
    "get_http_header_name (line_of (header_line t)) = Ret (Some (hkey t))"
    "get_http_header_value (line_of (header_line t)) = Some (hvalue t)"
proof -
  define v where "v = (if hvalue t = [] then [] else CHR '' '' # hvalue t)"
  define l where "l = hkey t @ CHR '':'' # v"
  have "\<not> c_isspace CHR '':''" by (simp add: c_isspace_def)
  with assms have "NUL \<notin> set l" "\<not> c_isspace (last l)"
    by (auto simp: l_def v_def header_wf_def)
  with line_of_CRLF [of l] have line: "line_of (header_line t) = l"
    by (cases "hvalue t = []") (auto simp: header_line_def l_def v_def)
  have key: "CHR '':'' \<notin> set (hkey t)" "hkey t \<noteq> []" "length l < 2 ^ 31" "length (hkey t) < 2 ^ 31"
    using assms by (auto simp: header_wf_def l_def v_def)
  have tw: "takeWhile (\<lambda>c. c \<notin> set '':'') l = hkey t"
    using key(1) unfolding l_def by (subst takeWhile_append2) auto
  then have i: "strcspn l '':'' = length (hkey t)" by (simp add: strcspn_def)
  show "line_of (header_line t) \<noteq> []" by (simp add: line l_def)
  show "is_http_header (line_of (header_line t))" by (simp add: line is_http_header_def i) (simp add: l_def)
  have "substr l 0 (int (length (hkey t))) = Ret (hkey t)"
    using key substr_eq [of 0 l "int (length (hkey t))"] by (simp add: l_def)
  moreover have "length (hkey t) \<noteq> length l" by (simp add: l_def)
  ultimately show "get_http_header_name (line_of (header_line t)) = Ret (Some (hkey t))"
    by (simp add: line get_http_header_name_def i)
  have "dropWhile (\<lambda>c. c = CHR '' '') v = hvalue t"
    using assms by (cases "hvalue t") (auto simp: v_def header_wf_def)
  with key(1) show "get_http_header_value (line_of (header_line t)) = Some (hvalue t)"
    by (simp add: line get_http_header_value_def l_def strchr_append)
qed

lemma recv_line:
  assumes "sock_wf src" "so_data src = l @ CRLF @ r" "LF \<notin> set l" "1 < n"
  obtains n' src1 where "so_recvln src n = (1, l @ CRLF, n', src1)" "so_after src (l @ CRLF) src1"
    "so_data src1 = r" "1 < n'"
proof -
  have "so_data src = (l @ [CR]) @ LF # r" "LF \<notin> set (l @ [CR])" using assms(2,3) by simp_all
  from so_recvln_line [OF assms(1) this assms(4)] obtain n' src1 where
    "so_recvln src n = (1, (l @ [CR]) @ [LF], n', src1)" "so_after src ((l @ [CR]) @ [LF]) src1"
    "so_data src1 = r" "n \<le> n'" .
  with that [of n' src1] assms(4) show thesis by simp
qed

lemma recv_headers_lines:
  assumes "sock_wf src" "list_all header_wf hs" "so_data src = concat (map header_line hs) @ CRLF @ r" "1 < n"
  shows "\<exists>src'. recv_headers src n acc = Some (Ret (1, acc @ hs, src'))
    \<and> so_after src (concat (map header_line hs) @ CRLF) src' \<and> so_data src' = r"
  using assms
proof (induction hs arbitrary: src n acc)
  case Nil
  from recv_line [of src "[]" r n] Nil.prems obtain n' src1 where
    "so_recvln src n = (1, CRLF, n', src1)" "so_after src CRLF src1" "so_data src1 = r"
    by (metis append_Nil concat.simps(1) empty_iff list.set(1) list.simps(8))
  moreover have "line_of CRLF = []" using line_of_CRLF(1) [of "[]"] by simp
  ultimately show ?case
    by (subst recv_headers.simps) (simp add: is_http_header_def strcspn_def)
next
  case (Cons t hs)
  let ?l = "hkey t @ '': '' @ hvalue t"
  have wf: "header_wf t" "LF \<notin> set ?l" using Cons.prems(2) by (auto simp: header_wf_def)
  have "so_data src = ?l @ CRLF @ concat (map header_line hs) @ CRLF @ r"
    using Cons.prems(3) by (simp add: header_line_def [of t])
  from recv_line [OF Cons.prems(1) this wf(2) Cons.prems(4)] obtain n' src1 where
    R: "so_recvln src n = (1, header_line t, n', src1)" "so_after src (header_line t) src1"
    "so_data src1 = concat (map header_line hs) @ CRLF @ r" "1 < n'"
    by (auto simp: header_line_def [of t])
  have "\<lparr>hkey = hkey t, hvalue = hvalue t\<rparr> = t" by (cases t) simp
  note t = this
  have "recv_headers src n acc = recv_headers src1 n' (acc @ [t])"
    using R(1) header_line_parse [OF wf(1)]
    by (subst recv_headers.simps) (simp add: Let_def hlist_add_def t)
  moreover from Cons.IH [of src1 n' "acc @ [t]"] R Cons.prems so_after_wf [OF R(2)] obtain src2 where
    "recv_headers src1 n' (acc @ [t]) = Some (Ret (1, acc @ t # hs, src2))"
    "so_after src1 (concat (map header_line hs) @ CRLF) src2" "so_data src2 = r" by auto
  ultimately show ?case using so_after_trans [OF R(2)] by auto
qed

section \<open>First lines\<close>

text \<open>A word of a first line: no blank, no line end, no NUL.\<close>

definition word_wf :: "string \<Rightarrow> bool" where
  "word_wf s \<longleftrightarrow> s \<noteq> [] \<and> CHR '' '' \<notin> set s \<and> LF \<notin> set s \<and> NUL \<notin> set s \<and> \<not> c_isspace (last s)
     \<and> length s < 2 ^ 31"

definition response_wf :: "rr_data_s \<Rightarrow> bool" where
  "response_wf d \<longleftrightarrow> rr_req d = 0 \<and> rr_skip_http d = 0 \<and> 100 \<le> rr_code d \<and> rr_code d < 1000
     \<and> (case (rr_http d, rr_msg d) of
          (Some h, Some m) \<Rightarrow> word_wf h \<and> strncaseeq h ''HTTP/'' 5 \<and> LF \<notin> set m \<and> NUL \<notin> set m
            \<and> (m = [] \<or> \<not> c_isspace (last m))
        | _ \<Rightarrow> False)
     \<and> list_all header_wf (rr_headers d)"

lemma word_tok: "word_wf t \<Longrightarrow> strtok_r (t @ CHR '' '' # r) '' '' = Some (t, r)"
  "word_wf t \<Longrightarrow> strtok_r t '' '' = Some (t, [])"
  by (auto simp: word_wf_def strtok_r_more)

lemma word_head: "word_wf t \<Longrightarrow> takeWhile (\<lambda>c. c = CHR '' '') (t @ r) = []"
  by (cases t) (auto simp: word_wf_def)

lemma recv_start_status:
  assumes "word_wf h" "strncaseeq h ''HTTP/'' 5" "100 \<le> code" "code < 1000"
    "line = (if m = [] then h @ '' '' @ show_nat (nat code) else h @ '' '' @ show_nat (nat code) @ '' '' @ m)"
  shows "recv_start line 1 data = Ret (1, data\<lparr>rr_req := 0, rr_empty := 0, rr_http := Some h,
    rr_msg := Some m, rr_code := code\<rparr>, None)"
proof -
  let ?c = "show_nat (nat code)"
  have "CHR '' '' \<notin> set ?c" using show_nat_noblank [of "CHR '' ''" "nat code"] by auto
  from strtok_r_more [OF show_nat_nonempty this] have tok:
    "strtok_r (?c @ CHR '' '' # m) '' '' = Some (?c, m)" "strtok_r ?c '' '' = Some (?c, [])" by auto
  have num: "length ?c = 3" "atoi ?c = code"
    using assms(3,4) by (simp_all add: length_show_nat_3 atoi_show_nat)
  have "strtok_r line '' '' = Some (h, if m = [] then ?c else ?c @ CHR '' '' # m)"
    using assms(5) word_tok(1) [OF assms(1)] by simp
  moreover have "takeWhile (\<lambda>c. c = CHR '' '') line = []"
    using assms(5) word_head [OF assms(1)] by simp
  ultimately show ?thesis
    using assms(2,3) tok num by (simp add: recv_start_def recv_status_def Let_def)
qed

text \<open>What is in the stream after a head has been sent.\<close>

lemma response_received:
  assumes "response_wf d" "headers_text d = Ret text" "sock_wf src" "so_data src = text @ r"
  shows "\<exists>src'. headers_recv src data = Some (Ret (True, data\<lparr>rr_req := 0, rr_empty := 0,
      rr_http := rr_http d, rr_msg := rr_msg d, rr_code := rr_code d,
      rr_headers := rr_headers data @ rr_headers d\<rparr>, src')) \<and> so_after src text src' \<and> so_data src' = r"
proof -
  from assms(1) obtain h m where hm: "rr_http d = Some h" "rr_msg d = Some m"
    by (auto simp: response_wf_def split: option.splits)
  let ?c = "show_nat (nat (rr_code d))" and ?hs = "concat (map header_line (rr_headers d)) @ CRLF"
  let ?l = "h @ '' '' @ ?c @ '' '' @ m"
  have wf: "word_wf h" "strncaseeq h ''HTTP/'' 5" "LF \<notin> set m" "NUL \<notin> set m" "m = [] \<or> \<not> c_isspace (last m)"
    "100 \<le> rr_code d" "rr_code d < 1000" "list_all header_wf (rr_headers d)"
    using assms(1) by (auto simp: response_wf_def hm)
  have tx: "text = ?l @ CRLF @ ?hs"
    using assms(1,2) wf by (simp add: headers_text_def hm response_wf_def show_int3_code)
  have c: "LF \<notin> set ?c" "NUL \<notin> set ?c" "\<not> c_isspace (last ?c)"
    using show_nat_noblank [of _ "nat (rr_code d)"] show_nat_nonempty last_in_set by fastforce+
  have l: "LF \<notin> set ?l" "NUL \<notin> set ?l" using wf c by (auto simp: word_wf_def)
  from assms(4) tx have "so_data src = ?l @ CRLF @ ?hs @ r" by simp
  from recv_line [OF assms(3) this l(1), of BUFSIZE] obtain n1 src1 where
    R: "so_recvln src BUFSIZE = (1, ?l @ CRLF, n1, src1)" "so_after src (?l @ CRLF) src1"
    "so_data src1 = ?hs @ r" "1 < n1" by auto
  define line where "line = (if m = [] then h @ '' '' @ ?c else ?l)"
  have "line_of (?l @ CRLF) = line"
    using line_of_CRLF(2) [of "h @ '' '' @ ?c"] line_of_CRLF(1) [of ?l] l wf c
    by (cases "m = []") (auto simp: line_def)
  then have S: "recv_start (line_of (?l @ CRLF)) 1 data = Ret (1, data\<lparr>rr_req := 0, rr_empty := 0,
      rr_http := Some h, rr_msg := Some m, rr_code := rr_code d\<rparr>, None)"
    using recv_start_status [OF wf(1,2,6,7), of line m] by (simp add: line_def)
  from recv_headers_lines [OF so_after_wf [OF R(2)] wf(8), of r n1 "rr_headers data"] R(3,4) obtain src2 where
    H: "recv_headers src1 n1 (rr_headers data) = Some (Ret (1, rr_headers data @ rr_headers d, src2))"
    "so_after src1 ?hs src2" "so_data src2 = r" by auto
  have "so_after src text src2" using so_after_trans [OF R(2) H(2)] tx by simp
  with R(1) S H show ?thesis by (auto simp: headers_recv_def hm)
qed

text \<open>
  A URL in absolute form (with a scheme) or in authority form (without scheme and path), with or
  without a port.
\<close>

definition authority :: "string \<Rightarrow> nat option \<Rightarrow> string" where
  "authority name port = name @ (case port of None \<Rightarrow> [] | Some p \<Rightarrow> CHR '':'' # show_nat p)"

definition url_of :: "string option \<Rightarrow> string \<Rightarrow> nat option \<Rightarrow> string \<Rightarrow> string" where
  "url_of scheme name port path =
     (case scheme of None \<Rightarrow> [] | Some s \<Rightarrow> s @ ''://'') @ authority name port @ path"

definition url_wf :: "string option \<Rightarrow> string \<Rightarrow> nat option \<Rightarrow> string \<Rightarrow> bool" where
  "url_wf scheme name port path \<longleftrightarrow>
     name \<noteq> [] \<and> CHR ''/'' \<notin> set name \<and> CHR '':'' \<notin> set name
     \<and> (case port of None \<Rightarrow> True | Some p \<Rightarrow> 0 < p \<and> p < 2 ^ 31)
     \<and> (path = [] \<or> hd path = CHR ''/'')
     \<and> (case scheme of None \<Rightarrow> path = [] | Some s \<Rightarrow> CHR '':'' \<notin> set s)"

lemma authority_noslash:
  "CHR ''/'' \<notin> set name \<Longrightarrow> CHR ''/'' \<notin> set (authority name port)"
  using show_nat_noblank [of "CHR ''/''"] by (auto simp: authority_def split: option.splits)

lemma strstr_scheme: "CHR '':'' \<notin> set s \<Longrightarrow> strstr (s @ ''://'' @ r) ''://'' = Some (''://'' @ r)"
  by (induction s) auto

lemma strstr_noslash: "CHR ''/'' \<notin> set s \<Longrightarrow> strstr s ''://'' = None"
  using strstr_SomeD [of s "''://''"] by (cases "strstr s ''://''") auto

lemma url_parts_of:
  assumes "url_wf scheme name port path" "length (url_of scheme name port path) < 2 ^ 31"
  shows "url_parts (url_of scheme name port path) =
    Ret (authority name port, if path = [] then ''/'' else path)"
proof -
  let ?a = "authority name port"
  have a: "CHR ''/'' \<notin> set ?a" "?a \<noteq> []" "length (?a @ path) < 2 ^ 31"
    using assms authority_noslash [of name port] by (auto simp: url_wf_def authority_def url_of_def)
  have tok: "(case strstr (url_of scheme name port path) ''://'' of
      Some r \<Rightarrow> drop 3 r | None \<Rightarrow> url_of scheme name port path) = ?a @ path"
  proof (cases scheme)
    case None
    with assms(1) a(1) show ?thesis by (simp add: url_of_def url_wf_def strstr_noslash)
  next
    case (Some s)
    with assms(1) have "strstr (url_of scheme name port path) ''://'' = Some (''://'' @ ?a @ path)"
      using strstr_scheme [of s "?a @ path"] by (simp add: url_of_def url_wf_def)
    then show ?thesis by simp
  qed
  have sub: "substr (?a @ path) 0 (int (length ?a)) = Ret ?a"
    using a substr_eq [of 0 "?a @ path" "int (length ?a)"] by simp
  have "(case strchr (?a @ path) CHR ''/'' of
           Some s3 \<Rightarrow> c_bind (substr (?a @ path) 0 (int (length (?a @ path) - length s3))) (\<lambda>host. Ret (host, s3))
         | None \<Rightarrow> c_bind (substr (?a @ path) 0 (int (length (?a @ path)))) (\<lambda>host. Ret (host, ''/''))) =
      Ret (?a, if path = [] then ''/'' else path)"
  proof (cases path)
    case Nil
    with a(1) have "strchr (?a @ path) CHR ''/'' = None" by (simp add: strchr_None)
    with Nil sub show ?thesis by simp
  next
    case (Cons c p)
    with assms(1) have "c = CHR ''/''" by (simp add: url_wf_def)
    with Cons a(1) have "strchr (?a @ path) CHR ''/'' = Some path" by (simp add: strchr_append)
    with Cons sub show ?thesis by simp
  qed
  then show ?thesis by (simp only: url_parts_def Let_def tok)
qed

text \<open>The port the program takes from a URL without one.\<close>

definition url_port :: "string \<Rightarrow> nat option \<Rightarrow> int" where
  "url_port url port =
     (case port of Some p \<Rightarrow> int p | None \<Rightarrow> if strncaseeq url ''https'' 5 then 443 else 80)"

definition add_host :: "hlist_t \<Rightarrow> string \<Rightarrow> hlist_t" where
  "add_host hs a = (if hlist_in hs ''Host'' then hs else hs @ [\<lparr>hkey = ''Host'', hvalue = a\<rparr>])"

lemma fix_request_url:
  assumes "url_wf scheme name port path" "rr_url data = Some url" "0 < i"
  shows "fix_request (Some (authority name port)) i data = (i, data\<lparr>rr_hostname := Some name,
    rr_port := url_port url port, rr_headers := add_host (rr_headers data) (authority name port)\<rparr>)"
proof -
  obtain c h where a: "authority name port = c # h"
    using assms(1) by (cases name) (auto simp: authority_def url_wf_def)
  have name: "name \<noteq> []" "CHR '':'' \<notin> set name" using assms(1) by (auto simp: url_wf_def)
  show ?thesis
  proof (cases port)
    case None
    then have "name = c # h" using a by (simp add: authority_def)
    with None a name(2) assms(2) show ?thesis
      by (simp add: fix_request_def Let_def strchr_None [THEN iffD2] url_port_def add_host_def hlist_in_get
          hlist_add_def)
  next
    case (Some p)
    then have s: "strchr (c # h) CHR '':'' = Some (CHR '':'' # show_nat p)"
      "take (length (c # h) - length (CHR '':'' # show_nat p)) (c # h) = name"
      using name(2) strchr_append [of "CHR '':''" name "show_nat p"] by (simp_all add: authority_def a [symmetric])
    have "0 < p" "atoi (show_nat p) = int p" using Some assms(1) by (auto simp: url_wf_def atoi_show_nat)
    with Some s name(1) show ?thesis unfolding a
      by (simp add: fix_request_def Let_def url_port_def add_host_def hlist_in_get hlist_add_def)
  qed
qed

definition request_wf :: "rr_data_s \<Rightarrow> string option \<Rightarrow> string \<Rightarrow> nat option \<Rightarrow> string \<Rightarrow> bool" where
  "request_wf d scheme name port path \<longleftrightarrow> rr_req d \<noteq> 0
     \<and> - (2 ^ 31) \<le> rr_code d \<and> rr_code d < 2 ^ 31
     \<and> rr_url d = Some (url_of scheme name port path) \<and> word_wf (url_of scheme name port path)
     \<and> url_wf scheme name port path
     \<and> (case (rr_method d, rr_http d) of
          (Some m, Some h) \<Rightarrow> word_wf m \<and> \<not> strncaseeq m ''HTTP/'' 5 \<and> \<not> strncaseeq m ''ICY'' 3
            \<and> word_wf h \<and> take 5 h = ''HTTP/''
        | _ \<Rightarrow> False)
     \<and> list_all header_wf (rr_headers d)"

lemma recv_start_request:
  assumes "word_wf m" "\<not> strncaseeq m ''HTTP/'' 5" "\<not> strncaseeq m ''ICY'' 3" "word_wf h"
    "take 5 h = ''HTTP/''" "word_wf u" "url_parts u = Ret (host, rel)"
  shows "recv_start (m @ '' '' @ u @ '' '' @ h) 1 data = Ret (1, data\<lparr>rr_req := 1, rr_empty := 0,
      rr_method := Some m, rr_url := Some u, rr_rel_url := Some rel, rr_http := Some h,
      rr_hostname := None\<rparr>, Some host)"
proof -
  let ?l = "m @ CHR '' '' # u @ CHR '' '' # h"
  have "h = ''HTTP/'' @ drop 5 h" using assms(5) append_take_drop_id [of 5 h] by simp
  then have "?l = (m @ CHR '' '' # u) @ '' HTTP/'' @ drop 5 h" by simp
  then have "\<exists>r. strstr ?l '' HTTP/'' = Some r" unfolding strstr_Some_iff by blast
  then have "strstr ?l '' HTTP/'' \<noteq> None" by auto
  with assms(2,3,7) word_head [OF assms(1)] word_tok(1) [OF assms(1)] word_tok(1) [OF assms(6)]
    word_tok(2) [OF assms(4)] show ?thesis
    by (simp add: recv_start_def recv_request_def Let_def)
qed

lemma request_received:
  assumes "request_wf d scheme name port path" "headers_text d = Ret text" "sock_wf src"
    "so_data src = text @ r"
  shows "\<exists>src'. headers_recv src data = Some (Ret (True, data\<lparr>rr_req := 1, rr_empty := 0,
      rr_method := rr_method d, rr_url := rr_url d, rr_rel_url := Some (if path = [] then ''/'' else path),
      rr_http := rr_http d, rr_hostname := Some name, rr_port := url_port (the (rr_url d)) port,
      rr_headers := add_host (rr_headers data @ rr_headers d) (authority name port)\<rparr>, src'))
    \<and> so_after src text src' \<and> so_data src' = r"
proof -
  let ?u = "url_of scheme name port path" and ?hs = "concat (map header_line (rr_headers d)) @ CRLF"
  from assms(1) obtain m h where mh: "rr_method d = Some m" "rr_http d = Some h"
    by (auto simp: request_wf_def split: option.splits)
  have wf: "word_wf m" "\<not> strncaseeq m ''HTTP/'' 5" "\<not> strncaseeq m ''ICY'' 3" "word_wf h"
    "take 5 h = ''HTTP/''" "word_wf ?u" "list_all header_wf (rr_headers d)" "rr_req d \<noteq> 0"
    "rr_url d = Some ?u" "url_wf scheme name port path"
    using assms(1) by (auto simp: request_wf_def mh)
  let ?l = "m @ '' '' @ ?u @ '' '' @ h"
  have tx: "text = ?l @ CRLF @ ?hs"
    using assms(2) wf by (simp add: headers_text_def mh)
  have l: "LF \<notin> set ?l" "NUL \<notin> set ?l" "\<not> c_isspace (last ?l)"
    using wf(1,4,6) by (auto simp: word_wf_def)
  from assms(4) tx have "so_data src = ?l @ CRLF @ ?hs @ r" by simp
  from recv_line [OF assms(3) this l(1), of BUFSIZE] obtain n1 src1 where
    R: "so_recvln src BUFSIZE = (1, ?l @ CRLF, n1, src1)" "so_after src (?l @ CRLF) src1"
    "so_data src1 = ?hs @ r" "1 < n1" by auto
  have line: "line_of (?l @ CRLF) = ?l" by (rule line_of_CRLF) (use l in auto)
  have "length ?u < 2 ^ 31" using wf(6) by (simp add: word_wf_def)
  from recv_start_request [OF wf(1-6) url_parts_of [OF wf(10) this]]
  have S: "recv_start (line_of (?l @ CRLF)) 1 data = Ret (1, data\<lparr>rr_req := 1, rr_empty := 0,
      rr_method := Some m, rr_url := Some ?u, rr_rel_url := Some (if path = [] then ''/'' else path),
      rr_http := Some h, rr_hostname := None\<rparr>, Some (authority name port))"
    unfolding line by blast
  from recv_headers_lines [OF so_after_wf [OF R(2)] wf(7), of r n1 "rr_headers data"] R(3,4) obtain src2 where
    H: "recv_headers src1 n1 (rr_headers data) = Some (Ret (1, rr_headers data @ rr_headers d, src2))"
    "so_after src1 ?hs src2" "so_data src2 = r" by auto
  have "so_after src text src2" using so_after_trans [OF R(2) H(2)] tx by simp
  with R(1) S H show ?thesis
    by (auto simp: headers_recv_def mh wf(9) fix_request_url [OF wf(10)] split del: if_split)
qed

section \<open>Sending\<close>

lemma length_header_lines:
  "length (concat (map header_line hs)) \<le> sum_list (map (\<lambda>t. 20 + length (hkey t) + length (hvalue t)) hs)"
  by (induction hs) (auto simp: header_line_def)

lemma headers_fit:
  assumes "headers_text d = Ret t" "- (2 ^ 31) \<le> rr_code d" "rr_code d < 2 ^ 31"
  shows "length t + 1 \<le> headers_size d"
  using assms(1) length_header_lines [of "rr_headers d"] length_show_int3 [OF assms(2,3)]
  by (auto simp: headers_text_def headers_size_def Let_def split: if_splits option.splits)

lemma headers_send_ideal:
  assumes "headers_text d = Ret t" "- (2 ^ 31) \<le> rr_code d" "rr_code d < 2 ^ 31" "sk_plan k = []"
  shows "headers_send k d = Ret (True, k\<lparr>sk_out := sk_out k @ t\<rparr>)"
proof -
  have "t \<noteq> []" using assms(1) by (auto simp: headers_text_def Let_def split: if_splits option.splits)
  then show ?thesis
    using headers_fit [OF assms(1-3)] assms(1,4)
    by (simp add: headers_send_def sink_closed_def so_write_ideal)
qed

section \<open>Framing\<close>

text \<open>
  A body by the way it is delimited: none, of a length in the headers, chunked, or all up to the
  end of the stream; its text, and when the headers of a response ask for this way.
\<close>

datatype frame =
    No_body
  | By_length string
  | By_chunks "chunk list" string string "string list"
  | By_close string

fun frame_text :: "frame \<Rightarrow> string" where
  "frame_text No_body = []"
| "frame_text (By_length d) = d"
| "frame_text (By_chunks cs zs zext ts) = concat (map chunk_text cs) @ size_line zs zext @ trailer_text ts"
| "frame_text (By_close d) = d"

definition chunked :: "hlist_t \<Rightarrow> bool" where
  "chunked hs \<longleftrightarrow> hlist_subcmp hs ''Transfer-Encoding'' ''chunked''"

definition delimited :: "hlist_t \<Rightarrow> bool" where
  "delimited hs \<longleftrightarrow> hlist_in hs ''Content-Type'' \<or> hlist_in hs ''Transfer-Encoding''
     \<or> hlist_subcmp hs ''Connection'' ''close''"

fun frame_ok :: "hlist_t \<Rightarrow> bool \<Rightarrow> frame \<Rightarrow> bool" where
  "frame_ok hs nobody No_body \<longleftrightarrow> nobody \<or> (hlist_get hs ''Content-Length'' = None \<and> \<not> delimited hs)"
| "frame_ok hs nobody (By_length d) \<longleftrightarrow> \<not> nobody \<and> \<not> chunked hs \<and> length d < 2 ^ 31
     \<and> hlist_get hs ''Content-Length'' = Some (show_nat (length d))"
| "frame_ok hs nobody (By_chunks cs zs zext ts) \<longleftrightarrow> \<not> nobody \<and> chunked hs
     \<and> hlist_get hs ''Content-Length'' = None
     \<and> list_all chunk_wf cs \<and> size_line_wf zs zext \<and> digits_val 16 zs = 0 \<and> list_all trailer_wf ts"
| "frame_ok hs nobody (By_close d) \<longleftrightarrow> \<not> nobody \<and> \<not> chunked hs \<and> delimited hs
     \<and> hlist_get hs ''Content-Length'' = None \<and> length d < 2 ^ 31"

text \<open>The rest of the stream after the body: nothing when the end delimits it.\<close>

fun frame_last :: "frame \<Rightarrow> bool" where
  "frame_last (By_close d) = True"
| "frame_last f = False"

lemma hlist_subcmp_in: "hlist_subcmp hs k v \<Longrightarrow> hlist_in hs k"
  by (auto simp: hlist_subcmp_def hlist_in_get split: option.splits)

lemma body_length_frame:
  assumes "frame_ok hs nobody f"
  shows "body_length hs nobody = (case f of No_body \<Rightarrow> 0 | By_length d \<Rightarrow> int (length d)
    | By_chunks _ _ _ _ \<Rightarrow> 1 | By_close _ \<Rightarrow> -1)"
proof (cases f)
  case (By_length d)
  have "strtol 10 (show_nat (length d)) = (int (length d), [])"
    using By_length assms strtol_show_nat [of "[]" "length d"] by simp
  with By_length assms show ?thesis by (simp add: body_length_def Let_def atoll_def)
next
  case (By_chunks cs zs zext ts)
  with assms hlist_subcmp_in show ?thesis by (auto simp: body_length_def Let_def chunked_def)
next
  case (By_close d)
  with assms show ?thesis by (auto simp: body_length_def Let_def chunked_def delimited_def)
qed (use assms in \<open>auto simp: body_length_def Let_def delimited_def split: option.splits\<close>)

lemma body_transfer_frame:
  assumes "frame_ok hs nobody f" "sock_wf src" "sink_ideal dst" "so_data src = frame_text f @ r"
    "if frame_last f then r = [] \<and> \<not> so_err src else True"
  shows "\<exists>src'. body_transfer dst src hs (body_length hs nobody) =
      Some (Ret (True, src', sink_add dst (frame_text f))) \<and> so_data src' = r \<and> sock_wf src' \<and> so_err src' = so_err src"
proof (cases f)
  case No_body
  with assms body_length_frame [OF assms(1)] show ?thesis by (simp add: body_transfer_def)
next
  case (By_length d)
  from By_length assms data_send_exact [of src dst "int (length d)"] obtain src' where
    "data_send dst src (int (length d)) = Ret (True, src', sink_add dst d)" "so_after src d src'" by auto
  with By_length assms body_length_frame [OF assms(1)] show ?thesis
    by (auto simp: body_transfer_def chunked_def so_after_def)
next
  case (By_chunks cs zs zext ts)
  with assms chunked_data_send_forwards [of src dst cs zs zext ts r]
    body_length_frame [OF assms(1)] show ?thesis
    by (auto simp: body_transfer_def chunked_def)
next
  case (By_close d)
  from By_close assms ds_loop_until_eof [of src dst 0 1] obtain src' where
    "data_send dst src (-1) = Ret (True, src', sink_add dst d)" "so_after src d src'"
    by (auto simp: data_send_def)
  with By_close assms body_length_frame [OF assms(1)] show ?thesis
    by (auto simp: body_transfer_def chunked_def so_after_def)
qed

text \<open>Whether a response has no body because of its code or the request's method.\<close>

definition no_body :: "bool \<Rightarrow> int \<Rightarrow> bool" where
  "no_body head code \<longleftrightarrow> head \<or> (100 \<le> code \<and> code < 200) \<or> code = 204 \<or> code = 304"

lemma http_body_send_response:
  "rr_empty r = 0 \<Longrightarrow> has_method ''HEAD'' request = Ret head \<Longrightarrow>
   http_body_send dst src request (Some r) =
     body_transfer dst src (rr_headers r) (body_length (rr_headers r) (no_body head (rr_code r)))"
  by (simp add: http_body_send_def http_has_body_def no_body_def body_transfer_def)

lemma http_body_drop_response:
  "rr_empty r = 0 \<Longrightarrow> http_body_drop src (Some r) =
     body_transfer None src (rr_headers r) (body_length (rr_headers r) (no_body False (rr_code r)))"
  by (simp add: http_body_drop_def http_has_body_def no_body_def has_method_def)

section \<open>Basic credentials: lemmas\<close>

lemma length_md4_of: "length d < 2 ^ 32 \<Longrightarrow> length (md4_of d) = 16"
  by (simp add: md4_of_eq)

lemma length_unicode_le: "length (the (fst (unicode (Some s)))) \<le> 128"
  using unicode_bound [of "Some s"] by simp

lemma length_hashes [simp]:
  "length (ntlm_hash_nt_password p) = 21" "length (ntlm_hash_lm_password p) = 21"
  "length (ntlm2_hash_password u d p) = 16"
proof -
  have "length (the (fst (unicode (Some p)))) < 2 ^ 32"
    using length_unicode_le [of p] by simp
  then show nt: "length (ntlm_hash_nt_password p) = 21"
    by (simp add: ntlm_hash_nt_password_def length_md4_of del: length_unicode)
  show "length (ntlm_hash_lm_password p) = 21" by (simp add: ntlm_hash_lm_password_def)
  have "length (slice (ntlm_hash_nt_password p) 0 16) = 16"
    using nt by (simp add: length_slice del: length_unicode)
  moreover have "length (the (fst (unicode (Some (uppercase (u @ d)))))) < 2 ^ 32"
    using length_unicode_le [of "uppercase (u @ d)"] by simp
  ultimately show "length (ntlm2_hash_password u d p) = 16"
    by (simp add: ntlm2_hash_password_def hmac_of_eq del: length_unicode)
qed

text \<open>A password hash stored at the start of its buffer, when it is asked for.\<close>

definition stored :: "int \<Rightarrow> byte list \<Rightarrow> byte list \<Rightarrow> byte list" where
  "stored wanted field h = (if wanted \<noteq> 0 then h @ drop (length h) field else field)"

lemma basic_hashes_eq:
  assumes "auth_wf a"
  shows "basic_hashes pass a = Ret (a\<lparr>
    passntlm2 := stored (hashntlm2 a) (passntlm2 a)
      (ntlm2_hash_password (cstr_of (auth_user a)) (cstr_of (auth_domain a)) pass),
    passnt := stored (hashnt a) (passnt a) (ntlm_hash_nt_password pass),
    passlm := stored (hashlm a) (passlm a) (ntlm_hash_lm_password pass)\<rparr>)"
  using assms by (simp add: basic_hashes_def auth_wf_def str_wf_def read_cstr_def auth_memcpy_def
      memcpy_def stored_def)

lemma base64_noblank:
  assumes "bs \<noteq> []" "b64_room (length bs) \<le> olen"
  shows "takeWhile (\<lambda>c. c = CHR '' '') (to_base64 bs olen) = []"
proof (cases "to_base64 bs olen")
  case (Cons c s)
  have "c \<noteq> CHR '' ''"
  proof
    assume "c = CHR '' ''"
    moreover have "bad_digit CHR '' ''" by code_simp
    ultimately have "snd (from_base64 (to_base64 bs olen)) = []"
      unfolding Cons from_base64_def by (cases "([] :: byte list, c # s)" rule: from_base64_loop.cases) auto
    with from_base64_to_base64 [OF assms] assms(1) show False by simp
  qed
  with Cons show ?thesis by simp
qed simp

definition basic_text :: "string option \<Rightarrow> string \<Rightarrow> string \<Rightarrow> string" where
  "basic_text domn user pass =
     (case domn of None \<Rightarrow> [] | Some d \<Rightarrow> d @ [CHR 0x5C]) @ user @ '':'' @ pass"

definition basic_wf :: "string option \<Rightarrow> string \<Rightarrow> string \<Rightarrow> bool" where
  "basic_wf domn user pass \<longleftrightarrow> CHR '':'' \<notin> set user \<and> NUL \<notin> set (basic_text domn user pass)
     \<and> (case domn of None \<Rightarrow> CHR 0x5C \<notin> set user | Some d \<Rightarrow> CHR 0x5C \<notin> set d \<and> CHR '':'' \<notin> set d)"

lemma basic_split_text:
  assumes "basic_wf domn user pass"
  shows "basic_split (basic_text domn user pass) = Some (domn, user, pass)"
proof (cases domn)
  case None
  with assms show ?thesis
    by (simp add: basic_split_def basic_text_def basic_wf_def strchr_append strchr_None [THEN iffD2])
next
  case (Some d)
  have "strchr ((d @ CHR 0x5C # user) @ CHR '':'' # pass) CHR '':'' = Some (CHR '':'' # pass)"
    using assms Some by (intro strchr_append) (auto simp: basic_wf_def)
  then have "strchr (basic_text domn user pass) CHR '':'' = Some (CHR '':'' # pass)"
    by (simp add: basic_text_def Some)
  moreover have "take (length (basic_text domn user pass) - length (CHR '':'' # pass)) (basic_text domn user pass)
      = d @ CHR 0x5C # user"
    by (simp add: basic_text_def Some)
  moreover have "strchr (d @ CHR 0x5C # user) (CHR 0x5C) = Some (CHR 0x5C # user)"
    using assms Some by (intro strchr_append) (auto simp: basic_wf_def)
  ultimately show ?thesis by (simp add: basic_split_def Let_def Some)
qed

lemma basic_decoded_header:
  assumes "length scheme = 5" "b64_room (length t) \<le> olen" "t \<noteq> []" "NUL \<notin> set t"
  shows "basic_decoded (scheme @ '' '' @ replicate n CHR '' '' @ to_base64 (bytes_of t) olen) = t"
proof -
  let ?b = "to_base64 (bytes_of t) olen"
  have ne: "bytes_of t \<noteq> []" using assms(3) by (simp add: bytes_of_def)
  have d: "drop 6 (scheme @ CHR '' '' # replicate n CHR '' '' @ ?b) = replicate n CHR '' '' @ ?b"
    using assms(1) by simp
  have "takeWhile (\<lambda>c. c = CHR '' '') (replicate n CHR '' '' @ ?b) = replicate n CHR '' ''"
    using base64_noblank [OF ne] assms(2) by (simp add: takeWhile_append)
  then have i: "basic_start (scheme @ CHR '' '' # replicate n CHR '' '' @ ?b) = 6 + n"
    using assms(1) d by (simp add: basic_start_def)
  have "drop (6 + n) (scheme @ CHR '' '' # replicate n CHR '' '' @ ?b) = ?b"
    using assms(1) by simp
  with i show ?thesis
    using from_base64_to_base64 [OF ne] assms(2,4) by (simp add: basic_decoded_def cstr_of_id)
qed

lemma basic_scheme:
  "strcaseeq scheme ''basic'' \<Longrightarrow> length scheme = 5 \<and> strstr (lowercase (scheme @ r)) (lowercase ''basic'') \<noteq> None"
proof
  assume e: "strcaseeq scheme ''basic''"
  then have "length (map c_tolower scheme) = 5" by (simp add: strcaseeq_def)
  then show "length scheme = 5" by simp
  have "lowercase (scheme @ r) = [] @ lowercase ''basic'' @ lowercase r"
    using e by (simp add: lowercase_def strcaseeq_def)
  then show "strstr (lowercase (scheme @ r)) (lowercase ''basic'') \<noteq> None"
    using strstr_Some_iff by (metis option.distinct(1))
qed

section \<open>Properties\<close>

text \<open>
  The send buffer.  headers_send computes the size of its buffer beforehand; whatever the
  headers, the fields and the (int) status code are, what it writes and its terminator fit, so the
  only undefined behaviour is a string that is missing; otherwise a connection that takes all gets
  the whole head.
\<close>

theorem headers_send_fits:
  assumes "- (2 ^ 31) \<le> rr_code d" "rr_code d < 2 ^ 31" "sk_plan k = []"
  shows "headers_send k d =
    (if rr_http d = None \<or> (if rr_req d \<noteq> 0 then rr_method d = None \<or> rr_url d = None else rr_msg d = None)
     then UB else Ret (True, k\<lparr>sk_out := sk_out k @ the_ret (headers_text d)\<rparr>))"
proof (cases "headers_text d")
  case UB
  then have "headers_send k d = UB" by (simp add: headers_send_def)
  with UB show ?thesis by (auto simp: headers_text_def Let_def split: if_splits option.splits)
next
  case (Ret t)
  with headers_send_ideal [OF this assms] show ?thesis
    by (auto simp: headers_text_def Let_def split: if_splits option.splits)
qed

theorem headers_send_fits_witness:
  "headers_send \<lparr>sk_out = [], sk_plan = []\<rparr>
      (new_rr_data\<lparr>rr_http := Some ''HTTP/1.0'', rr_code := -7, rr_msg := Some ''x''\<rparr>)
    = Ret (True, \<lparr>sk_out = ''HTTP/1.0 -07 x'' @ CRLF @ CRLF, sk_plan = []\<rparr>)"
  using headers_send_fits [of "new_rr_data\<lparr>rr_http := Some ''HTTP/1.0'', rr_code := -7, rr_msg := Some ''x''\<rparr>"
      "\<lparr>sk_out = [], sk_plan = []\<rparr>"]
  by (simp add: new_rr_data_def headers_text_def show_int3_def show_nat.simps)

text \<open>
  A response survives the way from one end of a connection to the other.  A well-formed response
  that headers_send has written, followed by anything and cut into any segments, is received by
  headers_recv with the same version, code, message and headers in the same order, and the stream
  is left exactly where the body starts.
\<close>

theorem headers_roundtrip_response:
  assumes "response_wf d" "headers_send \<lparr>sk_out = [], sk_plan = []\<rparr> d = Ret (ok, k)"
    "sock_wf src" "so_data src = sk_out k @ body" "rr_headers data = []"
  shows "\<exists>src'. headers_recv src data = Some (Ret (True, data\<lparr>rr_req := 0, rr_empty := 0,
      rr_http := rr_http d, rr_msg := rr_msg d, rr_code := rr_code d, rr_headers := rr_headers d\<rparr>, src'))
    \<and> so_data src' = body \<and> sock_wf src'"
proof -
  from assms(1) obtain t where t: "headers_text d = Ret t"
    by (auto simp: response_wf_def headers_text_def split: option.splits)
  with assms(1,2) headers_send_ideal [OF t, of "\<lparr>sk_out = [], sk_plan = []\<rparr>"] have "sk_out k = t"
    by (auto simp: response_wf_def)
  with response_received [OF assms(1) t assms(3), of body data] assms(4,5) show ?thesis
    by (auto simp: so_after_def)
qed

definition sample_response :: rr_data_s where
  "sample_response = new_rr_data\<lparr>rr_http := Some ''HTTP/1.1'', rr_code := 407, rr_msg := Some ''Go on'',
     rr_headers := [\<lparr>hkey = ''A'', hvalue = ''b: c''\<rparr>]\<rparr>"

lemma sample_response_wf: "response_wf sample_response"
  by (simp add: sample_response_def new_rr_data_def response_wf_def word_wf_def header_wf_def
      strncaseeq_def c_isspace_def)

lemma sample_response_sent: "headers_text sample_response = Ret (''HTTP/1.1 407 Go on'' @ CRLF @ ''A: b: c'' @ CRLF @ CRLF)"
  by (simp add: sample_response_def new_rr_data_def headers_text_def show_int3_def show_nat3_def
      show_nat.simps header_line_def)

theorem headers_roundtrip_response_witness:
  "\<exists>src'. headers_recv \<lparr>so_segs = [''HTTP/1.1 40'', ''7 Go on'' @ CRLF @ ''A: b: c'' @ CRLF @ CRLF @ ''body''],
      so_err = False\<rparr> new_rr_data
    = Some (Ret (True, sample_response\<lparr>rr_empty := 0\<rparr>, src')) \<and> so_data src' = ''body''"
proof -
  let ?k = "\<lparr>sk_out = ''HTTP/1.1 407 Go on'' @ CRLF @ ''A: b: c'' @ CRLF @ CRLF, sk_plan = []\<rparr>"
  have c: "- (2 ^ 31) \<le> rr_code sample_response" "rr_code sample_response < 2 ^ 31"
    by (simp_all add: sample_response_def)
  have s: "headers_send \<lparr>sk_out = [], sk_plan = []\<rparr> sample_response = Ret (True, ?k)"
    using headers_send_ideal [OF sample_response_sent c, of "\<lparr>sk_out = [], sk_plan = []\<rparr>"] by simp
  have "new_rr_data\<lparr>rr_req := 0, rr_empty := 0, rr_http := rr_http sample_response,
      rr_msg := rr_msg sample_response, rr_code := rr_code sample_response,
      rr_headers := rr_headers sample_response\<rparr> = sample_response\<lparr>rr_empty := 0\<rparr>"
    by (simp add: sample_response_def new_rr_data_def)
  with headers_roundtrip_response [OF sample_response_wf s, of "\<lparr>so_segs = [''HTTP/1.1 40'',
      ''7 Go on'' @ CRLF @ ''A: b: c'' @ CRLF @ CRLF @ ''body''], so_err = False\<rparr>" "''body''" new_rr_data]
  show ?thesis by (auto simp: sock_wf_def so_data_def new_rr_data_def)
qed

text \<open>
  C39: a request survives the same way, and its URL is taken apart.  A well-formed request with a URL
  in absolute form or an authority is received with the same method, URL, version and headers; the
  host name and the port are those of the URL (443 for https and 80 otherwise when it has none),
  the relative URL is its path (a slash when it has none), and a Host header with name and port is
  added exactly when there is none.
\<close>

theorem headers_roundtrip_request:
  assumes "request_wf d scheme name port path"
    "headers_send \<lparr>sk_out = [], sk_plan = []\<rparr> d = Ret (ok, k)"
    "sock_wf src" "so_data src = sk_out k @ body" "rr_headers data = []"
  shows "\<exists>src'. headers_recv src data = Some (Ret (True, data\<lparr>rr_req := 1, rr_empty := 0,
      rr_method := rr_method d, rr_url := rr_url d, rr_rel_url := Some (if path = [] then ''/'' else path),
      rr_http := rr_http d, rr_hostname := Some name, rr_port := url_port (the (rr_url d)) port,
      rr_headers := add_host (rr_headers d) (authority name port)\<rparr>, src'))
    \<and> so_data src' = body \<and> sock_wf src'"
proof -
  from assms(1) obtain t where t: "headers_text d = Ret t"
    by (auto simp: request_wf_def headers_text_def split: option.splits)
  with assms(1,2) headers_send_ideal [OF t, of "\<lparr>sk_out = [], sk_plan = []\<rparr>"] have "sk_out k = t"
    by (auto simp: request_wf_def)
  with request_received [OF assms(1) t assms(3), of body data] assms(4,5) show ?thesis
    by (auto simp: so_after_def)
qed

definition sample_request :: rr_data_s where
  "sample_request = new_rr_data\<lparr>rr_req := 1, rr_method := Some ''GET'', rr_http := Some ''HTTP/1.1'',
     rr_url := Some ''http://a.b:81/c'', rr_headers := [\<lparr>hkey = ''X'', hvalue = []\<rparr>]\<rparr>"

lemma show_nat_81: "show_nat 81 = ''81''"
  by (simp add: show_nat.simps)

lemma sample_request_wf: "request_wf sample_request (Some ''http'') ''a.b'' (Some 81) ''/c''"
  by (simp add: sample_request_def new_rr_data_def request_wf_def word_wf_def header_wf_def
      strncaseeq_def strcaseeq_def c_isspace_def url_of_def url_wf_def authority_def show_nat_81 c_tolower_def
      c_isupper_def)

theorem headers_roundtrip_request_witness:
  "\<exists>src'. headers_recv \<lparr>so_segs = [''GET http://a.b:81/c HTTP/1.1'' @ [CR], [LF] @ ''X: '' @ CRLF @ CRLF], so_err = False\<rparr>
      new_rr_data
    = Some (Ret (True, sample_request\<lparr>rr_empty := 0, rr_rel_url := Some ''/c'', rr_hostname := Some ''a.b'',
        rr_port := 81, rr_headers := [\<lparr>hkey = ''X'', hvalue = []\<rparr>, \<lparr>hkey = ''Host'', hvalue = ''a.b:81''\<rparr>]\<rparr>, src'))
    \<and> so_data src' = []"
proof -
  have t: "headers_text sample_request = Ret (''GET http://a.b:81/c HTTP/1.1'' @ CRLF @ ''X: '' @ CRLF @ CRLF)"
    by (simp add: sample_request_def new_rr_data_def headers_text_def header_line_def)
  have s: "headers_send \<lparr>sk_out = [], sk_plan = []\<rparr> sample_request =
      Ret (True, \<lparr>sk_out = ''GET http://a.b:81/c HTTP/1.1'' @ CRLF @ ''X: '' @ CRLF @ CRLF, sk_plan = []\<rparr>)"
    using headers_send_ideal [OF t _ _, of "\<lparr>sk_out = [], sk_plan = []\<rparr>"]
    by (simp add: sample_request_def new_rr_data_def)
  have "new_rr_data\<lparr>rr_req := 1, rr_empty := 0, rr_method := rr_method sample_request,
      rr_url := rr_url sample_request, rr_rel_url := Some (if ''/c'' = [] then ''/'' else ''/c''),
      rr_http := rr_http sample_request, rr_hostname := Some ''a.b'',
      rr_port := url_port (the (rr_url sample_request)) (Some 81),
      rr_headers := add_host (rr_headers sample_request) (authority ''a.b'' (Some 81))\<rparr>
    = sample_request\<lparr>rr_empty := 0, rr_rel_url := Some ''/c'', rr_hostname := Some ''a.b'',
        rr_port := 81, rr_headers := [\<lparr>hkey = ''X'', hvalue = []\<rparr>, \<lparr>hkey = ''Host'', hvalue = ''a.b:81''\<rparr>]\<rparr>"
    by (simp add: sample_request_def new_rr_data_def url_port_def add_host_def authority_def show_nat_81
        strcaseeq_def)
  with headers_roundtrip_request [OF sample_request_wf s, of "\<lparr>so_segs = [''GET http://a.b:81/c HTTP/1.1'' @ [CR],
      [LF] @ ''X: '' @ CRLF @ CRLF], so_err = False\<rparr>" "[]" new_rr_data]
  show ?thesis by (auto simp: sock_wf_def so_data_def new_rr_data_def)
qed

text \<open>
  C33: the body of a response is found and forwarded, and found again when it is dropped, except
  after HEAD.  Let f be the body of the reply to the request: delimited by a Content-Length, by
  chunked coding or by the end of the stream, or none (as after HEAD, or with a 1xx, 204 or 304
  code); and let f' be the body the same headers announce when the method of the request is not
  known.  http_body_send passes on exactly f and leaves the stream where the next message starts.
  http_body_drop, which is not given the request, passes on nothing and takes f' from the stream: that
  is the body, too, unless the request was HEAD; then there is no body, and it is the start of the
  next message.
\<close>

theorem http_body_framing:
  assumes "rr_empty r = 0" "has_method ''HEAD'' request = Ret head" "sock_wf src" "sink_ideal dst"
    "frame_ok (rr_headers r) (no_body head (rr_code r)) f" "so_data src = frame_text f @ rest"
    "if frame_last f then rest = [] \<and> \<not> so_err src else True"
    "frame_ok (rr_headers r) (no_body False (rr_code r)) f'" "so_data src = frame_text f' @ rest'"
    "if frame_last f' then rest' = [] \<and> \<not> so_err src else True"
  shows "(\<exists>src'. http_body_send dst src request (Some r) = Some (Ret (True, src', sink_add dst (frame_text f)))
      \<and> so_data src' = rest)
    \<and> (\<exists>src'. http_body_drop src (Some r) = Some (Ret (True, src', None)) \<and> so_data src' = rest')
    \<and> (if head then rest = frame_text f' @ rest' else rest' = rest)"
proof -
  have S: "\<exists>src'. http_body_send dst src request (Some r) = Some (Ret (True, src', sink_add dst (frame_text f))) \<and> so_data src' = rest"
    using body_transfer_frame [OF assms(5,3,4,6,7)] http_body_send_response [OF assms(1,2)] by auto
  have D: "\<exists>src'. http_body_drop src (Some r) = Some (Ret (True, src', None)) \<and> so_data src' = x"
    if "frame_ok (rr_headers r) (no_body False (rr_code r)) g" "so_data src = frame_text g @ x"
      "if frame_last g then x = [] \<and> \<not> so_err src else True" for g x
    using body_transfer_frame [OF that(1) assms(3) _ that(2,3), of None] http_body_drop_response [OF assms(1)] by auto
  from D [OF assms(8-10)] obtain s' where s': "http_body_drop src (Some r) = Some (Ret (True, s', None))" "so_data s' = rest'"
    by blast
  have "rest' = rest" if "\<not> head"
    using D [of f rest] assms(5-7) that s' by auto
  moreover have "rest = frame_text f' @ rest'" if head
    using assms(5,6,9) that by (cases f) (simp_all add: no_body_def)
  ultimately show ?thesis using S s' by auto
qed

theorem http_body_framing_witness:
  "(\<exists>src'. http_body_send (Some \<lparr>sk_out = [], sk_plan = []\<rparr>) \<lparr>so_segs = [''ab'', ''cHTTP''], so_err = False\<rparr> None
      (Some (new_rr_data\<lparr>rr_empty := 0, rr_code := 200, rr_headers := [\<lparr>hkey = ''content-length'', hvalue = ''3''\<rparr>]\<rparr>))
      = Some (Ret (True, src', Some \<lparr>sk_out = ''abc'', sk_plan = []\<rparr>)) \<and> so_data src' = ''HTTP'')
   \<and> (\<exists>src'. http_body_drop \<lparr>so_segs = [''HTTP/1.1''], so_err = False\<rparr>
      (Some (new_rr_data\<lparr>rr_empty := 0, rr_code := 200, rr_headers := [\<lparr>hkey = ''content-length'', hvalue = ''3''\<rparr>]\<rparr>))
      = Some (Ret (True, src', None)) \<and> so_data src' = ''P/1.1'')"
proof -
  let ?r = "new_rr_data\<lparr>rr_empty := 0, rr_code := 200, rr_headers := [\<lparr>hkey = ''content-length'', hvalue = ''3''\<rparr>]\<rparr>"
  have low: "map c_tolower ''content-length'' = map c_tolower ''Content-Length''"
    "map c_tolower ''content-length'' \<noteq> map c_tolower ''Transfer-Encoding''" by code_simp+
  have f: "frame_ok (rr_headers ?r) (no_body False (rr_code ?r)) (By_length x)" if "length x = 3" for x
    using low that by (simp add: no_body_def chunked_def hlist_subcmp_def strcaseeq_def show_nat.simps del: list.map)
  have n: "frame_ok (rr_headers ?r) (no_body True (rr_code ?r)) No_body" by (simp add: no_body_def)
  let ?head = "new_rr_data\<lparr>rr_req := 1, rr_method := Some ''HEAD''\<rparr>"
  let ?s = "\<lparr>so_segs = [''ab'', ''cHTTP''], so_err = False\<rparr>" and ?t = "\<lparr>so_segs = [''HTTP/1.1''], so_err = False\<rparr>"
  have h: "has_method ''HEAD'' (Some ?head) = Ret True" by (simp add: has_method_def strcaseeq_def)
  have a: "sock_wf ?s" "sock_wf ?t" "so_data ?s = frame_text (By_length ''abc'') @ ''HTTP''"
    "so_data ?t = frame_text No_body @ ''HTTP/1.1''" "so_data ?t = frame_text (By_length ''HTT'') @ ''P/1.1''"
    "sink_ideal (Some \<lparr>sk_out = [], sk_plan = []\<rparr>)" "sink_ideal None" "rr_empty ?r = 0"
    "has_method ''HEAD'' None = Ret False"
    by (simp_all add: sock_wf_def so_data_def sink_ideal_def has_method_def)
  have "\<exists>src'. http_body_send (Some \<lparr>sk_out = [], sk_plan = []\<rparr>) ?s None (Some ?r)
      = Some (Ret (True, src', Some \<lparr>sk_out = ''abc'', sk_plan = []\<rparr>)) \<and> so_data src' = ''HTTP''"
    using http_body_framing [OF a(8,9,1,6) f a(3) _ f a(3)] by (auto simp: sink_add_def)
  moreover have "\<exists>src'. http_body_drop ?t (Some ?r) = Some (Ret (True, src', None)) \<and> so_data src' = ''P/1.1''"
    using http_body_framing [OF a(8) h a(2,7) n a(4) _ f a(5)] by auto
  ultimately show ?thesis by blast
qed

text \<open>
  A negative Content-Length overflows the block buffer.  The length of a response with the
  header Content-Length: -4294962296 is passed to the transfer as it is; the count it asks read for
  is the low 32 bits, 5000, and a peer that has sent more than 2048 bytes writes beyond the end of
  the buffer of that size.
\<close>

theorem http_body_negative_length:
  assumes "rr_empty r = 0" "rr_code r = 200" "has_method ''HEAD'' request = Ret False"
    "hlist_get (rr_headers r) ''Content-Length'' = Some ''-4294962296''"
    "\<not> hlist_subcmp (rr_headers r) ''Transfer-Encoding'' ''chunked''" "2048 < length d"
  shows "http_body_send dst \<lparr>so_segs = d # ds, so_err = e\<rparr> request (Some r) = Some UB"
proof -
  have tw: "takeWhile (is_digit_in 10) ''4294962296'' = ''4294962296''"
    "dropWhile c_isspace ''-4294962296'' = ''-4294962296''" by code_simp+
  have "digits_val 10 ''4294962296'' = 4294962296"
    by (simp add: digits_val_def digit_val_def c_isdigit_def)
  with tw have "atoll ''-4294962296'' = -4294962296"
    by (simp add: atoll_def strtol_def strip_sign_def strip_0x_def)
  moreover have "to_int32 (-4294962296) = 5000" by (simp add: to_int32_def)
  ultimately show ?thesis
    using assms by (simp add: http_body_send_response no_body_def body_length_def body_transfer_def
        data_send_negative)
qed

theorem http_body_negative_length_witness:
  "http_body_send None \<lparr>so_segs = [replicate 3000 CHR ''x''], so_err = False\<rparr> None
     (Some (new_rr_data\<lparr>rr_empty := 0, rr_code := 200,
        rr_headers := [\<lparr>hkey = ''Content-Length'', hvalue = ''-4294962296''\<rparr>]\<rparr>)) = Some UB"
proof (rule http_body_negative_length)
  show "2048 < length (replicate 3000 CHR ''x'')" by (subst length_replicate) simp
  have "map c_tolower ''Content-Length'' \<noteq> map c_tolower ''Transfer-Encoding''" by code_simp
  then show "\<not> hlist_subcmp (rr_headers (new_rr_data\<lparr>rr_empty := 0, rr_code := 200,
        rr_headers := [\<lparr>hkey = ''Content-Length'', hvalue = ''-4294962296''\<rparr>]\<rparr>)) ''Transfer-Encoding'' ''chunked''"
    by (simp add: hlist_subcmp_def strcaseeq_def del: list.map)
qed (simp_all add: has_method_def)

text \<open>
  A Basic login.  From a header with the scheme Basic in any spelling, blanks, and the base 64
  text of [domain backslash] user colon password, http_parse_basic takes the user, the domain when
  one is given, and the password with any colons it contains: the names are stored cut to 49
  characters, the hashes the credentials ask for are those of that password (NTLMv2: with the
  stored names), and everything else is kept.
\<close>

theorem http_parse_basic_login:
  assumes "auth_wf a" "basic_wf domn user pass" "strcaseeq scheme ''basic''"
    "b64_room (length (basic_text domn user pass)) \<le> olen"
    "hlist_get hs h = Some (scheme @ '' '' @ replicate n CHR '' ''
       @ to_base64 (bytes_of (basic_text domn user pass)) olen)"
  shows "\<exists>ub db. http_parse_basic hs h a = Ret (1, a\<lparr>auth_user := ub, auth_domain := db,
      passntlm2 := stored (hashntlm2 a) (passntlm2 a)
        (ntlm2_hash_password (take 49 user) (case domn of None \<Rightarrow> cstr_of (auth_domain a) | Some d \<Rightarrow> take 49 d) pass),
      passnt := stored (hashnt a) (passnt a) (ntlm_hash_nt_password pass),
      passlm := stored (hashlm a) (passlm a) (ntlm_hash_lm_password pass)\<rparr>)
    \<and> str_wf ub \<and> cstr_of ub = take 49 user
    \<and> str_wf db \<and> cstr_of db = (case domn of None \<Rightarrow> cstr_of (auth_domain a) | Some d \<Rightarrow> take 49 d)"
proof -
  let ?t = "basic_text domn user pass"
  have nn: "NUL \<notin> set ?t" "NUL \<notin> set user" "case domn of None \<Rightarrow> True | Some d \<Rightarrow> NUL \<notin> set d" "?t \<noteq> []"
    using assms(2) by (auto simp: basic_wf_def basic_text_def split: option.splits)
  note sch = basic_scheme [OF assms(3), of "'' '' @ replicate n CHR '' '' @ to_base64 (bytes_of ?t) olen"]
  have dec: "basic_split (basic_decoded (scheme @ '' '' @ replicate n CHR '' ''
      @ to_base64 (bytes_of ?t) olen)) = Some (domn, user, pass)"
    using basic_decoded_header [OF _ assms(4) nn(4,1)] sch basic_split_text [OF assms(2)] by simp
  have sub: "hlist_subcmp hs h ''basic''" using assms(5) sch by (simp add: hlist_subcmp_def)
  obtain db where db: "(case domn of None \<Rightarrow> Ret a | Some d \<Rightarrow> c_bind (auth_strcpy (auth_domain a) (Some d))
      (\<lambda>f. Ret (a\<lparr>auth_domain := f\<rparr>))) = Ret (a\<lparr>auth_domain := db\<rparr>)" "str_wf db"
    "cstr_of db = (case domn of None \<Rightarrow> cstr_of (auth_domain a) | Some d \<Rightarrow> take 49 d)"
  proof (cases domn)
    case None
    with that [of "auth_domain a"] assms(1) show thesis by (simp add: auth_wf_def)
  next
    case (Some d)
    with nn(3) buf_strlcpy_wf [of "auth_domain a" d] assms(1) that show thesis
      by (auto simp: auth_strcpy_def auth_wf_def str_wf_def)
  qed
  obtain ub where ub: "auth_strcpy (auth_user (a\<lparr>auth_domain := db\<rparr>)) (Some user) = Ret ub" "str_wf ub"
    "cstr_of ub = take 49 user"
    using nn(2) buf_strlcpy_wf [of "auth_user a" user] assms(1)
    by (auto simp: auth_strcpy_def auth_wf_def str_wf_def)
  have wf: "auth_wf (a\<lparr>auth_domain := db, auth_user := ub\<rparr>)"
    using assms(1) db(2) ub(2) by (simp add: auth_wf_def)
  have "http_parse_basic hs h a = c_bind (basic_hashes pass (a\<lparr>auth_domain := db, auth_user := ub\<rparr>)) (\<lambda>a2. Ret (1, a2))"
    unfolding http_parse_basic_def assms(5) by (simp add: sub dec [simplified] db(1) ub(1) [simplified])
  with basic_hashes_eq [OF wf, of pass] db ub show ?thesis by (intro exI [of _ ub] exI [of _ db]) simp
qed

theorem http_parse_basic_login_witness:
  "\<exists>ub db. http_parse_basic [\<lparr>hkey = ''Authorization'',
        hvalue = ''BASIC  '' @ to_base64 (bytes_of (''D'' @ [CHR 0x5C] @ ''u:p:q'')) 100\<rparr>] ''Authorization''
      (new_auth\<lparr>hashntlm2 := 0\<rparr>)
    = Ret (1, new_auth\<lparr>hashntlm2 := 0, auth_user := ub, auth_domain := db\<rparr>)
    \<and> cstr_of ub = ''u'' \<and> cstr_of db = ''D''"
proof -
  have wf: "auth_wf (new_auth\<lparr>hashntlm2 := 0\<rparr>)" using new_auth_wf by (simp add: auth_wf_def)
  have b: "basic_wf (Some ''D'') ''u'' ''p:q''" "strcaseeq ''BASIC'' ''basic''" by code_simp+
  have r: "b64_room (length (basic_text (Some ''D'') ''u'' ''p:q'')) \<le> 100"
    by (simp add: b64_room_def basic_text_def)
  have g: "hlist_get [\<lparr>hkey = ''Authorization'',
        hvalue = ''BASIC  '' @ to_base64 (bytes_of (''D'' @ [CHR 0x5C] @ ''u:p:q'')) 100\<rparr>] ''Authorization''
    = Some (''BASIC'' @ '' '' @ replicate 1 CHR '' '' @ to_base64 (bytes_of (basic_text (Some ''D'') ''u'' ''p:q'')) 100)"
    by (simp add: basic_text_def)
  have n: "hashnt new_auth = 0" "hashlm new_auth = 0" by (simp_all add: new_auth_def)
  from http_parse_basic_login [OF wf b r g] show ?thesis
    by (auto simp: stored_def n)
qed

end
