(* ===== verification/Parents.thy ===== *)
theory Parents
  imports Http PList Acl
begin

text \<open>
  The table of parent proxies: parent_add of main.c, which fills it from the options, and
  proxy_connect of forward.c, which picks a parent, and with it the globals of globals.h that the
  forwarding code shares.  The outcomes of the coming connections are part of the state; mutexes
  are left out, the operations are taken one at a time.
\<close>

section \<open>Globals\<close>

record proxy_t =
  px_hostname :: string
  px_host :: u32
  px_port :: int
  px_resolved :: int

text \<open>
  The cache of connections is \<open>None\<close> when its pointer is dangling.  \<open>g_connects\<close> is what the coming
  calls of \<open>so_connect\<close> return, with the peer at the other end (when it is used up they fail);
  \<open>g_dialed\<close> is the addresses and ports of the past calls.
\<close>

record globals =
  g_parents :: "proxy_t plist_t"
  g_parent_count :: int
  g_parent_curr :: int
  g_cache :: "auth_s plist_t option"
  g_creds :: auth_s
  g_ntlmbasic :: bool
  g_header_list :: hlist_t
  g_connects :: "(int \<times> peer) list"
  g_dialed :: "(u32 \<times> int) list"

section \<open>parent\_add\<close>

text \<open>What the option does: not accepted (0), added (1), or the program exits.\<close>

datatype 'a option_result = Rejected | Added 'a | Exits

text \<open>Host name and port of the specification: \<open>None\<close> when nothing follows the separator.\<close>

definition parent_spec :: "string \<Rightarrow> int \<Rightarrow> (string \<times> int) option" where
  "parent_spec parent port =
     (let i = strcspn parent '': ''
      in if i \<noteq> length parent then
           let rest = dropWhile (\<lambda>c. c = CHR '' '' \<or> c = CHR 0x09) (drop (Suc i) parent)
           in if rest = [] then None else Some (take i parent, atoi rest)
         else Some (parent, port))"

definition parent_add :: "globals \<Rightarrow> string \<Rightarrow> int \<Rightarrow> globals option_result" where
  "parent_add g parent port =
     (case parent_spec parent port of
        None \<Rightarrow> Rejected
      | Some (host, p) \<Rightarrow>
          if p = 0 then Exits
          else let n = g_parent_count g + 1;
                   aux = \<lparr>px_hostname = take 63 host, px_host = 0, px_port = p, px_resolved = 0\<rparr>
               in Added (g\<lparr>g_parent_count := n,
                    g_parents := plist_add (g_parents g) (word_of_int n) (Some aux)\<rparr>))"

section \<open>proxy\_connect\<close>

text \<open>An assignment through the pointer of the first node of a key.\<close>

fun plist_upd :: "'a plist_t \<Rightarrow> int \<Rightarrow> 'a \<Rightarrow> 'a plist_t" where
  "plist_upd [] key a = []"
| "plist_upd (t # ts) key a =
     (if pkey t = word_of_int key then t\<lparr>paux := Some a\<rparr> # ts else t # plist_upd ts key a)"

definition so_connect :: "u32 \<Rightarrow> int \<Rightarrow> globals \<Rightarrow> (int \<times> peer option) \<times> globals" where
  "so_connect host port g =
     (let g' = g\<lparr>g_dialed := g_dialed g @ [(host, port)]\<rparr>
      in case g_connects g of
           [] \<Rightarrow> ((-1, None), g')
         | (fd, p) # cs \<Rightarrow> ((fd, Some p), g'\<lparr>g_connects := cs\<rparr>))"

text \<open>One attempt on the current parent: the descriptor or a value of 0 or less.\<close>

definition parent_attempt :: "gai \<Rightarrow> globals \<Rightarrow> ((int \<times> peer option) \<times> globals) c_result" where
  "parent_attempt getaddrinfo g =
     (case plist_get (g_parents g) (g_parent_curr g) of
        None \<Rightarrow> UB
      | Some aux \<Rightarrow>
          let aux' = (if px_resolved aux = 0 then
                        (case so_resolv getaddrinfo (px_host aux) (px_hostname aux) of
                           (ok, host) \<Rightarrow> aux\<lparr>px_host := host, px_resolved := (if ok then 1 else 0)\<rparr>)
                      else aux);
              g1 = g\<lparr>g_parents := plist_upd (g_parents g) (g_parent_curr g) aux'\<rparr>
          in Ret (if px_resolved aux' \<noteq> 0 then so_connect (px_host aux') (px_port aux') g1
                  else ((0, None), g1)))"

text \<open>After a failure the next parent is selected; its name is logged.\<close>

definition next_parent :: "globals \<Rightarrow> globals c_result" where
  "next_parent g =
     (let c = (if g_parent_curr g \<ge> g_parent_count g then 0 else g_parent_curr g) + 1
      in if plist_get (g_parents g) c = None then UB else Ret (g\<lparr>g_parent_curr := c\<rparr>))"

text \<open>The loop with the number of attempts still allowed after this one.\<close>

fun connect_loop :: "gai \<Rightarrow> nat \<Rightarrow> globals \<Rightarrow> ((int \<times> peer option) \<times> globals) c_result" where
  "connect_loop getaddrinfo left g =
     c_bind (parent_attempt getaddrinfo g) (\<lambda>((i, p), g1).
       if i > 0 then Ret ((i, p), g1)
       else c_bind (next_parent g1) (\<lambda>g2.
         case left of 0 \<Rightarrow> Ret ((i, None), g2) | Suc m \<Rightarrow> connect_loop getaddrinfo m g2))"

declare connect_loop.simps [simp del]

text \<open>
  Moving to another parent: the cached connections are closed and the list is freed, but the
  pointer to it is kept.
\<close>

definition invalidate_cache :: "globals \<Rightarrow> globals c_result" where
  "invalidate_cache g =
     (case g_cache g of
        None \<Rightarrow> UB
      | Some l \<Rightarrow> Ret (g\<lparr>g_cache := (if l = [] then Some [] else None)\<rparr>))"

text \<open>Returns the descriptor, its peer, the credentials (when they are wanted) and the globals.\<close>

definition proxy_connect ::
  "gai \<Rightarrow> globals \<Rightarrow> auth_s option \<Rightarrow> ((int \<times> peer option) \<times> auth_s option \<times> globals) c_result" where
  "proxy_connect getaddrinfo g credentials =
     (let prev = g_parent_curr g
      in c_bind (if prev = 0
                 then (if plist_get (g_parents g) 1 = None then UB else Ret (g\<lparr>g_parent_curr := 1\<rparr>))
                 else Ret g) (\<lambda>g0.
         c_bind (connect_loop getaddrinfo (nat (g_parent_count g0 - 1)) g0) (\<lambda>((i, p), g1).
         c_bind (if prev \<noteq> g_parent_curr g1 then invalidate_cache g1 else Ret g1) (\<lambda>g2.
           case credentials of
             Some c \<Rightarrow>
               if i > 0 then c_bind (copy_auth c (g_creds g2) (\<not> g_ntlmbasic g2)) (\<lambda>c'. Ret ((i, p), Some c', g2))
               else Ret ((i, p), Some c, g2)
           | None \<Rightarrow> Ret ((i, p), None, g2)))))"

text \<open>
  The uses of the cache in forward_request: taking an open connection with its credentials, and
  storing one.  A dangling list is read.
\<close>

definition cache_take :: "(int \<Rightarrow> bool) \<Rightarrow> globals \<Rightarrow> ((int \<times> auth_s option) \<times> globals) c_result" where
  "cache_take closed g =
     (case g_cache g of
        None \<Rightarrow> UB
      | Some l \<Rightarrow> let r = plist_pop closed l
                  in Ret ((pop_id r, pop_aux r), g\<lparr>g_cache := Some (pop_list r)\<rparr>))"

definition cache_store :: "int \<Rightarrow> auth_s \<Rightarrow> globals \<Rightarrow> globals c_result" where
  "cache_store sd tcreds g =
     (case g_cache g of
        None \<Rightarrow> UB
      | Some l \<Rightarrow> Ret (g\<lparr>g_cache := Some (plist_add l (word_of_int sd) (Some tcreds))\<rparr>))"

section \<open>The table of parents\<close>

text \<open>The parents are numbered from 1 in the order of their options.\<close>

definition parents_wf :: "globals \<Rightarrow> bool" where
  "parents_wf g \<longleftrightarrow> g_parent_count g = int (length (g_parents g)) \<and> length (g_parents g) < 2 ^ 31
     \<and> map pkey (g_parents g) = map (\<lambda>i. word_of_int (int i)) [1..<Suc (length (g_parents g))]
     \<and> None \<notin> set (map paux (g_parents g))"

lemma plist_get_numbered:
  "map pkey l = map (\<lambda>i. word_of_int (int i)) [Suc m..<Suc m + length l] \<Longrightarrow> m + length l < 2 ^ 31 \<Longrightarrow>
   m < n \<Longrightarrow> n \<le> m + length l \<Longrightarrow> plist_get l (int n) = paux (l ! (n - Suc m))"
proof (induction l arbitrary: m)
  case (Cons t ts)
  have hd: "pkey t = word_of_int (int (Suc m))"
    and tl: "map pkey ts = map (\<lambda>i. word_of_int (int i)) [Suc (Suc m)..<Suc (Suc m) + length ts]"
    using Cons.prems(1) by (simp_all add: upt_conv_Cons del: upt_Suc of_nat_Suc)
  have ne: "(word_of_int (int (Suc m)) :: u64) = word_of_int (int n) \<longleftrightarrow> Suc m = n"
  proof -
    have "Suc m < 2 ^ 64" "n < 2 ^ 64" using Cons.prems(2-4) by simp_all
    then show ?thesis
      by (simp add: word_of_nat_eq_iff take_bit_nat_eq_self del: of_nat_Suc)
  qed
  show ?case
  proof (cases "n = Suc m")
    case True
    with hd show ?thesis by simp
  next
    case False
    with Cons.prems Cons.IH [OF tl] hd ne show ?thesis by (simp del: of_nat_Suc)
  qed
qed simp

lemma parents_get:
  assumes "parents_wf g" "1 \<le> n" "n \<le> g_parent_count g"
  obtains a where "plist_get (g_parents g) n = Some a"
proof -
  have "plist_get (g_parents g) (int (nat n)) = paux (g_parents g ! (nat n - Suc 0))"
    using assms by (intro plist_get_numbered [of _ 0]) (auto simp: parents_wf_def)
  moreover have "g_parents g ! (nat n - Suc 0) \<in> set (g_parents g)"
    using assms by (intro nth_mem) (auto simp: parents_wf_def)
  then have "paux (g_parents g ! (nat n - Suc 0)) \<noteq> None"
    using assms(1) by (force simp: parents_wf_def)
  ultimately show thesis using assms(2) that by auto
qed

lemma plist_upd_keys [simp]: "map pkey (plist_upd l k a) = map pkey l" "length (plist_upd l k a) = length l"
  by (induction l) auto

lemma plist_upd_aux: "x \<in> set (map paux (plist_upd l k a)) \<Longrightarrow> x = Some a \<or> x \<in> set (map paux l)"
  by (induction l) (auto split: if_splits)

lemma plist_get_cong: "(word_of_int j :: u64) = word_of_int k \<Longrightarrow> plist_get l j = plist_get l k"
  by (induction l) auto

lemma plist_get_upd:
  "plist_get l k = Some b \<Longrightarrow>
   plist_get (plist_upd l k a) j = (if (word_of_int j :: u64) = word_of_int k then Some a else plist_get l j)"
  by (induction l) auto

lemma plist_get_mem: "plist_get l k = Some a \<Longrightarrow> Some a \<in> set (map paux l)"
  by (induction l) (auto split: if_splits)

text \<open>Parents whose name is resolved, or can be.\<close>

definition resolvable :: "gai \<Rightarrow> proxy_t \<Rightarrow> bool" where
  "resolvable getaddrinfo a \<longleftrightarrow>
     px_resolved a \<noteq> 0 \<or> fst (so_resolv getaddrinfo (px_host a) (px_hostname a))"

definition all_resolvable :: "gai \<Rightarrow> globals \<Rightarrow> bool" where
  "all_resolvable getaddrinfo g \<longleftrightarrow>
     (\<forall>a. Some a \<in> set (map paux (g_parents g)) \<longrightarrow> resolvable getaddrinfo a)"

text \<open>The table and its state: parents numbered, one of them current (0 before the first use).\<close>

definition table_wf :: "gai \<Rightarrow> globals \<Rightarrow> bool" where
  "table_wf getaddrinfo g \<longleftrightarrow> parents_wf g \<and> all_resolvable getaddrinfo g
     \<and> 1 \<le> g_parent_curr g \<and> g_parent_curr g \<le> g_parent_count g"

definition cycle :: "int \<Rightarrow> nat \<Rightarrow> int \<Rightarrow> int" where
  "cycle start k n = (start - 1 + int k) mod n + 1"

text \<open>The address of a parent, resolved when it is not yet.\<close>

definition parent_addr :: "gai \<Rightarrow> globals \<Rightarrow> int \<Rightarrow> u32 \<times> int" where
  "parent_addr getaddrinfo g c = (case plist_get (g_parents g) c of
       None \<Rightarrow> (0, 0)
     | Some a \<Rightarrow>
         (if px_resolved a \<noteq> 0 then px_host a else snd (so_resolv getaddrinfo (px_host a) (px_hostname a)),
          px_port a))"

lemma parent_addr_cong [simp]:
  "parent_addr getaddrinfo (g\<lparr>g_parent_curr := x\<rparr>) c = parent_addr getaddrinfo g c"
  "parent_addr getaddrinfo (g\<lparr>g_connects := y\<rparr>) c = parent_addr getaddrinfo g c"
  "parent_addr getaddrinfo (g\<lparr>g_dialed := z\<rparr>) c = parent_addr getaddrinfo g c"
  by (simp_all add: parent_addr_def)

text \<open>What one attempt changes: the entry of the parent, the coming connections and the log.\<close>

lemma parent_attempt_step:
  assumes "table_wf getaddrinfo g"
  obtains l where
    "parent_attempt getaddrinfo g =
       Ret (case parent_addr getaddrinfo g (g_parent_curr g) of (h, p) \<Rightarrow> so_connect h p (g\<lparr>g_parents := l\<rparr>))"
    "table_wf getaddrinfo (g\<lparr>g_parents := l\<rparr>)"
    "parent_addr getaddrinfo (g\<lparr>g_parents := l\<rparr>) = parent_addr getaddrinfo g"
proof -
  from assms obtain a where a: "plist_get (g_parents g) (g_parent_curr g) = Some a"
    using parents_get [of g "g_parent_curr g"] by (auto simp: table_wf_def)
  define ok where "ok = fst (so_resolv getaddrinfo (px_host a) (px_hostname a))"
  define host where "host = snd (so_resolv getaddrinfo (px_host a) (px_hostname a))"
  define a' where "a' = (if px_resolved a = 0
    then a\<lparr>px_host := host, px_resolved := (if ok then 1 else 0)\<rparr> else a)"
  define l where "l = plist_upd (g_parents g) (g_parent_curr g) a'"
  have "resolvable getaddrinfo a"
    using assms plist_get_mem [OF a] by (auto simp: table_wf_def all_resolvable_def)
  then have res: "px_resolved a' \<noteq> 0" by (auto simp: a'_def resolvable_def ok_def)
  have addr: "parent_addr getaddrinfo g (g_parent_curr g) = (px_host a', px_port a')"
    by (simp add: parent_addr_def a a'_def host_def)
  have "parent_attempt getaddrinfo g =
    Ret (case parent_addr getaddrinfo g (g_parent_curr g) of (h, p) \<Rightarrow> so_connect h p (g\<lparr>g_parents := l\<rparr>))"
  proof -
    obtain b h where bh: "so_resolv getaddrinfo (px_host a) (px_hostname a) = (b, h)" by fastforce
    with res show ?thesis using a unfolding addr
      by (cases b; cases "px_resolved a = 0")
        (simp_all add: parent_attempt_def Let_def a'_def ok_def host_def l_def)
  qed
  moreover have "table_wf getaddrinfo (g\<lparr>g_parents := l\<rparr>)"
  proof -
    have "Some b \<in> set (map paux l) \<Longrightarrow> resolvable getaddrinfo b" for b
      using plist_upd_aux [of "Some b" "g_parents g"] assms res
      by (auto simp: l_def table_wf_def all_resolvable_def resolvable_def)
    moreover have "None \<notin> set (map paux l)"
      using plist_upd_aux [of None "g_parents g"] assms by (auto simp: l_def table_wf_def parents_wf_def)
    ultimately show ?thesis
      using assms by (simp add: table_wf_def all_resolvable_def parents_wf_def l_def del: set_map)
  qed
  moreover have "parent_addr getaddrinfo (g\<lparr>g_parents := l\<rparr>) = parent_addr getaddrinfo g"
  proof
    fix c
    show "parent_addr getaddrinfo (g\<lparr>g_parents := l\<rparr>) c = parent_addr getaddrinfo g c"
    proof (cases "(word_of_int c :: u64) = word_of_int (g_parent_curr g)")
      case True
      then have "plist_get (g_parents g) c = plist_get (g_parents g) (g_parent_curr g)"
        by (rule plist_get_cong)
      with True addr res a show ?thesis
        by (simp add: parent_addr_def l_def plist_get_upd [OF a])
    next
      case False
      then show ?thesis by (simp add: parent_addr_def l_def plist_get_upd [OF a])
    qed
  qed
  ultimately show thesis using that by blast
qed

lemma next_parent_step:
  assumes "table_wf getaddrinfo g"
  shows "next_parent g = Ret (g\<lparr>g_parent_curr := cycle (g_parent_curr g) 1 (g_parent_count g)\<rparr>)"
    "table_wf getaddrinfo (g\<lparr>g_parent_curr := cycle (g_parent_curr g) 1 (g_parent_count g)\<rparr>)"
proof -
  let ?n = "g_parent_count g" and ?c = "g_parent_curr g"
  define c where "c = (if ?c \<ge> ?n then 0 else ?c) + 1"
  have c: "c = cycle ?c 1 ?n" "1 \<le> c" "c \<le> ?n"
    using assms by (auto simp: c_def cycle_def table_wf_def)
  with parents_get [of g c] assms obtain a where "plist_get (g_parents g) c = Some a"
    by (auto simp: table_wf_def)
  with c(1) show "next_parent g = Ret (g\<lparr>g_parent_curr := cycle ?c 1 ?n\<rparr>)"
    by (simp add: next_parent_def Let_def c_def)
  show "table_wf getaddrinfo (g\<lparr>g_parent_curr := cycle ?c 1 ?n\<rparr>)"
    using assms c by (simp add: table_wf_def all_resolvable_def parents_wf_def)
qed

lemma cycle_step:
  "1 \<le> n \<Longrightarrow> cycle (cycle s 1 n) k n = cycle s (Suc k) n"
  by (simp add: cycle_def) (metis (no_types, opaque_lifting) add.commute add.left_commute mod_add_left_eq)

text \<open>The addresses of the parents from the current one on, in a circle.\<close>

definition parents_round :: "gai \<Rightarrow> globals \<Rightarrow> int \<Rightarrow> nat \<Rightarrow> (u32 \<times> int) list" where
  "parents_round getaddrinfo g c k =
     map (\<lambda>j. parent_addr getaddrinfo g (cycle c j (g_parent_count g))) [0..<k]"

lemma parents_round_Suc:
  "1 \<le> c \<Longrightarrow> c \<le> g_parent_count g \<Longrightarrow> parents_round getaddrinfo g c (Suc k) =
     parent_addr getaddrinfo g c # parents_round getaddrinfo g (cycle c 1 (g_parent_count g)) k"
  unfolding parents_round_def map_upt_Suc using cycle_step by (simp add: cycle_def)

text \<open>A failed attempt: the next parent is current.\<close>

definition after_failure :: "gai \<Rightarrow> globals \<Rightarrow> proxy_t plist_t \<Rightarrow> (int \<times> peer) list \<Rightarrow> globals" where
  "after_failure getaddrinfo g l fs = g\<lparr>g_parents := l, g_connects := fs,
     g_dialed := g_dialed g @ [parent_addr getaddrinfo g (g_parent_curr g)],
     g_parent_curr := cycle (g_parent_curr g) 1 (g_parent_count g)\<rparr>"

lemma connect_fails_step:
  assumes "table_wf getaddrinfo g" "g_connects g = f # fs" "fst f \<le> 0"
  shows "\<exists>l. connect_loop getaddrinfo 0 g = Ret ((fst f, None), after_failure getaddrinfo g l fs)
    \<and> (\<forall>m. connect_loop getaddrinfo (Suc m) g = connect_loop getaddrinfo m (after_failure getaddrinfo g l fs))
    \<and> table_wf getaddrinfo (after_failure getaddrinfo g l fs)
    \<and> parent_addr getaddrinfo (after_failure getaddrinfo g l fs) = parent_addr getaddrinfo g"
proof -
  from parent_attempt_step [OF assms(1)] obtain l where
    P: "parent_attempt getaddrinfo g =
       Ret (case parent_addr getaddrinfo g (g_parent_curr g) of (h, p) \<Rightarrow> so_connect h p (g\<lparr>g_parents := l\<rparr>))"
    "table_wf getaddrinfo (g\<lparr>g_parents := l\<rparr>)"
    "parent_addr getaddrinfo (g\<lparr>g_parents := l\<rparr>) = parent_addr getaddrinfo g" .
  let ?g1 = "g\<lparr>g_parents := l, g_connects := fs,
    g_dialed := g_dialed g @ [parent_addr getaddrinfo g (g_parent_curr g)]\<rparr>"
  let ?g2 = "after_failure getaddrinfo g l fs"
  have w1: "table_wf getaddrinfo ?g1"
    using P(2) by (simp add: table_wf_def all_resolvable_def parents_wf_def)
  have N: "next_parent ?g1 = Ret ?g2" "table_wf getaddrinfo ?g2"
    using next_parent_step [OF w1] by (simp_all add: after_failure_def)
  have A: "parent_attempt getaddrinfo g = Ret ((fst f, Some (snd f)), ?g1)"
    using P(1) assms(2) by (cases f) (simp add: so_connect_def Let_def split: prod.splits)
  have "connect_loop getaddrinfo 0 g = Ret ((fst f, None), ?g2)"
    "connect_loop getaddrinfo (Suc m) g = connect_loop getaddrinfo m ?g2" for m
    using assms(3) by (subst connect_loop.simps, simp add: A N(1))+
  moreover have "parent_addr getaddrinfo ?g2 = parent_addr getaddrinfo g"
    using P(3) by (auto simp: parent_addr_def fun_eq_iff after_failure_def)
  ultimately show ?thesis using N(2) by blast
qed

text \<open>The loop on a list of connections that fail, followed by one that does not.\<close>

lemma connect_loop_cycle:
  assumes "table_wf getaddrinfo g" "g_connects g = fails @ cs" "\<forall>c \<in> set fails. fst c \<le> 0"
    "length fails \<le> left"
    "case cs of [] \<Rightarrow> False | c # _ \<Rightarrow> 0 < fst c"
  shows "\<exists>l. connect_loop getaddrinfo left g = Ret ((fst (hd cs), Some (snd (hd cs))),
      g\<lparr>g_parents := l, g_parent_curr := cycle (g_parent_curr g) (length fails) (g_parent_count g),
        g_connects := tl cs,
        g_dialed := g_dialed g @ parents_round getaddrinfo g (g_parent_curr g) (Suc (length fails))\<rparr>)"
  using assms
proof (induction fails arbitrary: g left)
  case Nil
  from parent_attempt_step [OF Nil.prems(1)] obtain l where
    "parent_attempt getaddrinfo g =
       Ret (case parent_addr getaddrinfo g (g_parent_curr g) of (h, p) \<Rightarrow> so_connect h p (g\<lparr>g_parents := l\<rparr>))" .
  moreover have "cycle (g_parent_curr g) 0 (g_parent_count g) = g_parent_curr g"
    using Nil.prems(1) by (simp add: cycle_def table_wf_def)
  ultimately show ?case using Nil.prems
    by (intro exI [of _ l], cases g, cases cs)
      (auto simp: connect_loop.simps so_connect_def Let_def parents_round_def split: prod.splits)
next
  case (Cons f fs)
  from Cons.prems(2,3) have f: "g_connects g = f # (fs @ cs)" "fst f \<le> 0" by simp_all
  obtain m where m: "left = Suc m" "length fs \<le> m" using Cons.prems(4) by (cases left) auto
  from connect_fails_step [OF Cons.prems(1) f] obtain l where
    G: "connect_loop getaddrinfo 0 g = Ret ((fst f, None), after_failure getaddrinfo g l (fs @ cs))"
    "connect_loop getaddrinfo (Suc m) g = connect_loop getaddrinfo m (after_failure getaddrinfo g l (fs @ cs))"
    "table_wf getaddrinfo (after_failure getaddrinfo g l (fs @ cs))"
    "parent_addr getaddrinfo (after_failure getaddrinfo g l (fs @ cs)) = parent_addr getaddrinfo g" for m
    by blast
  define g' where "g' = after_failure getaddrinfo g l (fs @ cs)"
  note G = G [folded g'_def] and G' = g'_def [unfolded after_failure_def]
  have c: "g_connects g' = fs @ cs" using G' by simp
  from Cons.IH [OF G(3) c _ m(2) Cons.prems(5)] Cons.prems(3) obtain l' where
    L: "connect_loop getaddrinfo m g' = Ret ((fst (hd cs), Some (snd (hd cs))),
      g'\<lparr>g_parents := l', g_parent_curr := cycle (g_parent_curr g') (length fs) (g_parent_count g'),
        g_connects := tl cs,
        g_dialed := g_dialed g' @ parents_round getaddrinfo g' (g_parent_curr g') (Suc (length fs))\<rparr>)"
    by auto
  have r: "parents_round getaddrinfo g' d k = parents_round getaddrinfo g d k" for d k
    using G(4) G' by (simp add: parents_round_def)
  have w: "1 \<le> g_parent_curr g" "g_parent_curr g \<le> g_parent_count g"
    using Cons.prems(1) by (simp_all add: table_wf_def)
  show ?case unfolding m(1) G(2) L list.size(4) add_Suc_right add_0_right parents_round_Suc [OF w]
    using w cycle_step [of "g_parent_count g" "g_parent_curr g" "length fs"]
    by (intro exI [of _ l']) (simp add: r, simp add: G')
qed

text \<open>The loop when all the connections it may try fail.\<close>

lemma connect_loop_fails:
  assumes "table_wf getaddrinfo g" "g_connects g = fails @ cs" "\<forall>c \<in> set fails. fst c \<le> 0"
    "length fails = Suc left"
  shows "\<exists>l i. i \<le> 0 \<and> connect_loop getaddrinfo left g = Ret ((i, None),
      g\<lparr>g_parents := l, g_parent_curr := cycle (g_parent_curr g) (length fails) (g_parent_count g),
        g_connects := cs,
        g_dialed := g_dialed g @ parents_round getaddrinfo g (g_parent_curr g) (length fails)\<rparr>)"
  using assms
proof (induction left arbitrary: fails g)
  case 0
  then obtain f where f: "fails = [f]" by (cases fails) auto
  with "0.prems" have c: "g_connects g = f # cs" "fst f \<le> 0" by simp_all
  from connect_fails_step [OF "0.prems"(1) c] obtain l where
    G: "connect_loop getaddrinfo 0 g = Ret ((fst f, None), after_failure getaddrinfo g l (cs))"
    "connect_loop getaddrinfo (Suc m) g = connect_loop getaddrinfo m (after_failure getaddrinfo g l (cs))"
    "table_wf getaddrinfo (after_failure getaddrinfo g l (cs))"
    "parent_addr getaddrinfo (after_failure getaddrinfo g l (cs)) = parent_addr getaddrinfo g" for m
    by blast
  have w: "1 \<le> g_parent_curr g" "g_parent_curr g \<le> g_parent_count g"
    using "0.prems"(1) by (simp_all add: table_wf_def)
  show ?case unfolding f list.size add_0 parents_round_Suc [OF w] add_Suc_right G(1)
    using c(2) by (intro exI [of _ l] exI [of _ "fst f"]) (simp add: after_failure_def parents_round_def)
next
  case (Suc m)
  from Suc.prems(4) obtain f fs where f: "fails = f # fs" by (cases fails) auto
  with Suc.prems(2,3) have c: "g_connects g = f # (fs @ cs)" "fst f \<le> 0" by simp_all
  from connect_fails_step [OF Suc.prems(1) c] obtain l where
    G: "connect_loop getaddrinfo 0 g = Ret ((fst f, None), after_failure getaddrinfo g l (fs @ cs))"
    "connect_loop getaddrinfo (Suc m) g = connect_loop getaddrinfo m (after_failure getaddrinfo g l (fs @ cs))"
    "table_wf getaddrinfo (after_failure getaddrinfo g l (fs @ cs))"
    "parent_addr getaddrinfo (after_failure getaddrinfo g l (fs @ cs)) = parent_addr getaddrinfo g" for m
    by blast
  define g' where "g' = after_failure getaddrinfo g l (fs @ cs)"
  note G = G [folded g'_def] and G' = g'_def [unfolded after_failure_def]
  have c': "g_connects g' = fs @ cs" using G' by simp
  from Suc.IH [OF G(3) c'] Suc.prems(3,4) f obtain l' i where
    L: "i \<le> 0" "connect_loop getaddrinfo m g' = Ret ((i, None),
      g'\<lparr>g_parents := l', g_parent_curr := cycle (g_parent_curr g') (length fs) (g_parent_count g'),
        g_connects := cs,
        g_dialed := g_dialed g' @ parents_round getaddrinfo g' (g_parent_curr g') (length fs)\<rparr>)"
    by auto
  have r: "parents_round getaddrinfo g' d k = parents_round getaddrinfo g d k" for d k
    using G(4) G' by (simp add: parents_round_def)
  have w: "1 \<le> g_parent_curr g" "g_parent_curr g \<le> g_parent_count g"
    using Suc.prems(1) by (simp_all add: table_wf_def)
  show ?case unfolding G(2) L(2) f list.size(4) add_Suc_right add_0_right parents_round_Suc [OF w]
    using w L(1) cycle_step [of "g_parent_count g" "g_parent_curr g" "length fs"]
    by (intro exI [of _ l'] exI [of _ i]) (simp add: r, simp add: G')
qed

lemma proxy_connect_start:
  assumes "parents_wf g" "1 \<le> g_parent_count g" "0 \<le> g_parent_curr g" "g_parent_curr g \<le> g_parent_count g"
    "all_resolvable getaddrinfo g"
  defines "s \<equiv> (if g_parent_curr g = 0 then 1 else g_parent_curr g)"
  shows "(if g_parent_curr g = 0
          then (if plist_get (g_parents g) 1 = None then UB else Ret (g\<lparr>g_parent_curr := 1\<rparr>))
          else Ret g) = Ret (g\<lparr>g_parent_curr := s\<rparr>)"
    "table_wf getaddrinfo (g\<lparr>g_parent_curr := s\<rparr>)"
proof -
  from parents_get [OF assms(1), of 1] assms(2) obtain a where "plist_get (g_parents g) 1 = Some a" by auto
  then show "(if g_parent_curr g = 0
      then (if plist_get (g_parents g) 1 = None then UB else Ret (g\<lparr>g_parent_curr := 1\<rparr>))
      else Ret g) = Ret (g\<lparr>g_parent_curr := s\<rparr>)"
    by (simp add: s_def)
  show "table_wf getaddrinfo (g\<lparr>g_parent_curr := s\<rparr>)"
    using assms by (simp add: table_wf_def parents_wf_def all_resolvable_def)
qed

lemma cycle_full: "1 \<le> n \<Longrightarrow> 1 \<le> s \<Longrightarrow> s \<le> n \<Longrightarrow> cycle s (nat n) n = s"
  by (simp add: cycle_def)

lemma proxy_connect_result:
  assumes "parents_wf g" "1 \<le> g_parent_count g" "0 \<le> g_parent_curr g" "g_parent_curr g \<le> g_parent_count g"
    "all_resolvable getaddrinfo g" "g_cache g = Some cache"
    "auth_wf a" "auth_wf (g_creds g)"
    "g_connects g = fails @ cs" "\<forall>c \<in> set fails. fst c \<le> 0" "length fails \<le> nat (g_parent_count g)"
    "if length fails < nat (g_parent_count g) then cs \<noteq> [] \<and> 0 < fst (hd cs) else True"
  shows "\<exists>i p a' g'. proxy_connect getaddrinfo g (Some a) = Ret ((i, p), Some a', g')
    \<and> (if length fails < nat (g_parent_count g)
       then i = fst (hd cs) \<and> p = Some (snd (hd cs)) \<and> g_connects g' = tl cs
         \<and> view_auth a' = (if \<not> g_ntlmbasic g then view_auth (g_creds g)
             else (view_auth (g_creds g))\<lparr>v_user := [], v_hashes := (zero_bytes, zero_bytes, zero_bytes)\<rparr>)
       else i \<le> 0 \<and> p = None \<and> a' = a \<and> g_connects g' = cs)
    \<and> g_parent_curr g' =
       cycle (if g_parent_curr g = 0 then 1 else g_parent_curr g) (length fails) (g_parent_count g)
    \<and> g_cache g' = (if g_parent_curr g' = g_parent_curr g \<or> cache = [] then Some cache else None)
    \<and> g_dialed g' = g_dialed g @ parents_round getaddrinfo g (if g_parent_curr g = 0 then 1 else g_parent_curr g)
        (min (Suc (length fails)) (nat (g_parent_count g)))"
proof -
  define s where "s = (if g_parent_curr g = 0 then 1 else g_parent_curr g)"
  let ?g0 = "g\<lparr>g_parent_curr := s\<rparr>"
  note st = proxy_connect_start [OF assms(1-5), folded s_def]
  have con: "g_connects ?g0 = fails @ cs" using assms(9) by simp
  define cur where "cur = cycle s (length fails) (g_parent_count g)"
  have inv: "(if g_parent_curr g \<noteq> cur then invalidate_cache (h\<lparr>g_parent_curr := cur, g_connects := r, g_dialed := d\<rparr>)
      else Ret (h\<lparr>g_parent_curr := cur, g_connects := r, g_dialed := d\<rparr>)) =
    Ret (h\<lparr>g_parent_curr := cur, g_connects := r, g_dialed := d,
      g_cache := if cur = g_parent_curr g \<or> cache = [] then Some cache else None\<rparr>)"
    if "g_cache h = Some cache" for h r d
    using that by (cases h) (auto simp: invalidate_cache_def)
  have rd: "parents_round getaddrinfo ?g0 = parents_round getaddrinfo g"
    by (simp add: parents_round_def fun_eq_iff)
  define ds where "ds = g_dialed g @ parents_round getaddrinfo g s (min (Suc (length fails)) (nat (g_parent_count g)))"
  show ?thesis
  proof (cases "length fails < nat (g_parent_count g)")
    case True
    then have left: "length fails \<le> nat (g_parent_count ?g0 - 1)" by simp
    from connect_loop_cycle [OF st(2) con assms(10) left] assms(12) True obtain l where
      L: "connect_loop getaddrinfo (nat (g_parent_count g - 1)) ?g0 = Ret ((fst (hd cs), Some (snd (hd cs))),
        g\<lparr>g_parents := l, g_parent_curr := cur, g_connects := tl cs, g_dialed := ds\<rparr>)"
      by (cases cs) (auto simp: cur_def ds_def rd min_def)
    from assms(12) True have i: "0 < fst (hd cs)" by simp
    from copy_auth_result [OF assms(7,8), of "\<not> g_ntlmbasic g"] obtain a' where
      C: "copy_auth a (g_creds g) (\<not> g_ntlmbasic g) = Ret a'"
      "view_auth a' = (if \<not> g_ntlmbasic g then view_auth (g_creds g)
         else (view_auth (g_creds g))\<lparr>v_user := [], v_hashes := (zero_bytes, zero_bytes, zero_bytes)\<rparr>)"
      by blast
    define g1 where "g1 = g\<lparr>g_parents := l, g_parent_curr := cur, g_connects := tl cs, g_dialed := ds,
          g_cache := if cur = g_parent_curr g \<or> cache = [] then Some cache else None\<rparr>"
    have "proxy_connect getaddrinfo g (Some a) = Ret ((fst (hd cs), Some (snd (hd cs))), Some a', g1)"
      using i C(1) inv [of "g\<lparr>g_parents := l\<rparr>" ds "tl cs"] assms(6)
      by (simp add: proxy_connect_def Let_def st(1) L g1_def)
    moreover have "g_parent_curr g1 = cur" "g_connects g1 = tl cs" "g_dialed g1 = ds"
      "g_cache g1 = (if cur = g_parent_curr g \<or> cache = [] then Some cache else None)"
      by (simp_all add: g1_def)
    ultimately show ?thesis using True C(2) unfolding cur_def s_def ds_def by (metis (no_types))
  next
    case False
    then have left: "length fails = Suc (nat (g_parent_count ?g0 - 1))"
      using assms(2,11) by simp
    from connect_loop_fails [OF st(2) con assms(10) left] obtain l i where
      L: "i \<le> 0" "connect_loop getaddrinfo (nat (g_parent_count g - 1)) ?g0 = Ret ((i, None),
        g\<lparr>g_parents := l, g_parent_curr := cur, g_connects := cs, g_dialed := ds\<rparr>)"
      using assms(11) False by (auto simp: cur_def ds_def rd min_def)
    define g1 where "g1 = g\<lparr>g_parents := l, g_parent_curr := cur, g_connects := cs, g_dialed := ds,
          g_cache := if cur = g_parent_curr g \<or> cache = [] then Some cache else None\<rparr>"
    have "proxy_connect getaddrinfo g (Some a) = Ret ((i, None), Some a, g1)"
      using L(1) inv [of "g\<lparr>g_parents := l\<rparr>" ds cs] assms(6)
      by (simp add: proxy_connect_def Let_def st(1) L(2) g1_def)
    moreover have "g_parent_curr g1 = cur" "g_connects g1 = cs" "g_dialed g1 = ds"
      "g_cache g1 = (if cur = g_parent_curr g \<or> cache = [] then Some cache else None)"
      by (simp_all add: g1_def)
    ultimately show ?thesis using False L(1) unfolding cur_def s_def ds_def by (metis (no_types))
  qed
qed

section \<open>Properties\<close>

text \<open>
  The option that adds a parent keeps the table numbered from 1 without gaps.  An accepted
  specification (host, then a colon or blank and a port, or the port given beside it) becomes the
  last entry, with the host name cut to 63 characters, and no other entry changes; it is rejected
  exactly when only blanks follow the separator, and the program exits exactly on port 0.
\<close>

theorem parent_add_table:
  assumes "parents_wf g" "length (g_parents g) < 2 ^ 31 - 1"
  shows "case parent_add g parent port of
      Added g' \<Rightarrow> parents_wf g' \<and> g_parent_count g' = g_parent_count g + 1
        \<and> (\<exists>host p. parent_spec parent port = Some (host, p) \<and> p \<noteq> 0
             \<and> plist_get (g_parents g') (g_parent_count g') =
                 Some \<lparr>px_hostname = take 63 host, px_host = 0, px_port = p, px_resolved = 0\<rparr>)
        \<and> take (length (g_parents g)) (g_parents g') = g_parents g
    | Rejected \<Rightarrow> parent_spec parent port = None
    | Exits \<Rightarrow> (\<exists>host. parent_spec parent port = Some (host, 0))"
proof (cases "parent_spec parent port")
  case None
  then show ?thesis by (simp add: parent_add_def)
next
  case (Some hp)
  obtain host p where hp: "hp = (host, p)" by fastforce
  show ?thesis
  proof (cases "p = 0")
    case True
    with Some hp show ?thesis by (simp add: parent_add_def)
  next
    case False
    define a where "a = \<lparr>px_hostname = take 63 host, px_host = 0, px_port = p, px_resolved = 0\<rparr>"
    define l where "l = g_parents g @ [\<lparr>pkey = word_of_int (g_parent_count g + 1), paux = Some a\<rparr>]"
    let ?g = "g\<lparr>g_parent_count := g_parent_count g + 1, g_parents := l\<rparr>"
    have A: "parent_add g parent port = Added ?g"
      using Some hp False by (simp add: parent_add_def Let_def a_def l_def plist_add_append)
    have wf: "parents_wf ?g" using assms by (auto simp: parents_wf_def l_def add.commute)
    have "plist_get l (int (length l)) = paux (l ! (length l - Suc 0))"
      using wf assms(2) by (intro plist_get_numbered [of _ 0]) (auto simp: parents_wf_def l_def)
    moreover have "int (length l) = g_parent_count g + 1" "l ! (length l - Suc 0) = \<lparr>pkey = word_of_int (g_parent_count g + 1), paux = Some a\<rparr>"
      using assms(1) by (simp_all add: l_def parents_wf_def nth_append)
    ultimately have "plist_get l (g_parent_count g + 1) = Some a" by simp
    with A wf Some hp False show ?thesis by (simp add: a_def l_def)
  qed
qed

definition no_globals :: globals where
  "no_globals = \<lparr>g_parents = [], g_parent_count = 0, g_parent_curr = 0, g_cache = Some [], g_creds = new_auth,
     g_ntlmbasic = False, g_header_list = [], g_connects = [], g_dialed = []\<rparr>"

theorem parent_add_table_witness:
  "\<exists>g'. parent_add no_globals ''p:80'' 0 = Added g'
    \<and> plist_get (g_parents g') 1 = Some \<lparr>px_hostname = ''p'', px_host = 0, px_port = 80, px_resolved = 0\<rparr>"
proof -
  have spec: "parent_spec ''p:80'' 0 = Some (''p'', 80)"
  proof -
    have "strcspn ''p:80'' '': '' = 1" "drop 2 ''p:80'' = ''80''" by code_simp+
    moreover have "atoi ''80'' = 80" using atoi_show_nat [of 80] by (simp add: show_nat.simps)
    ultimately show ?thesis by (simp add: parent_spec_def)
  qed
  have "parents_wf no_globals" by (simp add: parents_wf_def no_globals_def)
  from parent_add_table [OF this, of "''p:80''" 0] spec show ?thesis
    by (auto simp: no_globals_def parent_add_def Let_def)
qed

text \<open>
  C36: the choice of a parent.  With a table of n parents whose names resolve, proxy_connect tries
  them in turn from the current one (the first at the start) and in a circle, at most n of them:
  when the first k connections fail and the next one does not, its descriptor is returned, the
  parent it belongs to is current, and the credentials of the program have been copied; when n
  fail, the result is not positive and the current parent is the same as before.  The addresses
  connected to are those of the parents in that order, each with its own port.
\<close>

theorem proxy_connect_round_robin:
  assumes "parents_wf g" "1 \<le> g_parent_count g" "0 \<le> g_parent_curr g" "g_parent_curr g \<le> g_parent_count g"
    "all_resolvable getaddrinfo g" "g_cache g = Some cache"
    "auth_wf a" "auth_wf (g_creds g)"
    "g_connects g = fails @ cs" "\<forall>c \<in> set fails. fst c \<le> 0" "length fails \<le> nat (g_parent_count g)"
    "if length fails < nat (g_parent_count g) then cs \<noteq> [] \<and> 0 < fst (hd cs) else True"
  shows "\<exists>i p a' g'. proxy_connect getaddrinfo g (Some a) = Ret ((i, p), Some a', g')
    \<and> (if length fails < nat (g_parent_count g)
       then i = fst (hd cs) \<and> p = Some (snd (hd cs)) \<and> g_connects g' = tl cs
         \<and> view_auth a' = (if \<not> g_ntlmbasic g then view_auth (g_creds g)
             else (view_auth (g_creds g))\<lparr>v_user := [], v_hashes := (zero_bytes, zero_bytes, zero_bytes)\<rparr>)
       else i \<le> 0 \<and> p = None \<and> a' = a \<and> g_connects g' = cs)
    \<and> g_parent_curr g' =
       cycle (if g_parent_curr g = 0 then 1 else g_parent_curr g) (length fails) (g_parent_count g)
    \<and> g_cache g' = (if g_parent_curr g' = g_parent_curr g \<or> cache = [] then Some cache else None)
    \<and> g_dialed g' = g_dialed g @ parents_round getaddrinfo g (if g_parent_curr g = 0 then 1 else g_parent_curr g)
        (min (Suc (length fails)) (nat (g_parent_count g)))"
  by (rule proxy_connect_result [OF assms])

definition two_parents :: globals where
  "two_parents = no_globals\<lparr>g_parent_count := 2, g_parent_curr := 1,
     g_parents := [\<lparr>pkey = 1, paux = Some \<lparr>px_hostname = ''p'', px_host = 1, px_port = 80, px_resolved = 1\<rparr>\<rparr>,
                   \<lparr>pkey = 2, paux = Some \<lparr>px_hostname = ''q'', px_host = 2, px_port = 80, px_resolved = 1\<rparr>\<rparr>],
     g_connects := [(-1, \<lparr>p_in = \<lparr>so_segs = [], so_err = False\<rparr>, p_out = \<lparr>sk_out = [], sk_plan = []\<rparr>\<rparr>),
                    (7, \<lparr>p_in = \<lparr>so_segs = [], so_err = False\<rparr>, p_out = \<lparr>sk_out = [], sk_plan = []\<rparr>\<rparr>)]\<rparr>"

lemma two_parents_wf: "parents_wf two_parents" "all_resolvable (\<lambda>_. None) two_parents"
  by (simp_all add: two_parents_def no_globals_def parents_wf_def all_resolvable_def resolvable_def upt_rec)

theorem proxy_connect_round_robin_witness:
  "\<exists>p a' g'. proxy_connect (\<lambda>_. None) two_parents (Some new_auth) = Ret ((7, p), Some a', g')
     \<and> g_parent_curr g' = 2 \<and> g_connects g' = []"
proof -
  have f: "g_connects two_parents = [hd (g_connects two_parents)] @ tl (g_connects two_parents)"
    "\<forall>c \<in> set [hd (g_connects two_parents)]. fst c \<le> 0"
    by (simp_all add: two_parents_def)
  have c: "cycle 1 (Suc 0) 2 = 2" by (simp add: cycle_def)
  have s: "g_parent_curr two_parents = 1" "g_parent_count two_parents = 2" "g_cache two_parents = Some []"
    "auth_wf (g_creds two_parents)" "fst (hd (tl (g_connects two_parents))) = 7"
    "tl (g_connects two_parents) \<noteq> []" "tl (tl (g_connects two_parents)) = []"
    by (simp_all add: two_parents_def no_globals_def)
  from proxy_connect_round_robin [OF two_parents_wf(1) _ _ _ two_parents_wf(2) s(3) new_auth_wf s(4) f]
  show ?thesis by (auto simp: s(1,2,5-7) c)
qed

text \<open>
  Changing the parent leaves a dangling cache.  When connections to the old parent are cached and
  proxy_connect moves to another parent, the list is freed but its pointer is kept: the next
  look-up or store of a cached connection, and the next change of the parent, read freed memory.
\<close>

theorem proxy_connect_stale_cache:
  assumes "parents_wf g" "1 \<le> g_parent_curr g" "g_parent_curr g \<le> g_parent_count g"
    "all_resolvable getaddrinfo g" "g_cache g = Some cache" "cache \<noteq> []"
    "auth_wf a" "auth_wf (g_creds g)"
    "g_connects g = fails @ cs" "\<forall>c \<in> set fails. fst c \<le> 0" "cs \<noteq> []" "0 < fst (hd cs)"
    "0 < length fails" "length fails < nat (g_parent_count g)"
  shows "\<exists>i a' g'. proxy_connect getaddrinfo g (Some a) = Ret (i, Some a', g') \<and> 0 < fst i
    \<and> cache_take closed g' = UB \<and> cache_store sd b g' = UB \<and> invalidate_cache g' = UB"
proof -
  have "cycle (g_parent_curr g) (length fails) (g_parent_count g) \<noteq> g_parent_curr g"
  proof
    define n c k where "n = g_parent_count g" and "c = g_parent_curr g" and "k = int (length fails)"
    assume "cycle (g_parent_curr g) (length fails) (g_parent_count g) = g_parent_curr g"
    then have "(c - 1 + k) mod n = (c - 1) mod n"
      using assms(2,3) by (simp add: cycle_def n_def c_def k_def)
    then have "n dvd k" by (simp add: mod_eq_dvd_iff)
    moreover have "0 < k" "k < n" using assms(13,14) by (auto simp: k_def n_def)
    ultimately show False using zdvd_imp_le by fastforce
  qed
  with proxy_connect_result [OF assms(1) _ _ assms(3-5,7-10)] assms(2,3,6,11-14) show ?thesis
    by (fastforce simp: cache_take_def cache_store_def invalidate_cache_def)
qed

theorem proxy_connect_stale_cache_witness:
  "\<exists>i a' g'. proxy_connect (\<lambda>_. None)
      (two_parents\<lparr>g_cache := Some [\<lparr>pkey = 5, paux = Some new_auth\<rparr>]\<rparr>) (Some new_auth) = Ret (i, Some a', g')
    \<and> cache_take (\<lambda>_. False) g' = UB"
proof -
  let ?g = "two_parents\<lparr>g_cache := Some [\<lparr>pkey = 5, paux = Some new_auth\<rparr>]\<rparr>"
  have w: "parents_wf ?g" "all_resolvable (\<lambda>_. None) ?g"
    using two_parents_wf by (simp_all add: parents_wf_def all_resolvable_def)
  have f: "g_connects ?g = [hd (g_connects two_parents)] @ tl (g_connects two_parents)"
    "\<forall>c \<in> set [hd (g_connects two_parents)]. fst c \<le> 0"
    by (simp_all add: two_parents_def)
  have s: "1 \<le> g_parent_curr ?g" "g_parent_curr ?g \<le> g_parent_count ?g"
    "g_cache ?g = Some [\<lparr>pkey = 5, paux = Some new_auth\<rparr>]" "auth_wf (g_creds ?g)"
    "tl (g_connects two_parents) \<noteq> []" "0 < fst (hd (tl (g_connects two_parents)))"
    "length [hd (g_connects two_parents)] < nat (g_parent_count ?g)"
    by (simp_all add: two_parents_def no_globals_def)
  from proxy_connect_stale_cache [OF w(1) s(1,2) w(2) s(3) _ new_auth_wf s(4) f s(5,6) _ s(7)]
  show ?thesis by fastforce
qed

end
