(* ===== verification/Forward.thy ===== *)
theory Forward
  imports Parents
begin

text \<open>
  forward.c: proxy_authenticate, the NTLM handshake with the parent proxy, and prepare_http_connect,
  which asks it for a tunnel.  A connection is its descriptor and the peer at the other end (none
  for a descriptor that is not open); what is written to the peer and what it has still to send
  are explicit, and so are the random nonce and the time the messages contain.
\<close>

section \<open>The messages\<close>

record rnd =
  rnd_endian :: nat
  rnd_nonce :: u64
  rnd_now :: u64

text \<open>The header value of an NTLM message of \<open>len\<close> bytes, built in a buffer of BUFSIZE.\<close>

definition ntlm_line :: "byte list \<Rightarrow> nat \<Rightarrow> string c_result" where
  "ntlm_line msg len =
     c_bind (mem_get msg 0 len) (\<lambda>bs. Ret (''NTLM '' @ to_base64 bs (BUFSIZE - 5)))"

definition request_line :: "auth_s \<Rightarrow> string c_result" where
  "request_line creds =
     c_bind (ntlm_request creds) (\<lambda>(msg, len).
       if len = 0 then Ret ''NTLM ''
       else (case msg of None \<Rightarrow> UB | Some m \<Rightarrow> ntlm_line m len))"

text \<open>
  The first request: a copy of the client's without a body, with the negotiation message; and
  whether it is just a probe, because the client's request is a HEAD or has a body.
\<close>

definition auth_probe :: "rr_data_s \<Rightarrow> rr_data_s option \<Rightarrow> auth_s \<Rightarrow> (rr_data_s \<times> bool) c_result" where
  "auth_probe request response creds =
     c_bind (request_line creds) (\<lambda>buf.
     c_bind (dup_rr_data (Some request)) (\<lambda>dup.
     case dup of None \<Rightarrow> UB | Some auth \<Rightarrow>
       let auth1 = auth\<lparr>rr_headers := hlist_mod (rr_headers auth) ''Proxy-Authorization'' buf True\<rparr>
       in c_bind (has_method ''HEAD'' (Some request)) (\<lambda>head.
          c_bind (if head then Ret True
                  else c_bind (http_has_body (Some request) response) (\<lambda>n. Ret (n \<noteq> 0))) (\<lambda>probe.
          let auth2 = (if head then auth1\<lparr>rr_method := Some ''GET''\<rparr> else auth1)
          in Ret (auth2\<lparr>rr_headers :=
                    hlist_del (hlist_mod (rr_headers auth2) ''Content-Length'' ''0'' True) ''Transfer-Encoding''\<rparr>,
                  probe)))))"

section \<open>The challenge\<close>

abbreviation NTLM_CHALLENGE_MIN :: int where "NTLM_CHALLENGE_MIN \<equiv> 24"

text \<open>
  The decoded challenge of a header value: the result of \<open>from_base64\<close> and the buffer.  A value
  shorter than the scheme and its blank is read beyond its end.
\<close>

definition challenge_of :: "string \<Rightarrow> (int \<times> byte list) c_result" where
  "challenge_of tmp =
     (if length tmp < 5 then UB
      else (case from_base64 (drop 5 tmp) of (len, bs) \<Rightarrow>
              Ret (len, bs @ replicate (length tmp + 6 - length bs) 0)))"

text \<open>
  The answer to a 407: whether the function gives up here, and the client's request, which gets the
  authentication message.
\<close>

definition auth_challenge :: "rnd \<Rightarrow> hlist_t \<Rightarrow> rr_data_s \<Rightarrow> auth_s \<Rightarrow> (bool \<times> rr_data_s) c_prog" where
  "auth_challenge rn hs request creds =
     (case hlist_get hs ''Proxy-Authenticate'' of
        None \<Rightarrow> Some (Ret (False, request))
      | Some tmp \<Rightarrow>
          p_bind (Some (challenge_of tmp)) (\<lambda>(len, chal).
            if len > NTLM_CHALLENGE_MIN then
              p_bind (ntlm_response (rnd_endian rn) (rnd_nonce rn) (rnd_now rn) chal len creds) (\<lambda>(msg, n).
                case msg of
                  Some m \<Rightarrow>
                    if n > 0 then
                      p_bind (Some (ntlm_line m n)) (\<lambda>buf.
                        Some (Ret (False, request\<lparr>rr_headers :=
                          hlist_mod (rr_headers request) ''Proxy-Authorization'' buf True\<rparr>)))
                    else Some (Ret (True, request))
                | None \<Rightarrow> Some (Ret (True, request)))
            else Some (Ret (True, request))))"

text \<open>
  After the proxy's reply: \<open>Some rc\<close> when the function ends here, the peer, the client's request
  and the reply.  A reply to a probe becomes a 407 when the caller gets to see it.
\<close>

definition auth_answer ::
  "rnd \<Rightarrow> bool \<Rightarrow> bool \<Rightarrow> rr_data_s \<Rightarrow> peer \<Rightarrow> rr_data_s \<Rightarrow> auth_s \<Rightarrow>
    (bool option \<times> peer \<times> rr_data_s \<times> rr_data_s) c_prog" where
  "auth_answer rn probe seen reply p request creds =
     (if rr_code reply = 407 then
        p_bind (http_body_drop (p_in p) (Some reply)) (\<lambda>(ok, s, _).
          let p' = p\<lparr>p_in := s\<rparr>
          in if \<not> ok then Some (Ret (Some False, p', request, reply))
             else p_bind (auth_challenge rn (rr_headers reply) request creds) (\<lambda>(bail, request').
                    Some (Ret (if bail then Some True else None, p', request', reply))))
      else if probe then
        (let reply' = (if seen then reply\<lparr>rr_code := 407\<rparr> else reply)
         in p_bind (http_body_drop (p_in p) (Some reply')) (\<lambda>(ok, s, _).
              Some (Ret (if ok then None else Some False, p\<lparr>p_in := s\<rparr>, request, reply'))))
      else Some (Ret (None, p, request, reply)))"

section \<open>proxy\_authenticate\<close>

record auth_result =
  ar_rc :: bool
  ar_fd :: int
  ar_peer :: "peer option"
  ar_request :: rr_data_s
  ar_response :: "rr_data_s option"
  ar_creds :: auth_s
  ar_globals :: globals

text \<open>The end: a connection the proxy has closed is made again.\<close>

definition auth_finish :: "gai \<Rightarrow> auth_result \<Rightarrow> auth_result c_result" where
  "auth_finish getaddrinfo r =
     (case ar_peer r of
        Some p \<Rightarrow>
          if sink_closed (p_out p) then
            c_bind (proxy_connect getaddrinfo (ar_globals r) (Some (ar_creds r))) (\<lambda>((sd, q), c, g).
              Ret (r\<lparr>ar_rc := sd \<ge> 0, ar_fd := sd, ar_peer := q,
                     ar_creds := (case c of None \<Rightarrow> ar_creds r | Some c' \<Rightarrow> c'), ar_globals := g\<rparr>))
          else Ret r
      | None \<Rightarrow> Ret r)"

definition proxy_authenticate ::
  "gai \<Rightarrow> rnd \<Rightarrow> globals \<Rightarrow> int \<Rightarrow> peer \<Rightarrow> rr_data_s \<Rightarrow> rr_data_s option \<Rightarrow> auth_s \<Rightarrow> auth_result c_prog" where
  "proxy_authenticate getaddrinfo rn g sd p request response creds =
     (let res = (\<lambda>rc p request response. \<lparr>ar_rc = rc, ar_fd = sd, ar_peer = Some p, ar_request = request,
                   ar_response = response, ar_creds = creds, ar_globals = g\<rparr>)
      in p_bind (Some (auth_probe request response creds)) (\<lambda>(auth, probe).
         p_bind (Some (headers_send (p_out p) auth)) (\<lambda>(ok, k).
         let p1 = p\<lparr>p_out := k\<rparr>
         in if \<not> ok then Some (Ret (res False p1 request response))
            else p_bind (headers_recv (p_in p1)
                   (the (reset_rr_data (Some (case response of None \<Rightarrow> auth | Some r \<Rightarrow> r))))) (\<lambda>(ok, reply, s).
              let p2 = p1\<lparr>p_in := s\<rparr>; seen = (\<lambda>r. map_option (\<lambda>_. r) response)
              in if \<not> ok then Some (Ret (res False p2 request (seen reply)))
                 else p_bind (auth_answer rn probe (response \<noteq> None) reply p2 request creds)
                        (\<lambda>(stop, p3, request', reply').
                   case stop of
                     Some rc \<Rightarrow> Some (Ret (res rc p3 request' (seen reply')))
                   | None \<Rightarrow> Some (auth_finish getaddrinfo (res True p3 request' (seen reply'))))))))"

section \<open>prepare\_http\_connect\<close>

text \<open>The request for a tunnel.\<close>

definition connect_request :: "hlist_t \<Rightarrow> string \<Rightarrow> rr_data_s" where
  "connect_request header_list thost =
     new_rr_data\<lparr>rr_req := 1, rr_method := Some ''CONNECT'', rr_url := Some thost,
       rr_http := Some ''HTTP/1.1'',
       rr_headers := hlist_replace (hlist_mod [] ''Proxy-Connection'' ''keep-alive'' True) header_list True\<rparr>"

text \<open>
  The real request after a 407, on the connection the handshake has left (a descriptor that is not
  open fails): the reply, when there is one, and the peer.
\<close>

definition connect_final :: "auth_result \<Rightarrow> (rr_data_s option \<times> auth_result) c_prog" where
  "connect_final r =
     (case ar_response r of
        None \<Rightarrow> Some UB
      | Some data2 \<Rightarrow>
          if rr_code data2 \<noteq> 407 then Some (Ret (Some data2, r))
          else (case ar_peer r of
                  None \<Rightarrow> Some (Ret (None, r))
                | Some p \<Rightarrow>
                    p_bind (Some (headers_send (p_out p) (ar_request r))) (\<lambda>(ok, k).
                      let p1 = p\<lparr>p_out := k\<rparr>
                      in if \<not> ok then Some (Ret (None, r\<lparr>ar_peer := Some p1\<rparr>))
                         else p_bind (headers_recv (p_in p1) (the (reset_rr_data (Some data2)))) (\<lambda>(ok, d, s).
                                let r' = r\<lparr>ar_peer := Some (p1\<lparr>p_in := s\<rparr>), ar_response := Some d\<rparr>
                                in Some (Ret (if ok then Some d else None, r'))))))"

text \<open>Returns whether the tunnel stands, and the state after it.\<close>

definition prepare_http_connect ::
  "gai \<Rightarrow> rnd \<Rightarrow> globals \<Rightarrow> int \<Rightarrow> peer \<Rightarrow> auth_s \<Rightarrow> string option \<Rightarrow> (bool \<times> auth_result option) c_prog" where
  "prepare_http_connect getaddrinfo rn g sd p creds thost =
     (case thost of
        Some (c # h) \<Rightarrow>
          if sd = 0 then Some (Ret (False, None))
          else p_bind (proxy_authenticate getaddrinfo rn g sd p (connect_request (g_header_list g) (c # h))
                  (Some new_rr_data) creds) (\<lambda>r.
            if \<not> ar_rc r then Some (Ret (False, Some r))
            else p_bind (connect_final r) (\<lambda>(d, r').
                   Some (Ret (case d of None \<Rightarrow> False | Some data2 \<Rightarrow> rr_code data2 = 200, Some r'))))
      | _ \<Rightarrow> Some (Ret (False, None)))"

section \<open>The first request\<close>

text \<open>The copy the handshake works on: without the error text and the body.\<close>

definition dup_view :: "rr_data_s \<Rightarrow> rr_data_s" where
  "dup_view d = d\<lparr>rr_errmsg := None, rr_body := (if rr_body_len d > 0
     then map_option (take (nat (rr_body_len d))) (rr_body d) else None)\<rparr>"

definition probe_headers :: "hlist_t \<Rightarrow> string \<Rightarrow> hlist_t" where
  "probe_headers hs buf = hlist_del (hlist_mod (hlist_mod hs ''Proxy-Authorization'' buf True)
     ''Content-Length'' ''0'' True) ''Transfer-Encoding''"

lemma auth_probe_eq:
  assumes "body_wf request" "request_line creds = Ret buf" "has_method ''HEAD'' (Some request) = Ret head"
    "if head then b = True else http_has_body (Some request) response = Ret n \<and> b = (n \<noteq> 0)"
  shows "auth_probe request response creds = Ret ((dup_view request)\<lparr>
      rr_method := if head then Some ''GET'' else rr_method request,
      rr_headers := probe_headers (rr_headers request) buf\<rparr>, b)"
proof -
  have "dup_rr_data (Some request) = Ret (Some (dup_view request))"
    using copy_rr_data_eq [OF assms(1), of undefined] by (simp add: dup_view_def)
  with assms(2-4) show ?thesis
    by (cases head) (simp_all add: auth_probe_def Let_def probe_headers_def dup_view_def)
qed

lemma header_names [simp]:
  "\<not> strcaseeq ''Proxy-Authorization'' ''Content-Length''" "\<not> strcaseeq ''Content-Length'' ''Proxy-Authorization''"
  "\<not> strcaseeq ''Transfer-Encoding'' ''Proxy-Authorization''" "\<not> strcaseeq ''Proxy-Authorization'' ''Transfer-Encoding''"
  "\<not> strcaseeq ''Transfer-Encoding'' ''Content-Length''" "\<not> strcaseeq ''Content-Length'' ''Transfer-Encoding''"
  by code_simp+

lemma hlist_del_mod:
  assumes "\<not> strcaseeq k' k"
  shows "hlist_del (hlist_mod l k' v True) k = hlist_mod (hlist_del l k) k' v True"
proof -
  have "strcaseeq x k' \<Longrightarrow> \<not> strcaseeq x k" for x
    using assms by (metis strcaseeq_sym strcaseeq_trans)
  then have sf: "hlist_del (hlist_set_first l k' v) k = hlist_set_first (hlist_del l k) k' v"
    and i: "hlist_in (hlist_del l k) k' = hlist_in l k'" for l
    by (induction l) auto
  have "hlist_del (l @ [\<lparr>hkey = k', hvalue = v\<rparr>]) k = hlist_del l k @ [\<lparr>hkey = k', hvalue = v\<rparr>]" for l
    using assms by (induction l) auto
  with sf i show ?thesis by (simp add: hlist_mod_def hlist_add_def)
qed

lemma probe_headers_get:
  "hlist_get (probe_headers hs buf) k =
     (if strcaseeq ''Proxy-Authorization'' k then Some buf
      else if strcaseeq ''Content-Length'' k then Some ''0''
      else hlist_get (hlist_del hs ''Transfer-Encoding'') k)"
proof -
  have "strcaseeq ''Proxy-Authorization'' k \<Longrightarrow> \<not> strcaseeq ''Content-Length'' k"
    using strcaseeq_cong [of "''Proxy-Authorization''" k "''Content-Length''"] header_names(2) by blast
  then show ?thesis by (simp add: probe_headers_def hlist_del_mod hlist_get_mod)
qed

text \<open>The first request has no body.\<close>

lemma probe_no_body:
  assumes "rr_headers auth = probe_headers hs buf" "rr_method auth = Some m"
  shows "http_has_body (Some auth) None = Ret 0"
proof -
  have "atoll ''0'' = 0" using strtol_show_nat [of "[]" 0] by (simp add: atoll_def show_nat.simps)
  then have "body_length (rr_headers auth) b = 0" for b
    by (simp add: assms(1) body_length_def probe_headers_get)
  with assms(2) show ?thesis
    by (auto simp: http_has_body_def request_body_def has_method_def)
qed

section \<open>The handshake\<close>

text \<open>
  A challenge in a header value: the scheme, a blank and base 64, decoded into a buffer that is
  filled up with zeros.
\<close>

definition challenge_value :: "byte list \<Rightarrow> nat \<Rightarrow> string" where
  "challenge_value chal olen = ''NTLM '' @ to_base64 chal olen"

definition challenge_buffer :: "byte list \<Rightarrow> nat \<Rightarrow> byte list" where
  "challenge_buffer chal olen =
     chal @ replicate (length (challenge_value chal olen) + 6 - length chal) 0"

lemma challenge_of_value:
  assumes "chal \<noteq> []" "b64_room (length chal) \<le> olen"
  shows "challenge_of (challenge_value chal olen) = Ret (int (length chal), challenge_buffer chal olen)"
  using from_base64_to_base64 [OF assms]
  by (simp add: challenge_of_def challenge_value_def challenge_buffer_def)

lemma auth_challenge_eq:
  assumes "hlist_get hs ''Proxy-Authenticate'' = Some (challenge_value chal olen)"
    "24 < length chal" "b64_room (length chal) \<le> olen"
    "ntlm_response (rnd_endian rn) (rnd_nonce rn) (rnd_now rn) (challenge_buffer chal olen)
       (int (length chal)) creds = Some (Ret (Some m, n))" "0 < n" "n \<le> length m"
  shows "auth_challenge rn hs request creds = Some (Ret (False, request\<lparr>rr_headers :=
    hlist_mod (rr_headers request) ''Proxy-Authorization'' (''NTLM '' @ to_base64 (take n m) (BUFSIZE - 5)) True\<rparr>))"
proof -
  have "chal \<noteq> []" using assms(2) by auto
  with assms challenge_of_value [of chal olen] show ?thesis
    by (simp add: auth_challenge_def ntlm_line_def mem_get_def slice_def)
qed

text \<open>A 407 reply on the wire, its body and whatever follows.\<close>

definition reply_wf :: "rr_data_s \<Rightarrow> frame \<Rightarrow> bool" where
  "reply_wf d f \<longleftrightarrow> response_wf d \<and> frame_ok (rr_headers d) (no_body False (rr_code d)) f \<and> \<not> frame_last f"

definition reply_text :: "rr_data_s \<Rightarrow> frame \<Rightarrow> string" where
  "reply_text d f = the_ret (headers_text d) @ frame_text f"

text \<open>The fields of a response that headers_recv sets.\<close>

definition received :: "rr_data_s \<Rightarrow> rr_data_s" where
  "received d = new_rr_data\<lparr>rr_req := 0, rr_empty := 0, rr_http := rr_http d, rr_msg := rr_msg d,
     rr_code := rr_code d, rr_headers := rr_headers d\<rparr>"

lemma headers_recv_reply:
  assumes "response_wf d" "sock_wf s" "so_data s = the_ret (headers_text d) @ r"
  shows "\<exists>s'. headers_recv s new_rr_data = Some (Ret (True, received d, s')) \<and> so_data s' = r \<and> sock_wf s'
    \<and> so_err s' = so_err s"
proof -
  from assms(1) obtain t where "headers_text d = Ret t"
    by (auto simp: response_wf_def headers_text_def split: option.splits)
  with response_received [OF assms(1) _ assms(2), of t r new_rr_data] assms(3) show ?thesis
    by (auto simp: received_def new_rr_data_def so_after_def)
qed

lemma auth_answer_407:
  assumes "reply_wf d f" "rr_code d = 407" "sock_wf (p_in p)" "so_data (p_in p) = frame_text f @ rest"
    "hlist_get (rr_headers d) ''Proxy-Authenticate'' = Some (challenge_value chal olen)"
    "24 < length chal" "b64_room (length chal) \<le> olen"
    "ntlm_response (rnd_endian rn) (rnd_nonce rn) (rnd_now rn) (challenge_buffer chal olen)
       (int (length chal)) creds = Some (Ret (Some m, n))" "0 < n" "n \<le> length m"
  shows "\<exists>s. auth_answer rn probe seen (received d) p request creds =
      Some (Ret (None, p\<lparr>p_in := s\<rparr>, request\<lparr>rr_headers := hlist_mod (rr_headers request)
        ''Proxy-Authorization'' (''NTLM '' @ to_base64 (take n m) (BUFSIZE - 5)) True\<rparr>, received d))
    \<and> so_data s = rest \<and> sock_wf s \<and> so_err s = so_err (p_in p)"
proof -
  have e: "rr_empty (received d) = 0" "rr_headers (received d) = rr_headers d" "rr_code (received d) = 407"
    using assms(2) by (simp_all add: received_def)
  from assms(1) have f: "frame_ok (rr_headers d) (no_body False 407) f"
    "if frame_last f then rest = [] \<and> \<not> so_err (p_in p) else True"
    by (auto simp: reply_wf_def assms(2))
  from body_transfer_frame [OF f(1) assms(3) _ assms(4) f(2), of None] obtain s where
    "http_body_drop (p_in p) (Some (received d)) = Some (Ret (True, s, None))" "so_data s = rest" "sock_wf s"
    "so_err s = so_err (p_in p)"
    unfolding http_body_drop_response [OF e(1)] e by auto
  with e auth_challenge_eq [OF assms(5-10), of request] show ?thesis
    by (auto simp: auth_answer_def Let_def)
qed

text \<open>What the handshake needs of a reply and of the credentials.\<close>

definition challenge_ok ::
  "rnd \<Rightarrow> auth_s \<Rightarrow> rr_data_s \<Rightarrow> byte list \<Rightarrow> nat \<Rightarrow> byte list \<Rightarrow> nat \<Rightarrow> bool" where
  "challenge_ok rn creds d chal olen m n \<longleftrightarrow> rr_code d = 407
     \<and> hlist_get (rr_headers d) ''Proxy-Authenticate'' = Some (challenge_value chal olen)
     \<and> 24 < length chal \<and> b64_room (length chal) \<le> olen
     \<and> ntlm_response (rnd_endian rn) (rnd_nonce rn) (rnd_now rn) (challenge_buffer chal olen)
         (int (length chal)) creds = Some (Ret (Some m, n)) \<and> 0 < n \<and> n \<le> length m"

definition authorize :: "rr_data_s \<Rightarrow> byte list \<Rightarrow> rr_data_s" where
  "authorize request msg = request\<lparr>rr_headers := hlist_mod (rr_headers request) ''Proxy-Authorization''
     (''NTLM '' @ to_base64 msg (BUFSIZE - 5)) True\<rparr>"

lemma proxy_authenticate_407:
  assumes "auth_probe request response creds = Ret (auth, probe)" "headers_text auth = Ret t1"
    "- (2 ^ 31) \<le> rr_code auth" "rr_code auth < 2 ^ 31"
    "sk_plan (p_out p) = []" "sock_wf (p_in p)" "so_data (p_in p) = reply_text d f @ rest"
    "reply_wf d f" "challenge_ok rn creds d chal olen m n"
  shows "\<exists>s. proxy_authenticate getaddrinfo rn g sd p request response creds = Some (Ret
      \<lparr>ar_rc = True, ar_fd = sd, ar_peer = Some \<lparr>p_in = s, p_out = (p_out p)\<lparr>sk_out := sk_out (p_out p) @ t1\<rparr>\<rparr>,
       ar_request = authorize request (take n m), ar_response = map_option (\<lambda>_. received d) response,
       ar_creds = creds, ar_globals = g\<rparr>) \<and> so_data s = rest \<and> sock_wf s \<and> so_err s = so_err (p_in p)"
proof -
  let ?k = "(p_out p)\<lparr>sk_out := sk_out (p_out p) @ t1\<rparr>"
  have S: "headers_send (p_out p) auth = Ret (True, ?k)"
    by (rule headers_send_ideal [OF assms(2-5)])
  have reset: "the (reset_rr_data (Some x)) = new_rr_data" for x
    by (simp add: reset_rr_data_new)
  have rw: "response_wf d" using assms(8) by (simp add: reply_wf_def)
  have dat: "so_data (p_in p) = the_ret (headers_text d) @ frame_text f @ rest"
    using assms(7) by (simp add: reply_text_def)
  from headers_recv_reply [OF rw assms(6) dat] obtain s1 where
    R: "headers_recv (p_in p) new_rr_data = Some (Ret (True, received d, s1))"
    "so_data s1 = frame_text f @ rest" "sock_wf s1" "so_err s1 = so_err (p_in p)" by blast
  let ?p2 = "\<lparr>p_in = s1, p_out = ?k\<rparr>"
  note ch = assms(9) [unfolded challenge_ok_def]
  from auth_answer_407 [OF assms(8), of ?p2 rest chal olen rn creds m n probe "response \<noteq> None" request] R(2,3) ch
  obtain s where A: "auth_answer rn probe (response \<noteq> None) (received d) ?p2 request creds =
      Some (Ret (None, \<lparr>p_in = s, p_out = ?k\<rparr>, authorize request (take n m), received d))"
    "so_data s = rest" "sock_wf s" "so_err s = so_err s1"
    by (auto simp: authorize_def)
  obtain pi po where p: "p = \<lparr>p_in = pi, p_out = po\<rparr>" by (cases p)
  have "sink_closed ?k = False" using assms(5) by (simp add: sink_closed_def)
  then have "proxy_authenticate getaddrinfo rn g sd p request response creds = Some (Ret
      \<lparr>ar_rc = True, ar_fd = sd, ar_peer = Some \<lparr>p_in = s, p_out = ?k\<rparr>,
       ar_request = authorize request (take n m), ar_response = map_option (\<lambda>_. received d) response,
       ar_creds = creds, ar_globals = g\<rparr>)"
    using S R(1) A(1) by (simp add: proxy_authenticate_def Let_def assms(1) reset auth_finish_def p)
  with A(2-4) R(4) show ?thesis by simp
qed

lemma connect_request_simps [simp]:
  "rr_req (connect_request hl thost) = 1" "rr_method (connect_request hl thost) = Some ''CONNECT''"
  "rr_url (connect_request hl thost) = Some thost" "rr_http (connect_request hl thost) = Some ''HTTP/1.1''"
  "rr_code (connect_request hl thost) = 0" "rr_errmsg (connect_request hl thost) = None"
  "rr_body (connect_request hl thost) = None" "rr_body_len (connect_request hl thost) = 0"
  by (simp_all add: connect_request_def new_rr_data_def)

lemma connect_probe:
  assumes "request_line creds = Ret buf"
  shows "\<exists>probe. auth_probe (connect_request hl thost) (Some new_rr_data) creds = Ret ((connect_request hl thost)
    \<lparr>rr_headers := probe_headers (rr_headers (connect_request hl thost)) buf\<rparr>, probe)"
proof -
  let ?r = "connect_request hl thost"
  have m: "has_method ''HEAD'' (Some ?r) = Ret False" "has_method ''GET'' (Some ?r) = Ret False"
    by (simp_all add: has_method_def strcaseeq_def)
  then obtain n where n: "http_has_body (Some ?r) (Some new_rr_data) = Ret n"
    by (simp add: http_has_body_def request_body_def new_rr_data_def Let_def)
  have "dup_view ?r = ?r" "?r\<lparr>rr_method := Some ''CONNECT''\<rparr> = ?r"
    by (cases ?r, simp add: dup_view_def connect_request_def new_rr_data_def)+
  moreover have "body_wf ?r" by (simp add: body_wf_def)
  ultimately show ?thesis
    using auth_probe_eq [of ?r creds buf False "n \<noteq> 0" "Some new_rr_data" n] assms m n by auto
qed

lemma connect_text:
  assumes "rr_req r = 1" "rr_method r = Some m" "rr_url r = Some u" "rr_http r = Some h"
  shows "headers_text r = Ret (the_ret (headers_text r))"
  using assms by (simp add: headers_text_def Let_def)

text \<open>The two requests for a tunnel: the negotiation and the authentication.\<close>

definition connect_first :: "hlist_t \<Rightarrow> string \<Rightarrow> string \<Rightarrow> rr_data_s" where
  "connect_first hl thost buf = (connect_request hl thost)\<lparr>rr_headers :=
     probe_headers (rr_headers (connect_request hl thost)) buf\<rparr>"

definition connect_second :: "hlist_t \<Rightarrow> string \<Rightarrow> byte list \<Rightarrow> rr_data_s" where
  "connect_second hl thost msg = authorize (connect_request hl thost) msg"

section \<open>A concrete exchange\<close>

text \<open>A challenge with one attribute pair, the 407 that carries it, and a 200.\<close>

definition sample_chal :: "byte list" where
  "sample_chal = replicate 44 0 @ [48, 0, 0, 0] @ av_encode [(2, [65, 0])] @ [7]"

definition sample_407 :: rr_data_s where
  "sample_407 = new_rr_data\<lparr>rr_http := Some ''HTTP/1.1'', rr_code := 407, rr_msg := Some ''no'',
     rr_headers := [\<lparr>hkey = ''Proxy-Authenticate'', hvalue = challenge_value sample_chal 200\<rparr>,
                    \<lparr>hkey = ''Content-Length'', hvalue = ''2''\<rparr>]\<rparr>"

definition sample_200 :: rr_data_s where
  "sample_200 = new_rr_data\<lparr>rr_http := Some ''HTTP/1.1'', rr_code := 200, rr_msg := Some []\<rparr>"

definition sample_rnd :: rnd where
  "sample_rnd = \<lparr>rnd_endian = 1, rnd_nonce = 7, rnd_now = 0\<rparr>"

lemma length_sample_chal: "length sample_chal = 59"
  by (simp add: sample_chal_def av_encode_def av_pairs_def av_pair_def)

lemma sample_response:
  "\<exists>m n. ntlm_response 1 7 0 (challenge_buffer sample_chal olen) 59 new_auth = Some (Ret (Some m, n))
     \<and> 0 < n \<and> n \<le> length m"
proof -
  let ?pre = "replicate 44 0 @ [48, 0, 0, 0 :: byte]"
  define post where "post = 7 # replicate (length (challenge_value sample_chal olen) + 6 - length sample_chal) (0 :: byte)"
  let ?c = "challenge_buffer sample_chal olen"
  have c: "?c = ?pre @ av_encode [(2, [65, 0])] @ post"
    by (simp add: challenge_buffer_def sample_chal_def post_def del: replicate.simps)
  have l: "length (av_encode [(2 :: u16, [65, 0 :: byte])]) = 10"
    by (simp add: av_encode_def av_pairs_def av_pair_def)
  have s: "slice (?pre @ av_encode [(2, [65, 0])] @ post) 44 2 = le16 48" by (simp add: slice_def le16_def)
  have "av_scan ?c (int 59) = Some (Ret (of_nat (length ?pre), of_nat (length (av_encode [(2 :: u16, [65, 0 :: byte])]))))"
    unfolding c by (rule av_scan_pairs [OF _ _ refl]) (use s in \<open>simp_all add: l\<close>)
  then have "av_scan ?c 59 = Some (Ret (48, 10))" using l by simp
  from ntlm_response_v2 [of new_auth, OF _ _ _ _ this, of 1 7 0] show ?thesis
    using l by (auto simp: new_auth_def [unfolded zero_bytes_def] auth_wf_def cstr_of_def zero_str_def str_wf_def c)
qed

lemma base64_no_LF: "LF \<notin> set (to_base64 bs olen)" "bs \<noteq> [] \<Longrightarrow> 4 < olen \<Longrightarrow> \<not> c_isspace (last (to_base64 bs olen))"
proof -
  have plain: "c \<in> set base64 \<Longrightarrow> \<not> c_isspace c" for c
  proof -
    have "list_all (\<lambda>c. \<not> c_isspace c) base64" by code_simp
    then show "c \<in> set base64 \<Longrightarrow> \<not> c_isspace c" by (simp add: list_all_iff)
  qed
  have dig: "take_bit 6 v = (v :: byte) \<Longrightarrow> base64 ! unat v \<in> set base64" for v
  proof (rule nth_mem)
    assume "take_bit 6 v = v"
    then have "unat v = take_bit 6 (unat v)" by (metis unsigned_take_bit_eq)
    then have "unat v < 64" by (simp add: take_bit_eq_mod)
    then show "unat v < length base64" by (simp add: base64_def)
  qed
  have all: "\<forall>c \<in> set (to_base64 bs olen). \<not> c_isspace c" for bs olen
  proof (induction bs olen rule: to_base64.induct)
    case (1 a b c r olen)
    have "\<forall>x \<in> set (to_base64_rest (a # b # c # r) olen). \<not> c_isspace x"
      using plain dig sextets by (auto simp: c_isspace_def)
    with 1 show ?case using plain dig sextets by (auto simp: c_isspace_def)
  qed (use plain dig sextets in \<open>auto simp: c_isspace_def\<close>)
  show "LF \<notin> set (to_base64 bs olen)" using all by (auto simp: c_isspace_def)
  show "bs \<noteq> [] \<Longrightarrow> 4 < olen \<Longrightarrow> \<not> c_isspace (last (to_base64 bs olen))"
    using all to_base64_nonempty last_in_set by blast
qed

lemma sample_407_wf:
  "reply_wf sample_407 (By_length ''no'')" "challenge_ok sample_rnd new_auth sample_407 sample_chal 200 m n \<longleftrightarrow>
     ntlm_response 1 7 0 (challenge_buffer sample_chal 200) 59 new_auth = Some (Ret (Some m, n)) \<and> 0 < n \<and> n \<le> length m"
proof -
  have room: "b64_room 59 \<le> 200" by (simp add: b64_room_def)
  have ne: "sample_chal \<noteq> []" using length_sample_chal by auto
  have len: "length (to_base64 sample_chal 200) < 200" using to_base64_bound [of 200 sample_chal] by simp
  have noteq: "\<not> strcaseeq ''Proxy-Authenticate'' ''Content-Length''" "\<not> strcaseeq ''Content-Length'' ''Transfer-Encoding''"
    "\<not> strcaseeq ''Proxy-Authenticate'' ''Transfer-Encoding''" by code_simp+
  have "header_wf \<lparr>hkey = ''Proxy-Authenticate'', hvalue = challenge_value sample_chal 200\<rparr>"
    using base64_no_LF [of sample_chal 200] ne to_base64_noNUL [of sample_chal 200] len
      to_base64_nonempty [OF ne, of 200]
    by (simp add: header_wf_def challenge_value_def)
  then have "response_wf sample_407"
    by (simp add: response_wf_def sample_407_def new_rr_data_def word_wf_def strncaseeq_def c_isspace_def header_wf_def)
  moreover have "frame_ok (rr_headers sample_407) (no_body False (rr_code sample_407)) (By_length ''no'')"
    using noteq by (simp add: sample_407_def no_body_def chunked_def hlist_subcmp_def show_nat.simps)
  ultimately show "reply_wf sample_407 (By_length ''no'')" by (simp add: reply_wf_def)
  show "challenge_ok sample_rnd new_auth sample_407 sample_chal 200 m n \<longleftrightarrow>
     ntlm_response 1 7 0 (challenge_buffer sample_chal 200) 59 new_auth = Some (Ret (Some m, n)) \<and> 0 < n \<and> n \<le> length m"
    using room by (simp add: challenge_ok_def length_sample_chal sample_rnd_def sample_407_def)
qed

lemma sample_200_wf: "response_wf sample_200" "rr_code sample_200 = 200"
  by (simp_all add: response_wf_def sample_200_def new_rr_data_def word_wf_def strncaseeq_def c_isspace_def)

text \<open>A peer that sends some text.\<close>

definition sample_peer :: "string \<Rightarrow> peer" where
  "sample_peer s = \<lparr>p_in = \<lparr>so_segs = (if s = [] then [] else [s]), so_err = False\<rparr>,
     p_out = \<lparr>sk_out = [], sk_plan = []\<rparr>\<rparr>"

lemma sample_peer_simps [simp]:
  "sk_plan (p_out (sample_peer s)) = []" "sock_wf (p_in (sample_peer s))" "so_data (p_in (sample_peer s)) = s"
  "sk_out (p_out (sample_peer s)) = []" "(p_out (sample_peer s))\<lparr>sk_out := t\<rparr> = \<lparr>sk_out = t, sk_plan = []\<rparr>"
  by (simp_all add: sample_peer_def sock_wf_def so_data_def)

lemma new_auth_request: "\<exists>buf. request_line new_auth = Ret buf"
proof -
  have f: "ntlm_request_flags new_auth = Some 0xa208b205" by (simp add: ntlm_request_flags_def new_auth_def)
  from ntlm_request_message [OF new_auth_wf f] obtain buf where
    "ntlm_request new_auth = Ret (Some buf, 32 + length (cstr_of (auth_domain new_auth)) + length (cstr_of (auth_workstation new_auth)))"
    "length buf = 1024" by blast
  then show ?thesis
    by (simp add: request_line_def ntlm_line_def mem_get_def new_auth_def zero_str_def cstr_of_def)
qed

text \<open>The tunnel, with the two replies on the stream.\<close>

lemma prepare_http_connect_407:
  assumes "request_line creds = Ret buf" "sd \<noteq> 0" "thost \<noteq> []"
    "sk_plan (p_out p) = []" "sock_wf (p_in p)"
    "so_data (p_in p) = reply_text d f @ the_ret (headers_text d2) @ rest"
    "reply_wf d f" "challenge_ok rn creds d chal olen m n" "response_wf d2" "rr_code d2 = 200"
  shows "\<exists>r q. prepare_http_connect getaddrinfo rn g sd p creds (Some thost) = Some (Ret (True, Some r))
    \<and> ar_fd r = sd \<and> ar_globals r = g \<and> ar_peer r = Some q \<and> so_data (p_in q) = rest \<and> sock_wf (p_in q) \<and> sk_plan (p_out q) = []
    \<and> sk_out (p_out q) = sk_out (p_out p)
        @ the_ret (headers_text (connect_first (g_header_list g) thost buf))
        @ the_ret (headers_text (connect_second (g_header_list g) thost (take n m)))"
proof -
  let ?hl = "g_header_list g"
  define t1 where "t1 = the_ret (headers_text (connect_first ?hl thost buf))"
  define t2 where "t2 = the_ret (headers_text (connect_second ?hl thost (take n m)))"
  have T: "headers_text (connect_first ?hl thost buf) = Ret t1"
    "headers_text (connect_second ?hl thost (take n m)) = Ret t2"
    unfolding t1_def t2_def by (rule connect_text; simp add: connect_first_def connect_second_def authorize_def)+
  from connect_probe [OF assms(1), of ?hl thost] obtain probe where
    P: "auth_probe (connect_request ?hl thost) (Some new_rr_data) creds = Ret (connect_first ?hl thost buf, probe)"
    by (auto simp: connect_first_def)
  let ?k1 = "(p_out p)\<lparr>sk_out := sk_out (p_out p) @ t1\<rparr>"
  from proxy_authenticate_407 [OF P T(1) _ _ assms(4-8), of getaddrinfo g sd] obtain s where
    A: "proxy_authenticate getaddrinfo rn g sd p (connect_request ?hl thost) (Some new_rr_data) creds = Some (Ret
      \<lparr>ar_rc = True, ar_fd = sd, ar_peer = Some \<lparr>p_in = s, p_out = ?k1\<rparr>,
       ar_request = connect_second ?hl thost (take n m), ar_response = Some (received d),
       ar_creds = creds, ar_globals = g\<rparr>)"
    "so_data s = the_ret (headers_text d2) @ rest" "sock_wf s"
    by (auto simp: connect_first_def connect_second_def)
  have S: "headers_send ?k1 (connect_second ?hl thost (take n m)) = Ret (True, ?k1\<lparr>sk_out := sk_out ?k1 @ t2\<rparr>)"
    by (rule headers_send_ideal [OF T(2)]) (simp_all add: connect_second_def authorize_def assms(4))
  from headers_recv_reply [OF assms(9) A(3,2)] obtain s2 where
    R: "headers_recv s new_rr_data = Some (Ret (True, received d2, s2))" "so_data s2 = rest" "sock_wf s2" by blast
  have code: "rr_code (received d) = 407" "rr_code (received d2) = 200"
    using assms(8,10) by (simp_all add: received_def challenge_ok_def)
  obtain c h where th: "thost = c # h" using assms(3) by (cases thost) auto
  show ?thesis
    using A(1) S R code assms(2,4)
    by (simp add: th prepare_http_connect_def connect_final_def Let_def reset_rr_data_new t1_def t2_def)
qed

section \<open>Properties\<close>

text \<open>
  The first request of the handshake.  It is the client's request with the negotiation message
  as Proxy-Authorization, Content-Length 0 and without (the first) Transfer-Encoding, every other
  header unchanged, GET for HEAD, and without a body; the base 64 text decodes to the complete
  message of type 1 for the credentials' flags.
\<close>

theorem auth_probe_negotiates:
  assumes "auth_wf creds" "ntlm_request_flags creds = Some flags" "body_wf request"
    "has_method ''HEAD'' (Some request) = Ret head"
    "if head then b = True else http_has_body (Some request) response = Ret n \<and> b = (n \<noteq> 0)"
    "rr_method request = Some meth"
  shows "\<exists>auth b64 msg. auth_probe request response creds = Ret (auth, b)
    \<and> rr_method auth = (if head then Some ''GET'' else Some meth) \<and> rr_url auth = rr_url request
    \<and> hlist_get (rr_headers auth) k =
       (if strcaseeq ''Proxy-Authorization'' k then Some (''NTLM '' @ b64)
        else if strcaseeq ''Content-Length'' k then Some ''0''
        else hlist_get (hlist_del (rr_headers request) ''Transfer-Encoding'') k)
    \<and> http_has_body (Some auth) None = Ret 0
    \<and> from_base64 b64 = (int (length msg), msg)
    \<and> slice msg 0 8 = ntlmssp \<and> get_le32 msg 8 = 1 \<and> get_le32 msg 12 = flags"
proof -
  define len where "len = 32 + length (cstr_of (auth_domain creds)) + length (cstr_of (auth_workstation creds))"
  from ntlm_request_message [OF assms(1,2)] obtain buf where buf: "ntlm_request creds = Ret (Some buf, len)"
    "length buf = 1024" "slice buf 0 8 = ntlmssp" "get_le32 buf 8 = 1" "get_le32 buf 12 = flags"
    unfolding len_def by blast
  define msg where "msg = take len buf"
  have len: "32 \<le> len" "len \<le> 130" using auth_wf_lengths [OF assms(1)] by (auto simp: len_def)
  then have lm: "length msg = len" "msg \<noteq> []" using buf(2) by (auto simp: msg_def)
  have m: "slice msg 0 8 = ntlmssp" "get_le32 msg 8 = 1" "get_le32 msg 12 = flags"
    using buf(3-5) len by (simp_all add: msg_def slice_def get_le32_def min_def)
  have line: "request_line creds = Ret (''NTLM '' @ to_base64 msg (BUFSIZE - 5))"
    using buf(1,2) len by (simp add: request_line_def ntlm_line_def mem_get_def slice_def msg_def)
  have "b64_room (length msg) \<le> BUFSIZE - 5" using len lm(1) by (simp add: b64_room_def)
  from from_base64_to_base64 [OF lm(2) this] have dec:
    "from_base64 (to_base64 msg (BUFSIZE - 5)) = (int (length msg), msg)" .
  let ?auth = "(dup_view request)\<lparr>rr_method := if head then Some ''GET'' else rr_method request,
      rr_headers := probe_headers (rr_headers request) (''NTLM '' @ to_base64 msg (BUFSIZE - 5))\<rparr>"
  have A: "auth_probe request response creds = Ret (?auth, b)"
    by (rule auth_probe_eq [OF assms(3) line assms(4,5)])
  have "http_has_body (Some ?auth) None = Ret 0"
    by (rule probe_no_body [of _ _ _ "if head then ''GET'' else meth"]) (simp_all add: assms(6))
  with A dec m show ?thesis
    by (intro exI [of _ ?auth] exI [of _ "to_base64 msg (BUFSIZE - 5)"] exI [of _ msg])
      (simp add: probe_headers_get dup_view_def assms(6) del: append.simps)
qed

theorem auth_probe_negotiates_witness:
  "\<exists>auth b64. auth_probe (new_rr_data\<lparr>rr_req := 1, rr_method := Some ''HEAD'', rr_url := Some ''u''\<rparr>) None new_auth
      = Ret (auth, True) \<and> rr_method auth = Some ''GET'' \<and> rr_url auth = Some ''u''
    \<and> hlist_get (rr_headers auth) ''Proxy-Authorization'' = Some (''NTLM '' @ b64)"
proof -
  let ?r = "new_rr_data\<lparr>rr_req := 1, rr_method := Some ''HEAD'', rr_url := Some ''u''\<rparr>"
  have f: "ntlm_request_flags new_auth = Some 0xa208b205" by (simp add: ntlm_request_flags_def new_auth_def)
  have w: "body_wf ?r" by (simp add: body_wf_def new_rr_data_def)
  have h: "has_method ''HEAD'' (Some ?r) = Ret True" by (simp add: has_method_def)
  from auth_probe_negotiates [OF new_auth_wf f w h, of True None 0 "''HEAD''" "''Proxy-Authorization''"]
  show ?thesis by auto
qed

text \<open>
  C11: the NTLM handshake with the parent proxy.  When the proxy answers the first request with a 407
  whose Proxy-Authenticate header carries a challenge of more than 24 bytes, then, however its
  reply is cut into segments and however its body is framed, proxy_authenticate writes nothing but
  the first request, drops the body of the reply, leaves the connection where the next reply
  starts, and puts the message ntlm_response computes from the decoded challenge, and nothing
  else, into the client's request.
\<close>

theorem proxy_authenticate_handshake:
  assumes "auth_probe request response creds = Ret (auth, probe)" "headers_text auth = Ret t1"
    "- (2 ^ 31) \<le> rr_code auth" "rr_code auth < 2 ^ 31"
    "sk_plan (p_out p) = []" "sock_wf (p_in p)" "so_data (p_in p) = reply_text d f @ rest"
    "reply_wf d f" "challenge_ok rn creds d chal olen m n"
  shows "\<exists>s. proxy_authenticate getaddrinfo rn g sd p request response creds = Some (Ret
      \<lparr>ar_rc = True, ar_fd = sd, ar_peer = Some \<lparr>p_in = s, p_out = (p_out p)\<lparr>sk_out := sk_out (p_out p) @ t1\<rparr>\<rparr>,
       ar_request = authorize request (take n m), ar_response = map_option (\<lambda>_. received d) response,
       ar_creds = creds, ar_globals = g\<rparr>) \<and> so_data s = rest \<and> sock_wf s"
  using proxy_authenticate_407 [OF assms] by blast

theorem proxy_authenticate_handshake_witness:
  "\<exists>t1 s r n. proxy_authenticate (\<lambda>_. None) sample_rnd no_globals 5
      (sample_peer (reply_text sample_407 (By_length ''no'') @ ''rest''))
      (connect_request [] ''h:1'') (Some new_rr_data) new_auth = Some (Ret r)
    \<and> ar_rc r \<and> ar_peer r = Some \<lparr>p_in = s, p_out = \<lparr>sk_out = t1, sk_plan = []\<rparr>\<rparr> \<and> so_data s = ''rest''
    \<and> ar_request r = authorize (connect_request [] ''h:1'') n"
proof -
  from new_auth_request obtain buf where b: "request_line new_auth = Ret buf" by blast
  let ?t1 = "the_ret (headers_text (connect_first [] ''h:1'' buf))"
  from connect_probe [OF b, of "[]" "''h:1''"] obtain probe where
    P: "auth_probe (connect_request [] ''h:1'') (Some new_rr_data) new_auth =
      Ret (connect_first [] ''h:1'' buf, probe)" by (auto simp: connect_first_def)
  have T: "headers_text (connect_first [] ''h:1'' buf) = Ret ?t1"
    by (rule connect_text; simp add: connect_first_def)
  have c: "- (2 ^ 31) \<le> rr_code (connect_first [] ''h:1'' buf)" "rr_code (connect_first [] ''h:1'' buf) < 2 ^ 31"
    by (simp_all add: connect_first_def)
  from sample_response obtain m n where "challenge_ok sample_rnd new_auth sample_407 sample_chal 200 m n"
    using sample_407_wf(2) by blast
  from proxy_authenticate_handshake [OF P T c _ _ _ sample_407_wf(1) this,
      of "sample_peer (reply_text sample_407 (By_length ''no'') @ ''rest'')" "''rest''" "\<lambda>_. None" no_globals 5]
  obtain s where R: "proxy_authenticate (\<lambda>_. None) sample_rnd no_globals 5
      (sample_peer (reply_text sample_407 (By_length ''no'') @ ''rest''))
      (connect_request [] ''h:1'') (Some new_rr_data) new_auth = Some (Ret
      \<lparr>ar_rc = True, ar_fd = 5, ar_peer = Some \<lparr>p_in = s, p_out = \<lparr>sk_out = ?t1, sk_plan = []\<rparr>\<rparr>,
       ar_request = authorize (connect_request [] ''h:1'') (take n m), ar_response = Some (received sample_407),
       ar_creds = new_auth, ar_globals = no_globals\<rparr>)" "so_data s = ''rest''"
    by auto
  show ?thesis by (intro exI [of _ ?t1] exI [of _ s] exI conjI, rule R(1)) (simp_all add: R(2))
qed

text \<open>
  A tunnel through the parent proxy.  When the proxy answers the first CONNECT with such a 407 and
  the second with a 200, prepare_http_connect returns 1 after having written exactly the two
  requests (first the negotiation, then the same request with the authentication message) and
  having read exactly the two replies: what the stream has next is the tunnel's data.
\<close>

theorem prepare_http_connect_tunnel:
  assumes "request_line creds = Ret buf" "sd \<noteq> 0" "thost \<noteq> []"
    "sk_plan (p_out p) = []" "sock_wf (p_in p)"
    "so_data (p_in p) = reply_text d f @ the_ret (headers_text d2) @ rest"
    "reply_wf d f" "challenge_ok rn creds d chal olen m n" "response_wf d2" "rr_code d2 = 200"
  shows "\<exists>r q. prepare_http_connect getaddrinfo rn g sd p creds (Some thost) = Some (Ret (True, Some r))
    \<and> ar_fd r = sd \<and> ar_globals r = g \<and> ar_peer r = Some q \<and> so_data (p_in q) = rest \<and> sock_wf (p_in q)
    \<and> sk_out (p_out q) = sk_out (p_out p)
        @ the_ret (headers_text (connect_first (g_header_list g) thost buf))
        @ the_ret (headers_text (connect_second (g_header_list g) thost (take n m)))"
  using prepare_http_connect_407 [OF assms, of getaddrinfo g] by blast

theorem prepare_http_connect_tunnel_witness:
  "\<exists>r q. prepare_http_connect (\<lambda>_. None) sample_rnd no_globals 5
      (sample_peer (reply_text sample_407 (By_length ''no'') @ the_ret (headers_text sample_200) @ ''data''))
      new_auth (Some ''h:1'') = Some (Ret (True, Some r))
    \<and> ar_peer r = Some q \<and> so_data (p_in q) = ''data''"
proof -
  from new_auth_request obtain buf where b: "request_line new_auth = Ret buf" by blast
  from sample_response obtain m n where "challenge_ok sample_rnd new_auth sample_407 sample_chal 200 m n"
    using sample_407_wf(2) by blast
  from prepare_http_connect_tunnel [OF b _ _ _ _ _ sample_407_wf(1) this sample_200_wf, of 5 "''h:1''"
      "sample_peer (reply_text sample_407 (By_length ''no'') @ the_ret (headers_text sample_200) @ ''data'')" "''data''"
      "\<lambda>_. None" no_globals]
  show ?thesis by auto
qed

text \<open>
  A bare challenge is read out of bounds.  When the 407 has the header Proxy-Authenticate: NTLM
  without a challenge (the usual first offer of a proxy), the search for the base 64 text starts
  five characters into a value of four characters and their terminator.
\<close>

theorem proxy_authenticate_bare_offer:
  assumes "auth_probe request response creds = Ret (auth, probe)" "headers_text auth = Ret t1"
    "- (2 ^ 31) \<le> rr_code auth" "rr_code auth < 2 ^ 31"
    "sk_plan (p_out p) = []" "sock_wf (p_in p)" "so_data (p_in p) = reply_text d f @ rest"
    "reply_wf d f" "rr_code d = 407" "hlist_get (rr_headers d) ''Proxy-Authenticate'' = Some ''NTLM''"
  shows "proxy_authenticate getaddrinfo rn g sd p request response creds = Some UB"
proof -
  let ?k = "(p_out p)\<lparr>sk_out := sk_out (p_out p) @ t1\<rparr>"
  have S: "headers_send (p_out p) auth = Ret (True, ?k)" by (rule headers_send_ideal [OF assms(2-5)])
  have rw: "response_wf d" and dat: "so_data (p_in p) = the_ret (headers_text d) @ frame_text f @ rest"
    using assms(7,8) by (simp_all add: reply_wf_def reply_text_def)
  from headers_recv_reply [OF rw assms(6) dat] obtain s1 where
    R: "headers_recv (p_in p) new_rr_data = Some (Ret (True, received d, s1))"
    "so_data s1 = frame_text f @ rest" "sock_wf s1" by blast
  have e: "rr_empty (received d) = 0" "rr_headers (received d) = rr_headers d" "rr_code (received d) = 407"
    using assms(9) by (simp_all add: received_def)
  have f: "frame_ok (rr_headers d) (no_body False 407) f" "if frame_last f then rest = [] \<and> \<not> so_err s1 else True"
    using assms(8) by (auto simp: reply_wf_def assms(9))
  from body_transfer_frame [OF f(1) R(3) _ R(2) f(2), of None] obtain s where
    "http_body_drop s1 (Some (received d)) = Some (Ret (True, s, None))"
    unfolding http_body_drop_response [OF e(1)] e by auto
  with e assms(10) have "auth_answer rn probe (response \<noteq> None) (received d) \<lparr>p_in = s1, p_out = ?k\<rparr> request creds = Some UB"
    by (simp add: auth_answer_def Let_def auth_challenge_def challenge_of_def)
  with S R(1) show ?thesis
    by (cases p) (simp add: proxy_authenticate_def Let_def assms(1) reset_rr_data_new)
qed

theorem proxy_authenticate_bare_offer_witness:
  "\<exists>d. rr_headers d = [\<lparr>hkey = ''Proxy-Authenticate'', hvalue = ''NTLM''\<rparr>]
    \<and> proxy_authenticate (\<lambda>_. None) sample_rnd no_globals 5 (sample_peer (reply_text d No_body))
        (connect_request [] ''h:1'') (Some new_rr_data) new_auth = Some UB"
proof -
  let ?d = "sample_407\<lparr>rr_headers := [\<lparr>hkey = ''Proxy-Authenticate'', hvalue = ''NTLM''\<rparr>]\<rparr>"
  from new_auth_request obtain buf where b: "request_line new_auth = Ret buf" by blast
  from connect_probe [OF b, of "[]" "''h:1''"] obtain probe where
    P: "auth_probe (connect_request [] ''h:1'') (Some new_rr_data) new_auth =
      Ret (connect_first [] ''h:1'' buf, probe)" by (auto simp: connect_first_def)
  have T: "headers_text (connect_first [] ''h:1'' buf) = Ret (the_ret (headers_text (connect_first [] ''h:1'' buf)))"
    by (rule connect_text; simp add: connect_first_def)
  have c: "- (2 ^ 31) \<le> rr_code (connect_first [] ''h:1'' buf)" "rr_code (connect_first [] ''h:1'' buf) < 2 ^ 31"
    by (simp_all add: connect_first_def)
  have noteq: "\<not> strcaseeq ''Proxy-Authenticate'' ''Content-Length''" "\<not> strcaseeq ''Proxy-Authenticate'' ''Content-Type''"
    "\<not> strcaseeq ''Proxy-Authenticate'' ''Transfer-Encoding''" "\<not> strcaseeq ''Proxy-Authenticate'' ''Connection''"
    by code_simp+
  have "response_wf ?d"
    by (simp add: response_wf_def sample_407_def new_rr_data_def word_wf_def strncaseeq_def c_isspace_def header_wf_def)
  then have w: "reply_wf ?d No_body"
    using noteq by (simp add: reply_wf_def sample_407_def delimited_def hlist_subcmp_def)
  have "rr_code ?d = 407" by (simp add: sample_407_def)
  from proxy_authenticate_bare_offer [OF P T c _ _ _ w this, of "sample_peer (reply_text ?d No_body)" "[]"
      "\<lambda>_. None" sample_rnd no_globals 5]
  show ?thesis by (intro exI [of _ ?d]) simp
qed

end
