(* ===== verification/Options.thy ===== *)
theory Options
  imports Parents Rules
begin

text \<open>
  The options of main.c that fill the tables of the running program: listen_add, tunnel_add,
  noproxy_add, and noproxy_match, which consults the last one through fnmatch.  Listening is a
  parameter: the descriptor \<open>so_listen\<close> returns for a port and an address, -1 when it cannot.
\<close>

section \<open>fnmatch\<close>

text \<open>
  Patterns of fnmatch without flags, in the C locale: \<open>*\<close>, \<open>?\<close>, bracket expressions with ranges
  and character classes, and the backslash; a bracket that is not closed stands for itself, and a
  pattern that ends in a backslash matches nothing.  Collating symbols are not modelled.
\<close>

datatype glob = AnyChar | Star | Lit char | Bracket bool "(char \<times> char) list"

definition class_ranges :: "string \<Rightarrow> (char \<times> char) list option" where
  "class_ranges nm =
     map_of [(''alpha'', [(CHR ''A'', CHR ''Z''), (CHR ''a'', CHR ''z'')]), (''digit'', [(CHR ''0'', CHR ''9'')]),
       (''alnum'', [(CHR ''0'', CHR ''9''), (CHR ''A'', CHR ''Z''), (CHR ''a'', CHR ''z'')]),
       (''upper'', [(CHR ''A'', CHR ''Z'')]), (''lower'', [(CHR ''a'', CHR ''z'')]),
       (''space'', [(CHR 0x09, CHR 0x0D), (CHR '' '', CHR '' '')]), (''blank'', [(CHR 0x09, CHR 0x09), (CHR '' '', CHR '' '')]),
       (''xdigit'', [(CHR ''0'', CHR ''9''), (CHR ''A'', CHR ''F''), (CHR ''a'', CHR ''f'')]),
       (''cntrl'', [(CHR 0x00, CHR 0x1F), (CHR 0x7F, CHR 0x7F)]), (''print'', [(CHR '' '', CHR ''~'')]),
       (''graph'', [(CHR ''!'', CHR ''~'')]),
       (''punct'', [(CHR ''!'', CHR ''/''), (CHR '':'', CHR ''@''), (CHR ''['', CHR 0x60), (CHR ''{'', CHR ''~'')])] nm"

text \<open>One character of a bracket expression, which a backslash may quote.\<close>

fun bracket_char :: "string \<Rightarrow> (char \<times> string) option" where
  "bracket_char [] = None"
| "bracket_char (c # p) = (if c = CHR 0x5C then (case p of [] \<Rightarrow> None | d # q \<Rightarrow> Some (d, q)) else Some (c, p))"

text \<open>The class after \<open>[:\<close>: its name and the rest after \<open>:]\<close>.\<close>

definition bracket_class :: "string \<Rightarrow> ((char \<times> char) list \<times> string) option" where
  "bracket_class p =
     (case strstr p '':]'' of
        None \<Rightarrow> None
      | Some r \<Rightarrow> map_option (\<lambda>rs. (rs, drop 2 r)) (class_ranges (take (length p - length r) p)))"

text \<open>One member: a class, a range or a character.\<close>

definition bracket_member :: "string \<Rightarrow> ((char \<times> char) list \<times> string) option" where
  "bracket_member p =
     (case (if take 2 p = ''[:'' then bracket_class (drop 2 p) else None) of
        Some m \<Rightarrow> Some m
      | None \<Rightarrow>
          (case bracket_char p of
             None \<Rightarrow> None
           | Some (lo, r) \<Rightarrow>
               (case (if take 1 r = ''-'' \<and> take 1 (drop 1 r) \<noteq> '']'' then bracket_char (drop 1 r) else None) of
                  Some (hi, t) \<Rightarrow> Some ([(lo, hi)], t)
                | None \<Rightarrow> Some ([(lo, lo)], r))))"

lemma bracket_char_shorter: "bracket_char p = Some (c, r) \<Longrightarrow> length r < length p"
  by (cases p) (auto split: if_splits list.splits)

lemma bracket_class_shorter:
  assumes "bracket_class p = Some (rs, r)"
  shows "length r \<le> length p"
proof -
  from assms obtain t where t: "strstr p '':]'' = Some t" "r = drop 2 t"
    by (auto simp: bracket_class_def split: option.splits)
  from strstr_SomeD [OF t(1)] t(2) show ?thesis by auto
qed

lemma bracket_member_shorter: "bracket_member p = Some (rs, r) \<Longrightarrow> length r < length p"
  unfolding bracket_member_def
  by (cases p) (auto dest!: bracket_char_shorter bracket_class_shorter split: if_splits option.splits
      simp del: bracket_char.simps)

text \<open>The members up to the closing bracket, which counts as a member in the first place.\<close>

function bracket_members :: "bool \<Rightarrow> string \<Rightarrow> ((char \<times> char) list \<times> string) option" where
  "bracket_members first p =
     (if p = [] then None
      else if hd p = CHR '']'' \<and> \<not> first then Some ([], tl p)
      else (case bracket_member p of
              None \<Rightarrow> None
            | Some (rs, r) \<Rightarrow> map_option (\<lambda>(ms, t). (rs @ ms, t)) (bracket_members False r)))"
  by pat_completeness auto

termination bracket_members
  by (relation "measure (\<lambda>(_, p). length p)") (auto dest: bracket_member_shorter)

declare bracket_members.simps [simp del]

lemma bracket_members_shorter: "bracket_members first p = Some (ms, r) \<Longrightarrow> length r < length p"
proof (induction first p arbitrary: ms r rule: bracket_members.induct)
  case (1 first p)
  then show ?case
    by (subst (asm) (2) bracket_members.simps)
      (fastforce dest: bracket_member_shorter split: if_splits option.splits)
qed

text \<open>The tokens of a pattern.\<close>

function glob_tokens :: "string \<Rightarrow> glob list option" where
  "glob_tokens [] = Some []"
| "glob_tokens (c # p) =
     (if c = CHR ''*'' then map_option ((#) Star) (glob_tokens p)
      else if c = CHR ''?'' then map_option ((#) AnyChar) (glob_tokens p)
      else if c = CHR 0x5C then (case p of [] \<Rightarrow> None | d # q \<Rightarrow> map_option ((#) (Lit d)) (glob_tokens q))
      else if c = CHR ''['' then
        (let neg = (take 1 p = ''!'' \<or> take 1 p = ''^'')
         in case bracket_members True (if neg then drop 1 p else p) of
              Some (rs, q) \<Rightarrow> map_option ((#) (Bracket neg rs)) (glob_tokens q)
            | None \<Rightarrow> map_option ((#) (Lit c)) (glob_tokens p))
      else map_option ((#) (Lit c)) (glob_tokens p))"
  by pat_completeness auto

termination glob_tokens
  by (relation "measure length") (auto dest!: bracket_members_shorter split: if_splits)

declare glob_tokens.simps(2) [simp del]

fun glob_one :: "glob \<Rightarrow> char \<Rightarrow> bool" where
  "glob_one AnyChar c = True"
| "glob_one Star c = False"
| "glob_one (Lit d) c = (c = d)"
| "glob_one (Bracket neg rs) c =
     (list_ex (\<lambda>(lo, hi). (of_char lo :: nat) \<le> of_char c \<and> (of_char c :: nat) \<le> of_char hi) rs \<noteq> neg)"

fun glob_match :: "glob list \<Rightarrow> string \<Rightarrow> bool" where
  "glob_match [] s = (s = [])"
| "glob_match (Star # p) [] = glob_match p []"
| "glob_match (Star # p) (c # s) = (glob_match p (c # s) \<or> glob_match (Star # p) s)"
| "glob_match (g # p) [] = False"
| "glob_match (g # p) (c # s) = (glob_one g c \<and> glob_match p s)"

definition fnmatch :: "string \<Rightarrow> string \<Rightarrow> bool" where
  "fnmatch p s = (case glob_tokens p of None \<Rightarrow> False | Some g \<Rightarrow> glob_match g s)"

section \<open>noproxy\_add and noproxy\_match\<close>

function noproxy_add :: "string plist_t \<Rightarrow> string \<Rightarrow> string plist_t" where
  "noproxy_add list spec =
     (case strtok_r spec '', '' of
        None \<Rightarrow> list
      | Some (tok, save) \<Rightarrow> noproxy_add (plist_add list 0 (Some tok)) save)"
  by pat_completeness auto

lemma strtok_r_shorter: "strtok_r s d = Some (tok, save) \<Longrightarrow> length save < length s"
proof -
  assume "strtok_r s d = Some (tok, save)"
  then have "dropWhile (\<lambda>c. c \<in> set d) s \<noteq> []"
    and "save = drop 1 (dropWhile (\<lambda>c. c \<notin> set d) (dropWhile (\<lambda>c. c \<in> set d) s))"
    by (auto simp: strtok_r_def Let_def split: if_splits)
  moreover have "length (dropWhile (\<lambda>c. c \<notin> set d) (dropWhile (\<lambda>c. c \<in> set d) s)) \<le> length s"
    using length_dropWhile_le order_trans by blast
  moreover have "s \<noteq> []" using calculation(1) by auto
  ultimately show ?thesis by (cases s) auto
qed

termination noproxy_add
  by (relation "measure (\<lambda>(_, spec). length spec)") (auto dest: strtok_r_shorter)

declare noproxy_add.simps [simp del]

text \<open>\<open>None\<close> is a NULL address.\<close>

fun noproxy_match :: "string plist_t \<Rightarrow> string option \<Rightarrow> bool c_result" where
  "noproxy_match [] addr = Ret False"
| "noproxy_match (t # ts) addr =
     (case paux t of
        Some (c # p) \<Rightarrow>
          (case addr of
             None \<Rightarrow> UB
           | Some a \<Rightarrow> if fnmatch (c # p) a then Ret True else noproxy_match ts addr)
      | _ \<Rightarrow> noproxy_match ts addr)"

section \<open>listen\_add and tunnel\_add\<close>

abbreviation INADDR_ANY :: u32 where "INADDR_ANY \<equiv> 0"
abbreviation INADDR_LOOPBACK :: u32 where "INADDR_LOOPBACK \<equiv> 0x7F000001"

definition local_addr :: "bool \<Rightarrow> u32" where
  "local_addr gateway = swap32 (if gateway then INADDR_ANY else INADDR_LOOPBACK)"

text \<open>\<open>src0\<close> is the uninitialised \<open>source\<close>; the listening descriptor is added to the list.\<close>

definition listen_add ::
  "gai \<Rightarrow> (int \<Rightarrow> u32 \<Rightarrow> int) \<Rightarrow> u32 \<Rightarrow> string plist_t \<Rightarrow> string \<Rightarrow> bool \<Rightarrow> string plist_t option_result c_result" where
  "listen_add getaddrinfo so_listen src0 list spec gateway =
     (let p = strcspn spec '':''
      in c_bind (if int p < int (length spec) - 1 then
                   c_bind (substr spec 0 (int p)) (\<lambda>tmp.
                     case so_resolv getaddrinfo src0 tmp of
                       (False, _) \<Rightarrow> Ret None
                     | (True, source) \<Rightarrow> Ret (Some (source, atoi (drop (p + 1) spec))))
                 else Ret (Some (local_addr gateway, atoi spec))) (\<lambda>r.
         case r of
           None \<Rightarrow> Ret Exits
         | Some (source, port) \<Rightarrow>
             if port = 0 then Ret Exits
             else let i = so_listen port source
                  in Ret (Added (if i > 0 then plist_add list (word_of_int i) None else list))))"

text \<open>The fields of a specification, at most \<open>n\<close> more: the last one keeps further colons.\<close>

fun spec_fields :: "nat \<Rightarrow> string \<Rightarrow> string list" where
  "spec_fields 0 s = [s]"
| "spec_fields (Suc n) s =
     (case strchr s (CHR '':'') of
        None \<Rightarrow> [s]
      | Some r \<Rightarrow> take (length s - length r) s # spec_fields n (drop 1 r))"

definition tunnel_bind ::
  "(int \<Rightarrow> u32 \<Rightarrow> int) \<Rightarrow> string plist_t \<Rightarrow> u32 \<Rightarrow> string list \<Rightarrow> string plist_t option_result" where
  "tunnel_bind so_listen list source fs =
     (case fs of
        [lport, rhost, rport] \<Rightarrow>
          let port = atoi lport
          in if port = 0 \<or> rhost = [] \<or> rport = [] then Exits
             else let i = so_listen port source
                  in Added (if i > 0 then plist_add list (word_of_int i) (Some (rhost @ '':'' @ rport)) else list)
      | _ \<Rightarrow> Exits)"

definition tunnel_add ::
  "gai \<Rightarrow> (int \<Rightarrow> u32 \<Rightarrow> int) \<Rightarrow> u32 \<Rightarrow> string plist_t \<Rightarrow> string \<Rightarrow> bool \<Rightarrow> string plist_t option_result" where
  "tunnel_add getaddrinfo so_listen src0 list spec gateway =
     (let field = spec_fields 3 spec
      in if length field = 4 then
           (case so_resolv getaddrinfo src0 (hd field) of
              (False, _) \<Rightarrow> Exits
            | (True, source) \<Rightarrow> tunnel_bind so_listen list source (tl field))
         else tunnel_bind so_listen list (local_addr gateway) field)"

section \<open>Patterns\<close>

text \<open>The patterns people write: plain characters, and stars between them.\<close>

definition plain :: "string \<Rightarrow> bool" where
  "plain p = list_all (\<lambda>c. c \<notin> set ''*?['' \<and> c \<noteq> CHR 0x5C) p"

lemma glob_tokens_plain: "plain p \<Longrightarrow> glob_tokens (p @ q) = map_option ((@) (map Lit p)) (glob_tokens q)"
proof (induction p)
  case Nil
  show ?case by (cases "glob_tokens q") auto
next
  case (Cons c p)
  then have "glob_tokens ((c # p) @ q) = map_option ((#) (Lit c)) (map_option ((@) (map Lit p)) (glob_tokens q))"
    by (simp add: glob_tokens.simps(2) plain_def)
  also have "\<dots> = map_option ((@) (map Lit (c # p))) (glob_tokens q)"
    by (cases "glob_tokens q") auto
  finally show ?case .
qed

lemma glob_tokens_star: "glob_tokens (CHR ''*'' # q) = map_option ((#) Star) (glob_tokens q)"
  by (simp add: glob_tokens.simps(2))

text \<open>A star takes any run of characters; plain characters take themselves.\<close>

lemma glob_match_star: "glob_match (Star # g) s \<longleftrightarrow> (\<exists>u v. s = u @ v \<and> glob_match g v)"
proof (induction s)
  case (Cons c s)
  show ?case
  proof
    assume "glob_match (Star # g) (c # s)"
    with Cons.IH have "glob_match g (c # s) \<or> (\<exists>u v. s = u @ v \<and> glob_match g v)" by simp
    then show "\<exists>u v. c # s = u @ v \<and> glob_match g v"
      by (metis append_Cons append_Nil)
  next
    assume "\<exists>u v. c # s = u @ v \<and> glob_match g v"
    then obtain u v where "c # s = u @ v" "glob_match g v" by blast
    with Cons.IH show "glob_match (Star # g) (c # s)" by (cases u) auto
  qed
qed simp

lemma glob_match_lit: "glob_match (map Lit p @ g) s \<longleftrightarrow> (\<exists>v. s = p @ v \<and> glob_match g v)"
proof (induction p arbitrary: s)
  case (Cons c p)
  show ?case by (cases s) (auto simp: Cons.IH)
qed simp

lemma fnmatch_plain: "plain p \<Longrightarrow> fnmatch p a \<longleftrightarrow> a = p"
  using glob_tokens_plain [of p "[]"] glob_match_lit [of p "[]" a] by (simp add: fnmatch_def)

lemma fnmatch_star:
  assumes "plain p" "plain q"
  shows "fnmatch (p @ ''*'' @ q) a \<longleftrightarrow> (\<exists>m. a = p @ m @ q)"
proof -
  have "glob_tokens (p @ ''*'' @ q) = Some (map Lit p @ Star # map Lit q)"
    using glob_tokens_plain [OF assms(1), of "''*'' @ q"] glob_tokens_plain [OF assms(2), of "[]"]
    by (simp add: glob_tokens_star)
  moreover have "glob_match (map Lit q) v \<longleftrightarrow> v = q" for v
    using glob_match_lit [of q "[]" v] by simp
  ultimately show ?thesis by (auto simp: fnmatch_def glob_match_lit glob_match_star)
qed

section \<open>The list of exceptions\<close>

text \<open>The words of an option value: what is left between its delimiters.\<close>

fun pieces :: "(char \<Rightarrow> bool) \<Rightarrow> string \<Rightarrow> string list" where
  "pieces f [] = [[]]"
| "pieces f (c # s) = (if f c then [] # pieces f s
     else case pieces f s of w # ws \<Rightarrow> (c # w) # ws | [] \<Rightarrow> [[c]])"

definition option_words :: "string \<Rightarrow> string list" where
  "option_words spec = filter (\<lambda>w. w \<noteq> []) (pieces (\<lambda>c. c \<in> set '', '') spec)"

lemma pieces_not_nil [simp]: "pieces f s \<noteq> []"
  by (induction s) (auto split: list.splits)

lemma pieces_word: "list_all (\<lambda>c. \<not> f c) w \<Longrightarrow> pieces f (w @ s) = (case pieces f s of v # vs \<Rightarrow> (w @ v) # vs)"
  by (induction w) (auto split: list.splits dest: pieces_not_nil [THEN notE])

lemma option_words_skip: "option_words (dropWhile (\<lambda>c. c \<in> set '', '') s) = option_words s"
  by (induction s) (auto simp: option_words_def)

lemma strtok_r_words:
  "option_words s = (case strtok_r s '', '' of None \<Rightarrow> [] | Some (tok, save) \<Rightarrow> tok # option_words save)"
proof -
  let ?f = "\<lambda>c. c \<in> set '', ''"
  define s' where "s' = dropWhile ?f s"
  define w r where "w = takeWhile (\<lambda>c. \<not> ?f c) s'" and "r = dropWhile (\<lambda>c. \<not> ?f c) s'"
  have tok: "strtok_r s '', '' = (if s' = [] then None else Some (w, drop 1 r))"
    unfolding strtok_r_def Let_def s'_def w_def r_def by (rule refl)
  show ?thesis
  proof (cases "s' = []")
    case True
    then have "option_words s = option_words []"
      using option_words_skip [of s] unfolding s'_def by metis
    with tok True show ?thesis by (simp add: option_words_def)
  next
    case False
    have "\<not> ?f (hd s')" using False hd_dropWhile unfolding s'_def by fast
    with False have w: "w \<noteq> []" by (cases s') (simp_all add: w_def)
    have lw: "list_all (\<lambda>c. \<not> ?f c) w" by (auto simp: w_def list_all_iff dest: set_takeWhileD)
    have s': "s' = w @ r" by (simp add: w_def r_def)
    have "option_words s = option_words (w @ r)"
      using option_words_skip [of s] s' by (simp add: s'_def)
    also have "\<dots> = w # option_words (drop 1 r)"
    proof (cases r)
      case Nil
      with w pieces_word [OF lw, of "[]"] show ?thesis by (simp add: option_words_def)
    next
      case (Cons c t)
      have "r \<noteq> [] \<Longrightarrow> ?f (hd r)" unfolding r_def using hd_dropWhile by blast
      with Cons have "?f c" by simp
      with Cons w pieces_word [OF lw, of r] show ?thesis by (auto simp: option_words_def)
    qed
    finally show ?thesis using tok False by simp
  qed
qed

lemma noproxy_add_words:
  "noproxy_add l spec = l @ map (\<lambda>w. \<lparr>pkey = 0, paux = Some w\<rparr>) (option_words spec)"
proof (induction l spec rule: noproxy_add.induct)
  case (1 l spec)
  then show ?case
    by (subst noproxy_add.simps, subst strtok_r_words) (simp add: plist_add_append split: option.split)
qed

text \<open>What one pattern says of an address; an empty one is not looked at.\<close>

definition noproxy_says :: "string plist_s \<Rightarrow> string option \<Rightarrow> bool option c_result" where
  "noproxy_says t addr = (case paux t of
       None \<Rightarrow> Ret None
     | Some w \<Rightarrow> if w = [] then Ret None
         else (case addr of None \<Rightarrow> UB | Some a \<Rightarrow> Ret (if fnmatch w a then Some True else None)))"

interpretation np: rule_list noproxy_match noproxy_says False
proof unfold_locales
  fix t ts x
  show "noproxy_match (t # ts) x =
      (case noproxy_says t x of UB \<Rightarrow> UB | Ret None \<Rightarrow> noproxy_match ts x | Ret (Some v) \<Rightarrow> Ret v)"
    by (cases "paux t"; cases "the (paux t)"; cases x) (simp_all add: noproxy_says_def)
qed simp

lemma find_list_ex: "(case find P l of None \<Rightarrow> False | Some t \<Rightarrow> True) = list_ex P l"
  by (induction l) auto

lemma noproxy_match_ex:
  "noproxy_match l (Some a) =
     Ret (list_ex (\<lambda>t. case paux t of Some w \<Rightarrow> w \<noteq> [] \<and> fnmatch w a | None \<Rightarrow> False) l)"
  unfolding find_list_ex [symmetric] by (rule np.check_find) (auto simp: noproxy_says_def split: option.split)

text \<open>A missing address stops the program as soon as the list has an entry.\<close>

lemma noproxy_match_None:
  "noproxy_match l None = (if list_ex (\<lambda>t. case paux t of Some w \<Rightarrow> w \<noteq> [] | None \<Rightarrow> False) l then UB else Ret False)"
  by (induction l "None :: string option" rule: noproxy_match.induct) (auto split: option.splits list.splits)

text \<open>
  NoProxy exceptions.  After noproxy_add has read a list of patterns separated by commas and
  blanks, an address is an exception exactly when it was one before or one of these patterns,
  empty ones apart, matches it.
\<close>

theorem noproxy_list_matches:
  "noproxy_match (noproxy_add l spec) (Some a) =
     (case noproxy_match l (Some a) of
        Ret False \<Rightarrow> Ret (list_ex (\<lambda>w. fnmatch w a) (option_words spec))
      | r \<Rightarrow> r)"
proof -
  have "list_ex (\<lambda>w. w \<noteq> [] \<and> fnmatch w a) (option_words spec) = list_ex (\<lambda>w. fnmatch w a) (option_words spec)"
    by (auto simp: list_ex_iff option_words_def)
  then have "noproxy_match (noproxy_add l spec) (Some a) =
      Ret (list_ex (\<lambda>t. case paux t of Some w \<Rightarrow> w \<noteq> [] \<and> fnmatch w a | None \<Rightarrow> False) l
           \<or> list_ex (\<lambda>w. fnmatch w a) (option_words spec))"
    unfolding noproxy_add_words noproxy_match_ex list_ex_append by (simp add: list_ex_iff)
  then show ?thesis unfolding noproxy_match_ex by (simp split: bool.split)
qed

text \<open>
  What a pattern covers.  A NoProxy pattern of plain characters covers that address only, in
  this spelling of its letters; with one star it covers exactly the addresses that begin with
  what is before the star and end with what is behind it.
\<close>

theorem noproxy_pattern_covers:
  assumes "plain p" "plain q" "p \<noteq> []"
  shows "(noproxy_match [\<lparr>pkey = 0, paux = Some p\<rparr>] (Some a) = Ret (a = p))
    \<and> (noproxy_match [\<lparr>pkey = 0, paux = Some (p @ ''*'' @ q)\<rparr>] (Some a) = Ret (\<exists>m. a = p @ m @ q))
    \<and> (noproxy_match [\<lparr>pkey = 0, paux = Some (''*'' @ q)\<rparr>] (Some a) = Ret (\<exists>m. a = m @ q))"
proof (intro conjI)
  have "plain []" by (simp add: plain_def)
  from fnmatch_star [OF this assms(2)] have
    e: "fnmatch (CHR ''*'' # q) a \<longleftrightarrow> (\<exists>m. a = m @ q)" by simp
  show "noproxy_match [\<lparr>pkey = 0, paux = Some p\<rparr>] (Some a) = Ret (a = p)"
    using assms(3) by (simp add: noproxy_match_ex fnmatch_plain [OF assms(1)])
  show "noproxy_match [\<lparr>pkey = 0, paux = Some (p @ ''*'' @ q)\<rparr>] (Some a) = Ret (\<exists>m. a = p @ m @ q)"
    unfolding noproxy_match_ex using fnmatch_star [OF assms(1,2), of a] by (simp del: append_assoc)
  show "noproxy_match [\<lparr>pkey = 0, paux = Some (''*'' @ q)\<rparr>] (Some a) = Ret (\<exists>m. a = m @ q)"
    unfolding noproxy_match_ex using e by simp
qed

theorem noproxy_pattern_covers_witness:
  "noproxy_match [\<lparr>pkey = 0, paux = Some ''10.*''\<rparr>] (Some ''10.1'') = Ret True
   \<and> noproxy_match [\<lparr>pkey = 0, paux = Some ''*.corp''\<rparr>] (Some ''w.CORP'') = Ret False"
proof -
  have "plain ''10.''" "plain ''.corp''" "plain []" by (simp_all add: plain_def)
  with noproxy_pattern_covers [of "''10.''" "[]" "''10.1''"] noproxy_pattern_covers [of "''10.''" "''.corp''" "''w.CORP''"]
  have "noproxy_match [\<lparr>pkey = 0, paux = Some ''10.*''\<rparr>] (Some ''10.1'') = Ret (\<exists>m. ''10.1'' = ''10.'' @ m @ [])"
    "noproxy_match [\<lparr>pkey = 0, paux = Some ''*.corp''\<rparr>] (Some ''w.CORP'') = Ret (\<exists>m. ''w.CORP'' = m @ ''.corp'')"
    by simp_all
  moreover have "\<exists>m. ''10.1'' = ''10.'' @ m @ []" by (intro exI [of _ "''1''"]) simp
  moreover have "''w.CORP'' \<noteq> m @ ''.corp''" for m
  proof
    assume "''w.CORP'' = m @ ''.corp''"
    then have "last ''w.CORP'' = last (m @ ''.corp'')" by metis
    then show False by simp
  qed
  ultimately show ?thesis by simp
qed

section \<open>Listening\<close>

text \<open>The list after an attempt to listen.\<close>

definition opened :: "string plist_t \<Rightarrow> int \<Rightarrow> string option \<Rightarrow> string plist_t" where
  "opened l i aux = (if i > 0 then l @ [\<lparr>pkey = word_of_int i, paux = aux\<rparr>] else l)"

lemma spec_fields_step: "CHR '':'' \<notin> set a \<Longrightarrow> spec_fields (Suc n) (a @ '':'' @ b) = a # spec_fields n b"
  using strchr_append [of "CHR '':''" a b] by simp

lemma spec_fields_last: "CHR '':'' \<notin> set a \<Longrightarrow> spec_fields (Suc n) a = [a]"
  using strchr_None [of a "CHR '':''"] by simp

lemma strcspn_field: "c \<notin> set a \<Longrightarrow> strcspn (a @ c # b) [c] = length a"
  by (induction a) (auto simp: strcspn_def)

text \<open>
  Where the program listens.  A port without an address is opened on the loopback interface,
  or on all interfaces in gateway mode, and a port with an address on what the address resolves
  to; the same holds for tunnels, whose target (host and port) is stored with the descriptor.
\<close>

theorem listen_addresses:
  assumes "CHR '':'' \<notin> set addr" "CHR '':'' \<notin> set lport" "CHR '':'' \<notin> set rhost" "CHR '':'' \<notin> set rport"
    "addr \<noteq> []" "lport \<noteq> []" "rhost \<noteq> []" "rport \<noteq> []" "atoi lport \<noteq> 0"
    "length addr + length lport < 2 ^ 31 - 1" "so_resolv getaddrinfo src0 addr = (True, source)"
  shows "(listen_add getaddrinfo so_listen src0 l lport gateway =
      Ret (Added (opened l (so_listen (atoi lport) (swap32 (if gateway then 0 else 0x7F000001))) None)))
    \<and> (listen_add getaddrinfo so_listen src0 l (addr @ '':'' @ lport) gateway =
      Ret (Added (opened l (so_listen (atoi lport) source) None)))
    \<and> (tunnel_add getaddrinfo so_listen src0 l (lport @ '':'' @ rhost @ '':'' @ rport) gateway =
      Added (opened l (so_listen (atoi lport) (swap32 (if gateway then 0 else 0x7F000001)))
        (Some (rhost @ '':'' @ rport))))
    \<and> (tunnel_add getaddrinfo so_listen src0 l (addr @ '':'' @ lport @ '':'' @ rhost @ '':'' @ rport) gateway =
      Added (opened l (so_listen (atoi lport) source) (Some (rhost @ '':'' @ rport))))"
proof (intro conjI)
  have "strcspn lport '':'' = length lport" using assms(2) by (auto simp: strcspn_eq_length)
  with assms(9) show "listen_add getaddrinfo so_listen src0 l lport gateway =
      Ret (Added (opened l (so_listen (atoi lport) (swap32 (if gateway then 0 else 0x7F000001))) None))"
    by (simp add: listen_add_def Let_def local_addr_def opened_def plist_add_append)
  have "substr (addr @ '':'' @ lport) 0 (int (length addr)) = Ret addr"
    using assms(5,10) by (subst substr_eq) auto
  with assms(5,6,9,11) strcspn_field [OF assms(1), of lport]
  show "listen_add getaddrinfo so_listen src0 l (addr @ '':'' @ lport) gateway =
      Ret (Added (opened l (so_listen (atoi lport) source) None))"
    by (simp add: listen_add_def Let_def opened_def plist_add_append)
  have f3: "spec_fields 3 (lport @ '':'' @ rhost @ '':'' @ rport) = [lport, rhost, rport]"
    "spec_fields 3 (addr @ '':'' @ lport @ '':'' @ rhost @ '':'' @ rport) = [addr, lport, rhost, rport]"
    using spec_fields_step [OF assms(2), of 2] spec_fields_step [OF assms(3), of 1] spec_fields_last [OF assms(4), of 0]
      spec_fields_step [OF assms(1), of 2] spec_fields_step [OF assms(2), of 1] spec_fields_step [OF assms(3), of 0]
    by (simp_all add: numeral_3_eq_3 numeral_2_eq_2)
  with assms show "tunnel_add getaddrinfo so_listen src0 l (lport @ '':'' @ rhost @ '':'' @ rport) gateway =
      Added (opened l (so_listen (atoi lport) (swap32 (if gateway then 0 else 0x7F000001)))
        (Some (rhost @ '':'' @ rport)))"
    by (simp add: tunnel_add_def Let_def tunnel_bind_def local_addr_def opened_def plist_add_append)
  from f3 assms show "tunnel_add getaddrinfo so_listen src0 l (addr @ '':'' @ lport @ '':'' @ rhost @ '':'' @ rport) gateway =
      Added (opened l (so_listen (atoi lport) source) (Some (rhost @ '':'' @ rport)))"
    by (simp add: tunnel_add_def Let_def tunnel_bind_def opened_def plist_add_append)
qed

theorem listen_addresses_witness:
  "tunnel_add (\<lambda>_. Some [Some 9]) (\<lambda>p a. if a = swap32 0x7F000001 then p else -1) 0 [] ''80:h:1'' False =
     Added [\<lparr>pkey = 80, paux = Some ''h:1''\<rparr>]"
proof -
  have "atoi ''80'' = 80" using atoi_show_nat [of 80] by (simp add: show_nat.simps)
  with listen_addresses [of "''a''" "''80''" "''h''" "''1''" "\<lambda>_. Some [Some 9]" 0 9
      "\<lambda>p a. if a = swap32 0x7F000001 then p else -1" "[]" False]
  show ?thesis by (simp add: so_resolv_def opened_def)
qed

end
