(* ===== verification/Pages.thy ===== *)
theory Pages
  imports Forward
begin

text \<open>
  pages.c: the replies the program makes up itself.  \<open>snprintf\<close> is given BUFSIZE - 1 bytes, the
  terminator included, so a page is cut after BUFSIZE - 2 characters.
\<close>

section \<open>The pages\<close>

definition page :: "string \<Rightarrow> string" where "page t = take (BUFSIZE - 2) t"

definition default_str :: "string \<Rightarrow> string option \<Rightarrow> string" where
  "default_str d s = (case s of None \<Rightarrow> d | Some t \<Rightarrow> t)"

definition html_head :: string where "html_head = ''Content-Type: text/html'' @ CRLF @ CRLF"

text \<open>The texts between the opening of the body and its end.\<close>

definition link_html :: string where
  "link_html = ''<a href='' @ [CHR 0x27] @ ''http://cntlm.sf.net/'' @ [CHR 0x27] @ ''>Cntlm</a>''"

definition html_407 :: string where
  "html_407 = ''<h1>407 Access denied</h1><p>'' @ link_html
     @ '' requests your credentials for proxy access.</p></body></html>''"

definition html_401 :: string where
  "html_401 = ''<h1>401 Access denied</h1><p>'' @ link_html
     @ '' proxy requests your credentials for this URL.</p></body></html>''"

definition html_denied :: "string \<Rightarrow> string" where
  "html_denied ip = ''<h1>Access denied</h1><p>Your request has been declined, '' @ ip
     @ '' is not allowed to connect.</p></body></html>''"

definition html_502 :: "string \<Rightarrow> string" where
  "html_502 msg = ''<h1>502 '' @ msg @ ''</h1><p>'' @ link_html
     @ '' proxy failed to complete the request.</p></body></html>''"

definition basic_realm :: "string \<Rightarrow> string" where
  "basic_realm v = ''Basic realm='' @ [CHR 0x22] @ v @ [CHR 0x22]"

definition gen_407_page :: "string option \<Rightarrow> string" where
  "gen_407_page http = page (default_str ''HTTP/1.0'' http @ '' 407 Access denied'' @ CRLF
     @ ''Proxy-Authenticate: '' @ basic_realm ''Cntlm Proxy'' @ CRLF @ html_head
     @ ''<html><body>'' @ html_407)"

definition gen_401_page :: "string option \<Rightarrow> string \<Rightarrow> int \<Rightarrow> string" where
  "gen_401_page http host port = page (default_str ''HTTP/1.0'' http @ '' 401 Access denied'' @ CRLF
     @ ''WWW-Authenticate: '' @ basic_realm (host @ '':'' @ show_int port) @ CRLF @ html_head
     @ ''<html><body>'' @ html_401)"

definition gen_denied_page :: "string option \<Rightarrow> string" where
  "gen_denied_page ip = page (''HTTP/1.0 407 Access denied'' @ CRLF @ html_head
     @ ''<html><body>'' @ html_denied (default_str ''client'' ip))"

definition gen_502_page :: "string option \<Rightarrow> string option \<Rightarrow> string" where
  "gen_502_page http msg =
     (let m = default_str ''Proxy error'' msg
      in page (default_str ''HTTP/1.0'' http @ '' 502 '' @ m @ CRLF @ html_head
           @ ''<html><body>'' @ html_502 m))"

section \<open>What a client receives\<close>

definition page_reply :: "string \<Rightarrow> int \<Rightarrow> string \<Rightarrow> hlist_t \<Rightarrow> rr_data_s" where
  "page_reply http code msg hs = new_rr_data\<lparr>rr_http := Some http, rr_msg := Some msg, rr_code := code,
     rr_headers := hs @ [\<lparr>hkey = ''Content-Type'', hvalue = ''text/html''\<rparr>]\<rparr>"

definition http_wf :: "string \<Rightarrow> bool" where
  "http_wf h \<longleftrightarrow> word_wf h \<and> strncaseeq h ''HTTP/'' 5 \<and> length h \<le> 1000"

definition phrase_wf :: "string \<Rightarrow> bool" where
  "phrase_wf m \<longleftrightarrow> m \<noteq> [] \<and> LF \<notin> set m \<and> NUL \<notin> set m \<and> \<not> c_isspace (last m) \<and> length m \<le> 1000"

text \<open>The head a client reads from a page on any stream, and the HTML that follows it.\<close>

definition received_as :: "string \<Rightarrow> rr_data_s \<Rightarrow> bool" where
  "received_as pg d \<longleftrightarrow> (\<forall>s. if sock_wf s \<and> so_data s = pg
     then \<exists>s'. headers_recv s new_rr_data = Some (Ret (True, received d, s')) \<and> take 12 (so_data s') = ''<html><body>''
     else True)"

lemma page_received:
  assumes "response_wf d" "pg = the_ret (headers_text d) @ ''<html><body>'' @ r"
  shows "received_as pg d"
  unfolding received_as_def using headers_recv_reply [OF assms(1)] assms(2) by fastforce

lemma page_head:
  assumes "http_wf h" "phrase_wf m" "100 \<le> code" "code < 1000" "list_all header_wf hs"
  shows "response_wf (page_reply h code m hs)"
    "headers_text (page_reply h code m hs) = Ret (h @ '' '' @ show_int3 code @ '' '' @ m @ CRLF
       @ concat (map header_line hs) @ html_head)"
  using assms
  by (auto simp: response_wf_def page_reply_def new_rr_data_def http_wf_def phrase_wf_def header_wf_def
      headers_text_def header_line_def html_head_def c_isspace_def)

lemma page_codes [simp]: "show_int3 407 = ''407''" "show_int3 401 = ''401''" "show_int3 502 = ''502''"
  by (simp_all add: show_int3_def show_nat3_def show_nat.simps)

lemma length_show_int: "- (2 ^ 31) \<le> i \<Longrightarrow> i < 2 ^ 31 \<Longrightarrow> length (show_int i) \<le> 11"
proof -
  assume i: "- (2 ^ 31) \<le> i" "i < 2 ^ 31"
  then have "nat (- i) < 10 ^ 10" "nat i < 10 ^ 10" by auto
  then have "length (show_nat (nat (- i))) \<le> 10" "length (show_nat (nat i)) \<le> 10"
    by (simp_all only: length_show_nat_le)
  then show ?thesis by (simp add: show_int_def)
qed

lemma show_int_chars: "c \<in> set (show_int i) \<Longrightarrow> c \<noteq> LF \<and> c \<noteq> NUL"
  using show_nat_noblank by (auto simp: show_int_def split: if_splits)

lemma page_id: "length t \<le> BUFSIZE - 2 \<Longrightarrow> page t = t"
  by (simp add: page_def)

lemma html_lengths:
  "length link_html = 40" "length html_407 = 131" "length html_401 = 133"
  "length (html_denied ip) = 102 + length ip" "length (html_502 msg) = 112 + length msg"
  "length html_head = 27" "length (basic_realm v) = 14 + length v"
  by (simp_all add: link_html_def html_407_def html_401_def html_denied_def html_502_def html_head_def basic_realm_def)

lemma phrase_access: "phrase_wf ''Access denied''"
  by (simp add: phrase_wf_def c_isspace_def)

lemma realm_header: "LF \<notin> set v \<Longrightarrow> NUL \<notin> set v \<Longrightarrow> length v < 2 ^ 28 \<Longrightarrow> k \<noteq> [] \<Longrightarrow> CHR '':'' \<notin> set k \<Longrightarrow>
    LF \<notin> set k \<Longrightarrow> NUL \<notin> set k \<Longrightarrow> length k < 2 ^ 28 \<Longrightarrow> header_wf \<lparr>hkey = k, hvalue = basic_realm v\<rparr>"
  by (simp add: header_wf_def basic_realm_def c_isspace_def)

text \<open>
  The program's own replies.  Every page fits its buffer; and, with a protocol word, a host and
  a message of at most 1000 characters each, without line ends, a client receives each of them, in
  any segmentation, as the response it is meant to be: its code, its message, the realm it asks
  credentials for, and then the HTML.
\<close>

theorem pages_received:
  assumes "http_wf h" "phrase_wf m" "phrase_wf host" "- (2 ^ 31) \<le> port" "port < 2 ^ 31"
  shows "received_as (gen_407_page (Some h)) (page_reply h 407 ''Access denied''
        [\<lparr>hkey = ''Proxy-Authenticate'', hvalue = basic_realm ''Cntlm Proxy''\<rparr>])
    \<and> received_as (gen_401_page (Some h) host port) (page_reply h 401 ''Access denied''
        [\<lparr>hkey = ''WWW-Authenticate'', hvalue = basic_realm (host @ '':'' @ show_int port)\<rparr>])
    \<and> received_as (gen_denied_page (Some host)) (page_reply ''HTTP/1.0'' 407 ''Access denied'' [])
    \<and> received_as (gen_502_page (Some h) (Some m)) (page_reply h 502 m [])
    \<and> length (gen_407_page x) < BUFSIZE \<and> length (gen_401_page x y z) < BUFSIZE
    \<and> length (gen_denied_page x) < BUFSIZE \<and> length (gen_502_page x u) < BUFSIZE"
proof (intro conjI)
  have h: "length h \<le> 1000" "length m \<le> 1000" "length host \<le> 1000"
    using assms by (simp_all add: http_wf_def phrase_wf_def)
  have h10: "http_wf ''HTTP/1.0''" by (simp add: http_wf_def word_wf_def strncaseeq_def c_isspace_def)
  note len = length_show_int [OF assms(4,5)]
  let ?pa = "[\<lparr>hkey = ''Proxy-Authenticate'', hvalue = basic_realm ''Cntlm Proxy''\<rparr>]"
  define realm where "realm = host @ '':'' @ show_int port"
  let ?wa = "[\<lparr>hkey = ''WWW-Authenticate'', hvalue = basic_realm realm\<rparr>]"
  have rl: "length realm \<le> 1012" using h len by (simp add: realm_def)
  have pa: "list_all header_wf ?pa" using realm_header [of "''Cntlm Proxy''"] by simp
  have wa: "list_all header_wf ?wa"
    using assms(3) len show_int_chars [of _ port] realm_header [of realm "''WWW-Authenticate''"]
    by (auto simp: phrase_wf_def realm_def)
  note heads = page_head [OF assms(1) phrase_access _ _ pa, of 407] page_head [OF assms(1) phrase_access _ _ wa, of 401]
    page_head [OF h10 phrase_access, of 407 "[]"] page_head [OF assms(1,2), of 502 "[]"]
  have "gen_407_page (Some h) = the_ret (headers_text (page_reply h 407 ''Access denied'' ?pa))
      @ ''<html><body>'' @ html_407"
    unfolding gen_407_page_def using h
    by (subst page_id) (simp_all add: heads(2) header_line_def default_str_def html_lengths)
  then show "received_as (gen_407_page (Some h)) (page_reply h 407 ''Access denied'' ?pa)"
    by (intro page_received [OF heads(1)]) simp_all
  have "gen_401_page (Some h) host port = the_ret (headers_text (page_reply h 401 ''Access denied'' ?wa))
      @ ''<html><body>'' @ html_401"
    unfolding gen_401_page_def realm_def [symmetric] using h rl
    by (subst page_id) (simp_all add: heads(4) header_line_def default_str_def html_lengths)
  then show "received_as (gen_401_page (Some h) host port) (page_reply h 401 ''Access denied''
      [\<lparr>hkey = ''WWW-Authenticate'', hvalue = basic_realm (host @ '':'' @ show_int port)\<rparr>])"
    unfolding realm_def [symmetric] by (intro page_received [OF heads(3)]) simp_all
  have "gen_denied_page (Some host) = the_ret (headers_text (page_reply ''HTTP/1.0'' 407 ''Access denied'' []))
      @ ''<html><body>'' @ html_denied host"
    unfolding gen_denied_page_def using h
    by (subst page_id) (simp_all add: heads(6) default_str_def html_lengths)
  then show "received_as (gen_denied_page (Some host)) (page_reply ''HTTP/1.0'' 407 ''Access denied'' [])"
    by (intro page_received [OF heads(5)]) simp_all
  have "gen_502_page (Some h) (Some m) = the_ret (headers_text (page_reply h 502 m [])) @ ''<html><body>'' @ html_502 m"
    unfolding gen_502_page_def Let_def using h
    by (subst page_id) (simp_all add: heads(8) default_str_def html_lengths)
  then show "received_as (gen_502_page (Some h) (Some m)) (page_reply h 502 m [])"
    by (intro page_received [OF heads(7)]) simp_all
qed (simp_all add: gen_407_page_def gen_401_page_def gen_denied_page_def gen_502_page_def page_def Let_def)

theorem pages_received_witness:
  "received_as (gen_502_page (Some ''HTTP/1.1'') (Some ''Parent proxy unreacheable''))
     (page_reply ''HTTP/1.1'' 502 ''Parent proxy unreacheable'' [])"
proof -
  have "http_wf ''HTTP/1.1''" by (simp add: http_wf_def word_wf_def strncaseeq_def c_isspace_def)
  moreover have "phrase_wf ''Parent proxy unreacheable''" by (simp add: phrase_wf_def c_isspace_def)
  ultimately show ?thesis using pages_received [of _ "''Parent proxy unreacheable''" "''Parent proxy unreacheable''" 80] by simp
qed

end
