(* ===== verification/Tunnels.thy ===== *)
theory Tunnels
  imports Options Pages
begin

text \<open>
  Tunnels: host\_connect and direct\_tunnel of direct.c, forward\_tunnel of forward.c and
  tunnel\_thread of main.c, which decides between the two.
\<close>

section \<open>Connecting\<close>

text \<open>\<open>src0\<close> is the uninitialised address.\<close>

definition host_connect ::
  "gai \<Rightarrow> u32 \<Rightarrow> globals \<Rightarrow> string \<Rightarrow> int \<Rightarrow> (int \<times> peer option) \<times> globals" where
  "host_connect getaddrinfo src0 g hostname port =
     (case so_resolv getaddrinfo src0 hostname of
        (False, _) \<Rightarrow> ((-1, None), g)
      | (True, addr) \<Rightarrow> so_connect addr port g)"

text \<open>
  The end of a thread: the client's connection, the server's when there is one, and the globals.
  A tunnel to a descriptor that is not open ends at once, because select refuses it.
\<close>

record relay =
  rl_client :: peer
  rl_server :: "peer option"
  rl_globals :: globals

fun tunnel_ends :: "tun \<Rightarrow> peer \<times> peer" where
  "tunnel_ends (Run cd sd) = (cd, sd)"
| "tunnel_ends (Stop ok cd sd) = (cd, sd)"

definition run_tunnel :: "sel list \<Rightarrow> peer \<Rightarrow> peer option \<Rightarrow> globals \<Rightarrow> relay" where
  "run_tunnel es cd q g =
     (case q of
        None \<Rightarrow> \<lparr>rl_client = cd, rl_server = None, rl_globals = g\<rparr>
      | Some sd \<Rightarrow> (case tunnel_ends (tunnel es (Run cd sd)) of
                     (cd', sd') \<Rightarrow> \<lparr>rl_client = cd', rl_server = Some sd', rl_globals = g\<rparr>))"

text \<open>
  prepare\_http\_connect gets the descriptor by value: the caller still has the old one, which is
  closed when the connection was made again under another number.
\<close>

definition caller_peer :: "int \<Rightarrow> auth_result \<Rightarrow> peer option" where
  "caller_peer sd r = (if ar_fd r = sd then ar_peer r else None)"

section \<open>direct\_tunnel, forward\_tunnel and tunnel\_thread\<close>

text \<open>The target up to the colon, and the number behind it.\<close>

definition target_host :: "string \<Rightarrow> string" where
  "target_host thost = (case strchr thost (CHR '':'') of
     None \<Rightarrow> thost | Some pos \<Rightarrow> take (length thost - length pos) thost)"

definition target_port :: "string \<Rightarrow> int" where
  "target_port thost = (case strchr thost (CHR '':'') of None \<Rightarrow> 0 | Some pos \<Rightarrow> atoi (drop 1 pos))"

definition direct_tunnel :: "gai \<Rightarrow> u32 \<Rightarrow> globals \<Rightarrow> sel list \<Rightarrow> peer \<Rightarrow> string \<Rightarrow> relay" where
  "direct_tunnel getaddrinfo src0 g es cd thost =
     (case host_connect getaddrinfo src0 g (target_host thost) (target_port thost) of
        ((sd, q), g') \<Rightarrow>
          if sd \<le> 0 then \<lparr>rl_client = cd, rl_server = None, rl_globals = g'\<rparr>
          else run_tunnel es cd q g')"

text \<open>The negotiation of a tunnel through the parent: whether it stands, the peer and the globals.\<close>

definition parent_tunnel ::
  "gai \<Rightarrow> rnd \<Rightarrow> int \<Rightarrow> peer option \<Rightarrow> auth_s option \<Rightarrow> globals \<Rightarrow> string \<Rightarrow> (bool \<times> peer option \<times> globals) c_prog" where
  "parent_tunnel getaddrinfo rn sd q c g thost =
     (case (q, c) of
        (Some p, Some tcreds) \<Rightarrow>
          p_bind (prepare_http_connect getaddrinfo rn g sd p tcreds (Some thost)) (\<lambda>(ok, r).
            Some (Ret (case r of
                None \<Rightarrow> (ok, q, g)
              | Some r \<Rightarrow> (ok, caller_peer sd r, ar_globals r))))
      | _ \<Rightarrow> Some (Ret (False, None, g)))"

definition forward_tunnel :: "gai \<Rightarrow> rnd \<Rightarrow> globals \<Rightarrow> sel list \<Rightarrow> peer \<Rightarrow> string \<Rightarrow> relay c_prog" where
  "forward_tunnel getaddrinfo rn g es cd thost =
     p_bind (Some (proxy_connect getaddrinfo g (Some new_auth))) (\<lambda>((sd, q), c, g1).
       if sd \<le> 0 then Some (Ret \<lparr>rl_client = cd, rl_server = None, rl_globals = g1\<rparr>)
       else p_bind (parent_tunnel getaddrinfo rn sd q c g1 thost) (\<lambda>(ok, p, g2).
              Some (Ret (if ok then run_tunnel es cd p g2
                         else \<lparr>rl_client = cd, rl_server = p, rl_globals = g2\<rparr>))))"

definition tunnel_thread ::
  "gai \<Rightarrow> u32 \<Rightarrow> rnd \<Rightarrow> string plist_t \<Rightarrow> globals \<Rightarrow> sel list \<Rightarrow> peer \<Rightarrow> string \<Rightarrow> relay c_prog" where
  "tunnel_thread getaddrinfo src0 rn noproxy g es cd thost =
     p_bind (Some (noproxy_match noproxy (Some (target_host thost)))) (\<lambda>direct.
       if direct then Some (Ret (direct_tunnel getaddrinfo src0 g es cd thost))
       else forward_tunnel getaddrinfo rn g es cd thost)"

section \<open>Lemmas\<close>

lemma run_tunnel_flow:
  assumes "peer_wf cd" "peer_wf sd"
  shows "\<exists>q. rl_server (run_tunnel es cd (Some sd) g) = Some q
    \<and> flow_inv cd sd (rl_client (run_tunnel es cd (Some sd) g)) q"
proof -
  have "tun_inv cd sd (tunnel es (Run cd sd))"
    using tunnel_reach_inv [OF tunnel_reach] assms by (simp add: flow_inv_def)
  then show ?thesis by (cases "tunnel es (Run cd sd)") (auto simp: run_tunnel_def)
qed

lemma parent_tunnel_407:
  assumes "request_line creds = Ret buf" "sd \<noteq> 0" "thost \<noteq> []" "peer_wf p"
    "so_data (p_in p) = reply_text d f @ the_ret (headers_text d2) @ rest"
    "reply_wf d f" "challenge_ok rn creds d chal olen m n" "response_wf d2" "rr_code d2 = 200"
  shows "\<exists>q. parent_tunnel getaddrinfo rn sd (Some p) (Some creds) g thost = Some (Ret (True, Some q, g))
    \<and> so_data (p_in q) = rest \<and> peer_wf q
    \<and> sk_out (p_out q) = sk_out (p_out p)
        @ the_ret (headers_text (connect_first (g_header_list g) thost buf))
        @ the_ret (headers_text (connect_second (g_header_list g) thost (take n m)))"
proof -
  from assms(4) have "sk_plan (p_out p) = []" "sock_wf (p_in p)" by (simp_all add: peer_wf_def)
  from prepare_http_connect_407 [OF assms(1-3) this assms(5-9), of getaddrinfo g] obtain r q where
    "prepare_http_connect getaddrinfo rn g sd p creds (Some thost) = Some (Ret (True, Some r))"
    "ar_fd r = sd" "ar_globals r = g" "ar_peer r = Some q" "so_data (p_in q) = rest" "sock_wf (p_in q)"
    "sk_plan (p_out q) = []" "sk_out (p_out q) = sk_out (p_out p)
        @ the_ret (headers_text (connect_first (g_header_list g) thost buf))
        @ the_ret (headers_text (connect_second (g_header_list g) thost (take n m)))" by blast
  then show ?thesis by (simp add: parent_tunnel_def caller_peer_def peer_wf_def)
qed

section \<open>Properties\<close>

text \<open>
  C17: a tunnel thread through the parent.  When the target is no exception, the parent answers the
  first request with an NTLM challenge and the second with a 200, then, however long the tunnel
  has been running, the parent was sent the two requests and after them exactly what was read
  from the client, in order, and the client exactly what the parent has sent after its replies.
\<close>

theorem tunnel_thread_forwards:
  assumes "noproxy_match noproxy (Some (target_host thost)) = Ret False"
    "proxy_connect getaddrinfo g (Some new_auth) = Ret ((sd, Some p), Some creds, g1)" "0 < sd"
    "request_line creds = Ret buf" "thost \<noteq> []" "peer_wf p" "peer_wf cd"
    "so_data (p_in p) = reply_text d f @ the_ret (headers_text d2) @ rest"
    "reply_wf d f" "challenge_ok rn creds d chal olen m n" "response_wf d2" "rr_code d2 = 200"
  shows "\<exists>r q. tunnel_thread getaddrinfo src0 rn noproxy g es cd thost = Some (Ret r) \<and> rl_server r = Some q
    \<and> sk_out (p_out q) @ so_data (p_in (rl_client r)) = sk_out (p_out p)
        @ the_ret (headers_text (connect_first (g_header_list g1) thost buf))
        @ the_ret (headers_text (connect_second (g_header_list g1) thost (take n m)))
        @ so_data (p_in cd)
    \<and> sk_out (p_out (rl_client r)) @ so_data (p_in q) = sk_out (p_out cd) @ rest"
proof -
  from parent_tunnel_407 [OF assms(4) _ assms(5,6,8-12), of sd getaddrinfo g1] assms(3) obtain q where
    q: "parent_tunnel getaddrinfo rn sd (Some p) (Some creds) g1 thost = Some (Ret (True, Some q, g1))"
    "so_data (p_in q) = rest" "peer_wf q" "sk_out (p_out q) = sk_out (p_out p)
        @ the_ret (headers_text (connect_first (g_header_list g1) thost buf))
        @ the_ret (headers_text (connect_second (g_header_list g1) thost (take n m)))" by auto
  have "tunnel_thread getaddrinfo src0 rn noproxy g es cd thost = Some (Ret (run_tunnel es cd (Some q) g1))"
    using assms(1-3) q(1) by (simp add: tunnel_thread_def forward_tunnel_def)
  with run_tunnel_flow [OF assms(7) q(3), of es g1] q(2,4) show ?thesis
    by (fastforce simp: flow_inv_def)
qed

text \<open>A client, and a parent that accepts the tunnel.\<close>

definition sample_parent :: peer where
  "sample_parent = sample_peer (reply_text sample_407 (By_length ''no'') @ the_ret (headers_text sample_200) @ ''data'')"

definition one_parent :: globals where
  "one_parent = no_globals\<lparr>g_parent_count := 1,
     g_parents := [\<lparr>pkey = 1, paux = Some \<lparr>px_hostname = ''p'', px_host = 1, px_port = 80, px_resolved = 1\<rparr>\<rparr>],
     g_connects := [(7, sample_parent)]\<rparr>"

lemma one_parent_connects:
  "\<exists>creds g1. proxy_connect (\<lambda>_. None) one_parent (Some new_auth) = Ret ((7, Some sample_parent), Some creds, g1)
    \<and> creds = new_auth \<and> g_header_list g1 = []"
proof -
  have "copy_auth new_auth new_auth True = Ret new_auth" by code_simp
  then show ?thesis
    by (simp add: proxy_connect_def Let_def one_parent_def no_globals_def connect_loop.simps parent_attempt_def
        so_connect_def invalidate_cache_def)
qed

lemma sample_parent_wf:
  "peer_wf sample_parent"
  "so_data (p_in sample_parent) = reply_text sample_407 (By_length ''no'') @ the_ret (headers_text sample_200) @ ''data''"
  by (simp_all add: peer_wf_def sample_parent_def)

theorem tunnel_thread_forwards_witness:
  "\<exists>r q. tunnel_thread (\<lambda>_. None) 0 sample_rnd [] one_parent [SelReady False, SelReady True] (sample_peer ''hello'') ''h:1''
       = Some (Ret r) \<and> rl_server r = Some q
     \<and> sk_out (p_out (rl_client r)) @ so_data (p_in q) = ''data''"
proof -
  from new_auth_request obtain buf where b: "request_line new_auth = Ret buf" by blast
  from sample_response obtain m n where ch: "challenge_ok sample_rnd new_auth sample_407 sample_chal 200 m n"
    using sample_407_wf(2) by blast
  from one_parent_connects obtain g1 where
    c: "proxy_connect (\<lambda>_. None) one_parent (Some new_auth) = Ret ((7, Some sample_parent), Some new_auth, g1)"
    by blast
  have p: "peer_wf sample_parent" "peer_wf (sample_peer ''hello'')"
    "so_data (p_in sample_parent) = reply_text sample_407 (By_length ''no'') @ the_ret (headers_text sample_200) @ ''data''"
    by (simp_all add: peer_wf_def sample_parent_def)
  have n: "noproxy_match [] (Some (target_host ''h:1'')) = Ret False" by simp
  from tunnel_thread_forwards [OF n c _ b _ p sample_407_wf(1) ch sample_200_wf] show ?thesis by fastforce
qed

text \<open>
  A tunnel thread around the parent.  When the host of the target is an exception, the only
  connection made is to the address the host resolves to, at the target's port, and the two ends
  are joined: nothing is sent but what is read at the other end, in order.
\<close>

theorem tunnel_thread_direct:
  assumes "noproxy_match noproxy (Some host) = Ret True" "CHR '':'' \<notin> set host"
    "so_resolv getaddrinfo src0 host = (True, addr)" "g_connects g = (sd, p) # cs" "0 < sd"
    "peer_wf p" "peer_wf cd"
  shows "\<exists>r q. tunnel_thread getaddrinfo src0 rn noproxy g es cd (host @ '':'' @ port) = Some (Ret r)
    \<and> rl_server r = Some q \<and> flow_inv cd p (rl_client r) q
    \<and> g_dialed (rl_globals r) = g_dialed g @ [(addr, atoi port)] \<and> g_connects (rl_globals r) = cs"
proof -
  let ?g = "g\<lparr>g_dialed := g_dialed g @ [(addr, atoi port)], g_connects := cs\<rparr>"
  have "target_host (host @ '':'' @ port) = host" "target_port (host @ '':'' @ port) = atoi port"
    using strchr_append [OF assms(2), of port] by (simp_all add: target_host_def target_port_def)
  with assms(1,3-5) have
    "tunnel_thread getaddrinfo src0 rn noproxy g es cd (host @ '':'' @ port) = Some (Ret (run_tunnel es cd (Some p) ?g))"
    by (simp add: tunnel_thread_def direct_tunnel_def host_connect_def so_connect_def Let_def)
  moreover have "rl_globals (run_tunnel es cd (Some p) ?g) = ?g"
    by (simp add: run_tunnel_def split: prod.split)
  ultimately show ?thesis using run_tunnel_flow [OF assms(7,6), of es ?g] by auto
qed

theorem tunnel_thread_direct_witness:
  "\<exists>r q. tunnel_thread (\<lambda>_. Some [Some 9]) 0 sample_rnd [\<lparr>pkey = 0, paux = Some ''h''\<rparr>]
       (no_globals\<lparr>g_connects := [(5, sample_peer ''data'')]\<rparr>) [SelReady True] (sample_peer ''hello'') (''h'' @ '':'' @ ''80'')
       = Some (Ret r) \<and> rl_server r = Some q \<and> g_dialed (rl_globals r) = [(9, 80)]"
proof -
  have "noproxy_match [\<lparr>pkey = 0, paux = Some ''h''\<rparr>] (Some ''h'') = Ret True"
    using fnmatch_plain [of "''h''" "''h''"] by (simp add: plain_def)
  moreover have "atoi ''80'' = 80" using atoi_show_nat [of 80] by (simp add: show_nat.simps)
  moreover have "peer_wf (sample_peer t)" for t by (simp add: peer_wf_def)
  moreover have "g_dialed no_globals = []" by (simp add: no_globals_def)
  ultimately show ?thesis
    using tunnel_thread_direct [of "[\<lparr>pkey = 0, paux = Some ''h''\<rparr>]" "''h''" "\<lambda>_. Some [Some 9]" 0 9
        "no_globals\<lparr>g_connects := [(5, sample_peer ''data'')]\<rparr>" 5 "sample_peer ''data''" "[]" "sample_peer ''hello''"
        sample_rnd "[SelReady True]" "''80''"]
    by (fastforce simp: so_resolv_def)
qed

end
