(* ===== verification/Socks5.thy ===== *)
theory Socks5
  imports Tunnels
begin

text \<open>
  The SOCKS5 server, socks5\_thread of main.c: the choice of a method, the login, the request, the
  target and the tunnel.  Every read must return all it asks for: a message that comes in pieces
  ends the session.  \<open>char\<close> is signed and an \<open>int\<close> is stored with its low byte first.
\<close>

section \<open>Phases\<close>

text \<open>A phase ends the session, or goes on with its result; the client's connection goes with it.\<close>

datatype 'a phase = Bail peer | Go 'a peer

definition rd :: "int \<Rightarrow> peer \<Rightarrow> int \<times> string \<times> peer" where
  "rd n cd = (case so_read n (p_in cd) of (r, d, s) \<Rightarrow> (r, d, cd\<lparr>p_in := s\<rparr>))"

definition bytes_text :: "nat list \<Rightarrow> string" where "bytes_text bs = map char_of bs"

abbreviation code_of :: "char \<Rightarrow> nat" where "code_of c \<equiv> of_char c"

text \<open>The first offered method of this number.\<close>

fun scan_method :: "nat \<Rightarrow> int \<Rightarrow> string \<Rightarrow> int" where
  "scan_method m found [] = found"
| "scan_method m found (a # auths) = (if code_of a = m then int m else scan_method m found auths)"

definition socks_method :: "bool \<Rightarrow> peer \<Rightarrow> int phase" where
  "socks_method open cd =
     (case rd 2 cd of (r, bs, cd1) \<Rightarrow>
        if r \<noteq> 2 \<or> code_of (bs ! 0) \<noteq> 5 then Bail cd1
        else let c = code_of (bs ! 1)
             in case rd (int c) cd1 of (r, auths, cd2) \<Rightarrow>
                  if r \<noteq> int c then Bail cd2
                  else let found = (if open then scan_method 0 (-1) auths else -1);
                           found' = (if found < 0 then scan_method 2 (-1) auths else found)
                       in if found' < 0 then Bail (pass_on (bytes_text [5, 0xFF]) cd2)
                          else Go found' (pass_on (bytes_text [5, nat found']) cd2))"

text \<open>
  User name and password.  The length of the password is read as a \<open>char\<close>: from 128 on it is
  negative, the buffer cannot be allocated or is written before its start.
\<close>

definition socks_login :: "hlist_t \<Rightarrow> peer \<Rightarrow> unit phase c_result" where
  "socks_login users cd =
     (case rd 2 cd of (r, bs, cd1) \<Rightarrow>
        if r \<noteq> 2 then Ret (Bail (pass_on (bytes_text [1, 0xFF]) cd1))
        else let c = code_of (bs ! 1)
             in case rd (int c + 1) cd1 of (r, uname, cd2) \<Rightarrow>
                  if r \<noteq> int c + 1 then Ret (Bail cd2)
                  else let plen = code_of (uname ! c)
                       in if plen \<ge> 128 then UB
                          else case rd (int plen) cd2 of (r, upass, cd3) \<Rightarrow>
                            if r \<noteq> int plen then Ret (Bail cd3)
                            else let tmp = hlist_get users (cstr_of (take c uname))
                                 in if hlist_count users = 0 \<or> tmp = Some (cstr_of upass)
                                    then Ret (Go () (pass_on (bytes_text [1, 0]) cd3))
                                    else Ret (Bail (pass_on (bytes_text [1, 0xFF]) cd3)))"

definition socks_reply :: "nat \<Rightarrow> string" where
  "socks_reply code = bytes_text [5, code, 0, 1, 0, 0, 0, 0, 0, 0]"

text \<open>A connect request to an IPv4 address, or (the result is true) to a name.\<close>

definition socks_request :: "peer \<Rightarrow> bool phase" where
  "socks_request cd =
     (case rd 4 cd of (r, bs, cd1) \<Rightarrow>
        if r \<noteq> 4 then Bail cd1
        else if code_of (bs ! 1) \<noteq> 1 \<or> (code_of (bs ! 3) \<noteq> 1 \<and> code_of (bs ! 3) \<noteq> 3)
        then Bail (pass_on (socks_reply 2) cd1)
        else Go (code_of (bs ! 3) = 3) cd1)"

definition dotted :: "string \<Rightarrow> string" where
  "dotted a = show_nat (code_of (a ! 0)) @ ''.'' @ show_nat (code_of (a ! 1)) @ ''.''
     @ show_nat (code_of (a ! 2)) @ ''.'' @ show_nat (code_of (a ! 3))"

text \<open>The buffer \<open>thost\<close> of MINIBUF\_SIZE with the address, and the port.\<close>

definition socks_target :: "bool \<Rightarrow> peer \<Rightarrow> (string \<times> int) phase c_result" where
  "socks_target dns cd =
     (let (r, l, cd1) = (if dns then rd 1 cd else (1, bytes_text [4], cd))
      in if r \<noteq> 1 then Ret (Bail cd1)
         else let c = int (code_of (l ! 0))
              in case rd c cd1 of (r, addr, cd2) \<Rightarrow>
                   if r \<noteq> c then Ret (Bail cd2)
                   else c_bind (if dns then c_bind (strlcpy zero_str (cstr_of addr) MINIBUF_SIZE) (\<lambda>(b, _). Ret b)
                                else Ret (dotted addr @ drop (length (dotted addr)) zero_str)) (\<lambda>thost.
                     case rd 2 cd2 of (r, p, cd3) \<Rightarrow>
                       if r \<noteq> 2 then Ret (Bail cd3)
                       else Ret (Go (thost, int (256 * code_of (p ! 0) + code_of (p ! 1))) cd3)))"

text \<open>The connection: whether it stands, its peer and the globals.\<close>

definition socks_connect ::
  "gai \<Rightarrow> u32 \<Rightarrow> rnd \<Rightarrow> string plist_t \<Rightarrow> globals \<Rightarrow> string \<Rightarrow> int \<Rightarrow> (bool \<times> peer option \<times> globals) c_prog" where
  "socks_connect getaddrinfo src0 rn noproxy g thost port =
     p_bind (Some (noproxy_match noproxy (Some (cstr_of thost)))) (\<lambda>direct.
       if direct then
         (case host_connect getaddrinfo src0 g (cstr_of thost) port of
            ((sd, q), g') \<Rightarrow> Some (Ret (sd \<ge> 0, q, g')))
       else
         p_bind (Some (c_bind (strlcat thost '':'' MINIBUF_SIZE) (\<lambda>(t, _).
                       strlcat t (show_int port) MINIBUF_SIZE))) (\<lambda>(thost', _).
         p_bind (Some (proxy_connect getaddrinfo g (Some new_auth))) (\<lambda>((sd, q), c, g1).
           if sd \<ge> 0 then parent_tunnel getaddrinfo rn sd q c g1 (cstr_of thost')
           else Some (Ret (False, None, g1)))))"

definition socks5_thread ::
  "gai \<Rightarrow> u32 \<Rightarrow> rnd \<Rightarrow> hlist_t \<Rightarrow> string plist_t \<Rightarrow> globals \<Rightarrow> sel list \<Rightarrow> peer \<Rightarrow> relay c_prog" where
  "socks5_thread getaddrinfo src0 rn users noproxy g es cd =
     (let bail = (\<lambda>c. Some (Ret \<lparr>rl_client = c, rl_server = None, rl_globals = g\<rparr>))
      in case socks_method (hlist_count users = 0) cd of
           Bail c \<Rightarrow> bail c
         | Go found cd1 \<Rightarrow>
             p_bind (Some (if found \<noteq> 0 then socks_login users cd1 else Ret (Go () cd1))) (\<lambda>login.
             case login of
               Bail c \<Rightarrow> bail c
             | Go _ cd2 \<Rightarrow>
                 (case socks_request cd2 of
                    Bail c \<Rightarrow> bail c
                  | Go dns cd3 \<Rightarrow>
                      p_bind (Some (socks_target dns cd3)) (\<lambda>target.
                      case target of
                        Bail c \<Rightarrow> bail c
                      | Go (thost, port) cd4 \<Rightarrow>
                          p_bind (socks_connect getaddrinfo src0 rn noproxy g thost port) (\<lambda>(ok, q, g').
                            let cd5 = pass_on (socks_reply (if ok then 0 else 1)) cd4
                            in Some (Ret (if ok then run_tunnel es cd5 q g'
                                          else \<lparr>rl_client = cd5, rl_server = q, rl_globals = g'\<rparr>)))))))"

section \<open>Lemmas\<close>

text \<open>A read takes its result off the stream.\<close>

lemma rd_split: "rd n cd = (r, d, cd') \<Longrightarrow> so_data (p_in cd) = d @ so_data (p_in cd')"
  by (auto simp: rd_def so_read_def so_data_def split: prod.splits list.splits if_splits)

lemma rd_full: "rd n cd = (n, d, cd') \<Longrightarrow> 0 \<le> n \<Longrightarrow> length d = nat n"
  by (auto simp: rd_def so_read_def split: prod.splits list.splits if_splits)

lemma rd_nil [simp]: "p_in (pass_on t cd) = p_in cd"
  by (simp add: pass_on_def)

lemma scan_method_found: "scan_method m (-1) auths = (if char_of m \<in> set auths then int m else -1)" if "m < 256"
  using that by (induction auths) auto

text \<open>The messages of the client.\<close>

definition greeting :: "string \<Rightarrow> string" where
  "greeting methods = bytes_text [5, length methods] @ methods"

definition login_msg :: "char \<Rightarrow> string \<Rightarrow> string \<Rightarrow> string" where
  "login_msg ver uname upass = ver # char_of (length uname) # uname @ char_of (length upass) # upass"

definition has_login :: "hlist_t \<Rightarrow> string \<Rightarrow> bool" where
  "has_login users data \<longleftrightarrow> (\<exists>methods ver uname upass rest.
     data = greeting methods @ login_msg ver uname upass @ rest \<and> char_of (2 :: nat) \<in> set methods
     \<and> length methods < 256 \<and> length uname < 256 \<and> length upass < 128
     \<and> hlist_get users (cstr_of uname) = Some (cstr_of upass))"

definition long_password :: "string \<Rightarrow> bool" where
  "long_password data \<longleftrightarrow> (\<exists>methods ver uname plen rest.
     data = greeting methods @ ver # char_of (length uname) # uname @ plen # rest
     \<and> char_of (2 :: nat) \<in> set methods \<and> length methods < 256 \<and> length uname < 256 \<and> 128 \<le> code_of plen)"

lemma list_2: "length d = 2 \<Longrightarrow> d = [d ! 0, d ! 1]"
  by (cases d; cases "tl d") auto

lemma list_snoc: "length d = Suc n \<Longrightarrow> d = take n d @ [d ! n]"
  by (metis lessI take_Suc_conv_app_nth take_all_iff order_refl)

lemma code_eq: "code_of c = n \<Longrightarrow> c = char_of n"
  by (metis char_of_char)

lemma socks_method_Go:
  assumes "socks_method open cd = Go found cd1"
  obtains methods where "so_data (p_in cd) = greeting methods @ so_data (p_in cd1)"
    "if found = 0 then open else char_of (2 :: nat) \<in> set methods" "length methods < 256"
proof -
  obtain r bs cda where 1: "rd 2 cd = (r, bs, cda)" by (cases "rd 2 cd")
  have a: "r = 2" "code_of (bs ! 0) = 5" using assms 1 by (auto simp: socks_method_def split: if_splits)
  define c where "c = code_of (bs ! 1)"
  obtain r2 auths cdb where 2: "rd (int c) cda = (r2, auths, cdb)" by (cases "rd (int c) cda")
  have b: "r2 = int c" using assms 1 2 a by (auto simp: socks_method_def Let_def c_def split: if_splits)
  from rd_full [of 2 cd bs cda] 1 a(1) have "length bs = 2" by simp
  with a(2) have bs: "bs = bytes_text [5, c]"
    using list_2 [of bs] code_eq [of "bs ! 0" 5] code_eq [of "bs ! 1" c] by (simp add: bytes_text_def c_def)
  from rd_full [of "int c" cda auths cdb] 2 b have len: "length auths = c" by simp
  have go: "(let found = (if open then scan_method 0 (-1) auths else -1);
      found' = (if found < 0 then scan_method 2 (-1) auths else found)
    in if found' < 0 then Bail (pass_on (bytes_text [5, 0xFF]) cdb)
       else Go found' (pass_on (bytes_text [5, nat found']) cdb)) = Go found cd1"
    using assms 1 2 a b by (simp add: socks_method_def Let_def c_def)
  then have "p_in cd1 = p_in cdb" by (auto simp: Let_def split: if_splits)
  moreover have "if found = 0 then open else char_of (2 :: nat) \<in> set auths"
    using go scan_method_found [of 2 auths] scan_method_found [of 0 auths]
    by (auto simp: Let_def split: if_splits)
  moreover have "c < 256" by (simp add: c_def nat_of_char_less_256)
  ultimately show thesis
    using that [of auths] rd_split [OF 1] rd_split [OF 2] len by (simp add: greeting_def bs)
qed

lemma socks_login_data:
  "case socks_login users cd of
     Ret (Go _ cd') \<Rightarrow> (\<exists>ver uname upass. so_data (p_in cd) = login_msg ver uname upass @ so_data (p_in cd')
       \<and> length uname < 256 \<and> length upass < 128 \<and> (users = [] \<or> hlist_get users (cstr_of uname) = Some (cstr_of upass)))
   | UB \<Rightarrow> (\<exists>ver uname plen rest. so_data (p_in cd) = ver # char_of (length uname) # uname @ plen # rest
       \<and> length uname < 256 \<and> 128 \<le> code_of plen)
   | Ret (Bail _) \<Rightarrow> True"
proof -
  obtain r bs cda where 1: "rd 2 cd = (r, bs, cda)" by (cases "rd 2 cd")
  show ?thesis
  proof (cases "r = 2")
    case False
    with 1 show ?thesis by (simp add: socks_login_def)
  next
    case True
    define c where "c = code_of (bs ! 1)"
    from rd_full [of 2 cd bs cda] 1 True have "length bs = 2" by simp
    then have bs: "bs = [bs ! 0, char_of c]"
      using list_2 [of bs] code_eq [of "bs ! 1" c] by (simp add: c_def)
    obtain r2 un cdb where 2: "rd (int c + 1) cda = (r2, un, cdb)" by (cases "rd (int c + 1) cda")
    show ?thesis
    proof (cases "r2 = int c + 1")
      case False
      with 1 2 True show ?thesis by (simp add: socks_login_def Let_def c_def)
    next
      case r2: True
      define plen where "plen = code_of (un ! c)"
      from rd_full [of "int c + 1" cda un cdb] 2 r2 have lu: "length un = Suc c" by (simp add: nat_add_distrib)
      then have un: "un = take c un @ [char_of plen]"
        using list_snoc [of un c] code_eq [of "un ! c" plen] by (simp add: plen_def)
      have ul: "length (take c un) < 256" by (simp add: lu c_def nat_of_char_less_256)
      have pl: "plen < 256" by (simp add: plen_def nat_of_char_less_256)
      have d1: "so_data (p_in cd) = bs ! 0 # char_of (length (take c un)) # take c un @ char_of plen # so_data (p_in cdb)"
        using rd_split [OF 1] rd_split [OF 2] lu bs un by (metis append_Cons append_Nil append_assoc length_take min.absorb2 le_add2 plus_1_eq_Suc)
      show ?thesis
      proof (cases "128 \<le> plen")
        case True
        have "128 \<le> code_of (char_of plen)" using True pl by simp
        have UB: "socks_login users cd = UB"
          using 1 2 \<open>r = 2\<close> r2 True by (simp add: socks_login_def Let_def c_def plen_def)
        show ?thesis unfolding UB c_result.case
          by (intro exI conjI, rule d1, rule ul) fact
      next
        case False
        obtain r3 up cdc where 3: "rd (int plen) cdb = (r3, up, cdc)" by (cases "rd (int plen) cdb")
        show ?thesis
        proof (cases "r3 = int plen")
          case True
          from rd_full [of "int plen" cdb up cdc] 3 True have "length up = plen" by simp
          with d1 rd_split [OF 3] have d2: "so_data (p_in cd) = login_msg (bs ! 0) (take c un) up @ so_data (p_in cdc)"
            by (simp add: login_msg_def)
          have L: "socks_login users cd = (if hlist_count users = 0
                \<or> hlist_get users (cstr_of (take c un)) = Some (cstr_of up)
              then Ret (Go () (pass_on (bytes_text [1, 0]) cdc)) else Ret (Bail (pass_on (bytes_text [1, 0xFF]) cdc)))"
            using 1 2 3 \<open>r = 2\<close> r2 False True by (simp add: socks_login_def Let_def c_def plen_def)
          have up: "length up < 128" using \<open>length up = plen\<close> False by simp
          show ?thesis
          proof (cases "users = [] \<or> hlist_get users (cstr_of (take c un)) = Some (cstr_of up)")
            case ok: True
            then have S: "socks_login users cd = Ret (Go () (pass_on (bytes_text [1, 0]) cdc))"
              using L by auto
            show ?thesis unfolding S c_result.case phase.case rd_nil
              by (intro exI conjI, rule d2, rule ul, rule up, rule ok)
          next
            case False
            then have "hlist_count users \<noteq> 0" by simp
            with False L show ?thesis by simp
          qed
        qed (use 1 2 3 \<open>r = 2\<close> r2 False in \<open>simp add: socks_login_def Let_def c_def plen_def\<close>)
      qed
    qed
  qed
qed

text \<open>Reads that find a whole message at the head of a segment.\<close>

definition with_in :: "string list \<Rightarrow> peer \<Rightarrow> peer" where
  "with_in segs cd = cd\<lparr>p_in := (p_in cd)\<lparr>so_segs := segs\<rparr>\<rparr>"

lemma rd_seg:
  assumes "so_segs (p_in cd) = (a @ b) # ds" "n = int (length a)"
  shows "rd n cd = (n, a, with_in (if b = [] then ds else b # ds) cd)"
  using assms by (simp add: rd_def so_read_def with_in_def)

lemma with_in_simps [simp]:
  "so_segs (p_in (with_in x cd)) = x" "with_in x (with_in y cd) = with_in x cd"
  "p_out (with_in x cd) = p_out cd" "so_err (p_in (with_in x cd)) = so_err (p_in cd)"
  "pass_on t (with_in x cd) = with_in x (pass_on t cd)"
  by (simp_all add: with_in_def pass_on_def)

lemma socks_method_offer:
  assumes "so_segs (p_in cd) = greeting methods # segs" "length methods < 256"
    "m = (if open \<and> char_of (0 :: nat) \<in> set methods then 0 else 2)" "char_of m \<in> set methods"
  shows "socks_method open cd = Go (int m) (pass_on (bytes_text [5, m]) (with_in segs cd))"
proof -
  have "so_segs (p_in cd) = (bytes_text [5, length methods] @ methods) # segs"
    using assms(1) by (simp add: greeting_def)
  note 1 = rd_seg [OF this, of 2]
  have "methods \<noteq> []" using assms(4) by auto
  then have r1: "rd 2 cd = (2, bytes_text [5, length methods], with_in (methods # segs) cd)"
    using 1 by (simp add: bytes_text_def)
  have r2: "rd (int (length methods)) (with_in (methods # segs) cd) = (int (length methods), methods, with_in segs cd)"
    using rd_seg [of "with_in (methods # segs) cd" methods "[]" segs] by simp
  have c: "code_of (bytes_text [5, length methods] ! 0) = 5" "code_of (bytes_text [5, length methods] ! 1) = length methods"
    using assms(2) by (simp_all add: bytes_text_def)
  show ?thesis unfolding socks_method_def r1 prod.case c
    using assms(3,4) r2 scan_method_found [of 2 methods] scan_method_found [of 0 methods]
    by (simp add: Let_def split: if_splits)
qed

text \<open>The request for a name, the buffer it leaves, and the target the parent is asked for.\<close>

definition name_request :: "string \<Rightarrow> nat \<Rightarrow> string" where
  "name_request host port = bytes_text [5, 1, 0, 3, length host] @ host @ bytes_text [port div 256, port mod 256]"

definition asked_for :: "string \<Rightarrow> nat \<Rightarrow> string" where
  "asked_for host port = take 49 (take 49 (take 49 host @ '':'') @ show_nat port)"

lemma socks_request_name:
  "socks_request (with_in (name_request host port # segs) cd) =
     Go True (with_in ((char_of (length host) # host @ bytes_text [port div 256, port mod 256]) # segs) cd)"
proof -
  have "rd 4 (with_in (name_request host port # segs) cd) =
      (4, bytes_text [5, 1, 0, 3], with_in ((char_of (length host) # host @ bytes_text [port div 256, port mod 256]) # segs) cd)"
    using rd_seg [of "with_in (name_request host port # segs) cd" "bytes_text [5, 1, 0, 3]"] by (simp add: name_request_def bytes_text_def)
  then show ?thesis by (simp add: socks_request_def bytes_text_def)
qed

lemma socks_target_name:
  assumes "length host < 256" "port < 65536" "NUL \<notin> set host"
  shows "\<exists>thost. socks_target True (with_in ((char_of (length host) # host @ bytes_text [port div 256, port mod 256]) # segs) cd)
      = Ret (Go (thost, int port) (with_in segs cd)) \<and> cstr_of thost = take 49 host \<and> length thost = 50"
proof -
  let ?p = "bytes_text [port div 256, port mod 256]"
  have r1: "rd 1 (with_in ((char_of (length host) # host @ ?p) # segs) cd) =
      (1, [char_of (length host)], with_in ((host @ ?p) # segs) cd)"
    using rd_seg [of "with_in ((char_of (length host) # host @ ?p) # segs) cd" "[char_of (length host)]" "host @ ?p" segs 1]
    by (simp add: bytes_text_def)
  have r2: "rd (int (length host)) (with_in ((host @ ?p) # segs) cd) = (int (length host), host, with_in (?p # segs) cd)"
    using rd_seg [of "with_in ((host @ ?p) # segs) cd" host ?p segs] by (simp add: bytes_text_def)
  have r3: "rd 2 (with_in (?p # segs) cd) = (2, ?p, with_in segs cd)"
    using rd_seg [of "with_in (?p # segs) cd" ?p "[]" segs] by (simp add: bytes_text_def)
  have pt: "256 * code_of (?p ! 0) + code_of (?p ! 1) = port" using assms(2) by (simp add: bytes_text_def)
  from strlcpy_cstr [of MINIBUF_SIZE zero_str host] assms(3) obtain b where
    "strlcpy zero_str host MINIBUF_SIZE = Ret (b, length host)" "length b = 50" "cstr_of b = take 49 host"
    by (auto simp: zero_str_def)
  then show ?thesis using r1 r2 r3 pt assms(1,3) by (simp add: socks_target_def cstr_of_id)
qed

lemma NUL_in_short: "length (cstr_of b) < length b \<Longrightarrow> NUL \<in> set b"
  by (metis cstr_of_id less_irrefl_nat)

lemma socks_connect_407:
  assumes "cstr_of thost = take 49 host" "length thost = 50"
    "noproxy_match noproxy (Some (take 49 host)) = Ret False"
    "proxy_connect getaddrinfo g (Some new_auth) = Ret ((sd, Some p), Some creds, g1)" "0 < sd"
    "parent_tunnel getaddrinfo rn sd (Some p) (Some creds) g1 (asked_for host port) = t"
  shows "socks_connect getaddrinfo src0 rn noproxy g thost (int port) = t"
proof -
  have n1: "NUL \<in> set (take 50 thost)" using assms(1,2) by (simp add: NUL_in_short)
  from strlcat_cstr [OF _ n1, of "'':''"] assms(1,2) obtain b where
    b: "strlcat thost '':'' MINIBUF_SIZE = Ret (b, length (take 49 host) + 1)" "length b = 50"
    "cstr_of b = take 49 (take 49 host @ '':'')" by auto
  have n2: "NUL \<in> set (take 50 b)" using b(2,3) by (simp add: NUL_in_short)
  have "NUL \<notin> set (show_nat port)" using show_nat_noblank by blast
  from strlcat_cstr [OF _ n2 this] b(2,3) obtain b' where
    "strlcat b (show_nat port) MINIBUF_SIZE = Ret (b', length (cstr_of b) + length (show_nat port))"
    "cstr_of b' = asked_for host port" by (auto simp: asked_for_def)
  with b(1) assms(1,3-6) show ?thesis by (simp add: socks_connect_def show_int_def)
qed

text \<open>A session without a login that ends in a tunnel through the parent.\<close>

lemma socks5_name_tunnel:
  assumes "so_segs (p_in cd) = greeting methods # name_request host port # segs" "length methods < 256"
    "char_of (0 :: nat) \<in> set methods" "length host < 256" "port < 65536" "NUL \<notin> set host" "host \<noteq> []"
    "noproxy_match noproxy (Some (take 49 host)) = Ret False"
    "proxy_connect getaddrinfo g (Some new_auth) = Ret ((sd, Some p), Some creds, g1)" "0 < sd"
    "request_line creds = Ret buf" "peer_wf p" "peer_wf cd"
    "so_data (p_in p) = reply_text d f @ the_ret (headers_text d2) @ rest"
    "reply_wf d f" "challenge_ok rn creds d chal olen m n" "response_wf d2" "rr_code d2 = 200"
    "thost = asked_for host port"
  shows "\<exists>r q. socks5_thread getaddrinfo src0 rn [] noproxy g es cd = Some (Ret r) \<and> rl_server r = Some q
    \<and> sk_out (p_out q) @ so_data (p_in (rl_client r)) = sk_out (p_out p)
        @ the_ret (headers_text (connect_first (g_header_list g1) thost buf))
        @ the_ret (headers_text (connect_second (g_header_list g1) thost (take n m)))
        @ concat segs
    \<and> sk_out (p_out (rl_client r)) @ so_data (p_in q) =
        sk_out (p_out cd) @ bytes_text [5, 0] @ socks_reply 0 @ rest"
proof -
  from socks_method_offer [OF assms(1,2), of 0 True] assms(3)
  have M: "socks_method True cd = Go 0 (with_in (name_request host port # segs) (pass_on (bytes_text [5, 0]) cd))" by simp
  from socks_target_name [OF assms(4-6)] obtain th where
    T: "socks_target True (with_in ((char_of (length host) # host @ bytes_text [port div 256, port mod 256]) # segs)
        (pass_on (bytes_text [5, 0]) cd)) = Ret (Go (th, int port) (with_in segs (pass_on (bytes_text [5, 0]) cd)))"
    "cstr_of th = take 49 host" "length th = 50" by blast
  have "thost \<noteq> []" using assms(7,19) by (cases host) (auto simp: asked_for_def)
  from parent_tunnel_407 [OF assms(11) _ this assms(12,14-18), of sd getaddrinfo g1] assms(10) obtain q where
    q: "parent_tunnel getaddrinfo rn sd (Some p) (Some creds) g1 thost = Some (Ret (True, Some q, g1))"
    "so_data (p_in q) = rest" "peer_wf q" "sk_out (p_out q) = sk_out (p_out p)
        @ the_ret (headers_text (connect_first (g_header_list g1) thost buf))
        @ the_ret (headers_text (connect_second (g_header_list g1) thost (take n m)))" by auto
  from socks_connect_407 [OF T(2,3) assms(8-10) q(1) [unfolded assms(19)]]
  have C: "socks_connect getaddrinfo src0 rn noproxy g th (int port) = Some (Ret (True, Some q, g1))" .
  define cd' where "cd' = pass_on (socks_reply 0) (with_in segs (pass_on (bytes_text [5, 0]) cd))"
  have "socks5_thread getaddrinfo src0 rn [] noproxy g es cd = Some (Ret (run_tunnel es cd' (Some q) g1))"
    using M T(1) C by (simp add: socks5_thread_def Let_def socks_request_name cd'_def del: with_in_simps)
  moreover have "peer_wf cd'" "so_data (p_in cd') = concat segs"
    "sk_out (p_out cd') = sk_out (p_out cd) @ bytes_text [5, 0] @ socks_reply 0"
    using assms(1,13)
    by (auto simp: cd'_def peer_wf_def sock_wf_def so_data_def with_in_def pass_on_def so_write_ideal)
  ultimately show ?thesis using run_tunnel_flow [OF _ q(3), of cd' es g1] q(2,4)
    by (fastforce simp: flow_inv_def)
qed

section \<open>Properties\<close>

text \<open>
  C18: no connection without a login.  When a list of users is configured, a client for which any
  connection is attempted, in whatever way its data arrives, has offered the login method and sent
  the name of a user of the list with that user's password, each cut at a NUL; without these the
  session ends with the globals untouched, or in undefined behaviour on a password of 128 bytes or
  more.
\<close>

theorem socks5_requires_login:
  assumes "users \<noteq> []"
  shows "case socks5_thread getaddrinfo src0 rn users noproxy g es cd of
      Some (Ret r) \<Rightarrow> has_login users (so_data (p_in cd)) \<or> rl_globals r = g \<and> rl_server r = None
    | Some UB \<Rightarrow> has_login users (so_data (p_in cd)) \<or> long_password (so_data (p_in cd))
    | None \<Rightarrow> has_login users (so_data (p_in cd))"
proof (cases "socks_method False cd")
  case (Bail c)
  with assms show ?thesis by (simp add: socks5_thread_def)
next
  case (Go found cd1)
  from socks_method_Go [OF this] obtain methods where
    m: "so_data (p_in cd) = greeting methods @ so_data (p_in cd1)"
    "if found = 0 then False else char_of (2 :: nat) \<in> set methods" "length methods < 256" .
  from m(2) have found: "found \<noteq> 0" "char_of (2 :: nat) \<in> set methods" by presburger+
  show ?thesis
  proof (cases "socks_login users cd1")
    case UB
    with socks_login_data [of cd1 users] obtain ver uname plen rest where
      "so_data (p_in cd1) = ver # char_of (length uname) # uname @ plen # rest" "length uname < 256" "128 \<le> code_of plen"
      by auto
    with m(1,3) found(2) have "long_password (so_data (p_in cd))" unfolding long_password_def by metis
    with UB Go found(1) assms show ?thesis by (simp add: socks5_thread_def Let_def)
  next
    case (Ret ph)
    show ?thesis
    proof (cases ph)
      case (Bail c)
      with Ret Go found(1) assms show ?thesis by (simp add: socks5_thread_def Let_def)
    next
      case (Go u cd2)
      with Ret socks_login_data [of cd1 users] assms obtain ver uname upass where
        "so_data (p_in cd1) = login_msg ver uname upass @ so_data (p_in cd2)" "length uname < 256" "length upass < 128"
        "hlist_get users (cstr_of uname) = Some (cstr_of upass)" by auto
      with m(1,3) found(2) have "has_login users (so_data (p_in cd))" unfolding has_login_def by metis
      then show ?thesis by (simp split: option.split c_result.split)
    qed
  qed
qed

theorem socks5_requires_login_witness:
  "case socks5_thread (\<lambda>_. None) 0 sample_rnd [\<lparr>hkey = ''u'', hvalue = ''p''\<rparr>] [] no_globals []
      (sample_peer (bytes_text [5, 1, 0])) of
      Some (Ret r) \<Rightarrow> rl_globals r = no_globals \<and> rl_server r = None
    | _ \<Rightarrow> False"
proof -
  have "\<not> has_login u (bytes_text [5, 1, 0])" "\<not> long_password (bytes_text [5, 1, 0])" for u
    by (auto simp: has_login_def long_password_def greeting_def login_msg_def bytes_text_def)
  with socks5_requires_login [where users = "[\<lparr>hkey = ''u'', hvalue = ''p''\<rparr>]"
      and getaddrinfo = "\<lambda>_. None" and ?src0.0 = 0 and rn = sample_rnd and noproxy = "[]" and g = no_globals
      and es = "[]" and cd = "sample_peer (bytes_text [5, 1, 0])"]
  show ?thesis by (auto split: option.splits c_result.splits)
qed

text \<open>
  A long password breaks out of the buffer.  A client that offers the login method and
  announces a password of 128 bytes or more, before it has sent any of it and whether or not its
  name is on the list, takes the program into undefined behaviour.
\<close>

theorem socks5_long_password:
  assumes "so_segs (p_in cd) = greeting methods # (ver # char_of (length uname) # uname @ [plen]) # segs"
    "char_of (2 :: nat) \<in> set methods" "if users = [] then char_of (0 :: nat) \<notin> set methods else True"
    "length methods < 256" "length uname < 256" "128 \<le> code_of plen"
  shows "socks5_thread getaddrinfo src0 rn users noproxy g es cd = Some UB"
proof -
  let ?seg = "ver # char_of (length uname) # uname @ [plen]"
  from socks_method_offer [OF assms(1,4), of 2 "users = []"] assms(2,3)
  have "socks_method (users = []) cd = Go 2 (pass_on (bytes_text [5, 2]) (with_in (?seg # segs) cd))"
    by (auto split: if_splits)
  moreover have "socks_login users (with_in (?seg # segs) d) = UB" for d
  proof -
    have r1: "rd 2 (with_in (?seg # segs) d) = (2, [ver, char_of (length uname)], with_in ((uname @ [plen]) # segs) d)"
      using rd_seg [of "with_in (?seg # segs) d" "[ver, char_of (length uname)]" "uname @ [plen]" segs 2] by simp
    have r2: "rd (int (length uname) + 1) (with_in ((uname @ [plen]) # segs) d) =
        (int (length uname) + 1, uname @ [plen], with_in segs d)"
      using rd_seg [of "with_in ((uname @ [plen]) # segs) d" "uname @ [plen]" "[]" segs] by (simp add: add.commute)
    have c: "code_of ([ver, char_of (length uname)] ! 1) = length uname" using assms(5) by simp
    show ?thesis unfolding socks_login_def r1 prod.case c using r2 assms(6) by (simp add: Let_def)
  qed
  ultimately show ?thesis by (simp add: socks5_thread_def Let_def)
qed

theorem socks5_long_password_witness:
  "socks5_thread (\<lambda>_. None) 0 sample_rnd [\<lparr>hkey = ''u'', hvalue = ''p''\<rparr>] [] no_globals []
     ((sample_peer [])\<lparr>p_in := \<lparr>so_segs = [bytes_text [5, 1, 2], bytes_text [1, 0, 200]], so_err = False\<rparr>\<rparr>) = Some UB"
  by (rule socks5_long_password [of _ "bytes_text [2]" "char_of (1 :: nat)" "[]" "char_of (200 :: nat)" "[]"])
    (simp_all add: greeting_def bytes_text_def)

text \<open>
  A SOCKS5 connection.  Without a list of users, a client that offers the method without
  authentication and asks for a name and a port gets a tunnel through the parent, when the parent
  accepts: the parent is asked, with the NTLM handshake, for this name and this port, the client
  is sent the two positive answers, and then each end exactly what the other sends.  The name and
  the port must fit the buffer of 50 characters.
\<close>

theorem socks5_connect:
  assumes "so_segs (p_in cd) = greeting methods # name_request host port # segs" "length methods < 256"
    "char_of (0 :: nat) \<in> set methods" "port < 65536" "NUL \<notin> set host" "host \<noteq> []"
    "length (host @ '':'' @ show_nat port) < MINIBUF_SIZE"
    "noproxy_match noproxy (Some host) = Ret False"
    "proxy_connect getaddrinfo g (Some new_auth) = Ret ((sd, Some p), Some creds, g1)" "0 < sd"
    "request_line creds = Ret buf" "peer_wf p" "peer_wf cd"
    "so_data (p_in p) = reply_text d f @ the_ret (headers_text d2) @ rest"
    "reply_wf d f" "challenge_ok rn creds d chal olen m n" "response_wf d2" "rr_code d2 = 200"
  shows "\<exists>r q. socks5_thread getaddrinfo src0 rn [] noproxy g es cd = Some (Ret r) \<and> rl_server r = Some q
    \<and> sk_out (p_out q) @ so_data (p_in (rl_client r)) = sk_out (p_out p)
        @ the_ret (headers_text (connect_first (g_header_list g1) (host @ '':'' @ show_nat port) buf))
        @ the_ret (headers_text (connect_second (g_header_list g1) (host @ '':'' @ show_nat port) (take n m)))
        @ concat segs
    \<and> sk_out (p_out (rl_client r)) @ so_data (p_in q) =
        sk_out (p_out cd) @ bytes_text [5, 0] @ socks_reply 0 @ rest"
proof -
  have "take 49 host = host" "length host < 256" "host @ '':'' @ show_nat port = asked_for host port"
    using assms(7) by (simp_all add: asked_for_def)
  with assms socks5_name_tunnel [OF assms(1-3) _ assms(4-6)] show ?thesis by simp
qed

text \<open>
  A long name is cut.  When the requested name has 49 characters or more, the parent is asked
  for its first 49 characters, without a port, and the client is told that it has the connection
  it asked for.
\<close>

theorem socks5_name_cut:
  assumes "so_segs (p_in cd) = greeting methods # name_request host port # segs" "length methods < 256"
    "char_of (0 :: nat) \<in> set methods" "port < 65536" "NUL \<notin> set host"
    "49 \<le> length host" "length host < 256"
    "noproxy_match noproxy (Some (take 49 host)) = Ret False"
    "proxy_connect getaddrinfo g (Some new_auth) = Ret ((sd, Some p), Some creds, g1)" "0 < sd"
    "request_line creds = Ret buf" "peer_wf p" "peer_wf cd"
    "so_data (p_in p) = reply_text d f @ the_ret (headers_text d2) @ rest"
    "reply_wf d f" "challenge_ok rn creds d chal olen m n" "response_wf d2" "rr_code d2 = 200"
  shows "\<exists>r q. socks5_thread getaddrinfo src0 rn [] noproxy g es cd = Some (Ret r) \<and> rl_server r = Some q
    \<and> sk_out (p_out q) @ so_data (p_in (rl_client r)) = sk_out (p_out p)
        @ the_ret (headers_text (connect_first (g_header_list g1) (take 49 host) buf))
        @ the_ret (headers_text (connect_second (g_header_list g1) (take 49 host) (take n m)))
        @ concat segs
    \<and> sk_out (p_out (rl_client r)) @ so_data (p_in q) =
        sk_out (p_out cd) @ bytes_text [5, 0] @ socks_reply 0 @ rest"
proof -
  have "take 49 host = asked_for host port" "host \<noteq> []"
    using assms(6) by (auto simp: asked_for_def)
  with assms socks5_name_tunnel [OF assms(1-3,7,4,5)] show ?thesis by simp
qed

definition sample_client :: "string \<Rightarrow> peer" where
  "sample_client host = (sample_peer [])\<lparr>p_in :=
     \<lparr>so_segs = [greeting (bytes_text [0]), name_request host 80, ''hello''], so_err = False\<rparr>\<rparr>"

lemma sample_client_facts:
  "so_segs (p_in (sample_client host)) = greeting (bytes_text [0]) # name_request host 80 # [''hello'']"
  "peer_wf (sample_client host)" "char_of (0 :: nat) \<in> set (bytes_text [0])" "length (bytes_text [0]) < 256"
  by (simp_all add: sample_client_def peer_wf_def sock_wf_def greeting_def name_request_def bytes_text_def)

theorem socks5_connect_witness:
  "\<exists>r q. socks5_thread (\<lambda>_. None) 0 sample_rnd [] [] one_parent [SelReady True] (sample_client ''h'') = Some (Ret r)
    \<and> rl_server r = Some q
    \<and> sk_out (p_out (rl_client r)) @ so_data (p_in q) = bytes_text [5, 0] @ socks_reply 0 @ ''data''"
proof -
  from new_auth_request obtain buf where b: "request_line new_auth = Ret buf" by blast
  from sample_response obtain m n where ch: "challenge_ok sample_rnd new_auth sample_407 sample_chal 200 m n"
    using sample_407_wf(2) by blast
  from one_parent_connects obtain g1 where
    c: "proxy_connect (\<lambda>_. None) one_parent (Some new_auth) = Ret ((7, Some sample_parent), Some new_auth, g1)"
    by blast
  note f = sample_client_facts
  have l: "length (''h'' @ '':'' @ show_nat 80) < MINIBUF_SIZE" by (simp add: show_nat.simps)
  have o: "sk_out (p_out (sample_client x)) = []" for x by (simp add: sample_client_def)
  have k: "(80 :: nat) < 65536" "NUL \<notin> set ''h''" "''h'' \<noteq> []" "noproxy_match [] (Some ''h'') = Ret False" "(0 :: int) < 7"
    by simp_all
  from socks5_connect [OF f(1,4,3) k(1-3) l k(4) c k(5) b sample_parent_wf(1) f(2) sample_parent_wf(2)
      sample_407_wf(1) ch sample_200_wf, of 0 "[SelReady True]"]
  show ?thesis unfolding o append_Nil by blast
qed

theorem socks5_name_cut_witness:
  "\<exists>r q. socks5_thread (\<lambda>_. None) 0 sample_rnd [] [] one_parent [] (sample_client (replicate 60 CHR ''h'')) = Some (Ret r)
    \<and> rl_server r = Some q
    \<and> sk_out (p_out (rl_client r)) @ so_data (p_in q) = bytes_text [5, 0] @ socks_reply 0 @ ''data''"
proof -
  from new_auth_request obtain buf where b: "request_line new_auth = Ret buf" by blast
  from sample_response obtain m n where ch: "challenge_ok sample_rnd new_auth sample_407 sample_chal 200 m n"
    using sample_407_wf(2) by blast
  from one_parent_connects obtain g1 where
    c: "proxy_connect (\<lambda>_. None) one_parent (Some new_auth) = Ret ((7, Some sample_parent), Some new_auth, g1)"
    by blast
  let ?h = "replicate 60 CHR ''h''"
  note f = sample_client_facts
  have l: "NUL \<notin> set ?h" "49 \<le> length ?h" "length ?h < 256" by (simp_all only: length_replicate set_replicate_conv_if) auto
  have o: "sk_out (p_out (sample_client x)) = []" for x by (simp add: sample_client_def)
  have k: "(80 :: nat) < 65536" "noproxy_match [] (Some (take 49 ?h)) = Ret False" "(0 :: int) < 7"
    by simp_all
  from socks5_name_cut [OF f(1,4,3) k(1) l k(2) c k(3) b sample_parent_wf(1) f(2) sample_parent_wf(2)
      sample_407_wf(1) ch sample_200_wf, of 0 "[]"]
  show ?thesis unfolding o append_Nil by blast
qed

end
