(* ===== verification/Conversation.thy ===== *)
theory Conversation
  imports Tunnels
begin

text \<open>
  What the request loops of direct.c and forward.c share: messages and bodies on the connections to
  the client and the server, and the ways a step of such a loop can end.
\<close>

section \<open>Messages on a connection\<close>

definition peer_recv :: "peer \<Rightarrow> rr_data_s \<Rightarrow> (bool \<times> rr_data_s \<times> peer) c_prog" where
  "peer_recv p d = p_bind (headers_recv (p_in p) d) (\<lambda>(ok, d', s). Some (Ret (ok, d', p\<lparr>p_in := s\<rparr>)))"

definition peer_send :: "peer \<Rightarrow> rr_data_s \<Rightarrow> (bool \<times> peer) c_prog" where
  "peer_send p d = p_bind (Some (headers_send (p_out p) d)) (\<lambda>(ok, k). Some (Ret (ok, p\<lparr>p_out := k\<rparr>)))"

definition peer_drop :: "peer \<Rightarrow> rr_data_s \<Rightarrow> (bool \<times> peer) c_prog" where
  "peer_drop p d = p_bind (http_body_drop (p_in p) (Some d)) (\<lambda>(ok, s, _). Some (Ret (ok, p\<lparr>p_in := s\<rparr>)))"

text \<open>\<open>http_body_send\<close> from one connection to the other.\<close>

definition body_relay :: "peer \<Rightarrow> peer \<Rightarrow> rr_data_s \<Rightarrow> rr_data_s \<Rightarrow> (bool \<times> peer \<times> peer) c_prog" where
  "body_relay src dst request response =
     p_bind (http_body_send (Some (p_out dst)) (p_in src) (Some request) (Some response)) (\<lambda>(ok, s, k).
       Some (Ret (ok, src\<lparr>p_in := s\<rparr>, dst\<lparr>p_out := the k\<rparr>)))"

text \<open>A request and the head of its reply, received into a reset structure; \<open>None\<close> on failure.\<close>

definition exchange :: "peer \<Rightarrow> rr_data_s \<Rightarrow> rr_data_s \<Rightarrow> (rr_data_s option \<times> peer) c_prog" where
  "exchange p request auth =
     p_bind (peer_send p request) (\<lambda>(ok, p1).
       if \<not> ok then Some (Ret (None, p1))
       else p_bind (peer_recv p1 (the (reset_rr_data (Some auth)))) (\<lambda>(ok, reply, p2).
              Some (Ret (if ok then Some reply else None, p2))))"

section \<open>Steps\<close>

text \<open>What a thread's function returns: NULL, -1, or the request its caller has to decide on.\<close>

datatype thread_ret = Ret_null | Ret_stop | Ret_request rr_data_s

text \<open>The two connections, the credentials of the thread and the globals.\<close>

record conv =
  cv_client :: peer
  cv_server :: peer
  cv_creds :: auth_s
  cv_globals :: globals

text \<open>A step of the loop goes on with a value, or the function ends.\<close>

datatype 'a step_result = Cont 'a conv | Leave thread_ret conv

text \<open>A page for the client, after which the function ends.\<close>

definition leave_page :: "string \<Rightarrow> conv \<Rightarrow> 'a step_result" where
  "leave_page pg cv = Leave Ret_stop (cv\<lparr>cv_client := pass_on pg (cv_client cv)\<rparr>)"

section \<open>Lemmas\<close>

text \<open>A peer some of whose data has been read (\<open>rest\<close> is left) and that was sent \<open>w\<close>.\<close>

definition moved :: "peer \<Rightarrow> string \<Rightarrow> string \<Rightarrow> peer \<Rightarrow> bool" where
  "moved p rest w p' \<longleftrightarrow> peer_wf p' \<and> so_data (p_in p') = rest \<and> sk_out (p_out p') = sk_out (p_out p) @ w"

lemma moved_wf: "moved p rest w p' \<Longrightarrow> peer_wf p'"
  by (simp add: moved_def)

lemma moved_trans: "moved p r1 w1 p1 \<Longrightarrow> moved p1 r2 w2 p2 \<Longrightarrow> moved p r2 (w1 @ w2) p2"
  by (simp add: moved_def)

lemma moved_data: "moved p rest w p' \<Longrightarrow> so_data (p_in p') = rest"
  by (simp add: moved_def)

lemma moved_out: "moved p rest w p' \<Longrightarrow> sk_out (p_out p') = sk_out (p_out p) @ w"
  by (simp add: moved_def)

lemma moved_pass_on: "peer_wf p \<Longrightarrow> moved p (so_data (p_in p)) t (pass_on t p)"
  by (simp add: moved_def pass_on_def peer_wf_def so_write_ideal)

lemma peer_recv_reply:
  assumes "response_wf d" "peer_wf p" "so_data (p_in p) = the_ret (headers_text d) @ r"
  shows "\<exists>p'. peer_recv p new_rr_data = Some (Ret (True, received d, p')) \<and> moved p r [] p'
    \<and> so_err (p_in p') = so_err (p_in p)"
proof -
  from assms(2) have "sock_wf (p_in p)" by (simp add: peer_wf_def)
  from headers_recv_reply [OF assms(1) this assms(3)] obtain s where
    "headers_recv (p_in p) new_rr_data = Some (Ret (True, received d, s))" "so_data s = r" "sock_wf s"
    "so_err s = so_err (p_in p)" by blast
  with assms(2) show ?thesis by (simp add: peer_recv_def moved_def peer_wf_def)
qed

lemma peer_send_text:
  assumes "headers_text d = Ret t" "- (2 ^ 31) \<le> rr_code d" "rr_code d < 2 ^ 31" "peer_wf p"
  shows "\<exists>p'. peer_send p d = Some (Ret (True, p')) \<and> moved p (so_data (p_in p)) t p'
    \<and> so_err (p_in p') = so_err (p_in p)"
  using headers_send_ideal [OF assms(1-3), of "p_out p"] assms(4)
  by (simp add: peer_send_def moved_def peer_wf_def)

text \<open>A pending body that is not delimited by the end of the stream is dropped.\<close>

lemma peer_drop_frame:
  assumes "rr_empty d = 0" "frame_ok (rr_headers d) (no_body False (rr_code d)) f" "\<not> frame_last f"
    "peer_wf p" "so_data (p_in p) = frame_text f @ r"
  shows "\<exists>p'. peer_drop p d = Some (Ret (True, p')) \<and> moved p r [] p' \<and> so_err (p_in p') = so_err (p_in p)"
proof -
  from assms(4) have w: "sock_wf (p_in p)" by (simp add: peer_wf_def)
  have l: "if frame_last f then r = [] \<and> \<not> so_err (p_in p) else True" using assms(3) by simp
  from body_transfer_frame [OF assms(2) w _ assms(5) l, of None] obtain s where
    "http_body_drop (p_in p) (Some d) = Some (Ret (True, s, None))" "so_data s = r" "sock_wf s"
    "so_err s = so_err (p_in p)"
    unfolding http_body_drop_response [OF assms(1)] by auto
  with assms(4) show ?thesis by (simp add: peer_drop_def moved_def peer_wf_def)
qed

lemma exchange_reply:
  assumes "headers_text request = Ret t" "- (2 ^ 31) \<le> rr_code request" "rr_code request < 2 ^ 31"
    "peer_wf p" "response_wf d" "so_data (p_in p) = the_ret (headers_text d) @ r"
  shows "\<exists>p'. exchange p request auth = Some (Ret (Some (received d), p')) \<and> moved p r t p'
    \<and> so_err (p_in p') = so_err (p_in p)"
proof -
  from peer_send_text [OF assms(1-4)] obtain p1 where
    S: "peer_send p request = Some (Ret (True, p1))" "moved p (so_data (p_in p)) t p1" "so_err (p_in p1) = so_err (p_in p)"
    by blast
  with assms(6) have "so_data (p_in p1) = the_ret (headers_text d) @ r" by (simp add: moved_def)
  from peer_recv_reply [OF assms(5) moved_wf [OF S(2)] this] obtain p2 where
    "peer_recv p1 new_rr_data = Some (Ret (True, received d, p2))" "moved p1 r [] p2" "so_err (p_in p2) = so_err (p_in p1)"
    by blast
  with S moved_trans [OF S(2), of r "[]" p2] show ?thesis
    by (simp add: exchange_def reset_rr_data_new)
qed

text \<open>The body of a reply on its way to the client, and of a request on its way to the server.\<close>

lemma body_relay_frame:
  assumes "http_body_send (Some (p_out dst)) (p_in src) (Some request) (Some response) =
      body_transfer (Some (p_out dst)) (p_in src) hs (body_length hs nobody)"
    "frame_ok hs nobody f" "peer_wf src" "peer_wf dst" "so_data (p_in src) = frame_text f @ r"
    "if frame_last f then r = [] \<and> \<not> so_err (p_in src) else True"
  shows "\<exists>src' dst'. body_relay src dst request response = Some (Ret (True, src', dst'))
    \<and> moved src r [] src' \<and> moved dst (so_data (p_in dst)) (frame_text f) dst'"
proof -
  from assms(3,4) have w: "sock_wf (p_in src)" "sink_ideal (Some (p_out dst))"
    by (simp_all add: peer_wf_def sink_ideal_def)
  from body_transfer_frame [OF assms(2) w assms(5,6)] obtain s where
    "http_body_send (Some (p_out dst)) (p_in src) (Some request) (Some response) =
      Some (Ret (True, s, sink_add (Some (p_out dst)) (frame_text f)))" "so_data s = r" "sock_wf s"
    unfolding assms(1) by blast
  with assms(3,4) show ?thesis
    by (simp add: body_relay_def moved_def peer_wf_def sink_add_def)
qed

lemma body_relay_response:
  assumes "rr_empty response = 0" "has_method ''HEAD'' (Some request) = Ret head"
    "frame_ok (rr_headers response) (no_body head (rr_code response)) f" "peer_wf src" "peer_wf dst"
    "so_data (p_in src) = frame_text f @ r" "if frame_last f then r = [] \<and> \<not> so_err (p_in src) else True"
  shows "\<exists>src' dst'. body_relay src dst request response = Some (Ret (True, src', dst'))
    \<and> moved src r [] src' \<and> moved dst (so_data (p_in dst)) (frame_text f) dst'"
  by (rule body_relay_frame [OF http_body_send_response [OF assms(1,2)] assms(3-7)])

text \<open>GET and HEAD requests have no body.\<close>

definition bodyless :: "rr_data_s \<Rightarrow> bool" where
  "bodyless d \<longleftrightarrow> has_method ''GET'' (Some d) = Ret True \<or> has_method ''HEAD'' (Some d) = Ret True"

lemma http_body_send_request:
  assumes "rr_empty response \<noteq> 0" "rr_req request \<noteq> 0" "rr_method request \<noteq> None"
    "body_length (rr_headers request) (bodyless request) \<noteq> -1"
  shows "http_body_send dst src (Some request) (Some response) =
    body_transfer dst src (rr_headers request) (body_length (rr_headers request) (bodyless request))"
proof -
  from assms(3) obtain m where m: "rr_method request = Some m" by blast
  have "request_body (Some request) = Ret (body_length (rr_headers request) (bodyless request))"
    using assms(2,4) m
    by (cases "strcaseeq ''GET'' m"; cases "strcaseeq ''HEAD'' m")
      (simp_all add: request_body_def has_method_def bodyless_def Let_def)
  with assms(1) show ?thesis by (simp add: http_body_send_def http_has_body_def body_transfer_def)
qed

lemma body_relay_request:
  assumes "rr_empty response \<noteq> 0" "rr_req request \<noteq> 0" "rr_method request \<noteq> None"
    "frame_ok (rr_headers request) (bodyless request) f" "\<not> frame_last f" "peer_wf src" "peer_wf dst"
    "so_data (p_in src) = frame_text f @ r"
  shows "\<exists>src' dst'. body_relay src dst request response = Some (Ret (True, src', dst'))
    \<and> moved src r [] src' \<and> moved dst (so_data (p_in dst)) (frame_text f) dst'"
proof -
  have "body_length (rr_headers request) (bodyless request) \<noteq> -1"
    unfolding body_length_frame [OF assms(4)] using assms(5) by (cases f) auto
  from http_body_send_request [OF assms(1-3) this] show ?thesis
    by (rule body_relay_frame) (use assms(4-8) in auto)
qed

text \<open>Headers that do not bear on the framing can be changed.\<close>

lemma frame_ok_mod:
  assumes "\<not> strcaseeq k ''Content-Length''" "\<not> strcaseeq k ''Content-Type''" "\<not> strcaseeq k ''Transfer-Encoding''"
    "\<not> strcaseeq k ''Connection'' \<or> \<not> hlist_subcmp hs ''Connection'' ''close'' \<and> strstr (lowercase v) ''close'' = None"
  shows "frame_ok (hlist_mod hs k v add) nobody f = frame_ok hs nobody f"
proof -
  have "lowercase ''close'' = ''close''" by code_simp
  then have c: "chunked (hlist_mod hs k v add) = chunked hs" "delimited (hlist_mod hs k v add) = delimited hs"
    using assms by (auto simp: chunked_def delimited_def hlist_subcmp_def hlist_in_get hlist_get_mod split: option.splits)
  with assms(1) show ?thesis by (cases f) (simp_all add: hlist_get_mod)
qed

section \<open>Requests and replies\<close>

text \<open>A request that can be sent, is no CONNECT, and has a body with that frame.\<close>

definition sendable :: "rr_data_s \<Rightarrow> frame \<Rightarrow> string \<Rightarrow> bool" where
  "sendable d f t \<longleftrightarrow> rr_req d \<noteq> 0 \<and> headers_text d = Ret t \<and> - (2 ^ 31) \<le> rr_code d \<and> rr_code d < 2 ^ 31
     \<and> has_method ''CONNECT'' (Some d) = Ret False \<and> frame_ok (rr_headers d) (bodyless d) f \<and> \<not> frame_last f"

lemma sendable_method: "sendable d f t \<Longrightarrow> rr_method d \<noteq> None"
  by (auto simp: sendable_def headers_text_def Let_def split: option.splits if_splits)

text \<open>Such a request on its way from the client to the server.\<close>

lemma request_relay:
  assumes "sendable d f t" "peer_wf c0" "peer_wf s0" "so_data (p_in c0) = frame_text f @ crest"
  shows "\<exists>s1 c s2. peer_send s0 d = Some (Ret (True, s1)) \<and> body_relay c0 s1 d new_rr_data = Some (Ret (True, c, s2))
    \<and> moved c0 crest [] c \<and> moved s0 (so_data (p_in s0)) (t @ frame_text f) s2 \<and> so_err (p_in s2) = so_err (p_in s0)"
proof -
  note sn = assms(1) [unfolded sendable_def]
  from peer_send_text [of d t s0] sn assms(3) obtain s1 where
    S: "peer_send s0 d = Some (Ret (True, s1))" "moved s0 (so_data (p_in s0)) t s1" "so_err (p_in s1) = so_err (p_in s0)"
    by blast
  have e: "rr_empty new_rr_data \<noteq> 0" by (simp add: new_rr_data_def)
  from sn have "rr_req d \<noteq> 0" "frame_ok (rr_headers d) (bodyless d) f" "\<not> frame_last f" by simp_all
  from body_relay_request [OF e this(1) sendable_method [OF assms(1)] this(2,3) assms(2) moved_wf [OF S(2)] assms(4)]
  obtain c s2 where
    B: "body_relay c0 s1 d new_rr_data = Some (Ret (True, c, s2))" "moved c0 crest [] c"
    "moved s1 (so_data (p_in s1)) (frame_text f) s2" by blast
  have "so_err (p_in s2) = so_err (p_in s1)"
    using B(1) by (auto simp: body_relay_def p_bind_def split: option.splits c_result.splits)
  moreover have "moved s0 (so_data (p_in s0)) (t @ frame_text f) s2"
    using moved_trans [OF S(2) B(3)] moved_data [OF S(2)] by simp
  ultimately show ?thesis using S B by auto
qed

lemma received_simps [simp]:
  "rr_code (received d) = rr_code d" "rr_empty (received d) = 0" "rr_headers (received d) = rr_headers d"
  "rr_req (received d) = 0" "rr_http (received d) = rr_http d" "rr_msg (received d) = rr_msg d"
  "rr_skip_http (received d) = 0"
  by (simp_all add: received_def new_rr_data_def)

lemma header_names_proxy [simp]:
  "\<not> strcaseeq ''Proxy-Connection'' ''Content-Length''" "\<not> strcaseeq ''Proxy-Connection'' ''Content-Type''"
  "\<not> strcaseeq ''Proxy-Connection'' ''Transfer-Encoding''" "\<not> strcaseeq ''Proxy-Connection'' ''Connection''"
  "\<not> strcaseeq ''Connection'' ''Content-Length''" "\<not> strcaseeq ''Connection'' ''Content-Type''"
  "\<not> strcaseeq ''Connection'' ''Transfer-Encoding''" "\<not> strcaseeq ''Connection'' ''Proxy-Authorization''"
  "\<not> strcaseeq ''Authorization'' ''Proxy-Authorization''" "\<not> strcaseeq ''Proxy-Connection'' ''Proxy-Authorization''"
  by code_simp+

lemma peer_wf_open: "peer_wf p \<Longrightarrow> \<not> sink_closed (p_out p)"
  by (simp add: peer_wf_def sink_closed_def)

definition with_headers :: "rr_data_s \<Rightarrow> hlist_t \<Rightarrow> rr_data_s" where
  "with_headers d hs = d\<lparr>rr_headers := hs\<rparr>"

lemma headers_text_dup: "headers_text ((dup_view d)\<lparr>rr_headers := hs\<rparr>) = headers_text (with_headers d hs)"
  by (simp add: headers_text_def dup_view_def with_headers_def Let_def split: option.split)

lemma sendable_text: "sendable d f t \<Longrightarrow> headers_text (with_headers d hs) = Ret (the_ret (headers_text (with_headers d hs)))"
  by (auto simp: sendable_def headers_text_def with_headers_def Let_def split: option.splits)

text \<open>The headers of one name before and after they are prepared.\<close>

definition values_of :: "hlist_t \<Rightarrow> string \<Rightarrow> string list" where
  "values_of hs k = map hvalue (filter (\<lambda>t. strcaseeq (hkey t) k) hs)"

lemma values_of_del: "values_of (hlist_del hs k) k = tl (values_of hs k)"
  by (induction hs) (auto simp: values_of_def)

lemma values_of_mod_other:
  assumes "\<not> strcaseeq k' k"
  shows "values_of (hlist_mod hs k' v add) k = values_of hs k"
proof -
  have "strcaseeq x k' \<Longrightarrow> \<not> strcaseeq x k" for x
    using assms by (metis strcaseeq_sym strcaseeq_trans)
  then have "values_of (hlist_set_first hs k' v) k = values_of hs k" by (induction hs) (auto simp: values_of_def)
  with assms show ?thesis by (auto simp: hlist_mod_def hlist_add_def values_of_def)
qed

section \<open>Samples\<close>

text \<open>A request, and a reply with a body.\<close>

definition sample_get :: rr_data_s where
  "sample_get = new_rr_data\<lparr>rr_req := 1, rr_empty := 0, rr_method := Some ''GET'', rr_url := Some ''http://h/x'',
     rr_rel_url := Some ''/x'', rr_http := Some ''HTTP/1.1'', rr_hostname := Some ''h'', rr_port := 80\<rparr>"

definition sample_reply :: rr_data_s where
  "sample_reply = sample_200\<lparr>rr_headers := [\<lparr>hkey = ''Content-Length'', hvalue = ''2''\<rparr>]\<rparr>"

lemma sample_reply_wf:
  "response_wf sample_reply" "frame_ok (rr_headers sample_reply) (no_body False (rr_code sample_reply)) (By_length ''ok'')"
  "rr_code sample_reply = 200"
proof -
  show "response_wf sample_reply"
    using sample_200_wf(1) by (simp add: response_wf_def sample_reply_def header_wf_def c_isspace_def)
  show "rr_code sample_reply = 200" by (simp add: sample_reply_def sample_200_wf)
  then show "frame_ok (rr_headers sample_reply) (no_body False (rr_code sample_reply)) (By_length ''ok'')"
    by (simp add: sample_reply_def sample_200_def no_body_def chunked_def hlist_subcmp_def show_nat.simps)
qed

end
