(* ===== verification/Direct.thy ===== *)
theory Direct
  imports Conversation
begin

text \<open>
  direct.c: www\_authenticate, the NTLM handshake with a web server, and direct\_request, which
  serves requests without the parent proxy.
\<close>

section \<open>www\_authenticate\<close>

definition www_probe :: "rr_data_s \<Rightarrow> auth_s \<Rightarrow> rr_data_s c_result" where
  "www_probe request creds =
     c_bind (request_line creds) (\<lambda>buf.
     c_bind (dup_rr_data (Some request)) (\<lambda>dup.
     case dup of None \<Rightarrow> UB | Some auth \<Rightarrow>
       let h1 = hlist_mod (rr_headers auth) ''Connection'' ''keep-alive'' True;
           h2 = hlist_mod h1 ''Authorization'' buf True;
           h3 = hlist_mod h2 ''Content-Length'' ''0'' True
       in Ret (auth\<lparr>rr_headers := hlist_del h3 ''Transfer-Encoding''\<rparr>)))"

definition invalid_challenge :: string where "invalid_challenge = ''Invalid NTLM challenge from web server''"
definition missing_challenge :: string where "missing_challenge = ''Web server reply missing NTLM challenge''"

text \<open>The challenge: an error text, or the client's request with the authentication message.\<close>

definition www_challenge :: "rnd \<Rightarrow> hlist_t \<Rightarrow> rr_data_s \<Rightarrow> auth_s \<Rightarrow> (string option \<times> rr_data_s) c_prog" where
  "www_challenge rn hs request creds =
     (case hlist_get hs ''WWW-Authenticate'' of
        None \<Rightarrow> Some (Ret (Some missing_challenge, request))
      | Some tmp \<Rightarrow>
          if length tmp \<le> 6 + 8 then Some (Ret (Some missing_challenge, request))
          else p_bind (Some (challenge_of tmp)) (\<lambda>(len, chal).
            if len > NTLM_CHALLENGE_MIN then
              p_bind (ntlm_response (rnd_endian rn) (rnd_nonce rn) (rnd_now rn) chal len creds) (\<lambda>(msg, n).
                case msg of
                  Some m \<Rightarrow>
                    if n > 0 then
                      p_bind (Some (ntlm_line m n)) (\<lambda>buf.
                        Some (Ret (None, request\<lparr>rr_headers :=
                          hlist_mod (rr_headers request) ''Authorization'' buf True\<rparr>)))
                    else Some (Ret (Some invalid_challenge, request))
                | None \<Rightarrow> Some (Ret (Some invalid_challenge, request)))
            else Some (Ret (Some invalid_challenge, request))))"

record www_result =
  wr_rc :: bool
  wr_peer :: peer
  wr_request :: rr_data_s
  wr_response :: rr_data_s

definition www_authenticate ::
  "rnd \<Rightarrow> peer \<Rightarrow> rr_data_s \<Rightarrow> rr_data_s \<Rightarrow> auth_s \<Rightarrow> www_result c_prog" where
  "www_authenticate rn p request response creds =
     (let fail = (\<lambda>p request response. Some (Ret
            \<lparr>wr_rc = False, wr_peer = p, wr_request = request, wr_response = response\<rparr>))
      in p_bind (Some (www_probe request creds)) (\<lambda>auth.
         p_bind (peer_drop p response) (\<lambda>(ok, p1).
         if \<not> ok then fail p1 request response
         else p_bind (exchange p1 auth auth) (\<lambda>(r, p2).
           case r of
             None \<Rightarrow> fail p2 request response
           | Some reply \<Rightarrow>
               if rr_code reply \<noteq> 401 then fail p2 request response
               else p_bind (peer_drop p2 reply) (\<lambda>(ok, p3).
                 if \<not> ok then fail p3 request response
                 else p_bind (www_challenge rn (rr_headers reply) request creds) (\<lambda>(err, request').
                   case err of
                     Some e \<Rightarrow> fail p3 request (response\<lparr>rr_errmsg := Some e\<rparr>)
                   | None \<Rightarrow> p_bind (exchange p3 request' reply) (\<lambda>(r, p4).
                       case r of
                         None \<Rightarrow> fail p4 request' response
                       | Some final \<Rightarrow>
                           p_bind (Some (copy_rr_data (Some response) (Some final))) (\<lambda>d.
                             Some (Ret \<lparr>wr_rc = True, wr_peer = p4, wr_request = request',
                                        wr_response = (case d of None \<Rightarrow> response | Some x \<Rightarrow> x)\<rparr>)))))))))"

section \<open>direct\_request\<close>

text \<open>The request on its way to the server: relative URL, headers, and the client's credentials.\<close>

definition direct_prepare :: "rr_data_s \<Rightarrow> auth_s \<Rightarrow> (rr_data_s \<times> auth_s) c_result" where
  "direct_prepare d creds =
     (if rr_req d = 0 then Ret (d, creds)
      else let d1 = (case rr_rel_url d of None \<Rightarrow> d | Some u \<Rightarrow> d\<lparr>rr_url := Some u\<rparr>);
               hs = hlist_del (hlist_mod (rr_headers d1) ''Connection'' ''keep-alive'' True) ''Proxy-Authorization''
           in c_bind (http_parse_basic hs ''Authorization'' creds) (\<lambda>(_, creds').
                Ret (d1\<lparr>rr_headers := hs\<rparr>, creds')))"

definition established :: "rr_data_s \<Rightarrow> rr_data_s" where
  "established d = new_rr_data\<lparr>rr_empty := 0, rr_req := 0, rr_code := 200,
     rr_msg := Some ''Connection established'', rr_http := rr_http d\<rparr>"

text \<open>The pass of the inner loop that takes the request to the server.\<close>

definition direct_request_pass ::
  "string \<Rightarrow> int \<Rightarrow> sel list \<Rightarrow> rr_data_s \<Rightarrow> conv \<Rightarrow> rr_data_s step_result c_prog" where
  "direct_request_pass hostname port es d0 cv =
     p_bind (if rr_empty d0 \<noteq> 0 then peer_recv (cv_client cv) d0 else Some (Ret (True, d0, cv_client cv)))
       (\<lambda>(ok, d, c).
       let cv1 = cv\<lparr>cv_client := c\<rparr>
       in if \<not> ok then Some (Ret (Leave Ret_stop cv1))
          else if (case rr_hostname d of None \<Rightarrow> False | Some h \<Rightarrow> \<not> strcaseeq hostname h \<or> port \<noteq> rr_port d)
          then p_bind (Some (dup_rr_data (Some d))) (\<lambda>r.
                 Some (Ret (Leave (case r of None \<Rightarrow> Ret_null | Some q \<Rightarrow> Ret_request q) cv1)))
          else p_bind (Some (direct_prepare d (cv_creds cv1))) (\<lambda>(d1, creds).
            let cv2 = cv1\<lparr>cv_creds := creds\<rparr>
            in p_bind (Some (has_method ''CONNECT'' (Some d1))) (\<lambda>connect.
              if connect then
                p_bind (peer_send (cv_client cv2) (established d1)) (\<lambda>(ok, c).
                  if ok then (case tunnel_ends (tunnel es (Run c (cv_server cv2))) of (c', s') \<Rightarrow>
                         Some (Ret (Leave Ret_stop (cv2\<lparr>cv_client := c', cv_server := s'\<rparr>))))
                  else Some (Ret (Leave Ret_stop (cv2\<lparr>cv_client := c\<rparr>))))
              else p_bind (peer_send (cv_server cv2) d1) (\<lambda>(ok, s).
                if \<not> ok then Some (Ret (Leave Ret_stop (cv2\<lparr>cv_server := s\<rparr>)))
                else p_bind (body_relay (cv_client cv2) s d1 new_rr_data) (\<lambda>(ok, c, s').
                  let cv3 = cv2\<lparr>cv_client := c, cv_server := s'\<rparr>
                  in Some (Ret (if ok then Cont d1 cv3 else Leave Ret_stop cv3)))))))"

text \<open>The connection is made again when the server closes it after its 401.\<close>

definition direct_reconnect ::
  "gai \<Rightarrow> u32 \<Rightarrow> rr_data_s \<Rightarrow> rr_data_s \<Rightarrow> conv \<Rightarrow> unit step_result" where
  "direct_reconnect getaddrinfo src0 d0 d1 cv =
     (if \<not> hlist_subcmp (rr_headers d1) ''Connection'' ''close'' then Cont () cv
      else let ((sd, q), g) = (case rr_hostname d0 of
                 None \<Rightarrow> ((-1, None), cv_globals cv)
               | Some h \<Rightarrow> host_connect getaddrinfo src0 (cv_globals cv) h (rr_port d0));
               cv' = cv\<lparr>cv_globals := g\<rparr>
           in (case q of
                 Some s \<Rightarrow> if sd < 0 then leave_page (gen_502_page (rr_http d0) (Some ''WWW authentication reconnect failed'')) cv'
                           else Cont () (cv'\<lparr>cv_server := s\<rparr>)
               | None \<Rightarrow> leave_page (gen_502_page (rr_http d0) (Some ''WWW authentication reconnect failed'')) cv'))"

text \<open>A 401 that offers NTLM is answered here; the result is the request and the reply after it.\<close>

definition direct_auth ::
  "gai \<Rightarrow> u32 \<Rightarrow> rnd \<Rightarrow> rr_data_s \<Rightarrow> rr_data_s \<Rightarrow> conv \<Rightarrow> (rr_data_s \<times> rr_data_s) step_result c_prog" where
  "direct_auth getaddrinfo src0 rn d0 d1 cv =
     (if \<not> (rr_code d1 = 401 \<and> hlist_subcmp_all (rr_headers d1) ''WWW-Authenticate'' ''NTLM'')
      then Some (Ret (Cont (d0, d1) cv))
      else (case direct_reconnect getaddrinfo src0 d0 d1 cv of
        Leave rc cv' \<Rightarrow> Some (Ret (Leave rc cv'))
      | Cont _ cv1 \<Rightarrow>
          p_bind (www_authenticate rn (cv_server cv1) d0 d1 (cv_creds cv1)) (\<lambda>r.
            let cv2 = cv1\<lparr>cv_server := wr_peer r\<rparr>; d1' = wr_response r
            in if \<not> wr_rc r then
                 Some (Ret (leave_page (gen_502_page (rr_http d1') (Some (case rr_errmsg d1' of
                    None \<Rightarrow> ''Error during WWW-Authenticate'' | Some e \<Rightarrow> e))) cv2))
               else if rr_code d1' = 401 then
                 (case rr_hostname d0 of
                    None \<Rightarrow> Some UB
                  | Some h \<Rightarrow> Some (Ret (leave_page (gen_401_page (rr_http d1') h (rr_port d0)) cv2)))
               else Some (Ret (Cont (wr_request r, d1') cv2)))))"

text \<open>Whether the connection stays, and the headers the client gets.\<close>

definition direct_alive :: "rr_data_s \<Rightarrow> rr_data_s \<Rightarrow> bool c_result" where
  "direct_alive d0 d1 =
     (if hlist_subcmp (rr_headers d1) ''Connection'' ''close'' then Ret False
      else c_bind (http_has_body (Some d0) (Some d1)) (\<lambda>n. Ret (n \<noteq> -1)))"

definition direct_reply :: "bool \<Rightarrow> rr_data_s \<Rightarrow> rr_data_s" where
  "direct_reply alive d1 = d1\<lparr>rr_headers :=
     (if alive then hlist_mod (hlist_mod (rr_headers d1) ''Proxy-Connection'' ''keep-alive'' True)
                      ''Connection'' ''keep-alive'' True
      else hlist_mod (rr_headers d1) ''Proxy-Connection'' ''close'' True)\<rparr>"

text \<open>The pass that takes the reply to the client; its value is whether the connection stays.\<close>

definition direct_reply_pass ::
  "gai \<Rightarrow> u32 \<Rightarrow> rnd \<Rightarrow> rr_data_s \<Rightarrow> conv \<Rightarrow> bool step_result c_prog" where
  "direct_reply_pass getaddrinfo src0 rn d0 cv =
     p_bind (peer_recv (cv_server cv) new_rr_data) (\<lambda>(ok, d1, s).
       let cv1 = cv\<lparr>cv_server := s\<rparr>
       in if \<not> ok then Some (Ret (Leave Ret_stop cv1))
          else p_bind (direct_auth getaddrinfo src0 rn d0 d1 cv1) (\<lambda>res.
            case res of
              Leave rc cv' \<Rightarrow> Some (Ret (Leave rc cv'))
            | Cont (d0', d1') cv2 \<Rightarrow>
                p_bind (Some (direct_alive d0' d1')) (\<lambda>alive.
                  let d2 = direct_reply alive d1'
                  in p_bind (peer_send (cv_client cv2) d2) (\<lambda>(ok, c).
                    if \<not> ok then Some (Ret (Leave Ret_stop (cv2\<lparr>cv_client := c\<rparr>)))
                    else p_bind (body_relay (cv_server cv2) c d0' d2) (\<lambda>(ok, s', c').
                      let cv3 = cv2\<lparr>cv_client := c', cv_server := s'\<rparr>
                      in Some (Ret (if ok then Cont alive cv3 else Leave Ret_stop cv3)))))))"

text \<open>One run of the loop over the two passes, and whether there is another one.\<close>

definition direct_round ::
  "gai \<Rightarrow> u32 \<Rightarrow> rnd \<Rightarrow> bool \<Rightarrow> string \<Rightarrow> int \<Rightarrow> sel list \<Rightarrow> rr_data_s \<Rightarrow> conv \<Rightarrow> unit step_result c_prog" where
  "direct_round getaddrinfo src0 rn serialize hostname port es d0 cv =
     p_bind (direct_request_pass hostname port es d0 cv) (\<lambda>res.
       case res of
         Leave rc cv' \<Rightarrow> Some (Ret (Leave rc cv'))
       | Cont d1 cv1 \<Rightarrow>
           p_bind (direct_reply_pass getaddrinfo src0 rn d1 cv1) (\<lambda>res.
             case res of
               Leave rc cv' \<Rightarrow> Some (Ret (Leave rc cv'))
             | Cont alive cv2 \<Rightarrow>
                 Some (Ret (if alive \<and> \<not> sink_closed (p_out (cv_server cv2))
                               \<and> \<not> sink_closed (p_out (cv_client cv2)) \<and> \<not> serialize
                            then Cont () cv2 else Leave (if alive then Ret_null else Ret_stop) cv2))))"

partial_function (option) direct_loop ::
  "gai \<Rightarrow> u32 \<Rightarrow> rnd \<Rightarrow> bool \<Rightarrow> string \<Rightarrow> int \<Rightarrow> sel list \<Rightarrow> rr_data_s \<Rightarrow> conv \<Rightarrow> (thread_ret \<times> conv) c_prog" where
  "direct_loop getaddrinfo src0 rn serialize hostname port es d0 cv =
     (case direct_round getaddrinfo src0 rn serialize hostname port es d0 cv of
        None \<Rightarrow> None
      | Some UB \<Rightarrow> Some UB
      | Some (Ret (Leave rc cv')) \<Rightarrow> Some (Ret (rc, cv'))
      | Some (Ret (Cont _ cv')) \<Rightarrow> direct_loop getaddrinfo src0 rn serialize hostname port es new_rr_data cv')"

text \<open>
  The result: what the caller gets, the client's connection, the server's when one was made, and
  the globals.  \<open>err\<close> is the text of \<open>strerror\<close>; a request without a host name resolves to nothing.
\<close>

definition direct_request ::
  "gai \<Rightarrow> u32 \<Rightarrow> rnd \<Rightarrow> bool \<Rightarrow> string \<Rightarrow> sel list \<Rightarrow> globals \<Rightarrow> peer \<Rightarrow> rr_data_s \<Rightarrow> (thread_ret \<times> relay) c_prog" where
  "direct_request getaddrinfo src0 rn serialize err es g cd request =
     (let page_end = (\<lambda>q g. Some (Ret (Ret_stop, \<lparr>rl_client = pass_on (gen_502_page (rr_http request) (Some err)) cd,
                        rl_server = q, rl_globals = g\<rparr>)))
      in case rr_hostname request of
           None \<Rightarrow> page_end None g
         | Some hostname \<Rightarrow>
             (case host_connect getaddrinfo src0 g hostname (rr_port request) of
                ((sd, q), g1) \<Rightarrow>
                  (case q of
                     None \<Rightarrow> page_end None g1
                   | Some p \<Rightarrow>
                       if sd < 0 then page_end None g1
                       else p_bind (Some (dup_auth (g_creds g1) True)) (\<lambda>tcreds.
                            p_bind (Some (dup_rr_data (Some request))) (\<lambda>d0.
                              case d0 of
                                None \<Rightarrow> Some UB
                              | Some d \<Rightarrow>
                                  p_bind (direct_loop getaddrinfo src0 rn serialize hostname (rr_port request) es d
                                     \<lparr>cv_client = cd, cv_server = p, cv_creds = tcreds, cv_globals = g1\<rparr>) (\<lambda>(rc, cv).
                                    Some (Ret (rc, \<lparr>rl_client = cv_client cv, rl_server = Some (cv_server cv),
                                                    rl_globals = cv_globals cv\<rparr>))))))))"

section \<open>The handshake with a web server\<close>

definition www_challenge_ok ::
  "rnd \<Rightarrow> auth_s \<Rightarrow> rr_data_s \<Rightarrow> byte list \<Rightarrow> nat \<Rightarrow> byte list \<Rightarrow> nat \<Rightarrow> bool" where
  "www_challenge_ok rn creds d chal olen m n \<longleftrightarrow> rr_code d = 401
     \<and> hlist_get (rr_headers d) ''WWW-Authenticate'' = Some (challenge_value chal olen)
     \<and> 24 < length chal \<and> b64_room (length chal) \<le> olen
     \<and> ntlm_response (rnd_endian rn) (rnd_nonce rn) (rnd_now rn) (challenge_buffer chal olen)
         (int (length chal)) creds = Some (Ret (Some m, n)) \<and> 0 < n \<and> n \<le> length m"

definition www_authorize :: "rr_data_s \<Rightarrow> byte list \<Rightarrow> rr_data_s" where
  "www_authorize request msg = request\<lparr>rr_headers := hlist_mod (rr_headers request) ''Authorization''
     (''NTLM '' @ to_base64 msg (BUFSIZE - 5)) True\<rparr>"

lemma www_challenge_eq:
  assumes "www_challenge_ok rn creds d chal olen m n"
  shows "www_challenge rn (rr_headers d) request creds = Some (Ret (None, www_authorize request (take n m)))"
proof -
  note ch = assms [unfolded www_challenge_ok_def]
  from ch have ne: "chal \<noteq> []" by auto
  have b: "8 \<le> (length chal + 2) div 3" using ch by linarith
  have "14 < length (challenge_value chal olen)"
    using ch to_base64_length [of chal olen] b by (simp add: challenge_value_def)
  with ch challenge_of_value [OF ne, of olen] show ?thesis
    by (simp add: www_challenge_def ntlm_line_def mem_get_def slice_def www_authorize_def)
qed

lemma copy_received: "copy_rr_data (Some r) (Some (received d)) = Ret (Some (received d))"
proof -
  have "body_wf (received d)" by (simp add: body_wf_def received_def new_rr_data_def)
  from copy_rr_data_eq [OF this, of r] have "copy_rr_data (Some r) (Some (received d)) =
      Ret (Some ((received d)\<lparr>rr_errmsg := None, rr_body := None\<rparr>))"
    by (simp add: received_def new_rr_data_def)
  also have "(received d)\<lparr>rr_errmsg := None, rr_body := None\<rparr> = received d"
    by (simp add: received_def new_rr_data_def)
  finally show ?thesis .
qed

lemma www_authenticate_401:
  assumes "www_probe request creds = Ret auth" "headers_text auth = Ret t1"
    "- (2 ^ 31) \<le> rr_code auth" "rr_code auth < 2 ^ 31"
    "headers_text (www_authorize request (take n m)) = Ret t2" "- (2 ^ 31) \<le> rr_code request" "rr_code request < 2 ^ 31"
    "rr_empty response = 0" "frame_ok (rr_headers response) (no_body False (rr_code response)) f0" "\<not> frame_last f0"
    "peer_wf p" "so_data (p_in p) = frame_text f0 @ reply_text d f @ the_ret (headers_text d2) @ rest"
    "reply_wf d f" "www_challenge_ok rn creds d chal olen m n" "response_wf d2"
  shows "\<exists>p'. www_authenticate rn p request response creds = Some (Ret
      \<lparr>wr_rc = True, wr_peer = p', wr_request = www_authorize request (take n m), wr_response = received d2\<rparr>)
    \<and> moved p rest (t1 @ t2) p' \<and> so_err (p_in p') = so_err (p_in p)"
proof -
  have rw: "response_wf d" "frame_ok (rr_headers d) (no_body False (rr_code d)) f" "\<not> frame_last f"
    using assms(13) by (simp_all add: reply_wf_def)
  from peer_drop_frame [OF assms(8-12)] obtain p1 where
    1: "peer_drop p response = Some (Ret (True, p1))" "so_err (p_in p1) = so_err (p_in p)"
    "moved p (reply_text d f @ the_ret (headers_text d2) @ rest) [] p1" by blast
  have d1: "so_data (p_in p1) = the_ret (headers_text d) @ frame_text f @ the_ret (headers_text d2) @ rest"
    using moved_data [OF 1(3)] by (simp add: reply_text_def)
  from exchange_reply [OF assms(2-4) moved_wf [OF 1(3)] rw(1) d1, of auth] obtain p2 where
    2: "exchange p1 auth auth = Some (Ret (Some (received d), p2))" "so_err (p_in p2) = so_err (p_in p1)"
    "moved p1 (frame_text f @ the_ret (headers_text d2) @ rest) t1 p2" by blast
  have r: "rr_empty (received d) = 0" "rr_headers (received d) = rr_headers d" "rr_code (received d) = rr_code d"
    by (simp_all add: received_def)
  from peer_drop_frame [of "received d" f p2, unfolded r, OF refl rw(2,3) moved_wf [OF 2(3)] moved_data [OF 2(3)]]
  obtain p3 where
    3: "peer_drop p2 (received d) = Some (Ret (True, p3))" "so_err (p_in p3) = so_err (p_in p2)"
    "moved p2 (the_ret (headers_text d2) @ rest) [] p3" by blast
  have c: "rr_code (www_authorize request (take n m)) = rr_code request" by (simp add: www_authorize_def)
  from exchange_reply [of "www_authorize request (take n m)", unfolded c, OF assms(5-7) moved_wf [OF 3(3)]
      assms(15) moved_data [OF 3(3)], of "received d"] obtain p4 where
    4: "exchange p3 (www_authorize request (take n m)) (received d) = Some (Ret (Some (received d2), p4))"
    "so_err (p_in p4) = so_err (p_in p3)" "moved p3 rest t2 p4" by blast
  have "rr_code d = 401" using assms(14) by (simp add: www_challenge_ok_def)
  then have "www_authenticate rn p request response creds = Some (Ret
      \<lparr>wr_rc = True, wr_peer = p4, wr_request = www_authorize request (take n m), wr_response = received d2\<rparr>)"
    using 1(1) 2(1) 3(1) 4(1) www_challenge_eq [OF assms(14), of request]
    by (simp add: www_authenticate_def Let_def assms(1) r copy_received)
  moreover have "moved p rest (t1 @ t2) p4"
    using moved_trans [OF moved_trans [OF moved_trans [OF 1(3) 2(3)] 3(3)] 4(3)] by simp
  ultimately show ?thesis using 1(2) 2(2) 3(2) 4(2) by simp
qed

section \<open>One request and its reply\<close>

text \<open>The request is for the server this conversation is with.\<close>

definition same_server :: "string \<Rightarrow> int \<Rightarrow> rr_data_s \<Rightarrow> bool" where
  "same_server hostname port d \<longleftrightarrow>
     (case rr_hostname d of None \<Rightarrow> True | Some h \<Rightarrow> strcaseeq hostname h \<and> port = rr_port d)"

lemma direct_request_pass_sends:
  assumes "rr_empty d = 0" "same_server hostname port d" "direct_prepare d (cv_creds cv) = Ret (d1, creds)"
    "sendable d1 f t" "peer_wf (cv_client cv)" "peer_wf (cv_server cv)"
    "so_data (p_in (cv_client cv)) = frame_text f @ crest"
  shows "\<exists>c s. direct_request_pass hostname port es d cv =
      Some (Ret (Cont d1 (cv\<lparr>cv_client := c, cv_server := s, cv_creds := creds\<rparr>)))
    \<and> moved (cv_client cv) crest [] c \<and> moved (cv_server cv) (so_data (p_in (cv_server cv))) (t @ frame_text f) s
    \<and> so_err (p_in s) = so_err (p_in (cv_server cv))"
proof -
  note sn = assms(4) [unfolded sendable_def]
  from request_relay [OF assms(4-7)] obtain s1 c s2 where
    S: "peer_send (cv_server cv) d1 = Some (Ret (True, s1))"
    and B: "body_relay (cv_client cv) s1 d1 new_rr_data = Some (Ret (True, c, s2))"
    and M: "moved (cv_client cv) crest [] c" "moved (cv_server cv) (so_data (p_in (cv_server cv))) (t @ frame_text f) s2"
      "so_err (p_in s2) = so_err (p_in (cv_server cv))" by blast
  have "\<not> (case rr_hostname d of None \<Rightarrow> False | Some h \<Rightarrow> \<not> strcaseeq hostname h \<or> port \<noteq> rr_port d)"
    using assms(2) by (auto simp: same_server_def split: option.splits)
  then have "direct_request_pass hostname port es d cv =
      Some (Ret (Cont d1 (cv\<lparr>cv_client := c, cv_server := s2, cv_creds := creds\<rparr>)))"
    using assms(1,3) sn S B by (cases cv) (simp add: direct_request_pass_def Let_def)
  with M show ?thesis by blast
qed

text \<open>Whether the connections stay after a reply.\<close>

definition stays :: "rr_data_s \<Rightarrow> frame \<Rightarrow> bool" where
  "stays r f \<longleftrightarrow> \<not> hlist_subcmp (rr_headers r) ''Connection'' ''close'' \<and> \<not> frame_last f"

lemma direct_reply_simps [simp]:
  "rr_code (direct_reply a d) = rr_code d" "rr_empty (direct_reply a d) = rr_empty d"
  "rr_req (direct_reply a d) = rr_req d" "rr_http (direct_reply a d) = rr_http d"
  "rr_msg (direct_reply a d) = rr_msg d" "rr_skip_http (direct_reply a d) = rr_skip_http d"
  by (simp_all add: direct_reply_def)

lemma direct_reply_frame:
  "frame_ok (rr_headers (direct_reply (stays r f) d)) nobody f = frame_ok (rr_headers d) nobody f"
  if "rr_headers d = rr_headers r"
proof -
  have ka: "strstr (lowercase ''keep-alive'') ''close'' = None" by code_simp
  have "hlist_subcmp (hlist_mod hs ''Proxy-Connection'' v True) ''Connection'' ''close'' =
      hlist_subcmp hs ''Connection'' ''close''" for hs v
    by (simp add: hlist_subcmp_def hlist_get_mod)
  with ka show ?thesis using that
    by (auto simp: direct_reply_def stays_def frame_ok_mod)
qed

text \<open>The reply from the point where it is decided that it is for the client.\<close>

lemma direct_finish:
  assumes "rr_headers d1 = rr_headers r" "rr_code d1 = rr_code r" "rr_empty d1 = 0" "rr_req d1 = 0"
    "rr_http d1 = rr_http r" "rr_msg d1 = rr_msg r" "rr_skip_http d1 = 0" "response_wf r"
    "has_method ''HEAD'' (Some d0) = Ret head" "frame_ok (rr_headers r) (no_body head (rr_code r)) f"
    "peer_wf c" "peer_wf s" "so_data (p_in s) = frame_text f @ srest"
    "if frame_last f then srest = [] \<and> \<not> so_err (p_in s) else True"
  shows "direct_alive d0 d1 = Ret (stays r f)
    \<and> (\<exists>c1 s' c'. peer_send c (direct_reply (stays r f) d1) = Some (Ret (True, c1))
        \<and> body_relay s c1 d0 (direct_reply (stays r f) d1) = Some (Ret (True, s', c'))
        \<and> moved s srest [] s' \<and> moved c (so_data (p_in c))
            (the_ret (headers_text (direct_reply (stays r f) (received r))) @ frame_text f) c')"
proof
  have "http_has_body (Some d0) (Some d1) = Ret (body_length (rr_headers r) (no_body head (rr_code r)))"
    using assms(1-3,9) by (simp add: http_has_body_def no_body_def)
  then show "direct_alive d0 d1 = Ret (stays r f)"
    using assms(1) unfolding direct_alive_def stays_def body_length_frame [OF assms(10)] by (cases f) simp_all
  let ?d = "direct_reply (stays r f) d1"
  obtain h m where hm: "rr_http r = Some h" "rr_msg r = Some m"
    using assms(8) by (auto simp: response_wf_def split: option.splits)
  have t: "headers_text ?d = Ret (the_ret (headers_text (direct_reply (stays r f) (received r))))"
    using assms(1-7) hm by (simp add: headers_text_def Let_def direct_reply_def)
  have code: "- (2 ^ 31) \<le> rr_code ?d" "rr_code ?d < 2 ^ 31" using assms(2,8) by (simp_all add: response_wf_def)
  from peer_send_text [OF t code assms(11)] obtain c1 where
    S: "peer_send c ?d = Some (Ret (True, c1))"
    "moved c (so_data (p_in c)) (the_ret (headers_text (direct_reply (stays r f) (received r)))) c1" by blast
  have fr: "frame_ok (rr_headers ?d) (no_body head (rr_code ?d)) f"
    using assms(2,10) direct_reply_frame [OF assms(1)] by (simp add: assms(1))
  have e: "rr_empty ?d = 0" using assms(3) by simp
  from body_relay_response [OF e assms(9) fr assms(12) moved_wf [OF S(2)] assms(13,14)] obtain s' c' where
    "body_relay s c1 d0 ?d = Some (Ret (True, s', c'))" "moved s srest [] s'"
    "moved c1 (so_data (p_in c1)) (frame_text f) c'" by blast
  with S moved_trans [OF S(2)] moved_data [OF S(2)] show "\<exists>c1 s' c'. peer_send c ?d = Some (Ret (True, c1))
      \<and> body_relay s c1 d0 ?d = Some (Ret (True, s', c')) \<and> moved s srest [] s' \<and> moved c (so_data (p_in c))
          (the_ret (headers_text (direct_reply (stays r f) (received r))) @ frame_text f) c'"
    by metis
qed

definition round_end :: "bool \<Rightarrow> bool \<Rightarrow> conv \<Rightarrow> unit step_result" where
  "round_end serialize alive cv =
     (if alive \<and> \<not> serialize then Cont () cv else Leave (if alive then Ret_null else Ret_stop) cv)"

lemma direct_round_plain:
  assumes "rr_empty d = 0" "same_server hostname port d" "direct_prepare d (cv_creds cv) = Ret (d1, creds)"
    "sendable d1 f0 t" "peer_wf (cv_client cv)" "peer_wf (cv_server cv)"
    "so_data (p_in (cv_client cv)) = frame_text f0 @ crest"
    "so_data (p_in (cv_server cv)) = the_ret (headers_text r) @ frame_text f @ srest" "response_wf r" "rr_code r \<noteq> 401"
    "has_method ''HEAD'' (Some d1) = Ret head" "frame_ok (rr_headers r) (no_body head (rr_code r)) f"
    "if frame_last f then srest = [] \<and> \<not> so_err (p_in (cv_server cv)) else True"
  shows "\<exists>cv'. direct_round getaddrinfo src0 rn serialize hostname port es d cv =
      Some (Ret (round_end serialize (stays r f) cv'))
    \<and> moved (cv_server cv) srest (t @ frame_text f0) (cv_server cv')
    \<and> moved (cv_client cv) crest (the_ret (headers_text (direct_reply (stays r f) (received r))) @ frame_text f) (cv_client cv')
    \<and> cv_globals cv' = cv_globals cv"
proof -
  from direct_request_pass_sends [OF assms(1-7)] obtain c s where
    P: "direct_request_pass hostname port es d cv =
      Some (Ret (Cont d1 (cv\<lparr>cv_client := c, cv_server := s, cv_creds := creds\<rparr>)))"
    "moved (cv_client cv) crest [] c" "moved (cv_server cv) (so_data (p_in (cv_server cv))) (t @ frame_text f0) s"
    "so_err (p_in s) = so_err (p_in (cv_server cv))" by blast
  have ds: "so_data (p_in s) = the_ret (headers_text r) @ frame_text f @ srest"
    using moved_data [OF P(3)] assms(8) by simp
  from peer_recv_reply [OF assms(9) moved_wf [OF P(3)] ds] obtain s1 where
    R: "peer_recv s new_rr_data = Some (Ret (True, received r, s1))" "moved s (frame_text f @ srest) [] s1"
    "so_err (p_in s1) = so_err (p_in s)" by blast
  have last: "if frame_last f then srest = [] \<and> \<not> so_err (p_in s1) else True" using assms(13) P(4) R(3) by simp
  from direct_finish [of "received r" r d1 head f c s1 srest, simplified, OF assms(9,11,12) moved_wf [OF P(2)]
      moved_wf [OF R(2)] moved_data [OF R(2)] last] obtain c1 s' c' where
    F: "direct_alive d1 (received r) = Ret (stays r f)"
    "peer_send c (direct_reply (stays r f) (received r)) = Some (Ret (True, c1))"
    "body_relay s1 c1 d1 (direct_reply (stays r f) (received r)) = Some (Ret (True, s', c'))"
    "moved s1 srest [] s'"
    "moved c (so_data (p_in c)) (the_ret (headers_text (direct_reply (stays r f) (received r))) @ frame_text f) c'" by blast
  let ?cv' = "cv\<lparr>cv_client := c', cv_server := s', cv_creds := creds\<rparr>"
  have "\<not> sink_closed (p_out s')" "\<not> sink_closed (p_out c')"
    using moved_wf [OF F(4)] moved_wf [OF F(5)] by (simp_all add: peer_wf_open)
  then have "direct_round getaddrinfo src0 rn serialize hostname port es d cv =
      Some (Ret (round_end serialize (stays r f) ?cv'))"
    using P(1) R(1) F(1-3) assms(10) by (simp add: direct_round_def direct_reply_pass_def direct_auth_def round_end_def Let_def)
  moreover have "moved (cv_server cv) srest (t @ frame_text f0) s'"
    using moved_trans [OF P(3) moved_trans [OF R(2) F(4)]] by simp
  moreover have "moved (cv_client cv) crest
      (the_ret (headers_text (direct_reply (stays r f) (received r))) @ frame_text f) c'"
    using moved_trans [OF P(2) F(5)] moved_data [OF P(2)] by simp
  ultimately show ?thesis by (intro exI [of _ ?cv']) simp
qed

text \<open>The same with a 401 that offers NTLM, answered by the handshake.\<close>

lemma direct_round_401:
  assumes "rr_empty d = 0" "same_server hostname port d" "direct_prepare d (cv_creds cv) = Ret (d1, creds)"
    "sendable d1 f0 t" "peer_wf (cv_client cv)" "peer_wf (cv_server cv)"
    "so_data (p_in (cv_client cv)) = frame_text f0 @ crest"
    "so_data (p_in (cv_server cv)) = reply_text r1 f1 @ reply_text r2 f2 @ the_ret (headers_text r) @ frame_text f @ srest"
    "reply_wf r1 f1" "rr_code r1 = 401" "hlist_subcmp_all (rr_headers r1) ''WWW-Authenticate'' ''NTLM''"
    "\<not> hlist_subcmp (rr_headers r1) ''Connection'' ''close''"
    "reply_wf r2 f2" "www_challenge_ok rn creds r2 chal olen m n" "response_wf r" "rr_code r \<noteq> 401"
    "www_probe d1 creds = Ret auth" "headers_text auth = Ret t1" "- (2 ^ 31) \<le> rr_code auth" "rr_code auth < 2 ^ 31"
    "headers_text (www_authorize d1 (take n m)) = Ret t2"
    "has_method ''HEAD'' (Some d1) = Ret head" "frame_ok (rr_headers r) (no_body head (rr_code r)) f"
    "if frame_last f then srest = [] \<and> \<not> so_err (p_in (cv_server cv)) else True"
  shows "\<exists>cv'. direct_round getaddrinfo src0 rn serialize hostname port es d cv =
      Some (Ret (round_end serialize (stays r f) cv'))
    \<and> moved (cv_server cv) srest (t @ frame_text f0 @ t1 @ t2) (cv_server cv')
    \<and> moved (cv_client cv) crest (the_ret (headers_text (direct_reply (stays r f) (received r))) @ frame_text f) (cv_client cv')
    \<and> cv_globals cv' = cv_globals cv"
proof -
  from direct_request_pass_sends [OF assms(1-7)] obtain c s where
    P: "direct_request_pass hostname port es d cv =
      Some (Ret (Cont d1 (cv\<lparr>cv_client := c, cv_server := s, cv_creds := creds\<rparr>)))"
    "moved (cv_client cv) crest [] c" "moved (cv_server cv) (so_data (p_in (cv_server cv))) (t @ frame_text f0) s"
    "so_err (p_in s) = so_err (p_in (cv_server cv))" by blast
  let ?next = "reply_text r2 f2 @ the_ret (headers_text r) @ frame_text f @ srest"
  have rw: "response_wf r1" "frame_ok (rr_headers r1) (no_body False (rr_code r1)) f1" "\<not> frame_last f1"
    using assms(9) by (simp_all add: reply_wf_def)
  have ds: "so_data (p_in s) = the_ret (headers_text r1) @ frame_text f1 @ ?next"
    using moved_data [OF P(3)] assms(8) by (simp add: reply_text_def)
  from peer_recv_reply [OF rw(1) moved_wf [OF P(3)] ds] obtain s1 where
    R: "peer_recv s new_rr_data = Some (Ret (True, received r1, s1))" "moved s (frame_text f1 @ ?next) [] s1"
    "so_err (p_in s1) = so_err (p_in s)" by blast
  have code: "- (2 ^ 31) \<le> rr_code d1" "rr_code d1 < 2 ^ 31" using assms(4) by (simp_all add: sendable_def)
  from www_authenticate_401 [OF assms(17-21) code, of "received r1", simplified, OF rw(2,3) moved_wf [OF R(2)]
      moved_data [OF R(2)] assms(13-15)] obtain s2 where
    W: "www_authenticate rn s1 d1 (received r1) creds = Some (Ret
      \<lparr>wr_rc = True, wr_peer = s2, wr_request = www_authorize d1 (take n m), wr_response = received r\<rparr>)"
    "moved s1 (frame_text f @ srest) (t1 @ t2) s2" "so_err (p_in s2) = so_err (p_in s1)" by blast
  have A: "direct_auth getaddrinfo src0 rn d1 (received r1) (cv\<lparr>cv_client := c, cv_server := s1, cv_creds := creds\<rparr>) =
      Some (Ret (Cont (www_authorize d1 (take n m), received r) (cv\<lparr>cv_client := c, cv_server := s2, cv_creds := creds\<rparr>)))"
    using W(1) assms(10-12,16) by (simp add: direct_auth_def direct_reconnect_def Let_def)
  have h: "has_method ''HEAD'' (Some (www_authorize d1 (take n m))) = Ret head"
    using assms(22) by (auto simp: has_method_def www_authorize_def split: if_splits)
  have last: "if frame_last f then srest = [] \<and> \<not> so_err (p_in s2) else True" using assms(24) P(4) R(3) W(3) by simp
  from direct_finish [of "received r" r "www_authorize d1 (take n m)" head f c s2 srest, simplified,
      OF assms(15) h assms(23) moved_wf [OF P(2)] moved_wf [OF W(2)] moved_data [OF W(2)] last] obtain c1 s' c' where
    F: "direct_alive (www_authorize d1 (take n m)) (received r) = Ret (stays r f)"
    "peer_send c (direct_reply (stays r f) (received r)) = Some (Ret (True, c1))"
    "body_relay s2 c1 (www_authorize d1 (take n m)) (direct_reply (stays r f) (received r)) = Some (Ret (True, s', c'))"
    "moved s2 srest [] s'"
    "moved c (so_data (p_in c)) (the_ret (headers_text (direct_reply (stays r f) (received r))) @ frame_text f) c'" by blast
  let ?cv' = "cv\<lparr>cv_client := c', cv_server := s', cv_creds := creds\<rparr>"
  have "\<not> sink_closed (p_out s')" "\<not> sink_closed (p_out c')"
    using moved_wf [OF F(4)] moved_wf [OF F(5)] by (simp_all add: peer_wf_open)
  then have "direct_round getaddrinfo src0 rn serialize hostname port es d cv =
      Some (Ret (round_end serialize (stays r f) ?cv'))"
    using P(1) R(1) A F(1-3)
    by (cases cv) (simp add: direct_round_def direct_reply_pass_def round_end_def Let_def)
  moreover have "moved (cv_server cv) srest (t @ frame_text f0 @ t1 @ t2) s'"
    using moved_trans [OF P(3) moved_trans [OF R(2) moved_trans [OF W(2) F(4)]]] by simp
  moreover have "moved (cv_client cv) crest
      (the_ret (headers_text (direct_reply (stays r f) (received r))) @ frame_text f) c'"
    using moved_trans [OF P(2) F(5)] moved_data [OF P(2)] by simp
  ultimately show ?thesis by (intro exI [of _ ?cv']) simp
qed

section \<open>Properties\<close>

text \<open>
  C14: a request around the parent.  The request the server gets is the prepared one with its body,
  exactly once; the client gets the server's reply with its body, the headers that say whether the
  connection stays changed; what follows on both streams is left for the next run of the loop,
  which comes when the connection stays and the proxy does not serialize.
\<close>

theorem direct_round_serves:
  assumes "rr_empty d = 0" "same_server hostname port d" "direct_prepare d (cv_creds cv) = Ret (d1, creds)"
    "sendable d1 f0 t" "peer_wf (cv_client cv)" "peer_wf (cv_server cv)"
    "so_data (p_in (cv_client cv)) = frame_text f0 @ crest"
    "so_data (p_in (cv_server cv)) = the_ret (headers_text r) @ frame_text f @ srest" "response_wf r" "rr_code r \<noteq> 401"
    "has_method ''HEAD'' (Some d1) = Ret head" "frame_ok (rr_headers r) (no_body head (rr_code r)) f"
    "if frame_last f then srest = [] \<and> \<not> so_err (p_in (cv_server cv)) else True"
  shows "\<exists>cv'. direct_round getaddrinfo src0 rn serialize hostname port es d cv =
      Some (Ret (round_end serialize (stays r f) cv'))
    \<and> moved (cv_server cv) srest (t @ frame_text f0) (cv_server cv')
    \<and> moved (cv_client cv) crest (the_ret (headers_text (direct_reply (stays r f) (received r))) @ frame_text f) (cv_client cv')
    \<and> cv_globals cv' = cv_globals cv"
  by (rule direct_round_plain [OF assms])

definition sample_conv :: "string \<Rightarrow> string \<Rightarrow> conv" where
  "sample_conv c s = \<lparr>cv_client = sample_peer c, cv_server = sample_peer s, cv_creds = new_auth, cv_globals = no_globals\<rparr>"

definition sample_get_sent :: rr_data_s where
  "sample_get_sent = sample_get\<lparr>rr_url := Some ''/x'', rr_headers := [\<lparr>hkey = ''Connection'', hvalue = ''keep-alive''\<rparr>]\<rparr>"

lemma sample_get_prepared: "direct_prepare sample_get new_auth = Ret (sample_get_sent, new_auth)"
proof -
  have "\<not> strcaseeq ''Connection'' ''Authorization''" by code_simp
  then show ?thesis
    by (simp add: direct_prepare_def sample_get_def sample_get_sent_def new_rr_data_def hlist_mod_def hlist_add_def
        http_parse_basic_def Let_def)
qed

lemma sample_get_sendable: "sendable sample_get_sent No_body (the_ret (headers_text sample_get_sent))"
proof -
  have "\<not> strcaseeq ''CONNECT'' ''GET''" "strcaseeq ''GET'' ''GET''" by code_simp+
  then show ?thesis
    by (simp add: sendable_def sample_get_sent_def sample_get_def new_rr_data_def has_method_def bodyless_def headers_text_def
        Let_def)
qed

lemma sample_get_head: "has_method ''HEAD'' (Some sample_get_sent) = Ret False"
  by (simp add: has_method_def sample_get_sent_def sample_get_def new_rr_data_def strcaseeq_def)

lemma sample_conv_simps [simp]:
  "cv_creds (sample_conv c s) = new_auth" "cv_client (sample_conv c s) = sample_peer c"
  "cv_server (sample_conv c s) = sample_peer s" "peer_wf (sample_peer c)"
  by (simp_all add: sample_conv_def peer_wf_def)

lemma sample_same_server: "same_server ''H'' 80 sample_get"
proof -
  have "strcaseeq ''H'' ''h''" by code_simp
  then show ?thesis by (simp add: same_server_def sample_get_def)
qed

theorem direct_round_serves_witness:
  "\<exists>cv'. direct_round (\<lambda>_. None) 0 sample_rnd False ''H'' 80 [] sample_get
      (sample_conv ''next'' (the_ret (headers_text sample_reply) @ ''ok'')) = Some (Ret (Cont () cv'))
    \<and> so_data (p_in (cv_client cv')) = ''next''"
proof -
  have k: "\<not> strcaseeq ''Content-Length'' ''Connection''" by code_simp
  have st: "stays sample_reply (By_length ''ok'')"
    using k by (simp add: stays_def sample_reply_def hlist_subcmp_def)
  have e: "rr_empty sample_get = 0" by (simp add: sample_get_def)
  have p: "direct_prepare sample_get (cv_creds (sample_conv c s)) = Ret (sample_get_sent, new_auth)" for c s
    by (simp add: sample_get_prepared)
  from direct_round_serves [OF e sample_same_server p sample_get_sendable _ _ _ _ sample_reply_wf(1) _ sample_get_head
      sample_reply_wf(2), of "''next''" "the_ret (headers_text sample_reply) @ ''ok''" "''next''" "[]"
      "\<lambda>_. None" 0 sample_rnd False "[]"] sample_reply_wf(3) st
  show ?thesis by (fastforce simp: round_end_def moved_def)
qed

text \<open>The probe: the request with the negotiation message and without its body.\<close>

definition www_probe_headers :: "hlist_t \<Rightarrow> string \<Rightarrow> hlist_t" where
  "www_probe_headers hs buf = hlist_del (hlist_mod (hlist_mod (hlist_mod hs ''Connection'' ''keep-alive'' True)
     ''Authorization'' buf True) ''Content-Length'' ''0'' True) ''Transfer-Encoding''"

lemma www_probe_eq:
  assumes "body_wf d" "request_line creds = Ret buf"
  shows "www_probe d creds = Ret ((dup_view d)\<lparr>rr_headers := www_probe_headers (rr_headers d) buf\<rparr>)"
proof -
  have "dup_rr_data (Some d) = Ret (Some (dup_view d))"
    using copy_rr_data_eq [OF assms(1), of undefined] by (simp add: dup_view_def)
  with assms(2) show ?thesis by (simp add: www_probe_def Let_def www_probe_headers_def dup_view_def)
qed

text \<open>
  C12: NTLM with a web server.  When the reply to the request is a 401 that offers NTLM, the
  server's reply to the negotiation message has a challenge, and the reply to the authentication
  message is not a 401, the client gets that last reply and nothing of the other two.  The server
  gets three requests: the prepared one with its body, the one that negotiates, without a body,
  and the prepared one with the authentication message, but without its body: it is not sent again.
\<close>

theorem direct_round_ntlm:
  assumes "rr_empty d = 0" "same_server hostname port d" "direct_prepare d (cv_creds cv) = Ret (d1, creds)"
    "sendable d1 f0 t" "peer_wf (cv_client cv)" "peer_wf (cv_server cv)"
    "so_data (p_in (cv_client cv)) = frame_text f0 @ crest"
    "so_data (p_in (cv_server cv)) = reply_text r1 f1 @ reply_text r2 f2 @ the_ret (headers_text r) @ frame_text f @ srest"
    "reply_wf r1 f1" "rr_code r1 = 401" "hlist_subcmp_all (rr_headers r1) ''WWW-Authenticate'' ''NTLM''"
    "\<not> hlist_subcmp (rr_headers r1) ''Connection'' ''close''"
    "reply_wf r2 f2" "www_challenge_ok rn creds r2 chal olen m n" "response_wf r" "rr_code r \<noteq> 401"
    "body_wf d1" "request_line creds = Ret buf"
    "has_method ''HEAD'' (Some d1) = Ret head" "frame_ok (rr_headers r) (no_body head (rr_code r)) f"
    "if frame_last f then srest = [] \<and> \<not> so_err (p_in (cv_server cv)) else True"
  shows "\<exists>cv'. direct_round getaddrinfo src0 rn serialize hostname port es d cv =
      Some (Ret (round_end serialize (stays r f) cv'))
    \<and> moved (cv_server cv) srest (t @ frame_text f0
        @ the_ret (headers_text (with_headers d1 (www_probe_headers (rr_headers d1) buf)))
        @ the_ret (headers_text (www_authorize d1 (take n m)))) (cv_server cv')
    \<and> moved (cv_client cv) crest (the_ret (headers_text (direct_reply (stays r f) (received r))) @ frame_text f) (cv_client cv')
    \<and> cv_globals cv' = cv_globals cv"
proof -
  note P = www_probe_eq [OF assms(17,18)]
  have c: "rr_code ((dup_view d1)\<lparr>rr_headers := hs\<rparr>) = rr_code d1" for hs by (simp add: dup_view_def)
  have code: "- (2 ^ 31) \<le> rr_code d1" "rr_code d1 < 2 ^ 31" using assms(4) by (simp_all add: sendable_def)
  have t2: "headers_text (www_authorize d1 (take n m)) = Ret (the_ret (headers_text (www_authorize d1 (take n m))))"
    using sendable_text [OF assms(4)] by (simp add: www_authorize_def with_headers_def)
  show ?thesis
    by (rule direct_round_401 [OF assms(1-16) P _ _ _ t2 assms(19-21), unfolded headers_text_dup c,
        OF sendable_text [OF assms(4)] code])
qed

definition sample_401 :: rr_data_s where
  "sample_401 = sample_407\<lparr>rr_code := 401, rr_headers := [\<lparr>hkey = ''WWW-Authenticate'', hvalue = challenge_value sample_chal 200\<rparr>,
                    \<lparr>hkey = ''Content-Length'', hvalue = ''2''\<rparr>]\<rparr>"

definition sample_offer :: rr_data_s where
  "sample_offer = sample_401\<lparr>rr_headers := [\<lparr>hkey = ''WWW-Authenticate'', hvalue = ''NTLM''\<rparr>,
                    \<lparr>hkey = ''Content-Length'', hvalue = ''2''\<rparr>]\<rparr>"

lemma sample_401_wf:
  "reply_wf sample_401 (By_length ''no'')" "reply_wf sample_offer (By_length ''no'')" "rr_code sample_offer = 401"
  "hlist_subcmp_all (rr_headers sample_offer) ''WWW-Authenticate'' ''NTLM''"
  "\<not> hlist_subcmp (rr_headers sample_offer) ''Connection'' ''close''"
  "www_challenge_ok sample_rnd new_auth sample_401 sample_chal 200 m n \<longleftrightarrow>
     ntlm_response 1 7 0 (challenge_buffer sample_chal 200) 59 new_auth = Some (Ret (Some m, n)) \<and> 0 < n \<and> n \<le> length m"
proof -
  have noteq: "\<not> strcaseeq ''WWW-Authenticate'' ''Content-Length''" "\<not> strcaseeq ''WWW-Authenticate'' ''Transfer-Encoding''"
    "\<not> strcaseeq ''WWW-Authenticate'' ''Connection''" "\<not> strcaseeq ''Content-Length'' ''Connection''"
    "\<not> strcaseeq ''Content-Length'' ''WWW-Authenticate''"
    "strstr (lowercase ''NTLM'') (lowercase ''NTLM'') \<noteq> None" by code_simp+
  have h: "header_wf \<lparr>hkey = ''Proxy-Authenticate'', hvalue = challenge_value sample_chal 200\<rparr>"
    using sample_407_wf(1) by (simp add: reply_wf_def response_wf_def sample_407_def)
  have "header_wf \<lparr>hkey = ''WWW-Authenticate'', hvalue = challenge_value sample_chal 200\<rparr>"
    using h by (simp add: header_wf_def)
  moreover have "header_wf \<lparr>hkey = ''WWW-Authenticate'', hvalue = ''NTLM''\<rparr>" by (simp add: header_wf_def c_isspace_def)
  ultimately have "response_wf sample_401" "response_wf sample_offer"
    using sample_407_wf(1)
    by (simp_all add: reply_wf_def response_wf_def sample_401_def sample_offer_def sample_407_def new_rr_data_def)
  then show "reply_wf sample_401 (By_length ''no'')" "reply_wf sample_offer (By_length ''no'')"
    using noteq by (simp_all add: reply_wf_def sample_401_def sample_offer_def no_body_def chunked_def hlist_subcmp_def show_nat.simps)
  show "rr_code sample_offer = 401" by (simp add: sample_offer_def sample_401_def)
  show "hlist_subcmp_all (rr_headers sample_offer) ''WWW-Authenticate'' ''NTLM''"
    "\<not> hlist_subcmp (rr_headers sample_offer) ''Connection'' ''close''"
    using noteq by (auto simp: sample_offer_def hlist_subcmp_def intro!: hlist_subcmp_imp_all)
  show "www_challenge_ok sample_rnd new_auth sample_401 sample_chal 200 m n \<longleftrightarrow>
     ntlm_response 1 7 0 (challenge_buffer sample_chal 200) 59 new_auth = Some (Ret (Some m, n)) \<and> 0 < n \<and> n \<le> length m"
    by (simp add: www_challenge_ok_def b64_room_def length_sample_chal sample_rnd_def sample_401_def)
qed

theorem direct_round_ntlm_witness:
  "\<exists>cv'. direct_round (\<lambda>_. None) 0 sample_rnd True ''H'' 80 [] sample_get
      (sample_conv ''next'' (reply_text sample_offer (By_length ''no'') @ reply_text sample_401 (By_length ''no'')
        @ the_ret (headers_text sample_reply) @ ''ok'')) = Some (Ret (Leave Ret_null cv'))
    \<and> so_data (p_in (cv_client cv')) = ''next''"
proof -
  have k: "\<not> strcaseeq ''Content-Length'' ''Connection''" by code_simp
  have st: "stays sample_reply (By_length ''ok'')"
    using k by (simp add: stays_def sample_reply_def hlist_subcmp_def)
  have e: "rr_empty sample_get = 0" by (simp add: sample_get_def)
  have p: "direct_prepare sample_get (cv_creds (sample_conv c s)) = Ret (sample_get_sent, new_auth)" for c s
    by (simp add: sample_get_prepared)
  have b: "body_wf sample_get_sent" by (simp add: body_wf_def sample_get_sent_def sample_get_def new_rr_data_def)
  from new_auth_request obtain buf where r: "request_line new_auth = Ret buf" by blast
  from sample_response obtain m n where ch: "www_challenge_ok sample_rnd new_auth sample_401 sample_chal 200 m n"
    using sample_401_wf(6) by blast
  let ?s = "reply_text sample_offer (By_length ''no'') @ reply_text sample_401 (By_length ''no'')
        @ the_ret (headers_text sample_reply) @ ''ok''"
  from direct_round_ntlm [OF e sample_same_server p sample_get_sendable _ _ _ _ sample_401_wf(2-5,1) ch sample_reply_wf(1) _ b r
      sample_get_head sample_reply_wf(2), of "''next''" ?s "''next''" "[]" "\<lambda>_. None" 0 True "[]"] sample_reply_wf(3) st
  obtain cv' where "direct_round (\<lambda>_. None) 0 sample_rnd True ''H'' 80 [] sample_get (sample_conv ''next'' ?s) =
      Some (Ret (round_end True True cv'))" "so_data (p_in (cv_client cv')) = ''next''"
    by (fastforce simp: moved_def)
  then show ?thesis by (simp add: round_end_def)
qed

text \<open>
  Credentials for the parent that reach a web server.  Of several Proxy-Authorization headers
  of the client only the first is removed before the request goes to the web server itself: all
  others are sent, in clear.
\<close>

theorem direct_prepare_leaks:
  assumes "rr_req d \<noteq> 0" "direct_prepare d creds = Ret (d1, creds')"
  shows "values_of (rr_headers d1) ''Proxy-Authorization'' = tl (values_of (rr_headers d) ''Proxy-Authorization'')"
proof -
  have d1: "rr_headers d1 = hlist_del (hlist_mod (rr_headers d) ''Connection'' ''keep-alive'' True) ''Proxy-Authorization''"
    using assms unfolding direct_prepare_def
    by (auto simp: Let_def c_bind_Ret_iff split: option.splits)
  show ?thesis unfolding d1 values_of_del by (simp add: values_of_mod_other)
qed

theorem direct_prepare_leaks_witness:
  "\<exists>d1. direct_prepare (sample_get\<lparr>rr_headers := [\<lparr>hkey = ''Proxy-Authorization'', hvalue = ''a''\<rparr>,
      \<lparr>hkey = ''Proxy-Authorization'', hvalue = ''b''\<rparr>]\<rparr>) new_auth = Ret (d1, new_auth)
    \<and> values_of (rr_headers d1) ''Proxy-Authorization'' = [''b'']"
proof -
  let ?d = "sample_get\<lparr>rr_headers := [\<lparr>hkey = ''Proxy-Authorization'', hvalue = ''a''\<rparr>,
      \<lparr>hkey = ''Proxy-Authorization'', hvalue = ''b''\<rparr>]\<rparr>"
  have n: "\<not> strcaseeq ''Proxy-Authorization'' ''Authorization''" "\<not> strcaseeq ''Connection'' ''Authorization''"
    "\<not> strcaseeq ''Proxy-Authorization'' ''Connection''" by code_simp+
  then obtain d1 where "direct_prepare ?d new_auth = Ret (d1, new_auth)"
    by (auto simp: direct_prepare_def sample_get_def new_rr_data_def hlist_mod_def hlist_add_def http_parse_basic_def Let_def)
  moreover from direct_prepare_leaks [OF _ this]
  have "values_of (rr_headers d1) ''Proxy-Authorization'' = [''b'']" by (simp add: values_of_def sample_get_def)
  ultimately show ?thesis by blast
qed

end
