(* ===== verification/Request.thy ===== *)
theory Request
  imports Conversation
begin

text \<open>
  forward\_request of forward.c: requests through the parent, with the cache of authenticated
  connections, the NTLM handshake and the two jumps.
\<close>

section \<open>State\<close>

text \<open>
  The variables of the function: the client's connection, the descriptor \<open>sd\<close> with what is behind
  it when it is open, the credentials of the thread and the flags.  \<open>fw_idle\<close> has the connections
  of the descriptors in the cache.
\<close>

record fwd =
  fw_client :: peer
  fw_sd :: int
  fw_server :: "peer option"
  fw_creds :: auth_s
  fw_globals :: globals
  fw_idle :: "int \<Rightarrow> peer option"
  fw_host :: "string option"
  fw_authok :: bool
  fw_noauth :: bool
  fw_cached :: bool
  fw_alive :: bool

text \<open>
  One pass over the two loops ends with the next request, with the end of the function, or with the
  jump back to the beginning, which takes the request along.
\<close>

datatype fwd_step = F_next fwd | F_leave thread_ret fwd | F_retry rr_data_s fwd

definition start_fwd :: "globals \<Rightarrow> (int \<Rightarrow> peer option) \<Rightarrow> peer \<Rightarrow> fwd" where
  "start_fwd g idle cd = \<lparr>fw_client = cd, fw_sd = 0, fw_server = None, fw_creds = new_auth, fw_globals = g,
     fw_idle = idle, fw_host = None, fw_authok = False, fw_noauth = False, fw_cached = False, fw_alive = False\<rparr>"

definition fwd_closed :: "peer option \<Rightarrow> bool" where
  "fwd_closed q = (case q of None \<Rightarrow> True | Some p \<Rightarrow> sink_closed (p_out p))"

section \<open>A connection to the parent\<close>

text \<open>From the cache, with its credentials, or a new one; whether there is one.\<close>

definition forward_open :: "gai \<Rightarrow> rr_data_s \<Rightarrow> fwd \<Rightarrow> (bool \<times> fwd) c_result" where
  "forward_open getaddrinfo request fw =
     (let fw0 = fw\<lparr>fw_sd := 0, fw_cached := False, fw_noauth := False, fw_authok := False, fw_alive := False\<rparr>
      in c_bind (cache_take (\<lambda>i. fwd_closed (fw_idle fw i)) (fw_globals fw)) (\<lambda>((i, a), g).
           if i \<noteq> 0 then
             (case a of
                None \<Rightarrow> UB
              | Some c \<Rightarrow> Ret (True, fw0\<lparr>fw_sd := i, fw_server := fw_idle fw i, fw_creds := c, fw_globals := g,
                             fw_idle := (fw_idle fw)(i := None), fw_authok := True, fw_cached := True\<rparr>))
           else c_bind (proxy_connect getaddrinfo g (Some new_auth)) (\<lambda>((sd, q), a, g').
             let fw1 = fw0\<lparr>fw_sd := sd, fw_server := q, fw_globals := g',
                           fw_creds := (case a of None \<Rightarrow> new_auth | Some c \<Rightarrow> c)\<rparr>
             in Ret (if sd \<le> 0
                     then (False, fw1\<lparr>fw_client := pass_on (gen_502_page (rr_http request)
                                        (Some ''Parent proxy unreacheable'')) (fw_client fw1)\<rparr>)
                     else (True, fw1)))))"

text \<open>The end: the connection goes to the cache, or it is closed.\<close>

definition forward_close :: "thread_ret \<Rightarrow> fwd \<Rightarrow> (thread_ret \<times> fwd) c_result" where
  "forward_close rc fw =
     (if fw_alive fw \<and> fw_authok fw \<and> \<not> g_ntlmbasic (fw_globals fw) \<and> \<not> fwd_closed (fw_server fw)
      then c_bind (cache_store (fw_sd fw) (fw_creds fw) (fw_globals fw)) (\<lambda>g.
             Ret (rc, fw\<lparr>fw_globals := g, fw_idle := (fw_idle fw)(fw_sd fw := fw_server fw), fw_server := None\<rparr>))
      else Ret (rc, fw\<lparr>fw_server := None\<rparr>))"

section \<open>The request\<close>

text \<open>Its headers: the configured replacements, and no credentials.\<close>

definition forward_modify :: "hlist_t \<Rightarrow> rr_data_s \<Rightarrow> rr_data_s" where
  "forward_modify header_list d = d\<lparr>rr_headers := hlist_purge
     (hlist_mod (hlist_replace (rr_headers d) header_list False) ''Proxy-Connection'' ''keep-alive'' True)
     ''Proxy-Authorization''\<rparr>"

text \<open>\<open>None\<close> when the client was sent a 407 because its credentials are missing.\<close>

definition forward_prepare :: "rr_data_s \<Rightarrow> fwd \<Rightarrow> (rr_data_s option \<times> fwd) c_result" where
  "forward_prepare d fw =
     (if rr_req d = 0 then Ret (Some d, fw)
      else c_bind (http_parse_basic (rr_headers d) ''Proxy-Authorization'' (fw_creds fw)) (\<lambda>(n, c).
        let fw1 = fw\<lparr>fw_creds := c\<rparr>
        in if \<not> n > 0 \<and> g_ntlmbasic (fw_globals fw)
           then Ret (None, fw1\<lparr>fw_client := pass_on (gen_407_page (rr_http d)) (fw_client fw)\<rparr>)
           else Ret (Some (forward_modify (g_header_list (fw_globals fw)) d), fw1)))"

text \<open>
  A connection that is not authenticated is, before the request is sent.  When the parent wants no
  authentication, its reply to the attempt is the reply to the request.
\<close>

datatype auth_step = Auth_fail | Auth_reply rr_data_s | Auth_go

definition forward_auth :: "gai \<Rightarrow> rnd \<Rightarrow> rr_data_s \<Rightarrow> fwd \<Rightarrow> (auth_step \<times> rr_data_s \<times> fwd) c_prog" where
  "forward_auth getaddrinfo rn d fw =
     (if rr_req d = 0 \<or> fw_authok fw \<or> fw_noauth fw then Some (Ret (Auth_go, d, fw))
      else (case fw_server fw of
        None \<Rightarrow> Some (Ret (Auth_fail, d, fw))
      | Some p \<Rightarrow>
          p_bind (proxy_authenticate getaddrinfo rn (fw_globals fw) (fw_sd fw) p d (Some new_rr_data) (fw_creds fw)) (\<lambda>r.
            let fw1 = fw\<lparr>fw_sd := ar_fd r, fw_server := ar_peer r, fw_creds := ar_creds r, fw_globals := ar_globals r\<rparr>
            in if \<not> ar_rc r then Some (Ret (Auth_fail, ar_request r, fw1))
               else (case ar_response r of
                       None \<Rightarrow> Some UB
                     | Some d1 \<Rightarrow>
                         Some (Ret (if rr_code d1 \<noteq> 407
                           then (Auth_reply d1, ar_request r, fw1\<lparr>fw_noauth := (fw_noauth fw \<or> rr_code d1 < 400)\<rparr>)
                           else (Auth_go, ar_request r, fw1)))))))"

definition forward_send :: "rr_data_s \<Rightarrow> fwd \<Rightarrow> (bool \<times> fwd) c_prog" where
  "forward_send d fw =
     (case fw_server fw of
        None \<Rightarrow> Some (Ret (False, fw))
      | Some p \<Rightarrow>
          p_bind (peer_send p d) (\<lambda>(ok, s).
            if \<not> ok then Some (Ret (False, fw\<lparr>fw_server := Some s\<rparr>))
            else p_bind (body_relay (fw_client fw) s d new_rr_data) (\<lambda>(ok, c, s').
                   Some (Ret (ok, fw\<lparr>fw_client := c, fw_server := Some s'\<rparr>)))))"

definition forward_recv :: "fwd \<Rightarrow> (bool \<times> rr_data_s \<times> fwd) c_prog" where
  "forward_recv fw =
     (case fw_server fw of
        None \<Rightarrow> Some (Ret (False, new_rr_data, fw))
      | Some p \<Rightarrow> p_bind (peer_recv p new_rr_data) (\<lambda>(ok, d, s).
                    Some (Ret (ok, d, fw\<lparr>fw_server := Some s\<rparr>))))"

section \<open>The reply\<close>

definition forward_reply_headers :: "bool \<Rightarrow> rr_data_s \<Rightarrow> rr_data_s" where
  "forward_reply_headers conn_alive d =
     (let h1 = (if conn_alive then rr_headers d else hlist_mod (rr_headers d) ''Connection'' ''close'' True);
          h2 = hlist_purge h1 ''Proxy-Authenticate''
      in d\<lparr>rr_headers := (if rr_code d = 407
                          then hlist_mod h2 ''Proxy-Authenticate'' ''Basic realm=\"Cntlm for parent\"'' True else h2)\<rparr>)"

text \<open>A descriptor that is not open has nothing to read.\<close>

definition dead_peer :: peer where
  "dead_peer = \<lparr>p_in = \<lparr>so_segs = [], so_err = True\<rparr>, p_out = \<lparr>sk_out = [], sk_plan = [(True, None)]\<rparr>\<rparr>"

definition forward_tunnel_run :: "sel list \<Rightarrow> fwd \<Rightarrow> fwd" where
  "forward_tunnel_run es fw =
     (let r = run_tunnel es (fw_client fw) (fw_server fw) (fw_globals fw)
      in fw\<lparr>fw_client := rl_client r, fw_server := rl_server r\<rparr>)"

text \<open>The flags, the message for the client, and what comes after it.\<close>

definition forward_finish :: "bool \<Rightarrow> bool \<Rightarrow> rr_data_s \<Rightarrow> fwd \<Rightarrow> fwd_step" where
  "forward_finish serialize conn_alive d2 fw =
     (let alive = hlist_subcmp (rr_headers d2) ''Proxy-Connection'' ''keep-alive'';
          fw' = fw\<lparr>fw_alive := alive\<rparr>
      in if conn_alive \<and> alive \<and> \<not> fwd_closed (fw_server fw') \<and> \<not> sink_closed (p_out (fw_client fw')) \<and> \<not> serialize
         then F_next fw'
         else F_leave (if alive then Ret_null else Ret_stop) fw')"

definition forward_deliver ::
  "bool \<Rightarrow> sel list \<Rightarrow> rr_data_s \<Rightarrow> bool \<Rightarrow> rr_data_s \<Rightarrow> fwd \<Rightarrow> fwd_step c_prog" where
  "forward_deliver serialize es d0 conn_alive d2 fw =
     p_bind (peer_send (fw_client fw) d2) (\<lambda>(ok, c).
       let fw2 = fw\<lparr>fw_client := c\<rparr>
       in if \<not> ok then Some (Ret (F_leave Ret_stop fw2))
          else p_bind (Some (has_method ''CONNECT'' (Some d0))) (\<lambda>connect.
            if connect \<and> rr_code d2 = 200
            then Some (Ret (F_leave Ret_stop (forward_tunnel_run es fw2)))
            else p_bind (body_relay (case fw_server fw2 of None \<Rightarrow> dead_peer | Some s \<Rightarrow> s) (fw_client fw2) d0 d2)
                   (\<lambda>(ok, s, c').
              let fw3 = fw2\<lparr>fw_client := c', fw_server := map_option (\<lambda>_. s) (fw_server fw2)\<rparr>
              in Some (Ret (if ok then forward_finish serialize conn_alive d2 fw3 else F_leave Ret_stop fw3)))))"

definition forward_reply :: "bool \<Rightarrow> sel list \<Rightarrow> rr_data_s \<Rightarrow> rr_data_s \<Rightarrow> fwd \<Rightarrow> fwd_step c_prog" where
  "forward_reply serialize es d0 d1 fw =
     (if rr_code d1 = 407 \<and> (fw_cached fw \<or> fw_noauth fw)
      then Some (Ret (F_retry d0 (fw\<lparr>fw_server := None\<rparr>)))
      else let fw1 = fw\<lparr>fw_authok := (fw_authok fw \<or> \<not> fw_noauth fw \<and> rr_code d1 \<noteq> 407)\<rparr>;
               conn_alive = hlist_subcmp (rr_headers d1) ''Connection'' ''keep-alive''
           in forward_deliver serialize es d0 conn_alive (forward_reply_headers conn_alive d1) fw1)"

section \<open>The loops\<close>

text \<open>The request is for another host: the caller decides again.\<close>

definition host_changed :: "rr_data_s \<Rightarrow> fwd \<Rightarrow> bool" where
  "host_changed d fw =
     (case (fw_host fw, rr_hostname d) of (Some h, Some h') \<Rightarrow> \<not> strcaseeq h h' | _ \<Rightarrow> False)"

definition forward_round ::
  "gai \<Rightarrow> rnd \<Rightarrow> bool \<Rightarrow> sel list \<Rightarrow> rr_data_s \<Rightarrow> fwd \<Rightarrow> fwd_step c_prog" where
  "forward_round getaddrinfo rn serialize es d fw =
     (let fw0 = fw\<lparr>fw_alive := False\<rparr>
      in p_bind (if rr_empty d \<noteq> 0 then peer_recv (fw_client fw) d else Some (Ret (True, d, fw_client fw)))
        (\<lambda>(ok, d0, c).
        let fw1 = fw0\<lparr>fw_client := c\<rparr>
        in if \<not> ok then Some (Ret (F_leave Ret_stop fw1))
           else if host_changed d0 fw1
           then p_bind (Some (dup_rr_data (Some d0))) (\<lambda>r.
                  Some (Ret (F_leave (case r of None \<Rightarrow> Ret_null | Some q \<Rightarrow> Ret_request q)
                               (fw1\<lparr>fw_alive := fw_authok fw1\<rparr>))))
           else p_bind (Some (forward_prepare d0 fw1)) (\<lambda>(p, fw2).
             case p of
               None \<Rightarrow> Some (Ret (F_leave Ret_stop fw2))
             | Some d1 \<Rightarrow>
                 p_bind (forward_auth getaddrinfo rn d1 fw2) (\<lambda>(st, d2, fw3).
                   case st of
                     Auth_fail \<Rightarrow> Some (Ret (F_leave Ret_stop fw3))
                   | Auth_reply r \<Rightarrow> forward_reply serialize es d2 r fw3
                   | Auth_go \<Rightarrow>
                       p_bind (forward_send d2 fw3) (\<lambda>(ok, fw4).
                         if \<not> ok then Some (Ret (F_leave Ret_stop fw4))
                         else p_bind (forward_recv fw4) (\<lambda>(ok, r, fw5).
                           if \<not> ok then Some (Ret (F_leave Ret_stop fw5))
                           else forward_reply serialize es d2 r fw5))))))"

text \<open>The host of the thread is that of the first request that has one.\<close>

definition keep_host :: "rr_data_s \<Rightarrow> fwd \<Rightarrow> fwd" where
  "keep_host request fw = (case fw_host fw of None \<Rightarrow> fw\<lparr>fw_host := rr_hostname request\<rparr> | Some _ \<Rightarrow> fw)"

partial_function (option) forward_loop ::
  "gai \<Rightarrow> rnd \<Rightarrow> bool \<Rightarrow> sel list \<Rightarrow> rr_data_s \<Rightarrow> fwd \<Rightarrow> (thread_ret \<times> fwd) c_prog" where
  "forward_loop getaddrinfo rn serialize es d fw =
     (case forward_round getaddrinfo rn serialize es d fw of
        None \<Rightarrow> None
      | Some UB \<Rightarrow> Some UB
      | Some (Ret (F_leave rc fw')) \<Rightarrow> Some (Ret (rc, fw'))
      | Some (Ret (F_next fw')) \<Rightarrow> forward_loop getaddrinfo rn serialize es new_rr_data fw'
      | Some (Ret (F_retry request fw')) \<Rightarrow>
          (case forward_open getaddrinfo request fw' of
             UB \<Rightarrow> Some UB
           | Ret (ok, fw2) \<Rightarrow>
               if ok then forward_loop getaddrinfo rn serialize es request (keep_host request fw2)
               else Some (Ret (Ret_stop, fw2))))"

definition forward_request ::
  "gai \<Rightarrow> rnd \<Rightarrow> bool \<Rightarrow> sel list \<Rightarrow> globals \<Rightarrow> (int \<Rightarrow> peer option) \<Rightarrow> peer \<Rightarrow> rr_data_s \<Rightarrow> (thread_ret \<times> fwd) c_prog" where
  "forward_request getaddrinfo rn serialize es g idle cd request =
     p_bind (Some (forward_open getaddrinfo request (start_fwd g idle cd))) (\<lambda>(ok, fw).
       if \<not> ok then Some (forward_close Ret_stop fw)
       else p_bind (Some (dup_rr_data (Some request))) (\<lambda>d.
         case d of
           None \<Rightarrow> Some UB
         | Some d0 \<Rightarrow> p_bind (forward_loop getaddrinfo rn serialize es d0 (keep_host request fw)) (\<lambda>(rc, fw').
                         Some (forward_close rc fw'))))"

section \<open>The reply on its way to the client\<close>

lemma forward_reply_headers_simps [simp]:
  "rr_code (forward_reply_headers a d) = rr_code d" "rr_empty (forward_reply_headers a d) = rr_empty d"
  "rr_req (forward_reply_headers a d) = rr_req d" "rr_http (forward_reply_headers a d) = rr_http d"
  "rr_msg (forward_reply_headers a d) = rr_msg d" "rr_skip_http (forward_reply_headers a d) = rr_skip_http d"
  by (simp_all add: forward_reply_headers_def Let_def)

text \<open>What the client gets, and whether the conversation goes on after it.\<close>

definition client_reply :: "rr_data_s \<Rightarrow> rr_data_s" where
  "client_reply r = forward_reply_headers (hlist_subcmp (rr_headers r) ''Connection'' ''keep-alive'') (received r)"

definition kept :: "rr_data_s \<Rightarrow> bool" where
  "kept r \<longleftrightarrow> hlist_subcmp (rr_headers (client_reply r)) ''Proxy-Connection'' ''keep-alive''"

definition forward_end :: "bool \<Rightarrow> rr_data_s \<Rightarrow> fwd \<Rightarrow> fwd_step" where
  "forward_end serialize r fw =
     (if hlist_subcmp (rr_headers r) ''Connection'' ''keep-alive'' \<and> kept r \<and> \<not> serialize then F_next fw
      else F_leave (if kept r then Ret_null else Ret_stop) fw)"

text \<open>The state after a reply.\<close>

definition after_reply :: "rr_data_s \<Rightarrow> fwd \<Rightarrow> peer \<Rightarrow> peer \<Rightarrow> fwd" where
  "after_reply r fw c s = fw\<lparr>fw_client := c, fw_server := Some s, fw_alive := kept r,
     fw_authok := (fw_authok fw \<or> (\<not> fw_noauth fw \<and> rr_code r \<noteq> 407))\<rparr>"

lemma forward_reply_sends:
  assumes "response_wf r" "rr_code r \<noteq> 407 \<or> (\<not> fw_cached fw \<and> \<not> fw_noauth fw)"
    "has_method ''HEAD'' (Some d0) = Ret head" "has_method ''CONNECT'' (Some d0) = Ret False"
    "frame_ok (rr_headers (client_reply r)) (no_body head (rr_code r)) f"
    "fw_server fw = Some s" "peer_wf (fw_client fw)" "peer_wf s" "so_data (p_in s) = frame_text f @ srest"
    "if frame_last f then srest = [] \<and> \<not> so_err (p_in s) else True"
  shows "\<exists>s' c'. forward_reply serialize es d0 (received r) fw = Some (Ret (forward_end serialize r (after_reply r fw c' s')))
    \<and> moved s srest [] s' \<and> moved (fw_client fw) (so_data (p_in (fw_client fw)))
        (the_ret (headers_text (client_reply r)) @ frame_text f) c'"
proof -
  let ?d = "client_reply r" and ?c = "fw_client fw"
  obtain h m where hm: "rr_http r = Some h" "rr_msg r = Some m"
    using assms(1) by (auto simp: response_wf_def split: option.splits)
  have t: "headers_text ?d = Ret (the_ret (headers_text ?d))"
    using hm by (simp add: headers_text_def Let_def client_reply_def)
  have simps: "rr_code ?d = rr_code r" "rr_empty ?d = 0" by (simp_all add: client_reply_def)
  have code: "- (2 ^ 31) \<le> rr_code ?d" "rr_code ?d < 2 ^ 31" using assms(1) by (simp_all add: simps response_wf_def)
  from peer_send_text [OF t code assms(7)] obtain c1 where
    S: "peer_send ?c ?d = Some (Ret (True, c1))" "moved ?c (so_data (p_in ?c)) (the_ret (headers_text ?d)) c1" by blast
  have fr: "frame_ok (rr_headers ?d) (no_body head (rr_code ?d)) f" using assms(5) by (simp add: simps)
  from body_relay_response [OF simps(2) assms(3) fr assms(8) moved_wf [OF S(2)] assms(9,10)] obtain s' c' where
    B: "body_relay s c1 d0 ?d = Some (Ret (True, s', c'))" "moved s srest [] s'"
    "moved c1 (so_data (p_in c1)) (frame_text f) c'" by blast
  have M: "moved ?c (so_data (p_in ?c)) (the_ret (headers_text ?d) @ frame_text f) c'"
    using moved_trans [OF S(2) B(3)] moved_data [OF S(2)] by simp
  have o: "\<not> fwd_closed (Some s')" "\<not> sink_closed (p_out c')"
    using moved_wf [OF B(2)] moved_wf [OF M] by (simp_all add: fwd_closed_def peer_wf_open)
  let ?a = "fw_authok fw \<or> \<not> fw_noauth fw \<and> rr_code r \<noteq> 407"
  have F: "forward_finish serialize ka ?d (fw\<lparr>fw_authok := ?a, fw_client := c', fw_server := Some s'\<rparr>) =
      (if ka \<and> kept r \<and> \<not> serialize then F_next (after_reply r fw c' s')
       else F_leave (if kept r then Ret_null else Ret_stop) (after_reply r fw c' s'))" for ka
    using o by (cases fw) (simp add: forward_finish_def kept_def after_reply_def Let_def)
  have "forward_deliver serialize es d0 ka ?d (fw\<lparr>fw_authok := ?a\<rparr>) = Some (Ret
      (forward_finish serialize ka ?d (fw\<lparr>fw_authok := ?a, fw_client := c', fw_server := Some s'\<rparr>)))" for ka
    using assms(4,6) S(1) B(1) by (cases fw) (simp add: forward_deliver_def Let_def)
  then have "forward_reply serialize es d0 (received r) fw = Some (Ret (forward_end serialize r (after_reply r fw c' s')))"
    using assms(2) unfolding forward_reply_def F
    by (auto simp: Let_def client_reply_def [symmetric] forward_end_def)
  with B(2) M show ?thesis by blast
qed

section \<open>The request on its way to the parent\<close>

text \<open>The credentials of the request are used, or they are not wanted.\<close>

definition logged_in :: "rr_data_s \<Rightarrow> fwd \<Rightarrow> auth_s \<Rightarrow> bool" where
  "logged_in d fw c \<longleftrightarrow> (\<exists>n. http_parse_basic (rr_headers d) ''Proxy-Authorization'' (fw_creds fw) = Ret (n, c)
     \<and> (n > 0 \<or> \<not> g_ntlmbasic (fw_globals fw)))"

lemma forward_prepare_eq:
  "rr_req d \<noteq> 0 \<Longrightarrow> logged_in d fw c \<Longrightarrow>
    forward_prepare d fw = Ret (Some (forward_modify (g_header_list (fw_globals fw)) d), fw\<lparr>fw_creds := c\<rparr>)"
  by (auto simp: logged_in_def forward_prepare_def)

lemma forward_modify_simps [simp]:
  "rr_req (forward_modify hl d) = rr_req d" "rr_method (forward_modify hl d) = rr_method d"
  "rr_code (forward_modify hl d) = rr_code d" "rr_hostname (forward_modify hl d) = rr_hostname d"
  "rr_empty (forward_modify hl d) = rr_empty d" "rr_http (forward_modify hl d) = rr_http d"
  by (simp_all add: forward_modify_def)

lemma forward_send_text:
  assumes "sendable d f t" "fw_server fw = Some s" "peer_wf (fw_client fw)" "peer_wf s"
    "so_data (p_in (fw_client fw)) = frame_text f @ crest"
  shows "\<exists>c s'. forward_send d fw = Some (Ret (True, fw\<lparr>fw_client := c, fw_server := Some s'\<rparr>))
    \<and> moved (fw_client fw) crest [] c \<and> moved s (so_data (p_in s)) (t @ frame_text f) s' \<and> so_err (p_in s') = so_err (p_in s)"
  using request_relay [OF assms(1,3,4,5)] assms(2) by (fastforce simp: forward_send_def)

text \<open>
  The request and the reply on a connection that needs no handshake: what is left is the decision
  about the reply, in the state \<open>fw\<close> of the request.
\<close>

lemma forward_exchange:
  assumes "sendable d f0 t" "fw_server fw = Some s" "peer_wf (fw_client fw)" "peer_wf s"
    "so_data (p_in (fw_client fw)) = frame_text f0 @ crest"
    "so_data (p_in s) = the_ret (headers_text r) @ srest" "response_wf r"
  shows "\<exists>c s1 s2. forward_send d fw = Some (Ret (True, fw\<lparr>fw_client := c, fw_server := Some s1\<rparr>))
    \<and> forward_recv (fw\<lparr>fw_client := c, fw_server := Some s1\<rparr>) =
        Some (Ret (True, received r, fw\<lparr>fw_client := c, fw_server := Some s2\<rparr>))
    \<and> moved (fw_client fw) crest [] c \<and> moved s srest (t @ frame_text f0) s2 \<and> so_err (p_in s2) = so_err (p_in s)"
proof -
  from forward_send_text [OF assms(1-5)] obtain c s1 where
    S: "forward_send d fw = Some (Ret (True, fw\<lparr>fw_client := c, fw_server := Some s1\<rparr>))"
    "moved (fw_client fw) crest [] c" "moved s (so_data (p_in s)) (t @ frame_text f0) s1" "so_err (p_in s1) = so_err (p_in s)"
    by blast
  from peer_recv_reply [OF assms(7) moved_wf [OF S(3)]] moved_data [OF S(3)] assms(6) obtain s2 where
    R: "peer_recv s1 new_rr_data = Some (Ret (True, received r, s2))" "moved s1 srest [] s2" "so_err (p_in s2) = so_err (p_in s1)"
    by metis
  have "moved s srest (t @ frame_text f0) s2" using moved_trans [OF S(3) R(2)] by simp
  with S R show ?thesis by (fastforce simp: forward_recv_def)
qed

text \<open>The state in which the request is sent, and the pass when the connection is ready for it.\<close>

definition ready :: "auth_s \<Rightarrow> fwd \<Rightarrow> fwd" where
  "ready c fw = fw\<lparr>fw_alive := False, fw_creds := c\<rparr>"

lemma ready_simps [simp]:
  "fw_client (ready c fw) = fw_client fw" "fw_server (ready c fw) = fw_server fw" "fw_sd (ready c fw) = fw_sd fw"
  "fw_globals (ready c fw) = fw_globals fw" "fw_creds (ready c fw) = c" "fw_authok (ready c fw) = fw_authok fw"
  "fw_noauth (ready c fw) = fw_noauth fw" "fw_cached (ready c fw) = fw_cached fw" "fw_idle (ready c fw) = fw_idle fw"
  "fw_host (ready c fw) = fw_host fw"
  by (simp_all add: ready_def)

lemma forward_round_go:
  assumes "rr_empty d = 0" "rr_req d \<noteq> 0" "\<not> host_changed d fw" "logged_in d fw creds"
    "forward_auth getaddrinfo rn (forward_modify (g_header_list (fw_globals fw)) d) (ready creds fw) =
       Some (Ret (Auth_go, d2, fw3))"
    "sendable d2 f0 t" "fw_server fw3 = Some s" "peer_wf (fw_client fw3)" "peer_wf s"
    "so_data (p_in (fw_client fw3)) = frame_text f0 @ crest"
    "so_data (p_in s) = the_ret (headers_text r) @ srest" "response_wf r"
  shows "\<exists>c s2. forward_round getaddrinfo rn serialize es d fw =
      forward_reply serialize es d2 (received r) (fw3\<lparr>fw_client := c, fw_server := Some s2\<rparr>)
    \<and> moved (fw_client fw3) crest [] c \<and> moved s srest (t @ frame_text f0) s2 \<and> so_err (p_in s2) = so_err (p_in s)"
proof -
  let ?fw1 = "fw\<lparr>fw_alive := False, fw_client := fw_client fw\<rparr>"
  have eq: "fw_globals ?fw1 = fw_globals fw" "?fw1\<lparr>fw_creds := creds\<rparr> = ready creds fw"
    by (cases fw, simp add: ready_def)+
  have "logged_in d ?fw1 creds" "host_changed d ?fw1 = host_changed d fw"
    using assms(4) by (simp_all add: logged_in_def host_changed_def)
  with forward_prepare_eq [OF assms(2) this(1)] assms(3)
  have P: "forward_prepare d ?fw1 = Ret (Some (forward_modify (g_header_list (fw_globals fw)) d), ready creds fw)"
    "\<not> host_changed d ?fw1" by (simp_all only: eq not_False_eq_True)
  from forward_exchange [OF assms(6-12)] obtain c s1 s2 where
    E: "forward_send d2 fw3 = Some (Ret (True, fw3\<lparr>fw_client := c, fw_server := Some s1\<rparr>))"
    "forward_recv (fw3\<lparr>fw_client := c, fw_server := Some s1\<rparr>) =
       Some (Ret (True, received r, fw3\<lparr>fw_client := c, fw_server := Some s2\<rparr>))"
    "moved (fw_client fw3) crest [] c" "moved s srest (t @ frame_text f0) s2" "so_err (p_in s2) = so_err (p_in s)" by blast
  have "forward_round getaddrinfo rn serialize es d fw =
      forward_reply serialize es d2 (received r) (fw3\<lparr>fw_client := c, fw_server := Some s2\<rparr>)"
    using assms(1,5) P E(1,2) by (simp add: forward_round_def Let_def)
  with E(3-5) show ?thesis by blast
qed

text \<open>The reply that is for the client.\<close>

lemma forward_round_sends:
  assumes "rr_empty d = 0" "rr_req d \<noteq> 0" "\<not> host_changed d fw" "logged_in d fw creds"
    "forward_auth getaddrinfo rn (forward_modify (g_header_list (fw_globals fw)) d) (ready creds fw) =
       Some (Ret (Auth_go, d2, fw3))"
    "sendable d2 f0 t" "fw_server fw3 = Some s" "peer_wf (fw_client fw3)" "peer_wf s"
    "so_data (p_in (fw_client fw3)) = frame_text f0 @ crest"
    "so_data (p_in s) = the_ret (headers_text r) @ frame_text f @ srest" "response_wf r"
    "rr_code r \<noteq> 407 \<or> (\<not> fw_cached fw3 \<and> \<not> fw_noauth fw3)"
    "has_method ''HEAD'' (Some d2) = Ret head"
    "frame_ok (rr_headers (client_reply r)) (no_body head (rr_code r)) f"
    "if frame_last f then srest = [] \<and> \<not> so_err (p_in s) else True"
  shows "\<exists>c' s'. forward_round getaddrinfo rn serialize es d fw = Some (Ret (forward_end serialize r (after_reply r fw3 c' s')))
    \<and> moved s srest (t @ frame_text f0) s'
    \<and> moved (fw_client fw3) crest (the_ret (headers_text (client_reply r)) @ frame_text f) c'"
proof -
  from forward_round_go [OF assms(1-12)] obtain c s2 where
    G: "forward_round getaddrinfo rn serialize es d fw =
      forward_reply serialize es d2 (received r) (fw3\<lparr>fw_client := c, fw_server := Some s2\<rparr>)"
    "moved (fw_client fw3) crest [] c" "moved s (frame_text f @ srest) (t @ frame_text f0) s2"
    "so_err (p_in s2) = so_err (p_in s)" by blast
  let ?fw = "fw3\<lparr>fw_client := c, fw_server := Some s2\<rparr>"
  have m: "has_method ''CONNECT'' (Some d2) = Ret False" using assms(6) by (simp add: sendable_def)
  have h: "rr_code r \<noteq> 407 \<or> (\<not> fw_cached ?fw \<and> \<not> fw_noauth ?fw)" using assms(13) by simp
  have v: "fw_server ?fw = Some s2" "peer_wf (fw_client ?fw)" using moved_wf [OF G(2)] by simp_all
  have l: "if frame_last f then srest = [] \<and> \<not> so_err (p_in s2) else True" using assms(16) G(4) by simp
  from forward_reply_sends [OF assms(12) h assms(14) m assms(15) v moved_wf [OF G(3)] moved_data [OF G(3)] l, of serialize es]
  obtain s' c' where
    R: "forward_reply serialize es d2 (received r) ?fw = Some (Ret (forward_end serialize r (after_reply r ?fw c' s')))"
    "moved s2 srest [] s'" "moved c (so_data (p_in c)) (the_ret (headers_text (client_reply r)) @ frame_text f) c'" by auto
  have "after_reply r ?fw c' s' = after_reply r fw3 c' s'" by (cases fw3) (simp add: after_reply_def)
  moreover have "moved s srest (t @ frame_text f0) s'" using moved_trans [OF G(3) R(2)] by simp
  moreover have "moved (fw_client fw3) crest (the_ret (headers_text (client_reply r)) @ frame_text f) c'"
    using moved_trans [OF G(2) R(3)] moved_data [OF G(2)] by simp
  ultimately show ?thesis using G(1) R(1) by auto
qed

section \<open>The handshake before the request\<close>

text \<open>The attempt: the request with the negotiation message, without a body, and GET for HEAD.\<close>

definition forward_probe :: "rr_data_s \<Rightarrow> string \<Rightarrow> rr_data_s" where
  "forward_probe d buf = d\<lparr>rr_method := (if has_method ''HEAD'' (Some d) = Ret True then Some ''GET'' else rr_method d),
     rr_headers := probe_headers (rr_headers d) buf\<rparr>"

lemma sendable_has_method:
  assumes "sendable d f t"
  obtains b where "has_method m (Some d) = Ret b"
  using sendable_method [OF assms] assms by (auto simp: has_method_def sendable_def)

lemma sendable_probe:
  assumes "sendable d f t" "body_wf d" "request_line creds = Ret buf"
  shows "\<exists>auth probe. auth_probe d (Some new_rr_data) creds = Ret (auth, probe)
    \<and> headers_text auth = Ret (the_ret (headers_text (forward_probe d buf))) \<and> rr_code auth = rr_code d"
proof -
  from sendable_has_method [OF assms(1)] obtain head where h: "has_method ''HEAD'' (Some d) = Ret head" .
  have r: "request_body (Some d) = Ret (body_length (rr_headers d) (bodyless d))"
  proof -
    from assms(1) have f: "frame_ok (rr_headers d) (bodyless d) f" "\<not> frame_last f" "rr_req d \<noteq> 0"
      by (simp_all add: sendable_def)
    from f(2) have "body_length (rr_headers d) (bodyless d) \<noteq> -1"
      unfolding body_length_frame [OF f(1)] by (cases f) auto
    moreover obtain m where "rr_method d = Some m" using sendable_method [OF assms(1)] by blast
    ultimately show ?thesis using f(3)
      by (cases "strcaseeq ''GET'' m"; cases "strcaseeq ''HEAD'' m")
        (simp_all add: request_body_def has_method_def bodyless_def Let_def)
  qed
  let ?n = "body_length (rr_headers d) (bodyless d)"
  have n: "http_has_body (Some d) (Some new_rr_data) = Ret ?n"
    using r by (simp add: http_has_body_def new_rr_data_def)
  let ?b = "if head then True else ?n \<noteq> 0"
  let ?a = "(dup_view d)\<lparr>rr_method := if head then Some ''GET'' else rr_method d,
      rr_headers := probe_headers (rr_headers d) buf\<rparr>"
  have P: "auth_probe d (Some new_rr_data) creds = Ret (?a, ?b)"
    by (rule auth_probe_eq [OF assms(2,3) h, where n = ?n]) (simp add: n)
  have "headers_text ?a = headers_text (forward_probe d buf)"
    using h by (simp add: headers_text_def forward_probe_def dup_view_def Let_def split: option.split)
  moreover have "headers_text (forward_probe d buf) = Ret (the_ret (headers_text (forward_probe d buf)))"
    using assms(1) by (auto simp: sendable_def headers_text_def forward_probe_def Let_def split: option.splits)
  moreover have "rr_code ?a = rr_code d" by (simp add: dup_view_def)
  ultimately show ?thesis using P by auto
qed

lemma sendable_authorize:
  assumes "sendable d f t"
  shows "sendable (authorize d msg) f (the_ret (headers_text (authorize d msg)))"
proof -
  have n: "\<not> strcaseeq ''Proxy-Authorization'' ''Content-Type''" "\<not> strcaseeq ''Proxy-Authorization'' ''Connection''"
    by code_simp+
  have "has_method m (Some (authorize d msg)) = has_method m (Some d)" for m
    by (simp add: has_method_def authorize_def split: option.split)
  with assms n sendable_text [OF assms, of "rr_headers (authorize d msg)"] show ?thesis
    by (simp add: sendable_def bodyless_def frame_ok_mod authorize_def with_headers_def)
qed

lemma forward_auth_407:
  assumes "sendable d f0 t" "body_wf d" "request_line (fw_creds fw) = Ret buf" "\<not> fw_authok fw" "\<not> fw_noauth fw"
    "fw_server fw = Some s" "peer_wf s" "so_data (p_in s) = reply_text r1 f1 @ rest"
    "reply_wf r1 f1" "challenge_ok rn (fw_creds fw) r1 chal olen m n"
  shows "\<exists>s'. forward_auth getaddrinfo rn d fw =
      Some (Ret (Auth_go, authorize d (take n m), fw\<lparr>fw_server := Some s'\<rparr>))
    \<and> moved s rest (the_ret (headers_text (forward_probe d buf))) s' \<and> so_err (p_in s') = so_err (p_in s)"
proof -
  from sendable_probe [OF assms(1-3)] obtain auth probe where
    P: "auth_probe d (Some new_rr_data) (fw_creds fw) = Ret (auth, probe)"
    "headers_text auth = Ret (the_ret (headers_text (forward_probe d buf)))" "rr_code auth = rr_code d" by blast
  have c: "- (2 ^ 31) \<le> rr_code auth" "rr_code auth < 2 ^ 31" "rr_req d \<noteq> 0"
    using assms(1) P(3) by (simp_all add: sendable_def)
  have w: "sk_plan (p_out s) = []" "sock_wf (p_in s)" using assms(7) by (simp_all add: peer_wf_def)
  let ?o = "(p_out s)\<lparr>sk_out := sk_out (p_out s) @ the_ret (headers_text (forward_probe d buf))\<rparr>"
  from proxy_authenticate_407 [OF P(1,2) c(1,2) w assms(8-10), of getaddrinfo "fw_globals fw" "fw_sd fw"]
  obtain i where A: "proxy_authenticate getaddrinfo rn (fw_globals fw) (fw_sd fw) s d (Some new_rr_data) (fw_creds fw) =
      Some (Ret \<lparr>ar_rc = True, ar_fd = fw_sd fw, ar_peer = Some \<lparr>p_in = i, p_out = ?o\<rparr>,
        ar_request = authorize d (take n m), ar_response = Some (received r1), ar_creds = fw_creds fw,
        ar_globals = fw_globals fw\<rparr>)" "so_data i = rest" "sock_wf i" "so_err i = so_err (p_in s)"
    by auto
  have "rr_code r1 = 407" using assms(10) by (simp add: challenge_ok_def)
  then have "forward_auth getaddrinfo rn d fw =
      Some (Ret (Auth_go, authorize d (take n m), fw\<lparr>fw_server := Some \<lparr>p_in = i, p_out = ?o\<rparr>\<rparr>))"
    using assms(4-6) c(3) A(1) by (cases fw) (simp add: forward_auth_def Let_def)
  with A(2-4) w show ?thesis by (auto simp: moved_def peer_wf_def)
qed

text \<open>The pass on a new connection.\<close>

lemma forward_round_fresh:
  assumes "\<not> fw_authok fw" "\<not> fw_noauth fw" "\<not> fw_cached fw" "rr_empty d = 0" "\<not> host_changed d fw" "logged_in d fw creds"
    "sendable (forward_modify (g_header_list (fw_globals fw)) d) f0 t" "body_wf d" "request_line creds = Ret buf"
    "fw_server fw = Some s" "peer_wf (fw_client fw)" "peer_wf s" "so_data (p_in (fw_client fw)) = frame_text f0 @ crest"
    "so_data (p_in s) = reply_text r1 f1 @ the_ret (headers_text r) @ frame_text f @ srest"
    "reply_wf r1 f1" "challenge_ok rn creds r1 chal olen m n" "response_wf r"
    "has_method ''HEAD'' (Some d) = Ret head"
    "frame_ok (rr_headers (client_reply r)) (no_body head (rr_code r)) f"
    "if frame_last f then srest = [] \<and> \<not> so_err (p_in s) else True"
  shows "\<exists>c' s'. forward_round getaddrinfo rn serialize es d fw =
      Some (Ret (forward_end serialize r (after_reply r (ready creds fw) c' s')))
    \<and> fw_authok (after_reply r (ready creds fw) c' s') = (rr_code r \<noteq> 407)
    \<and> moved s srest (the_ret (headers_text (forward_probe (forward_modify (g_header_list (fw_globals fw)) d) buf))
        @ the_ret (headers_text (authorize (forward_modify (g_header_list (fw_globals fw)) d) (take n m))) @ frame_text f0) s'
    \<and> moved (fw_client fw) crest (the_ret (headers_text (client_reply r)) @ frame_text f) c'"
proof -
  let ?d = "forward_modify (g_header_list (fw_globals fw)) d" and ?fw = "ready creds fw"
  have q: "rr_req d \<noteq> 0" using assms(7) by (simp add: sendable_def)
  have b: "body_wf ?d" using assms(8) by (simp add: body_wf_def forward_modify_def split: option.splits)
  from forward_auth_407 [OF assms(7) b, of ?fw buf s r1 f1 "the_ret (headers_text r) @ frame_text f @ srest" rn chal olen m n
      getaddrinfo] assms(1,2,9,10,12,14-16)
  obtain s1 where A: "forward_auth getaddrinfo rn ?d ?fw =
      Some (Ret (Auth_go, authorize ?d (take n m), ?fw\<lparr>fw_server := Some s1\<rparr>))"
    "moved s (the_ret (headers_text r) @ frame_text f @ srest) (the_ret (headers_text (forward_probe ?d buf))) s1"
    "so_err (p_in s1) = so_err (p_in s)" by auto
  let ?fw3 = "?fw\<lparr>fw_server := Some s1\<rparr>"
  have h: "has_method ''HEAD'' (Some (authorize ?d (take n m))) = Ret head"
    using assms(18) by (simp add: has_method_def authorize_def split: if_splits)
  have l: "if frame_last f then srest = [] \<and> \<not> so_err (p_in s1) else True" using assms(20) A(3) by simp
  from forward_round_sends [OF assms(4) q assms(5,6) A(1) sendable_authorize [OF assms(7)] _ _ moved_wf [OF A(2)] _
      moved_data [OF A(2)] assms(17) _ h assms(19) l, of crest serialize es] assms(2,3,11,13)
  obtain c' s' where R: "forward_round getaddrinfo rn serialize es d fw =
      Some (Ret (forward_end serialize r (after_reply r ?fw3 c' s')))"
    "moved s1 srest (the_ret (headers_text (authorize ?d (take n m))) @ frame_text f0) s'"
    "moved (fw_client fw) crest (the_ret (headers_text (client_reply r)) @ frame_text f) c'" by auto
  have "after_reply r ?fw3 c' s' = after_reply r ?fw c' s'" by (cases fw) (simp add: after_reply_def ready_def)
  moreover have "fw_authok (after_reply r ?fw c' s') = (rr_code r \<noteq> 407)" using assms(1,2) by (simp add: after_reply_def)
  ultimately show ?thesis using R moved_trans [OF A(2) R(2)] by auto
qed

text \<open>A reply of 407 where no authentication was tried: the jump to the beginning.\<close>

lemma forward_round_407:
  assumes "fw_cached fw \<and> fw_authok fw \<or> fw_noauth fw" "rr_empty d = 0" "\<not> host_changed d fw" "logged_in d fw creds"
    "sendable (forward_modify (g_header_list (fw_globals fw)) d) f0 t"
    "fw_server fw = Some s" "peer_wf (fw_client fw)" "peer_wf s" "so_data (p_in (fw_client fw)) = frame_text f0 @ crest"
    "so_data (p_in s) = the_ret (headers_text r) @ srest" "response_wf r" "rr_code r = 407"
  shows "\<exists>c. forward_round getaddrinfo rn serialize es d fw = Some (Ret (F_retry
      (forward_modify (g_header_list (fw_globals fw)) d) ((ready creds fw)\<lparr>fw_client := c, fw_server := None\<rparr>)))
    \<and> moved (fw_client fw) crest [] c"
proof -
  let ?d = "forward_modify (g_header_list (fw_globals fw)) d"
  have q: "rr_req d \<noteq> 0" using assms(5) by (simp add: sendable_def)
  have a: "forward_auth getaddrinfo rn ?d (ready creds fw) = Some (Ret (Auth_go, ?d, ready creds fw))"
    using assms(1) by (auto simp: forward_auth_def)
  from forward_round_go [OF assms(2) q assms(3,4) a assms(5) _ _ assms(8) _ assms(10,11), of crest serialize es] assms(6,7,9)
  obtain c s2 where G: "forward_round getaddrinfo rn serialize es d fw =
      forward_reply serialize es ?d (received r) ((ready creds fw)\<lparr>fw_client := c, fw_server := Some s2\<rparr>)"
    "moved (fw_client fw) crest [] c" by auto
  moreover have "forward_reply serialize es ?d (received r) ((ready creds fw)\<lparr>fw_client := c, fw_server := Some s2\<rparr>) =
      Some (Ret (F_retry ?d ((ready creds fw)\<lparr>fw_client := c, fw_server := None\<rparr>)))"
    using assms(1,12) by (cases fw) (auto simp: forward_reply_def ready_def)
  ultimately show ?thesis by auto
qed

lemma forward_open_new:
  assumes "cache_take (\<lambda>i. fwd_closed (fw_idle fw i)) (fw_globals fw) = Ret ((0, a), g1)"
    "proxy_connect getaddrinfo g1 (Some new_auth) = Ret ((sd, Some p), Some c, g2)" "0 < sd"
  shows "forward_open getaddrinfo d fw = Ret (True, fw\<lparr>fw_sd := sd, fw_server := Some p, fw_creds := c, fw_globals := g2,
    fw_authok := False, fw_noauth := False, fw_cached := False, fw_alive := False\<rparr>)"
  using assms by (cases fw) (simp add: forward_open_def Let_def)

lemma forward_modify_no_login:
  "http_parse_basic (rr_headers (forward_modify hl d)) ''Proxy-Authorization'' c = Ret (0, c)"
proof -
  have "hlist_get (rr_headers (forward_modify hl d)) ''Proxy-Authorization'' = None"
    using hlist_in_get [of "rr_headers (forward_modify hl d)" "''Proxy-Authorization''"]
    by (auto simp: forward_modify_def hlist_in_iff hlist_purge_filter)
  then show ?thesis by (simp add: http_parse_basic_def)
qed

text \<open>After the jump, on a new connection, in a serialized proxy.\<close>

lemma forward_loop_407:
  assumes "fw_cached fw \<and> fw_authok fw \<or> fw_noauth fw" "rr_empty d = 0" "\<not> host_changed d fw" "logged_in d fw creds"
    "d1 = forward_modify (g_header_list (fw_globals fw)) d" "sendable d1 f0 t"
    "fw_server fw = Some s" "peer_wf (fw_client fw)" "peer_wf s"
    "so_data (p_in (fw_client fw)) = frame_text f0 @ frame_text f1 @ crest"
    "so_data (p_in s) = the_ret (headers_text r0) @ srest0" "response_wf r0" "rr_code r0 = 407"
    "cache_take (\<lambda>i. fwd_closed (fw_idle fw i)) (fw_globals fw) = Ret ((0, a), g1)"
    "proxy_connect getaddrinfo g1 (Some new_auth) = Ret ((sd, Some p), Some c2, g2)" "0 < sd"
    "\<not> g_ntlmbasic g2" "d2 = forward_modify (g_header_list g2) d1" "sendable d2 f1 t1" "body_wf d" "request_line c2 = Ret buf"
    "peer_wf p" "so_data (p_in p) = reply_text r1 fr1 @ the_ret (headers_text r) @ frame_text f @ srest"
    "reply_wf r1 fr1" "challenge_ok rn c2 r1 chal olen m n" "response_wf r"
    "has_method ''HEAD'' (Some d) = Ret head" "frame_ok (rr_headers (client_reply r)) (no_body head (rr_code r)) f"
    "if frame_last f then srest = [] \<and> \<not> so_err (p_in p) else True"
  shows "\<exists>fw' q. forward_loop getaddrinfo rn True es d fw = Some (Ret (if kept r then Ret_null else Ret_stop, fw'))
    \<and> fw_server fw' = Some q
    \<and> moved p srest (the_ret (headers_text (forward_probe d2 buf))
        @ the_ret (headers_text (authorize d2 (take n m))) @ frame_text f1) q
    \<and> moved (fw_client fw) crest (the_ret (headers_text (client_reply r)) @ frame_text f) (fw_client fw')"
proof -
  from forward_round_407 [OF assms(1-4) assms(6) [unfolded assms(5)] assms(7-13), of getaddrinfo rn True es] obtain c where
    R: "forward_round getaddrinfo rn True es d fw = Some (Ret (F_retry d1
      ((ready creds fw)\<lparr>fw_client := c, fw_server := None\<rparr>)))" "moved (fw_client fw) (frame_text f1 @ crest) [] c"
    unfolding assms(5) by blast
  let ?fw = "(ready creds fw)\<lparr>fw_client := c, fw_server := None\<rparr>"
  let ?n = "?fw\<lparr>fw_sd := sd, fw_server := Some p, fw_creds := c2, fw_globals := g2,
    fw_authok := False, fw_noauth := False, fw_cached := False, fw_alive := False\<rparr>"
  from forward_open_new [of ?fw a g1, OF _ assms(15,16)] assms(14)
  have O: "forward_open getaddrinfo d1 ?fw = Ret (True, ?n)" by simp
  let ?k = "keep_host d1 ?n"
  have k: "fw_client ?k = c" "fw_server ?k = Some p" "fw_creds ?k = c2" "fw_globals ?k = g2" "\<not> fw_authok ?k"
    "\<not> fw_noauth ?k" "\<not> fw_cached ?k" by (simp_all add: keep_host_def split: option.split)
  have e: "rr_empty d1 = 0" "body_wf d1" "has_method ''HEAD'' (Some d1) = Ret head"
    using assms(2,20,27) by (auto simp: assms(5) body_wf_def has_method_def forward_modify_def split: option.splits if_splits)
  have hc: "\<not> host_changed d1 ?k"
    using assms(3) by (auto simp: host_changed_def keep_host_def assms(5) ready_def split: option.splits)
  have lg: "logged_in d1 ?k c2"
    unfolding logged_in_def k using forward_modify_no_login [of "g_header_list (fw_globals fw)" d c2] assms(5,17) by auto
  from forward_round_fresh [of ?k, OF k(5-7) e(1) hc lg, unfolded k, OF assms(19) [unfolded assms(18)] e(2) assms(21) refl
      moved_wf [OF R(2)] assms(22) moved_data [OF R(2)] assms(23-26) e(3) assms(28,29), folded assms(18), of getaddrinfo True es]
  obtain c' s' where F: "forward_round getaddrinfo rn True es d1 ?k =
      Some (Ret (forward_end True r (after_reply r (ready c2 ?k) c' s')))"
    "moved p srest (the_ret (headers_text (forward_probe d2 buf))
        @ the_ret (headers_text (authorize d2 (take n m))) @ frame_text f1) s'"
    "moved c crest (the_ret (headers_text (client_reply r)) @ frame_text f) c'" by blast
  let ?fw' = "after_reply r (ready c2 ?k) c' s'"
  have "forward_loop getaddrinfo rn True es d1 ?k = Some (Ret (if kept r then Ret_null else Ret_stop, ?fw'))"
    using F(1) by (subst forward_loop.simps) (simp add: forward_end_def)
  then have "forward_loop getaddrinfo rn True es d fw = Some (Ret (if kept r then Ret_null else Ret_stop, ?fw'))"
    using R(1) O by (subst forward_loop.simps) simp
  moreover have "moved (fw_client fw) crest (the_ret (headers_text (client_reply r)) @ frame_text f) c'"
    using moved_trans [OF R(2) F(3)] by simp
  moreover have "fw_server ?fw' = Some s'" "fw_client ?fw' = c'" by (simp_all add: after_reply_def)
  ultimately show ?thesis using F(2) by metis
qed

text \<open>The pass on a connection that needs no handshake.\<close>

lemma forward_round_known:
  assumes "fw_authok fw \<or> fw_noauth fw" "rr_empty d = 0" "\<not> host_changed d fw" "logged_in d fw creds"
    "sendable (forward_modify (g_header_list (fw_globals fw)) d) f0 t"
    "fw_server fw = Some s" "peer_wf (fw_client fw)" "peer_wf s" "so_data (p_in (fw_client fw)) = frame_text f0 @ crest"
    "so_data (p_in s) = the_ret (headers_text r) @ frame_text f @ srest" "response_wf r" "rr_code r \<noteq> 407"
    "has_method ''HEAD'' (Some d) = Ret head"
    "frame_ok (rr_headers (client_reply r)) (no_body head (rr_code r)) f"
    "if frame_last f then srest = [] \<and> \<not> so_err (p_in s) else True"
  shows "\<exists>c' s'. forward_round getaddrinfo rn serialize es d fw =
      Some (Ret (forward_end serialize r (after_reply r (ready creds fw) c' s')))
    \<and> moved s srest (t @ frame_text f0) s'
    \<and> moved (fw_client fw) crest (the_ret (headers_text (client_reply r)) @ frame_text f) c'"
proof -
  let ?d = "forward_modify (g_header_list (fw_globals fw)) d"
  have q: "rr_req d \<noteq> 0" using assms(5) by (simp add: sendable_def)
  have a: "forward_auth getaddrinfo rn ?d (ready creds fw) = Some (Ret (Auth_go, ?d, ready creds fw))"
    using assms(1) by (auto simp: forward_auth_def)
  have h: "has_method ''HEAD'' (Some ?d) = Ret head" using assms(13) by (simp add: has_method_def split: if_splits)
  from forward_round_sends [OF assms(2) q assms(3,4) a assms(5) _ _ assms(8) _ assms(10,11) _ h assms(14,15),
      of crest serialize es] assms(6,7,9,12)
  show ?thesis by simp
qed

section \<open>Whole requests\<close>

lemma fwd_closed_open: "peer_wf p \<Longrightarrow> \<not> fwd_closed (Some p)"
  by (simp add: fwd_closed_def peer_wf_open)

text \<open>What the function needs of the request it is given.\<close>

definition given :: "rr_data_s \<Rightarrow> bool" where
  "given d \<longleftrightarrow> rr_empty d = 0 \<and> rr_errmsg d = None \<and> rr_body d = None"

lemma given_dup: "given d \<Longrightarrow> dup_rr_data (Some d) = Ret (Some d)" "given d \<Longrightarrow> body_wf d"
proof -
  assume g: "given d"
  then show b: "body_wf d" by (simp add: given_def body_wf_def)
  have "dup_view d = d" using g by (cases d) (simp add: given_def dup_view_def)
  then show "dup_rr_data (Some d) = Ret (Some d)"
    using copy_rr_data_eq [OF b, of undefined] by (simp add: dup_view_def)
qed

text \<open>
  One request in a serialized proxy, when the parent keeps the connection: the pass over the loops
  ends the function, and the connection goes to the cache.
\<close>

lemma forward_request_stores:
  assumes "given d" "forward_open getaddrinfo d (start_fwd g idle cd) = Ret (True, fw)" "fw_host fw = None"
    "forward_round getaddrinfo rn True es d (keep_host d fw) = Some (Ret
       (forward_end True r (after_reply r (ready creds (keep_host d fw)) c' s')))"
    "fw_authok (after_reply r (ready creds (keep_host d fw)) c' s')" "kept r"
    "\<not> g_ntlmbasic (fw_globals fw)" "g_cache (fw_globals fw) = Some l" "peer_wf s'"
  shows "\<exists>fw'. forward_request getaddrinfo rn True es g idle cd d = Some (Ret (Ret_null, fw'))
    \<and> fw_globals fw' = (fw_globals fw)\<lparr>g_cache := Some (plist_add l (word_of_int (fw_sd fw)) (Some creds))\<rparr>
    \<and> fw_idle fw' = (fw_idle fw)(fw_sd fw := Some s') \<and> fw_client fw' = c'"
proof -
  let ?a = "after_reply r (ready creds (keep_host d fw)) c' s'"
  have a: "fw_globals ?a = fw_globals fw" "fw_sd ?a = fw_sd fw" "fw_creds ?a = creds" "fw_idle ?a = fw_idle fw"
    "fw_client ?a = c'" "fw_server ?a = Some s'" "fw_alive ?a"
    using assms(6) by (simp_all add: after_reply_def ready_def keep_host_def split: option.split)
  have "forward_loop getaddrinfo rn True es d (keep_host d fw) = Some (Ret (Ret_null, ?a))"
    using assms(4,6) by (subst forward_loop.simps) (simp add: forward_end_def)
  then have "forward_request getaddrinfo rn True es g idle cd d = Some (forward_close Ret_null ?a)"
    using assms(2) given_dup(1) [OF assms(1)] by (simp add: forward_request_def)
  then show ?thesis
    using assms(5,7,8) a fwd_closed_open [OF assms(9)] by (simp add: forward_close_def cache_store_def)
qed

lemma keep_host_start:
  "fw_host fw = None \<Longrightarrow> \<not> host_changed d (keep_host d fw)"
  by (auto simp: host_changed_def keep_host_def split: option.split)

lemma keep_host_simps [simp]:
  "fw_client (keep_host d fw) = fw_client fw" "fw_server (keep_host d fw) = fw_server fw"
  "fw_globals (keep_host d fw) = fw_globals fw" "fw_creds (keep_host d fw) = fw_creds fw"
  "fw_authok (keep_host d fw) = fw_authok fw" "fw_noauth (keep_host d fw) = fw_noauth fw"
  "fw_cached (keep_host d fw) = fw_cached fw"
  by (simp_all add: keep_host_def split: option.split)

lemma start_fwd_simps [simp]:
  "fw_client (start_fwd g idle cd) = cd" "fw_globals (start_fwd g idle cd) = g" "fw_idle (start_fwd g idle cd) = idle"
  "fw_host (start_fwd g idle cd) = None"
  by (simp_all add: start_fwd_def)

lemma forward_request_new:
  assumes "given d" "cache_take (\<lambda>i. fwd_closed (idle i)) g = Ret ((0, a), g1)"
    "proxy_connect getaddrinfo g1 (Some new_auth) = Ret ((sd, Some p), Some c, g2)" "0 < sd"
    "g_cache g2 = Some l" "\<not> g_ntlmbasic g2" "http_parse_basic (rr_headers d) ''Proxy-Authorization'' c = Ret (k, creds)"
    "sendable (forward_modify (g_header_list g2) d) f0 t" "request_line creds = Ret buf"
    "peer_wf cd" "peer_wf p" "so_data (p_in cd) = frame_text f0 @ crest"
    "so_data (p_in p) = reply_text r1 f1 @ the_ret (headers_text r) @ frame_text f @ srest"
    "reply_wf r1 f1" "challenge_ok rn creds r1 chal olen m n" "response_wf r" "rr_code r \<noteq> 407" "kept r"
    "has_method ''HEAD'' (Some d) = Ret head"
    "frame_ok (rr_headers (client_reply r)) (no_body head (rr_code r)) f"
    "if frame_last f then srest = [] \<and> \<not> so_err (p_in p) else True"
  shows "\<exists>fw' q. forward_request getaddrinfo rn True es g idle cd d = Some (Ret (Ret_null, fw'))
    \<and> fw_globals fw' = g2\<lparr>g_cache := Some (plist_add l (word_of_int sd) (Some creds))\<rparr>
    \<and> fw_idle fw' = idle(sd := Some q)
    \<and> moved p srest (the_ret (headers_text (forward_probe (forward_modify (g_header_list g2) d) buf))
        @ the_ret (headers_text (authorize (forward_modify (g_header_list g2) d) (take n m))) @ frame_text f0) q
    \<and> moved cd crest (the_ret (headers_text (client_reply r)) @ frame_text f) (fw_client fw')"
proof -
  let ?s = "start_fwd g idle cd"
  let ?fw = "?s\<lparr>fw_sd := sd, fw_server := Some p, fw_creds := c, fw_globals := g2,
    fw_authok := False, fw_noauth := False, fw_cached := False, fw_alive := False\<rparr>"
  have O: "forward_open getaddrinfo d ?s = Ret (True, ?fw)"
    using assms(2) by (intro forward_open_new [OF _ assms(3,4)]) simp
  have h: "fw_host ?fw = None" by simp
  have e: "rr_empty d = 0" "body_wf d" using assms(1) given_dup(2) by (simp_all add: given_def)
  have lg: "logged_in d (keep_host d ?fw) creds" using assms(6,7) by (simp add: logged_in_def)
  have u: "fw_client (keep_host d ?fw) = cd" "fw_server (keep_host d ?fw) = Some p" "fw_globals (keep_host d ?fw) = g2"
    "\<not> fw_authok (keep_host d ?fw)" "\<not> fw_noauth (keep_host d ?fw)" "\<not> fw_cached (keep_host d ?fw)" by simp_all
  from forward_round_fresh [OF u(4-6) e(1) keep_host_start [OF h] lg, unfolded u, OF assms(8) e(2) assms(9) refl assms(10-16,19-21),
      of getaddrinfo True es] obtain c' s' where
    R: "forward_round getaddrinfo rn True es d (keep_host d ?fw) =
      Some (Ret (forward_end True r (after_reply r (ready creds (keep_host d ?fw)) c' s')))"
    "fw_authok (after_reply r (ready creds (keep_host d ?fw)) c' s') = (rr_code r \<noteq> 407)"
    "moved p srest (the_ret (headers_text (forward_probe (forward_modify (g_header_list g2) d) buf))
        @ the_ret (headers_text (authorize (forward_modify (g_header_list g2) d) (take n m))) @ frame_text f0) s'"
    "moved cd crest (the_ret (headers_text (client_reply r)) @ frame_text f) c'" by blast
  have n: "\<not> g_ntlmbasic (fw_globals ?fw)" "g_cache (fw_globals ?fw) = Some l" using assms(5,6) by simp_all
  from R(2) assms(17) have ok: "fw_authok (after_reply r (ready creds (keep_host d ?fw)) c' s')" by simp
  from forward_request_stores [OF assms(1) O h R(1) ok assms(18) n moved_wf [OF R(3)]] R(3,4)
  show ?thesis by auto
qed

lemma forward_request_cached:
  assumes "given d" "cache_take (\<lambda>i. fwd_closed (idle i)) g = Ret ((sd, Some c), g1)" "sd \<noteq> 0" "idle sd = Some p"
    "g_cache g1 = Some l" "\<not> g_ntlmbasic g1" "http_parse_basic (rr_headers d) ''Proxy-Authorization'' c = Ret (k, creds)"
    "sendable (forward_modify (g_header_list g1) d) f0 t"
    "peer_wf cd" "peer_wf p" "so_data (p_in cd) = frame_text f0 @ crest"
    "so_data (p_in p) = the_ret (headers_text r) @ frame_text f @ srest" "response_wf r" "rr_code r \<noteq> 407" "kept r"
    "has_method ''HEAD'' (Some d) = Ret head"
    "frame_ok (rr_headers (client_reply r)) (no_body head (rr_code r)) f"
    "if frame_last f then srest = [] \<and> \<not> so_err (p_in p) else True"
  shows "\<exists>fw' q. forward_request getaddrinfo rn True es g idle cd d = Some (Ret (Ret_null, fw'))
    \<and> fw_globals fw' = g1\<lparr>g_cache := Some (plist_add l (word_of_int sd) (Some creds))\<rparr>
    \<and> fw_idle fw' = idle(sd := Some q)
    \<and> moved p srest (t @ frame_text f0) q
    \<and> moved cd crest (the_ret (headers_text (client_reply r)) @ frame_text f) (fw_client fw')"
proof -
  let ?s = "start_fwd g idle cd"
  let ?fw = "?s\<lparr>fw_sd := sd, fw_server := Some p, fw_creds := c, fw_globals := g1, fw_idle := idle(sd := None),
    fw_authok := True, fw_noauth := False, fw_cached := True, fw_alive := False\<rparr>"
  have O: "forward_open getaddrinfo d ?s = Ret (True, ?fw)"
    using assms(2-4) by (simp add: forward_open_def start_fwd_def)
  have h: "fw_host ?fw = None" by simp
  have e: "rr_empty d = 0" using assms(1) by (simp add: given_def)
  have lg: "logged_in d (keep_host d ?fw) creds" using assms(6,7) by (simp add: logged_in_def)
  have u: "fw_client (keep_host d ?fw) = cd" "fw_server (keep_host d ?fw) = Some p" "fw_globals (keep_host d ?fw) = g1"
    "fw_authok (keep_host d ?fw) \<or> fw_noauth (keep_host d ?fw)" by simp_all
  from forward_round_known [OF u(4) e(1) keep_host_start [OF h] lg, unfolded u, OF assms(8) refl assms(9-14,16-18),
      of getaddrinfo rn True es] obtain c' s' where
    R: "forward_round getaddrinfo rn True es d (keep_host d ?fw) =
      Some (Ret (forward_end True r (after_reply r (ready creds (keep_host d ?fw)) c' s')))"
    "moved p srest (t @ frame_text f0) s'"
    "moved cd crest (the_ret (headers_text (client_reply r)) @ frame_text f) c'" by blast
  have n: "\<not> g_ntlmbasic (fw_globals ?fw)" "g_cache (fw_globals ?fw) = Some l" using assms(5,6) by simp_all
  have ok: "fw_authok (after_reply r (ready creds (keep_host d ?fw)) c' s')" by (simp add: after_reply_def)
  from forward_request_stores [OF assms(1) O h R(1) ok assms(15) n moved_wf [OF R(2)]] R(2,3)
  show ?thesis by auto
qed

text \<open>The descriptor that was stored is taken from the cache with its credentials.\<close>

lemma cache_take_stored:
  assumes "0 < sd" "sd < 2 ^ 31" "\<not> closed sd"
  shows "cache_take closed (g\<lparr>g_cache := Some (plist_add [] (word_of_int sd) a)\<rparr>) = Ret ((sd, a), g\<lparr>g_cache := Some []\<rparr>)"
  using key_fd_of [OF assms(1,2)] assms(3) by (simp add: cache_take_def plist_pop_def)

section \<open>Properties of one pass\<close>

text \<open>The values of a header after the operations on the list.\<close>

lemma values_of_purge: "values_of (hlist_purge hs k) k = []"
  by (simp add: values_of_def hlist_purge_filter)

lemma values_of_purge_other: "\<not> strcaseeq k k' \<Longrightarrow> values_of (hlist_purge hs k') k = values_of hs k"
  by (induction hs) (auto simp: values_of_def hlist_purge_filter strcaseeq_def)

lemma values_of_del_other: "\<not> strcaseeq k k' \<Longrightarrow> values_of (hlist_del hs k') k = values_of hs k"
  by (induction hs) (auto simp: values_of_def strcaseeq_def)

lemma values_of_add_only: "values_of hs k = [] \<Longrightarrow> values_of (hlist_mod hs k v True) k = [v]"
  by (auto simp: hlist_mod_def hlist_add_def values_of_def hlist_in_iff filter_empty_conv)

lemma values_of_replace_other:
  "list_all (\<lambda>t. \<not> strcaseeq k (hkey t)) ts \<Longrightarrow> values_of (hlist_replace hs ts b) k = values_of hs k"
  by (induction ts arbitrary: hs) (auto simp: values_of_mod_other strcaseeq_def)

text \<open>All headers but those named \<open>ks\<close> have the same values, in the same order.\<close>

definition same_but :: "string list \<Rightarrow> rr_data_s \<Rightarrow> rr_data_s \<Rightarrow> bool" where
  "same_but ks d q \<longleftrightarrow>
     (\<forall>k. list_all (\<lambda>x. \<not> strcaseeq k x) ks \<longrightarrow> values_of (rr_headers q) k = values_of (rr_headers d) k)"

text \<open>The headers of the two messages to the parent, and of the reply to the client.\<close>

lemma probe_header_values:
  "values_of (rr_headers (forward_probe (forward_modify hl d) buf)) ''Proxy-Authorization'' = [buf]"
  "same_but (map hkey hl @ [''Proxy-Connection'', ''Proxy-Authorization'', ''Content-Length'', ''Transfer-Encoding'']) d
     (forward_probe (forward_modify hl d) buf)"
proof -
  have n: "\<not> strcaseeq ''Proxy-Authorization'' ''Transfer-Encoding''" "\<not> strcaseeq ''Content-Length'' ''Proxy-Authorization''"
    by code_simp+
  show "values_of (rr_headers (forward_probe (forward_modify hl d) buf)) ''Proxy-Authorization'' = [buf]"
    using n by (simp add: forward_probe_def probe_headers_def values_of_del_other values_of_mod_other values_of_add_only
        forward_modify_def values_of_purge)
  show "same_but (map hkey hl @ [''Proxy-Connection'', ''Proxy-Authorization'', ''Content-Length'', ''Transfer-Encoding'']) d
     (forward_probe (forward_modify hl d) buf)"
    by (simp add: same_but_def forward_probe_def probe_headers_def values_of_del_other values_of_mod_other strcaseeq_sym
        forward_modify_def values_of_purge_other values_of_replace_other list.pred_map comp_def)
qed

lemma authorized_header_values:
  "values_of (rr_headers (authorize (forward_modify hl d) msg)) ''Proxy-Authorization'' = [''NTLM '' @ to_base64 msg (BUFSIZE - 5)]"
  "same_but (map hkey hl @ [''Proxy-Connection'', ''Proxy-Authorization'']) d (authorize (forward_modify hl d) msg)"
proof -
  show "values_of (rr_headers (authorize (forward_modify hl d) msg)) ''Proxy-Authorization'' = [''NTLM '' @ to_base64 msg (BUFSIZE - 5)]"
    by (simp add: authorize_def forward_modify_def values_of_add_only values_of_purge)
  show "same_but (map hkey hl @ [''Proxy-Connection'', ''Proxy-Authorization'']) d (authorize (forward_modify hl d) msg)"
    by (simp add: same_but_def authorize_def forward_modify_def values_of_mod_other strcaseeq_sym values_of_purge_other
        values_of_replace_other list.pred_map comp_def)
qed

lemma client_header_values:
  "values_of (rr_headers (client_reply r)) ''Proxy-Authenticate'' =
     (if rr_code r = 407 then [''Basic realm=\"Cntlm for parent\"''] else [])"
  "same_but [''Connection'', ''Proxy-Authenticate''] r (client_reply r)"
  by (simp_all add: client_reply_def forward_reply_headers_def Let_def received_def values_of_add_only values_of_purge
      same_but_def values_of_mod_other strcaseeq_sym values_of_purge_other)

text \<open>
  C7: no credentials and no challenges cross the proxy, and everything else does.  A request on a new
  connection to a parent that asks for NTLM, without the scanner plugin: of the two messages
  that are sent to the parent, each has a single Proxy-Authorization header, with the NTLM message
  of the proxy, however many the client has sent; the reply that is sent to the client has no
  Proxy-Authenticate header of the parent, but the proxy's own offer of Basic when it is a 407.
  Every other header passes with all its values, in order: from the client to the parent but for
  Proxy-Connection and the configured replacements (and, in the attempt, for the length of the body
  that is not sent), and from the parent to the client but for Connection.
\<close>

theorem forward_headers_private:
  assumes "\<not> fw_authok fw" "\<not> fw_noauth fw" "\<not> fw_cached fw" "rr_empty d = 0" "\<not> host_changed d fw" "logged_in d fw creds"
    "hl = g_header_list (fw_globals fw)" "sendable (forward_modify hl d) f0 t" "body_wf d" "request_line creds = Ret buf"
    "fw_server fw = Some s" "peer_wf (fw_client fw)" "peer_wf s" "so_data (p_in (fw_client fw)) = frame_text f0 @ crest"
    "so_data (p_in s) = reply_text r1 f1 @ the_ret (headers_text r) @ frame_text f @ srest"
    "reply_wf r1 f1" "challenge_ok rn creds r1 chal olen m n" "response_wf r"
    "has_method ''HEAD'' (Some d) = Ret head"
    "frame_ok (rr_headers (client_reply r)) (no_body head (rr_code r)) f"
    "if frame_last f then srest = [] \<and> \<not> so_err (p_in s) else True"
  shows "\<exists>fw' q1 q2 a c' s'. forward_round getaddrinfo rn serialize es d fw = Some (Ret (forward_end serialize r fw'))
    \<and> fw_client fw' = c' \<and> fw_server fw' = Some s'
    \<and> moved s srest (the_ret (headers_text q1) @ the_ret (headers_text q2) @ frame_text f0) s'
    \<and> moved (fw_client fw) crest (the_ret (headers_text a) @ frame_text f) c'
    \<and> values_of (rr_headers q1) ''Proxy-Authorization'' = [buf]
    \<and> values_of (rr_headers q2) ''Proxy-Authorization'' = [''NTLM '' @ to_base64 (take n m) (BUFSIZE - 5)]
    \<and> values_of (rr_headers a) ''Proxy-Authenticate'' =
        (if rr_code r = 407 then [''Basic realm=\"Cntlm for parent\"''] else [])
    \<and> same_but (map hkey hl @ [''Proxy-Connection'', ''Proxy-Authorization'', ''Content-Length'', ''Transfer-Encoding'']) d q1
    \<and> same_but (map hkey hl @ [''Proxy-Connection'', ''Proxy-Authorization'']) d q2
    \<and> same_but [''Connection'', ''Proxy-Authenticate''] r a"
proof -
  from forward_round_fresh [OF assms(1-6) assms(8) [unfolded assms(7)] assms(9-21), of getaddrinfo serialize es]
  obtain c' s' where R: "forward_round getaddrinfo rn serialize es d fw =
      Some (Ret (forward_end serialize r (after_reply r (ready creds fw) c' s')))"
    "moved s srest (the_ret (headers_text (forward_probe (forward_modify hl d) buf))
        @ the_ret (headers_text (authorize (forward_modify hl d) (take n m))) @ frame_text f0) s'"
    "moved (fw_client fw) crest (the_ret (headers_text (client_reply r)) @ frame_text f) c'"
    unfolding assms(7) by blast
  have "fw_client (after_reply r (ready creds fw) c' s') = c'" "fw_server (after_reply r (ready creds fw) c' s') = Some s'"
    by (simp_all add: after_reply_def)
  with R probe_header_values [of hl d buf] authorized_header_values [of hl d "take n m"] client_header_values [of r]
  show ?thesis by blast
qed

text \<open>
  A request on a connection that is authenticated already, or to a parent that wants no
  authentication.  The parent gets the request once, with its body; the client gets the parent's
  reply with its body; nothing else is sent, and what follows on both streams is left.  The next
  request is taken when the parent keeps both connections and the proxy does not serialize.
\<close>

theorem forward_round_authenticated:
  assumes "fw_authok fw \<or> fw_noauth fw" "rr_empty d = 0" "\<not> host_changed d fw" "logged_in d fw creds"
    "sendable (forward_modify (g_header_list (fw_globals fw)) d) f0 t"
    "fw_server fw = Some s" "peer_wf (fw_client fw)" "peer_wf s" "so_data (p_in (fw_client fw)) = frame_text f0 @ crest"
    "so_data (p_in s) = the_ret (headers_text r) @ frame_text f @ srest" "response_wf r" "rr_code r \<noteq> 407"
    "has_method ''HEAD'' (Some d) = Ret head"
    "frame_ok (rr_headers (client_reply r)) (no_body head (rr_code r)) f"
    "if frame_last f then srest = [] \<and> \<not> so_err (p_in s) else True"
  shows "\<exists>c' s'. forward_round getaddrinfo rn serialize es d fw =
      Some (Ret (forward_end serialize r (after_reply r (ready creds fw) c' s')))
    \<and> moved s srest (t @ frame_text f0) s'
    \<and> moved (fw_client fw) crest (the_ret (headers_text (client_reply r)) @ frame_text f) c'"
  by (rule forward_round_known [OF assms])

text \<open>
  C6: a request on a new connection.  When the parent answers the attempt with an NTLM challenge,
  it gets two messages: the attempt, without a body, and the request with the authentication
  message computed from the challenge, with the body of the client; the client gets only the
  parent's reply to the second.  Unless that is again a 407, the connection is authenticated from
  then on.
\<close>

theorem forward_round_handshake:
  assumes "\<not> fw_authok fw" "\<not> fw_noauth fw" "\<not> fw_cached fw" "rr_empty d = 0" "\<not> host_changed d fw" "logged_in d fw creds"
    "sendable (forward_modify (g_header_list (fw_globals fw)) d) f0 t" "body_wf d" "request_line creds = Ret buf"
    "fw_server fw = Some s" "peer_wf (fw_client fw)" "peer_wf s" "so_data (p_in (fw_client fw)) = frame_text f0 @ crest"
    "so_data (p_in s) = reply_text r1 f1 @ the_ret (headers_text r) @ frame_text f @ srest"
    "reply_wf r1 f1" "challenge_ok rn creds r1 chal olen m n" "response_wf r"
    "has_method ''HEAD'' (Some d) = Ret head"
    "frame_ok (rr_headers (client_reply r)) (no_body head (rr_code r)) f"
    "if frame_last f then srest = [] \<and> \<not> so_err (p_in s) else True"
  shows "\<exists>c' s'. forward_round getaddrinfo rn serialize es d fw =
      Some (Ret (forward_end serialize r (after_reply r (ready creds fw) c' s')))
    \<and> fw_authok (after_reply r (ready creds fw) c' s') = (rr_code r \<noteq> 407)
    \<and> moved s srest (the_ret (headers_text (forward_probe (forward_modify (g_header_list (fw_globals fw)) d) buf))
        @ the_ret (headers_text (authorize (forward_modify (g_header_list (fw_globals fw)) d) (take n m))) @ frame_text f0) s'
    \<and> moved (fw_client fw) crest (the_ret (headers_text (client_reply r)) @ frame_text f) c'"
  by (rule forward_round_fresh [OF assms])

text \<open>
  C4: two requests, one connection.  In a proxy that serializes, a request on a new connection to a
  parent that asks for NTLM and keeps the connection is followed by another request, of any client
  and for any host.  Over both the parent gets three messages on the same connection: the attempt,
  the first request with the authentication message, and the second request as it is, without
  credentials; each client gets its own reply.  The second request makes no connection.
\<close>

theorem forward_requests_share:
  assumes "given d" "cache_take (\<lambda>i. fwd_closed (idle i)) g = Ret ((0, a), g1)"
    "proxy_connect getaddrinfo g1 (Some new_auth) = Ret ((sd, Some p), Some c, g2)" "0 < sd" "sd < 2 ^ 31"
    "g_cache g2 = Some []" "\<not> g_ntlmbasic g2" "http_parse_basic (rr_headers d) ''Proxy-Authorization'' c = Ret (k, creds)"
    "sendable (forward_modify (g_header_list g2) d) f0 t" "request_line creds = Ret buf"
    "peer_wf cd" "peer_wf p" "so_data (p_in cd) = frame_text f0 @ crest"
    "so_data (p_in p) = reply_text r1 f1 @ the_ret (headers_text r) @ frame_text f
       @ the_ret (headers_text r') @ frame_text f' @ srest"
    "reply_wf r1 f1" "challenge_ok rn creds r1 chal olen m n" "response_wf r" "rr_code r \<noteq> 407" "kept r"
    "has_method ''HEAD'' (Some d) = Ret head"
    "frame_ok (rr_headers (client_reply r)) (no_body head (rr_code r)) f" "\<not> frame_last f"
    "given e" "http_parse_basic (rr_headers e) ''Proxy-Authorization'' creds = Ret (k', creds')"
    "sendable (forward_modify (g_header_list g2) e) f0' t'"
    "peer_wf ce" "so_data (p_in ce) = frame_text f0' @ crest'" "response_wf r'" "rr_code r' \<noteq> 407" "kept r'"
    "has_method ''HEAD'' (Some e) = Ret head'"
    "frame_ok (rr_headers (client_reply r')) (no_body head' (rr_code r')) f'" "\<not> frame_last f'"
  shows "\<exists>fw fw' q. forward_request getaddrinfo rn True es g idle cd d = Some (Ret (Ret_null, fw))
    \<and> forward_request getaddrinfo rn True es (fw_globals fw) (fw_idle fw) ce e = Some (Ret (Ret_null, fw'))
    \<and> g_connects (fw_globals fw') = g_connects g2 \<and> fw_idle fw' sd = Some q
    \<and> moved p srest (the_ret (headers_text (forward_probe (forward_modify (g_header_list g2) d) buf))
        @ the_ret (headers_text (authorize (forward_modify (g_header_list g2) d) (take n m))) @ frame_text f0
        @ t' @ frame_text f0') q
    \<and> moved cd crest (the_ret (headers_text (client_reply r)) @ frame_text f) (fw_client fw)
    \<and> moved ce crest' (the_ret (headers_text (client_reply r')) @ frame_text f') (fw_client fw')"
proof -
  let ?rest = "the_ret (headers_text r') @ frame_text f' @ srest"
  have l: "if frame_last f then ?rest = [] \<and> \<not> so_err (p_in p) else True" using assms(22) by simp
  from forward_request_new [OF assms(1-4,6-21) l, of es] obtain fw q where
    A: "forward_request getaddrinfo rn True es g idle cd d = Some (Ret (Ret_null, fw))"
    "fw_globals fw = g2\<lparr>g_cache := Some (plist_add [] (word_of_int sd) (Some creds))\<rparr>" "fw_idle fw = idle(sd := Some q)"
    "moved p ?rest (the_ret (headers_text (forward_probe (forward_modify (g_header_list g2) d) buf))
        @ the_ret (headers_text (authorize (forward_modify (g_header_list g2) d) (take n m))) @ frame_text f0) q"
    "moved cd crest (the_ret (headers_text (client_reply r)) @ frame_text f) (fw_client fw)" by blast
  have "\<not> fwd_closed ((fw_idle fw) sd)" using A(3) fwd_closed_open [OF moved_wf [OF A(4)]] by simp
  from cache_take_stored [of sd "\<lambda>i. fwd_closed (fw_idle fw i)" "Some creds" g2, OF assms(4,5) this]
  have T: "cache_take (\<lambda>i. fwd_closed (fw_idle fw i)) (fw_globals fw) = Ret ((sd, Some creds), g2\<lparr>g_cache := Some []\<rparr>)"
    by (simp only: A(2))
  let ?g = "g2\<lparr>g_cache := Some []\<rparr>"
  have u: "sd \<noteq> 0" "fw_idle fw sd = Some q" "g_cache ?g = Some []" "\<not> g_ntlmbasic ?g" "g_header_list ?g = g_header_list g2"
    using assms(4,7) A(3) by simp_all
  have l': "if frame_last f' then srest = [] \<and> \<not> so_err (p_in q) else True" using assms(33) by simp
  from forward_request_cached [OF assms(23) T u(1-4) assms(24), unfolded u(5), OF assms(25,26) moved_wf [OF A(4)] assms(27)
      moved_data [OF A(4)] assms(28-32) l', of getaddrinfo rn es] obtain fw' q' where
    B: "forward_request getaddrinfo rn True es (fw_globals fw) (fw_idle fw) ce e = Some (Ret (Ret_null, fw'))"
    "fw_globals fw' = ?g\<lparr>g_cache := Some (plist_add [] (word_of_int sd) (Some creds'))\<rparr>"
    "fw_idle fw' = (fw_idle fw)(sd := Some q')" "moved q srest (t' @ frame_text f0') q'"
    "moved ce crest' (the_ret (headers_text (client_reply r')) @ frame_text f') (fw_client fw')" by blast
  show ?thesis
    using A(1,5) B(1,5) moved_trans [OF A(4) B(4)]
    by (intro exI [of _ fw] exI [of _ fw'] exI [of _ q']) (simp add: B(2,3))
qed

text \<open>
  C23: a body that was already forwarded is lost when the request is tried again.  When the parent
  answers a request on a cached connection with a 407, the request is sent again on a new one; its
  body has been read from the client before, so the parent gets as the body what the client sends
  next, and the reply to that request goes to the client.  The credentials are those of the proxy,
  whatever the client has sent.
\<close>

theorem forward_retry_next_data:
  assumes "fw_cached fw \<and> fw_authok fw \<or> fw_noauth fw" "rr_empty d = 0" "\<not> host_changed d fw" "logged_in d fw creds"
    "d1 = forward_modify (g_header_list (fw_globals fw)) d" "sendable d1 f0 t"
    "fw_server fw = Some s" "peer_wf (fw_client fw)" "peer_wf s"
    "so_data (p_in (fw_client fw)) = frame_text f0 @ frame_text f1 @ crest"
    "so_data (p_in s) = the_ret (headers_text r0) @ srest0" "response_wf r0" "rr_code r0 = 407"
    "cache_take (\<lambda>i. fwd_closed (fw_idle fw i)) (fw_globals fw) = Ret ((0, a), g1)"
    "proxy_connect getaddrinfo g1 (Some new_auth) = Ret ((sd, Some p), Some c2, g2)" "0 < sd"
    "\<not> g_ntlmbasic g2" "d2 = forward_modify (g_header_list g2) d1" "sendable d2 f1 t1" "body_wf d" "request_line c2 = Ret buf"
    "peer_wf p" "so_data (p_in p) = reply_text r1 fr1 @ the_ret (headers_text r) @ frame_text f @ srest"
    "reply_wf r1 fr1" "challenge_ok rn c2 r1 chal olen m n" "response_wf r"
    "has_method ''HEAD'' (Some d) = Ret head" "frame_ok (rr_headers (client_reply r)) (no_body head (rr_code r)) f"
    "if frame_last f then srest = [] \<and> \<not> so_err (p_in p) else True"
  shows "\<exists>fw' q. forward_loop getaddrinfo rn True es d fw = Some (Ret (if kept r then Ret_null else Ret_stop, fw'))
    \<and> fw_server fw' = Some q
    \<and> moved p srest (the_ret (headers_text (forward_probe d2 buf))
        @ the_ret (headers_text (authorize d2 (take n m))) @ frame_text f1) q
    \<and> moved (fw_client fw) crest (the_ret (headers_text (client_reply r)) @ frame_text f) (fw_client fw')"
  by (rule forward_loop_407 [OF assms])

section \<open>Concrete requests\<close>

text \<open>A reply of a parent that keeps the connection, and a request with a body.\<close>

definition sample_keep :: rr_data_s where
  "sample_keep = sample_200\<lparr>rr_headers := [\<lparr>hkey = ''Content-Length'', hvalue = ''2''\<rparr>,
     \<lparr>hkey = ''Connection'', hvalue = ''keep-alive''\<rparr>, \<lparr>hkey = ''Proxy-Connection'', hvalue = ''keep-alive''\<rparr>]\<rparr>"

definition sample_post :: rr_data_s where
  "sample_post = sample_get\<lparr>rr_method := Some ''POST'', rr_headers := [\<lparr>hkey = ''Content-Length'', hvalue = ''2''\<rparr>]\<rparr>"

lemma sample_names:
  "\<not> strcaseeq ''Content-Length'' ''Connection''" "\<not> strcaseeq ''Content-Length'' ''Proxy-Connection''"
  "\<not> strcaseeq ''Content-Length'' ''Proxy-Authenticate''" "\<not> strcaseeq ''Connection'' ''Proxy-Authenticate''"
  "\<not> strcaseeq ''Proxy-Connection'' ''Proxy-Authenticate''" "\<not> strcaseeq ''Connection'' ''Proxy-Connection''"
  "strstr (lowercase ''keep-alive'') (lowercase ''keep-alive'') \<noteq> None"
  "\<not> strcaseeq ''Proxy-Connection'' ''Transfer-Encoding''"
  "\<not> strcaseeq ''Connection'' ''Transfer-Encoding''" "\<not> strcaseeq ''Proxy-Connection'' ''Content-Length''"
  by code_simp+

lemma sample_keep_alive:
  "hlist_subcmp (rr_headers sample_keep) ''Connection'' ''keep-alive''"
  "rr_headers (client_reply sample_keep) = rr_headers sample_keep"
proof -
  show c: "hlist_subcmp (rr_headers sample_keep) ''Connection'' ''keep-alive''"
    using sample_names by (simp add: sample_keep_def hlist_subcmp_def)
  have "rr_code sample_keep = 200" by (simp add: sample_keep_def sample_200_wf)
  with c sample_names show "rr_headers (client_reply sample_keep) = rr_headers sample_keep"
    by (simp add: client_reply_def forward_reply_headers_def hlist_purge_filter Let_def) (simp add: sample_keep_def)
qed

lemma sample_keep_wf:
  "response_wf sample_keep" "rr_code sample_keep \<noteq> 407" "kept sample_keep"
  "frame_ok (rr_headers (client_reply sample_keep)) (no_body False (rr_code sample_keep)) (By_length ''ok'')"
proof -
  show "response_wf sample_keep"
    using sample_200_wf(1) by (simp add: response_wf_def sample_keep_def header_wf_def c_isspace_def)
  show "rr_code sample_keep \<noteq> 407" by (simp add: sample_keep_def sample_200_wf)
  have "rr_code sample_keep = 200" by (simp add: sample_keep_def sample_200_wf)
  then show "frame_ok (rr_headers (client_reply sample_keep)) (no_body False (rr_code sample_keep)) (By_length ''ok'')"
    using sample_names unfolding sample_keep_alive
    by (simp add: sample_keep_def no_body_def chunked_def hlist_subcmp_def show_nat.simps)
  show "kept sample_keep"
    using sample_names unfolding kept_def sample_keep_alive by (simp add: sample_keep_def hlist_subcmp_def)
qed

lemma sample_get_forward:
  "given sample_get" "sendable (forward_modify [] sample_get) No_body (the_ret (headers_text (forward_modify [] sample_get)))"
  "has_method ''HEAD'' (Some sample_get) = Ret False"
  "http_parse_basic (rr_headers sample_get) ''Proxy-Authorization'' c = Ret (0, c)"
proof -
  show "given sample_get" by (simp add: given_def sample_get_def new_rr_data_def)
  show "has_method ''HEAD'' (Some sample_get) = Ret False"
    by (simp add: has_method_def sample_get_def new_rr_data_def strcaseeq_def)
  have "\<not> strcaseeq ''CONNECT'' ''GET''" "strcaseeq ''GET'' ''GET''" by code_simp+
  then show "sendable (forward_modify [] sample_get) No_body (the_ret (headers_text (forward_modify [] sample_get)))"
    by (simp add: sendable_def forward_modify_def sample_get_def new_rr_data_def has_method_def bodyless_def
        headers_text_def Let_def)
  show "http_parse_basic (rr_headers sample_get) ''Proxy-Authorization'' c = Ret (0, c)"
    by (simp add: http_parse_basic_def sample_get_def new_rr_data_def)
qed

definition sample_fwd :: "bool \<Rightarrow> string \<Rightarrow> string \<Rightarrow> fwd" where
  "sample_fwd cached c s = (start_fwd no_globals (\<lambda>_. None) (sample_peer c))
     \<lparr>fw_sd := 5, fw_server := Some (sample_peer s), fw_authok := cached, fw_cached := cached\<rparr>"

lemma sample_fwd_simps [simp]:
  "fw_server (sample_fwd b c s) = Some (sample_peer s)" "fw_client (sample_fwd b c s) = sample_peer c"
  "fw_authok (sample_fwd b c s) = b" "fw_cached (sample_fwd b c s) = b" "\<not> fw_noauth (sample_fwd b c s)"
  "fw_creds (sample_fwd b c s) = new_auth" "g_header_list (fw_globals (sample_fwd b c s)) = []"
  "\<not> host_changed d (sample_fwd b c s)" "peer_wf (sample_peer c)"
  "\<not> g_ntlmbasic (fw_globals (sample_fwd b c s))" "fw_globals (sample_fwd b c s) = no_globals"
  "fw_idle (sample_fwd b c s) = (\<lambda>_. None)"
  by (simp_all add: sample_fwd_def start_fwd_def no_globals_def host_changed_def peer_wf_def)

theorem forward_round_authenticated_witness:
  "\<exists>fw'. forward_round (\<lambda>_. None) sample_rnd False [] sample_get
      (sample_fwd True ''next'' (the_ret (headers_text sample_keep) @ ''ok'')) = Some (Ret (F_next fw'))
    \<and> so_data (p_in (fw_client fw')) = ''next''"
proof -
  let ?fw = "sample_fwd True ''next'' (the_ret (headers_text sample_keep) @ ''ok'')"
  have lg: "logged_in sample_get ?fw new_auth" using sample_get_forward(4) by (simp add: logged_in_def no_globals_def)
  have e: "rr_empty sample_get = 0" by (simp add: sample_get_def)
  have end': "forward_end False sample_keep x = F_next x" for x
    using sample_keep_wf(3) sample_keep_alive(1) by (simp add: forward_end_def)
  have c: "fw_client (after_reply r fw c s) = c" for r fw c s by (simp add: after_reply_def)
  have sn: "sendable (forward_modify (g_header_list (fw_globals ?fw)) sample_get) No_body
      (the_ret (headers_text (forward_modify [] sample_get)))" using sample_get_forward(2) by (simp add: no_globals_def)
  have w: "fw_authok ?fw \<or> fw_noauth ?fw" "\<not> host_changed sample_get ?fw"
    "fw_server ?fw = Some (sample_peer (the_ret (headers_text sample_keep) @ ''ok''))"
    "peer_wf (fw_client ?fw)" "peer_wf (sample_peer (the_ret (headers_text sample_keep) @ ''ok''))"
    "so_data (p_in (fw_client ?fw)) = frame_text No_body @ ''next''"
    "so_data (p_in (sample_peer (the_ret (headers_text sample_keep) @ ''ok''))) =
       the_ret (headers_text sample_keep) @ frame_text (By_length ''ok'') @ []"
    "if frame_last (By_length ''ok'') then [] = ([] :: string)
       \<and> \<not> so_err (p_in (sample_peer (the_ret (headers_text sample_keep) @ ''ok''))) else True" by simp_all
  from forward_round_authenticated [OF w(1) e w(2) lg sn w(3-7) sample_keep_wf(1,2) sample_get_forward(3) sample_keep_wf(4) w(8),
      of "\<lambda>_. None" sample_rnd False "[]"] obtain c' s' where
    "forward_round (\<lambda>_. None) sample_rnd False [] sample_get ?fw =
      Some (Ret (forward_end False sample_keep (after_reply sample_keep (ready new_auth ?fw) c' s')))"
    "so_data (p_in c') = ''next''" using moved_data by blast
  then show ?thesis by (auto simp: end' c)
qed

theorem forward_round_handshake_witness:
  "\<exists>fw'. forward_round (\<lambda>_. None) sample_rnd False [] sample_get (sample_fwd False ''next''
      (reply_text sample_407 (By_length ''no'') @ the_ret (headers_text sample_keep) @ ''ok'')) = Some (Ret (F_next fw'))
    \<and> fw_authok fw'"
proof -
  let ?s = "reply_text sample_407 (By_length ''no'') @ the_ret (headers_text sample_keep) @ ''ok''"
  let ?fw = "sample_fwd False ''next'' ?s"
  have lg: "logged_in sample_get ?fw new_auth" using sample_get_forward(4) by (simp add: logged_in_def no_globals_def)
  have e: "rr_empty sample_get = 0" by (simp add: sample_get_def)
  have end': "forward_end False sample_keep x = F_next x" for x
    using sample_keep_wf(3) sample_keep_alive(1) by (simp add: forward_end_def)
  from new_auth_request obtain buf where r: "request_line new_auth = Ret buf" by blast
  from sample_response obtain m n where ch: "challenge_ok sample_rnd new_auth sample_407 sample_chal 200 m n"
    using sample_407_wf(2) by blast
  have sn: "sendable (forward_modify (g_header_list (fw_globals ?fw)) sample_get) No_body
      (the_ret (headers_text (forward_modify [] sample_get)))" using sample_get_forward(2) by (simp add: no_globals_def)
  have w: "\<not> fw_authok ?fw" "\<not> fw_noauth ?fw" "\<not> fw_cached ?fw" "\<not> host_changed sample_get ?fw"
    "fw_server ?fw = Some (sample_peer ?s)" "peer_wf (fw_client ?fw)" "peer_wf (sample_peer ?s)"
    "so_data (p_in (fw_client ?fw)) = frame_text No_body @ ''next''"
    "so_data (p_in (sample_peer ?s)) = reply_text sample_407 (By_length ''no'')
       @ the_ret (headers_text sample_keep) @ frame_text (By_length ''ok'') @ []"
    "if frame_last (By_length ''ok'') then [] = ([] :: string) \<and> \<not> so_err (p_in (sample_peer ?s)) else True" by simp_all
  from forward_round_handshake [OF w(1-3) e w(4) lg sn given_dup(2) [OF sample_get_forward(1)] r w(5-9) sample_407_wf(1) ch
      sample_keep_wf(1) sample_get_forward(3) sample_keep_wf(4) w(10), of "\<lambda>_. None" False "[]"] obtain c' s' where
    "forward_round (\<lambda>_. None) sample_rnd False [] sample_get ?fw =
      Some (Ret (forward_end False sample_keep (after_reply sample_keep (ready new_auth ?fw) c' s')))"
    "fw_authok (after_reply sample_keep (ready new_auth ?fw) c' s') = (rr_code sample_keep \<noteq> 407)" by blast
  then show ?thesis using sample_keep_wf(2) by (auto simp: end')
qed

text \<open>The sample request with the credentials of a client, twice.\<close>

definition sample_secret :: rr_data_s where
  "sample_secret = sample_get\<lparr>rr_headers := [\<lparr>hkey = ''Proxy-Authorization'', hvalue = ''x''\<rparr>,
     \<lparr>hkey = ''Accept'', hvalue = ''a''\<rparr>, \<lparr>hkey = ''proxy-authorization'', hvalue = ''y''\<rparr>]\<rparr>"

lemma sample_secret_forward:
  "given sample_secret" "has_method ''HEAD'' (Some sample_secret) = Ret False"
  "sendable (forward_modify [] sample_secret) No_body (the_ret (headers_text (forward_modify [] sample_secret)))"
  "http_parse_basic (rr_headers sample_secret) ''Proxy-Authorization'' c = Ret (0, c)"
  "values_of (rr_headers sample_secret) ''Accept'' = [''a'']"
proof -
  show "given sample_secret" by (simp add: given_def sample_secret_def sample_get_def new_rr_data_def)
  have m: "\<not> strcaseeq ''CONNECT'' ''GET''" "strcaseeq ''GET'' ''GET''" "\<not> strcaseeq ''HEAD'' ''GET''" by code_simp+
  then show "has_method ''HEAD'' (Some sample_secret) = Ret False"
    by (simp add: has_method_def sample_secret_def sample_get_def)
  have k: "rr_headers (forward_modify [] sample_secret) =
      [\<lparr>hkey = ''Accept'', hvalue = ''a''\<rparr>, \<lparr>hkey = ''Proxy-Connection'', hvalue = ''keep-alive''\<rparr>]"
    by code_simp
  have n: "\<not> strcaseeq ''Accept'' x" if "x \<in> {''Content-Length'', ''Transfer-Encoding'', ''Connection'', ''Content-Type''}" for x
    using that by (elim insertE emptyE; hypsubst; code_simp)
  have n': "\<not> strcaseeq ''Proxy-Connection'' x" if "x \<in> {''Content-Length'', ''Transfer-Encoding'', ''Connection'', ''Content-Type''}" for x
    using that by (elim insertE emptyE; hypsubst; code_simp)
  from k have "forward_modify [] sample_secret = sample_get\<lparr>rr_headers :=
      [\<lparr>hkey = ''Accept'', hvalue = ''a''\<rparr>, \<lparr>hkey = ''Proxy-Connection'', hvalue = ''keep-alive''\<rparr>]\<rparr>"
    by (simp add: forward_modify_def sample_secret_def)
  with m n n' show "sendable (forward_modify [] sample_secret) No_body (the_ret (headers_text (forward_modify [] sample_secret)))"
    by (simp add: sendable_def sample_get_def new_rr_data_def has_method_def bodyless_def headers_text_def Let_def
        hlist_subcmp_def)
  have "\<not> hlist_subcmp (rr_headers sample_secret) ''Proxy-Authorization'' ''basic''" by code_simp
  then show "http_parse_basic (rr_headers sample_secret) ''Proxy-Authorization'' c = Ret (0, c)"
    by (simp add: http_parse_basic_def split: option.split)
  show "values_of (rr_headers sample_secret) ''Accept'' = [''a'']" by code_simp
qed

theorem forward_headers_private_witness:
  "\<exists>fw' (q2 :: rr_data_s) b. forward_round (\<lambda>_. None) sample_rnd False [] sample_secret (sample_fwd False ''next''
      (reply_text sample_407 (By_length ''no'') @ the_ret (headers_text sample_keep) @ ''ok'')) = Some (Ret (F_next fw'))
    \<and> map hvalue (rr_headers sample_secret) = [''x'', ''a'', ''y'']
    \<and> values_of (rr_headers q2) ''Proxy-Authorization'' = [''NTLM '' @ b] \<and> values_of (rr_headers q2) ''Accept'' = [''a'']"
proof -
  let ?s = "reply_text sample_407 (By_length ''no'') @ the_ret (headers_text sample_keep) @ ''ok''"
  let ?fw = "sample_fwd False ''next'' ?s"
  have lg: "logged_in sample_secret ?fw new_auth" using sample_secret_forward(4) by (simp add: logged_in_def no_globals_def)
  have e: "rr_empty sample_secret = 0" by (simp add: sample_secret_def sample_get_def)
  have end': "forward_end False sample_keep x = F_next x" for x
    using sample_keep_wf(3) sample_keep_alive(1) by (simp add: forward_end_def)
  from new_auth_request obtain buf where r: "request_line new_auth = Ret buf" by blast
  from sample_response obtain m n where ch: "challenge_ok sample_rnd new_auth sample_407 sample_chal 200 m n"
    using sample_407_wf(2) by blast
  have w: "\<not> fw_authok ?fw" "\<not> fw_noauth ?fw" "\<not> fw_cached ?fw" "\<not> host_changed sample_secret ?fw"
    "[] = g_header_list (fw_globals ?fw)"
    "fw_server ?fw = Some (sample_peer ?s)" "peer_wf (fw_client ?fw)" "peer_wf (sample_peer ?s)"
    "so_data (p_in (fw_client ?fw)) = frame_text No_body @ ''next''"
    "so_data (p_in (sample_peer ?s)) = reply_text sample_407 (By_length ''no'')
       @ the_ret (headers_text sample_keep) @ frame_text (By_length ''ok'') @ []"
    "if frame_last (By_length ''ok'') then [] = ([] :: string) \<and> \<not> so_err (p_in (sample_peer ?s)) else True"
    by (simp_all add: no_globals_def)
  from forward_headers_private [OF w(1-3) e w(4) lg w(5) sample_secret_forward(3) given_dup(2) [OF sample_secret_forward(1)] r
      w(6-10) sample_407_wf(1) ch sample_keep_wf(1) sample_secret_forward(2) sample_keep_wf(4) w(11), of "\<lambda>_. None" False "[]"]
  obtain fw' q2 where F: "forward_round (\<lambda>_. None) sample_rnd False [] sample_secret ?fw = Some (Ret (forward_end False sample_keep fw'))"
    "values_of (rr_headers q2) ''Proxy-Authorization'' = [''NTLM '' @ to_base64 (take n m) (BUFSIZE - 5)]"
    "same_but (map hkey ([] :: hlist_t) @ [''Proxy-Connection'', ''Proxy-Authorization'']) sample_secret q2" by blast
  have "\<not> strcaseeq ''Accept'' ''Proxy-Connection''" "\<not> strcaseeq ''Accept'' ''Proxy-Authorization''" by code_simp+
  with F(3) have "values_of (rr_headers q2) ''Accept'' = [''a'']" by (simp add: same_but_def sample_secret_forward(5))
  moreover have "map hvalue (rr_headers sample_secret) = [''x'', ''a'', ''y'']" by (simp add: sample_secret_def)
  ultimately show ?thesis using F(1,2)
    by (intro exI [of _ fw'] exI [of _ q2] exI [of _ "to_base64 (take n m) (BUFSIZE - 5)"]) (simp add: end')
qed

text \<open>A proxy with one parent, whose connection is \<open>p\<close>.\<close>

definition parent_of :: "peer \<Rightarrow> globals" where
  "parent_of p = one_parent\<lparr>g_connects := [(7, p)]\<rparr>"

lemma parent_of_connects:
  "\<exists>g2. proxy_connect (\<lambda>_. None) (parent_of p) (Some new_auth) = Ret ((7, Some p), Some new_auth, g2)
    \<and> g_cache g2 = Some [] \<and> \<not> g_ntlmbasic g2 \<and> g_header_list g2 = []"
  "cache_take closed (parent_of p) = Ret ((0, None), parent_of p)"
proof -
  have "copy_auth new_auth new_auth True = Ret new_auth" by code_simp
  then show "\<exists>g2. proxy_connect (\<lambda>_. None) (parent_of p) (Some new_auth) = Ret ((7, Some p), Some new_auth, g2)
    \<and> g_cache g2 = Some [] \<and> \<not> g_ntlmbasic g2 \<and> g_header_list g2 = []"
    by (simp add: proxy_connect_def Let_def parent_of_def one_parent_def no_globals_def connect_loop.simps parent_attempt_def
        so_connect_def invalidate_cache_def)
  show "cache_take closed (parent_of p) = Ret ((0, None), parent_of p)"
    by (simp add: cache_take_def parent_of_def one_parent_def no_globals_def plist_pop_def)
qed

theorem forward_requests_share_witness:
  "\<exists>p fw fw'. forward_request (\<lambda>_. None) sample_rnd True [] (parent_of p) (\<lambda>_. None) (sample_peer ''x'') sample_get
       = Some (Ret (Ret_null, fw))
    \<and> forward_request (\<lambda>_. None) sample_rnd True [] (fw_globals fw) (fw_idle fw) (sample_peer ''y'') sample_get
       = Some (Ret (Ret_null, fw'))
    \<and> so_data (p_in (fw_client fw')) = ''y''"
proof -
  let ?r = "the_ret (headers_text sample_keep) @ ''ok''"
  let ?s = "reply_text sample_407 (By_length ''no'') @ ?r @ ?r"
  from new_auth_request obtain buf where b: "request_line new_auth = Ret buf" by blast
  from sample_response obtain m n where ch: "challenge_ok sample_rnd new_auth sample_407 sample_chal 200 m n"
    using sample_407_wf(2) by blast
  from parent_of_connects(1) [of "sample_peer ?s"] obtain g2 where
    g: "proxy_connect (\<lambda>_. None) (parent_of (sample_peer ?s)) (Some new_auth) = Ret ((7, Some (sample_peer ?s)), Some new_auth, g2)"
    "g_cache g2 = Some []" "\<not> g_ntlmbasic g2" "g_header_list g2 = []" by blast
  have s: "sendable (forward_modify (g_header_list g2) sample_get) No_body (the_ret (headers_text (forward_modify [] sample_get)))"
    unfolding g(4) by (rule sample_get_forward(2))
  have w: "peer_wf (sample_peer ''x'')" "peer_wf (sample_peer ?s)" "so_data (p_in (sample_peer ''x'')) = frame_text No_body @ ''x''"
    "so_data (p_in (sample_peer ?s)) = reply_text sample_407 (By_length ''no'') @ the_ret (headers_text sample_keep)
       @ frame_text (By_length ''ok'') @ the_ret (headers_text sample_keep) @ frame_text (By_length ''ok'') @ []"
    "\<not> frame_last (By_length ''ok'')" "peer_wf (sample_peer ''y'')" "so_data (p_in (sample_peer ''y'')) = frame_text No_body @ ''y''"
    "0 < (7::int)" "(7::int) < 2 ^ 31" by (simp_all add: peer_wf_def)
  from forward_requests_share [OF sample_get_forward(1) parent_of_connects(2) g(1) w(8,9) g(2,3) sample_get_forward(4) s b w(1-4)
      sample_407_wf(1) ch sample_keep_wf(1-3) sample_get_forward(3) sample_keep_wf(4) w(5) sample_get_forward(1,4) s w(6,7)
      sample_keep_wf(1-3) sample_get_forward(3) sample_keep_wf(4) w(5), where idle = "\<lambda>_. None" and es = "[]"] obtain fw fw' where
    "forward_request (\<lambda>_. None) sample_rnd True [] (parent_of (sample_peer ?s)) (\<lambda>_. None) (sample_peer ''x'') sample_get
       = Some (Ret (Ret_null, fw))"
    "forward_request (\<lambda>_. None) sample_rnd True [] (fw_globals fw) (fw_idle fw) (sample_peer ''y'') sample_get
       = Some (Ret (Ret_null, fw'))" "so_data (p_in (fw_client fw')) = ''y''" using moved_data by blast
  then show ?thesis by blast
qed

lemma sample_post_forward:
  "rr_empty sample_post = 0" "body_wf sample_post" "has_method ''HEAD'' (Some sample_post) = Ret False"
  "http_parse_basic (rr_headers sample_post) ''Proxy-Authorization'' c = Ret (0, c)"
  "length b = 2 \<Longrightarrow> sendable (forward_modify [] sample_post) (By_length b) (the_ret (headers_text (forward_modify [] sample_post)))"
  "forward_modify [] (forward_modify [] sample_post) = forward_modify [] sample_post"
proof -
  have n: "\<not> strcaseeq ''CONNECT'' ''POST''" "\<not> strcaseeq ''GET'' ''POST''" "\<not> strcaseeq ''HEAD'' ''POST''"
    "strcaseeq ''Proxy-Connection'' ''Proxy-Connection''" by code_simp+
  show "rr_empty sample_post = 0" "body_wf sample_post" "has_method ''HEAD'' (Some sample_post) = Ret False"
    using n by (simp_all add: sample_post_def sample_get_def new_rr_data_def body_wf_def has_method_def)
  show "http_parse_basic (rr_headers sample_post) ''Proxy-Authorization'' c = Ret (0, c)"
    by (simp add: http_parse_basic_def sample_post_def)
  have h: "rr_headers (forward_modify [] sample_post) =
      [\<lparr>hkey = ''Content-Length'', hvalue = ''2''\<rparr>, \<lparr>hkey = ''Proxy-Connection'', hvalue = ''keep-alive''\<rparr>]"
    using n sample_names by (simp add: forward_modify_def sample_post_def hlist_mod_def hlist_add_def hlist_purge_filter)
  show "forward_modify [] (forward_modify [] sample_post) = forward_modify [] sample_post"
    using n h sample_names by (simp add: forward_modify_def hlist_mod_def hlist_add_def hlist_purge_filter)
  show "length b = 2 \<Longrightarrow> sendable (forward_modify [] sample_post) (By_length b) (the_ret (headers_text (forward_modify [] sample_post)))"
    unfolding sendable_def h using n sample_names
    by (simp add: forward_modify_def sample_post_def sample_get_def new_rr_data_def has_method_def bodyless_def
        headers_text_def Let_def chunked_def hlist_subcmp_def show_nat.simps)
qed

theorem forward_retry_next_data_witness:
  "\<exists>fw' q out. forward_loop (\<lambda>_. None) sample_rnd True [] sample_post
       ((sample_fwd True ''B1B2'' (the_ret (headers_text sample_407)))
          \<lparr>fw_globals := parent_of (sample_peer (reply_text sample_407 (By_length ''no'') @ the_ret (headers_text sample_keep) @ ''ok''))\<rparr>)
      = Some (Ret (Ret_null, fw'))
    \<and> fw_server fw' = Some q \<and> sk_out (p_out q) = out @ ''B2'' \<and> so_data (p_in (fw_client fw')) = []"
proof -
  let ?p = "sample_peer (reply_text sample_407 (By_length ''no'') @ the_ret (headers_text sample_keep) @ ''ok'')"
  let ?fw = "(sample_fwd True ''B1B2'' (the_ret (headers_text sample_407)))\<lparr>fw_globals := parent_of ?p\<rparr>"
  have n: "\<not> g_ntlmbasic (parent_of ?p)" "g_header_list (parent_of ?p) = []"
    by (simp_all add: parent_of_def one_parent_def no_globals_def)
  have lg: "logged_in sample_post ?fw new_auth" using sample_post_forward(4) n by (simp add: logged_in_def)
  have hc: "\<not> host_changed sample_post ?fw" by (simp add: host_changed_def sample_fwd_def start_fwd_def)
  have r0: "response_wf sample_407" "rr_code sample_407 = 407"
    using sample_407_wf(1) by (simp_all add: reply_wf_def sample_407_def)
  from new_auth_request obtain buf where b: "request_line new_auth = Ret buf" by blast
  from sample_response obtain m k where ch: "challenge_ok sample_rnd new_auth sample_407 sample_chal 200 m k"
    using sample_407_wf(2) by blast
  from parent_of_connects(1) [of ?p] obtain g2 where
    g: "proxy_connect (\<lambda>_. None) (parent_of ?p) (Some new_auth) = Ret ((7, Some ?p), Some new_auth, g2)"
    "g_cache g2 = Some []" "\<not> g_ntlmbasic g2" "g_header_list g2 = []" by blast
  let ?d = "forward_modify [] sample_post"
  have d1: "?d = forward_modify (g_header_list (fw_globals ?fw)) sample_post" using n by simp
  have d2: "?d = forward_modify (g_header_list g2) ?d" unfolding g(4) sample_post_forward(6) ..
  have ct: "cache_take (\<lambda>i. fwd_closed (fw_idle ?fw i)) (fw_globals ?fw) = Ret ((0, None), parent_of ?p)"
    using parent_of_connects(2) by simp
  have s1: "sendable ?d (By_length ''B1'') (the_ret (headers_text ?d))" "sendable ?d (By_length ''B2'') (the_ret (headers_text ?d))"
    by (rule sample_post_forward(5), simp)+
  have w: "peer_wf (fw_client ?fw)" "peer_wf ?p" "peer_wf (sample_peer (the_ret (headers_text sample_407)))"
    "fw_server ?fw = Some (sample_peer (the_ret (headers_text sample_407)))"
    "so_data (p_in (fw_client ?fw)) = frame_text (By_length ''B1'') @ frame_text (By_length ''B2'') @ []"
    "so_data (p_in (sample_peer (the_ret (headers_text sample_407)))) = the_ret (headers_text sample_407) @ []"
    "so_data (p_in ?p) = reply_text sample_407 (By_length ''no'') @ the_ret (headers_text sample_keep) @ frame_text (By_length ''ok'') @ []"
    "fw_cached ?fw \<and> fw_authok ?fw \<or> fw_noauth ?fw" "0 < (7::int)"
    "if frame_last (By_length ''ok'') then [] = ([] :: string) \<and> \<not> so_err (p_in ?p) else True"
    by (simp_all add: peer_wf_def)
  from forward_retry_next_data [OF w(8) sample_post_forward(1) hc lg d1 s1(1) w(4,1,3,5,6) r0 ct g(1) w(9) g(3) d2 s1(2)
      sample_post_forward(2) b w(2,7) sample_407_wf(1) ch sample_keep_wf(1) sample_post_forward(3) sample_keep_wf(4) w(10), of "[]"]
  obtain fw' q where "forward_loop (\<lambda>_. None) sample_rnd True [] sample_post ?fw =
      Some (Ret (if kept sample_keep then Ret_null else Ret_stop, fw'))" "fw_server fw' = Some q"
    "moved ?p [] (the_ret (headers_text (forward_probe ?d buf))
        @ the_ret (headers_text (authorize ?d (take k m))) @ frame_text (By_length ''B2'')) q"
    "so_data (p_in (fw_client fw')) = []" using moved_data by blast
  then show ?thesis using sample_keep_wf(3) by (auto simp: moved_def)
qed

end
