(* ===== verification/Proxy.thy ===== *)
theory Proxy
  imports Direct Request
begin

text \<open>
  proxy\_thread of main.c: the thread of a client, which takes its requests and decides between the
  web server and the parent.
\<close>

section \<open>The thread\<close>

text \<open>What the thread shares with the functions it calls, and the list of finished threads.\<close>

record thr =
  th_client :: peer
  th_globals :: globals
  th_idle :: "int \<Rightarrow> peer option"

text \<open>
  The configuration and the outside world: NoProxy, serialize, the text of \<open>strerror\<close>, the events of
  the tunnels, the resolver, the uninitialised address and the randomness.
\<close>

record settings =
  su_noproxy :: "string plist_t"
  su_serialize :: bool
  su_error :: string
  su_events :: "sel list"
  su_resolver :: gai
  su_src :: u32
  su_rnd :: rnd

definition proxy_decide :: "settings \<Rightarrow> rr_data_s \<Rightarrow> thr \<Rightarrow> (thread_ret \<times> thr) c_prog" where
  "proxy_decide su request th =
     p_bind (Some (noproxy_match (su_noproxy su) (rr_hostname request))) (\<lambda>direct.
       if direct then
         p_bind (direct_request (su_resolver su) (su_src su) (su_rnd su) (su_serialize su) (su_error su) (su_events su)
                   (th_globals th) (th_client th) request) (\<lambda>(rc, r).
           Some (Ret (rc, th\<lparr>th_client := rl_client r, th_globals := rl_globals r\<rparr>)))
       else
         p_bind (forward_request (su_resolver su) (su_rnd su) (su_serialize su) (su_events su)
                   (th_globals th) (th_idle th) (th_client th) request) (\<lambda>(rc, fw).
           Some (Ret (rc, \<lparr>th_client = fw_client fw, th_globals = fw_globals fw, th_idle = fw_idle fw\<rparr>))))"

text \<open>
  A request, and every request that comes back for another decision: whether the last one asked to
  be kept, and what its function returned.
\<close>

partial_function (option) proxy_serve ::
  "settings \<Rightarrow> rr_data_s \<Rightarrow> thr \<Rightarrow> (bool \<times> thread_ret \<times> thr) c_prog" where
  "proxy_serve su request th =
     (case proxy_decide su request th of
        None \<Rightarrow> None
      | Some UB \<Rightarrow> Some UB
      | Some (Ret (Ret_request q, th')) \<Rightarrow> proxy_serve su q th'
      | Some (Ret (rc, th')) \<Rightarrow>
          Some (Ret (hlist_subcmp (rr_headers request) ''Proxy-Connection'' ''keep-alive'', rc, th')))"

text \<open>One run of the outer loop; \<open>Inl\<close> is its end.\<close>

definition proxy_turn :: "settings \<Rightarrow> thr \<Rightarrow> (thr + thr) c_prog" where
  "proxy_turn su th =
     p_bind (peer_recv (th_client th) new_rr_data) (\<lambda>(ok, request, c).
       let th1 = th\<lparr>th_client := c\<rparr>
       in if \<not> ok then Some (Ret (Inl th1))
          else p_bind (proxy_serve su request th1) (\<lambda>(keep_alive, rc, th2).
            Some (Ret (if keep_alive \<and> rc \<noteq> Ret_stop \<and> \<not> su_serialize su then Inr th2 else Inl th2))))"

partial_function (option) proxy_thread :: "settings \<Rightarrow> thr \<Rightarrow> thr c_prog" where
  "proxy_thread su th =
     (case proxy_turn su th of
        None \<Rightarrow> None
      | Some UB \<Rightarrow> Some UB
      | Some (Ret (Inl th')) \<Rightarrow> Some (Ret th')
      | Some (Ret (Inr th')) \<Rightarrow> proxy_thread su th')"

text \<open>The thread joins the list of those that have ended.\<close>

definition thread_ended :: "bool \<Rightarrow> u64 \<Rightarrow> unit plist_t \<Rightarrow> unit plist_t" where
  "thread_ended serialize self threads_list = (if serialize then threads_list else plist_add threads_list self None)"

section \<open>Lemmas\<close>

text \<open>The request the thread reads.\<close>

definition parsed :: "rr_data_s \<Rightarrow> string \<Rightarrow> nat option \<Rightarrow> string \<Rightarrow> rr_data_s" where
  "parsed d name port path = new_rr_data\<lparr>rr_req := 1, rr_empty := 0,
      rr_method := rr_method d, rr_url := rr_url d, rr_rel_url := Some (if path = [] then ''/'' else path),
      rr_http := rr_http d, rr_hostname := Some name, rr_port := url_port (the (rr_url d)) port,
      rr_headers := add_host (rr_headers d) (authority name port)\<rparr>"

lemma peer_recv_request:
  assumes "request_wf d scheme name port path" "headers_text d = Ret text" "peer_wf p" "so_data (p_in p) = text @ r"
  shows "\<exists>p'. peer_recv p new_rr_data = Some (Ret (True, parsed d name port path, p')) \<and> moved p r [] p'
    \<and> so_err (p_in p') = so_err (p_in p)"
proof -
  have w: "sock_wf (p_in p)" using assms(3) by (simp add: peer_wf_def)
  from request_received [OF assms(1,2) w assms(4), of new_rr_data] obtain s where
    "headers_recv (p_in p) new_rr_data = Some (Ret (True, parsed d name port path, s))" "so_after (p_in p) text s" "so_data s = r"
    by (auto simp: parsed_def new_rr_data_def)
  with assms(3) show ?thesis by (simp add: peer_recv_def moved_def peer_wf_def so_after_def)
qed

lemma parsed_given: "given (parsed d name port path)"
  by (simp add: given_def parsed_def new_rr_data_def)

lemma proxy_serve_null:
  assumes "proxy_decide su request th = Some (Ret (Ret_null, th'))"
  shows "proxy_serve su request th =
    Some (Ret (hlist_subcmp (rr_headers request) ''Proxy-Connection'' ''keep-alive'', Ret_null, th'))"
  using assms by (subst proxy_serve.simps) simp

lemma proxy_thread_once:
  assumes "peer_recv (th_client th) new_rr_data = Some (Ret (True, d, c))" "su_serialize su"
    "proxy_decide su d (th\<lparr>th_client := c\<rparr>) = Some (Ret (Ret_null, th'))"
  shows "proxy_thread su th = Some (Ret th')"
  using assms(1,2) proxy_serve_null [OF assms(3)]
  by (subst proxy_thread.simps) (simp add: proxy_turn_def Let_def)

section \<open>Properties\<close>

text \<open>
  C2: the whole way of a request.  A client sends a request for a host that is no exception to a
  proxy that serializes; the connection to the parent is new, the parent asks for NTLM and answers
  the authenticated request without closing.  Then the thread ends; the parent was sent the two
  messages of the handshake, made from the request as it was parsed, and the body the client sent;
  the client was sent the parent's reply with its body; the connection is in the cache under the
  credentials it was authenticated with.
\<close>

theorem proxy_thread_request:
  assumes "su_serialize su" "noproxy_match (su_noproxy su) (Some name) = Ret False"
    "request_wf d scheme name port path" "headers_text d = Ret text" "peer_wf (th_client th)"
    "so_data (p_in (th_client th)) = text @ frame_text f0 @ crest"
    "cache_take (\<lambda>i. fwd_closed (th_idle th i)) (th_globals th) = Ret ((0, a), g1)"
    "proxy_connect (su_resolver su) g1 (Some new_auth) = Ret ((sd, Some p), Some c, g2)" "0 < sd"
    "g_cache g2 = Some l" "\<not> g_ntlmbasic g2"
    "http_parse_basic (rr_headers (parsed d name port path)) ''Proxy-Authorization'' c = Ret (k, creds)"
    "sendable (forward_modify (g_header_list g2) (parsed d name port path)) f0 t" "request_line creds = Ret buf" "peer_wf p"
    "so_data (p_in p) = reply_text r1 f1 @ the_ret (headers_text r) @ frame_text f @ srest"
    "reply_wf r1 f1" "challenge_ok (su_rnd su) creds r1 chal olen m n" "response_wf r" "rr_code r \<noteq> 407" "kept r"
    "has_method ''HEAD'' (Some (parsed d name port path)) = Ret head"
    "frame_ok (rr_headers (client_reply r)) (no_body head (rr_code r)) f"
    "if frame_last f then srest = [] \<and> \<not> so_err (p_in p) else True"
  shows "\<exists>th' q. proxy_thread su th = Some (Ret th')
    \<and> th_globals th' = g2\<lparr>g_cache := Some (plist_add l (word_of_int sd) (Some creds))\<rparr>
    \<and> th_idle th' = (th_idle th)(sd := Some q)
    \<and> moved p srest (the_ret (headers_text (forward_probe (forward_modify (g_header_list g2) (parsed d name port path)) buf))
        @ the_ret (headers_text (authorize (forward_modify (g_header_list g2) (parsed d name port path)) (take n m)))
        @ frame_text f0) q
    \<and> moved (th_client th) crest (the_ret (headers_text (client_reply r)) @ frame_text f) (th_client th')"
proof -
  let ?d = "parsed d name port path"
  from peer_recv_request [OF assms(3-6)] obtain cl where
    R: "peer_recv (th_client th) new_rr_data = Some (Ret (True, ?d, cl))" "moved (th_client th) (frame_text f0 @ crest) [] cl"
    by blast
  from forward_request_new [OF parsed_given assms(7-14) moved_wf [OF R(2)] assms(15) moved_data [OF R(2)] assms(16-24),
      of "su_events su"] obtain fw q where
    F: "forward_request (su_resolver su) (su_rnd su) True (su_events su) (th_globals th) (th_idle th) cl ?d = Some (Ret (Ret_null, fw))"
    "fw_globals fw = g2\<lparr>g_cache := Some (plist_add l (word_of_int sd) (Some creds))\<rparr>" "fw_idle fw = (th_idle th)(sd := Some q)"
    "moved p srest (the_ret (headers_text (forward_probe (forward_modify (g_header_list g2) ?d) buf))
        @ the_ret (headers_text (authorize (forward_modify (g_header_list g2) ?d) (take n m))) @ frame_text f0) q"
    "moved cl crest (the_ret (headers_text (client_reply r)) @ frame_text f) (fw_client fw)" by blast
  let ?th = "\<lparr>th_client = fw_client fw, th_globals = fw_globals fw, th_idle = fw_idle fw\<rparr>"
  have h: "rr_hostname ?d = Some name" by (simp add: parsed_def)
  have "proxy_decide su ?d (th\<lparr>th_client := cl\<rparr>) = Some (Ret (Ret_null, ?th))"
    using F(1) assms(1,2) by (simp add: proxy_decide_def h)
  from proxy_thread_once [OF R(1) assms(1) this] F(2-4) moved_trans [OF R(2) F(5)] show ?thesis by fastforce
qed

definition sample_settings :: "string plist_t \<Rightarrow> settings" where
  "sample_settings l = \<lparr>su_noproxy = l, su_serialize = True, su_error = [], su_events = [], su_resolver = (\<lambda>_. None),
     su_src = 0, su_rnd = sample_rnd\<rparr>"

definition sample_thr :: "string \<Rightarrow> string \<Rightarrow> thr" where
  "sample_thr c s = \<lparr>th_client = sample_peer c, th_globals = parent_of (sample_peer s), th_idle = (\<lambda>_. None)\<rparr>"

text \<open>The sample request of the HTTP messages, parsed.\<close>

lemma parsed_sample:
  "rr_headers (parsed sample_request ''a.b'' (Some 81) ''/c'') =
     [\<lparr>hkey = ''X'', hvalue = []\<rparr>, \<lparr>hkey = ''Host'', hvalue = ''a.b:81''\<rparr>]"
  "has_method ''HEAD'' (Some (parsed sample_request ''a.b'' (Some 81) ''/c'')) = Ret False"
  "sendable (forward_modify [] (parsed sample_request ''a.b'' (Some 81) ''/c'')) No_body
     (the_ret (headers_text (forward_modify [] (parsed sample_request ''a.b'' (Some 81) ''/c''))))"
proof -
  show "rr_headers (parsed sample_request ''a.b'' (Some 81) ''/c'') =
     [\<lparr>hkey = ''X'', hvalue = []\<rparr>, \<lparr>hkey = ''Host'', hvalue = ''a.b:81''\<rparr>]"
    by (simp add: parsed_def sample_request_def add_host_def authority_def show_nat_81 strcaseeq_def)
  have m: "\<not> strcaseeq ''CONNECT'' ''GET''" "strcaseeq ''GET'' ''GET''" "\<not> strcaseeq ''HEAD'' ''GET''" by code_simp+
  then show "has_method ''HEAD'' (Some (parsed sample_request ''a.b'' (Some 81) ''/c'')) = Ret False"
    by (simp add: has_method_def parsed_def sample_request_def)
  from m show "sendable (forward_modify [] (parsed sample_request ''a.b'' (Some 81) ''/c'')) No_body
     (the_ret (headers_text (forward_modify [] (parsed sample_request ''a.b'' (Some 81) ''/c''))))"
    by (simp add: sendable_def has_method_def bodyless_def headers_text_def Let_def parsed_def forward_modify_def
        sample_request_def new_rr_data_def)
qed

theorem proxy_thread_request_witness:
  "\<exists>th th' q. so_data (p_in (th_client th)) = ''GET http://a.b:81/c HTTP/1.1'' @ CRLF @ ''X: '' @ CRLF @ CRLF
    \<and> proxy_thread (sample_settings []) th = Some (Ret th') \<and> th_idle th' 7 = Some q"
proof -
  let ?t = "''GET http://a.b:81/c HTTP/1.1'' @ CRLF @ ''X: '' @ CRLF @ CRLF"
  let ?s = "reply_text sample_407 (By_length ''no'') @ the_ret (headers_text sample_keep) @ ''ok''"
  let ?th = "sample_thr ?t ?s" and ?d = "parsed sample_request ''a.b'' (Some 81) ''/c''"
  have t: "headers_text sample_request = Ret ?t"
    by (simp add: sample_request_def new_rr_data_def headers_text_def header_line_def)
  from parent_of_connects(1) [of "sample_peer ?s"] obtain g2 where
    g: "proxy_connect (\<lambda>_. None) (parent_of (sample_peer ?s)) (Some new_auth) = Ret ((7, Some (sample_peer ?s)), Some new_auth, g2)"
    "g_cache g2 = Some []" "\<not> g_ntlmbasic g2" "g_header_list g2 = []" by blast
  from new_auth_request obtain buf where b: "request_line new_auth = Ret buf" by blast
  from sample_response obtain m n where ch: "challenge_ok sample_rnd new_auth sample_407 sample_chal 200 m n"
    using sample_407_wf(2) by blast
  have k: "\<not> strcaseeq ''X'' ''Proxy-Authorization''" "\<not> strcaseeq ''Host'' ''Proxy-Authorization''" by code_simp+
  have w: "su_serialize (sample_settings [])" "noproxy_match (su_noproxy (sample_settings [])) (Some ''a.b'') = Ret False"
    "peer_wf (th_client ?th)" "so_data (p_in (th_client ?th)) = ?t @ frame_text No_body @ []"
    "cache_take (\<lambda>i. fwd_closed (th_idle ?th i)) (th_globals ?th) = Ret ((0, None), parent_of (sample_peer ?s))"
    "proxy_connect (su_resolver (sample_settings [])) (parent_of (sample_peer ?s)) (Some new_auth) =
       Ret ((7, Some (sample_peer ?s)), Some new_auth, g2)" "0 < (7::int)"
    "http_parse_basic (rr_headers ?d) ''Proxy-Authorization'' new_auth = Ret (0, new_auth)"
    "sendable (forward_modify (g_header_list g2) ?d) No_body (the_ret (headers_text (forward_modify [] ?d)))"
    "peer_wf (sample_peer ?s)"
    "so_data (p_in (sample_peer ?s)) = reply_text sample_407 (By_length ''no'') @ the_ret (headers_text sample_keep)
       @ frame_text (By_length ''ok'') @ []"
    "challenge_ok (su_rnd (sample_settings [])) new_auth sample_407 sample_chal 200 m n"
    "if frame_last (By_length ''ok'') then [] = ([] :: string) \<and> \<not> so_err (p_in (sample_peer ?s)) else True"
    using g(1,4) parent_of_connects(2) parsed_sample(3) ch k
    by (simp_all add: sample_settings_def sample_thr_def parsed_sample(1) http_parse_basic_def peer_wf_def)
  from proxy_thread_request [OF w(1,2) sample_request_wf t w(3-7) g(2,3) w(8,9) b w(10,11) sample_407_wf(1) w(12)
      sample_keep_wf(1-3) parsed_sample(2) sample_keep_wf(4) w(13)]
  obtain th' q where "proxy_thread (sample_settings []) ?th = Some (Ret th')" "th_idle th' = (th_idle ?th)(7 := Some q)"
    by blast
  then show ?thesis using w(4) by (intro exI [of _ ?th] exI [of _ th'] exI [of _ q]) simp
qed

text \<open>
  C24: a client that stops the proxy.  When there is an exception in the configuration and a client
  sends a status line where its request is expected, the message has no host name, and the search
  for an exception hands a null pointer to fnmatch.
\<close>

theorem proxy_thread_null_host:
  assumes "list_ex (\<lambda>t. case paux t of Some w \<Rightarrow> w \<noteq> [] | None \<Rightarrow> False) (su_noproxy su)"
    "response_wf r" "peer_wf (th_client th)" "so_data (p_in (th_client th)) = the_ret (headers_text r) @ rest"
  shows "proxy_thread su th = Some UB"
proof -
  from peer_recv_reply [OF assms(2-4)] obtain c where
    R: "peer_recv (th_client th) new_rr_data = Some (Ret (True, received r, c))" by blast
  have "rr_hostname (received r) = None" by (simp add: received_def new_rr_data_def)
  then have "proxy_decide su (received r) (th\<lparr>th_client := c\<rparr>) = Some UB"
    using assms(1) by (simp add: proxy_decide_def noproxy_match_None)
  then have "proxy_serve su (received r) (th\<lparr>th_client := c\<rparr>) = Some UB" by (subst proxy_serve.simps) simp
  then show ?thesis using R by (subst proxy_thread.simps) (simp add: proxy_turn_def Let_def)
qed

theorem proxy_thread_null_host_witness:
  "proxy_thread (sample_settings [\<lparr>pkey = 0, paux = Some ''localhost''\<rparr>])
     (sample_thr (''HTTP/1.1 200 '' @ CRLF @ CRLF) []) = Some UB"
proof -
  have "headers_text sample_200 = Ret (''HTTP/1.1 200 '' @ CRLF @ CRLF)"
    by (simp add: headers_text_def sample_200_def new_rr_data_def show_int3_def show_nat3_def show_nat.simps)
  then have s: "so_data (p_in (th_client (sample_thr (''HTTP/1.1 200 '' @ CRLF @ CRLF) []))) = the_ret (headers_text sample_200) @ []"
    by (simp add: sample_thr_def)
  show ?thesis
    by (rule proxy_thread_null_host [OF _ sample_200_wf(1) _ s])
      (simp_all add: sample_settings_def sample_thr_def peer_wf_def)
qed

end
