(* ===== verification/Server.thy ===== *)
theory Server
  imports Proxy Socks5
begin

text \<open>
  The loop of main: connections accepted on the listening ports become threads, or are served in the
  loop itself when the proxy serializes; threads that have ended are joined, and a signal ends
  the program when all of them are.  The width of a pointer is a parameter here, because
  \<open>pthread_join\<close> stores one where an int stands.
\<close>

section \<open>State\<close>

text \<open>What a thread was started for: the client's descriptor and address, and the target of a tunnel.\<close>

datatype job =
    Proxy_job int u32
  | Socks_job int u32
  | Tunnel_job int u32 "string option"

fun job_addr :: "job \<Rightarrow> u32" where
  "job_addr (Proxy_job cd a) = a"
| "job_addr (Socks_job cd a) = a"
| "job_addr (Tunnel_job cd a t) = a"

text \<open>
  The configuration: the tables of main, what \<open>proxy_thread\<close> is started with, and the number of bytes in
  a pointer.  The state: the variables \<open>quit\<close>, \<open>tc\<close>, \<open>tj\<close> and \<open>threads_list\<close>, the running threads, the
  clients that were served in the loop, the denial pages, and what the threads share.
\<close>

record service =
  sc_rules :: "network_t plist_t"
  sc_proxyd :: "string plist_t"
  sc_socksd :: "string plist_t"
  sc_tunneld :: "string plist_t"
  sc_settings :: settings
  sc_debug :: bool
  sc_pointer :: nat

abbreviation sc_serialize :: "service \<Rightarrow> bool" where
  "sc_serialize sc \<equiv> su_serialize (sc_settings sc)"

type_synonym shared = "globals \<times> (int \<Rightarrow> peer option)"

record server =
  sv_quit :: int
  sv_tc :: int
  sv_tj :: int
  sv_threads :: "unit plist_t"
  sv_running :: "(u64 \<times> job) list"
  sv_served :: "job list"
  sv_pages :: "(int \<times> string) list"
  sv_shared :: shared

definition server_start :: "globals \<Rightarrow> server" where
  "server_start g = \<lparr>sv_quit = 0, sv_tc = 0, sv_tj = 0, sv_threads = [], sv_running = [], sv_served = [],
     sv_pages = [], sv_shared = (g, \<lambda>_. None)\<rparr>"

text \<open>
  A descriptor that is ready, what accept and \<open>pthread_create\<close> return for it, the connection of the
  client, and what the running threads have done to the shared data since the last one.
\<close>

record arrival =
  av_port :: int
  av_fd :: int
  av_addr :: u32
  av_create :: int
  av_thread :: u64
  av_client :: peer
  av_meanwhile :: "shared \<Rightarrow> shared"

section \<open>Operations\<close>

text \<open>The listening descriptors fit into the set for \<open>select\<close>.\<close>

abbreviation FD_SETSIZE :: u64 where "FD_SETSIZE \<equiv> 1024"

definition watched :: "service \<Rightarrow> bool" where
  "watched sc \<longleftrightarrow> list_all (\<lambda>t. pkey t < FD_SETSIZE) (sc_proxyd sc @ sc_socksd sc @ sc_tunneld sc)"

text \<open>\<open>inet_ntoa\<close> of an address in network byte order.\<close>

definition inet_ntoa :: "u32 \<Rightarrow> string" where
  "inet_ntoa a = show_nat (unat (a AND 0xFF)) @ ''.'' @ show_nat (unat (drop_bit 8 a AND 0xFF)) @ ''.''
     @ show_nat (unat (drop_bit 16 a AND 0xFF)) @ ''.'' @ show_nat (unat (drop_bit 24 a))"

definition job_for :: "service \<Rightarrow> arrival \<Rightarrow> job" where
  "job_for sc a =
     (if plist_in (sc_proxyd sc) (word_of_int (av_port a)) then Proxy_job (av_fd a) (av_addr a)
      else if plist_in (sc_socksd sc) (word_of_int (av_port a)) then Socks_job (av_fd a) (av_addr a)
      else Tunnel_job (av_fd a) (av_addr a) (plist_get (sc_tunneld sc) (av_port a)))"

text \<open>A proxy connection is served without a thread when the proxy serializes.\<close>

definition served_inline :: "service \<Rightarrow> job \<Rightarrow> bool" where
  "served_inline sc j = (case j of Proxy_job _ _ \<Rightarrow> sc_serialize sc | _ \<Rightarrow> False)"

text \<open>\<open>proxy_thread\<close> called by the loop itself: it returns to the loop when the client has been served.\<close>

definition server_serve :: "service \<Rightarrow> arrival \<Rightarrow> server \<Rightarrow> server c_prog" where
  "server_serve sc a s = (case av_meanwhile a (sv_shared s) of (g, idle) \<Rightarrow>
     p_bind (proxy_thread (sc_settings sc) \<lparr>th_client = av_client a, th_globals = g, th_idle = idle\<rparr>) (\<lambda>th.
       Some (Ret (s\<lparr>sv_served := sv_served s @ [job_for sc a], sv_shared := (th_globals th, th_idle th)\<rparr>))))"

text \<open>One ready descriptor; the variable \<open>tid\<close> keeps its value to the next one.\<close>

definition server_accept :: "service \<Rightarrow> arrival \<Rightarrow> int \<times> server \<Rightarrow> (int \<times> server) c_prog" where
  "server_accept sc a = (\<lambda>(tid, s).
     if av_fd a < 0 then Some (Ret (tid, s))
     else p_bind (Some (acl_check (sc_rules sc) (av_addr a))) (\<lambda>v.
       if v \<noteq> ACL_ALLOW
       then Some (Ret (tid, s\<lparr>sv_pages := sv_pages s @ [(av_fd a, gen_denied_page (Some (inet_ntoa (av_addr a))))]\<rparr>))
       else p_bind (if served_inline sc (job_for sc a)
                    then p_bind (server_serve sc a s) (\<lambda>s1. Some (Ret (tid, s1)))
                    else Some (Ret (av_create a, if av_create a = 0
                      then s\<lparr>sv_running := sv_running s @ [(av_thread a, job_for sc a)]\<rparr> else s))) (\<lambda>(tid', s1).
              Some (Ret (tid', if tid' \<noteq> 0 then s1 else s1\<lparr>sv_tc := sv_tc s1 + 1\<rparr>)))))"

fun server_accepts :: "service \<Rightarrow> arrival list \<Rightarrow> int \<times> server \<Rightarrow> (int \<times> server) c_prog" where
  "server_accepts sc [] ts = Some (Ret ts)"
| "server_accepts sc (a # as) ts = p_bind (server_accept sc a ts) (server_accepts sc as)"

text \<open>
  The threads that have ended are joined; \<open>join\<close> tells for which ones this works.  Then \<open>pthread_join\<close>
  stores the result of the thread, a pointer, through the address of the int \<open>i\<close>: where a pointer
  is wider than an int it writes beyond the object.
\<close>

abbreviation SIZEOF_INT :: nat where "SIZEOF_INT \<equiv> 4"

fun joined :: "nat \<Rightarrow> (u64 \<Rightarrow> bool) \<Rightarrow> unit plist_t \<Rightarrow> int c_result" where
  "joined ptr join [] = Ret 0"
| "joined ptr join (t # ts) =
     (if join (pkey t)
      then if SIZEOF_INT < ptr then UB else c_bind (joined ptr join ts) (\<lambda>n. Ret (n + 1))
      else joined ptr join ts)"

definition server_reap :: "service \<Rightarrow> (u64 \<Rightarrow> bool) \<Rightarrow> server \<Rightarrow> server c_result" where
  "server_reap sc join s = c_bind (joined (sc_pointer sc) join (sv_threads s)) (\<lambda>n.
     Ret (s\<lparr>sv_tj := sv_tj s + n, sv_threads := []\<rparr>))"

definition server_body :: "service \<Rightarrow> (u64 \<Rightarrow> bool) \<Rightarrow> arrival list \<Rightarrow> server \<Rightarrow> server c_prog" where
  "server_body sc join as s =
     (if \<not> watched sc then Some UB
      else p_bind (server_accepts sc as (0, s)) (\<lambda>(_, s'). Some (server_reap sc join s')))"

definition server_goes_on :: "server \<Rightarrow> bool" where
  "server_goes_on s \<longleftrightarrow> sv_quit s = 0 \<or> (sv_tc s \<noteq> sv_tj s \<and> sv_quit s < 2)"

definition sighandler :: "service \<Rightarrow> server \<Rightarrow> server" where
  "sighandler sc s = s\<lparr>sv_quit := sv_quit s + (if sv_quit s \<noteq> 0 \<or> sc_debug sc then 2 else 1)\<rparr>"

text \<open>
  What a thread leaves: proxy\_thread (unless it serializes) and tunnel\_thread put themselves into
  the list of threads to be joined, socks5\_thread does not.
\<close>

definition thread_exit :: "service \<Rightarrow> u64 \<times> job \<Rightarrow> server \<Rightarrow> server" where
  "thread_exit sc = (\<lambda>(t, j) s. s\<lparr>sv_running := remove1 (t, j) (sv_running s),
     sv_threads := (case j of
        Proxy_job _ _ \<Rightarrow> thread_ended (sc_serialize sc) t (sv_threads s)
      | Socks_job _ _ \<Rightarrow> sv_threads s
      | Tunnel_job _ _ _ \<Rightarrow> plist_add (sv_threads s) t None)\<rparr>)"

section \<open>Steps\<close>

inductive server_step :: "service \<Rightarrow> (u64 \<Rightarrow> bool) \<Rightarrow> server \<Rightarrow> server \<Rightarrow> bool" for sc join where
  Round: "server_goes_on s \<Longrightarrow> server_body sc join as s = Some (Ret s') \<Longrightarrow> server_step sc join s s'"
| Exit: "tj \<in> set (sv_running s) \<Longrightarrow> server_step sc join s (thread_exit sc tj s)"
| Signal: "server_step sc join s (sighandler sc s)"

inductive server_reach :: "service \<Rightarrow> (u64 \<Rightarrow> bool) \<Rightarrow> server \<Rightarrow> server \<Rightarrow> bool" for sc join s0 where
  Here: "server_reach sc join s0 s0"
| Later: "server_reach sc join s0 s \<Longrightarrow> server_step sc join s s' \<Longrightarrow> server_reach sc join s0 s'"

inductive_cases server_stepE: "server_step sc join s s'"

section \<open>The account of the threads\<close>

text \<open>Threads that were counted, but neither run nor wait to be joined nor were joined.\<close>

definition lost :: "server \<Rightarrow> int" where
  "lost s = sv_tc s - sv_tj s - int (length (sv_running s)) - int (length (sv_threads s))"

lemma joined_all: "\<forall>t. join t \<Longrightarrow> ptr \<le> SIZEOF_INT \<Longrightarrow> joined ptr join ts = Ret (int (length ts))"
  by (induction ts) auto

lemma joined_wide: "SIZEOF_INT < ptr \<Longrightarrow> joined ptr join ts = (if \<exists>t \<in> set ts. join (pkey t) then UB else Ret 0)"
  by (induction ts) auto

lemma joined_Ret: "joined ptr join ts = Ret n \<Longrightarrow> \<forall>t. join t \<Longrightarrow> n = int (length ts)"
  by (induction ts arbitrary: n) (auto simp: c_bind_Ret_iff split: if_splits)

lemma joined_UB: "joined ptr join ts = UB \<longleftrightarrow> SIZEOF_INT < ptr \<and> (\<exists>t \<in> set ts. join (pkey t))"
proof (cases "SIZEOF_INT < ptr")
  case False
  then have "\<exists>n. joined ptr join ts = Ret n" by (induction ts) auto
  with False show ?thesis by auto
qed (simp add: joined_wide)

lemma lost_reap: "server_reap sc join s = Ret s' \<Longrightarrow> \<forall>t. join t \<Longrightarrow> lost s' = lost s"
  by (auto simp: lost_def server_reap_def c_bind_Ret_iff dest: joined_Ret)

lemma reap_frame:
  "server_reap sc join s = Ret s' \<Longrightarrow> sv_running s' = sv_running s \<and> sv_served s' = sv_served s \<and> sv_quit s' = sv_quit s"
  by (auto simp: server_reap_def c_bind_Ret_iff)

lemma length_plist_add: "length (plist_add l k a) = Suc (length l)"
  by (induction l) auto

lemma serve_result:
  assumes "server_serve sc a s = Some (Ret s')"
  obtains sh where "s' = s\<lparr>sv_served := sv_served s @ [job_for sc a], sv_shared := sh\<rparr>"
  using assms that by (auto simp: server_serve_def p_bind_Ret_iff split: prod.splits)

lemma accept_cases:
  assumes "server_accept sc a (tid, s) = Some (Ret (tid', s'))"
  obtains "sv_running s' = sv_running s" "sv_served s' = sv_served s" "sv_tc s' = sv_tc s"
  | "sv_running s' = sv_running s" "sv_served s' = sv_served s @ [job_for sc a]" "sv_tc s \<le> sv_tc s'"
    "served_inline sc (job_for sc a)" "acl_check (sc_rules sc) (av_addr a) = Ret ACL_ALLOW"
  | "sv_running s' = sv_running s @ [(av_thread a, job_for sc a)]" "sv_served s' = sv_served s" "sv_tc s' = sv_tc s + 1"
    "acl_check (sc_rules sc) (av_addr a) = Ret ACL_ALLOW"
proof (cases "av_fd a < 0 \<or> acl_check (sc_rules sc) (av_addr a) \<noteq> Ret ACL_ALLOW")
  case True
  with assms that(1) show ?thesis
    by (cases "acl_check (sc_rules sc) (av_addr a)") (auto simp: server_accept_def split: if_splits)
next
  case False
  show ?thesis
  proof (cases "served_inline sc (job_for sc a)")
    case True
    with False assms obtain s1 where "server_serve sc a s = Some (Ret s1)" "s' = (if tid \<noteq> 0 then s1 else s1\<lparr>sv_tc := sv_tc s1 + 1\<rparr>)"
      by (auto simp: server_accept_def p_bind_Ret_iff)
    with True False that(2) show ?thesis by (auto elim!: serve_result)
  next
    case inline: False
    with False assms that(1,3) show ?thesis by (auto simp: server_accept_def split: if_splits)
  qed
qed

lemma accept_frame:
  assumes "server_accept sc a (tid, s) = Some (Ret (tid', s'))"
  shows "sv_tj s' = sv_tj s \<and> sv_threads s' = sv_threads s \<and> sv_quit s' = sv_quit s"
  using assms by (auto simp: server_accept_def p_bind_Ret_iff split: if_splits elim!: serve_result)

lemma job_addr_for: "job_addr (job_for sc a) = av_addr a"
  by (simp add: job_for_def)

text \<open>An invariant of the accepted connections is one of the rounds.\<close>

lemma accepts_induct [consumes 1, case_names start accept]:
  assumes "server_accepts sc as (tid, s) = Some (Ret (tid', s'))" "P s"
    and "\<And>a tid s tid' s'. server_accept sc a (tid, s) = Some (Ret (tid', s')) \<Longrightarrow> P s \<Longrightarrow> P s'"
  shows "P s'"
  using assms(1,2)
proof (induction as arbitrary: tid s)
  case (Cons a as)
  then obtain t1 s1 where A: "server_accept sc a (tid, s) = Some (Ret (t1, s1))"
    "server_accepts sc as (t1, s1) = Some (Ret (tid', s'))"
    by (auto simp: p_bind_Ret_iff)
  with Cons assms(3) show ?case by blast
qed simp

lemma body_Ret:
  assumes "server_body sc join as s = Some (Ret s')"
  obtains tid s1 where "server_accepts sc as (0, s) = Some (Ret (tid, s1))" "server_reap sc join s1 = Ret s'"
  using assms that by (auto simp: server_body_def p_bind_Ret_iff split: if_splits)

text \<open>A client that is served by the loop in state \<open>s\<close>, and whose \<open>proxy_thread\<close> does not return.\<close>

definition serve_fails :: "service \<Rightarrow> server \<Rightarrow> arrival \<Rightarrow> bool" where
  "serve_fails sc s a \<longleftrightarrow> 0 \<le> av_fd a \<and> acl_check (sc_rules sc) (av_addr a) = Ret ACL_ALLOW \<and> served_inline sc (job_for sc a)
     \<and> (case av_meanwhile a (sv_shared s) of (g, idle) \<Rightarrow>
          \<forall>th. proxy_thread (sc_settings sc) \<lparr>th_client = av_client a, th_globals = g, th_idle = idle\<rparr> \<noteq> Some (Ret th))"

lemma accept_Ret_iff:
  assumes "acl_check (sc_rules sc) (av_addr a) = Ret v"
  shows "(\<exists>y. server_accept sc a (tid, s) = Some (Ret y)) \<longleftrightarrow> \<not> serve_fails sc s a"
proof (cases "0 \<le> av_fd a \<and> v = ACL_ALLOW \<and> served_inline sc (job_for sc a)")
  case True
  obtain g idle where sh: "av_meanwhile a (sv_shared s) = (g, idle)" by (cases "av_meanwhile a (sv_shared s)")
  let ?m = "proxy_thread (sc_settings sc) \<lparr>th_client = av_client a, th_globals = g, th_idle = idle\<rparr>"
  from True assms sh have "(\<exists>y. server_accept sc a (tid, s) = Some (Ret y)) \<longleftrightarrow> (\<exists>th. ?m = Some (Ret th))"
    by (auto simp: server_accept_def server_serve_def p_bind_Ret_iff)
  with True assms sh show ?thesis by (simp add: serve_fails_def)
next
  case False
  with assms show ?thesis by (auto simp: server_accept_def serve_fails_def)
qed

text \<open>The first of the connections whose client is not served to the end.\<close>

lemma accepts_Ret_iff:
  assumes "\<forall>a :: arrival. \<exists>v. acl_check (sc_rules sc) (av_addr a) = Ret v"
  shows "(\<exists>y. server_accepts sc as (tid, s) = Some (Ret y)) \<longleftrightarrow>
    \<not> (\<exists>as1 a as2 tid1 s1. as = as1 @ a # as2 \<and> server_accepts sc as1 (tid, s) = Some (Ret (tid1, s1)) \<and> serve_fails sc s1 a)"
    (is "_ \<longleftrightarrow> \<not> ?fails as tid s")
proof (induction as arbitrary: tid s)
  case (Cons b bs)
  from assms obtain v where v: "acl_check (sc_rules sc) (av_addr b) = Ret v" by blast
  show ?case
  proof (cases "serve_fails sc s b")
    case True
    then have "?fails (b # bs) tid s" by (intro exI [of _ "[]"] exI [of _ b] exI [of _ bs]) simp
    with True accept_Ret_iff [OF v, of tid s] show ?thesis by (auto simp: p_bind_Ret_iff)
  next
    case False
    with accept_Ret_iff [OF v, of tid s] obtain t1 s1 where A: "server_accept sc b (tid, s) = Some (Ret (t1, s1))" by auto
    have "?fails (b # bs) tid s \<longleftrightarrow> ?fails bs t1 s1"
    proof
      assume "?fails (b # bs) tid s"
      then obtain as1 a as2 t2 s2 where F: "b # bs = as1 @ a # as2" "server_accepts sc as1 (tid, s) = Some (Ret (t2, s2))"
        "serve_fails sc s2 a" by blast
      with False A show "?fails bs t1 s1" by (cases as1) auto
    next
      assume "?fails bs t1 s1"
      then obtain as1 a as2 t2 s2 where "bs = as1 @ a # as2" "server_accepts sc as1 (t1, s1) = Some (Ret (t2, s2))"
        "serve_fails sc s2 a" by blast
      with A show "?fails (b # bs) tid s" by (intro exI [of _ "b # as1"] exI [of _ a] exI [of _ as2]) simp
    qed
    with Cons.IH [of t1 s1] A show ?thesis by simp
  qed
qed simp

lemma accepts_threads: "server_accepts sc as (tid, s) = Some (Ret (tid', s')) \<Longrightarrow> sv_threads s' = sv_threads s"
  by (induction rule: accepts_induct [where P = "\<lambda>x. sv_threads x = sv_threads s"]) (auto dest: accept_frame)

text \<open>A thread is joined whose result does not fit into an int.\<close>

definition join_overruns :: "service \<Rightarrow> (u64 \<Rightarrow> bool) \<Rightarrow> server \<Rightarrow> bool" where
  "join_overruns sc join s \<longleftrightarrow> SIZEOF_INT < sc_pointer sc \<and> (\<exists>t \<in> set (sv_threads s). join (pkey t))"

lemma reap_UB: "server_reap sc join s = UB \<longleftrightarrow> join_overruns sc join s"
  by (cases "joined (sc_pointer sc) join (sv_threads s)")
    (auto simp: server_reap_def join_overruns_def joined_UB [symmetric])

lemma body_Ret_iff:
  "(\<exists>v. server_body sc join as s = Some (Ret v)) \<longleftrightarrow>
     watched sc \<and> \<not> join_overruns sc join s \<and> (\<exists>y. server_accepts sc as (0, s) = Some (Ret y))"
proof (cases "\<exists>y. server_accepts sc as (0, s) = Some (Ret y)")
  case True
  then obtain tid s1 where A: "server_accepts sc as (0, s) = Some (Ret (tid, s1))" by auto
  have "server_reap sc join s1 = UB \<longleftrightarrow> join_overruns sc join s"
    using accepts_threads [OF A] by (simp add: reap_UB join_overruns_def)
  with A show ?thesis by (cases "server_reap sc join s1") (auto simp: server_body_def)
next
  case False
  then show ?thesis by (auto elim!: body_Ret)
qed

text \<open>The threads that are lost only become more; without SOCKS and in parallel there are none.\<close>

definition all_joined :: "service \<Rightarrow> bool" where
  "all_joined sc \<longleftrightarrow> \<not> sc_serialize sc \<and> sc_socksd sc = []"

lemma step_lost:
  assumes "server_step sc join s s'" "\<forall>t. join t"
  shows "lost s \<le> lost s'"
  using assms(1)
proof (cases rule: server_step.cases)
  case (Round as)
  then obtain tid' s1 where A: "server_accepts sc as (0, s) = Some (Ret (tid', s1))" "server_reap sc join s1 = Ret s'"
    by (elim body_Ret)
  from A(1) have "lost s \<le> lost s1"
  proof (induction rule: accepts_induct [where P = "\<lambda>x. lost s \<le> lost x"])
    case (accept a tid t tid' t')
    then show ?case using accept_frame [OF accept(1)] by (elim accept_cases) (auto simp: lost_def)
  qed simp
  with lost_reap [OF A(2) assms(2)] show ?thesis by simp
next
  case (Exit tj)
  then have "length (sv_running s') = length (sv_running s) - 1" "0 < length (sv_running s)"
    by (auto simp: thread_exit_def length_remove1 intro: length_pos_if_in_set split: prod.splits)
  then show ?thesis
    using Exit by (auto simp: lost_def thread_exit_def thread_ended_def length_plist_add split: prod.splits job.splits)
next
  case Signal
  then show ?thesis by (simp add: lost_def sighandler_def)
qed

lemma reach_lost:
  assumes "server_reach sc join s s'" "\<forall>t. join t"
  shows "lost s \<le> lost s'"
  using assms(1)
proof (induction rule: server_reach.induct)
  case (Later s1 s2)
  from step_lost [OF this(2) assms(2)] this(3) show ?case by simp
qed simp

text \<open>Without SOCKS ports and in parallel no thread is lost.\<close>

definition accounted :: "server \<Rightarrow> bool" where
  "accounted s \<longleftrightarrow> lost s = 0 \<and> (\<forall>tj \<in> set (sv_running s). case snd tj of Socks_job _ _ \<Rightarrow> False | _ \<Rightarrow> True)"

lemma job_for_parallel: "all_joined sc \<Longrightarrow> (case job_for sc a of Socks_job _ _ \<Rightarrow> False | _ \<Rightarrow> True) \<and> \<not> served_inline sc j"
  by (auto simp: all_joined_def job_for_def served_inline_def split: job.split)

lemma step_accounted:
  assumes "server_step sc join s s'" "\<forall>t. join t" "all_joined sc" "accounted s"
  shows "accounted s'"
  using assms(1)
proof (cases rule: server_step.cases)
  case (Round as)
  then obtain tid' s1 where A: "server_accepts sc as (0, s) = Some (Ret (tid', s1))" "server_reap sc join s1 = Ret s'"
    by (elim body_Ret)
  from A(1) have "accounted s1"
  proof (induction rule: accepts_induct [where P = accounted])
    case start
    show ?case by (rule assms(4))
  next
    case (accept a tid t tid' t')
    then show ?case using accept_frame [OF accept(1)] job_for_parallel [OF assms(3)]
      by (elim accept_cases) (auto simp: lost_def accounted_def)
  qed
  with lost_reap [OF A(2) assms(2)] reap_frame [OF A(2)] show ?thesis by (simp add: accounted_def)
next
  case (Exit tj)
  then have l: "length (sv_running s) = Suc (length (sv_running s'))"
    using length_pos_if_in_set [OF Exit(2)] by (auto simp: thread_exit_def length_remove1 split: prod.splits)
  from Exit assms(4) have "case snd tj of Socks_job _ _ \<Rightarrow> False | _ \<Rightarrow> True" by (auto simp: accounted_def)
  then have "length (sv_threads s') = Suc (length (sv_threads s))"
    using Exit assms(3) by (auto simp: thread_exit_def thread_ended_def length_plist_add all_joined_def split: prod.splits job.splits)
  moreover have "set (sv_running s') \<subseteq> set (sv_running s)" "sv_tc s' = sv_tc s" "sv_tj s' = sv_tj s"
    using Exit by (auto simp: thread_exit_def split: prod.splits dest: set_remove1_subset [THEN subsetD])
  ultimately show ?thesis using assms(4) l by (auto simp: accounted_def lost_def)
next
  case Signal
  then show ?thesis using assms(4) by (simp add: accounted_def lost_def sighandler_def)
qed

lemma reach_accounted:
  assumes "server_reach sc join (server_start g) s" "\<forall>t. join t" "all_joined sc"
  shows "accounted s"
  using assms(1)
proof (induction rule: server_reach.induct)
  case Here
  show ?case by (simp add: accounted_def lost_def server_start_def)
next
  case (Later s s')
  from step_accounted [OF Later(2) assms(2,3)] Later(3) show ?case by blast
qed

text \<open>A thread runs, and the loop serves, only for an address that the rules allow.\<close>

definition jobs :: "server \<Rightarrow> job set" where
  "jobs s = snd ` set (sv_running s) \<union> set (sv_served s)"

definition only_allowed :: "service \<Rightarrow> server \<Rightarrow> bool" where
  "only_allowed sc s \<longleftrightarrow> (\<forall>j \<in> jobs s. acl_check (sc_rules sc) (job_addr j) = Ret ACL_ALLOW)"

lemma step_allowed:
  assumes "server_step sc join s s'" "only_allowed sc s"
  shows "only_allowed sc s'"
  using assms(1)
proof (cases rule: server_step.cases)
  case (Round as)
  then obtain tid' s1 where A: "server_accepts sc as (0, s) = Some (Ret (tid', s1))" "server_reap sc join s1 = Ret s'"
    by (elim body_Ret)
  from A(1) have "only_allowed sc s1"
  proof (induction rule: accepts_induct [where P = "only_allowed sc"])
    case (accept a tid t tid' t')
    then show ?case by (elim accept_cases) (auto simp: only_allowed_def jobs_def job_addr_for)
  qed (rule assms(2))
  with reap_frame [OF A(2)] show ?thesis by (simp add: only_allowed_def jobs_def)
next
  case (Exit tj)
  then have "set (sv_running s') \<subseteq> set (sv_running s)" "sv_served s' = sv_served s"
    by (auto simp: thread_exit_def split: prod.splits dest: set_remove1_subset [THEN subsetD])
  with assms(2) show ?thesis by (auto simp: only_allowed_def jobs_def)
next
  case Signal
  with assms(2) show ?thesis by (simp add: sighandler_def only_allowed_def jobs_def)
qed

lemma reach_allowed: "server_reach sc join (server_start g) s \<Longrightarrow> only_allowed sc s"
proof (induction rule: server_reach.induct)
  case Here
  show ?case by (simp add: only_allowed_def jobs_def server_start_def)
next
  case (Later s s')
  then show ?case using step_allowed by blast
qed

section \<open>Properties\<close>

text \<open>
  C20: a clean shutdown.  When the proxy serves its clients in threads and has no SOCKS port, then in
  every state it can reach, once a signal has come and no thread is running any more: if every thread
  has been joined already, the loop ends; and if threads wait to be joined, one more pass without a new
  connection joins them all and the loop ends there, provided that a pointer fits into an int.
  Where it does not, as on a 64-bit machine, that pass is undefined, because the result of each
  thread is stored through the address of an int.
\<close>

theorem server_shuts_down:
  assumes "server_reach sc join (server_start g) s" "\<forall>t. join t" "watched sc" "\<not> sc_serialize sc" "sc_socksd sc = []"
    "sv_running s = []" "sv_quit s \<noteq> 0"
  shows "(sv_threads s = [] \<longrightarrow> \<not> server_goes_on s)
    \<and> (sc_pointer sc \<le> SIZEOF_INT \<longrightarrow> (\<exists>s'. server_body sc join [] s = Some (Ret s') \<and> \<not> server_goes_on s'))
    \<and> (SIZEOF_INT < sc_pointer sc \<longrightarrow> sv_threads s \<noteq> [] \<longrightarrow> server_body sc join [] s = Some UB)"
proof -
  from reach_accounted [OF assms(1,2)] assms(4,5) have "accounted s" by (simp add: all_joined_def)
  then have "sv_tc s = sv_tj s + int (length (sv_threads s))" using assms(6) by (simp add: accounted_def lost_def)
  with assms(2,3,7) show ?thesis
    by (auto simp: server_body_def server_reap_def server_goes_on_def joined_all joined_wide ex_in_conv)
qed

text \<open>
  A SOCKS connection makes a clean shutdown impossible.  Its thread is counted as created, but
  never joined: when such a thread has ended, the loop goes on in every later state, however many
  threads are joined, until a second signal comes.
\<close>

theorem server_never_shuts_down:
  assumes "server_reach sc join (server_start g) s" "(t, Socks_job cd a) \<in> set (sv_running s)" "\<forall>t. join t"
    "server_reach sc join (thread_exit sc (t, Socks_job cd a) s) s'" "sv_quit s' < 2"
  shows "server_goes_on s'"
proof -
  let ?e = "thread_exit sc (t, Socks_job cd a) s"
  have "Suc (length (sv_running ?e)) = length (sv_running s)"
    using assms(2) length_pos_if_in_set [OF assms(2)] by (simp add: thread_exit_def length_remove1)
  moreover have "0 \<le> lost s" using reach_lost [OF assms(1,3)] by (simp add: lost_def server_start_def)
  ultimately have "0 < lost ?e" by (simp add: lost_def thread_exit_def)
  with reach_lost [OF assms(4,3)] have "0 < lost s'" by linarith
  then show ?thesis using assms(5) by (simp add: lost_def server_goes_on_def)
qed

section \<open>Concrete runs\<close>

text \<open>A service with one port of each kind, on a machine with pointers of \<open>ptr\<close> bytes.\<close>

definition sample_service :: "bool \<Rightarrow> nat \<Rightarrow> service" where
  "sample_service socks ptr = \<lparr>sc_rules = [], sc_proxyd = [\<lparr>pkey = 3, paux = None\<rparr>],
     sc_socksd = (if socks then [\<lparr>pkey = 4, paux = None\<rparr>] else []), sc_tunneld = [\<lparr>pkey = 5, paux = Some ''h:1''\<rparr>],
     sc_settings = (sample_settings [])\<lparr>su_serialize := False\<rparr>, sc_debug = False, sc_pointer = ptr\<rparr>"

definition arrival_on :: "int \<Rightarrow> string \<Rightarrow> arrival" where
  "arrival_on i text = \<lparr>av_port = i, av_fd = 9, av_addr = 0, av_create = 0, av_thread = 77,
     av_client = sample_peer text, av_meanwhile = id\<rparr>"

definition started :: "job \<Rightarrow> server" where
  "started j = (server_start no_globals)\<lparr>sv_tc := 1, sv_running := [(77, j)]\<rparr>"

lemma sample_watched: "watched (sample_service b p)"
  by (simp add: watched_def sample_service_def)

lemma sample_reach:
  "server_reach (sample_service b p) join (server_start no_globals) (started (job_for (sample_service b p) (arrival_on i t)))"
proof -
  let ?sc = "sample_service b p"
  have n: "\<not> served_inline ?sc (job_for ?sc (arrival_on i t))"
    by (simp add: served_inline_def sample_service_def split: job.split)
  have a: "acl_check (sc_rules ?sc) x = Ret ACL_ALLOW" for x by (simp add: sample_service_def)
  have "server_body ?sc join [arrival_on i t] (server_start no_globals) = Some (Ret (started (job_for ?sc (arrival_on i t))))"
    using n a by (simp add: server_body_def sample_watched server_accept_def server_reap_def server_start_def started_def)
      (simp add: arrival_on_def)
  then show ?thesis
    by (intro server_reach.Later [OF server_reach.Here server_step.Round]) (simp_all add: server_goes_on_def server_start_def)
qed

text \<open>The thread ends and a signal comes.\<close>

definition stopped :: "service \<Rightarrow> job \<Rightarrow> server" where
  "stopped sc j = sighandler sc (thread_exit sc (77, j) (started j))"

lemma stopped_reach:
  "server_reach sc join (server_start no_globals) (started j) \<Longrightarrow> server_reach sc join (server_start no_globals) (stopped sc j)"
  unfolding stopped_def
  by (intro server_reach.Later [OF server_reach.Later [OF _ server_step.Exit] server_step.Signal]) (simp_all add: started_def)

lemma stopped_simps:
  assumes "\<not> sc_debug sc"
  shows "sv_quit (stopped sc j) = 1" "sv_running (stopped sc j) = []" "server_goes_on (stopped sc j)"
  using assms by (simp_all add: stopped_def sighandler_def thread_exit_def started_def server_start_def server_goes_on_def)

theorem server_never_shuts_down_witness:
  "\<exists>s. sv_quit s = 1 \<and> sv_running s = [] \<and> server_reach (sample_service True 4) (\<lambda>_. True) (server_start no_globals) s
     \<and> server_goes_on s"
proof -
  let ?sc = "sample_service True 4" and ?j = "Socks_job 9 0"
  have j: "job_for ?sc (arrival_on 4 []) = ?j" by (simp add: job_for_def sample_service_def arrival_on_def)
  have r: "server_reach ?sc (\<lambda>_. True) (server_start no_globals) (started ?j)"
    using sample_reach [of True 4 "\<lambda>_. True" 4 "[]"] unfolding j .
  have e: "server_reach ?sc (\<lambda>_. True) (thread_exit ?sc (77, ?j) (started ?j)) (stopped ?sc ?j)"
    unfolding stopped_def by (rule server_reach.Later [OF server_reach.Here server_step.Signal])
  have q: "sv_quit (stopped ?sc ?j) = 1" "sv_running (stopped ?sc ?j) = []"
    by (rule stopped_simps; simp add: sample_service_def)+
  have "(77, ?j) \<in> set (sv_running (started ?j))" by (simp add: started_def)
  from server_never_shuts_down [OF r this _ e] q stopped_reach [OF r] show ?thesis
    by (intro exI [of _ "stopped ?sc ?j"]) simp
qed

theorem server_shuts_down_witness:
  "(\<exists>s s'. server_reach (sample_service False 4) (\<lambda>_. True) (server_start no_globals) s \<and> server_goes_on s
     \<and> server_body (sample_service False 4) (\<lambda>_. True) [] s = Some (Ret s') \<and> \<not> server_goes_on s')
   \<and> (\<exists>s. server_reach (sample_service False 8) (\<lambda>_. True) (server_start no_globals) s
     \<and> server_body (sample_service False 8) (\<lambda>_. True) [] s = Some UB)"
proof -
  let ?sc = "sample_service False" and ?j = "Tunnel_job 9 0 (Some ''h:1'')"
  have j: "job_for (?sc p) (arrival_on 5 []) = ?j" for p by (simp add: job_for_def sample_service_def arrival_on_def)
  have r: "server_reach (?sc p) (\<lambda>_. True) (server_start no_globals) (stopped (?sc p) ?j)" for p
    using stopped_reach [OF sample_reach [of False p "\<lambda>_. True" 5 "[]", unfolded j]] .
  have n: "\<not> sc_debug (?sc p)" "\<not> sc_serialize (?sc p)" "sc_socksd (?sc p) = []" "sc_pointer (?sc p) = p" for p
    by (simp_all add: sample_service_def)
  have q: "sv_quit (stopped (?sc p) ?j) \<noteq> 0" "sv_threads (stopped (?sc p) ?j) \<noteq> []" for p
    using stopped_simps(1) [OF n(1)] by (simp_all add: stopped_def sighandler_def thread_exit_def started_def server_start_def)
  note S = server_shuts_down [OF r _ sample_watched n(2,3) stopped_simps(2) [OF n(1)] q(1)]
  from S [of 4] S [of 8] r stopped_simps(3) [OF n(1)] q(2) show ?thesis unfolding n(4) by auto
qed

end
