(* ===== verification/CmdLine.thy ===== *)
theory CmdLine
  imports Options Http Parents ConfigFile
begin

text \<open>
  The command line of main: what its variables hold, what each option does to them, and the parent
  proxies after the options.
\<close>

section \<open>The variables of main\<close>

text \<open>
  The strings are the contents of the buffers \<open>cuser\<close>, \<open>cdomain\<close> and so on, which \<open>new\<close> fills with
  zeros.  \<open>mn_listens\<close> counts the calls that bind a port; the globals hold the parents, the
  credentials, \<open>ntlmbasic\<close> and \<open>header_list\<close>.
\<close>

record main_s =
  mn_help :: bool
  mn_hash :: bool
  mn_pwd :: bool
  mn_daemon :: bool
  mn_gateway :: bool
  mn_debug :: bool
  mn_serialize :: bool
  mn_listens :: nat
  mn_tunneld :: "string plist_t"
  mn_proxyd :: "string plist_t"
  mn_socksd :: "string plist_t"
  mn_rules :: "network_t plist_t"
  mn_cf :: "config_s option"
  mn_auth :: string
  mn_domain :: string
  mn_user :: string
  mn_password :: string
  mn_passntlm2 :: string
  mn_passnt :: string
  mn_passlm :: string
  mn_workstation :: string
  mn_uid :: string
  mn_pidfile :: string
  mn_cflags :: u32
  mn_scanner :: bool
  mn_maxsize :: int
  mn_agents :: "string plist_t"
  mn_magic :: "string option"
  mn_noproxy :: "string plist_t"
  mn_users :: hlist_t
  mn_g :: globals

definition main_init :: main_s where
  "main_init = \<lparr>mn_help = False, mn_hash = False, mn_pwd = False, mn_daemon = True, mn_gateway = False,
     mn_debug = False, mn_serialize = False, mn_listens = 0, mn_tunneld = [], mn_proxyd = [], mn_socksd = [],
     mn_rules = [], mn_cf = None, mn_auth = [], mn_domain = [], mn_user = [], mn_password = [],
     mn_passntlm2 = [], mn_passnt = [], mn_passlm = [], mn_workstation = [], mn_uid = [], mn_pidfile = [],
     mn_cflags = 0, mn_scanner = False, mn_maxsize = 0, mn_agents = [], mn_magic = None, mn_noproxy = [],
     mn_users = [], mn_g = no_globals\<rparr>"

text \<open>
  The machine the program starts on: the resolver and the uninitialised address, what the n-th
  attempt to listen on a port gives, the files that can be read, the default configuration file
  when one was compiled in, whether the trace file can be created, the buffer \<open>gethostname\<close> leaves,
  the standard input, what \<open>fork\<close> returns, whether the program runs as root, the users of the
  machine, and whether \<open>setuid\<close> works and the PID file can be opened.
\<close>

record machine =
  mc_resolver :: gai
  mc_src :: u32
  mc_listen :: "nat \<Rightarrow> int \<Rightarrow> u32 \<Rightarrow> int"
  mc_file :: "string \<Rightarrow> string option"
  mc_default :: "string option"
  mc_trace :: "string \<Rightarrow> bool"
  mc_hostname :: string
  mc_stdin :: string
  mc_fork :: int
  mc_root :: bool
  mc_passwd :: "string \<Rightarrow> (int \<times> int) option"
  mc_setuid :: bool
  mc_pidfile :: bool

section \<open>Going on or exiting\<close>

datatype 'a run = Going 'a | Exited int

fun r_bind :: "'a run c_result \<Rightarrow> ('a \<Rightarrow> 'b run c_result) \<Rightarrow> 'b run c_result" where
  "r_bind UB f = UB"
| "r_bind (Ret (Exited n)) f = Ret (Exited n)"
| "r_bind (Ret (Going x)) f = f x"

abbreviation going :: "'a \<Rightarrow> 'a run c_result" where "going x \<equiv> Ret (Going x)"
abbreviation exit1 :: "'a run c_result" where "exit1 \<equiv> Ret (Exited 1)"

lemma r_bind_going: "r_bind r f = going y \<longleftrightarrow> (\<exists>x. r = going x \<and> f x = going y)"
  by (cases "(r, f)" rule: r_bind.cases) auto

text \<open>The result of a function that may exit with an error, and leaves its list alone otherwise.\<close>

fun or_exit :: "'a option_result \<Rightarrow> ('a \<Rightarrow> main_s) \<Rightarrow> main_s \<Rightarrow> main_s run c_result" where
  "or_exit Rejected f s = going s"
| "or_exit (Added x) f s = going (f x)"
| "or_exit Exits f s = exit1"

fun each :: "('a \<Rightarrow> main_s \<Rightarrow> main_s run c_result) \<Rightarrow> 'a list \<Rightarrow> main_s \<Rightarrow> main_s run c_result" where
  "each f [] s = going s"
| "each f (v # vs) s = r_bind (f v s) (each f vs)"

text \<open>An invariant of the step is one of the loop.\<close>

lemma each_invariant:
  assumes "each f vs s = going s'" "P s" "\<And>v s s'. v \<in> set vs \<Longrightarrow> f v s = going s' \<Longrightarrow> P s \<Longrightarrow> P s'"
  shows "P s'"
  using assms
proof (induction vs arbitrary: s)
  case (Cons v vs)
  then obtain s1 where A: "f v s = going s1" "each f vs s1 = going s'" by (auto simp: r_bind_going)
  from Cons.prems(3) [OF _ A(1) Cons.prems(2)] have "P s1" by simp
  then show ?case
  proof (rule Cons.IH [OF A(2)])
    fix u t t'
    assume "u \<in> set vs" "f u t = going t'" "P t"
    then show "P t'" using Cons.prems(3) [of u t t'] by simp
  qed
qed simp

section \<open>The C library\<close>

text \<open>\<open>strtoul(s, _, 0)\<close>, for the base its prefix tells.\<close>

definition strtoul0 :: "string \<Rightarrow> u64" where
  "strtoul0 s =
     (let (neg, s2) = strip_sign (dropWhile c_isspace s);
          s3 = strip_0x 16 s2;
          base = (if length s3 < length s2 then 16 else if take 1 s2 = ''0'' then 8 else 10);
          v = digits_val base (takeWhile (is_digit_in base) s3)
      in if 2 ^ 64 \<le> v then - 1 else if neg then - of_nat v else of_nat v)"

text \<open>
  \<open>getopt\<close> of the GNU library, which takes the options out of the arguments: the letters with their
  arguments, \<open>?\<close> for an unknown letter and \<open>:\<close> for a missing argument, and the other arguments.
\<close>

definition optstring :: string where
  "optstring = '':-:a:c:d:fghIl:p:r:su:vw:A:BD:F:G:HL:M:N:O:P:R:S:T:U:''"

definition opt_kind :: "char \<Rightarrow> bool option" where
  "opt_kind c =
     (if c = CHR '':'' then None
      else map_option (\<lambda>r. take 1 (drop 1 r) = '':'') (strchr optstring c))"

fun opt_word :: "string \<Rightarrow> string list \<Rightarrow> (char \<times> string) list \<times> string list" where
  "opt_word [] as = ([], as)"
| "opt_word (c # w) as =
     (case opt_kind c of
        None \<Rightarrow> (let (es, r) = opt_word w as in ((CHR ''?'', []) # es, r))
      | Some False \<Rightarrow> (let (es, r) = opt_word w as in ((c, []) # es, r))
      | Some True \<Rightarrow>
          if w \<noteq> [] then ([(c, w)], as)
          else (case as of [] \<Rightarrow> ([(CHR '':'', [])], []) | a # r \<Rightarrow> ([(c, a)], r)))"

lemma opt_word_shorter: "opt_word w as = (es, r) \<Longrightarrow> length r \<le> length as"
  by (induction w arbitrary: es) (auto split: option.splits bool.splits list.splits if_splits prod.splits)

function getopt :: "string list \<Rightarrow> (char \<times> string) list \<times> string list" where
  "getopt [] = ([], [])"
| "getopt (a # as) =
     (if a = ''--'' then ([], as)
      else if take 1 a = ''-'' \<and> a \<noteq> ''-'' then
        (let (es, r) = opt_word (drop 1 a) as; (es', rest) = getopt r in (es @ es', rest))
      else (let (es', rest) = getopt as in (es', a # rest)))"
  by pat_completeness auto
termination
  by (relation "measure length") (auto dest: opt_word_shorter [OF sym] simp: le_imp_less_Suc)

declare getopt.simps(2) [simp del]

section \<open>The options\<close>

text \<open>\<open>strlcpy\<close> into a buffer of \<open>MINIBUF_SIZE\<close> characters.\<close>

definition minibuf :: "string \<Rightarrow> string" where
  "minibuf v = take (MINIBUF_SIZE - 1) v"

definition add_rule :: "machine \<Rightarrow> acl_t \<Rightarrow> string \<Rightarrow> main_s \<Rightarrow> main_s run c_result" where
  "add_rule mc acl spec s =
     (let (rules, ok) = acl_add (mc_resolver mc) (mc_src mc) (mn_rules s) spec acl
      in if ok = 0 then exit1 else going (s\<lparr>mn_rules := rules\<rparr>))"

definition add_tunnel :: "machine \<Rightarrow> string \<Rightarrow> main_s \<Rightarrow> main_s run c_result" where
  "add_tunnel mc spec s =
     or_exit (tunnel_add (mc_resolver mc) (mc_listen mc (mn_listens s)) (mc_src mc) (mn_tunneld s) spec (mn_gateway s))
       (\<lambda>l. s\<lparr>mn_tunneld := l, mn_listens := Suc (mn_listens s)\<rparr>) s"

definition add_port :: "machine \<Rightarrow> string plist_t \<Rightarrow> (string plist_t \<Rightarrow> main_s \<Rightarrow> main_s) \<Rightarrow> string \<Rightarrow> main_s \<Rightarrow> main_s run c_result" where
  "add_port mc ports put spec s =
     (case listen_add (mc_resolver mc) (mc_listen mc (mn_listens s)) (mc_src mc) ports spec (mn_gateway s) of
        UB \<Rightarrow> UB
      | Ret r \<Rightarrow> or_exit r (\<lambda>l. put l (s\<lparr>mn_listens := Suc (mn_listens s)\<rparr>)) s)"

definition add_proxy_port :: "machine \<Rightarrow> string \<Rightarrow> main_s \<Rightarrow> main_s run c_result" where
  "add_proxy_port mc spec s = add_port mc (mn_proxyd s) (\<lambda>l s. s\<lparr>mn_proxyd := l\<rparr>) spec s"

definition add_socks_port :: "machine \<Rightarrow> string \<Rightarrow> main_s \<Rightarrow> main_s run c_result" where
  "add_socks_port mc spec s = add_port mc (mn_socksd s) (\<lambda>l s. s\<lparr>mn_socksd := l\<rparr>) spec s"

definition add_parent :: "string \<Rightarrow> int \<Rightarrow> main_s \<Rightarrow> main_s run c_result" where
  "add_parent spec port s = or_exit (parent_add (mn_g s) spec port) (\<lambda>g. s\<lparr>mn_g := g\<rparr>) s"

text \<open>\<open>name:password\<close>; without a colon nothing is added.\<close>

definition add_user :: "string \<Rightarrow> main_s \<Rightarrow> main_s" where
  "add_user tmp s =
     (case strchr tmp (CHR '':'') of
        None \<Rightarrow> s
      | Some head \<Rightarrow> s\<lparr>mn_users := hlist_add (mn_users s) (Some (take (length tmp - length head) tmp)) (Some (drop 1 head))\<rparr>)"

text \<open>A pattern of the scanner plugin, and the size that switches it on.\<close>

definition add_agent :: "string \<Rightarrow> main_s \<Rightarrow> main_s" where
  "add_agent v s = s\<lparr>mn_agents := plist_add (mn_agents s) 0 (Some (''*'' @ v @ ''*''))\<rparr>"

definition scanner_on :: "main_s \<Rightarrow> main_s" where
  "scanner_on s = s\<lparr>mn_scanner := True, mn_maxsize := (if mn_maxsize s = 0 then 1 else mn_maxsize s)\<rparr>"

definition set_user :: "string \<Rightarrow> main_s \<Rightarrow> main_s" where
  "set_user arg s =
     (let i = strcspn arg ''@''
      in if i \<noteq> length arg
         then s\<lparr>mn_user := take (min MINIBUF_SIZE (i + 1) - 1) arg, mn_domain := minibuf (drop (i + 1) arg)\<rparr>
         else s\<lparr>mn_user := minibuf arg\<rparr>)"

definition option_header :: "string \<Rightarrow> main_s \<Rightarrow> main_s run c_result" where
  "option_header arg s =
     (if is_http_header arg then
        c_bind (get_http_header_name arg) (\<lambda>k.
          going (s\<lparr>mn_g := (mn_g s)\<lparr>g_header_list := hlist_add (g_header_list (mn_g s)) k (get_http_header_value arg)\<rparr>\<rparr>))
      else going s)"

definition main_option :: "machine \<Rightarrow> char \<times> string \<Rightarrow> main_s \<Rightarrow> main_s run c_result" where
  "main_option mc = (\<lambda>(i, arg) s.
     if i = CHR ''A'' then add_rule mc ACL_ALLOW arg s
     else if i = CHR ''D'' then add_rule mc ACL_DENY arg s
     else if i = CHR ''a'' then going (s\<lparr>mn_auth := minibuf arg\<rparr>)
     else if i = CHR ''B'' then going (s\<lparr>mn_g := (mn_g s)\<lparr>g_ntlmbasic := True\<rparr>\<rparr>)
     else if i = CHR ''c'' then
       c_bind (config_open (mc_file mc arg)) (\<lambda>cf. if cf = None then exit1 else going (s\<lparr>mn_cf := cf\<rparr>))
     else if i = CHR ''d'' then going (s\<lparr>mn_domain := minibuf arg\<rparr>)
     else if i = CHR ''F'' then going (s\<lparr>mn_cflags := swap32 (ucast (strtoul0 arg))\<rparr>)
     else if i = CHR ''f'' then going (s\<lparr>mn_daemon := False\<rparr>)
     else if i = CHR ''G'' then going (if arg \<noteq> [] then add_agent arg (scanner_on s) else s)
     else if i = CHR ''g'' then going (s\<lparr>mn_gateway := True\<rparr>)
     else if i = CHR ''H'' then going (s\<lparr>mn_hash := True\<rparr>)
     else if i = CHR ''I'' then going (s\<lparr>mn_pwd := True\<rparr>)
     else if i = CHR ''L'' then add_tunnel mc arg s
     else if i = CHR ''l'' then add_proxy_port mc arg s
     else if i = CHR ''M'' then going (s\<lparr>mn_magic := Some arg\<rparr>)
     else if i = CHR ''N'' then going (s\<lparr>mn_noproxy := noproxy_add (mn_noproxy s) arg\<rparr>)
     else if i = CHR ''O'' then add_socks_port mc arg s
     else if i = CHR ''P'' then going (s\<lparr>mn_pidfile := minibuf arg\<rparr>)
     else if i = CHR ''p'' then going (s\<lparr>mn_password := minibuf arg\<rparr>)
     else if i = CHR ''R'' then going (add_user arg s)
     else if i = CHR ''r'' then option_header arg s
     else if i = CHR ''S'' then going (s\<lparr>mn_scanner := True, mn_maxsize := atoll arg\<rparr>)
     else if i = CHR ''s'' then going (s\<lparr>mn_serialize := True\<rparr>)
     else if i = CHR ''T'' then (if mc_trace mc arg then going s else exit1)
     else if i = CHR ''U'' then going (s\<lparr>mn_uid := minibuf arg\<rparr>)
     else if i = CHR ''u'' then going (set_user arg s)
     else if i = CHR ''v'' then going (s\<lparr>mn_debug := True, mn_daemon := False\<rparr>)
     else if i = CHR ''w'' then going (s\<lparr>mn_workstation := minibuf arg\<rparr>)
     else going (s\<lparr>mn_help := True\<rparr>))"

text \<open>
  The arguments after the options: each is a parent, with the next argument as its port when it has
  no colon.
\<close>

fun main_parents :: "string list \<Rightarrow> main_s \<Rightarrow> main_s run c_result" where
  "main_parents [] s = going s"
| "main_parents (a # as) s =
     (if CHR '':'' \<in> set a then r_bind (add_parent a 0 s) (main_parents as)
      else (case as of
              [] \<Rightarrow> add_parent a 0 s
            | b # bs \<Rightarrow> r_bind (add_parent a (atoi b) s) (main_parents bs)))"

text \<open>Everything before the configuration file; the help text ends the program with 1.\<close>

definition command_line :: "machine \<Rightarrow> string list \<Rightarrow> main_s run c_result" where
  "command_line mc args =
     (let (opts, rest) = getopt args
      in r_bind (each (main_option mc) opts main_init) (\<lambda>s.
           if mn_help s then exit1 else main_parents rest s))"

end
