(* ===== verification/Startup.thy ===== *)
theory Startup
  imports CmdLine Ntlm
begin

text \<open>
  main from the configuration file to the accept loop: the options of the file, the checks, the
  choice of the hashes, the password or the hashes it is given as, and the steps of a daemon.
\<close>

section \<open>The configuration file\<close>

definition cfg_pop :: "string \<Rightarrow> main_s \<Rightarrow> string option \<times> main_s" where
  "cfg_pop opt s =
     (case mn_cf s of
        None \<Rightarrow> (None, s)
      | Some cf \<Rightarrow> (let (v, cf') = config_pop cf opt in (v, s\<lparr>mn_cf := Some cf'\<rparr>)))"

definition cfg_values :: "string \<Rightarrow> main_s \<Rightarrow> string list \<times> main_s" where
  "cfg_values opt s =
     (case mn_cf s of
        None \<Rightarrow> ([], s)
      | Some cf \<Rightarrow> (let (vs, cf') = config_pop_all cf opt in (vs, s\<lparr>mn_cf := Some cf'\<rparr>)))"

definition cfg_each :: "string \<Rightarrow> (string \<Rightarrow> main_s \<Rightarrow> main_s run c_result) \<Rightarrow> main_s \<Rightarrow> main_s run c_result" where
  "cfg_each opt f s = (let (vs, s') = cfg_values opt s in each f vs s')"

text \<open>\<open>CFG_DEFAULT\<close> into a buffer of the program, and into an empty one.\<close>

definition cfg_default :: "string \<Rightarrow> (main_s \<Rightarrow> string) \<Rightarrow> (string \<Rightarrow> main_s \<Rightarrow> main_s) \<Rightarrow> main_s \<Rightarrow> main_s" where
  "cfg_default opt get put s =
     (case cfg_pop opt s of
        (None, s') \<Rightarrow> s'
      | (Some v, s') \<Rightarrow> if get s' = [] then put (minibuf v) s' else s')"

definition cfg_text :: "string \<Rightarrow> main_s \<Rightarrow> string \<times> main_s" where
  "cfg_text opt s = (case cfg_pop opt s of (None, s') \<Rightarrow> ([], s') | (Some v, s') \<Rightarrow> (minibuf v, s'))"

definition config_gateway :: "main_s \<Rightarrow> main_s" where
  "config_gateway s = (let (tmp, s') = cfg_text ''Gateway'' s
     in if strcaseeq ''yes'' tmp then s'\<lparr>mn_gateway := True\<rparr> else s')"

definition config_basic :: "main_s \<Rightarrow> main_s" where
  "config_basic s = (let (tmp, s') = cfg_text ''NTLMToBasic'' s
     in if strcaseeq ''yes'' tmp then s'\<lparr>mn_g := (mn_g s')\<lparr>g_ntlmbasic := True\<rparr>\<rparr> else s')"

definition config_header :: "string \<Rightarrow> main_s \<Rightarrow> main_s run c_result" where
  "config_header tmp s =
     (if is_http_header tmp then
        c_bind (get_http_header_name tmp) (\<lambda>k.
          case k of
            None \<Rightarrow> UB
          | Some head \<Rightarrow> going (if hlist_in (g_header_list (mn_g s)) head then s
              else s\<lparr>mn_g := (mn_g s)\<lparr>g_header_list :=
                hlist_add (g_header_list (mn_g s)) (Some head) (get_http_header_value tmp)\<rparr>\<rparr>))
      else going s)"

definition config_rule :: "machine \<Rightarrow> hlist_s \<Rightarrow> main_s \<Rightarrow> main_s run c_result" where
  "config_rule mc t s =
     (if strcaseeq ''Allow'' (hkey t) then add_rule mc ACL_ALLOW (hvalue t) s
      else if strcaseeq ''Deny'' (hkey t) then add_rule mc ACL_DENY (hvalue t) s
      else going s)"

definition options_of :: "main_s \<Rightarrow> hlist_t" where
  "options_of s = (case mn_cf s of None \<Rightarrow> [] | Some cf \<Rightarrow> cf_options cf)"

definition config_rules :: "machine \<Rightarrow> main_s \<Rightarrow> main_s run c_result" where
  "config_rules mc s =
     (if mn_rules s \<noteq> [] then going s
      else r_bind (each (config_rule mc) (options_of s) s) (\<lambda>s1.
             going (snd (cfg_values ''Deny'' (snd (cfg_values ''Allow'' s1))))))"

definition config_strings :: "main_s \<Rightarrow> main_s" where
  "config_strings s =
     cfg_default ''Workstation'' mn_workstation (\<lambda>v s. s\<lparr>mn_workstation := v\<rparr>)
     (cfg_default ''Username'' mn_user (\<lambda>v s. s\<lparr>mn_user := v\<rparr>)
     (cfg_default ''PassLM'' mn_passlm (\<lambda>v s. s\<lparr>mn_passlm := v\<rparr>)
     (cfg_default ''PassNT'' mn_passnt (\<lambda>v s. s\<lparr>mn_passnt := v\<rparr>)
     (cfg_default ''PassNTLMv2'' mn_passntlm2 (\<lambda>v s. s\<lparr>mn_passntlm2 := v\<rparr>)
     (cfg_default ''Password'' mn_password (\<lambda>v s. s\<lparr>mn_password := v\<rparr>)
     (cfg_default ''Domain'' mn_domain (\<lambda>v s. s\<lparr>mn_domain := v\<rparr>)
     (cfg_default ''Auth'' mn_auth (\<lambda>v s. s\<lparr>mn_auth := v\<rparr>) s)))))))"

definition config_flags :: "main_s \<Rightarrow> main_s" where
  "config_flags s = (let (tmp, s') = cfg_text ''Flags'' s
     in if mn_cflags s' = 0 then s'\<lparr>mn_cflags := swap32 (ucast (strtoul0 tmp))\<rparr> else s')"

definition config_size :: "main_s \<Rightarrow> main_s" where
  "config_size s = (let (tmp, s') = cfg_text ''ISAScannerSize'' s
     in if mn_maxsize s' = 0 \<and> tmp \<noteq> [] then s'\<lparr>mn_scanner := True, mn_maxsize := atoi tmp\<rparr> else s')"

definition config_exception :: "string \<Rightarrow> main_s \<Rightarrow> main_s run c_result" where
  "config_exception tmp s = going (if tmp \<noteq> [] then s\<lparr>mn_noproxy := noproxy_add (mn_noproxy s) tmp\<rparr> else s)"

definition config_agent :: "string \<Rightarrow> main_s \<Rightarrow> main_s run c_result" where
  "config_agent tmp s = going (if tmp \<noteq> [] then add_agent tmp (scanner_on s) else scanner_on s)"

definition config_phase :: "machine \<Rightarrow> main_s \<Rightarrow> main_s run c_result" where
  "config_phase mc s =
     r_bind (cfg_each ''Tunnel'' (add_tunnel mc) (config_basic (config_gateway s))) (\<lambda>s.
     r_bind (cfg_each ''Listen'' (add_proxy_port mc) s) (\<lambda>s.
     r_bind (cfg_each ''SOCKS5Proxy'' (add_socks_port mc) s) (\<lambda>s.
     r_bind (cfg_each ''Header'' config_header s) (\<lambda>s.
     r_bind (cfg_each ''Proxy'' (\<lambda>v. add_parent v 0) s) (\<lambda>s.
     r_bind (config_rules mc s) (\<lambda>s.
     r_bind (cfg_each ''NoProxy'' config_exception (config_size (config_flags (config_strings s)))) (\<lambda>s.
     r_bind (cfg_each ''SOCKS5Users'' (\<lambda>v s. going (add_user v s)) s) (\<lambda>s.
       cfg_each ''ISAScannerAgent'' config_agent s))))))))"

text \<open>The file of \<open>-c\<close>, or the default one, when there is any.\<close>

definition main_config :: "machine \<Rightarrow> main_s \<Rightarrow> main_s run c_result" where
  "main_config mc s =
     c_bind (if mn_cf s = None then config_open (Option.bind (mc_default mc) (mc_file mc)) else Ret (mn_cf s)) (\<lambda>cf.
       if cf = None then going s else config_phase mc (s\<lparr>mn_cf := cf\<rparr>))"

section \<open>The credentials\<close>

definition creds_of :: "main_s \<Rightarrow> auth_s" where
  "creds_of s = g_creds (mn_g s)"

definition with_creds :: "auth_s \<Rightarrow> main_s \<Rightarrow> main_s" where
  "with_creds c s = s\<lparr>mn_g := (mn_g s)\<lparr>g_creds := c\<rparr>\<rparr>"

definition main_checks :: "main_s \<Rightarrow> main_s run c_result" where
  "main_checks s =
     (if \<not> mn_hash s \<and> g_parents (mn_g s) = [] then exit1
      else if \<not> mn_hash s \<and> mn_magic s = None \<and> mn_proxyd s = [] then exit1
      else going s)"

definition main_workstation :: "machine \<Rightarrow> main_s \<Rightarrow> main_s c_result" where
  "main_workstation mc s =
     (if mn_workstation s \<noteq> [] then Ret s
      else c_bind (read_cstr (mc_hostname mc)) (\<lambda>h. Ret (s\<lparr>mn_workstation := (if h = [] then ''cntlm'' else h)\<rparr>)))"

text \<open>NTLMv2, NT and LM of a combination.\<close>

definition hash_choice :: "string \<Rightarrow> (int \<times> int \<times> int) option" where
  "hash_choice a =
     (if strcaseeq ''ntlm'' a then Some (0, 1, 1)
      else if strcaseeq ''nt'' a then Some (0, 1, 0)
      else if strcaseeq ''lm'' a then Some (0, 0, 1)
      else if strcaseeq ''ntlmv2'' a then Some (1, 0, 0)
      else if strcaseeq ''ntlm2sr'' a then Some (0, 2, 0)
      else None)"

definition main_auth :: "main_s \<Rightarrow> main_s run c_result" where
  "main_auth s =
     (if mn_auth s = [] then going s
      else case hash_choice (mn_auth s) of
             None \<Rightarrow> exit1
           | Some (n2, nt, lm) \<Rightarrow> going (with_creds ((creds_of s)\<lparr>hashntlm2 := n2, hashnt := nt, hashlm := lm\<rparr>) s))"

definition main_flags :: "main_s \<Rightarrow> main_s" where
  "main_flags s = (if mn_cflags s \<noteq> 0 then with_creds ((creds_of s)\<lparr>auth_flags := mn_cflags s\<rparr>) s else s)"

text \<open>
  The password is read into the buffer; without a line the buffer keeps what it held.  The character
  before the end is looked at, and when that ends a line the one before it.
\<close>

definition read_password :: "string \<Rightarrow> string \<Rightarrow> string c_result" where
  "read_password inp cpassword =
     (let t = (case fgets MINIBUF_SIZE inp of None \<Rightarrow> cpassword | Some (line, _, _) \<Rightarrow> cstr_of line)
      in if t = [] then UB
         else if last t \<noteq> LF then Ret t
         else let t' = butlast t
              in if t' = [] then UB else Ret (if last t' = CR then butlast t' else t'))"

definition main_prompt :: "machine \<Rightarrow> main_s \<Rightarrow> main_s c_result" where
  "main_prompt mc s =
     (if mn_hash s \<or> mn_magic s \<noteq> None \<or> (mn_pwd s \<and> \<not> g_ntlmbasic (mn_g s))
      then c_bind (read_password (mc_stdin mc) (mn_password s)) (\<lambda>p. Ret (s\<lparr>mn_password := p\<rparr>))
      else Ret s)"

text \<open>A hash given in hexadecimal digits; the copy takes 16 bytes of what \<open>scanmem\<close> allocated.\<close>

definition hash_text :: "byte list \<Rightarrow> string \<Rightarrow> byte list run c_result" where
  "hash_text field v =
     (if v = [] then going field
      else c_bind (scanmem v 8) (\<lambda>tmp.
        case tmp of
          None \<Rightarrow> exit1
        | Some bs \<Rightarrow> c_bind (auth_memcpy field (Some (bs @ [0])) 16) going))"

definition main_hashes :: "main_s \<Rightarrow> main_s run c_result" where
  "main_hashes s =
     (let c = creds_of s; pw = mn_password s; all = (mn_magic s \<noteq> None \<or> mn_hash s)
      in if pw = [] then
           r_bind (hash_text (passntlm2 c) (mn_passntlm2 s)) (\<lambda>p2.
           r_bind (hash_text (passnt c) (mn_passnt s)) (\<lambda>pn.
           r_bind (hash_text (passlm c) (mn_passlm s)) (\<lambda>pl.
             going (with_creds (c\<lparr>passntlm2 := p2, passnt := pn, passlm := pl\<rparr>) s))))
         else
           c_bind (if hashnt c \<noteq> 0 \<or> all then auth_memcpy (passnt c) (Some (ntlm_hash_nt_password pw)) 21 else Ret (passnt c)) (\<lambda>pn.
           c_bind (if hashlm c \<noteq> 0 \<or> all then auth_memcpy (passlm c) (Some (ntlm_hash_lm_password pw)) 21 else Ret (passlm c)) (\<lambda>pl.
           c_bind (if hashntlm2 c \<noteq> 0 \<or> all
                   then auth_memcpy (passntlm2 c) (Some (ntlm2_hash_password (mn_user s) (mn_domain s) pw)) 16
                   else Ret (passntlm2 c)) (\<lambda>p2.
             going (with_creds (c\<lparr>passntlm2 := p2, passnt := pn, passlm := pl\<rparr>) (s\<lparr>mn_password := []\<rparr>))))))"

definition main_names :: "main_s \<Rightarrow> main_s c_result" where
  "main_names s =
     (let c = creds_of s
      in c_bind (auth_strcpy (auth_user c) (Some (mn_user s))) (\<lambda>u.
         c_bind (auth_strcpy (auth_domain c) (Some (mn_domain s))) (\<lambda>d.
         c_bind (auth_strcpy (auth_workstation c) (Some (mn_workstation s))) (\<lambda>w.
           Ret (with_creds (c\<lparr>auth_user := u, auth_domain := d, auth_workstation := w\<rparr>) s)))))"

text \<open>What \<open>-H\<close> prints after the prompt.\<close>

definition hash_lines :: "auth_s \<Rightarrow> string c_result" where
  "hash_lines c =
     c_bind (printmem (passlm c) 16 8) (\<lambda>lm.
     c_bind (printmem (passnt c) 16 8) (\<lambda>nt.
     c_bind (printmem (passntlm2 c) 16 8) (\<lambda>v2.
     c_bind (read_cstr (auth_user c)) (\<lambda>u.
     c_bind (read_cstr (auth_domain c)) (\<lambda>d.
       Ret (''PassLM          '' @ lm @ [LF] @ ''PassNT          '' @ nt @ [LF] @
            ''PassNTLMv2      '' @ v2 @ ''    # Only for user '' @ CHR 0x27 # u @ CHR 0x27 # '', domain '' @
            CHR 0x27 # d @ [CHR 0x27, LF]))))))"

section \<open>The daemon\<close>

text \<open>The user and group the program changes to, when it may.\<close>

definition main_identity :: "machine \<Rightarrow> main_s \<Rightarrow> (int \<times> int) option run c_result" where
  "main_identity mc s =
     (if mn_uid s = [] \<or> \<not> mc_root mc then going None
      else r_bind (if c_isdigit (hd (mn_uid s))
                   then (let n = atoi (mn_uid s) in if n \<le> 0 then exit1 else going (n, n))
                   else (case mc_passwd mc (mn_uid s) of
                           None \<Rightarrow> exit1
                         | Some (uid, gid) \<Rightarrow> if uid = 0 then exit1 else going (uid, gid))) (\<lambda>id.
             if mc_setuid mc then going (Some id) else exit1))"

definition main_daemon :: "machine \<Rightarrow> main_s \<Rightarrow> (int \<times> int) option run c_result" where
  "main_daemon mc s =
     (if mn_daemon s \<and> mc_fork mc = -1 then exit1
      else if mn_daemon s \<and> mc_fork mc \<noteq> 0 then Ret (Exited 0)
      else r_bind (main_identity mc s) (\<lambda>id.
             if mn_pidfile s \<noteq> [] \<and> \<not> mc_pidfile mc then exit1 else going id))"

text \<open>What the program comes to: the detection, the hashes, or the accept loop.\<close>

datatype outcome = Detects main_s | Prints string | Serves main_s "(int \<times> int) option"

definition main_credentials :: "machine \<Rightarrow> main_s \<Rightarrow> main_s run c_result" where
  "main_credentials mc s =
     c_bind (main_workstation mc s) (\<lambda>s.
     r_bind (main_auth s) (\<lambda>s.
     c_bind (main_prompt mc (main_flags s)) (\<lambda>s.
     r_bind (main_hashes s) (\<lambda>s.
     c_bind (main_names s) going))))"

text \<open>
  The check that the password is there tests the addresses of arrays and never fails, so nothing
  stands for it.
\<close>

definition main_startup :: "machine \<Rightarrow> string list \<Rightarrow> outcome run c_result" where
  "main_startup mc args =
     r_bind (command_line mc args) (\<lambda>s.
     r_bind (main_config mc s) (\<lambda>s.
     r_bind (main_checks s) (\<lambda>s.
     r_bind (main_credentials mc s) (\<lambda>s.
       if mn_magic s \<noteq> None then going (Detects s)
       else if mn_hash s then c_bind (hash_lines (creds_of s)) (\<lambda>t. going (Prints t))
       else r_bind (main_daemon mc s) (\<lambda>id. going (Serves s id))))))"

section \<open>The hashes as text\<close>

definition no_hashes :: "auth_s \<Rightarrow> bool" where
  "no_hashes c \<longleftrightarrow> passlm c = zero_bytes \<and> passnt c = zero_bytes \<and> passntlm2 c = zero_bytes"

definition hash_field :: "byte list \<Rightarrow> byte list" where
  "hash_field h = h @ replicate 34 0"

lemma unicode_length: "length (the (fst (unicode (Some w)))) < 2 ^ 32"
  using unicode_bound [of "Some w"] by simp

lemma hash_memcpy:
  "length h = 16 \<Longrightarrow> auth_memcpy zero_bytes (Some (h @ replicate 5 0)) 21 = Ret (hash_field h)"
  "length h = 16 \<Longrightarrow> auth_memcpy zero_bytes (Some h) 16 = Ret (hash_field h)"
  "length h = 16 \<Longrightarrow> auth_memcpy zero_bytes (Some (h @ [0])) 16 = Ret (hash_field h)"
  by (simp_all add: auth_memcpy_def memcpy_def hash_field_def zero_bytes_def replicate_append_same flip: replicate_add)

lemma password_hashes:
  obtains lm nt where "ntlm_hash_lm_password pw = lm @ replicate 5 0" "length lm = 16"
    "ntlm_hash_nt_password pw = nt @ replicate 5 0" "length nt = 16" "length (ntlm2_hash_password u d pw) = 16"
proof
  show "ntlm_hash_lm_password pw = (ntlm_encrypt (slice (lm_pass pw) 0 7) lm_magic
     @ ntlm_encrypt (slice (lm_pass pw) 7 7) lm_magic) @ replicate 5 0"
    by (simp add: ntlm_hash_lm_password_def)
  show "ntlm_hash_nt_password pw = md4_of (the (fst (unicode (Some pw)))) @ replicate 5 0"
    by (simp add: ntlm_hash_nt_password_def)
  show nt: "length (md4_of (the (fst (unicode (Some pw))))) = 16"
    by (simp only: md4_of_eq [OF unicode_length] length_md_digest)
  have "length (slice (ntlm_hash_nt_password pw) 0 16) < 2 ^ 32"
    by (simp add: slice_def)
  from hmac_of_eq [OF this unicode_length] show "length (ntlm2_hash_password u d pw) = 16"
    by (simp add: ntlm2_hash_password_def)
qed simp

text \<open>With a password and no other credentials the three fields hold the hashes that are asked for.\<close>

definition chosen :: "bool \<Rightarrow> byte list \<Rightarrow> byte list" where
  "chosen b h = (if b then hash_field h else zero_bytes)"

lemma main_hashes_password:
  assumes "mn_password s \<noteq> []" "no_hashes (creds_of s)"
    "ntlm_hash_lm_password (mn_password s) = lm @ replicate 5 0" "length lm = 16"
    "ntlm_hash_nt_password (mn_password s) = nt @ replicate 5 0" "length nt = 16"
    "ntlm2_hash_password (mn_user s) (mn_domain s) (mn_password s) = v2" "length v2 = 16"
  shows "main_hashes s = going (with_creds ((creds_of s)\<lparr>
      passntlm2 := chosen (hashntlm2 (creds_of s) \<noteq> 0 \<or> mn_magic s \<noteq> None \<or> mn_hash s) v2,
      passnt := chosen (hashnt (creds_of s) \<noteq> 0 \<or> mn_magic s \<noteq> None \<or> mn_hash s) nt,
      passlm := chosen (hashlm (creds_of s) \<noteq> 0 \<or> mn_magic s \<noteq> None \<or> mn_hash s) lm\<rparr>) (s\<lparr>mn_password := []\<rparr>))"
  using assms by (simp add: main_hashes_def no_hashes_def hash_memcpy chosen_def Let_def)

text \<open>A printed hash is a value of the configuration file, and is read back.\<close>

lemma hextab_alnum: "n < 16 \<Longrightarrow> c_isalnum (hextab ! n)"
proof -
  assume "n < 16"
  then have "n \<in> set [0..<16]" by simp
  moreover have "\<forall>n \<in> set [0..<16]. c_isalnum (hextab ! n)" by code_simp
  ultimately show ?thesis by blast
qed

lemma printmem_alnum: "printmem bs n bw = Ret s \<Longrightarrow> list_all c_isalnum s"
  by (auto simp: printmem_def list_all_iff nibbles hextab_alnum simp del: drop_bit_xor split: if_splits)

lemma hash_printed:
  assumes "length h = 16"
  obtains t where "printmem (hash_field h) 16 8 = Ret t" "length t = 32" "list_all c_isalnum t"
    "hash_text zero_bytes t = going (hash_field h)"
proof -
  obtain t where t: "printmem (hash_field h) 16 8 = Ret t" "length t = 32" "scanmem t 8 = Ret (Some h)"
    using scanmem_printmem [of 16 "hash_field h" 8] assms by (auto simp: hash_field_def)
  moreover have "hash_text zero_bytes t = going (hash_field h)"
    using t assms by (auto simp: hash_text_def hash_memcpy)
  ultimately show thesis using that printmem_alnum by blast
qed

text \<open>The lines \<open>-H\<close> prints are lines of a configuration file.\<close>

definition printed_lines :: "string \<Rightarrow> string \<Rightarrow> string \<Rightarrow> string \<Rightarrow> string \<Rightarrow> cline list" where
  "printed_lines lm nt v2 u d =
     [Setting [] ''PassLM'' ''          '' lm [], Setting [] ''PassNT'' ''          '' nt [],
      Setting [] ''PassNTLMv2'' ''      '' v2
        (''    # Only for user '' @ CHR 0x27 # u @ CHR 0x27 # '', domain '' @ CHR 0x27 # d @ [CHR 0x27])]"

lemma alnum_text:
  assumes "list_all c_isalnum t" "t \<noteq> []"
  shows "\<not> c_isspace (hd t) \<and> \<not> c_isspace (last t) \<and> CHR ''#'' \<notin> set t \<and> LF \<notin> set t \<and> NUL \<notin> set t
    \<and> hd t \<noteq> CHR '';'' \<and> hd t \<noteq> CHR 0x22"
proof -
  have a: "c_isalnum c" if "c \<in> set t" for c using assms(1) that by (simp add: list_all_iff)
  have n: "\<not> c_isalnum (CHR ''#'')" "\<not> c_isalnum LF" "\<not> c_isalnum NUL" "\<not> c_isalnum (CHR '';'')" "\<not> c_isalnum (CHR 0x22)"
    by code_simp+
  have "hd t \<in> set t" "last t \<in> set t" using assms(2) by simp_all
  with a n alnum_not_space show ?thesis by metis
qed

lemma printed_lines_wf:
  assumes "length lm = 32" "length nt = 32" "length v2 = 32" "list_all c_isalnum (lm @ nt @ v2)"
    "length u < 50" "length d < 50" "set (u @ d) \<inter> {LF, NUL} = {}"
  shows "\<forall>l \<in> set (printed_lines lm nt v2 u d). line_wf l"
proof -
  have "lm \<noteq> []" "nt \<noteq> []" "v2 \<noteq> []" using assms(1-3) by auto
  with assms(4) have "list_all c_isalnum lm" "list_all c_isalnum nt" "list_all c_isalnum v2" by simp_all
  note a = alnum_text [OF this(1) \<open>lm \<noteq> []\<close>] alnum_text [OF this(2) \<open>nt \<noteq> []\<close>] alnum_text [OF this(3) \<open>v2 \<noteq> []\<close>]
  have k: "list_all c_isalnum ''PassLM''" "list_all c_isalnum ''PassNT''" "list_all c_isalnum ''PassNTLMv2''"
    by code_simp+
  have w: "spaces ''          ''" "spaces ''      ''" "tail_ok []" "tail_ok (''    # Only for user '' @ z)" for z
    by (simp_all add: spaces_def tail_ok_def c_isspace_def)
  have n: "lm \<noteq> []" "nt \<noteq> []" "v2 \<noteq> []" by fact+
  show ?thesis using assms a k w n by (auto simp: printed_lines_def line_wf_def spaces_def)
qed

lemma printed_text:
  "config_text (printed_lines lm nt v2 u d) =
     ''PassLM          '' @ lm @ [LF] @ ''PassNT          '' @ nt @ [LF] @
     ''PassNTLMv2      '' @ v2 @ ''    # Only for user '' @ CHR 0x27 # u @ CHR 0x27 # '', domain '' @
     CHR 0x27 # d @ [CHR 0x27, LF]"
  by (simp add: config_text_def printed_lines_def)

lemma printed_options:
  "concat (map line_option (printed_lines lm nt v2 u d)) =
     [\<lparr>hkey = ''PassLM'', hvalue = lm\<rparr>, \<lparr>hkey = ''PassNT'', hvalue = nt\<rparr>, \<lparr>hkey = ''PassNTLMv2'', hvalue = v2\<rparr>]"
  by (simp add: printed_lines_def hlist_add_def)

section \<open>The options of the file\<close>

text \<open>A single option: what the command line set stays, then the first value of the file counts.\<close>

definition from_file :: "hlist_t \<Rightarrow> string \<Rightarrow> string" where
  "from_file opts opt = (case hlist_get opts opt of None \<Rightarrow> [] | Some v \<Rightarrow> minibuf v)"

definition setting :: "hlist_t \<Rightarrow> string \<Rightarrow> string \<Rightarrow> string" where
  "setting opts opt cur = (if cur \<noteq> [] then cur else from_file opts opt)"

definition with_options :: "hlist_t \<Rightarrow> main_s \<Rightarrow> main_s" where
  "with_options opts s = s\<lparr>mn_cf := Some \<lparr>cf_options = opts\<rparr>\<rparr>"

lemma hlist_del_None: "hlist_get l k = None \<Longrightarrow> hlist_del l k = l"
  by (induction l) (auto split: if_splits)

lemma cfg_pop_with: "cfg_pop opt (with_options opts s) = (hlist_get opts opt, with_options (hlist_del opts opt) s)"
  by (simp add: cfg_pop_def with_options_def config_pop_def hlist_del_None split: option.split)

lemma cfg_default_with:
  assumes "\<And>s. put (get s) s = s" "\<And>l s. get (with_options l s) = get s" "\<And>v l s. put v (with_options l s) = with_options l (put v s)"
  shows "cfg_default opt get put (with_options opts s) =
    with_options (hlist_del opts opt) (put (setting opts opt (get s)) s)"
proof -
  have "put [] s = s" if "get s = []" using assms(1) [of s] that by simp
  then show ?thesis using assms
    by (simp add: cfg_default_def cfg_pop_with setting_def from_file_def split: option.split)
qed

definition single_options :: "string list" where
  "single_options = [''Auth'', ''Domain'', ''Password'', ''PassNTLMv2'', ''PassNT'', ''PassLM'', ''Username'', ''Workstation'']"

lemma single_options_differ: "sorted_wrt (\<lambda>a b. \<not> strcaseeq a b) single_options"
  by code_simp

lemma setting_del_other: "\<not> strcaseeq k k' \<Longrightarrow> setting (hlist_del l k) k' cur = setting l k' cur"
  by (simp add: setting_def from_file_def hlist_get_del_other)

lemma cfg_default_fields:
  "cfg_default opt mn_auth (\<lambda>v s. s\<lparr>mn_auth := v\<rparr>) (with_options opts s) =
     with_options (hlist_del opts opt) (s\<lparr>mn_auth := setting opts opt (mn_auth s)\<rparr>)"
  "cfg_default opt mn_domain (\<lambda>v s. s\<lparr>mn_domain := v\<rparr>) (with_options opts s) =
     with_options (hlist_del opts opt) (s\<lparr>mn_domain := setting opts opt (mn_domain s)\<rparr>)"
  "cfg_default opt mn_password (\<lambda>v s. s\<lparr>mn_password := v\<rparr>) (with_options opts s) =
     with_options (hlist_del opts opt) (s\<lparr>mn_password := setting opts opt (mn_password s)\<rparr>)"
  "cfg_default opt mn_passntlm2 (\<lambda>v s. s\<lparr>mn_passntlm2 := v\<rparr>) (with_options opts s) =
     with_options (hlist_del opts opt) (s\<lparr>mn_passntlm2 := setting opts opt (mn_passntlm2 s)\<rparr>)"
  "cfg_default opt mn_passnt (\<lambda>v s. s\<lparr>mn_passnt := v\<rparr>) (with_options opts s) =
     with_options (hlist_del opts opt) (s\<lparr>mn_passnt := setting opts opt (mn_passnt s)\<rparr>)"
  "cfg_default opt mn_passlm (\<lambda>v s. s\<lparr>mn_passlm := v\<rparr>) (with_options opts s) =
     with_options (hlist_del opts opt) (s\<lparr>mn_passlm := setting opts opt (mn_passlm s)\<rparr>)"
  "cfg_default opt mn_user (\<lambda>v s. s\<lparr>mn_user := v\<rparr>) (with_options opts s) =
     with_options (hlist_del opts opt) (s\<lparr>mn_user := setting opts opt (mn_user s)\<rparr>)"
  "cfg_default opt mn_workstation (\<lambda>v s. s\<lparr>mn_workstation := v\<rparr>) (with_options opts s) =
     with_options (hlist_del opts opt) (s\<lparr>mn_workstation := setting opts opt (mn_workstation s)\<rparr>)"
  by (rule cfg_default_with; simp add: with_options_def)+

lemma config_strings_with:
  "config_strings (with_options opts s) = with_options (foldl hlist_del opts single_options)
     (s\<lparr>mn_auth := setting opts ''Auth'' (mn_auth s), mn_domain := setting opts ''Domain'' (mn_domain s),
        mn_password := setting opts ''Password'' (mn_password s),
        mn_passntlm2 := setting opts ''PassNTLMv2'' (mn_passntlm2 s), mn_passnt := setting opts ''PassNT'' (mn_passnt s),
        mn_passlm := setting opts ''PassLM'' (mn_passlm s), mn_user := setting opts ''Username'' (mn_user s),
        mn_workstation := setting opts ''Workstation'' (mn_workstation s)\<rparr>)"
  using single_options_differ
  by (simp add: config_strings_def cfg_default_fields setting_del_other single_options_def)
section \<open>Properties\<close>

lemma main_names_result:
  assumes "auth_wf (creds_of s)" "NUL \<notin> set (mn_user s)" "NUL \<notin> set (mn_domain s)" "NUL \<notin> set (mn_workstation s)"
  shows "\<exists>u d w. main_names s = Ret (with_creds ((creds_of s)\<lparr>auth_user := u, auth_domain := d, auth_workstation := w\<rparr>) s)
    \<and> str_wf u \<and> cstr_of u = minibuf (mn_user s) \<and> str_wf d \<and> cstr_of d = minibuf (mn_domain s)
    \<and> str_wf w \<and> cstr_of w = minibuf (mn_workstation s)"
proof -
  let ?c = "creds_of s"
  have l: "length (auth_user ?c) = MINIBUF_SIZE" "length (auth_domain ?c) = MINIBUF_SIZE" "length (auth_workstation ?c) = MINIBUF_SIZE"
    using assms(1) by (simp_all add: auth_wf_def str_wf_def)
  from buf_strlcpy_wf [OF l(1) assms(2)] buf_strlcpy_wf [OF l(2) assms(3)] buf_strlcpy_wf [OF l(3) assms(4)]
  obtain u d w where c: "buf_strlcpy (auth_user ?c) (mn_user s) = Ret u" "buf_strlcpy (auth_domain ?c) (mn_domain s) = Ret d"
    "buf_strlcpy (auth_workstation ?c) (mn_workstation s) = Ret w"
    and w: "str_wf u \<and> cstr_of u = minibuf (mn_user s) \<and> str_wf d \<and> cstr_of d = minibuf (mn_domain s)
      \<and> str_wf w \<and> cstr_of w = minibuf (mn_workstation s)"
    by (auto simp: minibuf_def)
  from c have "main_names s = Ret (with_creds (?c\<lparr>auth_user := u, auth_domain := d, auth_workstation := w\<rparr>) s)"
    by (simp add: main_names_def Let_def auth_strcpy_def)
  with w show ?thesis by blast
qed

lemma creds_with [simp]: "creds_of (with_creds c s) = c"
  by (simp add: creds_of_def with_creds_def)

lemma main_hashes_texts:
  assumes "mn_password t = []" "no_hashes (creds_of t)"
    "hash_text zero_bytes (mn_passlm t) = going (hash_field lm)" "hash_text zero_bytes (mn_passnt t) = going (hash_field nt)"
    "hash_text zero_bytes (mn_passntlm2 t) = going (hash_field v2)"
  shows "main_hashes t = going (with_creds ((creds_of t)\<lparr>passntlm2 := hash_field v2, passnt := hash_field nt,
    passlm := hash_field lm\<rparr>) t)"
  using assms by (simp add: main_hashes_def no_hashes_def Let_def)

text \<open>The text of the hashes as a configuration file.\<close>

lemma hashes_read_back:
  assumes "length lm = 16" "length nt = 16" "length v2 = 16"
    "passlm c = hash_field lm" "passnt c = hash_field nt" "passntlm2 c = hash_field v2"
    "str_wf (auth_user c)" "str_wf (auth_domain c)" "LF \<notin> set (cstr_of (auth_user c) @ cstr_of (auth_domain c))"
    "mn_password t = []" "mn_passlm t = []" "mn_passnt t = []" "mn_passntlm2 t = []" "no_hashes (creds_of t)"
  shows "\<exists>file cf t'. hash_lines c = Ret file \<and> config_open (Some file) = Ret (Some cf)
    \<and> main_hashes (config_strings (t\<lparr>mn_cf := Some cf\<rparr>)) = going t'
    \<and> passlm (creds_of t') = hash_field lm \<and> passnt (creds_of t') = hash_field nt \<and> passntlm2 (creds_of t') = hash_field v2"
proof -
  obtain l where l: "printmem (hash_field lm) 16 8 = Ret l" "length l = 32" "list_all c_isalnum l"
    "hash_text zero_bytes l = going (hash_field lm)" using hash_printed [OF assms(1)] by blast
  obtain m where m: "printmem (hash_field nt) 16 8 = Ret m" "length m = 32" "list_all c_isalnum m"
    "hash_text zero_bytes m = going (hash_field nt)" using hash_printed [OF assms(2)] by blast
  obtain k where k: "printmem (hash_field v2) 16 8 = Ret k" "length k = 32" "list_all c_isalnum k"
    "hash_text zero_bytes k = going (hash_field v2)" using hash_printed [OF assms(3)] by blast
  let ?ls = "printed_lines l m k (cstr_of (auth_user c)) (cstr_of (auth_domain c))"
  let ?opts = "[\<lparr>hkey = ''PassLM'', hvalue = l\<rparr>, \<lparr>hkey = ''PassNT'', hvalue = m\<rparr>, \<lparr>hkey = ''PassNTLMv2'', hvalue = k\<rparr>]"
  have lines: "hash_lines c = Ret (config_text ?ls)"
    using assms(4-8) l(1) m(1) k(1) by (simp add: hash_lines_def printed_text read_cstr_def str_wf_def)
  have "length (cstr_of (auth_user c)) < 50" "length (cstr_of (auth_domain c)) < 50"
    using assms(7,8) length_cstr_less [of "auth_user c"] length_cstr_less [of "auth_domain c"] by (auto simp: str_wf_def)
  then have "\<forall>l \<in> set ?ls. line_wf l"
    using l(2,3) m(2,3) k(2,3) assms(9) by (intro printed_lines_wf) auto
  from config_open_lines [OF this, of "[]"] have conf: "config_open (Some (config_text ?ls)) = Ret (Some \<lparr>cf_options = ?opts\<rparr>)"
    by (simp add: printed_options)
  let ?t = "config_strings (t\<lparr>mn_cf := Some \<lparr>cf_options = ?opts\<rparr>\<rparr>)"
  have opts: "hlist_get ?opts ''PassLM'' = Some l" "hlist_get ?opts ''PassNT'' = Some m" "hlist_get ?opts ''PassNTLMv2'' = Some k"
    "hlist_get ?opts ''Password'' = None"
    by (simp_all add: strcaseeq_def c_tolower_def c_isupper_def)
  have "mn_passlm ?t = l" "mn_passnt ?t = m" "mn_passntlm2 ?t = k" "mn_password ?t = []" "creds_of ?t = creds_of t"
    using config_strings_with [of ?opts t] opts l(2) m(2) k(2) assms(10-13)
    by (simp_all add: with_options_def setting_def from_file_def minibuf_def creds_of_def del: hlist_get.simps)
  with main_hashes_texts [of ?t] l(4) m(4) k(4) assms(14)
  have "main_hashes ?t = going (with_creds ((creds_of t)\<lparr>passntlm2 := hash_field v2, passnt := hash_field nt,
    passlm := hash_field lm\<rparr>) ?t)" by simp
  with lines conf show ?thesis by simp
qed

text \<open>
  C5: the hashes -H prints stand for the password.  The hashes of any password, printed and saved
  as they are as a configuration file, are read back into the three fields of the credentials that
  the password would have filled; and without -H the password fills each field that the chosen
  combination uses with the same hash.
\<close>

theorem printed_hashes_stand_for_password:
  assumes "mn_password s \<noteq> []" "mn_hash s" "no_hashes (creds_of s)" "auth_wf (creds_of s)"
    "set (mn_user s @ mn_domain s @ mn_workstation s) \<inter> {LF, NUL} = {}"
    "mn_password t = []" "mn_passlm t = []" "mn_passnt t = []" "mn_passntlm2 t = []" "no_hashes (creds_of t)"
  shows "\<exists>s1 s2 text cf t' u. main_hashes s = going s1 \<and> main_names s1 = Ret s2 \<and> hash_lines (creds_of s2) = Ret text
    \<and> config_open (Some text) = Ret (Some cf) \<and> main_hashes (config_strings (t\<lparr>mn_cf := Some cf\<rparr>)) = going t'
    \<and> passlm (creds_of t') = passlm (creds_of s1) \<and> passnt (creds_of t') = passnt (creds_of s1)
    \<and> passntlm2 (creds_of t') = passntlm2 (creds_of s1)
    \<and> main_hashes (s\<lparr>mn_hash := False, mn_magic := None\<rparr>) = going u
    \<and> (hashlm (creds_of s) \<noteq> 0 \<longrightarrow> passlm (creds_of u) = passlm (creds_of t'))
    \<and> (hashnt (creds_of s) \<noteq> 0 \<longrightarrow> passnt (creds_of u) = passnt (creds_of t'))
    \<and> (hashntlm2 (creds_of s) \<noteq> 0 \<longrightarrow> passntlm2 (creds_of u) = passntlm2 (creds_of t'))"
proof -
  obtain lm nt where h: "ntlm_hash_lm_password (mn_password s) = lm @ replicate 5 0" "length lm = 16"
    "ntlm_hash_nt_password (mn_password s) = nt @ replicate 5 0" "length nt = 16"
    "length (ntlm2_hash_password (mn_user s) (mn_domain s) (mn_password s)) = 16"
    using password_hashes by blast
  define v2 where "v2 = ntlm2_hash_password (mn_user s) (mn_domain s) (mn_password s)"
  define s1 where "s1 = with_creds ((creds_of s)\<lparr>passntlm2 := hash_field v2, passnt := hash_field nt,
    passlm := hash_field lm\<rparr>) (s\<lparr>mn_password := []\<rparr>)"
  have s1: "main_hashes s = going s1"
    using main_hashes_password [OF assms(1,3) h(1-4) refl h(5)] assms(2) by (simp add: s1_def chosen_def v2_def)
  have "auth_wf (creds_of s1)" using assms(4) h by (simp add: s1_def auth_wf_def hash_field_def v2_def)
  then obtain a b w where n: "main_names s1 = Ret (with_creds ((creds_of s1)\<lparr>auth_user := a, auth_domain := b, auth_workstation := w\<rparr>) s1)"
    "str_wf a" "cstr_of a = minibuf (mn_user s)" "str_wf b" "cstr_of b = minibuf (mn_domain s)"
    using main_names_result [of s1] assms(5) by (auto simp: s1_def with_creds_def)
  let ?c = "(creds_of s1)\<lparr>auth_user := a, auth_domain := b, auth_workstation := w\<rparr>"
  have c: "passlm ?c = hash_field lm" "passnt ?c = hash_field nt" "passntlm2 ?c = hash_field v2" by (simp_all add: s1_def)
  have "LF \<notin> set (cstr_of (auth_user ?c) @ cstr_of (auth_domain ?c))"
    using n(3,5) assms(5) by (auto simp: minibuf_def dest: in_set_takeD)
  from hashes_read_back [OF h(2,4) h(5) [folded v2_def] c _ _ this assms(6-10)] n(2,4)
  obtain conf cf t' where r: "hash_lines ?c = Ret conf" "config_open (Some conf) = Ret (Some cf)"
    "main_hashes (config_strings (t\<lparr>mn_cf := Some cf\<rparr>)) = going t'" "passlm (creds_of t') = hash_field lm"
    "passnt (creds_of t') = hash_field nt" "passntlm2 (creds_of t') = hash_field v2" by auto
  have direct: "creds_of (s\<lparr>mn_hash := False, mn_magic := None\<rparr>) = creds_of s" by (simp add: creds_of_def)
  note u = main_hashes_password [of "s\<lparr>mn_hash := False, mn_magic := None\<rparr>", unfolded direct, OF _ assms(3)]
  show ?thesis
    using s1 n(1) r u [OF _ _ h(2) _ h(4) _ h(5)] assms(1) h(1,3)
    by (auto simp: s1_def v2_def chosen_def)
qed

definition sample_user :: main_s where
  "sample_user = main_init\<lparr>mn_password := ''secret'', mn_hash := True, mn_user := ''joe'', mn_domain := ''dom''\<rparr>"

theorem printed_hashes_stand_for_password_witness:
  "\<exists>s1 s2 text cf t'. main_hashes sample_user = going s1 \<and> main_names s1 = Ret s2 \<and> hash_lines (creds_of s2) = Ret text
    \<and> config_open (Some text) = Ret (Some cf) \<and> main_hashes (config_strings (main_init\<lparr>mn_cf := Some cf\<rparr>)) = going t'
    \<and> passntlm2 (creds_of t') = passntlm2 (creds_of s1)"
proof -
  have n: "no_hashes (creds_of main_init)" "creds_of sample_user = creds_of main_init" "auth_wf (creds_of main_init)"
    by (simp_all add: no_hashes_def creds_of_def main_init_def no_globals_def sample_user_def new_auth_def)
      (simp add: auth_wf_def str_wf_def zero_str_def zero_bytes_def)
  have f: "mn_password sample_user \<noteq> []" "mn_hash sample_user"
    "set (mn_user sample_user @ mn_domain sample_user @ mn_workstation sample_user) \<inter> {LF, NUL} = {}"
    "mn_password main_init = []" "mn_passlm main_init = []" "mn_passnt main_init = []" "mn_passntlm2 main_init = []"
    by (simp_all add: sample_user_def main_init_def)
  from printed_hashes_stand_for_password [OF f(1,2) _ _ f(3) f(4-7) n(1), unfolded n(2), OF n(1,3)] show ?thesis by blast
qed

lemma fgets_prompt:
  "LF \<notin> set l \<Longrightarrow> length l < 49 \<Longrightarrow> fgets MINIBUF_SIZE (l @ LF # rest) = Some (l @ [LF], rest, False)"
proof -
  have u: "length l < n \<Longrightarrow> LF \<notin> set l \<Longrightarrow> upto_newline n (l @ LF # rest) = l @ [LF]" for n l
    by (induction l arbitrary: n; case_tac n) auto
  assume "LF \<notin> set l" "length l < 49"
  with u [of l 49] show ?thesis by (simp add: fgets_def Let_def)
qed

text \<open>
  The password from the prompt.  A line of at most 47 characters is read without its end, be it a
  line feed or a carriage return and a line feed; an empty line, or no line at all, makes the program
  look at the byte before the buffer.
\<close>

theorem password_from_prompt:
  assumes "pw \<noteq> []" "length pw \<le> 47" "set pw \<inter> {LF, CR, NUL} = {}"
  shows "read_password (pw @ LF # rest) old = Ret pw \<and> read_password (pw @ CR # LF # rest) old = Ret pw
    \<and> read_password (LF # rest) old = UB \<and> read_password [] [] = UB"
proof -
  have "last pw \<in> set pw" using assms(1) by simp
  then have "last pw \<noteq> CR" using assms(3) by auto
  then have l: "last pw \<noteq> CR" "cstr_of (pw @ [LF]) = pw @ [LF]" "cstr_of (pw @ CR # [LF]) = pw @ CR # [LF]"
    using assms(3) by (auto simp: cstr_of_id)
  have "read_password (pw @ LF # rest) old = Ret pw"
    using fgets_prompt [of pw rest] assms l by (auto simp: read_password_def)
  moreover have "read_password (pw @ CR # LF # rest) old = Ret pw"
    using fgets_prompt [of "pw @ [CR]" rest] assms l by (auto simp: read_password_def butlast_append)
  moreover have "read_password (LF # rest) old = UB" "read_password [] [] = UB"
    using fgets_prompt [of "[]" rest] by (simp_all add: read_password_def cstr_of_id fgets_def)
  ultimately show ?thesis by blast
qed

theorem password_from_prompt_witness: "read_password (''secret'' @ LF # []) [] = Ret ''secret''"
  using password_from_prompt [of "''secret''" "[]" "[]"] by simp

text \<open>
  A hash that is too short is not noticed.  A PassNT of fewer than 30 hexadecimal digits passes the
  check of its digits, and the copy into the credentials then reads beyond what was allocated for it;
  one of 32 digits is read exactly.
\<close>

theorem short_hash_overread:
  assumes "mn_password s = []" "mn_passntlm2 s = []" "scanmem (mn_passnt s) 8 = Ret (Some bs)" "mn_passnt s \<noteq> []"
    "length (passnt (creds_of s)) = MINIBUF_SIZE"
  shows "if length bs < 15 then main_hashes s = UB
    else hash_text (passnt (creds_of s)) (mn_passnt s) = going (take 16 (bs @ [0]) @ drop 16 (passnt (creds_of s)))"
  using assms by (auto simp: main_hashes_def Let_def hash_text_def auth_memcpy_def memcpy_def)

theorem short_hash_overread_witness: "main_hashes (main_init\<lparr>mn_passnt := ''0123''\<rparr>) = UB"
proof -
  have "scanmem ''0123'' 8 = Ret (Some [0xFE, 0xDC])" by code_simp
  then show ?thesis
    using short_hash_overread [of "main_init\<lparr>mn_passnt := ''0123''\<rparr>" "[0xFE, 0xDC]"]
    by (simp add: main_init_def creds_of_def no_globals_def new_auth_def zero_bytes_def)
qed

end
