(* ===== verification/Program.thy ===== *)
theory Program
  imports Startup Server
begin

text \<open>
  The program as a whole: what the configuration file adds to the command line, the state the accept
  loop starts with, and the loop that runs in it.
\<close>

section \<open>What the steps of the configuration leave alone\<close>

text \<open>
  The options with one value, the rules and the SOCKS5 users, which the loops over the other options do
  not touch.
\<close>

definition important :: "hlist_s \<Rightarrow> bool" where
  "important t \<longleftrightarrow> list_ex (strcaseeq (hkey t)) (single_options @ [''Allow'', ''Deny'', ''SOCKS5Users''])"

definition strings :: "main_s \<Rightarrow> string list" where
  "strings s = [mn_auth s, mn_domain s, mn_password s, mn_passntlm2 s, mn_passnt s, mn_passlm s, mn_user s, mn_workstation s]"

definition untouched :: "main_s \<Rightarrow> main_s \<Rightarrow> bool" where
  "untouched s0 s \<longleftrightarrow> mn_cf s \<noteq> None \<and> strings s = strings s0 \<and> mn_rules s = mn_rules s0 \<and> mn_users s = mn_users s0
     \<and> filter important (options_of s) = filter important (options_of s0)"

definition minor :: "string \<Rightarrow> bool" where
  "minor k \<longleftrightarrow> \<not> list_ex (strcaseeq k) (single_options @ [''Allow'', ''Deny'', ''SOCKS5Users''])"

lemma minor_key: "minor k \<Longrightarrow> strcaseeq (hkey t) k \<Longrightarrow> \<not> important t"
  by (auto simp: minor_def important_def list_ex_iff strcaseeq_def)

lemma minor_options:
  "minor ''Gateway''" "minor ''NTLMToBasic''" "minor ''Tunnel''" "minor ''Listen''" "minor ''SOCKS5Proxy''" "minor ''Header''"
  "minor ''Proxy''" "minor ''Flags''" "minor ''ISAScannerSize''" "minor ''NoProxy''" "minor ''ISAScannerAgent''"
  by (simp_all add: minor_def single_options_def strcaseeq_def c_tolower_def c_isupper_def)

lemma filter_del: "minor k \<Longrightarrow> filter important (hlist_del l k) = filter important l"
  by (induction l) (auto dest: minor_key)

lemma filter_minor: "minor k \<Longrightarrow> filter important (filter (\<lambda>t. \<not> strcaseeq (hkey t) k) l) = filter important l"
  by (induction l) (auto dest: minor_key)

lemma cf_cases: assumes "mn_cf s \<noteq> None" obtains opts r where "s = with_options opts r" "options_of s = opts"
proof -
  obtain cf where "mn_cf s = Some cf" using assms by blast
  then have "s = with_options (cf_options cf) s" "options_of s = cf_options cf"
    by (simp_all add: with_options_def options_of_def)
  then show thesis by (rule that)
qed

lemma options_with [simp]: "options_of (with_options l s) = l" "mn_cf (with_options l s) \<noteq> None"
  by (simp_all add: options_of_def with_options_def)

lemma strings_with [simp]: "strings (with_options l s) = strings s" "mn_rules (with_options l s) = mn_rules s"
  "mn_users (with_options l s) = mn_users s"
  by (simp_all add: strings_def with_options_def)

lemma cfg_values_with:
  "cfg_values opt (with_options l s) = (map hvalue (filter (\<lambda>t. strcaseeq (hkey t) opt) l),
     with_options (filter (\<lambda>t. \<not> strcaseeq (hkey t) opt) l) s)"
  by (simp add: cfg_values_def with_options_def config_pop_all_eq)

lemma cfg_text_with:
  "cfg_text opt (with_options l s) = (from_file l opt, with_options (hlist_del l opt) s)"
  by (simp add: cfg_text_def cfg_pop_with from_file_def split: option.split)

text \<open>The steps themselves.\<close>

lemma or_exit_going: "or_exit r f s = going s' \<Longrightarrow> s' = s \<or> (\<exists>x. r = Added x \<and> s' = f x)"
  by (cases r) auto

lemma add_rule_going:
  "add_rule mc acl v s = going s' \<Longrightarrow>
   s' = s\<lparr>mn_rules := fst (acl_add (mc_resolver mc) (mc_src mc) (mn_rules s) v acl)\<rparr>"
  by (auto simp: add_rule_def split: prod.splits if_splits)

lemma add_tunnel_going:
  "add_tunnel mc v s = going s' \<Longrightarrow>
   s' = s \<or> (\<exists>a. s' = s\<lparr>mn_tunneld := a, mn_listens := Suc (mn_listens s)\<rparr>)"
  unfolding add_tunnel_def by (drule or_exit_going) auto

lemma add_port_going:
  assumes "add_port mc l put v s = going s'"
  shows "s' = s \<or> (\<exists>a. s' = put a (s\<lparr>mn_listens := Suc (mn_listens s)\<rparr>))"
  using assms by (auto simp: add_port_def dest: or_exit_going split: c_result.splits)

lemma add_parent_going:
  "add_parent v p s = going s' \<Longrightarrow> s' = s \<or> (\<exists>g. parent_add (mn_g s) v p = Added g \<and> s' = s\<lparr>mn_g := g\<rparr>)"
  by (auto simp: add_parent_def dest: or_exit_going)

lemma header_going:
  "config_header v s = going s' \<Longrightarrow> s' = s \<or> (\<exists>l. s' = s\<lparr>mn_g := (mn_g s)\<lparr>g_header_list := l\<rparr>\<rparr>)"
  "option_header v s = going s' \<Longrightarrow> s' = s \<or> (\<exists>l. s' = s\<lparr>mn_g := (mn_g s)\<lparr>g_header_list := l\<rparr>\<rparr>)"
  by (auto simp: config_header_def option_header_def c_bind_Ret_iff split: if_splits option.splits)

lemma config_rule_going:
  "config_rule mc t s = going s' \<Longrightarrow> \<exists>r. (rules_wf (mn_rules s) \<longrightarrow> rules_wf r) \<and> s' = s\<lparr>mn_rules := r\<rparr>"
  by (cases "strcaseeq ''Allow'' (hkey t)"; cases "strcaseeq ''Deny'' (hkey t)")
    (auto simp: config_rule_def acl_add_wf dest!: add_rule_going intro: exI [of _ "mn_rules s'"])

text \<open>A property that holds through a loop over an option.\<close>

definition stays :: "(main_s \<Rightarrow> bool) \<Rightarrow> ('a \<Rightarrow> main_s \<Rightarrow> main_s run c_result) \<Rightarrow> bool" where
  "stays P f \<longleftrightarrow> (\<forall>v s s'. f v s = going s' \<longrightarrow> P s \<longrightarrow> P s')"

lemma stays_each: "stays P f \<Longrightarrow> each f vs s = going s' \<Longrightarrow> P s \<Longrightarrow> P s'"
  using each_invariant [of f vs s s' P] by (auto simp: stays_def)

lemma cfg_each_stays:
  assumes "stays P f" "cfg_each opt f s = going s'" "P (snd (cfg_values opt s))"
  shows "P s'"
  using assms stays_each [OF assms(1)] by (auto simp: cfg_each_def split: prod.splits)

lemma untouched_cf [dest]: "untouched s0 s \<Longrightarrow> mn_cf s \<noteq> None"
  by (simp add: untouched_def)

lemma untouched_values: "untouched s0 s \<Longrightarrow> minor k \<Longrightarrow> untouched s0 (snd (cfg_values k s))"
  by (rule cf_cases [of s]) (auto simp: untouched_def cfg_values_with filter_minor simp del: filter_filter)

lemma untouched_text: "untouched s0 s \<Longrightarrow> minor k \<Longrightarrow> untouched s0 (snd (cfg_text k s))"
  by (rule cf_cases [of s]) (auto simp: untouched_def cfg_text_with filter_del)

lemma untouched_stays:
  "stays (untouched s0) (add_tunnel mc)" "stays (untouched s0) (add_proxy_port mc)" "stays (untouched s0) (add_socks_port mc)"
  "stays (untouched s0) config_header" "stays (untouched s0) (\<lambda>v. add_parent v p)"
  "stays (untouched s0) config_exception" "stays (untouched s0) config_agent"
  by (auto simp: stays_def untouched_def strings_def options_of_def add_proxy_port_def add_socks_port_def config_exception_def
      config_agent_def add_agent_def scanner_on_def split: option.split
      dest: add_tunnel_going add_port_going header_going add_parent_going)

section \<open>What the file gives\<close>

definition file_rules :: "hlist_t \<Rightarrow> (string \<times> acl_t) list" where
  "file_rules opts = map (\<lambda>t. (hvalue t, if strcaseeq ''Allow'' (hkey t) then ACL_ALLOW else ACL_DENY))
     (filter (\<lambda>t. strcaseeq ''Allow'' (hkey t) \<or> strcaseeq ''Deny'' (hkey t)) opts)"

lemma each_rules:
  assumes "each (config_rule mc) ts s = going s'"
  shows "s' = s\<lparr>mn_rules := foldl (\<lambda>rs (spec, acl). fst (acl_add (mc_resolver mc) (mc_src mc) rs spec acl))
    (mn_rules s) (file_rules ts)\<rparr>"
  using assms
proof (induction ts arbitrary: s)
  case Nil
  then show ?case by (simp add: file_rules_def)
next
  case (Cons t ts)
  then obtain s1 where A: "config_rule mc t s = going s1" "each (config_rule mc) ts s1 = going s'" by (auto simp: r_bind_going)
  show ?case using A(1) Cons.IH [OF A(2)]
    by (auto simp: config_rule_def file_rules_def dest!: add_rule_going split: if_splits)
qed

lemma important_get: "k \<in> set single_options \<Longrightarrow> filter important l = filter important l' \<Longrightarrow> hlist_get l k = hlist_get l' k"
proof -
  assume k: "k \<in> set single_options"
  have "hlist_get l k = hlist_get (filter important l) k" for l
    using k by (induction l) (auto simp: important_def list_ex_iff)
  then show "filter important l = filter important l' \<Longrightarrow> hlist_get l k = hlist_get l' k" by metis
qed

definition values_for :: "string \<Rightarrow> hlist_t \<Rightarrow> string list" where
  "values_for k l = map hvalue (filter (\<lambda>t. strcaseeq (hkey t) k) l)"

lemma important_users: "filter important l = filter important l' \<Longrightarrow> values_for ''SOCKS5Users'' l = values_for ''SOCKS5Users'' l'"
proof -
  have "important t" if "strcaseeq (hkey t) ''SOCKS5Users''" for t
    using that unfolding important_def list_ex_append by simp
  then have e: "filter (\<lambda>t. strcaseeq (hkey t) ''SOCKS5Users'') l
      = filter (\<lambda>t. strcaseeq (hkey t) ''SOCKS5Users'') (filter important l)" for l
    unfolding filter_filter by (intro filter_cong refl) blast
  assume "filter important l = filter important l'"
  then show "values_for ''SOCKS5Users'' l = values_for ''SOCKS5Users'' l'" unfolding values_for_def by (subst (1 2) e) (simp only:)
qed

lemma values_for_del: "\<not> strcaseeq k k' \<Longrightarrow> values_for k' (hlist_del l k) = values_for k' l"
  "\<not> strcaseeq k k' \<Longrightarrow> values_for k' (filter (\<lambda>t. \<not> strcaseeq (hkey t) k) l) = values_for k' l"
  by (induction l) (auto simp: values_for_def strcaseeq_def)

lemma users_not_single: "list_all (\<lambda>k. \<not> strcaseeq k ''SOCKS5Users'') single_options"
  "\<not> strcaseeq ''Allow'' ''SOCKS5Users''" "\<not> strcaseeq ''Deny'' ''SOCKS5Users''"
  by code_simp+

lemma values_for_single: "values_for ''SOCKS5Users'' (foldl hlist_del l single_options) = values_for ''SOCKS5Users'' l"
proof -
  have "list_all (\<lambda>k. \<not> strcaseeq k ''SOCKS5Users'') ks \<Longrightarrow>
    values_for ''SOCKS5Users'' (foldl hlist_del l ks) = values_for ''SOCKS5Users'' l" for ks
    by (induction ks arbitrary: l) (auto simp: values_for_del)
  then show ?thesis using users_not_single(1) by blast
qed

lemma important_rules: "filter important l = filter important l' \<Longrightarrow> file_rules l = file_rules l'"
proof -
  have "important t" if "strcaseeq ''Allow'' (hkey t) \<or> strcaseeq ''Deny'' (hkey t)" for t
  proof -
    from that have "strcaseeq (hkey t) ''Allow'' \<or> strcaseeq (hkey t) ''Deny''" by (metis strcaseeq_sym)
    then show ?thesis unfolding important_def list_ex_append by (elim disjE) simp_all
  qed
  then have e: "filter (\<lambda>t. strcaseeq ''Allow'' (hkey t) \<or> strcaseeq ''Deny'' (hkey t)) l
      = filter (\<lambda>t. strcaseeq ''Allow'' (hkey t) \<or> strcaseeq ''Deny'' (hkey t)) (filter important l)" for l
    unfolding filter_filter by (intro filter_cong refl) blast
  assume "filter important l = filter important l'"
  then show "file_rules l = file_rules l'" unfolding file_rules_def by (subst (1 2) e) (simp only:)
qed

lemma single_not_rule: "k \<in> set single_options \<Longrightarrow> \<not> strcaseeq k ''Allow'' \<and> \<not> strcaseeq k ''Deny''"
proof -
  have "list_all (\<lambda>k. \<not> strcaseeq k ''Allow'' \<and> \<not> strcaseeq k ''Deny'') single_options" by code_simp
  then show "k \<in> set single_options \<Longrightarrow> \<not> strcaseeq k ''Allow'' \<and> \<not> strcaseeq k ''Deny''"
    by (simp add: list_all_iff)
qed

lemma hlist_get_filter_other: "\<not> strcaseeq k k' \<Longrightarrow> hlist_get (filter (\<lambda>t. \<not> strcaseeq (hkey t) k') l) k = hlist_get l k"
  by (induction l) (auto simp: strcaseeq_def)

lemma config_rules_result:
  assumes "config_rules mc s = going s'" "mn_cf s \<noteq> None"
  shows "mn_cf s' \<noteq> None \<and> strings s' = strings s \<and> mn_users s' = mn_users s
    \<and> values_for ''SOCKS5Users'' (options_of s') = values_for ''SOCKS5Users'' (options_of s)
    \<and> (\<forall>k \<in> set single_options. hlist_get (options_of s') k = hlist_get (options_of s) k)
    \<and> mn_rules s' = (if mn_rules s \<noteq> [] then mn_rules s
        else acl_build (mc_resolver mc) (mc_src mc) (file_rules (options_of s)))"
proof (cases "mn_rules s = []")
  case True
  from assms(2) obtain opts r where o: "s = with_options opts r" "options_of s = opts" by (rule cf_cases)
  from assms(1) True obtain s1 where A: "each (config_rule mc) opts s = going s1"
    "s' = snd (cfg_values ''Deny'' (snd (cfg_values ''Allow'' s1)))"
    by (auto simp: config_rules_def r_bind_going o(2))
  define R where "R = acl_build (mc_resolver mc) (mc_src mc) (file_rules opts)"
  from each_rules [OF A(1)] have "s1 = with_options opts (s\<lparr>mn_rules := R\<rparr>)"
    using True o by (simp add: R_def acl_build_def with_options_def)
  with A(2) have s': "s' = with_options (filter (\<lambda>t. \<not> strcaseeq (hkey t) ''Deny'')
      (filter (\<lambda>t. \<not> strcaseeq (hkey t) ''Allow'') opts)) (s\<lparr>mn_rules := R\<rparr>)"
    by (simp add: cfg_values_with del: filter_filter)
  have "hlist_get (options_of s') k = hlist_get opts k" if "k \<in> set single_options" for k
    using single_not_rule [OF that] by (simp add: s' hlist_get_filter_other del: filter_filter)
  moreover have "strings s' = strings s" "mn_rules s' = R" "mn_cf s' \<noteq> None" "mn_users s' = mn_users s"
    by (simp_all add: s') (simp add: strings_def)
  moreover have "values_for ''SOCKS5Users'' (options_of s') = values_for ''SOCKS5Users'' opts"
    using users_not_single by (simp add: s' values_for_del del: filter_filter)
  ultimately show ?thesis using True o(2) by (simp add: R_def)
next
  case False
  with assms show ?thesis by (simp add: config_rules_def)
qed

lemma untouched_refl: "mn_cf s \<noteq> None \<Longrightarrow> untouched s s"
  by (simp add: untouched_def)

lemma untouched_each: "stays (untouched s0) f \<Longrightarrow> cfg_each opt f s = going s' \<Longrightarrow> minor opt \<Longrightarrow> untouched s0 s \<Longrightarrow> untouched s0 s'"
  by (rule cfg_each_stays) (auto intro: untouched_values)

lemma untouched_switches: "untouched s0 s \<Longrightarrow> untouched s0 (config_basic (config_gateway s))"
  "untouched s0 s \<Longrightarrow> untouched s0 (config_size (config_flags s))"
proof -
  have g: "untouched s0 (s\<lparr>mn_gateway := b\<rparr>) = untouched s0 s" "untouched s0 (s\<lparr>mn_g := x\<rparr>) = untouched s0 s"
    "untouched s0 (s\<lparr>mn_cflags := c\<rparr>) = untouched s0 s" "untouched s0 (s\<lparr>mn_scanner := b, mn_maxsize := i\<rparr>) = untouched s0 s" for s b x c i
    by (simp_all add: untouched_def strings_def options_of_def)
  have "untouched s0 (config_gateway s)" if "untouched s0 s" for s
    using untouched_text [OF that minor_options(1)] by (cases "cfg_text ''Gateway'' s") (simp add: config_gateway_def g)
  moreover have "untouched s0 (config_basic s)" if "untouched s0 s" for s
    using untouched_text [OF that minor_options(2)] by (cases "cfg_text ''NTLMToBasic'' s") (simp add: config_basic_def g)
  ultimately show "untouched s0 s \<Longrightarrow> untouched s0 (config_basic (config_gateway s))" by blast
  have "untouched s0 (config_flags s)" if "untouched s0 s" for s
    using untouched_text [OF that minor_options(8)] by (cases "cfg_text ''Flags'' s") (simp add: config_flags_def g)
  moreover have "untouched s0 (config_size s)" if "untouched s0 s" for s
    using untouched_text [OF that minor_options(9)] by (cases "cfg_text ''ISAScannerSize'' s") (simp add: config_size_def g)
  ultimately show "untouched s0 s \<Longrightarrow> untouched s0 (config_size (config_flags s))" by blast
qed

text \<open>The steps of the phase: up to the rules, the rules, the single options, and the rest.\<close>

lemma config_phase_steps:
  assumes "config_phase mc s = going s'" "mn_cf s \<noteq> None"
  obtains s1 s2 s3 s4 where "untouched s s1" "config_rules mc s1 = going s2" "untouched (config_strings s2) s3"
    "cfg_each ''SOCKS5Users'' (\<lambda>v s. going (add_user v s)) s3 = going s4" "untouched s4 s'"
proof -
  from assms(1) obtain a b c d s1 s2 e f where p: "cfg_each ''Tunnel'' (add_tunnel mc) (config_basic (config_gateway s)) = going a"
    "cfg_each ''Listen'' (add_proxy_port mc) a = going b" "cfg_each ''SOCKS5Proxy'' (add_socks_port mc) b = going c"
    "cfg_each ''Header'' config_header c = going d" "cfg_each ''Proxy'' (\<lambda>v. add_parent v 0) d = going s1"
    "config_rules mc s1 = going s2"
    and q: "cfg_each ''NoProxy'' config_exception (config_size (config_flags (config_strings s2))) = going e"
    "cfg_each ''SOCKS5Users'' (\<lambda>v s. going (add_user v s)) e = going f" "cfg_each ''ISAScannerAgent'' config_agent f = going s'"
    by (auto simp: config_phase_def r_bind_going)
  have "untouched s (config_basic (config_gateway s))" by (rule untouched_switches [OF untouched_refl [OF assms(2)]])
  note k = this [THEN untouched_each [OF untouched_stays(1) p(1) minor_options(3)], THEN untouched_each [OF untouched_stays(2) p(2) minor_options(4)],
      THEN untouched_each [OF untouched_stays(3) p(3) minor_options(5)], THEN untouched_each [OF untouched_stays(4) p(4) minor_options(6)],
      THEN untouched_each [OF untouched_stays(5) p(5) minor_options(7)]]
  from config_rules_result [OF p(6) untouched_cf [OF k]] have "mn_cf s2 \<noteq> None" by blast
  then have "mn_cf (config_strings s2) \<noteq> None" by (rule cf_cases) (simp add: config_strings_with)
  then have "untouched (config_strings s2) (config_size (config_flags (config_strings s2)))" by (rule untouched_switches [OF untouched_refl])
  note l = this [THEN untouched_each [OF untouched_stays(6) q(1) minor_options(10)]]
  have "mn_cf f \<noteq> None"
  proof (rule cfg_each_stays [where P = "\<lambda>s. mn_cf s \<noteq> None", OF _ q(2)])
    show "stays (\<lambda>s. mn_cf s \<noteq> None) (\<lambda>v s. going (add_user v s))"
      by (auto simp: stays_def add_user_def split: option.split)
    show "mn_cf (snd (cfg_values ''SOCKS5Users'' e)) \<noteq> None"
      using untouched_cf [OF l] by (rule cf_cases) (simp add: cfg_values_with)
  qed
  then have "untouched f f" by (rule untouched_refl)
  from untouched_each [OF untouched_stays(7) q(3) minor_options(11) this] show thesis by (rule that [OF k p(6) l q(2)])
qed

text \<open>The users of the file.\<close>

definition user_entry :: "string \<Rightarrow> hlist_t" where
  "user_entry v = (if CHR '':'' \<in> set v
     then [\<lparr>hkey = takeWhile (\<lambda>c. c \<noteq> CHR '':'') v, hvalue = drop 1 (dropWhile (\<lambda>c. c \<noteq> CHR '':'') v)\<rparr>] else [])"

lemma add_user_entry: "add_user v s = s\<lparr>mn_users := mn_users s @ user_entry v\<rparr>"
proof (cases "strchr v (CHR '':'')")
  case None
  then have "CHR '':'' \<notin> set v" using strchr_None [of v "CHR '':''"] by auto
  with None show ?thesis by (simp add: add_user_def user_entry_def)
next
  case (Some r)
  then have "CHR '':'' \<in> set v" using strchr_None [of v "CHR '':''"] by auto
  then obtain a b where "v = a @ CHR '':'' # b" "CHR '':'' \<notin> set a" by (meson split_list_first)
  then show ?thesis
    by (auto simp: add_user_def user_entry_def strchr_append hlist_add_def takeWhile_append dropWhile_append)
qed

lemma each_users:
  "each (\<lambda>v s. going (add_user v s)) vs s = going s' \<Longrightarrow>
   s' = s\<lparr>mn_users := mn_users s @ concat (map user_entry vs)\<rparr>"
proof (induction vs arbitrary: s)
  case (Cons v vs)
  from Cons.IH [of "add_user v s"] Cons.prems show ?case by (simp add: add_user_entry)
qed simp

lemma users_step:
  assumes "cfg_each ''SOCKS5Users'' (\<lambda>v s. going (add_user v s)) s = going s'" "mn_cf s \<noteq> None"
  shows "strings s' = strings s \<and> mn_rules s' = mn_rules s
    \<and> mn_users s' = mn_users s @ concat (map user_entry (values_for ''SOCKS5Users'' (options_of s)))"
proof -
  obtain opts r where o: "s = with_options opts r" "options_of s = opts" using assms(2) by (rule cf_cases)
  from assms(1) show ?thesis unfolding o(2)
    by (auto simp: cfg_each_def cfg_values_with o(1) values_for_def dest!: each_users) (simp add: strings_def with_options_def)
qed

lemma config_result:
  assumes "config_phase mc s = going s'" "mn_cf s = Some cf"
  shows "strings s' = [setting (cf_options cf) ''Auth'' (mn_auth s), setting (cf_options cf) ''Domain'' (mn_domain s),
      setting (cf_options cf) ''Password'' (mn_password s), setting (cf_options cf) ''PassNTLMv2'' (mn_passntlm2 s),
      setting (cf_options cf) ''PassNT'' (mn_passnt s), setting (cf_options cf) ''PassLM'' (mn_passlm s),
      setting (cf_options cf) ''Username'' (mn_user s), setting (cf_options cf) ''Workstation'' (mn_workstation s)]
    \<and> mn_rules s' = (if mn_rules s \<noteq> [] then mn_rules s
        else acl_build (mc_resolver mc) (mc_src mc) (file_rules (cf_options cf)))
    \<and> mn_users s' = mn_users s @ concat (map user_entry (values_for ''SOCKS5Users'' (cf_options cf)))"
proof -
  from assms(2) have "mn_cf s \<noteq> None" by simp
  from assms(1) this obtain s1 s2 s3 s4 where p: "untouched s s1" "config_rules mc s1 = going s2" "untouched (config_strings s2) s3"
    and q: "cfg_each ''SOCKS5Users'' (\<lambda>v s. going (add_user v s)) s3 = going s4" "untouched s4 s'"
    by (rule config_phase_steps)
  note u = users_step [OF q(1) untouched_cf [OF p(3)]]
  from config_rules_result [OF p(2) untouched_cf [OF p(1)]] have r: "mn_cf s2 \<noteq> None" "strings s2 = strings s1"
    "\<And>k. k \<in> set single_options \<Longrightarrow> hlist_get (options_of s2) k = hlist_get (options_of s1) k"
    "mn_rules s2 = (if mn_rules s1 \<noteq> [] then mn_rules s1
        else acl_build (mc_resolver mc) (mc_src mc) (file_rules (options_of s1)))" by blast+
  have f: "filter important (options_of s1) = filter important (cf_options cf)" and o: "strings s1 = strings s" "mn_rules s1 = mn_rules s"
    using p(1) assms(2) by (simp_all add: untouched_def options_of_def)
  have g: "setting (options_of s2) k cur = setting (cf_options cf) k cur" if "k \<in> set single_options" for k cur
    using r(3) [OF that] important_get [OF that f] by (simp add: setting_def from_file_def)
  obtain opts t where t: "s2 = with_options opts t" "options_of s2 = opts" using r(1) by (rule cf_cases)
  have "strings t = strings s" using r(2) o t by simp
  then have "strings (config_strings s2) = [setting (cf_options cf) ''Auth'' (mn_auth s), setting (cf_options cf) ''Domain'' (mn_domain s),
      setting (cf_options cf) ''Password'' (mn_password s), setting (cf_options cf) ''PassNTLMv2'' (mn_passntlm2 s),
      setting (cf_options cf) ''PassNT'' (mn_passnt s), setting (cf_options cf) ''PassLM'' (mn_passlm s),
      setting (cf_options cf) ''Username'' (mn_user s), setting (cf_options cf) ''Workstation'' (mn_workstation s)]"
    using g by (simp add: t config_strings_with) (simp add: strings_def single_options_def)
  moreover have m: "mn_rules (config_strings s2) = mn_rules s2" "mn_users (config_strings s2) = mn_users s2"
    "values_for ''SOCKS5Users'' (options_of (config_strings s2)) = values_for ''SOCKS5Users'' (options_of s2)"
    by (simp_all add: t config_strings_with values_for_single)
  have "values_for ''SOCKS5Users'' (options_of s3) = values_for ''SOCKS5Users'' (cf_options cf)"
    using important_users [of "options_of s3" "options_of (config_strings s2)"] important_users [OF f] p(3) m(3)
      config_rules_result [OF p(2) untouched_cf [OF p(1)]] by (simp add: untouched_def)
  moreover have "mn_users s3 = mn_users s"
    using p(1,3) m(2) config_rules_result [OF p(2) untouched_cf [OF p(1)]] by (simp add: untouched_def)
  ultimately show ?thesis using p(3) q(2) u m(1) r(4) o important_rules [OF f] by (simp add: untouched_def)
qed

section \<open>Well-formedness\<close>

text \<open>The parents are numbered from 1; before the first connection none is the current one.\<close>

definition numbered :: "globals \<Rightarrow> bool" where
  "numbered g \<longleftrightarrow> g_parent_count g = int (length (g_parents g))
     \<and> map pkey (g_parents g) = map (\<lambda>i. word_of_int (int i)) [1..<Suc (length (g_parents g))]
     \<and> None \<notin> set (map paux (g_parents g))"

definition fresh :: "main_s \<Rightarrow> bool" where
  "fresh s \<longleftrightarrow> rules_wf (mn_rules s) \<and> numbered (mn_g s) \<and> g_parent_curr (mn_g s) = 0 \<and> g_cache (mn_g s) = Some []
     \<and> creds_of s = new_auth"

lemma fresh_init: "fresh main_init"
  by (simp add: fresh_def main_init_def no_globals_def numbered_def creds_of_def rules_wf_def)

lemma fresh_parent:
  assumes "parent_add g v p = Added g'" "numbered g"
  shows "numbered g' \<and> g_parent_curr g' = g_parent_curr g \<and> g_cache g' = g_cache g \<and> g_creds g' = g_creds g"
  using assms by (auto simp: parent_add_def Let_def numbered_def plist_add_append split: option.splits if_splits)

text \<open>The steps that touch none of it, and those that do.\<close>

lemma fresh_frame [simp]:
  "fresh (s\<lparr>mn_tunneld := l, mn_listens := n\<rparr>) = fresh s" "fresh (s\<lparr>mn_listens := n, mn_proxyd := l\<rparr>) = fresh s"
  "fresh (s\<lparr>mn_listens := n, mn_socksd := l\<rparr>) = fresh s" "fresh (s\<lparr>mn_cf := cf\<rparr>) = fresh s"
  "fresh (s\<lparr>mn_gateway := b\<rparr>) = fresh s" "fresh (s\<lparr>mn_cflags := c\<rparr>) = fresh s" "fresh (s\<lparr>mn_scanner := b, mn_maxsize := i\<rparr>) = fresh s"
  "fresh (s\<lparr>mn_g := (mn_g s)\<lparr>g_ntlmbasic := b\<rparr>\<rparr>) = fresh s" "fresh (s\<lparr>mn_g := (mn_g s)\<lparr>g_header_list := h\<rparr>\<rparr>) = fresh s"
  "fresh (s\<lparr>mn_noproxy := x\<rparr>) = fresh s" "fresh (s\<lparr>mn_users := u\<rparr>) = fresh s" "fresh (s\<lparr>mn_agents := x\<rparr>) = fresh s"
  by (simp_all add: fresh_def numbered_def creds_of_def)

lemma fresh_stays:
  "stays fresh (add_rule mc acl)" "stays fresh (add_tunnel mc)" "stays fresh (add_proxy_port mc)" "stays fresh (add_socks_port mc)"
  "stays fresh config_header" "stays fresh option_header" "stays fresh (\<lambda>v. add_parent v p)" "stays fresh (config_rule mc)"
  "stays fresh config_exception" "stays fresh (\<lambda>v s. going (add_user v s))" "stays fresh config_agent"
proof -
  show "stays fresh (\<lambda>v. add_parent v p)"
    by (auto simp: stays_def dest!: add_parent_going) (auto simp: fresh_def creds_of_def dest: fresh_parent)
  show "stays fresh (add_rule mc acl)" "stays fresh (config_rule mc)"
    by (auto simp: stays_def fresh_def creds_of_def acl_add_wf dest!: add_rule_going config_rule_going)
  show "stays fresh (add_tunnel mc)" "stays fresh (add_proxy_port mc)" "stays fresh (add_socks_port mc)"
    "stays fresh config_header" "stays fresh option_header"
    by (auto simp: stays_def add_proxy_port_def add_socks_port_def
        dest!: add_tunnel_going add_port_going header_going)
  show "stays fresh config_exception" "stays fresh (\<lambda>v s. going (add_user v s))" "stays fresh config_agent"
    by (auto simp: stays_def config_exception_def add_user_def config_agent_def add_agent_def scanner_on_def split: option.split)
qed

text \<open>Every option; those with a function of their own have been dealt with.\<close>

lemma fresh_cong:
  "fresh s \<Longrightarrow> mn_rules s' = mn_rules s \<Longrightarrow> mn_g s' = mn_g s \<or> mn_g s' = (mn_g s)\<lparr>g_ntlmbasic := True\<rparr> \<Longrightarrow> fresh s'"
  by (auto simp: fresh_def creds_of_def numbered_def)

lemma main_option_cases:
  "main_option mc (i, arg) s = going s' \<Longrightarrow>
   (\<exists>acl. add_rule mc acl arg s = going s') \<or> add_tunnel mc arg s = going s' \<or> add_proxy_port mc arg s = going s'
   \<or> add_socks_port mc arg s = going s' \<or> option_header arg s = going s'
   \<or> (mn_rules s' = mn_rules s \<and> (mn_g s' = mn_g s \<or> mn_g s' = (mn_g s)\<lparr>g_ntlmbasic := True\<rparr>))"
  by (auto simp: main_option_def set_user_def Let_def add_user_def add_agent_def scanner_on_def c_bind_Ret_iff
      split: if_splits option.splits)

lemma staysD: "stays P f \<Longrightarrow> f v s = going s' \<Longrightarrow> P s \<Longrightarrow> P s'"
  by (auto simp: stays_def)

lemma fresh_option: "stays fresh (main_option mc)"
proof -
  have "fresh s'" if "main_option mc (i, arg) s = going s'" "fresh s" for i arg s s'
    using main_option_cases [OF that(1)]
    by (elim disjE exE conjE)
      (erule staysD [OF fresh_stays(1) _ that(2)] staysD [OF fresh_stays(2) _ that(2)] staysD [OF fresh_stays(3) _ that(2)]
        staysD [OF fresh_stays(4) _ that(2)] staysD [OF fresh_stays(6) _ that(2)]
       | rule fresh_cong [OF that(2)], simp, simp)+
  then show ?thesis by (auto simp: stays_def)
qed

lemma fresh_parents: "main_parents as s = going s' \<Longrightarrow> fresh s \<Longrightarrow> fresh s'"
proof (induction as s rule: main_parents.induct)
  case (2 a as s)
  show ?case
  proof (cases "CHR '':'' \<in> set a")
    case True
    with 2 show ?thesis by (auto simp: r_bind_going dest: staysD [OF fresh_stays(7)])
  next
    case False
    with 2 show ?thesis by (cases as) (auto simp: r_bind_going dest: staysD [OF fresh_stays(7)])
  qed
qed simp

lemma fresh_command_line: "command_line mc args = going s \<Longrightarrow> fresh s"
  by (auto simp: command_line_def r_bind_going split: prod.splits if_splits
      dest!: stays_each [OF fresh_option] intro: fresh_parents fresh_init)

lemma fresh_each:
  assumes "stays fresh f" "cfg_each opt f s = going s'" "fresh s"
  shows "fresh s'"
proof (rule cfg_each_stays [OF assms(1,2)])
  show "fresh (snd (cfg_values opt s))"
    using assms(3) by (simp add: cfg_values_def split: option.split prod.split)
qed

lemma fresh_switches: "fresh s \<Longrightarrow> fresh (config_basic (config_gateway s))" "fresh s \<Longrightarrow> fresh (config_size (config_flags s))"
proof -
  have t: "fresh (snd (cfg_text opt s))" if "fresh s" for opt s
    using that by (auto simp: cfg_text_def cfg_pop_def split: option.splits prod.splits)
  have "fresh (config_gateway s)" if "fresh s" for s
    using t [OF that, of "''Gateway''"] by (cases "cfg_text ''Gateway'' s") (simp add: config_gateway_def)
  moreover have "fresh (config_basic s)" if "fresh s" for s
    using t [OF that, of "''NTLMToBasic''"] by (cases "cfg_text ''NTLMToBasic'' s") (simp add: config_basic_def)
  ultimately show "fresh s \<Longrightarrow> fresh (config_basic (config_gateway s))" by blast
  have "fresh (config_flags s)" if "fresh s" for s
    using t [OF that, of "''Flags''"] by (cases "cfg_text ''Flags'' s") (simp add: config_flags_def)
  moreover have "fresh (config_size s)" if "fresh s" for s
    using t [OF that, of "''ISAScannerSize''"] by (cases "cfg_text ''ISAScannerSize'' s") (simp add: config_size_def)
  ultimately show "fresh s \<Longrightarrow> fresh (config_size (config_flags s))" by blast
qed

lemma fresh_rules: "config_rules mc s = going s' \<Longrightarrow> fresh s \<Longrightarrow> fresh s'"
proof -
  have v: "fresh (snd (cfg_values opt s)) = fresh s" for opt s
    by (simp add: cfg_values_def split: option.split prod.split)
  show "config_rules mc s = going s' \<Longrightarrow> fresh s \<Longrightarrow> fresh s'"
    by (auto simp: config_rules_def r_bind_going v split: if_splits dest: stays_each [OF fresh_stays(8)])
qed

lemma fresh_strings: "fresh (config_strings s) = fresh s"
proof -
  have "fresh (cfg_default opt get put s) = fresh s"
    if "\<And>v s. mn_rules (put v s) = mn_rules s \<and> mn_g (put v s) = mn_g s" for opt get put s
    using that by (auto simp: cfg_default_def cfg_pop_def fresh_def creds_of_def split: option.split prod.split)
  then show ?thesis by (simp add: config_strings_def)
qed

lemma fresh_phase: "config_phase mc s = going s' \<Longrightarrow> fresh s \<Longrightarrow> fresh s'"
  unfolding config_phase_def r_bind_going
  by (elim exE conjE)
    (assumption | rule fresh_strings [THEN iffD2] fresh_switches
     | erule fresh_rules | erule fresh_each [OF fresh_stays(11)] fresh_each [OF fresh_stays(10)] fresh_each [OF fresh_stays(9)]
         fresh_each [OF fresh_stays(7)] fresh_each [OF fresh_stays(5)] fresh_each [OF fresh_stays(4)] fresh_each [OF fresh_stays(3)]
         fresh_each [OF fresh_stays(2)])+

text \<open>The credentials: only their own fields change, and these keep their size.\<close>

definition combination :: "auth_s \<Rightarrow> bool" where
  "combination c \<longleftrightarrow> (hashntlm2 c, hashnt c, hashlm c) \<in> {(1, 0, 0), (0, 1, 1), (0, 1, 0), (0, 0, 1), (0, 2, 0)}"

definition same_but_creds :: "main_s \<Rightarrow> main_s \<Rightarrow> bool" where
  "same_but_creds s s' \<longleftrightarrow> mn_rules s' = mn_rules s \<and> mn_proxyd s' = mn_proxyd s \<and> mn_socksd s' = mn_socksd s
     \<and> mn_tunneld s' = mn_tunneld s \<and> mn_hash s' = mn_hash s \<and> mn_magic s' = mn_magic s \<and> mn_serialize s' = mn_serialize s
     \<and> mn_noproxy s' = mn_noproxy s \<and> mn_debug s' = mn_debug s
     \<and> mn_g s' = (mn_g s)\<lparr>g_creds := creds_of s'\<rparr>"

definition creds_step :: "main_s \<Rightarrow> main_s \<Rightarrow> bool" where
  "creds_step s s' \<longleftrightarrow> same_but_creds s s' \<and> (auth_wf (creds_of s) \<and> combination (creds_of s) \<longrightarrow>
     auth_wf (creds_of s') \<and> combination (creds_of s'))"

lemma creds_step_trans: "creds_step a b \<Longrightarrow> creds_step b c \<Longrightarrow> creds_step a c"
  by (simp add: creds_step_def same_but_creds_def)

lemma creds_step_refl: "creds_step s s"
  by (simp add: creds_step_def same_but_creds_def creds_of_def)

lemma creds_stepI:
  "(auth_wf (creds_of s) \<Longrightarrow> auth_wf c) \<Longrightarrow> (combination (creds_of s) \<Longrightarrow> combination c) \<Longrightarrow> creds_step s (with_creds c s)"
  by (simp add: creds_step_def same_but_creds_def creds_of_def with_creds_def)

lemma creds_stepI':
  "(auth_wf (creds_of s) \<Longrightarrow> auth_wf c) \<Longrightarrow> (combination (creds_of s) \<Longrightarrow> combination c) \<Longrightarrow>
   creds_step s (with_creds c (s\<lparr>mn_password := p\<rparr>))"
  by (simp add: creds_step_def same_but_creds_def creds_of_def with_creds_def)

lemma creds_step_frame: "creds_step s (s\<lparr>mn_workstation := w\<rparr>)" "creds_step s (s\<lparr>mn_password := p\<rparr>)"
  by (simp_all add: creds_step_def same_but_creds_def creds_of_def)

lemma buf_strlcpy_str: "buf_strlcpy dst s = Ret d \<Longrightarrow> length dst = MINIBUF_SIZE \<Longrightarrow> str_wf d"
  by (auto simp: buf_strlcpy_def strlcpy_eq str_wf_def)

lemma auth_memcpy_length: "auth_memcpy f v n = Ret f' \<Longrightarrow> length f' = length f"
  by (auto simp: auth_memcpy_def memcpy_def split: option.splits if_splits)

lemma hash_text_length: "hash_text f v = going f' \<Longrightarrow> length f' = length f"
  by (auto simp: hash_text_def c_bind_Ret_iff dest: auth_memcpy_length split: if_splits option.splits)

lemma main_auth_step: "main_auth s = going s' \<Longrightarrow> creds_step s s'"
  by (auto simp: main_auth_def hash_choice_def creds_step_refl auth_wf_def combination_def intro!: creds_stepI split: if_splits)

lemma main_flags_step: "creds_step s (main_flags s)"
  by (auto simp: main_flags_def creds_step_refl auth_wf_def combination_def intro!: creds_stepI)

lemma main_hashes_step: "main_hashes s = going s' \<Longrightarrow> creds_step s s'"
  by (auto simp: main_hashes_def Let_def r_bind_going c_bind_Ret_iff auth_wf_def combination_def
      intro!: creds_stepI creds_stepI' dest!: hash_text_length auth_memcpy_length split: if_splits)

lemma main_names_step:
  assumes "main_names s = Ret s'"
  shows "creds_step s s'"
  using assms
  by (auto simp: main_names_def Let_def c_bind_Ret_iff auth_strcpy_def combination_def auth_wf_def str_wf_def
      intro!: creds_stepI dest!: buf_strlcpy_str)

lemma main_credentials_step:
  assumes "main_credentials mc s = going s'"
  shows "creds_step s s'"
proof -
  from assms obtain a b c d where A: "main_workstation mc s = Ret a" "main_auth a = going b" "main_prompt mc (main_flags b) = Ret c"
    "main_hashes c = going d" "main_names d = Ret s'"
    by (auto simp: main_credentials_def r_bind_going c_bind_Ret_iff)
  have "creds_step s a" using A(1)
    by (auto simp: main_workstation_def creds_step_refl creds_step_frame c_bind_Ret_iff split: if_splits)
  note creds_step_trans [OF this main_auth_step [OF A(2)]]
  note creds_step_trans [OF this main_flags_step]
  moreover have "creds_step (main_flags b) c" using A(3)
    by (auto simp: main_prompt_def creds_step_refl creds_step_frame c_bind_Ret_iff split: if_splits)
  ultimately have "creds_step s c" by (rule creds_step_trans)
  note creds_step_trans [OF this main_hashes_step [OF A(4)]]
  from creds_step_trans [OF this main_names_step [OF A(5)]] show ?thesis .
qed

text \<open>What is served has gone through all of it.\<close>

lemma main_startup_serves:
  assumes "main_startup mc args = going (Serves s who)"
  obtains s0 s1 where "command_line mc args = going s0" "main_config mc s0 = going s1" "fresh s1"
    "g_parents (mn_g s1) \<noteq> []" "mn_proxyd s1 \<noteq> []" "main_credentials mc s1 = going s" "creds_step s1 s"
    "mn_magic s = None" "\<not> mn_hash s"
proof -
  from assms obtain s0 s1 s2 where A: "command_line mc args = going s0" "main_config mc s0 = going s1"
    "main_checks s1 = going s2" "main_credentials mc s2 = going s" "mn_magic s = None" "\<not> mn_hash s"
    by (auto simp: main_startup_def r_bind_going c_bind_Ret_iff split: if_splits)
  note st = main_credentials_step [OF A(4)]
  have "s2 = s1" using A(3) by (auto simp: main_checks_def split: if_splits)
  moreover have "fresh s1" using fresh_command_line [OF A(1)] A(2)
    by (auto simp: main_config_def c_bind_Ret_iff split: if_splits dest: fresh_phase)
  moreover have "g_parents (mn_g s1) \<noteq> []" "mn_proxyd s1 \<noteq> []" using A(3,5,6) st \<open>s2 = s1\<close>
    by (auto simp: main_checks_def creds_step_def same_but_creds_def split: if_splits)
  ultimately show thesis using that A st by blast
qed

lemma startup_wf:
  assumes "main_startup mc args = going (Serves s who)"
  shows "auth_wf (g_creds (mn_g s)) \<and> combination (g_creds (mn_g s)) \<and> rules_wf (mn_rules s) \<and> numbered (mn_g s)
    \<and> g_parents (mn_g s) \<noteq> [] \<and> g_parent_curr (mn_g s) = 0 \<and> g_cache (mn_g s) = Some [] \<and> mn_proxyd s \<noteq> []"
proof -
  from assms obtain s0 s1 where A: "fresh s1" "g_parents (mn_g s1) \<noteq> []" "mn_proxyd s1 \<noteq> []" "creds_step s1 s"
    by (rule main_startup_serves)
  have "auth_wf (creds_of s1) \<and> combination (creds_of s1)"
    using A(1) by (simp add: fresh_def combination_def) (simp add: new_auth_def)
  with A(4) have w: "same_but_creds s1 s" "auth_wf (creds_of s)" "combination (creds_of s)" by (simp_all add: creds_step_def)
  then have g: "mn_g s = (mn_g s1)\<lparr>g_creds := creds_of s\<rparr>" by (simp add: same_but_creds_def)
  have "numbered (mn_g s)" "g_parents (mn_g s) = g_parents (mn_g s1)" "g_parent_curr (mn_g s) = 0" "g_cache (mn_g s) = Some []"
    using A(1) by (subst g, simp add: fresh_def numbered_def)+
  with A(1-3) w show ?thesis by (simp add: same_but_creds_def fresh_def creds_of_def)
qed

section \<open>Properties\<close>

text \<open>
  C8: every value the options may have fits its type.  When the start ends in the accept loop, the
  credentials are in their buffers and end there, the combination of hashes is one of the five, the
  rules have prefix lengths, the parents are numbered from 1 without gaps and there is one, no parent
  is the current one, the cache is empty, and the proxy listens on a port.
\<close>

theorem startup_well_formed:
  assumes "main_startup mc args = going (Serves s who)"
  shows "auth_wf (g_creds (mn_g s)) \<and> combination (g_creds (mn_g s)) \<and> rules_wf (mn_rules s) \<and> numbered (mn_g s)
    \<and> g_parents (mn_g s) \<noteq> [] \<and> g_parent_curr (mn_g s) = 0 \<and> g_cache (mn_g s) = Some [] \<and> mn_proxyd s \<noteq> []"
  using assms by (rule startup_wf)

text \<open>
  C9: what the configuration file adds.  A single option counts when the command line has not set
  it, and then the first one of the file, cut to 49 characters; the rules of the file count, in
  their order and together, when the command line has none; the users of the file, the options
  SOCKS5Users, are added to those of the command line.
\<close>

theorem configuration_file_adds:
  assumes "config_phase mc s = going s'" "mn_cf s = Some cf"
  shows "mn_auth s' = setting (cf_options cf) ''Auth'' (mn_auth s)
    \<and> mn_domain s' = setting (cf_options cf) ''Domain'' (mn_domain s)
    \<and> mn_password s' = setting (cf_options cf) ''Password'' (mn_password s)
    \<and> mn_passntlm2 s' = setting (cf_options cf) ''PassNTLMv2'' (mn_passntlm2 s)
    \<and> mn_passnt s' = setting (cf_options cf) ''PassNT'' (mn_passnt s)
    \<and> mn_passlm s' = setting (cf_options cf) ''PassLM'' (mn_passlm s)
    \<and> mn_user s' = setting (cf_options cf) ''Username'' (mn_user s)
    \<and> mn_workstation s' = setting (cf_options cf) ''Workstation'' (mn_workstation s)
    \<and> mn_rules s' = (if mn_rules s \<noteq> [] then mn_rules s
        else acl_build (mc_resolver mc) (mc_src mc) (file_rules (cf_options cf)))
    \<and> mn_users s' = mn_users s @ concat (map user_entry (values_for ''SOCKS5Users'' (cf_options cf)))"
  using config_result [OF assms] by (simp add: strings_def)

text \<open>The shortest command line that starts the proxy.\<close>

lemma options_of_start: "getopt [''-f'', ''-l'', ''3128'', ''p:80''] = ([(CHR ''f'', []), (CHR ''l'', ''3128'')], [''p:80''])"
  by (simp add: getopt.simps opt_kind_def optstring_def strchr_def)

lemma atoi_ports: "atoi ''3128'' = 3128" "atoi ''80'' = 80"
  using atoi_show_nat [of 3128] atoi_show_nat [of 80] by (simp_all add: show_nat.simps)

lemma start_command_line:
  assumes "0 < mc_listen mc 0 3128 (swap32 INADDR_LOOPBACK)"
  shows "\<exists>s. command_line mc [''-f'', ''-l'', ''3128'', ''p:80''] = going s \<and> creds_of s = new_auth \<and> mn_cf s = None
    \<and> mn_proxyd s \<noteq> [] \<and> g_parents (mn_g s) \<noteq> [] \<and> mn_auth s = [] \<and> mn_cflags s = 0 \<and> mn_password s = []
    \<and> mn_passlm s = [] \<and> mn_passnt s = [] \<and> mn_passntlm2 s = [] \<and> mn_hash s = False \<and> mn_magic s = None \<and> \<not> mn_pwd s
    \<and> \<not> mn_daemon s \<and> mn_uid s = [] \<and> mn_pidfile s = [] \<and> mn_user s = [] \<and> mn_domain s = []"
proof -
  have l: "listen_add r so src l ''3128'' False = Ret (Added (opened l (so 3128 (swap32 INADDR_LOOPBACK)) None))" for r so src l
    by (simp add: listen_add_def strcspn_def atoi_ports local_addr_def opened_def plist_add_append)
  have p: "parent_spec ''p:80'' 0 = Some (''p'', 80)"
    by (simp add: parent_spec_def strcspn_def atoi_ports Let_def)
  show ?thesis using assms
    by (simp add: command_line_def options_of_start main_option_def add_proxy_port_def add_port_def l main_init_def
        opened_def add_parent_def parent_add_def p Let_def plist_add_append creds_of_def no_globals_def)
qed

lemma buf_strlcpy_defined: "length dst = MINIBUF_SIZE \<Longrightarrow> \<exists>d. buf_strlcpy dst v = Ret d"
  by (simp add: buf_strlcpy_def strlcpy_eq)

lemma main_names_creds:
  assumes "auth_wf (creds_of s)"
  shows "\<exists>u d w. main_names s = Ret (with_creds ((creds_of s)\<lparr>auth_user := u, auth_domain := d, auth_workstation := w\<rparr>) s)"
proof -
  have l: "length (auth_user (creds_of s)) = MINIBUF_SIZE" "length (auth_domain (creds_of s)) = MINIBUF_SIZE"
    "length (auth_workstation (creds_of s)) = MINIBUF_SIZE"
    using assms by (simp_all add: auth_wf_def str_wf_def)
  obtain u d w where "buf_strlcpy (auth_user (creds_of s)) (mn_user s) = Ret u" "buf_strlcpy (auth_domain (creds_of s)) (mn_domain s) = Ret d"
    "buf_strlcpy (auth_workstation (creds_of s)) (mn_workstation s) = Ret w"
    using buf_strlcpy_defined [OF l(1)] buf_strlcpy_defined [OF l(2)] buf_strlcpy_defined [OF l(3)] by blast
  then show ?thesis by (simp add: main_names_def Let_def auth_strcpy_def) blast
qed

lemma start_without_password:
  assumes "0 < mc_listen mc 0 3128 (swap32 INADDR_LOOPBACK)" "mc_default mc = None" "NUL \<in> set (mc_hostname mc)"
  shows "\<exists>s. main_startup mc [''-f'', ''-l'', ''3128'', ''p:80''] = going (Serves s None)
    \<and> no_hashes (g_creds (mn_g s)) \<and> hashntlm2 (g_creds (mn_g s)) = 1"
proof -
  obtain s where c: "command_line mc [''-f'', ''-l'', ''3128'', ''p:80''] = going s" "creds_of s = new_auth" "mn_cf s = None"
    "mn_proxyd s \<noteq> []" "g_parents (mn_g s) \<noteq> []" "mn_auth s = []" "mn_cflags s = 0" "mn_password s = []"
    "mn_passlm s = []" "mn_passnt s = []" "mn_passntlm2 s = []" "\<not> mn_hash s" "mn_magic s = None" "\<not> mn_pwd s"
    "\<not> mn_daemon s" "mn_uid s = []" "mn_pidfile s = []" "mn_user s = []" "mn_domain s = []"
    using start_command_line [OF assms(1)] by auto
  obtain w where w: "main_workstation mc s = Ret (s\<lparr>mn_workstation := w\<rparr>)"
    using assms(3) by (cases "mn_workstation s = []") (auto simp: main_workstation_def read_cstr_def intro: that [of "mn_workstation s"])
  define t where "t = with_creds new_auth (s\<lparr>mn_workstation := w\<rparr>)"
  have t: "creds_of t = new_auth" by (simp add: t_def)
  from main_names_creds [of t] obtain x y z where n: "main_names t = Ret (with_creds (new_auth\<lparr>auth_user := x, auth_domain := y, auth_workstation := z\<rparr>) t)"
    by (auto simp: t)
  define r where "r = with_creds (new_auth\<lparr>auth_user := x, auth_domain := y, auth_workstation := z\<rparr>) t"
  have "new_auth\<lparr>passntlm2 := passntlm2 new_auth, passnt := passnt new_auth, passlm := passlm new_auth\<rparr> = new_auth" by simp
  then have "main_credentials mc s = going r"
    using w n c(2) c(6-14) by (simp add: main_credentials_def main_auth_def main_flags_def main_prompt_def main_hashes_def hash_text_def
        Let_def creds_of_def r_def t_def)
  moreover have "main_config mc s = going s" using c(3) assms(2) by (simp add: main_config_def config_open_def)
  moreover have "main_checks s = going s" using c(4,5) by (simp add: main_checks_def)
  moreover have "mn_magic r = None" "\<not> mn_hash r" "main_daemon mc r = going None"
    using c(12,13,15,16,17) by (simp_all add: r_def t_def with_creds_def main_daemon_def main_identity_def)
  ultimately have "main_startup mc [''-f'', ''-l'', ''3128'', ''p:80''] = going (Serves r None)"
    using c(1) by (simp add: main_startup_def)
  moreover have "g_creds (mn_g r) = new_auth\<lparr>auth_user := x, auth_domain := y, auth_workstation := z\<rparr>"
    by (simp add: r_def with_creds_def)
  ultimately show ?thesis by (simp add: no_hashes_def) (simp add: new_auth_def)
qed

definition sample_machine :: machine where
  "sample_machine = \<lparr>mc_resolver = \<lambda>_. None, mc_src = 0, mc_listen = \<lambda>n port a. 3, mc_file = \<lambda>_. None, mc_default = None,
     mc_trace = \<lambda>_. True, mc_hostname = zero_str, mc_stdin = [], mc_fork = 0, mc_root = False, mc_passwd = \<lambda>_. None,
     mc_setuid = True, mc_pidfile = True\<rparr>"

lemma sample_machine_ok:
  "0 < mc_listen sample_machine 0 3128 (swap32 INADDR_LOOPBACK)" "mc_default sample_machine = None"
  "NUL \<in> set (mc_hostname sample_machine)"
  by (simp_all add: sample_machine_def zero_str_def)

text \<open>
  The program starts without a password.  With nothing but a port and a parent, no password and
  no hash, it is not refused, although the parent will be sent NTLMv2 responses: all hashes are
  zero, and the accept loop starts.
\<close>

theorem starts_without_password:
  assumes "0 < mc_listen mc 0 3128 (swap32 INADDR_LOOPBACK)" "mc_default mc = None" "NUL \<in> set (mc_hostname mc)"
  shows "\<exists>s. main_startup mc [''-f'', ''-l'', ''3128'', ''p:80''] = going (Serves s None)
    \<and> no_hashes (g_creds (mn_g s)) \<and> hashntlm2 (g_creds (mn_g s)) = 1"
  using assms by (rule start_without_password)

theorem starts_without_password_witness:
  "\<exists>s. main_startup sample_machine [''-f'', ''-l'', ''3128'', ''p:80''] = going (Serves s None) \<and> no_hashes (g_creds (mn_g s))"
  using starts_without_password [OF sample_machine_ok] by blast

theorem startup_well_formed_witness:
  "\<exists>s. main_startup sample_machine [''-f'', ''-l'', ''3128'', ''p:80''] = going (Serves s None)
     \<and> numbered (mn_g s) \<and> g_parents (mn_g s) \<noteq> []"
proof -
  obtain s where s: "main_startup sample_machine [''-f'', ''-l'', ''3128'', ''p:80''] = going (Serves s None)"
    using start_without_password [OF sample_machine_ok] by blast
  from startup_well_formed [OF s] s show ?thesis by blast
qed

definition sample_options :: hlist_t where
  "sample_options = [\<lparr>hkey = ''Username'', hvalue = ''bob''\<rparr>, \<lparr>hkey = ''domain'', hvalue = ''corp''\<rparr>,
     \<lparr>hkey = ''SOCKS5User'', hvalue = ''dave:pw''\<rparr>]"

text \<open>An option the file does not name.\<close>

lemma cfg_absent:
  assumes "values_for opt opts = []"
  shows "cfg_each opt f (with_options opts s) = going (with_options opts s)" "cfg_values opt (with_options opts s) = ([], with_options opts s)"
    "cfg_text opt (with_options opts s) = ([], with_options opts s)"
proof -
  have n: "\<not> strcaseeq (hkey t) opt" if "t \<in> set opts" for t using assms that by (auto simp: values_for_def filter_empty_conv)
  then have "filter (\<lambda>t. strcaseeq (hkey t) opt) opts = []" "filter (\<lambda>t. \<not> strcaseeq (hkey t) opt) opts = opts"
    by (auto simp: filter_empty_conv filter_id_conv)
  then show v: "cfg_values opt (with_options opts s) = ([], with_options opts s)" by (simp add: cfg_values_with)
  then show "cfg_each opt f (with_options opts s) = going (with_options opts s)" by (simp add: cfg_each_def)
  have "hlist_get opts opt = None" using n by (simp add: hlist_get_filter filter_empty_conv)
  then show "cfg_text opt (with_options opts s) = ([], with_options opts s)"
    by (simp add: cfg_text_with from_file_def hlist_del_None)
qed

lemma sample_absent:
  "\<forall>opt \<in> set [''Gateway'', ''NTLMToBasic'', ''Tunnel'', ''Listen'', ''SOCKS5Proxy'', ''Header'', ''Proxy'', ''Allow'', ''Deny''].
     values_for opt sample_options = []"
  "\<forall>opt \<in> set [''Flags'', ''ISAScannerSize'', ''NoProxy'', ''SOCKS5Users'', ''ISAScannerAgent''].
     values_for opt (foldl hlist_del sample_options single_options) = []"
  "setting sample_options ''Username'' ''ann'' = ''ann''" "setting sample_options ''Domain'' [] = ''corp''"
  "values_for ''SOCKS5Users'' sample_options = []" "file_rules sample_options = []"
  by code_simp+

lemma sample_phase: "\<exists>s'. config_phase sample_machine (with_options sample_options (main_init\<lparr>mn_user := ''ann''\<rparr>)) = going s'"
proof -
  have c: "(with_options l s)\<lparr>mn_cflags := f\<rparr> = with_options l (s\<lparr>mn_cflags := f\<rparr>)" for l s f by (simp add: with_options_def)
  have n: "\<not> strcaseeq ''yes'' []" by (simp add: strcaseeq_def)
  note a = cfg_absent [OF bspec [OF sample_absent(1)]] and b = cfg_absent [OF bspec [OF sample_absent(2)]]
  have r: "config_rules mc (with_options sample_options s) = going (with_options sample_options s)" if "mn_rules s = []" for mc s
  proof -
    have "file_rules ts = [] \<Longrightarrow> each (config_rule mc) ts x = going x" for ts x
      by (induction ts) (auto simp: file_rules_def config_rule_def split: if_splits)
    with sample_absent(6) a(2) that show ?thesis by (simp add: config_rules_def)
  qed
  show ?thesis
    by (simp add: config_phase_def config_gateway_def config_basic_def config_flags_def config_size_def a b n r c
        config_strings_with main_init_def)
qed

theorem configuration_file_adds_witness:
  "\<exists>s'. config_phase sample_machine (with_options sample_options (main_init\<lparr>mn_user := ''ann''\<rparr>)) = going s'
     \<and> mn_user s' = ''ann'' \<and> mn_domain s' = ''corp'' \<and> mn_users s' = []"
proof -
  obtain s' where s': "config_phase sample_machine (with_options sample_options (main_init\<lparr>mn_user := ''ann''\<rparr>)) = going s'"
    using sample_phase by blast
  have cf: "mn_cf (with_options sample_options (main_init\<lparr>mn_user := ''ann''\<rparr>)) = Some \<lparr>cf_options = sample_options\<rparr>"
    by (simp add: with_options_def)
  from configuration_file_adds [OF s' cf] s' show ?thesis using sample_absent(3-5)
    by (intro exI [of _ s']) (simp add: with_options_def main_init_def)
qed

section \<open>The order of the options\<close>

lemma listen_port:
  assumes "CHR '':'' \<notin> set p" "atoi p \<noteq> 0"
  shows "listen_add r so src l p gateway = Ret (Added (opened l (so (atoi p) (local_addr gateway)) None))"
proof -
  have "strcspn p '':'' = length p" using assms(1) by (auto simp: strcspn_eq_length)
  with assms(2) show ?thesis by (simp add: listen_add_def Let_def opened_def plist_add_append)
qed

text \<open>
  Gateway mode counts from where it stands.  A port before -g on the command line is opened on
  the loopback interface only, and one after it on every interface.
\<close>

theorem gateway_order:
  assumes "CHR '':'' \<notin> set p" "atoi p \<noteq> 0" "CHR '':'' \<notin> set q" "atoi q \<noteq> 0" "\<not> mn_gateway s"
  shows "\<exists>s'. each (main_option mc) [(CHR ''l'', p), (CHR ''g'', []), (CHR ''l'', q)] s = going s'
    \<and> mn_proxyd s' = opened (opened (mn_proxyd s) (mc_listen mc (mn_listens s) (atoi p) (swap32 INADDR_LOOPBACK)) None)
        (mc_listen mc (Suc (mn_listens s)) (atoi q) (swap32 INADDR_ANY)) None"
  using assms by (simp add: main_option_def add_proxy_port_def add_port_def listen_port local_addr_def)

theorem gateway_order_witness:
  "\<exists>s'. each (main_option sample_machine) [(CHR ''l'', ''80''), (CHR ''g'', []), (CHR ''l'', ''3128'')] main_init = going s'
     \<and> length (mn_proxyd s') = 2"
proof -
  have "\<not> mn_gateway main_init" "mn_proxyd main_init = []" by (simp_all add: main_init_def)
  with gateway_order [of "''80''" "''3128''" main_init sample_machine] show ?thesis
    by (simp add: atoi_ports sample_machine_def opened_def del: each.simps) (elim exE conjE, rule exI, rule conjI, assumption, simp)
qed

section \<open>The accept loop of a started program\<close>

text \<open>
  What main has built for the loop.  \<open>su\<close> has the outside world of \<open>proxy_thread\<close>, which is started with
  the exceptions and the flag of main, and \<open>ptr\<close> is the width of a pointer.
\<close>

definition service_of :: "settings \<Rightarrow> nat \<Rightarrow> main_s \<Rightarrow> service" where
  "service_of su ptr s = \<lparr>sc_rules = mn_rules s, sc_proxyd = mn_proxyd s, sc_socksd = mn_socksd s,
     sc_tunneld = mn_tunneld s, sc_settings = su\<lparr>su_noproxy := mn_noproxy s, su_serialize := mn_serialize s\<rparr>,
     sc_debug = mn_debug s, sc_pointer = ptr\<rparr>"

text \<open>
  C3: a program that starts goes on, as long as three things do not happen.  Whatever the command
  line and the file were, when the start ends in the accept loop (without the scanner plugin, when the
  proxy serializes), then in every state the loop can reach, a pass comes to a defined end for any
  connections, except when a listening descriptor does not fit into the set for select, or a
  thread is joined on a machine where a pointer is wider than an int, or the proxy serializes and the
  proxy\_thread of one of the clients does not return, started with what the clients before it have
  left.  And every client that has a thread, or was served by the loop itself, is one that the rules
  of the command line, or of the file when there are none, allow.
\<close>

theorem started_program_serves:
  assumes "main_startup mc args = going (Serves s who)" "mn_serialize s \<Longrightarrow> \<not> mn_scanner s"
    "server_reach (service_of su ptr s) join (server_start (mn_g s)) v"
  shows "((\<exists>v'. server_body (service_of su ptr s) join as v = Some (Ret v')) \<longleftrightarrow>
      watched (service_of su ptr s)
      \<and> \<not> (SIZEOF_INT < ptr \<and> (\<exists>t \<in> set (sv_threads v). join (pkey t)))
      \<and> \<not> (mn_serialize s \<and> (\<exists>as1 a as2 tid v1. as = as1 @ a # as2
            \<and> server_accepts (service_of su ptr s) as1 (0, v) = Some (Ret (tid, v1)) \<and> serve_fails (service_of su ptr s) v1 a)))
    \<and> (\<forall>j \<in> snd ` set (sv_running v) \<union> set (sv_served v). acl_check (mn_rules s) (job_addr j) = Ret ACL_ALLOW)"
proof -
  let ?sc = "service_of su ptr s"
  have r: "sc_rules ?sc = mn_rules s" "sc_pointer ?sc = ptr" "sc_serialize ?sc = mn_serialize s"
    by (simp_all add: service_of_def)
  have "rules_wf (sc_rules ?sc)" using startup_wf [OF assms(1)] r(1) by simp
  then have "\<forall>a :: arrival. \<exists>v. acl_check (sc_rules ?sc) (av_addr a) = Ret v" by (simp add: acl_check_first)
  note E = accepts_Ret_iff [OF this, of as 0 v]
  have f: "serve_fails ?sc v1 a \<Longrightarrow> mn_serialize s" for a v1
    using r(3) by (auto simp: serve_fails_def served_inline_def split: job.splits)
  have o: "join_overruns ?sc join v \<longleftrightarrow> SIZEOF_INT < ptr \<and> (\<exists>t \<in> set (sv_threads v). join (pkey t))"
    by (simp add: join_overruns_def r(2))
  show ?thesis
    using f reach_allowed [OF assms(3)] unfolding body_Ret_iff E o only_allowed_def jobs_def r(1) by blast
qed

text \<open>The listeners of the shortest command line, and of one for a proxy that serializes and has an exception.\<close>

definition one_listener :: "bool \<Rightarrow> string list \<Rightarrow> outcome run c_result \<Rightarrow> bool" where
  "one_listener serialize exceptions r = (case r of
     Ret (Going (Serves s None)) \<Rightarrow> mn_rules s = [] \<and> map pkey (mn_proxyd s) = [3] \<and> mn_socksd s = [] \<and> mn_tunneld s = []
       \<and> mn_serialize s = serialize \<and> \<not> mn_scanner s \<and> map (\<lambda>t. the (paux t)) (mn_noproxy s) = exceptions
   | _ \<Rightarrow> False)"

lemma one_listener_starts:
  "one_listener False [] (main_startup sample_machine [''-f'', ''-l'', ''3128'', ''p:80''])"
  "one_listener True [''h''] (main_startup sample_machine [''-f'', ''-s'', ''-N'', ''h'', ''-l'', ''3128'', ''p:80''])"
  by code_simp+

lemma one_listenerE:
  assumes "one_listener b l (main_startup mc args)"
  obtains s where "main_startup mc args = going (Serves s None)" "mn_serialize s = b" "\<not> mn_scanner s"
    "watched (service_of su ptr s)" "mn_rules s = []" "plist_in (mn_proxyd s) 3"
proof -
  from assms obtain s where s: "main_startup mc args = going (Serves s None)" "map pkey (mn_proxyd s) = [3]"
    "mn_socksd s = []" "mn_tunneld s = []" "mn_serialize s = b" "\<not> mn_scanner s" "mn_rules s = []"
    by (auto simp: one_listener_def split: c_result.splits run.splits outcome.splits option.splits)
  moreover from s(2) obtain a where "mn_proxyd s = [\<lparr>pkey = 3, paux = a\<rparr>]"
    by (cases "mn_proxyd s") (auto intro: that [of "paux (hd (mn_proxyd s))"])
  ultimately show thesis using that by (simp add: watched_def service_of_def)
qed

theorem started_program_serves_witness:
  "\<exists>s v. main_startup sample_machine [''-f'', ''-l'', ''3128'', ''p:80''] = going (Serves s None) \<and> \<not> mn_serialize s
     \<and> server_body (service_of (sample_settings []) 8 s) (\<lambda>_. True) [arrival_on 3 ''GET''] (server_start (mn_g s)) = Some (Ret v)"
proof -
  obtain s where s: "main_startup sample_machine [''-f'', ''-l'', ''3128'', ''p:80''] = going (Serves s None)"
    "\<not> mn_serialize s" "watched (service_of (sample_settings []) 8 s)"
    using one_listener_starts(1) by (elim one_listenerE [where su = "sample_settings []" and ptr = 8]) simp
  have "sv_threads (server_start (mn_g s)) = []" by (simp add: server_start_def)
  with started_program_serves [OF s(1) _ server_reach.Here, of "sample_settings []" 8 "\<lambda>_. True" "[arrival_on 3 ''GET'']"] s
  show ?thesis by auto
qed

end
