(* ===== verification/Detect.thy ===== *)
theory Detect
  imports Tunnels Conversation Startup
begin

text \<open>
  The detection of the parent's dialect, magic\_auth\_detect of forward.c: the combinations of hashes
  that are tried, what the parent makes of each, and the profile that is printed.
\<close>

section \<open>The tests\<close>

text \<open>NT, LM, NTLMv2, flags, and the name of the combination.\<close>

definition prefs :: "(int \<times> int \<times> int \<times> u32 \<times> string) list" where
  "prefs = [(0, 0, 1, 0, ''NTLMv2''), (1, 1, 0, 0, ''NTLM''), (0, 1, 0, 0, ''LM''), (2, 0, 0, 0, ''NTLM2SR'')]"

text \<open>The host of the URL; \<open>None\<close> when it has no scheme.\<close>

definition detect_host :: "string \<Rightarrow> string option c_result" where
  "detect_host url =
     (case strstr url ''://'' of
        None \<Rightarrow> Ret None
      | Some pos \<Rightarrow>
          let r = drop 3 pos
          in c_bind (substr r 0 (case strchr r (CHR ''/'') of None \<Rightarrow> 0 | Some tmp \<Rightarrow> int (length r - length tmp)))
               (\<lambda>host. Ret (Some host)))"

definition detect_request :: "string \<Rightarrow> string \<Rightarrow> rr_data_s" where
  "detect_request url host = new_rr_data\<lparr>rr_req := 1, rr_method := Some ''GET'', rr_url := Some url,
     rr_http := Some ''HTTP/1.1'',
     rr_headers := hlist_add (hlist_add [] (Some ''Proxy-Connection'') (Some ''keep-alive'')) (Some ''Host'') (Some host)\<rparr>"

text \<open>What a test shows.\<close>

datatype verdict = No_connection | Not_required int | Lost | Rejected_creds | No_offer | Accepted int

definition detect_verdict :: "rr_data_s \<Rightarrow> verdict" where
  "detect_verdict res =
     (if rr_code res = 407 then
        (if hlist_subcmp_all (rr_headers res) ''Proxy-Authenticate'' ''NTLM''
           \<or> hlist_subcmp_all (rr_headers res) ''Proxy-Authenticate'' ''BASIC''
         then Rejected_creds else No_offer)
      else Accepted (rr_code res))"

definition detect_authorized :: "auth_result \<Rightarrow> (verdict \<times> auth_s \<times> globals) c_prog" where
  "detect_authorized r =
     (case ar_response r of
        None \<Rightarrow> Some UB
      | Some res \<Rightarrow>
          if ar_rc r \<and> rr_code res \<noteq> 407 then Some (Ret (Not_required (rr_code res), ar_creds r, ar_globals r))
          else case ar_peer r of
                 None \<Rightarrow> Some (Ret (Lost, ar_creds r, ar_globals r))
               | Some p \<Rightarrow>
                   p_bind (exchange p (ar_request r) res) (\<lambda>(reply, q).
                     Some (Ret (case reply of None \<Rightarrow> Lost | Some d \<Rightarrow> detect_verdict d, ar_creds r, ar_globals r))))"

definition detect_test ::
  "gai \<Rightarrow> rnd \<Rightarrow> string \<Rightarrow> string \<Rightarrow> int \<times> int \<times> int \<times> u32 \<times> string \<Rightarrow> auth_s \<Rightarrow> globals \<Rightarrow> (verdict \<times> auth_s \<times> globals) c_prog" where
  "detect_test getaddrinfo rn url host = (\<lambda>(nt, lm, n2, fl, name) tcreds g.
     let c = tcreds\<lparr>hashnt := nt, hashlm := lm, hashntlm2 := n2, auth_flags := fl\<rparr>
     in p_bind (Some (proxy_connect getaddrinfo g None)) (\<lambda>((nc, p), _, g1).
          case p of
            None \<Rightarrow> Some (Ret (No_connection, c, g1))
          | Some q \<Rightarrow>
              if nc \<le> 0 then Some (Ret (No_connection, c, g1))
              else p_bind (proxy_authenticate getaddrinfo rn g1 nc q (detect_request url host) (Some new_rr_data) c)
                     detect_authorized))"

text \<open>The tests in their order: given up, or the number of tests that needed no credentials and the one that worked.\<close>

datatype detection = Given_up | Ended nat "nat option"

fun detect_tests ::
  "gai \<Rightarrow> rnd \<Rightarrow> string \<Rightarrow> string \<Rightarrow> nat \<Rightarrow> (int \<times> int \<times> int \<times> u32 \<times> string) list \<Rightarrow> nat \<Rightarrow> auth_s \<Rightarrow> globals
     \<Rightarrow> (detection \<times> auth_s \<times> globals) c_prog" where
  "detect_tests ga rn url host i [] ign tcreds g = Some (Ret (Ended ign None, tcreds, g))"
| "detect_tests ga rn url host i (t # ts) ign tcreds g =
     p_bind (detect_test ga rn url host t tcreds g) (\<lambda>(v, c, g1).
       case v of
         No_connection \<Rightarrow> Some (Ret (Given_up, c, g1))
       | Not_required code \<Rightarrow> detect_tests ga rn url host (Suc i) ts (Suc ign) c g1
       | Lost \<Rightarrow> detect_tests ga rn url host (Suc i) ts ign c g1
       | Rejected_creds \<Rightarrow> detect_tests ga rn url host (Suc i) ts ign c g1
       | No_offer \<Rightarrow> Some (Ret (Ended ign None, c, g1))
       | Accepted code \<Rightarrow> Some (Ret (Ended ign (Some i), c, g1)))"

section \<open>The report\<close>

text \<open>\<open>%x\<close>.\<close>

fun show_xnat :: "nat \<Rightarrow> string" where
  "show_xnat n = (if n < 16 then [c_tolower (hextab ! n)] else show_xnat (n div 16) @ [c_tolower (hextab ! (n mod 16))])"

declare show_xnat.simps [simp del]

definition hash_line :: "string \<Rightarrow> byte list \<Rightarrow> string c_result" where
  "hash_line key bs = c_bind (printmem bs 16 8) (\<lambda>t. Ret (key @ t @ [LF]))"

definition profile_lines :: "int \<times> int \<times> int \<times> u32 \<times> string \<Rightarrow> auth_s \<Rightarrow> string c_result" where
  "profile_lines = (\<lambda>(nt, lm, n2, fl, name) tcreds.
     c_bind (if nt \<noteq> 0 then hash_line ''PassNT          '' (passnt tcreds) else Ret []) (\<lambda>a.
     c_bind (if lm \<noteq> 0 then hash_line ''PassLM          '' (passlm tcreds) else Ret []) (\<lambda>b.
     c_bind (if n2 \<noteq> 0 then hash_line ''PassNTLMv2      '' (passntlm2 tcreds) else Ret []) (\<lambda>c.
       Ret (''Auth            '' @ name @ [LF] @ (if fl \<noteq> 0 then ''Flags           0x'' @ show_xnat (unat fl) @ [LF] else [])
            @ a @ b @ c)))))"

text \<open>\<open>%2d\<close> of a number below ten.\<close>

definition magic_report :: "detection \<Rightarrow> auth_s \<Rightarrow> string c_result" where
  "magic_report d tcreds =
     (case d of
        Given_up \<Rightarrow> Ret (LF # ''Connection to proxy failed, bailing out'' @ [LF])
      | Ended ign (Some i) \<Rightarrow>
          c_bind (profile_lines (prefs ! i) tcreds) (\<lambda>ls.
            Ret (''----------------------------[ Profile  '' @ show_nat i @ '' ]------'' @ [LF] @ ls
                 @ ''------------------------------------------------'' @ [LF]))
      | Ended ign None \<Rightarrow>
          Ret (if ign = 4 then LF # ''Your proxy is open, you don'' @ CHR 0x27 # ''t need another proxy.'' @ [LF]
               else LF # ''Wrong credentials, invalid URL or proxy doesn'' @ CHR 0x27 # ''t support NTLM nor BASIC.'' @ [LF]))"

text \<open>The whole detection; \<open>None\<close> for a URL without a scheme.\<close>

definition magic_auth_detect ::
  "gai \<Rightarrow> rnd \<Rightarrow> string \<Rightarrow> globals \<Rightarrow> ((detection \<times> string) option \<times> globals) c_prog" where
  "magic_auth_detect getaddrinfo rn url g =
     p_bind (Some (copy_auth new_auth (g_creds g) True)) (\<lambda>tcreds.
     p_bind (Some (detect_host url)) (\<lambda>host.
       case host of
         None \<Rightarrow> Some (Ret (None, g))
       | Some h \<Rightarrow>
           p_bind (detect_tests getaddrinfo rn url h 0 prefs 0 tcreds g) (\<lambda>(d, c, g1).
           p_bind (Some (magic_report d c)) (\<lambda>t. Some (Ret (Some (d, t), g1))))))"

section \<open>One test\<close>

lemma detect_request_simps [simp]:
  "rr_req (detect_request url host) = 1" "rr_method (detect_request url host) = Some ''GET''"
  "rr_url (detect_request url host) = Some url" "rr_http (detect_request url host) = Some ''HTTP/1.1''"
  "rr_code (detect_request url host) = 0"
  "rr_body (detect_request url host) = None" "rr_body_len (detect_request url host) = 0"
  by (simp_all add: detect_request_def new_rr_data_def)

lemma detect_probe:
  assumes "request_line creds = Ret buf"
  shows "\<exists>probe. auth_probe (detect_request url host) (Some new_rr_data) creds = Ret ((detect_request url host)
    \<lparr>rr_headers := probe_headers (rr_headers (detect_request url host)) buf\<rparr>, probe)"
proof -
  let ?r = "detect_request url host"
  have m: "has_method ''HEAD'' (Some ?r) = Ret False" "has_method ''GET'' (Some ?r) = Ret True"
    by (simp_all add: has_method_def strcaseeq_def)
  then obtain n where n: "http_has_body (Some ?r) (Some new_rr_data) = Ret n"
    by (simp add: http_has_body_def request_body_def new_rr_data_def Let_def)
  have "dup_view ?r = ?r" "?r\<lparr>rr_method := Some ''GET''\<rparr> = ?r"
    by (cases ?r, simp add: dup_view_def detect_request_def new_rr_data_def)+
  moreover have "body_wf ?r" by (simp add: body_wf_def)
  ultimately show ?thesis
    using auth_probe_eq [of ?r creds buf False "n \<noteq> 0" "Some new_rr_data" n] assms m n by auto
qed

lemma detect_test_407:
  assumes "proxy_connect getaddrinfo g None = Ret ((sd, Some p), z, g1)" "0 < sd"
    "request_line (c\<lparr>hashnt := nt, hashlm := lm, hashntlm2 := n2, auth_flags := fl\<rparr>) = Ret buf"
    "peer_wf p" "so_data (p_in p) = reply_text d f @ the_ret (headers_text d2) @ rest" "reply_wf d f"
    "challenge_ok rn (c\<lparr>hashnt := nt, hashlm := lm, hashntlm2 := n2, auth_flags := fl\<rparr>) d chal olen m n" "response_wf d2"
  shows "detect_test getaddrinfo rn url host (nt, lm, n2, fl, name) c g =
    Some (Ret (detect_verdict (received d2), c\<lparr>hashnt := nt, hashlm := lm, hashntlm2 := n2, auth_flags := fl\<rparr>, g1))"
proof -
  let ?c = "c\<lparr>hashnt := nt, hashlm := lm, hashntlm2 := n2, auth_flags := fl\<rparr>" and ?r = "detect_request url host"
  let ?a = "?r\<lparr>rr_headers := probe_headers (rr_headers ?r) buf\<rparr>"
  have T: "headers_text ?a = Ret (the_ret (headers_text ?a))" by (rule connect_text) simp_all
  from detect_probe [OF assms(3)] obtain probe where P: "auth_probe ?r (Some new_rr_data) ?c = Ret (?a, probe)" by blast
  have w: "sk_plan (p_out p) = []" "sock_wf (p_in p)" using assms(4) by (simp_all add: peer_wf_def)
  from proxy_authenticate_407 [OF P T _ _ w assms(5-7), of getaddrinfo g1 sd] obtain s where
    A: "proxy_authenticate getaddrinfo rn g1 sd p ?r (Some new_rr_data) ?c = Some (Ret
      \<lparr>ar_rc = True, ar_fd = sd, ar_peer = Some \<lparr>p_in = s, p_out = (p_out p)\<lparr>sk_out := sk_out (p_out p) @ the_ret (headers_text ?a)\<rparr>\<rparr>,
       ar_request = authorize ?r (take n m), ar_response = Some (received d), ar_creds = ?c, ar_globals = g1\<rparr>)"
    and s: "so_data s = the_ret (headers_text d2) @ rest" "sock_wf s" by auto
  let ?p = "\<lparr>p_in = s, p_out = (p_out p)\<lparr>sk_out := sk_out (p_out p) @ the_ret (headers_text ?a)\<rparr>\<rparr>"
  have "headers_text (authorize ?r (take n m)) = Ret (the_ret (headers_text (authorize ?r (take n m))))"
    by (rule connect_text) (simp_all add: authorize_def)
  from exchange_reply [OF this _ _ _ assms(8), of ?p rest "received d"] s w(1)
  obtain q where "exchange ?p (authorize ?r (take n m)) (received d) = Some (Ret (Some (received d2), q))"
    by (auto simp: authorize_def peer_wf_def)
  moreover have "rr_code (received d) = 407" using assms(7) by (simp add: received_def challenge_ok_def)
  ultimately show ?thesis using A assms(1,2) by (simp add: detect_test_def detect_authorized_def Let_def)
qed

section \<open>Properties\<close>

text \<open>
  What a test of the detection decides.  When the parent answers the negotiation with its NTLM
  challenge, the reply to the authenticated request counts: anything but another 407 ends the tests
  with this combination, a 407 that still offers NTLM sends the detection on to the next
  combination, over a new connection, and one that does not ends it without a result.
\<close>

theorem detection_step:
  assumes "proxy_connect getaddrinfo g None = Ret ((sd, Some p), z, g1)" "0 < sd"
    "request_line (c\<lparr>hashnt := nt, hashlm := lm, hashntlm2 := n2, auth_flags := fl\<rparr>) = Ret buf"
    "peer_wf p" "so_data (p_in p) = reply_text d f @ the_ret (headers_text d2) @ rest" "reply_wf d f"
    "challenge_ok rn (c\<lparr>hashnt := nt, hashlm := lm, hashntlm2 := n2, auth_flags := fl\<rparr>) d chal olen m n" "response_wf d2"
  shows "detect_tests getaddrinfo rn url host i ((nt, lm, n2, fl, name) # ts) ign c g =
    (let c' = c\<lparr>hashnt := nt, hashlm := lm, hashntlm2 := n2, auth_flags := fl\<rparr>
     in if rr_code d2 \<noteq> 407 then Some (Ret (Ended ign (Some i), c', g1))
        else if hlist_subcmp_all (rr_headers d2) ''Proxy-Authenticate'' ''NTLM''
             \<or> hlist_subcmp_all (rr_headers d2) ''Proxy-Authenticate'' ''BASIC''
        then detect_tests getaddrinfo rn url host (Suc i) ts ign c' g1
        else Some (Ret (Ended ign None, c', g1)))"
  using detect_test_407 [OF assms, of url host name]
  by (simp add: Let_def detect_verdict_def received_def)

theorem detection_step_witness:
  "\<exists>g1. detect_tests (\<lambda>_. None) sample_rnd ''http://h/'' ''h'' 0 prefs 0 new_auth one_parent =
     Some (Ret (Ended 0 (Some 0), new_auth, g1))"
proof -
  have c: "new_auth\<lparr>hashnt := 0, hashlm := 0, hashntlm2 := 1, auth_flags := 0\<rparr> = new_auth" by (simp add: new_auth_def)
  obtain g1 where g: "proxy_connect (\<lambda>_. None) one_parent None = Ret ((7, Some sample_parent), None, g1)"
    by (simp add: proxy_connect_def Let_def one_parent_def no_globals_def connect_loop.simps parent_attempt_def
        so_connect_def invalidate_cache_def)
  from new_auth_request obtain buf where b: "request_line new_auth = Ret buf" by blast
  from sample_response obtain m n where ch: "challenge_ok sample_rnd new_auth sample_407 sample_chal 200 m n"
    using sample_407_wf(2) by blast
  from detection_step [where c = new_auth and nt = 0 and lm = 0 and ?n2.0 = 1 and fl = 0, unfolded c,
      OF g _ b sample_parent_wf sample_407_wf(1) ch sample_200_wf(1)]
  show ?thesis by (simp add: prefs_def sample_200_wf(2) Let_def)
qed

section \<open>The profile as a configuration\<close>

text \<open>The lines of a profile, with the hashes it uses.\<close>

definition hash_setting :: "string \<Rightarrow> bool \<Rightarrow> string \<Rightarrow> string \<Rightarrow> cline list" where
  "hash_setting key used sp t = (if used then [Setting [] key sp t []] else [])"

definition profile_config :: "string \<Rightarrow> bool \<Rightarrow> string \<Rightarrow> bool \<Rightarrow> string \<Rightarrow> bool \<Rightarrow> string \<Rightarrow> cline list" where
  "profile_config name nt a lm b n2 k = Setting [] ''Auth'' ''            '' name [] # hash_setting ''PassNT'' nt ''          '' a
     @ hash_setting ''PassLM'' lm ''          '' b @ hash_setting ''PassNTLMv2'' n2 ''      '' k"

lemma prefs_choice:
  "(nt, lm, n2, fl, name) \<in> set prefs \<Longrightarrow>
   hash_choice name = Some (n2, nt, lm) \<and> fl = 0 \<and> list_all c_isalnum name \<and> name \<noteq> [] \<and> length name < 10"
proof -
  have "list_all (\<lambda>(nt, lm, n2, fl, name). hash_choice name = Some (n2, nt, lm) \<and> fl = 0 \<and> list_all c_isalnum name
    \<and> name \<noteq> [] \<and> length name < 10) prefs"
    by code_simp
  then show "(nt, lm, n2, fl, name) \<in> set prefs \<Longrightarrow> ?thesis" by (auto simp: list_all_iff)
qed

lemma setting_wf:
  assumes "key \<in> {''Auth'', ''PassNT'', ''PassLM'', ''PassNTLMv2''}" "sp \<in> {''            '', ''          '', ''      ''}"
    "list_all c_isalnum v" "v \<noteq> []" "length v < 100"
  shows "line_wf (Setting [] key sp v [])"
proof -
  have k: "list_all c_isalnum key" "key \<noteq> []" "length key < 20" using assms(1) by (elim insertE; code_simp; simp)+
  have s: "spaces sp" "sp \<noteq> []" "length sp < 20" "LF \<notin> set sp" "NUL \<notin> set sp"
    using assms(2) by (auto simp: spaces_def c_isspace_def)
  show ?thesis using alnum_text [OF assms(3,4)] alnum_text [OF k(1,2)] k s assms(3-5)
    by (simp add: line_wf_def spaces_def tail_ok_def)
qed

definition profile_options :: "string \<Rightarrow> bool \<Rightarrow> string \<Rightarrow> bool \<Rightarrow> string \<Rightarrow> bool \<Rightarrow> string \<Rightarrow> hlist_t" where
  "profile_options name nt a lm b n2 k = concat (map line_option (profile_config name nt a lm b n2 k))"

lemma profile_options_get:
  "hlist_get (profile_options name nt a lm b n2 k) ''Auth'' = Some name"
  "hlist_get (profile_options name nt a lm b n2 k) ''PassNT'' = (if nt then Some a else None)"
  "hlist_get (profile_options name nt a lm b n2 k) ''PassLM'' = (if lm then Some b else None)"
  "hlist_get (profile_options name nt a lm b n2 k) ''PassNTLMv2'' = (if n2 then Some k else None)"
  "hlist_get (profile_options name nt a lm b n2 k) ''Password'' = None"
  by (simp_all add: profile_options_def profile_config_def hash_setting_def hlist_add_def strcaseeq_def c_tolower_def c_isupper_def)

lemma profile_printed:
  assumes "(nt, lm, n2, fl, name) \<in> set prefs" "printmem (passnt c) 16 8 = Ret a" "printmem (passlm c) 16 8 = Ret b"
    "printmem (passntlm2 c) 16 8 = Ret k"
  shows "profile_lines (nt, lm, n2, fl, name) c = Ret (config_text (profile_config name (nt \<noteq> 0) a (lm \<noteq> 0) b (n2 \<noteq> 0) k))"
  using prefs_choice [OF assms(1)] assms(2-4)
  by (simp add: profile_lines_def hash_line_def config_text_def profile_config_def hash_setting_def)

text \<open>
  C29: the profile that is found configures the proxy.  The lines of a profile, used as a configuration
  file, choose exactly the combination of hashes that the parent accepted, with the hashes that were
  tried, and nothing else.
\<close>

theorem detected_profile_configures:
  assumes "(nt, lm, n2, fl, name) \<in> set prefs" "passnt c = hash_field x" "passlm c = hash_field y" "passntlm2 c = hash_field z"
    "length x = 16" "length y = 16" "length z = 16"
    "mn_auth t = []" "mn_password t = []" "mn_passnt t = []" "mn_passlm t = []" "mn_passntlm2 t = []" "no_hashes (creds_of t)"
  shows "\<exists>conf cf t1 t2. profile_lines (nt, lm, n2, fl, name) c = Ret conf \<and> config_open (Some conf) = Ret (Some cf)
    \<and> main_auth (config_strings (t\<lparr>mn_cf := Some cf\<rparr>)) = going t1 \<and> main_hashes t1 = going t2
    \<and> hashnt (creds_of t2) = nt \<and> hashlm (creds_of t2) = lm \<and> hashntlm2 (creds_of t2) = n2
    \<and> passnt (creds_of t2) = (if nt \<noteq> 0 then passnt c else zero_bytes)
    \<and> passlm (creds_of t2) = (if lm \<noteq> 0 then passlm c else zero_bytes)
    \<and> passntlm2 (creds_of t2) = (if n2 \<noteq> 0 then passntlm2 c else zero_bytes)"
proof -
  obtain a where a: "printmem (hash_field x) 16 8 = Ret a" "length a = 32" "list_all c_isalnum a"
    "hash_text zero_bytes a = going (hash_field x)" using hash_printed [OF assms(5)] by blast
  obtain b where b: "printmem (hash_field y) 16 8 = Ret b" "length b = 32" "list_all c_isalnum b"
    "hash_text zero_bytes b = going (hash_field y)" using hash_printed [OF assms(6)] by blast
  obtain k where k: "printmem (hash_field z) 16 8 = Ret k" "length k = 32" "list_all c_isalnum k"
    "hash_text zero_bytes k = going (hash_field z)" using hash_printed [OF assms(7)] by blast
  note p = prefs_choice [OF assms(1)]
  let ?ls = "profile_config name (nt \<noteq> 0) a (lm \<noteq> 0) b (n2 \<noteq> 0) k"
  let ?opts = "profile_options name (nt \<noteq> 0) a (lm \<noteq> 0) b (n2 \<noteq> 0) k"
  have lines: "profile_lines (nt, lm, n2, fl, name) c = Ret (config_text ?ls)"
    using profile_printed [OF assms(1), of c a b k] assms(2-4) a(1) b(1) k(1) by simp
  have "a \<noteq> []" "b \<noteq> []" "k \<noteq> []" using a(2) b(2) k(2) by auto
  then have "\<forall>l \<in> set ?ls. line_wf l" using p a(2,3) b(2,3) k(2,3)
    by (auto simp: profile_config_def hash_setting_def intro!: setting_wf)
  from config_open_lines [OF this, of "[]"] have conf: "config_open (Some (config_text ?ls)) = Ret (Some \<lparr>cf_options = ?opts\<rparr>)"
    by (simp add: profile_options_def)
  let ?t = "config_strings (t\<lparr>mn_cf := Some \<lparr>cf_options = ?opts\<rparr>\<rparr>)"
  have t: "mn_auth ?t = name" "mn_password ?t = []" "mn_passnt ?t = (if nt \<noteq> 0 then a else [])"
    "mn_passlm ?t = (if lm \<noteq> 0 then b else [])" "mn_passntlm2 ?t = (if n2 \<noteq> 0 then k else [])" "creds_of ?t = creds_of t"
    using config_strings_with [of ?opts t] assms(8-12) a(2) b(2) k(2) p
    by (auto simp: with_options_def setting_def from_file_def profile_options_get minibuf_def creds_of_def)
  let ?c1 = "(creds_of t)\<lparr>hashntlm2 := n2, hashnt := nt, hashlm := lm\<rparr>"
  let ?t1 = "with_creds ?c1 ?t"
  have auth: "main_auth ?t = going ?t1" using t(1,6) p by (simp add: main_auth_def)
  have f: "mn_password ?t1 = []" "mn_passnt ?t1 = mn_passnt ?t" "mn_passlm ?t1 = mn_passlm ?t" "mn_passntlm2 ?t1 = mn_passntlm2 ?t"
    using t(2) by (simp_all add: with_creds_def)
  have "hash_text zero_bytes [] = going zero_bytes" by (simp add: hash_text_def)
  then have "main_hashes ?t1 = going (with_creds (?c1\<lparr>passntlm2 := (if n2 \<noteq> 0 then hash_field z else zero_bytes),
      passnt := (if nt \<noteq> 0 then hash_field x else zero_bytes), passlm := (if lm \<noteq> 0 then hash_field y else zero_bytes)\<rparr>) ?t1)"
    using f t(3-5) a(4) b(4) k(4) assms(13) by (simp add: main_hashes_def no_hashes_def Let_def)
  with lines conf auth assms(2-4) show ?thesis by simp
qed

theorem detected_profile_configures_witness:
  "\<exists>conf cf t1 t2. profile_lines (2, 0, 0, 0, ''NTLM2SR'') new_auth = Ret conf \<and> config_open (Some conf) = Ret (Some cf)
    \<and> main_auth (config_strings (main_init\<lparr>mn_cf := Some cf\<rparr>)) = going t1 \<and> main_hashes t1 = going t2
    \<and> hashnt (creds_of t2) = 2"
proof -
  have z: "zero_bytes = hash_field (replicate 16 0)"
    by (simp add: zero_bytes_def hash_field_def flip: replicate_add)
  have n: "passnt new_auth = hash_field (replicate 16 0)" "passlm new_auth = hash_field (replicate 16 0)"
    "passntlm2 new_auth = hash_field (replicate 16 0)" "no_hashes (creds_of main_init)"
    by (simp_all add: new_auth_def no_hashes_def main_init_def creds_of_def no_globals_def flip: z)
  from detected_profile_configures [of 2 0 0 0 "''NTLM2SR''" new_auth _ _ _ main_init, OF _ n(1-3)] n(4)
  show ?thesis by (simp add: prefs_def main_init_def) blast
qed

end
