(* ===== verification/Scanner.thy ===== *)
theory Scanner
  imports Request Options "HOL-Library.Signed_Division"
begin

text \<open>
  scanner.c: scanner_hook, which looks for the progress page of the parent's virus scanner, waits
  until the scan is over and asks for the file itself.  The connection to the parent is its
  descriptor and peer, the client is what has been written to it.  The buffer is modelled with
  its contents: \<open>fresh\<close> is what realloc leaves in the part it adds, and the reallocation succeeds.
\<close>

abbreviation SAMPLE :: nat where "SAMPLE \<equiv> 4096"
abbreviation PLUG_SENDHEAD :: int where "PLUG_SENDHEAD \<equiv> 1"
abbreviation PLUG_SENDDATA :: int where "PLUG_SENDDATA \<equiv> 2"
abbreviation PLUG_ERROR :: int where "PLUG_ERROR \<equiv> 0x8000"

section \<open>Which responses\<close>

text \<open>The responses that are examined: complete pages of unknown length on a closing connection.\<close>

definition scan_wanted :: "rr_data_s \<Rightarrow> rr_data_s \<Rightarrow> bool c_result" where
  "scan_wanted request response =
     (if rr_req request = 0 \<or> rr_code response \<noteq> 200 then Ret False
      else c_bind (http_has_body (Some request) (Some response)) (\<lambda>n.
        Ret (n = -1 \<and> \<not> hlist_subcmp (rr_headers response) ''Transfer-Encoding'' ''chunked''
             \<and> hlist_subcmp (rr_headers response) ''Proxy-Connection'' ''close'')))"

text \<open>An agent that matches a pattern of \<open>scanner_agent_list\<close> lifts the limit.\<close>

fun agent_matches :: "string plist_t \<Rightarrow> string \<Rightarrow> bool c_result" where
  "agent_matches [] tmp = Ret False"
| "agent_matches (t # ts) tmp =
     (case paux t of
        None \<Rightarrow> UB
      | Some pat \<Rightarrow> if fnmatch (lowercase pat) tmp then Ret True else agent_matches ts tmp)"

definition agent_says :: "string plist_s \<Rightarrow> string \<Rightarrow> bool option c_result" where
  "agent_says t tmp = (case paux t of
       None \<Rightarrow> UB
     | Some pat \<Rightarrow> Ret (if fnmatch (lowercase pat) tmp then Some True else None))"

interpretation ag: rule_list agent_matches agent_says False
proof unfold_locales
  fix t ts x
  show "agent_matches (t # ts) x =
      (case agent_says t x of UB \<Rightarrow> UB | Ret None \<Rightarrow> agent_matches ts x | Ret (Some v) \<Rightarrow> Ret v)"
    by (cases "paux t") (simp_all add: agent_says_def)
qed simp

lemma agent_matches_ex:
  "list_all (\<lambda>t. paux t \<noteq> None) l \<Longrightarrow>
   agent_matches l tmp = Ret (list_ex (\<lambda>t. fnmatch (lowercase (the (paux t))) tmp) l)"
  unfolding find_list_ex [symmetric]
  by (rule ag.check_find) (auto simp: agent_says_def list_all_iff)

definition scan_limit :: "string plist_t \<Rightarrow> rr_data_s \<Rightarrow> int \<Rightarrow> int c_result" where
  "scan_limit agents request maxKBs =
     (case hlist_get (rr_headers request) ''User-Agent'' of
        None \<Rightarrow> Ret maxKBs
      | Some tmp \<Rightarrow> c_bind (agent_matches agents (lowercase tmp)) (\<lambda>m. Ret (if m then 0 else maxKBs)))"

section \<open>The sample\<close>

text \<open>The loop over \<open>read\<close>, with what has been read so far.\<close>

function scan_sample :: "string \<Rightarrow> sock \<Rightarrow> string \<times> sock" where
  "scan_sample buf s =
     (case so_read (int SAMPLE - int (length buf) - 1) s of (n, d, s') \<Rightarrow>
        if n > 0 \<and> length (buf @ d) < SAMPLE - 1 then scan_sample (buf @ d) s'
        else (if n > 0 then buf @ d else buf, s'))"
  by pat_completeness auto
termination
  by (relation "measure (\<lambda>(_, s). so_size s)") (auto intro: so_read_size [OF sym])

declare scan_sample.simps [simp del]

text \<open>The identifier of the progress page in the sample: what the first quotes after its name enclose.\<close>

definition isa_id :: "string \<Rightarrow> string option c_result" where
  "isa_id buf =
     (if strstr buf ''<title>Downloading status</title>'' = None then Ret None
      else case strstr buf ''ISAServerUniqueID='' of
        None \<Rightarrow> Ret None
      | Some pos \<Rightarrow>
          (case strchr pos CHR 0x22 of
             None \<Rightarrow> Ret None
           | Some q \<Rightarrow>
               let rest = drop 1 q; i = strcspn rest [CHR 0x22]
               in if i < length rest then c_bind (substr rest 0 (int i)) (\<lambda>s. Ret (Some s)) else Ret None))"

section \<open>Waiting\<close>

record scan_s =
  sc_buf :: string
  sc_len :: nat
  sc_in :: sock
  sc_line :: string
  sc_lsize :: nat
  sc_filesize :: int
  sc_progress :: int
  sc_done :: bool
  sc_initiated :: bool
  sc_out :: sink

text \<open>
  A line is appended to the buffer, after the C string it holds; the buffer is doubled once when
  the counted length asks for it.
\<close>

definition scan_append :: "(nat \<Rightarrow> char) \<Rightarrow> scan_s \<Rightarrow> scan_s c_result" where
  "scan_append fresh st =
     (let c = length (sc_line st); n = length (sc_buf st)
      in if n \<le> sc_len st + c \<and> 2 ^ 30 \<le> n then UB
         else let buf = (if n \<le> sc_len st + c then sc_buf st @ map fresh [n..<2 * n] else sc_buf st);
                  k = length (cstr_of buf)
              in if length buf < k + c + 1 then UB
                 else Ret (st\<lparr>sc_buf := cstr_of buf @ sc_line st @ NUL # drop (k + c + 1) buf,
                              sc_len := sc_len st + c\<rparr>))"

text \<open>The character at \<open>pos[i]\<close> of a string of at least \<open>i\<close> characters, a digit or not.\<close>

definition digit_at :: "string \<Rightarrow> nat \<Rightarrow> bool" where
  "digit_at pos i \<longleftrightarrow> c_isdigit ((pos @ [NUL]) ! i)"

definition scan_updates :: "string \<Rightarrow> bool" where
  "scan_updates line = (case strstr line ''UpdatePage('' of None \<Rightarrow> False | Some pos \<Rightarrow> digit_at pos 11)"

definition scan_finished :: "string \<Rightarrow> bool" where
  "scan_finished line = (case strstr line ''DownloadFinished('' of None \<Rightarrow> False | Some pos \<Rightarrow> digit_at pos 17)"

text \<open>
  The line that tells the size, which starts the notifications with a status line.  Whether the
  loop is left, and the state; with \<open>debug\<close> an unknown size leaves it.
\<close>

definition scan_found :: "bool \<Rightarrow> int \<Rightarrow> string option \<Rightarrow> scan_s \<Rightarrow> (bool \<times> scan_s) c_result" where
  "scan_found debug maxKBs http st =
     (case strstr (sc_line st) ''To be downloaded'' of
        None \<Rightarrow> Ret (False, st)
      | Some pos \<Rightarrow>
          let fs = atoll (drop 16 pos); st1 = st\<lparr>sc_filesize := fs\<rparr>
          in if debug \<and> fs \<le> 0 then Ret (True, st1)
             else if maxKBs \<noteq> 0 \<and> (maxKBs = 1 \<or> fs sdiv 1024 > maxKBs) then Ret (True, st1)
             else case http of
               None \<Rightarrow> UB
             | Some h \<Rightarrow> Ret (False, st1\<lparr>sc_initiated := True,
                 sc_out := snd (so_write (take 49 (h @ '' 200 OK'' @ [CR, LF])) (sc_out st1))\<rparr>))"

text \<open>The notification header, and whether too much has been downloaded of a file of unknown size.\<close>

definition notification :: "int \<Rightarrow> int \<Rightarrow> string" where
  "notification progress filesize =
     take 49 (''ISA-Scanner: '' @ show_int progress @ '' of '' @ show_int filesize @ [CR, LF])"

definition scan_notify :: "int \<Rightarrow> scan_s \<Rightarrow> bool \<times> scan_s" where
  "scan_notify maxKBs st =
     (if \<not> sc_initiated st then (True, st)
      else let st1 = (if sc_done st then st
                      else let p = atoll (drop 12 (sc_line st))
                           in st\<lparr>sc_progress := p, sc_out := snd (so_write (notification p (sc_filesize st)) (sc_out st))\<rparr>)
           in (sc_filesize st1 = 0 \<and> maxKBs \<noteq> 0 \<and> maxKBs \<noteq> 1 \<and> sc_progress st1 sdiv 1024 > maxKBs, st1))"

text \<open>A line of the page: \<open>i\<close> is what so_recvln has returned for it.\<close>

definition scan_page :: "bool \<Rightarrow> int \<Rightarrow> string option \<Rightarrow> int \<Rightarrow> scan_s \<Rightarrow> (bool \<times> scan_s) c_result" where
  "scan_page debug maxKBs http i st =
     (let up = scan_updates (sc_line st); fin = \<not> up \<and> scan_finished (sc_line st)
      in if i \<ge> 0 \<and> (up \<or> fin) then
           c_bind (scan_found debug maxKBs http (if fin then st\<lparr>sc_done := True\<rparr> else st)) (\<lambda>(brk, st1).
             if brk then Ret (True, st1) else Ret (scan_notify maxKBs st1))
         else Ret (False, st))"

partial_function (option) scan_loop ::
  "(nat \<Rightarrow> char) \<Rightarrow> bool \<Rightarrow> int \<Rightarrow> string option \<Rightarrow> scan_s \<Rightarrow> (int \<times> scan_s) c_prog" where
  "scan_loop fresh debug maxKBs http st =
     (case so_recvln (sc_in st) (sc_lsize st) of (i, buf, n, s) \<Rightarrow>
        case scan_append fresh (st\<lparr>sc_in := s, sc_lsize := n, sc_line := cstr_of buf\<rparr>) of
          UB \<Rightarrow> Some UB
        | Ret st1 \<Rightarrow>
            (case scan_page debug maxKBs http i st1 of
               UB \<Rightarrow> Some UB
             | Ret (brk, st2) \<Rightarrow>
                 if \<not> brk \<and> i > 0 \<and> \<not> sc_done st2 then scan_loop fresh debug maxKBs http st2
                 else Some (Ret (i, st2))))"

section \<open>Fetching the file\<close>

text \<open>
  The location of the file in the last line, between quotes after a comma: \<open>None\<close> when it is
  empty.  A line without one is read from NULL.
\<close>

definition scan_location :: "string \<Rightarrow> string option c_result" where
  "scan_location line =
     (case strstr line [CHR 0x22, CHR '','', CHR 0x22] of
        None \<Rightarrow> UB
      | Some p \<Rightarrow>
          let pos = drop 3 p
          in if strchr pos CHR 0x22 = None then UB
             else let c = strcspn pos [CHR 0x22]
                  in if c = 0 then Ret None else c_bind (substr pos 0 (int c)) (\<lambda>s. Ret (Some s)))"

definition scan_post :: "string \<Rightarrow> string \<Rightarrow> string \<Rightarrow> string" where
  "scan_post isaid loc url =
     take (BUFSIZE - 2) (isaid @ ''url='' @ urlencode loc @ ''&'' @ isaid @ ''SaveToDisk=YES&'' @ isaid
       @ ''Orig='' @ urlencode url)"

text \<open>\<open>hlist_mod\<close> whose result is not used: a list that is empty stays so.\<close>

definition hlist_mod_in_place :: "string \<Rightarrow> string \<Rightarrow> hlist_t \<Rightarrow> hlist_t" where
  "hlist_mod_in_place k v l = (if l = [] then [] else hlist_mod l k v True)"

definition scan_request :: "rr_data_s \<Rightarrow> string \<Rightarrow> string \<Rightarrow> rr_data_s c_result" where
  "scan_request request url post =
     c_bind (dup_rr_data (Some request)) (\<lambda>d. case d of None \<Rightarrow> UB | Some newreq \<Rightarrow>
       Ret (newreq\<lparr>rr_method := Some ''POST'', rr_headers :=
         hlist_mod_in_place ''Content-Length'' (show_nat (length post))
           (hlist_mod_in_place ''Content-Type'' ''application/x-www-form-urlencoded''
             (hlist_mod_in_place ''Referer'' url (rr_headers newreq)))\<rparr>))"

text \<open>
  The new connection with its handshake.  A descriptor that is not open fails.
\<close>

definition scan_connect ::
  "gai \<Rightarrow> rnd \<Rightarrow> globals \<Rightarrow> auth_s \<Rightarrow> rr_data_s \<Rightarrow> auth_result c_prog" where
  "scan_connect getaddrinfo rn g creds newreq =
     p_bind (Some (proxy_connect getaddrinfo g (Some creds))) (\<lambda>((nc, q), c, g1).
       let creds1 = (case c of None \<Rightarrow> creds | Some c' \<Rightarrow> c')
       in case q of
            None \<Rightarrow> Some (Ret \<lparr>ar_rc = False, ar_fd = nc, ar_peer = None, ar_request = newreq,
                      ar_response = Some new_rr_data, ar_creds = creds1, ar_globals = g1\<rparr>)
          | Some p \<Rightarrow> proxy_authenticate getaddrinfo rn g1 nc p newreq (Some new_rr_data) creds1)"

text \<open>
  The real request with its body: the connection and the reply when there is one.  A failed write
  of the body is not zero and passes.
\<close>

definition scan_send :: "string \<Rightarrow> auth_result \<Rightarrow> (peer \<times> rr_data_s) option c_prog" where
  "scan_send post r =
     (case ar_response r of
        None \<Rightarrow> Some UB
      | Some newres \<Rightarrow>
          (case ar_peer r of
             None \<Rightarrow> Some (Ret None)
           | Some p \<Rightarrow>
               if \<not> ar_rc r \<or> rr_code newres \<noteq> 407 \<or> ar_fd r = 0 then Some (Ret None)
               else p_bind (Some (headers_send (p_out p) (ar_request r))) (\<lambda>(ok, k).
                 if \<not> ok then Some (Ret None)
                 else case so_write post k of (j, k') \<Rightarrow>
                   if j = 0 then Some (Ret None)
                   else p_bind (headers_recv (p_in p) (the (reset_rr_data (Some newres)))) (\<lambda>(ok, d, s).
                     Some (Ret (if ok then Some (\<lparr>p_in = s, p_out = k'\<rparr>, d) else None))))))"

text \<open>The reply as the response of the original request.\<close>

definition scan_response :: "scan_s \<Rightarrow> rr_data_s \<Rightarrow> rr_data_s" where
  "scan_response st d =
     (let sz = (if sc_filesize st \<noteq> 0 then sc_filesize st else sc_progress st);
          hs = (if sc_filesize st \<noteq> 0 \<or> sc_progress st \<noteq> 0
                then hlist_mod (rr_headers d) ''Content-Length'' (take 19 (show_int sz)) True
                else rr_headers d)
      in d\<lparr>rr_headers := hs, rr_skip_http := (if sc_initiated st then 1 else 0)\<rparr>)"

section \<open>scanner\_hook\<close>

record hook_s =
  hk_ok :: int
  hk_client :: sink
  hk_fd :: int
  hk_peer :: peer
  hk_response :: rr_data_s
  hk_creds :: auth_s
  hk_globals :: globals

text \<open>What has been read is sent on when it is not replaced.\<close>

definition scan_flush :: "string \<Rightarrow> nat \<Rightarrow> hook_s \<Rightarrow> hook_s c_result" where
  "scan_flush buf len h =
     (if len = 0 then Ret h
      else c_bind (headers_send (hk_client h) (hk_response h)) (\<lambda>(ok, k).
        if \<not> ok then Ret (h\<lparr>hk_client := k, hk_ok := PLUG_ERROR\<rparr>)
        else if length buf < len then UB
        else case so_write (take len buf) k of (sz, k') \<Rightarrow>
          Ret (h\<lparr>hk_client := k', hk_ok := (if sz > 0 then PLUG_SENDDATA else PLUG_ERROR)\<rparr>)))"

text \<open>The end of a scan: the file, or what has been read.\<close>

definition scan_end ::
  "gai \<Rightarrow> rnd \<Rightarrow> string \<Rightarrow> rr_data_s \<Rightarrow> int \<Rightarrow> scan_s \<Rightarrow> hook_s \<Rightarrow> hook_s c_prog" where
  "scan_end getaddrinfo rn isaid request i st h =
     p_bind (Some (if i \<ge> 0 \<and> sc_done st then scan_location (sc_line st) else Ret None)) (\<lambda>loc.
     case loc of
       None \<Rightarrow> Some (scan_flush (sc_buf st) (sc_len st) h)
     | Some l \<Rightarrow>
         (case rr_url request of
            None \<Rightarrow> Some UB
          | Some url \<Rightarrow>
              p_bind (Some (scan_request request url (scan_post isaid l url))) (\<lambda>newreq.
              p_bind (scan_connect getaddrinfo rn (hk_globals h) (hk_creds h) newreq) (\<lambda>r.
              let h1 = h\<lparr>hk_creds := ar_creds r, hk_globals := ar_globals r\<rparr>
              in p_bind (scan_send (scan_post isaid l url) r) (\<lambda>fetched.
                 case fetched of
                   None \<Rightarrow> Some (scan_flush (sc_buf st) (sc_len st) h1)
                 | Some (p, d) \<Rightarrow>
                     p_bind (Some (copy_rr_data (Some (hk_response h1)) (Some (scan_response st d)))) (\<lambda>resp.
                       case resp of
                         None \<Rightarrow> Some UB
                       | Some response \<Rightarrow> Some (Ret (h1\<lparr>hk_ok := 3,
                           hk_fd := ar_fd r, hk_peer := p, hk_response := response\<rparr>))))))))"

definition scanner_hook ::
  "gai \<Rightarrow> rnd \<Rightarrow> (nat \<Rightarrow> char) \<Rightarrow> bool \<Rightarrow> string plist_t \<Rightarrow> globals \<Rightarrow> rr_data_s \<Rightarrow> rr_data_s \<Rightarrow> auth_s
    \<Rightarrow> sink \<Rightarrow> int \<Rightarrow> peer \<Rightarrow> int \<Rightarrow> hook_s c_prog" where
  "scanner_hook getaddrinfo rn fresh debug agents g request response creds cd sd p maxKBs =
     (let h = \<lparr>hk_ok = 3, hk_client = cd, hk_fd = sd, hk_peer = p,
                hk_response = response, hk_creds = creds, hk_globals = g\<rparr>
      in p_bind (Some (scan_wanted request response)) (\<lambda>w.
         if \<not> w then Some (Ret h)
         else p_bind (Some (scan_limit agents request maxKBs)) (\<lambda>limit.
           case scan_sample [] (p_in p) of (data, s) \<Rightarrow>
             let buf = data @ replicate (SAMPLE - length data) NUL;
                 h1 = h\<lparr>hk_ok := 1, hk_peer := p\<lparr>p_in := s\<rparr>\<rparr>
             in p_bind (Some (isa_id (cstr_of buf))) (\<lambda>id1.
                case id1 of
                  None \<Rightarrow> Some (scan_flush buf (length data) h1)
                | Some isaid \<Rightarrow>
                    p_bind (scan_loop fresh debug limit (rr_http request)
                        \<lparr>sc_buf = buf, sc_len = length data, sc_in = s, sc_line = [], sc_lsize = BUFSIZE,
                         sc_filesize = 0, sc_progress = 0, sc_done = False, sc_initiated = False, sc_out = cd\<rparr>)
                      (\<lambda>(i, st). scan_end getaddrinfo rn isaid request i st
                         (h1\<lparr>hk_client := sc_out st, hk_peer := p\<lparr>p_in := sc_in st\<rparr>\<rparr>))))))"

section \<open>The hook in forward\_request\<close>

text \<open>
  What forward_request does with the answer of the hook: \<open>plugin\<close> has the bits of what is still to be
  sent.
\<close>

definition plugin_deliver ::
  "int \<Rightarrow> bool \<Rightarrow> sel list \<Rightarrow> rr_data_s \<Rightarrow> bool \<Rightarrow> rr_data_s \<Rightarrow> fwd \<Rightarrow> fwd_step c_prog" where
  "plugin_deliver plugin serialize es d0 conn_alive d2 fw =
     p_bind (if plugin AND PLUG_SENDHEAD \<noteq> 0 then peer_send (fw_client fw) d2
             else Some (Ret (True, fw_client fw))) (\<lambda>(ok, c).
       let fw2 = fw\<lparr>fw_client := c\<rparr>
       in if \<not> ok then Some (Ret (F_leave Ret_stop fw2))
          else p_bind (Some (has_method ''CONNECT'' (Some d0))) (\<lambda>connect.
            if connect \<and> rr_code d2 = 200
            then Some (Ret (F_leave Ret_stop (forward_tunnel_run es fw2)))
            else if plugin AND PLUG_SENDDATA = 0 then Some (Ret (forward_finish serialize conn_alive d2 fw2))
            else p_bind (body_relay (case fw_server fw2 of None \<Rightarrow> dead_peer | Some s \<Rightarrow> s) (fw_client fw2) d0 d2)
                   (\<lambda>(ok, s, c').
              let fw3 = fw2\<lparr>fw_client := c', fw_server := map_option (\<lambda>_. s) (fw_server fw2)\<rparr>
              in Some (Ret (if ok then forward_finish serialize conn_alive d2 fw3 else F_leave Ret_stop fw3)))))"

text \<open>A reply with the scanner plugin on.\<close>

definition forward_scanned ::
  "gai \<Rightarrow> rnd \<Rightarrow> (nat \<Rightarrow> char) \<Rightarrow> bool \<Rightarrow> string plist_t \<Rightarrow> int \<Rightarrow> bool \<Rightarrow> sel list \<Rightarrow> rr_data_s \<Rightarrow> rr_data_s \<Rightarrow> fwd
    \<Rightarrow> fwd_step c_prog" where
  "forward_scanned getaddrinfo rn fresh debug agents maxsize serialize es d0 d1 fw =
     (if rr_code d1 = 407 \<and> (fw_cached fw \<or> fw_noauth fw)
      then Some (Ret (F_retry d0 (fw\<lparr>fw_server := None\<rparr>)))
      else let fw1 = fw\<lparr>fw_authok := (fw_authok fw \<or> \<not> fw_noauth fw \<and> rr_code d1 \<noteq> 407)\<rparr>
           in p_bind (scanner_hook getaddrinfo rn fresh debug agents (fw_globals fw1) d0 d1 (fw_creds fw1)
                  (p_out (fw_client fw1)) (fw_sd fw1) (case fw_server fw1 of None \<Rightarrow> dead_peer | Some s \<Rightarrow> s) maxsize) (\<lambda>h.
                let fw2 = fw1\<lparr>fw_client := (fw_client fw1)\<lparr>p_out := hk_client h\<rparr>, fw_sd := hk_fd h,
                      fw_server := (if fw_server fw1 = None \<and> hk_fd h = fw_sd fw1 then None else Some (hk_peer h)),
                      fw_creds := hk_creds h, fw_globals := hk_globals h\<rparr>;
                    d = hk_response h;
                    conn_alive = hlist_subcmp (rr_headers d) ''Connection'' ''keep-alive''
                in plugin_deliver (hk_ok h) serialize es d0 conn_alive (forward_reply_headers conn_alive d) fw2))"

section \<open>Lemmas\<close>

lemma cstr_of_pad [simp]: "0 < n \<Longrightarrow> cstr_of (d @ replicate n NUL) = cstr_of d"
  by (cases n; induction d) (auto simp: cstr_of_def)

text \<open>The sample is what the buffer has room for.\<close>

lemma scan_sample_reads:
  assumes "sock_wf s" "length buf < 4095"
  shows "\<exists>s'. scan_sample buf s = (buf @ take (4095 - length buf) (so_data s), s')
    \<and> so_after s (take (4095 - length buf) (so_data s)) s'"
  using assms
proof (induction "so_size s" arbitrary: s buf rule: less_induct)
  case less
  let ?n = "4096 - int (length buf) - 1"
  have n: "0 < ?n" using less.prems(2) by simp
  show ?case
  proof (cases "so_data s = []")
    case True
    with so_read_end [OF True less.prems(1), of ?n] n show ?thesis
      by (subst scan_sample.simps) (simp add: less.prems(1))
  next
    case False
    from so_read_some [OF False less.prems(1) n] obtain d s1 where
      R: "so_read ?n s = (int (length d), d, s1)" "d \<noteq> []" "int (length d) \<le> ?n" "so_after s d s1" .
    note A = R(4) [unfolded so_after_def]
    show ?thesis
    proof (cases "length (buf @ d) < 4095")
      case True
      have "so_size s1 < so_size s" using so_read_size [OF R(1)] R(2) by simp
      from less.hyps [OF this _ True] A obtain s' where
        "scan_sample (buf @ d) s1 = ((buf @ d) @ take (4095 - length (buf @ d)) (so_data s1), s')"
        "so_after s1 (take (4095 - length (buf @ d)) (so_data s1)) s'" by blast
      moreover from this(2) have "so_after s (d @ take (4095 - length (buf @ d)) (so_data s1)) s'"
        using so_after_trans [OF R(4)] by blast
      moreover have "take (4095 - length buf) (so_data s) = d @ take (4095 - length (buf @ d)) (so_data s1)"
        using A True by simp
      moreover have "scan_sample buf s = scan_sample (buf @ d) s1"
        by (subst scan_sample.simps) (use R(1,2) True in simp)
      ultimately show ?thesis by simp
    next
      case full: False
      have "take (4095 - length buf) (so_data s) = d" using A full R(3) by simp
      with R full show ?thesis by (subst scan_sample.simps) simp
    qed
  qed
qed

lemma scanner_hook_no_page:
  assumes "scan_wanted request response = Ret True" "scan_limit agents request maxKBs = Ret lim"
    "sock_wf (p_in p)" "isa_id (cstr_of (take 4095 (so_data (p_in p)))) = Ret None" "sk_plan cd = []"
    "headers_text response = Ret t" "- (2 ^ 31) \<le> rr_code response" "rr_code response < 2 ^ 31"
  shows "\<exists>s'. scanner_hook getaddrinfo rn fresh debug agents g request response creds cd sd p maxKBs = Some (Ret
      \<lparr>hk_ok = (if so_data (p_in p) = [] then 1 else 2), hk_client = (if so_data (p_in p) = [] then cd
         else cd\<lparr>sk_out := sk_out cd @ t @ take 4095 (so_data (p_in p))\<rparr>),
       hk_fd = sd, hk_peer = p\<lparr>p_in := s'\<rparr>, hk_response = response, hk_creds = creds, hk_globals = g\<rparr>)
    \<and> so_after (p_in p) (take 4095 (so_data (p_in p))) s'"
proof -
  define d where "d = take 4095 (so_data (p_in p))"
  from scan_sample_reads [OF assms(3), of "[]"] obtain s' where
    S: "scan_sample [] (p_in p) = (d, s')" "so_after (p_in p) d s'" by (auto simp: d_def)
  have c: "cstr_of (d @ replicate (4096 - length d) NUL) = cstr_of d"
    by (rule cstr_of_pad) (simp add: d_def min_def)
  have H: "headers_send cd response = Ret (True, cd\<lparr>sk_out := sk_out cd @ t\<rparr>)"
    by (rule headers_send_ideal [OF assms(6-8,5)])
  have W: "so_write d (cd\<lparr>sk_out := sk_out cd @ t\<rparr>) = (int (length d), cd\<lparr>sk_out := sk_out cd @ t @ d\<rparr>)"
    using so_write_ideal [of "cd\<lparr>sk_out := sk_out cd @ t\<rparr>" d] assms(5) by simp
  have nil: "so_data (p_in p) = [] \<longleftrightarrow> d = []" by (simp add: d_def)
  from S(1) c H W assms(1,2,4) have "scanner_hook getaddrinfo rn fresh debug agents g request response creds cd sd p maxKBs = Some (Ret
      \<lparr>hk_ok = (if d = [] then 1 else 2), hk_client = (if d = [] then cd else cd\<lparr>sk_out := sk_out cd @ t @ d\<rparr>),
       hk_fd = sd, hk_peer = p\<lparr>p_in := s'\<rparr>, hk_response = response, hk_creds = creds, hk_globals = g\<rparr>)"
    unfolding d_def [symmetric] by (simp add: scanner_hook_def Let_def scan_flush_def)
  with S(2) show ?thesis unfolding nil d_def [symmetric] by blast
qed

section \<open>Pages that are not replaced\<close>

lemma plugin_deliver_all: "plugin_deliver 3 = forward_deliver"
  by (intro ext) (simp add: plugin_deliver_def forward_deliver_def cong: if_cong)

lemma forward_scanned_ignored:
  assumes "scan_wanted d0 d1 = Ret False"
  shows "forward_scanned getaddrinfo rn fresh debug agents maxsize serialize es d0 d1 fw =
    forward_reply serialize es d0 d1 fw"
  by (cases fw) (auto simp: forward_scanned_def forward_reply_def scanner_hook_def assms Let_def
    plugin_deliver_all split: option.split)

lemma forward_finish_reply:
  assumes "fw_server fw = Some s" "\<not> sink_closed (p_out s)" "\<not> sink_closed (p_out (fw_client fw))"
  shows "forward_finish serialize (hlist_subcmp (rr_headers (received r)) ''Connection'' ''keep-alive'') (client_reply r) fw =
    forward_end serialize r (fw\<lparr>fw_alive := kept r\<rparr>)"
  using assms by (simp add: forward_finish_def forward_end_def kept_def fwd_closed_def received_def Let_def)

lemma received_headers [simp]: "rr_headers (received r) = rr_headers r" "rr_code (received r) = rr_code r"
  "rr_empty (received r) = 0" "rr_http (received r) = rr_http r" "rr_msg (received r) = rr_msg r"
  "rr_req (received r) = 0" "rr_skip_http (received r) = 0"
  by (simp_all add: received_def new_rr_data_def)

text \<open>A page of unknown length that shows no progress of a scan: what the client gets.\<close>

definition scanned_head :: "bool \<Rightarrow> rr_data_s \<Rightarrow> string \<Rightarrow> rr_data_s" where
  "scanned_head w r body = (if w \<and> body \<noteq> [] then received r else client_reply r)"

lemma forward_scanned_page:
  assumes "response_wf r" "rr_code r \<noteq> 407" "scan_wanted d0 (received r) = Ret True"
    "scan_limit agents d0 maxsize = Ret lim" "isa_id (cstr_of (take 4095 body)) = Ret None"
    "has_method ''HEAD'' (Some d0) = Ret head" "has_method ''CONNECT'' (Some d0) = Ret False"
    "frame_ok (rr_headers (client_reply r)) (no_body head (rr_code r)) (By_close body)"
    "fw_server fw = Some s" "peer_wf (fw_client fw)" "peer_wf s" "so_data (p_in s) = body" "\<not> so_err (p_in s)"
  shows "\<exists>s' c'. forward_scanned getaddrinfo rn fresh debug agents maxsize serialize es d0 (received r) fw =
      Some (Ret (forward_end serialize r (after_reply r fw c' s')))
    \<and> moved s [] [] s' \<and> moved (fw_client fw) (so_data (p_in (fw_client fw)))
        (the_ret (headers_text (scanned_head True r body)) @ body) c'"
proof -
  let ?c = "fw_client fw"
  let ?a = "fw_authok fw \<or> \<not> fw_noauth fw \<and> rr_code r \<noteq> 407"
  let ?ka = "hlist_subcmp (rr_headers r) ''Connection'' ''keep-alive''"
  let ?h = "scanned_head True r body"
  obtain hv m where hm: "rr_http r = Some hv" "rr_msg r = Some m"
    using assms(1) by (auto simp: response_wf_def split: option.splits)
  have t: "headers_text ?h = Ret (the_ret (headers_text ?h))"
    using hm by (simp add: headers_text_def Let_def scanned_head_def client_reply_def)
  have code: "- (2 ^ 31) \<le> rr_code ?h" "rr_code ?h < 2 ^ 31"
    using assms(1) by (simp_all add: scanned_head_def client_reply_def response_wf_def)
  define k where "k = (p_out ?c)\<lparr>sk_out := sk_out (p_out ?c) @ the_ret (headers_text (received r)) @ take 4095 body\<rparr>"
  have t0: "headers_text (received r) = Ret (the_ret (headers_text (received r)))"
    using hm by (simp add: headers_text_def Let_def)
  from assms(10,11) have w: "sk_plan (p_out ?c) = []" "sock_wf (p_in s)" by (simp_all add: peer_wf_def)
  from scanner_hook_no_page [OF assms(3,4) w(2) _ w(1) t0, of getaddrinfo rn fresh debug "fw_globals fw" "fw_creds fw" "fw_sd fw"]
    assms(1,5,12) obtain s1 where
    H: "scanner_hook getaddrinfo rn fresh debug agents (fw_globals fw) d0 (received r) (fw_creds fw) (p_out ?c) (fw_sd fw) s maxsize =
      Some (Ret \<lparr>hk_ok = (if body = [] then 1 else 2), hk_client = (if body = [] then p_out ?c else k),
        hk_fd = fw_sd fw, hk_peer = s\<lparr>p_in := s1\<rparr>, hk_response = received r, hk_creds = fw_creds fw, hk_globals = fw_globals fw\<rparr>)"
    "so_after (p_in s) (take 4095 body) s1"
    by (auto simp: response_wf_def k_def)
  define fw0 where "fw0 = fw\<lparr>fw_authok := ?a, fw_client := ?c\<lparr>p_out := (if body = [] then p_out ?c else k)\<rparr>,
    fw_server := Some (s\<lparr>p_in := s1\<rparr>)\<rparr>"
  have F: "forward_scanned getaddrinfo rn fresh debug agents maxsize serialize es d0 (received r) fw =
      plugin_deliver (if body = [] then 1 else 2) serialize es d0 ?ka (client_reply r) fw0"
    using H(1) assms(2,9) unfolding forward_scanned_def fw0_def
    by (cases fw) (simp add: Let_def client_reply_def)
  let ?s1 = "s\<lparr>p_in := s1\<rparr>"
  have S1: "so_data s1 = drop 4095 body" "peer_wf ?s1" "\<not> so_err s1"
    using H(2) assms(11-13) append_take_drop_id [of 4095 body] same_append_eq [of "take 4095 body" "so_data s1" "drop 4095 body"]
    by (simp_all add: so_after_def peer_wf_def del: append_take_drop_id)
  have fin: "forward_finish serialize ?ka (client_reply r) (fw0\<lparr>fw_client := c', fw_server := Some s'\<rparr>) =
      forward_end serialize r (after_reply r fw c' s')" if "peer_wf c'" "peer_wf s'" for c' s'
    using forward_finish_reply [of "fw0\<lparr>fw_client := c', fw_server := Some s'\<rparr>" s' serialize r] that
    by (cases fw) (simp add: peer_wf_open after_reply_def fw0_def)
  have code': "rr_code (client_reply r) = rr_code r" "rr_empty (client_reply r) = 0" by (simp_all add: client_reply_def)
  show ?thesis
  proof (cases "body = []")
    case True
    from peer_send_text [OF t code assms(10)] True obtain c' where
      P: "peer_send ?c (client_reply r) = Some (Ret (True, c'))"
      "moved ?c (so_data (p_in ?c)) (the_ret (headers_text ?h) @ body) c'"
      by (auto simp: scanned_head_def)
    have "plugin_deliver 1 serialize es d0 ?ka (client_reply r) fw0 =
        Some (Ret (forward_finish serialize ?ka (client_reply r) (fw0\<lparr>fw_client := c', fw_server := Some ?s1\<rparr>)))"
      using P(1) assms(7) True by (cases fw) (simp add: plugin_deliver_def fw0_def Let_def)
    moreover have "moved s [] [] ?s1" using S1 True by (simp add: moved_def)
    ultimately show ?thesis using fin [OF moved_wf [OF P(2)] S1(2)] P(2) F True by auto
  next
    case False
    let ?c1 = "?c\<lparr>p_out := k\<rparr>"
    have M: "moved ?c (so_data (p_in ?c)) (the_ret (headers_text ?h) @ take 4095 body) ?c1"
      using assms(10) False by (simp add: moved_def k_def scanned_head_def peer_wf_def)
    have fr: "frame_ok (rr_headers (client_reply r)) (no_body head (rr_code (client_reply r))) (By_close (drop 4095 body))"
      using assms(8) code' by auto
    from body_relay_response [OF code'(2) assms(6) fr S1(2) moved_wf [OF M], of "[]"] S1 obtain s' c' where
      B: "body_relay ?s1 ?c1 d0 (client_reply r) = Some (Ret (True, s', c'))" "moved ?s1 [] [] s'"
      "moved ?c1 (so_data (p_in ?c1)) (drop 4095 body) c'" by auto
    have M2: "moved ?c (so_data (p_in ?c)) (the_ret (headers_text ?h) @ body) c'"
      using moved_trans [OF M, of "so_data (p_in ?c1)" "drop 4095 body" c'] B(3) by simp
    have "plugin_deliver 2 serialize es d0 ?ka (client_reply r) fw0 =
        Some (Ret (forward_finish serialize ?ka (client_reply r) (fw0\<lparr>fw_client := c', fw_server := Some s'\<rparr>)))"
      using B(1) assms(7) False by (cases fw) (simp add: plugin_deliver_def fw0_def Let_def)
    moreover have "moved s [] [] s'" using B(2) by (simp add: moved_def)
    ultimately show ?thesis using fin [OF moved_wf [OF M2] moved_wf [OF B(2)]] M2 F False by auto
  qed
qed

text \<open>Strings a search finds at once.\<close>

lemma strstr_here: "n \<noteq> [] \<Longrightarrow> strstr (n @ r) n = Some (n @ r)"
  by (cases n) auto

lemma strstr_skip: "n \<noteq> [] \<Longrightarrow> hd n \<notin> set a \<Longrightarrow> strstr (a @ n @ r) n = Some (n @ r)"
proof (induction a)
  case (Cons x a)
  then have "take (length n) (x # a @ n @ r) \<noteq> n" by (cases n) auto
  with Cons show ?case by simp
qed (simp add: strstr_here)

section \<open>Properties\<close>

text \<open>
  C15: the scanner plugin is transparent for a page without a scan.  The reply is delimited by the
  end of the connection, and it is one that the hook does not examine, or one that it examines
  without finding the identifier of a scan in the first 4095 bytes.  Then the client gets a head and
  the whole body, which is read partly by the hook and partly after it, and the state after the reply is
  the same as without the plugin.  The head is the same, too, unless the hook itself has sent it
  with what it has read: then it is the head as it was received, with the parent's Connection and
  Proxy-Authenticate headers.  (Pages with an identifier that are not replaced are another matter:
  for those that are given up see scanner\_gives\_up below; when the request for the file fails, the connection
  and the credentials may be others.)
\<close>

theorem scanner_transparent:
  assumes "response_wf r" "rr_code r \<noteq> 407" "scan_wanted d0 (received r) = Ret w"
    "w \<Longrightarrow> scan_limit agents d0 maxsize = Ret lim \<and> isa_id (cstr_of (take 4095 body)) = Ret None"
    "has_method ''HEAD'' (Some d0) = Ret head" "has_method ''CONNECT'' (Some d0) = Ret False"
    "frame_ok (rr_headers (client_reply r)) (no_body head (rr_code r)) (By_close body)"
    "fw_server fw = Some s" "peer_wf (fw_client fw)" "peer_wf s" "so_data (p_in s) = body" "\<not> so_err (p_in s)"
  shows "\<exists>s' c' s'' c''. forward_scanned getaddrinfo rn fresh debug agents maxsize serialize es d0 (received r) fw =
      Some (Ret (forward_end serialize r (after_reply r fw c' s')))
    \<and> moved s [] [] s' \<and> moved (fw_client fw) (so_data (p_in (fw_client fw)))
        (the_ret (headers_text (scanned_head w r body)) @ body) c'
    \<and> forward_reply serialize es d0 (received r) fw = Some (Ret (forward_end serialize r (after_reply r fw c'' s'')))
    \<and> moved s [] [] s'' \<and> moved (fw_client fw) (so_data (p_in (fw_client fw)))
        (the_ret (headers_text (client_reply r)) @ body) c''"
proof -
  from forward_reply_sends [OF assms(1) _ assms(5-10), of "[]" serialize es] assms(2,11,12) obtain s'' c'' where
    N: "forward_reply serialize es d0 (received r) fw = Some (Ret (forward_end serialize r (after_reply r fw c'' s'')))"
    "moved s [] [] s''" "moved (fw_client fw) (so_data (p_in (fw_client fw))) (the_ret (headers_text (client_reply r)) @ body) c''"
    by auto
  show ?thesis
  proof (cases w)
    case True
    from assms(4) [OF this] have L: "scan_limit agents d0 maxsize = Ret lim" "isa_id (cstr_of (take 4095 body)) = Ret None"
      by simp_all
    from True assms(3) have W: "scan_wanted d0 (received r) = Ret True" by simp
    from forward_scanned_page [OF assms(1,2) W L assms(5-12), of getaddrinfo rn fresh debug serialize es] N
    have "w \<longrightarrow> ?thesis" by auto
    with True show ?thesis by simp
  next
    case False
    with assms(3) N show ?thesis by (auto simp: forward_scanned_ignored scanned_head_def)
  qed
qed

section \<open>Lines of the page\<close>

text \<open>
  The state between two lines: the buffer holds a C string that is not longer than the counted
  length, which is within it, and the buffer has grown only as far as the length asked for.
\<close>

definition scan_inv :: "scan_s \<Rightarrow> bool" where
  "scan_inv st \<longleftrightarrow> sock_wf (sc_in st) \<and> 1 < sc_lsize st \<and> NUL \<in> set (sc_buf st)
     \<and> length (cstr_of (sc_buf st)) \<le> sc_len st \<and> sc_len st < length (sc_buf st) \<and> 4096 \<le> length (sc_buf st)
     \<and> (length (sc_buf st) = 4096 \<or> length (sc_buf st) \<le> 2 * sc_len st)"

definition page_line :: "string \<Rightarrow> bool" where
  "page_line l \<longleftrightarrow> (\<exists>a. l = a @ [LF] \<and> LF \<notin> set a \<and> NUL \<notin> set a) \<and> length l \<le> 4096"

lemma cstr_of_grow: "NUL \<in> set b \<Longrightarrow> cstr_of (b @ r) = cstr_of b"
  by (induction b) (auto simp: cstr_of_def)

lemma length_cstr_of: "NUL \<in> set b \<Longrightarrow> length (cstr_of b) < length b"
  by (induction b) (auto simp: cstr_of_def)

lemma scan_append_ok:
  assumes "scan_inv st" "NUL \<notin> set (sc_line st)" "length (sc_line st) \<le> 4096"
    "sc_len st + length (sc_line st) < 2 ^ 30"
  shows "\<exists>b. scan_append fresh st = Ret (st\<lparr>sc_buf := b, sc_len := sc_len st + length (sc_line st)\<rparr>)
    \<and> scan_inv (st\<lparr>sc_buf := b, sc_len := sc_len st + length (sc_line st)\<rparr>)
    \<and> cstr_of b = cstr_of (sc_buf st) @ sc_line st"
proof -
  let ?l = "sc_line st" and ?n = "length (sc_buf st)"
  define buf where "buf = (if ?n \<le> sc_len st + length ?l then sc_buf st @ map fresh [?n..<2 * ?n] else sc_buf st)"
  define b where "b = cstr_of buf @ ?l @ NUL # drop (length (cstr_of buf) + length ?l + 1) buf"
  note I = assms(1) [unfolded scan_inv_def]
  have c: "cstr_of buf = cstr_of (sc_buf st)" using I by (simp add: buf_def cstr_of_grow)
  have len: "length buf = (if ?n \<le> sc_len st + length ?l then 2 * ?n else ?n)" by (simp add: buf_def)
  have fit: "length (cstr_of buf) + length ?l + 1 \<le> length buf" using I assms(3) unfolding c len by (auto split: if_splits)
  have eq: "scan_append fresh st = Ret (st\<lparr>sc_buf := b, sc_len := sc_len st + length ?l\<rparr>)"
    using I assms(4) fit unfolding scan_append_def Let_def buf_def [symmetric] b_def [symmetric] by auto
  have cb: "cstr_of b = cstr_of buf @ ?l"
    using cstr_of_append_NUL [of "cstr_of buf @ ?l"] assms(2) by (simp add: b_def)
  have lb: "length b = length buf" using fit by (simp add: b_def)
  have nb: "NUL \<in> set b" by (simp add: b_def)
  have "scan_inv (st\<lparr>sc_buf := b, sc_len := sc_len st + length ?l\<rparr>)"
    using I assms(3) nb by (simp add: scan_inv_def cb lb) (auto simp: c len split: if_splits)
  with eq cb c show ?thesis by auto
qed

text \<open>What a line leaves alone.\<close>

definition same_scan :: "scan_s \<Rightarrow> scan_s \<Rightarrow> bool" where
  "same_scan st st' \<longleftrightarrow> sc_filesize st' = sc_filesize st \<and> sc_progress st' = sc_progress st
     \<and> sc_done st' = sc_done st \<and> sc_initiated st' = sc_initiated st \<and> sc_out st' = sc_out st"

lemma scan_loop_line:
  assumes "scan_inv st" "so_data (sc_in st) = l @ r" "page_line l" "sc_len st + length l < 2 ^ 30"
  obtains st1 where "scan_inv st1" "so_data (sc_in st1) = r" "sc_len st1 = sc_len st + length l" "sc_line st1 = l"
    "same_scan st st1" "cstr_of (sc_buf st1) = cstr_of (sc_buf st) @ l"
    "scan_loop fresh debug maxKBs http st = (case scan_page debug maxKBs http 1 st1 of UB \<Rightarrow> Some UB
       | Ret (brk, st2) \<Rightarrow> if \<not> brk \<and> \<not> sc_done st2 then scan_loop fresh debug maxKBs http st2 else Some (Ret (1, st2)))"
proof -
  from assms(3) obtain a where a: "l = a @ [LF]" "LF \<notin> set a" "NUL \<notin> set a" and le: "length l \<le> 4096"
    by (auto simp: page_line_def)
  have nul: "NUL \<notin> set l" using a by simp
  note I = assms(1) [unfolded scan_inv_def]
  from I a assms(2) have pre: "sock_wf (sc_in st)" "so_data (sc_in st) = a @ LF # r" "1 < sc_lsize st" by simp_all
  obtain n' s' where
    R: "so_recvln (sc_in st) (sc_lsize st) = (1, l, n', s')" "so_after (sc_in st) l s'" "so_data s' = r" "sc_lsize st \<le> n'"
    using so_recvln_line [OF pre(1,2) a(2) pre(3)] unfolding a(1) by blast
  let ?st = "st\<lparr>sc_in := s', sc_lsize := n', sc_line := l\<rparr>"
  have "scan_inv ?st" using I R so_after_wf [OF R(2)] by (simp add: scan_inv_def)
  from scan_append_ok [OF this, of fresh] nul le assms(4) obtain b where
    A: "scan_append fresh ?st = Ret (?st\<lparr>sc_buf := b, sc_len := sc_len st + length l\<rparr>)"
    "scan_inv (?st\<lparr>sc_buf := b, sc_len := sc_len st + length l\<rparr>)" "cstr_of b = cstr_of (sc_buf st) @ l" by auto
  show thesis
    by (rule that [OF A(2)])
      (use R A(1,3) nul in \<open>simp_all add: same_scan_def cstr_of_id scan_loop.simps [of fresh debug maxKBs http st]
        split: c_result.split\<close>)
qed

text \<open>Lines that say nothing, and reports of progress.\<close>

definition noise :: "string \<Rightarrow> bool" where
  "noise l \<longleftrightarrow> \<not> scan_updates l \<and> \<not> scan_finished l"

definition report :: "string \<Rightarrow> bool" where
  "report l \<longleftrightarrow> scan_updates l \<and> strstr l ''To be downloaded'' = None"

definition note_of :: "int \<Rightarrow> string \<Rightarrow> string" where
  "note_of fs l = (if scan_updates l then notification (atoll (drop 12 l)) fs else [])"

lemma scan_page_noise: "noise (sc_line st) \<Longrightarrow> scan_page debug maxKBs http 1 st = Ret (False, st)"
  by (simp add: scan_page_def noise_def Let_def)

lemma scan_page_report:
  assumes "report (sc_line st)" "sc_initiated st" "\<not> sc_done st" "sc_filesize st \<noteq> 0" "sk_plan (sc_out st) = []"
  shows "scan_page debug maxKBs http 1 st = Ret (False, st\<lparr>sc_progress := atoll (drop 12 (sc_line st)),
    sc_out := (sc_out st)\<lparr>sk_out := sk_out (sc_out st) @ note_of (sc_filesize st) (sc_line st)\<rparr>\<rparr>)"
  using assms by (simp add: scan_page_def report_def scan_found_def scan_notify_def note_of_def so_write_ideal Let_def)

lemma scan_page_announce:
  assumes "scan_updates (sc_line st)" "strstr (sc_line st) ''To be downloaded'' = Some pos" "\<not> sc_done st"
    "0 < atoll (drop 16 pos)" "maxKBs = 0 \<or> (maxKBs \<noteq> 1 \<and> atoll (drop 16 pos) sdiv 1024 \<le> maxKBs)"
    "sk_plan (sc_out st) = []"
  shows "scan_page debug maxKBs (Some h) 1 st = Ret (False, st\<lparr>sc_filesize := atoll (drop 16 pos), sc_initiated := True,
    sc_progress := atoll (drop 12 (sc_line st)), sc_out := (sc_out st)\<lparr>sk_out := sk_out (sc_out st)
      @ take 49 (h @ '' 200 OK'' @ [CR, LF]) @ note_of (atoll (drop 16 pos)) (sc_line st)\<rparr>\<rparr>)"
  using assms by (auto simp: scan_page_def scan_found_def scan_notify_def note_of_def so_write_ideal Let_def)

definition finish :: "string \<Rightarrow> bool" where
  "finish l \<longleftrightarrow> \<not> scan_updates l \<and> scan_finished l \<and> strstr l ''To be downloaded'' = None"

lemma scan_page_finish:
  assumes "finish (sc_line st)" "sc_initiated st" "sc_filesize st \<noteq> 0"
  shows "scan_page debug maxKBs http 1 st = Ret (False, st\<lparr>sc_done := True\<rparr>)"
  using assms by (simp add: scan_page_def finish_def scan_found_def scan_notify_def Let_def)

lemma scan_loop_waits:
  assumes "scan_inv st" "so_data (sc_in st) = concat ls @ r"
    "\<forall>l \<in> set ls. page_line l \<and> (noise l \<or> report l \<and> sc_initiated st \<and> sc_filesize st \<noteq> 0)"
    "sc_len st + length (concat ls) < 2 ^ 30" "\<not> sc_done st" "sk_plan (sc_out st) = []"
  shows "\<exists>st'. scan_loop fresh debug maxKBs http st = scan_loop fresh debug maxKBs http st' \<and> scan_inv st'
    \<and> so_data (sc_in st') = r \<and> sc_len st' = sc_len st + length (concat ls) \<and> sc_filesize st' = sc_filesize st
    \<and> \<not> sc_done st' \<and> sc_initiated st' = sc_initiated st
    \<and> cstr_of (sc_buf st') = cstr_of (sc_buf st) @ concat ls
    \<and> sc_out st' = (sc_out st)\<lparr>sk_out := sk_out (sc_out st) @ concat (map (note_of (sc_filesize st)) ls)\<rparr>"
  using assms
proof (induction ls arbitrary: st)
  case Nil
  then show ?case by (intro exI [of _ st]) simp
next
  case (Cons l ls)
  from Cons.prems(2) have d: "so_data (sc_in st) = l @ (concat ls @ r)" by simp
  from Cons.prems(3,4) have l: "page_line l" "sc_len st + length l < 2 ^ 30" by simp_all
  obtain st1 where S: "scan_inv st1" "so_data (sc_in st1) = concat ls @ r" "sc_len st1 = sc_len st + length l"
    "sc_line st1 = l" "same_scan st st1" "cstr_of (sc_buf st1) = cstr_of (sc_buf st) @ l"
    "scan_loop fresh debug maxKBs http st = (case scan_page debug maxKBs http 1 st1 of UB \<Rightarrow> Some UB
       | Ret (brk, st2) \<Rightarrow> if \<not> brk \<and> \<not> sc_done st2 then scan_loop fresh debug maxKBs http st2 else Some (Ret (1, st2)))"
    by (rule scan_loop_line [OF Cons.prems(1) d l])
  note same = S(5) [unfolded same_scan_def]
  define st2 where "st2 = (if scan_updates l then st1\<lparr>sc_progress := atoll (drop 12 l),
      sc_out := (sc_out st1)\<lparr>sk_out := sk_out (sc_out st1) @ note_of (sc_filesize st1) l\<rparr>\<rparr> else st1)"
  have "scan_page debug maxKBs http 1 st1 = Ret (False, st2)"
    using Cons.prems(3,5,6) same S(4) scan_page_noise [of st1] scan_page_report [of st1]
    by (auto simp: st2_def noise_def report_def)
  moreover have s2: "\<not> sc_done st2" "scan_inv st2" "so_data (sc_in st2) = concat ls @ r" "sc_len st2 = sc_len st + length l"
    "sc_filesize st2 = sc_filesize st" "sc_initiated st2 = sc_initiated st"
    "sc_out st2 = (sc_out st)\<lparr>sk_out := sk_out (sc_out st) @ note_of (sc_filesize st) l\<rparr>" "sk_plan (sc_out st2) = []"
    "cstr_of (sc_buf st2) = cstr_of (sc_buf st) @ l"
    using S(1-3,6) same Cons.prems(5,6) by (auto simp: st2_def note_of_def scan_inv_def)
  ultimately have "scan_loop fresh debug maxKBs http st = scan_loop fresh debug maxKBs http st2" using S(7) by simp
  moreover have "\<forall>x \<in> set ls. page_line x \<and> (noise x \<or> report x \<and> sc_initiated st2 \<and> sc_filesize st2 \<noteq> 0)"
    "sc_len st2 + length (concat ls) < 2 ^ 30"
    using Cons.prems(3,4) s2 by auto
  ultimately show ?case using Cons.IH [OF s2(2,3) _ _ s2(1,8)] s2 by auto
qed

section \<open>A complete page\<close>

text \<open>
  The page of a scan that ends, within a limit: lines that say nothing, the one with the size,
  reports, and the end.
\<close>

definition progress_page :: "int \<Rightarrow> string list \<Rightarrow> string \<Rightarrow> int \<Rightarrow> string list \<Rightarrow> string \<Rightarrow> bool" where
  "progress_page lim ls1 an fs ls2 fi \<longleftrightarrow> (\<forall>l \<in> set ls1. page_line l \<and> noise l)
     \<and> page_line an \<and> scan_updates an
     \<and> (case strstr an ''To be downloaded'' of None \<Rightarrow> False | Some pos \<Rightarrow> atoll (drop 16 pos) = fs)
     \<and> 0 < fs \<and> (lim = 0 \<or> (lim \<noteq> 1 \<and> fs sdiv 1024 \<le> lim))
     \<and> (\<forall>l \<in> set ls2. page_line l \<and> (noise l \<or> report l)) \<and> page_line fi \<and> finish fi"

definition page_text :: "string list \<Rightarrow> string \<Rightarrow> string list \<Rightarrow> string \<Rightarrow> string" where
  "page_text ls1 an ls2 fi = concat ls1 @ an @ concat ls2 @ fi"

text \<open>What the client gets while it waits.\<close>

definition waiting_text :: "string \<Rightarrow> string \<Rightarrow> int \<Rightarrow> string list \<Rightarrow> string" where
  "waiting_text h an fs ls2 = take 49 (h @ '' 200 OK'' @ [CR, LF]) @ concat (map (note_of fs) (an # ls2))"

lemma scan_loop_page:
  assumes "scan_inv st" "progress_page lim ls1 an fs ls2 fi" "so_data (sc_in st) = page_text ls1 an ls2 fi @ r"
    "sc_len st + length (page_text ls1 an ls2 fi) < 2 ^ 30" "\<not> sc_done st" "sk_plan (sc_out st) = []"
  shows "\<exists>st'. scan_loop fresh debug lim (Some h) st = Some (Ret (1, st')) \<and> sc_done st' \<and> sc_initiated st'
    \<and> sc_line st' = fi \<and> sc_filesize st' = fs \<and> so_data (sc_in st') = r
    \<and> sc_out st' = (sc_out st)\<lparr>sk_out := sk_out (sc_out st) @ waiting_text h an fs ls2\<rparr>"
proof -
  note P = assms(2) [unfolded progress_page_def]
  have d: "so_data (sc_in st) = concat ls1 @ (an @ concat ls2 @ fi @ r)" using assms(3) by (simp add: page_text_def)
  have len: "sc_len st + length (concat ls1) + length an + length (concat ls2) + length fi < 2 ^ 30"
    using assms(4) by (simp add: page_text_def)
  from scan_loop_waits [OF assms(1) d _ _ assms(5,6), of fresh debug lim "Some h"] P len obtain st1 where
    A: "scan_loop fresh debug lim (Some h) st = scan_loop fresh debug lim (Some h) st1" "scan_inv st1"
    "so_data (sc_in st1) = an @ (concat ls2 @ fi @ r)" "sc_len st1 = sc_len st + length (concat ls1)" "\<not> sc_done st1"
    "sc_out st1 = (sc_out st)\<lparr>sk_out := sk_out (sc_out st) @ concat (map (note_of (sc_filesize st)) ls1)\<rparr>"
    by auto
  have "concat (map (note_of (sc_filesize st)) ls1) = []" using P by (auto simp: note_of_def noise_def)
  with A(6) have o1: "sc_out st1 = sc_out st" by simp
  from P obtain pos where pos: "strstr an ''To be downloaded'' = Some pos" "atoll (drop 16 pos) = fs" "0 < fs"
    "lim = 0 \<or> (lim \<noteq> 1 \<and> fs sdiv 1024 \<le> lim)" "page_line an" "scan_updates an"
    by (auto split: option.splits)
  have l: "sc_len st1 + length an < 2 ^ 30" using A(4) len by simp
  obtain st2 where B: "scan_inv st2" "so_data (sc_in st2) = concat ls2 @ fi @ r" "sc_len st2 = sc_len st1 + length an"
    "sc_line st2 = an" "same_scan st1 st2"
    "scan_loop fresh debug lim (Some h) st1 = (case scan_page debug lim (Some h) 1 st2 of UB \<Rightarrow> Some UB
       | Ret (brk, st3) \<Rightarrow> if \<not> brk \<and> \<not> sc_done st3 then scan_loop fresh debug lim (Some h) st3 else Some (Ret (1, st3)))"
    by (rule scan_loop_line [OF A(2,3) pos(5) l])
  note same2 = B(5) [unfolded same_scan_def]
  define st3 where "st3 = st2\<lparr>sc_filesize := fs, sc_initiated := True, sc_progress := atoll (drop 12 an),
    sc_out := (sc_out st)\<lparr>sk_out := sk_out (sc_out st) @ take 49 (h @ '' 200 OK'' @ [CR, LF]) @ note_of fs an\<rparr>\<rparr>"
  have "scan_page debug lim (Some h) 1 st2 = Ret (False, st3)"
    using scan_page_announce [of st2 pos lim debug h] pos B(4) same2 A(5) o1 assms(6) by (simp add: st3_def)
  then have L1: "scan_loop fresh debug lim (Some h) st = scan_loop fresh debug lim (Some h) st3"
    using A(1,5) B(6) same2 by (simp add: st3_def)
  have I3: "scan_inv st3" "so_data (sc_in st3) = concat ls2 @ (fi @ r)" "\<not> sc_done st3" "sk_plan (sc_out st3) = []"
    "sc_initiated st3" "sc_filesize st3 = fs" "sc_len st3 + length (concat ls2) < 2 ^ 30"
    using B(1-3) A(4,5) same2 assms(6) len by (auto simp: st3_def scan_inv_def)
  have "\<forall>l \<in> set ls2. page_line l \<and> (noise l \<or> report l \<and> sc_initiated st3 \<and> sc_filesize st3 \<noteq> 0)"
    using P I3(5,6) by auto
  from scan_loop_waits [OF I3(1,2) this I3(7,3,4), of fresh debug lim "Some h"] obtain st4 where
    C: "scan_loop fresh debug lim (Some h) st3 = scan_loop fresh debug lim (Some h) st4" "scan_inv st4"
    "so_data (sc_in st4) = fi @ r" "sc_len st4 = sc_len st3 + length (concat ls2)" "sc_filesize st4 = fs"
    "\<not> sc_done st4" "sc_initiated st4"
    "sc_out st4 = (sc_out st3)\<lparr>sk_out := sk_out (sc_out st3) @ concat (map (note_of fs) ls2)\<rparr>"
    using I3(5,6) by auto
  have fi: "page_line fi" "finish fi" using P by simp_all
  have l4: "sc_len st4 + length fi < 2 ^ 30" using C(4) B(3) A(4) len by (simp add: st3_def)
  obtain st5 where D: "so_data (sc_in st5) = r" "sc_line st5 = fi" "same_scan st4 st5"
    "scan_loop fresh debug lim (Some h) st4 = (case scan_page debug lim (Some h) 1 st5 of UB \<Rightarrow> Some UB
       | Ret (brk, st3) \<Rightarrow> if \<not> brk \<and> \<not> sc_done st3 then scan_loop fresh debug lim (Some h) st3 else Some (Ret (1, st3)))"
    by (rule scan_loop_line [OF C(2,3) fi(1) l4])
  note same5 = D(3) [unfolded same_scan_def]
  have "scan_page debug lim (Some h) 1 st5 = Ret (False, st5\<lparr>sc_done := True\<rparr>)"
    using scan_page_finish [of st5 debug lim "Some h"] fi(2) D(2) same5 C(5,7) pos(3) by simp
  then have "scan_loop fresh debug lim (Some h) st = Some (Ret (1, st5\<lparr>sc_done := True\<rparr>))"
    using L1 C(1) D(4) by simp
  then show ?thesis using D(1,2) same5 C(5,7,8) by (simp add: st3_def waiting_text_def)
qed

section \<open>Fetching\<close>

text \<open>The request for the file.\<close>

definition posted :: "rr_data_s \<Rightarrow> string \<Rightarrow> string \<Rightarrow> rr_data_s" where
  "posted request url post = (dup_view request)\<lparr>rr_method := Some ''POST'',
     rr_headers := hlist_mod (hlist_mod (hlist_mod (rr_headers request) ''Referer'' url True)
       ''Content-Type'' ''application/x-www-form-urlencoded'' True) ''Content-Length'' (show_nat (length post)) True\<rparr>"

lemma hlist_mod_nonempty: "l \<noteq> [] \<Longrightarrow> hlist_mod l k v True \<noteq> []"
  by (cases l) (simp_all add: hlist_mod_def hlist_add_def)

lemma scan_request_eq:
  assumes "body_wf request" "rr_headers request \<noteq> []"
  shows "scan_request request url post = Ret (posted request url post)"
proof -
  have "dup_rr_data (Some request) = Ret (Some (dup_view request))"
    using copy_rr_data_eq [OF assms(1), of undefined] by (simp add: dup_view_def)
  moreover have "rr_headers (dup_view request) = rr_headers request" by (simp add: dup_view_def)
  ultimately show ?thesis
    using assms(2) by (simp add: scan_request_def hlist_mod_in_place_def hlist_mod_nonempty posted_def)
qed

lemma posted_simps [simp]:
  "rr_method (posted request url post) = Some ''POST''" "rr_req (posted request url post) = rr_req request"
  "rr_url (posted request url post) = rr_url request" "rr_http (posted request url post) = rr_http request"
  "rr_code (posted request url post) = rr_code request" "dup_view (posted request url post) = posted request url post"
  by (simp_all add: posted_def dup_view_def option.map_comp comp_def)

lemma posted_probe:
  assumes "request_line creds = Ret buf" "body_wf request" "rr_req request \<noteq> 0"
  shows "\<exists>probe. auth_probe (posted request url post) (Some new_rr_data) creds = Ret ((posted request url post)
    \<lparr>rr_headers := probe_headers (rr_headers (posted request url post)) buf\<rparr>, probe)"
proof -
  let ?r = "posted request url post"
  have "\<not> strcaseeq ''HEAD'' ''POST''" "\<not> strcaseeq ''GET'' ''POST''" by code_simp+
  then have m: "has_method ''HEAD'' (Some ?r) = Ret False" "has_method ''GET'' (Some ?r) = Ret False"
    using assms(3) by (simp_all add: has_method_def)
  then obtain n where n: "http_has_body (Some ?r) (Some new_rr_data) = Ret n"
    by (simp add: http_has_body_def request_body_def new_rr_data_def Let_def)
  have w: "body_wf ?r" using assms(2) by (auto simp: body_wf_def posted_def dup_view_def split: option.splits)
  have "?r\<lparr>rr_method := Some ''POST''\<rparr> = ?r" by (simp add: posted_def)
  then show ?thesis
    using auth_probe_eq [OF w assms(1) m(1), of "n \<noteq> 0" "Some new_rr_data" n] n by auto
qed

text \<open>The response that replaces the page.\<close>

definition replaced :: "rr_data_s \<Rightarrow> int \<Rightarrow> rr_data_s" where
  "replaced d fs = (received d)\<lparr>rr_headers := hlist_mod (rr_headers d) ''Content-Length'' (show_int fs) True, rr_skip_http := 1\<rparr>"

lemma replaced_eq:
  assumes "sc_filesize st = fs" "0 < fs" "fs < 2 ^ 63" "sc_initiated st"
  shows "copy_rr_data (Some x) (Some (scan_response st (received d))) = Ret (Some (replaced d fs))"
proof -
  have "length (show_nat (nat fs)) \<le> 19"
    using assms(2,3) by (intro length_show_nat_le) (auto simp: nat_less_iff)
  then have s: "scan_response st (received d) = replaced d fs"
    using assms by (simp add: scan_response_def replaced_def show_int_def Let_def)
  have "body_wf (replaced d fs)" "(replaced d fs)\<lparr>rr_errmsg := None, rr_body := None\<rparr> = replaced d fs"
    "rr_body (replaced d fs) = None"
    by (simp_all add: body_wf_def replaced_def received_def new_rr_data_def)
  with copy_rr_data_eq [of "replaced d fs" x] show ?thesis by (simp add: s)
qed

lemma scan_send_reply:
  assumes "ar_rc r" "ar_response r = Some (received d)" "rr_code d = 407" "ar_fd r \<noteq> 0" "ar_peer r = Some p"
    "headers_text (ar_request r) = Ret t" "- (2 ^ 31) \<le> rr_code (ar_request r)" "rr_code (ar_request r) < 2 ^ 31"
    "sk_plan (p_out p) = []" "post \<noteq> []" "response_wf d2" "sock_wf (p_in p)"
    "so_data (p_in p) = the_ret (headers_text d2) @ rest"
  shows "\<exists>s. scan_send post r = Some (Ret (Some (\<lparr>p_in = s, p_out = (p_out p)\<lparr>sk_out := sk_out (p_out p) @ t @ post\<rparr>\<rparr>, received d2)))
    \<and> so_data s = rest \<and> sock_wf s"
proof -
  have H: "headers_send (p_out p) (ar_request r) = Ret (True, (p_out p)\<lparr>sk_out := sk_out (p_out p) @ t\<rparr>)"
    by (rule headers_send_ideal [OF assms(6-9)])
  have W: "so_write post ((p_out p)\<lparr>sk_out := sk_out (p_out p) @ t\<rparr>) =
      (int (length post), (p_out p)\<lparr>sk_out := sk_out (p_out p) @ t @ post\<rparr>)"
    using so_write_ideal [of "(p_out p)\<lparr>sk_out := sk_out (p_out p) @ t\<rparr>" post] assms(9) by simp
  from headers_recv_reply [OF assms(11-13)] obtain s where
    "headers_recv (p_in p) new_rr_data = Some (Ret (True, received d2, s))" "so_data s = rest" "sock_wf s" by blast
  with H W assms(1-5,10) show ?thesis by (simp add: scan_send_def reset_rr_data_new)
qed

text \<open>The file is asked for on a new connection, after the handshake of the parent.\<close>

lemma scan_fetches:
  assumes "rr_req request \<noteq> 0" "rr_url request = Some url" "rr_http request = Some hv" "body_wf request"
    "- (2 ^ 31) \<le> rr_code request" "rr_code request < 2 ^ 31" "post \<noteq> []"
    "proxy_connect getaddrinfo g (Some creds) = Ret ((nc, Some q), Some creds1, g1)" "nc \<noteq> 0"
    "sk_plan (p_out q) = []" "sock_wf (p_in q)" "request_line creds1 = Ret buf"
    "so_data (p_in q) = reply_text d f @ the_ret (headers_text d2) @ rest" "reply_wf d f"
    "challenge_ok rn creds1 d chal olen m n" "response_wf d2"
  obtains r s where "scan_connect getaddrinfo rn g creds (posted request url post) = Some (Ret r)"
    "ar_creds r = creds1" "ar_globals r = g1" "ar_fd r = nc" "so_data s = rest"
    "scan_send post r = Some (Ret (Some (\<lparr>p_in = s, p_out = (p_out q)\<lparr>sk_out := sk_out (p_out q)
         @ the_ret (headers_text ((posted request url post)
             \<lparr>rr_headers := probe_headers (rr_headers (posted request url post)) buf\<rparr>))
         @ the_ret (headers_text (authorize (posted request url post) (take n m))) @ post\<rparr>\<rparr>, received d2)))"
proof -
  let ?r = "posted request url post"
  let ?o = "(p_out q)\<lparr>sk_out := sk_out (p_out q)
     @ the_ret (headers_text (?r\<lparr>rr_headers := probe_headers (rr_headers ?r) buf\<rparr>))\<rparr>"
  from posted_probe [OF assms(12,4,1), of url post] obtain probe where
    P: "auth_probe ?r (Some new_rr_data) creds1 = Ret (?r\<lparr>rr_headers := probe_headers (rr_headers ?r) buf\<rparr>, probe)" by blast
  have T: "headers_text (?r\<lparr>rr_headers := hs\<rparr>) = Ret (the_ret (headers_text (?r\<lparr>rr_headers := hs\<rparr>)))" for hs
    using assms(1-3) by (simp add: headers_text_def Let_def)
  from proxy_authenticate_407 [OF P T _ _ assms(10,11,13-15), of getaddrinfo g1 nc] assms(5,6) obtain s2 where
    A: "proxy_authenticate getaddrinfo rn g1 nc q ?r (Some new_rr_data) creds1 = Some (Ret
      \<lparr>ar_rc = True, ar_fd = nc, ar_peer = Some \<lparr>p_in = s2, p_out = ?o\<rparr>,
       ar_request = authorize ?r (take n m), ar_response = Some (received d), ar_creds = creds1, ar_globals = g1\<rparr>)"
    "so_data s2 = the_ret (headers_text d2) @ rest" "sock_wf s2" by auto
  define r where "r = \<lparr>ar_rc = True, ar_fd = nc, ar_peer = Some \<lparr>p_in = s2, p_out = ?o\<rparr>,
       ar_request = authorize ?r (take n m), ar_response = Some (received d), ar_creds = creds1, ar_globals = g1\<rparr>"
  have t2: "headers_text (ar_request r) = Ret (the_ret (headers_text (authorize ?r (take n m))))"
    using T by (simp add: r_def authorize_def)
  have c2: "- (2 ^ 31) \<le> rr_code (ar_request r)" "rr_code (ar_request r) < 2 ^ 31"
    using assms(5,6) by (simp_all add: r_def authorize_def)
  have c407: "rr_code d = 407" using assms(15) by (simp add: challenge_ok_def)
  have r: "ar_rc r" "ar_response r = Some (received d)" "ar_fd r \<noteq> 0" "ar_peer r = Some \<lparr>p_in = s2, p_out = ?o\<rparr>"
    using assms(9) by (simp_all add: r_def)
  have q: "sk_plan (p_out \<lparr>p_in = s2, p_out = ?o\<rparr>) = []" "sock_wf (p_in \<lparr>p_in = s2, p_out = ?o\<rparr>)"
    "so_data (p_in \<lparr>p_in = s2, p_out = ?o\<rparr>) = the_ret (headers_text d2) @ rest"
    using A(2,3) assms(10) by simp_all
  from scan_send_reply [OF r(1,2) c407 r(3,4) t2 c2 q(1) assms(7,16) q(2,3)] obtain s where
    F: "scan_send post r = Some (Ret (Some (\<lparr>p_in = s, p_out = (p_out q)\<lparr>sk_out := sk_out (p_out q)
         @ the_ret (headers_text (?r\<lparr>rr_headers := probe_headers (rr_headers ?r) buf\<rparr>))
         @ the_ret (headers_text (authorize ?r (take n m))) @ post\<rparr>\<rparr>, received d2)))" "so_data s = rest"
    by auto
  show thesis
    by (rule that [OF _ _ _ _ F(2,1)]) (use assms(8) A(1) in \<open>simp_all add: scan_connect_def r_def\<close>)
qed

text \<open>
  C13: a scanned file takes the place of its progress page.  When the sample identifies the page of a
  scan and the page announces a size within the limit, reports progress and ends with the location of
  the file, then the client has got one status line and a notification for each report; the parent
  has, on a new connection, the handshake for a POST of the request with the location as its body;
  and the response is that of the POST, with the announced size as its length and without a
  status line of its own, on the new connection with its body still to be read.
\<close>

theorem scanner_fetches_file:
  assumes "scan_wanted request response = Ret True" "scan_limit agents request maxKBs = Ret lim"
    "rr_url request = Some url" "rr_http request = Some hv" "rr_headers request \<noteq> []" "body_wf request"
    "- (2 ^ 31) \<le> rr_code request" "rr_code request < 2 ^ 31" "sk_plan cd = []" "sock_wf (p_in p)"
    "so_data (p_in p) = sample @ page_text ls1 an ls2 fi @ tail" "length sample = 4095"
    "isa_id (cstr_of sample) = Ret (Some isaid)" "progress_page lim ls1 an fs ls2 fi"
    "scan_location fi = Ret (Some loc)" "length (page_text ls1 an ls2 fi) < 2 ^ 29" "fs < 2 ^ 63"
    "proxy_connect getaddrinfo g (Some creds) = Ret ((nc, Some q), Some creds1, g1)" "nc \<noteq> 0"
    "sk_plan (p_out q) = []" "sock_wf (p_in q)" "request_line creds1 = Ret buf"
    "so_data (p_in q) = reply_text d f @ the_ret (headers_text d2) @ rest" "reply_wf d f"
    "challenge_ok rn creds1 d chal olen m n" "response_wf d2"
  shows "\<exists>h. scanner_hook getaddrinfo rn fresh debug agents g request response creds cd sd p maxKBs = Some (Ret h)
    \<and> hk_ok h = 3 \<and> hk_fd h = nc \<and> hk_creds h = creds1 \<and> hk_globals h = g1
    \<and> sk_out (hk_client h) = sk_out cd @ waiting_text hv an fs ls2
    \<and> sk_out (p_out (hk_peer h)) = sk_out (p_out q)
        @ the_ret (headers_text ((posted request url (scan_post isaid loc url))
            \<lparr>rr_headers := probe_headers (rr_headers (posted request url (scan_post isaid loc url))) buf\<rparr>))
        @ the_ret (headers_text (authorize (posted request url (scan_post isaid loc url)) (take n m)))
        @ scan_post isaid loc url
    \<and> hk_response h = replaced d2 fs
    \<and> headers_text (hk_response h) =
        Ret (concat (map header_line (hlist_mod (rr_headers d2) ''Content-Length'' (show_int fs) True)) @ CRLF)
    \<and> so_data (p_in (hk_peer h)) = rest"
proof -
  let ?post = "scan_post isaid loc url"
  let ?r = "posted request url ?post"
  have post: "?post \<noteq> []" by (simp add: scan_post_def)
  have req: "rr_req request \<noteq> 0" using assms(1) by (auto simp: scan_wanted_def split: if_splits)
  from scan_sample_reads [OF assms(10), of "[]"] assms(11,12) obtain s1 where
    S: "scan_sample [] (p_in p) = (sample, s1)" "so_after (p_in p) sample s1" by auto
  have s1: "sock_wf s1" "so_data s1 = page_text ls1 an ls2 fi @ tail" using S(2) assms(11) by (auto simp: so_after_def)
  let ?st = "\<lparr>sc_buf = sample @ [NUL], sc_len = 4095, sc_in = s1, sc_line = [], sc_lsize = BUFSIZE,
    sc_filesize = 0, sc_progress = 0, sc_done = False, sc_initiated = False, sc_out = cd\<rparr>"
  have cs: "cstr_of (sample @ [NUL]) = cstr_of sample" using cstr_of_pad [of 1 sample] by simp
  have "length (cstr_of sample) \<le> 4095" using assms(12) by (simp add: cstr_of_def length_takeWhile_le [THEN order_trans])
  then have "scan_inv ?st" using s1(1) assms(12) by (simp add: scan_inv_def cs)
  from scan_loop_page [OF this assms(14), of tail fresh debug hv] s1(2) assms(9,16) obtain st where
    L: "scan_loop fresh debug lim (Some hv) ?st = Some (Ret (1, st))" "sc_done st" "sc_initiated st" "sc_line st = fi"
    "sc_filesize st = fs" "sc_out st = cd\<lparr>sk_out := sk_out cd @ waiting_text hv an fs ls2\<rparr>"
    by auto
  have fs: "0 < fs" using assms(14) by (simp add: progress_page_def)
  from scan_fetches [OF req assms(3,4,6-8) post assms(18-26)] obtain r s where
    C: "scan_connect getaddrinfo rn g creds ?r = Some (Ret r)" "ar_creds r = creds1" "ar_globals r = g1" "ar_fd r = nc" and
    F: "so_data s = rest" "scan_send ?post r = Some (Ret (Some (\<lparr>p_in = s, p_out = (p_out q)\<lparr>sk_out := sk_out (p_out q)
         @ the_ret (headers_text (?r\<lparr>rr_headers := probe_headers (rr_headers ?r) buf\<rparr>))
         @ the_ret (headers_text (authorize ?r (take n m))) @ ?post\<rparr>\<rparr>, received d2)))" .
  let ?h = "\<lparr>hk_ok = 1, hk_client = sc_out st, hk_fd = sd, hk_peer = p\<lparr>p_in := sc_in st\<rparr>, hk_response = response,
    hk_creds = creds, hk_globals = g\<rparr>"
  have E: "\<exists>h. scan_end getaddrinfo rn isaid request 1 st ?h = Some (Ret h) \<and> h = ?h\<lparr>hk_creds := creds1, hk_globals := g1,
      hk_ok := 3, hk_fd := nc, hk_peer := \<lparr>p_in = s, p_out = (p_out q)\<lparr>sk_out := sk_out (p_out q)
         @ the_ret (headers_text (?r\<lparr>rr_headers := probe_headers (rr_headers ?r) buf\<rparr>))
         @ the_ret (headers_text (authorize ?r (take n m))) @ ?post\<rparr>\<rparr>, hk_response := replaced d2 fs\<rparr>"
    using L(2,4) assms(3,15) C F(2) replaced_eq [OF L(5) fs assms(17) L(3)]
    by (simp add: scan_end_def scan_request_eq [OF assms(6,5)] Let_def)
  have "scanner_hook getaddrinfo rn fresh debug agents g request response creds cd sd p maxKBs =
      scan_end getaddrinfo rn isaid request 1 st ?h"
    using assms(1,2,4,12,13) S(1) L(1) cs by (simp add: scanner_hook_def Let_def)
  moreover obtain hv2 msg where "rr_http d2 = Some hv2" "rr_msg d2 = Some msg"
    using assms(26) by (auto simp: response_wf_def split: option.splits)
  then have "headers_text (replaced d2 fs) =
      Ret (concat (map header_line (hlist_mod (rr_headers d2) ''Content-Length'' (show_int fs) True)) @ CRLF)"
    by (simp add: headers_text_def replaced_def Let_def)
  ultimately show ?thesis using E F(1) L(6) by auto
qed

section \<open>Giving up\<close>

text \<open>
  A report before which no size was announced, or that announces one, can end the scan; what the
  client has got by then (\<open>None\<close>: the scan goes on).
\<close>

definition give_up_text :: "bool \<Rightarrow> int \<Rightarrow> string \<Rightarrow> string \<Rightarrow> string option" where
  "give_up_text debug lim h l =
     (case strstr l ''To be downloaded'' of
        None \<Rightarrow> Some []
      | Some pos \<Rightarrow>
          let fs = atoll (drop 16 pos)
          in if debug \<and> fs \<le> 0 \<or> lim \<noteq> 0 \<and> (lim = 1 \<or> fs sdiv 1024 > lim) then Some []
             else if fs = 0 \<and> lim \<noteq> 0 \<and> atoll (drop 12 l) sdiv 1024 > lim
             then Some (take 49 (h @ '' 200 OK'' @ [CR, LF]) @ note_of 0 l)
             else None)"




text \<open>
  C26: a long line of the page overruns the buffer.  The buffer is doubled once for a line, whatever its
  length: after a full sample without a NUL, a line of more than 4096 characters is copied beyond its end.
\<close>

theorem scanner_line_overruns:
  assumes "scan_wanted request response = Ret True" "scan_limit agents request maxKBs = Ret lim" "sock_wf (p_in p)"
    "so_data (p_in p) = sample @ a @ LF # tail" "length sample = 4095" "NUL \<notin> set sample"
    "isa_id sample = Ret (Some isaid)" "LF \<notin> set a" "NUL \<notin> set a" "4096 \<le> length a"
  shows "scanner_hook getaddrinfo rn fresh debug agents g request response creds cd sd p maxKBs = Some UB"
proof -
  from scan_sample_reads [OF assms(3), of "[]"] assms(4,5) obtain s1 where
    S: "scan_sample [] (p_in p) = (sample, s1)" "so_after (p_in p) sample s1" by auto
  have s1: "sock_wf s1" "so_data s1 = a @ LF # tail" using S(2) assms(4) by (auto simp: so_after_def)
  obtain n' s' where R: "so_recvln s1 BUFSIZE = (1, a @ [LF], n', s')"
    using so_recvln_line [OF s1 assms(8), of BUFSIZE thesis] by simp
  have cs: "cstr_of (sample @ [NUL]) = sample" "cstr_of (sample @ NUL # r) = sample" "cstr_of (a @ [LF]) = a @ [LF]" for r
    using assms(6,9) by (simp_all add: cstr_of_id)
  let ?st = "\<lparr>sc_buf = sample @ [NUL], sc_len = 4095, sc_in = s1, sc_line = [], sc_lsize = BUFSIZE,
    sc_filesize = 0, sc_progress = 0, sc_done = False, sc_initiated = False, sc_out = cd\<rparr>"
  have "scan_append fresh (?st\<lparr>sc_in := s', sc_lsize := n', sc_line := a @ [LF]\<rparr>) = UB"
    using assms(5,10) by (simp add: scan_append_def Let_def cs)
  then have "scan_loop fresh debug lim http ?st = Some UB" for http
    using R by (subst scan_loop.simps) (simp add: cs)
  then show ?thesis using assms(1,2,5,7) S(1) cs by (simp add: scanner_hook_def Let_def)
qed

section \<open>A concrete page\<close>

definition scan_get :: rr_data_s where
  "scan_get = sample_get\<lparr>rr_headers := [\<lparr>hkey = ''Host'', hvalue = ''a''\<rparr>]\<rparr>"

definition sample_page :: rr_data_s where
  "sample_page = sample_200\<lparr>rr_headers := [\<lparr>hkey = ''Content-Type'', hvalue = ''t''\<rparr>,
     \<lparr>hkey = ''Proxy-Connection'', hvalue = ''close''\<rparr>]\<rparr>"

text \<open>A full sample that identifies the page of a scan, with the identifier \<open>id\<close>.\<close>

definition scan_title :: string where
  "scan_title = ''<title>Downloading status</title>''"

definition scan_rest :: string where
  "scan_rest = ''id'' @ CHR 0x22 # replicate 4040 CHR ''x''"

definition full_sample :: string where
  "full_sample = scan_title @ ''ISAServerUniqueID='' @ CHR 0x22 # scan_rest"

lemma full_sample: "length full_sample = 4095" "NUL \<notin> set full_sample" "isa_id full_sample = Ret (Some ''id'')"
proof -
  have r: "strcspn scan_rest [CHR 0x22] = 2" "length scan_rest = 4043" "take 2 scan_rest = ''id''" "NUL \<notin> set scan_rest"
    by (simp_all add: scan_rest_def strcspn_def)
  then show "length full_sample = 4095" "NUL \<notin> set full_sample"
    by (simp_all add: full_sample_def scan_title_def)
  have t: "strstr full_sample ''<title>Downloading status</title>'' = Some full_sample"
    unfolding full_sample_def scan_title_def by (rule strstr_here) simp
  have i: "strstr full_sample ''ISAServerUniqueID='' = Some (''ISAServerUniqueID='' @ CHR 0x22 # scan_rest)"
    unfolding full_sample_def by (rule strstr_skip) (simp_all add: scan_title_def)
  have c: "strchr (''ISAServerUniqueID='' @ CHR 0x22 # scan_rest) CHR 0x22 = Some (CHR 0x22 # scan_rest)"
    by (rule strchr_append) simp
  have "substr scan_rest 0 2 = Ret ''id''" using substr_eq [of 0 scan_rest 2] r by simp
  then show "isa_id full_sample = Ret (Some ''id'')"
    using t i c r by (simp add: isa_id_def Let_def)
qed

lemma scan_get_page:
  "scan_wanted scan_get (received sample_page) = Ret True" "scan_limit agents scan_get k = Ret k"
  "rr_url scan_get = Some ''http://h/x''" "rr_http scan_get = Some ''HTTP/1.1''" "rr_headers scan_get \<noteq> []"
  "body_wf scan_get" "rr_code scan_get = 0"
  "headers_text (received sample_page) = Ret (the_ret (headers_text (received sample_page)))"
  "rr_code (received sample_page) = 200" "response_wf sample_page"
  "has_method ''HEAD'' (Some scan_get) = Ret False" "has_method ''CONNECT'' (Some scan_get) = Ret False"
proof -
  have n: "\<not> strcaseeq ''HEAD'' ''GET''" "\<not> strcaseeq ''CONNECT'' ''GET''" "\<not> strcaseeq ''Host'' ''User-Agent''"
    "\<not> strcaseeq ''Content-Type'' ''Content-Length''" "\<not> strcaseeq ''Content-Type'' ''Transfer-Encoding''"
    "\<not> strcaseeq ''Content-Type'' ''Proxy-Connection''" "strcaseeq ''Proxy-Connection'' ''Proxy-Connection''"
    "strstr (lowercase ''close'') (lowercase ''close'') \<noteq> None"
    by code_simp+
  have g: "rr_req scan_get = 1" "rr_method scan_get = Some ''GET''" "rr_headers scan_get = [\<lparr>hkey = ''Host'', hvalue = ''a''\<rparr>]"
    "rr_url scan_get = Some ''http://h/x''" "rr_http scan_get = Some ''HTTP/1.1''" "rr_code scan_get = 0" "rr_body scan_get = None"
    by (simp_all add: scan_get_def sample_get_def new_rr_data_def)
  have p: "rr_headers sample_page = [\<lparr>hkey = ''Content-Type'', hvalue = ''t''\<rparr>, \<lparr>hkey = ''Proxy-Connection'', hvalue = ''close''\<rparr>]"
    "rr_code sample_page = 200" "rr_http sample_page = Some ''HTTP/1.1''" "rr_msg sample_page = Some []"
    by (simp_all add: sample_page_def sample_200_def)
  show "has_method ''HEAD'' (Some scan_get) = Ret False" "has_method ''CONNECT'' (Some scan_get) = Ret False"
    using n by (simp_all add: has_method_def g)
  then show "scan_wanted scan_get (received sample_page) = Ret True"
    using n sample_names by (simp add: scan_wanted_def http_has_body_def body_length_def hlist_subcmp_def g p Let_def)
  show "scan_limit agents scan_get k = Ret k" using n by (simp add: scan_limit_def g)
  show "rr_url scan_get = Some ''http://h/x''" "rr_http scan_get = Some ''HTTP/1.1''" "rr_headers scan_get \<noteq> []"
    "body_wf scan_get" "rr_code scan_get = 0" by (simp_all add: g body_wf_def)
  show "headers_text (received sample_page) = Ret (the_ret (headers_text (received sample_page)))"
    "rr_code (received sample_page) = 200"
    by (simp_all add: headers_text_def p Let_def)
  show "response_wf sample_page"
    using sample_200_wf(1) by (simp add: response_wf_def sample_page_def header_wf_def c_isspace_def)
qed

theorem scanner_transparent_witness:
  "\<exists>s' c'. forward_scanned (\<lambda>_. None) sample_rnd (\<lambda>_. NUL) False [] 0 False [] scan_get (received sample_page)
      (sample_fwd True [] ''hello'') = Some (Ret (forward_end False sample_page (after_reply sample_page (sample_fwd True [] ''hello'') c' s')))
    \<and> sk_out (p_out c') = the_ret (headers_text (received sample_page)) @ ''hello''"
proof -
  have n: "\<not> strcaseeq ''Content-Type'' ''Content-Length''" "\<not> strcaseeq ''Content-Type'' ''Transfer-Encoding''"
    "\<not> strcaseeq ''Content-Type'' ''Connection''" "\<not> strcaseeq ''Proxy-Connection'' ''Connection''"
    "\<not> strcaseeq ''Content-Type'' ''Proxy-Authenticate''" "strcaseeq ''Content-Type'' ''Content-Type''"
    "\<not> strcaseeq ''Connection'' ''Content-Length''" by code_simp+
  have c: "rr_code sample_page = 200" "rr_code sample_page \<noteq> 407" using scan_get_page(9) by simp_all
  have i: "isa_id (cstr_of (take 4095 ''hello'')) = Ret None" by code_simp
  have e: "\<not> so_err (p_in (sample_peer ''hello''))" "peer_wf (sample_peer ''hello'')" by (simp_all add: sample_peer_def peer_wf_def sock_wf_def)
  have f: "frame_ok (rr_headers (client_reply sample_page)) (no_body False (rr_code sample_page)) (By_close ''hello'')"
    using n sample_names c by (simp add: client_reply_def forward_reply_headers_def sample_page_def hlist_subcmp_def
        hlist_purge_filter hlist_mod_def hlist_add_def Let_def chunked_def delimited_def no_body_def)
  from scanner_transparent [OF scan_get_page(10) c(2) scan_get_page(1) _ scan_get_page(11,12) f,
      of "[]" 0 0 "sample_fwd True [] ''hello''" "sample_peer ''hello''" "\<lambda>_. None" sample_rnd "\<lambda>_. NUL" False False "[]"]
  obtain s' c' where
    "forward_scanned (\<lambda>_. None) sample_rnd (\<lambda>_. NUL) False [] 0 False [] scan_get (received sample_page)
      (sample_fwd True [] ''hello'') = Some (Ret (forward_end False sample_page (after_reply sample_page (sample_fwd True [] ''hello'') c' s')))"
    "moved (sample_peer []) [] (the_ret (headers_text (scanned_head True sample_page ''hello'')) @ ''hello'') c'"
    using scan_get_page(2) [of "[]" 0] i e by auto
  then show ?thesis by (auto simp: moved_def scanned_head_def)
qed

text \<open>Lines of a page: the size, the end, and the size unknown.\<close>

definition size_line_1 :: string where "size_line_1 = '' UpdatePage(7,To be downloaded 9)'' @ [LF]"

definition end_line :: string where
  "end_line = '' DownloadFinished(1,'' @ [CHR 0x22, CHR ''a'', CHR 0x22, CHR '','', CHR 0x22, CHR ''f'', CHR 0x22, LF]"

definition unknown_line :: string where "unknown_line = '' UpdatePage(9999,To be downloaded 0)'' @ [LF]"

lemma sample_lines: "page_line size_line_1" "page_line end_line" "page_line unknown_line"
  "scan_updates size_line_1" "finish end_line" "scan_updates unknown_line"
  "scan_location end_line = Ret (Some ''f'')" "length (page_text [] size_line_1 [] end_line) < 2 ^ 29"
  "progress_page 0 [] size_line_1 9 [] end_line"
  "give_up_text False 2 ''HTTP/1.1'' unknown_line =
     Some (''HTTP/1.1 200 OK'' @ [CR, LF] @ ''ISA-Scanner: 9999 of 0'' @ [CR, LF])"
proof -
  show p: "page_line size_line_1" "page_line end_line" "page_line unknown_line"
    by (auto simp: page_line_def size_line_1_def end_line_def unknown_line_def)
  show u: "scan_updates size_line_1" "finish end_line" "scan_updates unknown_line" by code_simp+
  show "scan_location end_line = Ret (Some ''f'')" by code_simp
  show "length (page_text [] size_line_1 [] end_line) < 2 ^ 29" by (simp add: page_text_def size_line_1_def end_line_def)
  have "(case strstr size_line_1 ''To be downloaded'' of None \<Rightarrow> False | Some pos \<Rightarrow> atoll (drop 16 pos) = 9)" by code_simp
  with p u show "progress_page 0 [] size_line_1 9 [] end_line" by (simp add: progress_page_def)
  have n: "show_nat 9999 = ''9999''" "show_nat 0 = ''0''" by (simp_all add: show_nat.simps)
  have "\<not> is_digit_in 10 CHR '',''" by code_simp
  then have "atoll (drop 12 unknown_line) = int 9999"
    using strtol_show_nat [of "'',To be downloaded 0)'' @ [LF]" 9999] by (simp add: atoll_def n unknown_line_def)
  moreover have "strstr unknown_line ''To be downloaded'' = Some (''To be downloaded 0)'' @ [LF])"
    "atoll (drop 16 (''To be downloaded 0)'' @ [LF])) = 0" by code_simp+
  ultimately show "give_up_text False 2 ''HTTP/1.1'' unknown_line =
     Some (''HTTP/1.1 200 OK'' @ [CR, LF] @ ''ISA-Scanner: 9999 of 0'' @ [CR, LF])"
    using u(3) n by (simp add: give_up_text_def note_of_def notification_def show_int_def signed_divide_int_def Let_def)
qed

theorem scanner_fetches_file_witness:
  "\<exists>h q. scanner_hook (\<lambda>_. None) sample_rnd (\<lambda>_. NUL) False []
        (parent_of (sample_peer (reply_text sample_407 (By_length ''no'') @ the_ret (headers_text sample_page) @ ''file'')))
        scan_get (received sample_page) new_auth (p_out (sample_peer [])) 5
        (sample_peer (full_sample @ page_text [] size_line_1 [] end_line @ ''rest'')) 0 = Some (Ret h)
    \<and> hk_ok h = 3 \<and> hk_fd h = 7 \<and> hk_response h = replaced sample_page 9 \<and> so_data (p_in (hk_peer h)) = ''file''
    \<and> sk_out (p_out (hk_peer h)) = q @ scan_post ''id'' ''f'' ''http://h/x''
    \<and> sk_out (hk_client h) = ''HTTP/1.1 200 OK'' @ [CR, LF] @ ''ISA-Scanner: 7 of 9'' @ [CR, LF]"
proof -
  let ?q = "sample_peer (reply_text sample_407 (By_length ''no'') @ the_ret (headers_text sample_page) @ ''file'')"
  let ?p = "sample_peer (full_sample @ page_text [] size_line_1 [] end_line @ ''rest'')"
  from new_auth_request obtain buf where b: "request_line new_auth = Ret buf" by blast
  from sample_response obtain m n where ch: "challenge_ok sample_rnd new_auth sample_407 sample_chal 200 m n"
    using sample_407_wf(2) by blast
  from parent_of_connects(1) [of ?q] obtain g2 where
    g: "proxy_connect (\<lambda>_. None) (parent_of ?q) (Some new_auth) = Ret ((7, Some ?q), Some new_auth, g2)" by blast
  have c: "- (2 ^ 31) \<le> rr_code scan_get" "rr_code scan_get < 2 ^ 31" by (simp_all add: scan_get_page(7))
  have i: "isa_id (cstr_of full_sample) = Ret (Some ''id'')" using full_sample(2,3) by (simp add: cstr_of_id)
  have w: "sk_plan (p_out (sample_peer [])) = []" "sock_wf (p_in ?p)"
    "so_data (p_in ?p) = full_sample @ page_text [] size_line_1 [] end_line @ ''rest''" "(9::int) < 2 ^ 63" "(7::int) \<noteq> 0"
    "sk_plan (p_out ?q) = []" "sock_wf (p_in ?q)"
    "so_data (p_in ?q) = reply_text sample_407 (By_length ''no'') @ the_ret (headers_text sample_page) @ ''file''"
    by simp_all
  have t: "waiting_text ''HTTP/1.1'' size_line_1 9 [] = ''HTTP/1.1 200 OK'' @ [CR, LF] @ ''ISA-Scanner: 7 of 9'' @ [CR, LF]"
    by code_simp
  from scanner_fetches_file [OF scan_get_page(1,2,3,4,5,6) c w(1-3) full_sample(1) i sample_lines(9,7,8) w(4) g w(5-7) b w(8)
      sample_407_wf(1) ch scan_get_page(10), of "\<lambda>_. NUL" False "[]" 5]
  show ?thesis unfolding t by (fastforce simp: append_assoc [symmetric] simp del: append_assoc)
qed


theorem scanner_line_overruns_witness:
  "scanner_hook (\<lambda>_. None) sample_rnd (\<lambda>_. NUL) False [] no_globals scan_get (received sample_page) new_auth
     \<lparr>sk_out = [], sk_plan = []\<rparr> 5 (sample_peer (full_sample @ replicate 4096 CHR ''y'' @ [LF])) 0 = Some UB"
proof -
  let ?p = "sample_peer (full_sample @ replicate 4096 CHR ''y'' @ [LF])"
  have w: "sock_wf (p_in ?p)" "so_data (p_in ?p) = full_sample @ replicate 4096 CHR ''y'' @ LF # []"
    "LF \<notin> set (replicate 4096 CHR ''y'')" "NUL \<notin> set (replicate 4096 CHR ''y'')" "4096 \<le> length (replicate 4096 CHR ''y'')"
    by simp_all
  show ?thesis by (rule scanner_line_overruns [OF scan_get_page(1,2) w(1,2) full_sample w(3-5)])
qed

end
