(* ===== verification/Syscalls.thy ===== *)
theory Syscalls
  imports SockIO
begin

text \<open>
  The socket operations of socket.c over the system calls: so_connect, so_listen, so_recvtest,
  so_dataready and so_closed.  The kernel is a parameter, a function that gives what a call returns
  after the calls before it; an operation returns its result and the calls with its own appended.
\<close>

section \<open>System calls\<close>

text \<open>A socket address: the port is the two bytes of \<open>sin_port\<close>, in the order they have in memory.\<close>

record sockaddr_in =
  sin_port :: "byte list"
  sin_addr :: u32

datatype syscall =
    Sys_socket
  | Sys_getfl int
  | Sys_setfl int int
  | Sys_connect int sockaddr_in
  | Sys_reuse int int
  | Sys_bind int sockaddr_in
  | Sys_listen int int
  | Sys_close int

type_synonym kernel = "syscall list \<Rightarrow> syscall \<Rightarrow> int"

text \<open>\<open>htons\<close> of an \<open>int\<close>, which is cut to 16 bits.\<close>

definition htons :: "int \<Rightarrow> byte list" where
  "htons port = (let p = (word_of_int port :: u16) in [ucast (drop_bit 8 p), ucast p])"

text \<open>The bit \<open>O_NONBLOCK\<close> of the flags.\<close>

abbreviation O_NONBLOCK :: int where "O_NONBLOCK \<equiv> 0x800"

section \<open>so\_connect and so\_listen\<close>

definition so_connect_sys :: "kernel \<Rightarrow> u32 \<Rightarrow> int \<Rightarrow> syscall list \<Rightarrow> int \<times> syscall list" where
  "so_connect_sys k host port h0 =
     (let fd = k h0 Sys_socket; h1 = h0 @ [Sys_socket]
      in if fd < 0 then (-1, h1)
         else let saddr = \<lparr>sin_port = htons port, sin_addr = host\<rparr>;
                  flags = k h1 (Sys_getfl fd); h2 = h1 @ [Sys_getfl fd]
              in if flags < 0 then (-1, h2 @ [Sys_close fd])
                 else let rc = k h2 (Sys_connect fd saddr); h3 = h2 @ [Sys_connect fd saddr]
                      in if rc < 0 then (-1, h3 @ [Sys_close fd])
                         else let c = Sys_setfl fd (flags AND NOT O_NONBLOCK)
                              in if k h3 c < 0 then (-1, h3 @ [c, Sys_close fd]) else (fd, h3 @ [c]))"

text \<open>A socket that could not be made is closed too.\<close>

definition so_listen_sys :: "kernel \<Rightarrow> int \<Rightarrow> u32 \<Rightarrow> syscall list \<Rightarrow> int \<times> syscall list" where
  "so_listen_sys k port source h0 =
     (let fd = k h0 Sys_socket; h1 = h0 @ [Sys_socket]
      in if fd < 0 then (-1, h1 @ [Sys_close fd])
         else let saddr = \<lparr>sin_port = htons port, sin_addr = source\<rparr>;
                  h2 = h1 @ [Sys_reuse fd 1]; h3 = h2 @ [Sys_bind fd saddr]
              in if k h2 (Sys_bind fd saddr) \<noteq> 0 then (-1, h3 @ [Sys_close fd])
                 else if k h3 (Sys_listen fd 5) \<noteq> 0 then (-1, h3 @ [Sys_listen fd 5, Sys_close fd])
                 else (fd, h3 @ [Sys_listen fd 5]))"

section \<open>so\_recvtest, so\_dataready and so\_closed\<close>

text \<open>
  A look at the descriptor without waiting: what \<open>recv\<close> of one byte returns for a stream, with
  \<open>errno\<close>, given whether its next data (or its end) has arrived.  EINTR and the like are an \<open>errno\<close> of
  their own.
\<close>

abbreviation EAGAIN :: int where "EAGAIN \<equiv> 11"
abbreviation ENOENT :: int where "ENOENT \<equiv> 2"
abbreviation ECONNRESET :: int where "ECONNRESET \<equiv> 104"

definition sys_peek :: "bool \<Rightarrow> sock \<Rightarrow> int \<times> int" where
  "sys_peek arrived s =
     (if \<not> arrived then (-1, EAGAIN)
      else case so_read 1 s of (i, _, _) \<Rightarrow> (i, ECONNRESET))"

definition so_recvtest :: "int \<times> int \<Rightarrow> int" where
  "so_recvtest r = fst r"

definition so_dataready :: "int \<times> int \<Rightarrow> bool" where
  "so_dataready r \<longleftrightarrow> so_recvtest r > 0"

definition so_closed :: "int \<Rightarrow> int \<times> int \<Rightarrow> bool" where
  "so_closed fd r \<longleftrightarrow> fd = -1 \<or> so_recvtest r = 0
     \<or> (so_recvtest r = -1 \<and> snd r \<noteq> EAGAIN \<and> snd r \<noteq> ENOENT)"

section \<open>Properties\<close>

text \<open>The descriptors a sequence of calls has made and not closed.\<close>

fun sys_open :: "kernel \<Rightarrow> syscall list \<Rightarrow> syscall list \<Rightarrow> int list \<Rightarrow> int list" where
  "sys_open k h [] fds = fds"
| "sys_open k h (c # cs) fds = sys_open k (h @ [c]) cs
     (case c of Sys_socket \<Rightarrow> if k h c < 0 then fds else fds @ [k h c] | Sys_close fd \<Rightarrow> removeAll fd fds | _ \<Rightarrow> fds)"

lemma htons_bytes: "htons port = [word_of_int (port div 256), word_of_int port]"
proof -
  have "port div 256 = drop_bit 8 port" by (simp add: drop_bit_eq_div)
  then have "(ucast (drop_bit 8 (word_of_int port :: u16)) :: byte) = word_of_int (port div 256)"
    "(ucast (word_of_int port :: u16) :: byte) = word_of_int port"
    by (auto intro!: byte_eqI simp: bit_simps)
  then show ?thesis by (simp add: htons_def Let_def)
qed

text \<open>
  C21: no descriptor is lost.  Whatever the system calls return, so_connect and so_listen return -1
  and leave no descriptor open, or return the one descriptor they leave open; what they
  return is then connected to, or listens on, the host and the port, of which the lowest two bytes
  are taken in network byte order, and a connection is in blocking mode.
\<close>

theorem sockets_not_lost:
  "(\<exists>r cs. so_connect_sys k host port h = (r, h @ cs) \<and> sys_open k h cs [] = (if r = -1 then [] else [r])
      \<and> (if r = -1 then True else 0 \<le> r \<and> (\<exists>flags. cs = [Sys_socket, Sys_getfl r,
            Sys_connect r \<lparr>sin_port = [word_of_int (port div 256), word_of_int port], sin_addr = host\<rparr>, Sys_setfl r flags]
            \<and> flags AND O_NONBLOCK = 0)))
   \<and> (\<exists>r cs. so_listen_sys k port source h = (r, h @ cs) \<and> sys_open k h cs [] = (if r = -1 then [] else [r])
      \<and> (if r = -1 then True else 0 \<le> r \<and> cs = [Sys_socket, Sys_reuse r 1,
            Sys_bind r \<lparr>sin_port = [word_of_int (port div 256), word_of_int port], sin_addr = source\<rparr>, Sys_listen r 5]))"
proof
  have "(flags AND NOT O_NONBLOCK) AND O_NONBLOCK = 0" for flags :: int
    by (rule bit_eqI) (auto simp: bit_simps)
  then have n: "(flags AND - 2049) AND O_NONBLOCK = 0" for flags :: int by simp
  show "\<exists>r cs. so_connect_sys k host port h = (r, h @ cs) \<and> sys_open k h cs [] = (if r = -1 then [] else [r])
      \<and> (if r = -1 then True else 0 \<le> r \<and> (\<exists>flags. cs = [Sys_socket, Sys_getfl r,
            Sys_connect r \<lparr>sin_port = [word_of_int (port div 256), word_of_int port], sin_addr = host\<rparr>, Sys_setfl r flags]
            \<and> flags AND O_NONBLOCK = 0))"
    using n by (auto simp: so_connect_sys_def Let_def htons_bytes)
  show "\<exists>r cs. so_listen_sys k port source h = (r, h @ cs) \<and> sys_open k h cs [] = (if r = -1 then [] else [r])
      \<and> (if r = -1 then True else 0 \<le> r \<and> cs = [Sys_socket, Sys_reuse r 1,
            Sys_bind r \<lparr>sin_port = [word_of_int (port div 256), word_of_int port], sin_addr = source\<rparr>, Sys_listen r 5])"
    by (auto simp: so_listen_sys_def Let_def htons_bytes)
qed

text \<open>
  A closed connection is told from one without data: so_closed is true of an open descriptor
  exactly when the end of its data has arrived and all the data was read; data that is still there
  hides the end.
\<close>

theorem so_closed_exact:
  assumes "sock_wf s" "fd \<noteq> -1"
  shows "so_closed fd (sys_peek arrived s) \<longleftrightarrow> arrived \<and> so_data s = []"
proof (cases "so_data s = []")
  case True
  with so_read_end [OF True assms(1), of 1] assms(2) show ?thesis
    by (simp add: so_closed_def so_recvtest_def sys_peek_def)
next
  case False
  then obtain x xs where "so_data s = x # xs" by (cases "so_data s") auto
  from so_read_one [OF this assms(1)] obtain s' where "so_read 1 s = (1, [x], s')" by blast
  with False assms(2) show ?thesis by (simp add: so_closed_def so_recvtest_def sys_peek_def)
qed

theorem so_closed_exact_witness:
  "so_closed 5 (sys_peek True \<lparr>so_segs = [], so_err = False\<rparr>)
   \<and> \<not> so_closed 5 (sys_peek True \<lparr>so_segs = [''x''], so_err = False\<rparr>)
   \<and> \<not> so_closed 5 (sys_peek False \<lparr>so_segs = [], so_err = False\<rparr>)"
  using so_closed_exact [of "\<lparr>so_segs = [], so_err = False\<rparr>" 5] so_closed_exact [of "\<lparr>so_segs = [''x''], so_err = False\<rparr>" 5]
  by (simp add: sock_wf_def so_data_def)

end
