(* ===== verification/MdStream.thy ===== *)
theory MdStream
  imports MdHash
begin

text \<open>
  md4_stream and md5_stream of xcrypt.c, the digests of a file.  The two functions have the same text,
  so the loops are modelled once with the functions of the digest as arguments.  A FILE is the data its
  reads will find, with what is at their end and the two indicators of stdio.
\<close>

section \<open>Files\<close>

text \<open>
  Every segment but the last ends with an error that passes; \<open>cf_bad\<close> is whether the end is an error
  that stays.
\<close>

record cfile =
  cf_segs :: "byte list list"
  cf_bad :: bool
  cf_eof :: bool
  cf_err :: bool

text \<open>
  \<open>fread(buf, 1, n, f)\<close>: as many bytes as it can, and an indicator when these are fewer.  The indicators
  are never reset.
\<close>

definition cfread :: "nat \<Rightarrow> cfile \<Rightarrow> byte list \<times> cfile" where
  "cfread n f =
     (case cf_segs f of
        [] \<Rightarrow> ([], if n = 0 then f else if cf_bad f then f\<lparr>cf_err := True\<rparr> else f\<lparr>cf_eof := True\<rparr>)
      | c # cs \<Rightarrow>
          if n \<le> length c then (take n c, f\<lparr>cf_segs := (if drop n c = [] then cs else drop n c # cs)\<rparr>)
          else (c, if cs = [] \<and> \<not> cf_bad f then f\<lparr>cf_segs := [], cf_eof := True\<rparr>
                   else f\<lparr>cf_segs := cs, cf_err := True\<rparr>))"

lemma cfread_le: "length (fst (cfread n f)) \<le> n"
  by (auto simp: cfread_def split: list.split)

definition cf_data :: "cfile \<Rightarrow> byte list" where "cf_data f = concat (cf_segs f)"

lemma cfread_data: "cfread n f = (d, f') \<Longrightarrow> cf_data f = d @ cf_data f'"
  by (auto simp: cfread_def cf_data_def split: list.splits if_splits)

section \<open>The loops\<close>

abbreviation BLOCKSIZE :: nat where "BLOCKSIZE \<equiv> 4096"

text \<open>The inner loop, with what the buffer holds: a full block, the last part of the file, or an error.\<close>

datatype block_read = Block_full "byte list" cfile | Block_part "byte list" | Block_error

function read_block :: "byte list \<Rightarrow> cfile \<Rightarrow> block_read" where
  "read_block buf f =
     (case cfread (BLOCKSIZE - length buf) f of (d, f') \<Rightarrow>
        let b = buf @ d
        in if length b = BLOCKSIZE then Block_full b f'
           else if d = [] then (if cf_err f' then Block_error else Block_part b)
           else if cf_eof f' then Block_part b
           else read_block b f')"
  by pat_completeness auto
termination
proof (relation "measure (\<lambda>(buf, _). BLOCKSIZE - length buf)", goal_cases)
  case (2 buf f d f' b)
  have "length d \<le> BLOCKSIZE - length buf" using cfread_le [of "BLOCKSIZE - length buf" f] 2(1,2) by (metis fst_conv)
  with 2 show ?case by (cases d) auto
qed simp

declare read_block.simps [simp del]

lemma read_block_data: "read_block buf f = Block_full b f' \<Longrightarrow> length b = BLOCKSIZE \<and> buf @ cf_data f = b @ cf_data f'"
proof (induction buf f rule: read_block.induct)
  case (1 buf f)
  obtain d f1 where R: "cfread (BLOCKSIZE - length buf) f = (d, f1)" by fastforce
  show ?case
    using "1.prems" "1.IH" [OF R [symmetric]] cfread_data [OF R] R
    by (subst (asm) read_block.simps) (auto simp: Let_def split: if_splits)
qed

text \<open>The outer loop: the context and the last part, or \<open>None\<close> for an error.\<close>

function stream_loop :: "(byte list \<Rightarrow> md_ctx \<Rightarrow> md_ctx) \<Rightarrow> md_ctx \<Rightarrow> cfile \<Rightarrow> (md_ctx \<times> byte list) option" where
  "stream_loop block ctx f =
     (case read_block [] f of
        Block_full b f' \<Rightarrow> stream_loop block (block b ctx) f'
      | Block_part b \<Rightarrow> Some (ctx, b)
      | Block_error \<Rightarrow> None)"
  by pat_completeness auto
termination
  by (relation "measure (\<lambda>(_, _, f). length (cf_data f))") (auto dest!: read_block_data)

declare stream_loop.simps [simp del]

definition md_stream ::
  "(md_ctx \<Rightarrow> md_ctx) \<Rightarrow> (byte list \<Rightarrow> md_ctx \<Rightarrow> md_ctx) \<Rightarrow> (byte list \<Rightarrow> md_ctx \<Rightarrow> md_ctx) \<Rightarrow> (md_ctx \<Rightarrow> byte list)
    \<Rightarrow> md_ctx \<Rightarrow> cfile \<Rightarrow> byte list option" where
  "md_stream init block feed finish stk f =
     map_option (\<lambda>(ctx, b). finish (if b \<noteq> [] then feed b ctx else ctx)) (stream_loop block (init stk) f)"

text \<open>The digest, or \<open>None\<close> when 1 is returned; the context is on the stack.\<close>

definition md4_stream :: "md_ctx \<Rightarrow> bool \<Rightarrow> cfile \<Rightarrow> byte list option" where
  "md4_stream stk unaligned = md_stream md4_init_ctx md4_process_block (md4_process_bytes unaligned) md4_finish_ctx stk"

definition md5_stream :: "md_ctx \<Rightarrow> bool \<Rightarrow> cfile \<Rightarrow> byte list option" where
  "md5_stream stk unaligned = md_stream md5_init_ctx md5_process_block (md5_process_bytes unaligned) md5_finish_ctx stk"

section \<open>Lemmas\<close>

text \<open>A file that is not interrupted.\<close>

definition plain_file :: "byte list \<Rightarrow> bool \<Rightarrow> cfile" where
  "plain_file m bad = \<lparr>cf_segs = (if m = [] then [] else [m]), cf_bad = bad, cf_eof = False, cf_err = False\<rparr>"

lemma read_block_plain:
  "read_block [] (plain_file m bad) =
     (if BLOCKSIZE \<le> length m then Block_full (take BLOCKSIZE m) (plain_file (drop BLOCKSIZE m) bad)
      else if bad then Block_error else Block_part m)"
proof -
  have e: "read_block b (f\<lparr>cf_segs := [], cf_bad := True\<rparr>) = Block_error" if "length b < BLOCKSIZE" for b f
    using that by (subst read_block.simps) (simp add: cfread_def)
  show ?thesis
  proof (cases "BLOCKSIZE \<le> length m")
    case True
    then have "m \<noteq> []" by auto
    with True show ?thesis
      by (subst read_block.simps) (auto simp: cfread_def plain_file_def Let_def)
  next
    case False
    with e [of m "plain_file m bad\<lparr>cf_err := True\<rparr>"] show ?thesis
      by (subst read_block.simps) (auto simp: cfread_def plain_file_def Let_def)
  qed
qed

lemma stream_loop_plain:
  assumes "md_at c ctx p []" "\<And>d ctx. block d ctx = md_process_block c d ctx"
  shows "(bad \<longrightarrow> stream_loop block ctx (plain_file m bad) = None)
    \<and> (\<not> bad \<longrightarrow> (\<exists>ctx' q b. stream_loop block ctx (plain_file m bad) = Some (ctx', b) \<and> m = q @ b
        \<and> md_at c ctx' (p @ q) [] \<and> length b < BLOCKSIZE))"
  using assms(1)
proof (induction "length m" arbitrary: m ctx p rule: less_induct)
  case less
  show ?case
  proof (cases "BLOCKSIZE \<le> length m")
    case True
    let ?ctx = "block (take BLOCKSIZE m) ctx"
    have step: "stream_loop block ctx (plain_file m bad) = stream_loop block ?ctx (plain_file (drop BLOCKSIZE m) bad)"
      by (subst stream_loop.simps) (simp add: read_block_plain True)
    have "md_at c ?ctx (p @ take BLOCKSIZE m) []"
      unfolding assms(2) by (rule md_at_blocks' [OF less.prems]) (use True in \<open>auto simp: min_def\<close>)
    from less.hyps [OF _ this, of "drop BLOCKSIZE m"] True have
      IH: "(bad \<longrightarrow> stream_loop block ?ctx (plain_file (drop BLOCKSIZE m) bad) = None)
       \<and> (\<not> bad \<longrightarrow> (\<exists>ctx' q b. stream_loop block ?ctx (plain_file (drop BLOCKSIZE m) bad) = Some (ctx', b)
           \<and> drop BLOCKSIZE m = q @ b \<and> md_at c ctx' ((p @ take BLOCKSIZE m) @ q) [] \<and> length b < BLOCKSIZE))"
      by simp
    show ?thesis
    proof (intro conjI impI)
      assume "\<not> bad"
      with IH obtain ctx' q b where "stream_loop block ?ctx (plain_file (drop BLOCKSIZE m) bad) = Some (ctx', b)"
        "drop BLOCKSIZE m = q @ b" "md_at c ctx' ((p @ take BLOCKSIZE m) @ q) []" "length b < BLOCKSIZE" by blast
      then show "\<exists>ctx' q b. stream_loop block ctx (plain_file m bad) = Some (ctx', b) \<and> m = q @ b
          \<and> md_at c ctx' (p @ q) [] \<and> length b < BLOCKSIZE"
        using append_take_drop_id [of BLOCKSIZE m]
        by (intro exI [of _ ctx'] exI [of _ "take BLOCKSIZE m @ q"] exI [of _ b]) (simp add: step)
    qed (use IH step in simp)
  next
    case False
    with less.prems show ?thesis
      by (subst (1 2) stream_loop.simps) (auto simp: read_block_plain)
  qed
qed

lemma md_stream_plain:
  assumes "md_at c (init stk) [] []" "\<And>d ctx. block d ctx = md_process_block c d ctx"
    "\<And>d ctx. feed d ctx = md_process_bytes c un d ctx" "\<And>ctx m. md_repr c ctx m \<Longrightarrow> finish ctx = md_digest c m"
  shows "md_stream init block feed finish stk (plain_file m bad) = (if bad then None else Some (md_digest c m))"
proof (cases bad)
  case True
  with stream_loop_plain [OF assms(1,2), of bad m] show ?thesis by (simp add: md_stream_def)
next
  case False
  with stream_loop_plain [OF assms(1,2), of bad m] obtain ctx' q b where
    S: "stream_loop block (init stk) (plain_file m bad) = Some (ctx', b)" "m = q @ b" "md_at c ctx' q []" "length b < BLOCKSIZE"
    by auto
  have r: "md_repr c ctx' q" by (rule md_reprI [OF S(3)]) simp_all
  have "md_repr c (if b \<noteq> [] then feed b ctx' else ctx') m"
    using md_process_bytes_repr [OF r, of b un] r S(2,4) by (simp add: assms(3))
  with S(1) False show ?thesis by (simp add: md_stream_def assms(4))
qed

section \<open>Properties\<close>

text \<open>
  The digest of a file.  For a file of any length that ends regularly, md4_stream and md5_stream
  compute the standard's digest of its contents, whatever the boundary of its blocks; for one that
  ends with an error they return 1.
\<close>

theorem md_stream_file:
  assumes "length (md_buffer stk) = 128"
  shows "md4_stream stk un (plain_file m bad) = (if bad then None else Some (md_digest md4_compress m))
    \<and> md5_stream stk un (plain_file m bad) = (if bad then None else Some (md_digest md5_compress m))"
proof
  have "md_at md4_compress (md4_init_ctx stk) [] []" "md_at md5_compress (md5_init_ctx stk) [] []"
    using md_at_init [OF assms] by (simp_all add: md4_init_ctx_def md5_init_ctx_def)
  then show "md4_stream stk un (plain_file m bad) = (if bad then None else Some (md_digest md4_compress m))"
    "md5_stream stk un (plain_file m bad) = (if bad then None else Some (md_digest md5_compress m))"
    by (simp_all add: md4_stream_def md5_stream_def md_stream_plain [where un = un] md4_process_block_def
        md5_process_block_def md4_process_bytes_def md5_process_bytes_def md4_finish_repr md5_finish_repr)
qed

theorem md_stream_file_witness:
  "md5_stream blank_ctx False (plain_file (replicate 5000 1) False) = Some (md_digest md5_compress (replicate 5000 1))
   \<and> md5_stream blank_ctx False (plain_file (replicate 5000 1) True) = None"
  using md_stream_file [OF length_blank_ctx, of False "replicate 5000 1"] by simp

text \<open>An error that has passed is not forgotten: a file whose length is a whole number of blocks is then refused.\<close>

theorem md_stream_sticky_error:
  "length a + length b = BLOCKSIZE \<Longrightarrow> a \<noteq> [] \<Longrightarrow> b \<noteq> [] \<Longrightarrow>
   md5_stream stk un \<lparr>cf_segs = [a, b], cf_bad = False, cf_eof = False, cf_err = False\<rparr> = None"
proof -
  assume l: "length a + length b = BLOCKSIZE" "a \<noteq> []" "b \<noteq> []"
  let ?f = "\<lparr>cf_segs = [], cf_bad = False, cf_eof = False, cf_err = True\<rparr>"
  have "0 < length b" using l(3) by simp
  with l(1) have "length a < BLOCKSIZE" "BLOCKSIZE - length a = length b" by linarith+
  then have "read_block [] \<lparr>cf_segs = [a, b], cf_bad = False, cf_eof = False, cf_err = False\<rparr> = Block_full (a @ b) ?f"
    using l by (subst read_block.simps, subst read_block.simps) (simp add: cfread_def)
  moreover have "read_block [] ?f = Block_error" by (subst read_block.simps) (simp add: cfread_def)
  ultimately show ?thesis by (simp add: md5_stream_def md_stream_def stream_loop.simps)
qed

end
