(* ===== verification/Heap.thy ===== *)
theory Heap
  imports CPrelude
begin

text \<open>
  Memory for the data of utils.c: a heap of cells, \<open>malloc\<close>, \<open>free\<close> and \<open>strdup\<close>, and linked
  chains of nodes.  Address 0 is NULL.  The allocator hands out addresses that were never used
  before, so a stale pointer never becomes valid again: an access through one is \<open>UB\<close>, and so are a
  second \<open>free\<close>, \<open>free\<close> of a string literal and an access through NULL.  \<open>malloc\<close> returns NULL when
  no allocation is left.

  The locale \<open>chain\<close> states what a kind of node promises (which cells it consists of, that its
  link can be read and set) and proves once what appending, unlinking and releasing a node do to
  the list and to the rest of the heap.  It is interpreted on the nodes of header lists and of
  pointer lists where they are defined.
\<close>

type_synonym addr = nat

text \<open>
  A cell: uninitialised memory, a string from \<open>malloc\<close>, a string literal, bytes, a node of a header
  list (key, value, next), a node of a pointer list (key, aux, next), a structure with its
  numbers and its pointers.
\<close>

datatype cell =
    Undef
  | Str string
  | Lit string
  | Raw "byte list"
  | HNode addr addr addr
  | PNode u64 addr addr
  | Struct "int list" "addr list"

type_synonym heap = "addr \<rightharpoonup> cell"

record memory =
  mem_heap :: heap
  mem_next :: addr
  mem_left :: nat

definition mem_ok :: "memory \<Rightarrow> bool" where
  "mem_ok m \<longleftrightarrow> mem_heap m 0 = None \<and> 0 < mem_next m \<and> (\<forall>a \<ge> mem_next m. mem_heap m a = None)"

definition m_malloc :: "memory \<Rightarrow> cell \<Rightarrow> addr \<times> memory" where
  "m_malloc m c =
     (if mem_left m = 0 then (0, m)
      else (mem_next m, m\<lparr>mem_heap := (mem_heap m)(mem_next m \<mapsto> c), mem_next := Suc (mem_next m),
              mem_left := mem_left m - 1\<rparr>))"

definition m_free :: "memory \<Rightarrow> addr \<Rightarrow> memory c_result" where
  "m_free m p =
     (if p = 0 then Ret m
      else case mem_heap m p of
        None \<Rightarrow> UB
      | Some (Lit s) \<Rightarrow> UB
      | Some c \<Rightarrow> Ret (m\<lparr>mem_heap := (mem_heap m)(p := None)\<rparr>))"

definition m_store :: "memory \<Rightarrow> addr \<Rightarrow> cell \<Rightarrow> memory c_result" where
  "m_store m p c =
     (case mem_heap m p of
        None \<Rightarrow> UB
      | Some _ \<Rightarrow> Ret (m\<lparr>mem_heap := (mem_heap m)(p \<mapsto> c)\<rparr>))"

text \<open>The C string at an address.\<close>

definition str_at :: "heap \<Rightarrow> addr \<Rightarrow> string c_result" where
  "str_at h p = (case h p of Some (Str s) \<Rightarrow> Ret s | Some (Lit s) \<Rightarrow> Ret s | _ \<Rightarrow> UB)"

definition m_strdup :: "memory \<Rightarrow> addr \<Rightarrow> (addr \<times> memory) c_result" where
  "m_strdup m p = c_bind (str_at (mem_heap m) p) (\<lambda>s. Ret (m_malloc m (Str s)))"

text \<open>The link of a node.\<close>

fun next_of :: "cell \<Rightarrow> addr option" where
  "next_of (HNode k v n) = Some n"
| "next_of (PNode k a n) = Some n"
| "next_of _ = None"

fun with_next :: "cell \<Rightarrow> addr \<Rightarrow> cell" where
  "with_next (HNode k v _) n = HNode k v n"
| "with_next (PNode k a _) n = PNode k a n"
| "with_next c n = c"

definition set_next :: "memory \<Rightarrow> addr \<Rightarrow> addr \<Rightarrow> memory c_result" where
  "set_next m t n =
     (case mem_heap m t of
        None \<Rightarrow> UB
      | Some c \<Rightarrow> (if next_of c = None then UB else m_store m t (with_next c n)))"

text \<open>\<open>while (t->next) t = t->next;\<close>\<close>

partial_function (option) m_last :: "heap \<Rightarrow> addr \<Rightarrow> addr c_prog" where
  "m_last h t =
     (case h t of
        None \<Rightarrow> Some UB
      | Some c \<Rightarrow>
          (case next_of c of
             None \<Rightarrow> Some UB
           | Some n \<Rightarrow> if n = 0 then Some (Ret t) else m_last h n))"

text \<open>\<open>while (t) { rc++; t = t->next; }\<close>\<close>

partial_function (option) m_count :: "heap \<Rightarrow> addr \<Rightarrow> nat \<Rightarrow> nat c_prog" where
  "m_count h t rc =
     (if t = 0 then Some (Ret rc)
      else case h t of
        None \<Rightarrow> Some UB
      | Some c \<Rightarrow>
          (case next_of c of
             None \<Rightarrow> Some UB
           | Some n \<Rightarrow> m_count h n (Suc rc)))"

text \<open>
  \<open>while (t) { if (TEST(t)) break; ot = t; t = t->next; }\<close>, the search of every lookup; the result
  is the node before and the node found, or NULL.
\<close>

partial_function (option) m_find ::
  "(heap \<Rightarrow> addr \<Rightarrow> bool c_result) \<Rightarrow> heap \<Rightarrow> addr \<Rightarrow> addr \<Rightarrow> (addr \<times> addr) c_prog" where
  "m_find test h ot t =
     (if t = 0 then Some (Ret (ot, 0))
      else case test h t of
        UB \<Rightarrow> Some UB
      | Ret b \<Rightarrow>
          if b then Some (Ret (ot, t))
          else (case h t of
             None \<Rightarrow> Some UB
           | Some c \<Rightarrow>
               (case next_of c of
                  None \<Rightarrow> Some UB
                | Some n \<Rightarrow> m_find test h t n)))"

section \<open>Lemmas on cells\<close>

lemma mem_okD: "mem_ok m \<Longrightarrow> mem_heap m a = Some c \<Longrightarrow> a \<noteq> 0 \<and> a < mem_next m"
  unfolding mem_ok_def by (metis not_less option.distinct(1) gr0I)

lemma mem_ok_malloc:
  "mem_ok m \<Longrightarrow> 0 < mem_left m \<Longrightarrow> m_malloc m c = (a, m') \<Longrightarrow>
   mem_ok m' \<and> a \<noteq> 0 \<and> mem_heap m a = None \<and> mem_heap m' = (mem_heap m)(a \<mapsto> c)
     \<and> mem_left m = Suc (mem_left m')"
  by (auto simp: mem_ok_def m_malloc_def)

lemma mem_ok_free:
  "mem_ok m \<Longrightarrow> mem_heap m p = Some c \<Longrightarrow> (\<And>s. c \<noteq> Lit s) \<Longrightarrow>
   \<exists>m'. m_free m p = Ret m' \<and> mem_ok m' \<and> mem_heap m' = (mem_heap m)(p := None)
     \<and> mem_left m' = mem_left m"
  using mem_okD [of m p c] by (cases c) (auto simp: mem_ok_def m_free_def)

lemma m_free_NULL [simp]: "m_free m 0 = Ret m"
  by (simp add: m_free_def)

lemma mem_ok_store:
  "mem_ok m \<Longrightarrow> mem_heap m p = Some c \<Longrightarrow>
   \<exists>m'. m_store m p c' = Ret m' \<and> mem_ok m' \<and> mem_heap m' = (mem_heap m)(p \<mapsto> c')
     \<and> mem_left m' = mem_left m"
  using mem_okD [of m p c] by (auto simp: mem_ok_def m_store_def)

lemma mem_ok_set_next:
  "mem_ok m \<Longrightarrow> mem_heap m p = Some c \<Longrightarrow> next_of c = Some n \<Longrightarrow>
   \<exists>m'. set_next m p n' = Ret m' \<and> mem_ok m' \<and> mem_heap m' = (mem_heap m)(p \<mapsto> with_next c n')
     \<and> mem_left m' = mem_left m"
  using mem_ok_store [of m p c "with_next c n'"] by (simp add: set_next_def)

lemma mem_ok_strdup:
  assumes "mem_ok m" "0 < mem_left m" "str_at (mem_heap m) p = Ret s"
  shows "\<exists>a m'. m_strdup m p = Ret (a, m') \<and> mem_ok m' \<and> a \<noteq> 0 \<and> mem_heap m a = None
     \<and> mem_heap m' = (mem_heap m)(a \<mapsto> Str s) \<and> mem_left m = Suc (mem_left m')"
  using mem_ok_malloc [OF assms(1,2), of "Str s"] assms(3)
  by (cases "m_malloc m (Str s)") (simp add: m_strdup_def)

lemma str_at_upd: "h' p = h p \<Longrightarrow> str_at h' p = str_at h p"
  by (simp add: str_at_def)

lemma str_at_dom: "str_at h p = Ret s \<Longrightarrow> h p \<noteq> None"
  by (auto simp: str_at_def split: option.splits)

lemma str_at_nz: "mem_ok m \<Longrightarrow> str_at (mem_heap m) p = Ret s \<Longrightarrow> p \<noteq> 0"
  using str_at_dom [of "mem_heap m" p s] by (auto simp: mem_ok_def intro: gr0I)

lemma next_with_next [simp]: "next_of c = Some n \<Longrightarrow> next_of (with_next c n') = Some n'"
  by (cases c) auto

section \<open>Chains of nodes\<close>

text \<open>
  \<open>N h p n f t\<close> says that in heap \<open>h\<close> the node at \<open>p\<close> links to \<open>n\<close>, consists of the cells \<open>f\<close> and
  holds \<open>t\<close>; \<open>seg\<close> is a list of such nodes from \<open>p\<close> up to \<open>q\<close>.
\<close>

type_synonym 'a node = "heap \<Rightarrow> addr \<Rightarrow> addr \<Rightarrow> addr list \<Rightarrow> 'a \<Rightarrow> bool"

fun seg :: "'a node \<Rightarrow> heap \<Rightarrow> addr \<Rightarrow> addr list list \<Rightarrow> addr \<Rightarrow> 'a list \<Rightarrow> bool" where
  "seg N h p [] q [] = (p = q)"
| "seg N h p (f # fs) q (t # ts) = (\<exists>n. N h p n f t \<and> seg N h n fs q ts)"
| "seg N h p _ q _ = False"

text \<open>
  The memory holds the list \<open>l\<close> at \<open>p\<close> and beside it \<open>F\<close>: the cells of the list are all different,
  and \<open>F\<close> is the heap without them.
\<close>

definition holds :: "'a node \<Rightarrow> memory \<Rightarrow> addr \<Rightarrow> 'a list \<Rightarrow> heap \<Rightarrow> bool" where
  "holds N m p l F \<longleftrightarrow> mem_ok m \<and>
     (\<exists>fs. seg N (mem_heap m) p fs 0 l \<and> distinct (concat fs) \<and> F = mem_heap m |` (- set (concat fs)))"

lemma seg_Nil [simp]: "seg N h p fs q [] \<longleftrightarrow> fs = [] \<and> p = q"
  by (cases fs) auto

lemma seg_Nil2 [simp]: "seg N h p [] q l \<longleftrightarrow> l = [] \<and> p = q"
  by (cases l) auto

lemma seg_ConsD: "seg N h p fs q (t # ts) \<Longrightarrow> \<exists>f fs' n. fs = f # fs' \<and> N h p n f t \<and> seg N h n fs' q ts"
  by (cases fs) auto

lemma seg_appendI: "seg N h p fs r l \<Longrightarrow> seg N h r gs q l' \<Longrightarrow> seg N h p (fs @ gs) q (l @ l')"
  by (induction N h p fs r l rule: seg.induct) auto

lemma seg_appendD:
  "seg N h p fs q (l @ l') \<Longrightarrow> \<exists>gs gs' r. fs = gs @ gs' \<and> seg N h p gs r l \<and> seg N h r gs' q l'"
proof (induction l arbitrary: p fs)
  case (Cons t l)
  then obtain f fs' n where f: "fs = f # fs'" "N h p n f t" "seg N h n fs' q (l @ l')"
    by (auto dest: seg_ConsD)
  from Cons.IH [OF f(3)] obtain gs gs' r
    where g: "fs' = gs @ gs'" "seg N h n gs r l" "seg N h r gs' q l'" by blast
  have "seg N h p (f # gs) r (t # l)" using f(2) g(2) by auto
  with f(1) g show ?case by (intro exI [of _ "f # gs"] exI [of _ gs'] exI [of _ r]) simp
qed simp

lemma seg_length: "seg N h p fs q l \<Longrightarrow> length fs = length l"
  by (induction N h p fs q l rule: seg.induct) auto

lemma restrict_compl: "(h |` (- A)) x = (if x \<in> A then None else h x)"
  by (simp add: restrict_map_def)

locale chain =
  fixes N :: "'a node"
  assumes node_hd: "N h p n f t \<Longrightarrow> \<exists>g. f = p # g"
    and node_local: "N h p n f t \<Longrightarrow> (\<And>x. x \<in> set f \<Longrightarrow> h' x = h x) \<Longrightarrow> N h' p n f t"
    and node_dom: "N h p n f t \<Longrightarrow> x \<in> set f \<Longrightarrow> h x \<noteq> None"
    and node_next: "N h p n f t \<Longrightarrow> \<exists>c. h p = Some c \<and> next_of c = Some n"
    and node_link: "N h p n f t \<Longrightarrow> distinct f \<Longrightarrow> h p = Some c \<Longrightarrow> N (h(p \<mapsto> with_next c n')) p n' f t"
begin

lemma seg_local:
  "seg N h p fs q l \<Longrightarrow> (\<And>x. x \<in> set (concat fs) \<Longrightarrow> h' x = h x) \<Longrightarrow> seg N h' p fs q l"
proof (induction l arbitrary: p fs)
  case (Cons t l)
  then obtain f fs' n where f: "fs = f # fs'" "N h p n f t" "seg N h n fs' q l"
    by (auto dest: seg_ConsD)
  have "N h' p n f t" using node_local [OF f(2), of h'] Cons.prems(2) f(1) by auto
  moreover have "seg N h' n fs' q l" using Cons.IH [OF f(3)] Cons.prems(2) f(1) by auto
  ultimately show ?case using f(1) by auto
qed simp

lemma seg_dom: "seg N h p fs q l \<Longrightarrow> x \<in> set (concat fs) \<Longrightarrow> h x \<noteq> None"
proof (induction l arbitrary: p fs)
  case (Cons t l)
  then obtain f fs' n where f: "fs = f # fs'" "N h p n f t" "seg N h n fs' q l"
    by (auto dest: seg_ConsD)
  with Cons show ?case using node_dom [OF f(2), of x] by auto
qed simp

lemma node_nz: "h 0 = None \<Longrightarrow> N h p n f t \<Longrightarrow> p \<noteq> 0"
  using node_next [of h p n f t] by (metis option.distinct(1))

lemma seg_start: "h 0 = None \<Longrightarrow> seg N h p fs 0 l \<Longrightarrow> (p = 0 \<longleftrightarrow> l = []) \<and> (fs = [] \<longleftrightarrow> l = [])"
  by (cases l) (use node_nz in \<open>auto dest!: seg_ConsD\<close>)

text \<open>The last node of a list, and giving it another link.\<close>

lemma seg_last:
  "h 0 = None \<Longrightarrow> seg N h p (fs @ [f]) 0 l \<Longrightarrow> m_last h p = Some (Ret (hd f))"
proof (induction fs arbitrary: p l)
  case Nil
  then obtain t where "l = [t]" "N h p 0 f t" by (cases l) (auto dest: seg_ConsD)
  with node_hd [OF this(2)] node_next [OF this(2)] show ?case by (subst m_last.simps) auto
next
  case (Cons g fs)
  then obtain t ts n where n: "l = t # ts" "N h p n g t" "seg N h n (fs @ [f]) 0 ts" by (cases l) auto
  have "ts \<noteq> []" using n(3) by auto
  with seg_start [OF Cons.prems(1) n(3)] have "n \<noteq> 0" by simp
  with node_next [OF n(2)] Cons.IH [OF Cons.prems(1) n(3)] show ?case by (subst m_last.simps) auto
qed

lemma seg_relink:
  assumes "seg N h p (fs @ [f]) q l" "distinct (concat (fs @ [f]))" "h (hd f) = Some c"
  shows "seg N (h(hd f \<mapsto> with_next c q')) p (fs @ [f]) q' l"
proof -
  have "length l = length (fs @ [f])" using seg_length [OF assms(1)] by simp
  then obtain l1 t where l: "l = l1 @ [t]" by (cases l rule: rev_cases) auto
  from seg_appendD [OF assms(1) [unfolded l]] obtain gs gs' r
    where g: "fs @ [f] = gs @ gs'" "seg N h p gs r l1" "seg N h r gs' q [t]" by blast
  from seg_length [OF g(3)] g(1) have "gs = fs" "gs' = [f]" by auto
  with g have r: "seg N h p fs r l1" "seg N h r [f] q [t]" by auto
  from r(2) have n: "N h r q f t" by simp
  from node_hd [OF n] have hd: "hd f = r" "r \<in> set f" by auto
  have "seg N (h(r \<mapsto> with_next c q')) p fs r l1"
    by (rule seg_local [OF r(1)]) (use assms(2) hd in auto)
  moreover have "seg N (h(r \<mapsto> with_next c q')) r [f] q' [t]"
    using node_link [OF n, of c q'] assms(2,3) hd by auto
  ultimately show ?thesis unfolding l hd by (rule seg_appendI)
qed

text \<open>The number of nodes.\<close>

lemma seg_count: "h 0 = None \<Longrightarrow> seg N h p fs 0 l \<Longrightarrow> m_count h p rc = Some (Ret (rc + length l))"
proof (induction l arbitrary: p fs rc)
  case (Cons t l)
  then obtain f fs' n where f: "N h p n f t" "seg N h n fs' 0 l"
    by (auto dest: seg_ConsD)
  from node_nz [OF Cons.prems(1) f(1)] have "p \<noteq> 0" .
  with node_next [OF f(1)] Cons.IH [OF Cons.prems(1) f(2)] show ?case by (subst m_count.simps) auto
qed (simp add: m_count.simps)

end

section \<open>Lists in memory\<close>

lemma holds_ok: "holds N m p l F \<Longrightarrow> mem_ok m"
  by (simp add: holds_def)

lemma holds_Nil: "holds N m p [] F \<longleftrightarrow> mem_ok m \<and> p = 0 \<and> F = mem_heap m"
  by (auto simp: holds_def restrict_map_def)

lemma holds_heap0: "holds N m p l F \<Longrightarrow> mem_heap m 0 = None"
  by (simp add: holds_def mem_ok_def)

lemma holds_sub: "holds N m p l F \<Longrightarrow> F x = None \<or> F x = mem_heap m x"
  by (auto simp: holds_def restrict_map_def)

context chain
begin

lemma holds_NULL: "holds N m p l F \<Longrightarrow> p = 0 \<longleftrightarrow> l = []"
  using holds_heap0 [of N m p l F] seg_start by (auto simp: holds_def)

lemma holds_ConsD:
  assumes "holds N m p (t # ts) F"
  shows "\<exists>n f F'. N (mem_heap m) p n f t \<and> distinct f \<and> holds N m n ts F'
           \<and> (\<forall>x \<in> set f. F' x = mem_heap m x) \<and> F = F' |` (- set f)"
proof -
  from assms obtain n f fs where f: "N (mem_heap m) p n f t" "seg N (mem_heap m) n fs 0 ts"
      "distinct (concat (f # fs))" "F = mem_heap m |` (- set (concat (f # fs)))" "mem_ok m"
    unfolding holds_def by (auto dest: seg_ConsD)
  define F' where "F' = mem_heap m |` (- set (concat fs))"
  have "holds N m n ts F'" using f unfolding holds_def F'_def by auto
  moreover have "\<forall>x \<in> set f. F' x = mem_heap m x" using f(3) unfolding F'_def restrict_compl by auto
  moreover have "F = F' |` (- set f)" by (auto simp: f(4) F'_def restrict_map_def)
  ultimately show ?thesis using f(1,3) by auto
qed

lemma holds_first: "holds N m p (t # ts) F \<Longrightarrow> F p = None"
proof -
  assume "holds N m p (t # ts) F"
  from holds_ConsD [OF this] obtain n f F' where "N (mem_heap m) p n f t" "F = F' |` (- set f)" by blast
  with node_hd [of "mem_heap m" p n f t] show ?thesis by (auto simp: restrict_compl)
qed

text \<open>A change of one cell beside the list.\<close>

lemma holds_upd:
  assumes "holds N m p l F" "mem_ok m'" "mem_heap m' = (mem_heap m)(x := v)" "F x = mem_heap m x"
  shows "holds N m' p l (F(x := v))"
proof -
  from assms(1) obtain fs where fs: "seg N (mem_heap m) p fs 0 l" "distinct (concat fs)"
      "F = mem_heap m |` (- set (concat fs))"
    by (auto simp: holds_def)
  have x: "x \<notin> set (concat fs)"
  proof
    assume "x \<in> set (concat fs)"
    then have "F x = None" "mem_heap m x \<noteq> None" using fs(3) seg_dom [OF fs(1)] by (auto simp: restrict_map_def)
    with assms(4) show False by simp
  qed
  then have "seg N (mem_heap m') p fs 0 l" using assms(3) by (intro seg_local [OF fs(1)]) auto
  moreover have "F(x := v) = mem_heap m' |` (- set (concat fs))"
    using x assms(3) fs(3) by (auto simp: restrict_map_def)
  ultimately show ?thesis using fs(2) assms(2) by (auto simp: holds_def)
qed

text \<open>Cells beside the list that are gone.\<close>

lemma holds_restrict:
  assumes "holds N m p l F" "mem_ok m'" "mem_heap m' = mem_heap m |` (- A)" "\<And>x. x \<in> A \<Longrightarrow> F x = mem_heap m x"
  shows "holds N m' p l (F |` (- A))"
proof -
  from assms(1) obtain fs where fs: "seg N (mem_heap m) p fs 0 l" "distinct (concat fs)"
      "F = mem_heap m |` (- set (concat fs))"
    by (auto simp: holds_def)
  have "x \<notin> A" if "x \<in> set (concat fs)" for x
    using seg_dom [OF fs(1) that] assms(4) [of x] that unfolding fs(3) restrict_compl by metis
  then have "seg N (mem_heap m') p fs 0 l" unfolding assms(3) by (intro seg_local [OF fs(1)]) (simp only: restrict_compl if_False)
  moreover have "(F |` (- A)) x = (mem_heap m' |` (- set (concat fs))) x" for x
    unfolding assms(3) fs(3) restrict_compl by simp
  ultimately show ?thesis using fs(2) assms(2) unfolding holds_def by blast
qed

text \<open>Releasing a cell beside the list.\<close>

lemma holds_free:
  assumes "holds N m p l F" "F x = Some c" "\<And>s. c \<noteq> Lit s"
  shows "\<exists>m'. m_free m x = Ret m' \<and> holds N m' p l (F(x := None))
     \<and> mem_heap m' = (mem_heap m)(x := None) \<and> mem_left m' = mem_left m"
proof -
  have x: "mem_heap m x = Some c" using holds_sub [OF assms(1), of x] assms(2) by auto
  from mem_ok_free [OF holds_ok [OF assms(1)] x assms(3)] obtain m'
    where m: "m_free m x = Ret m'" "mem_ok m'" "mem_heap m' = (mem_heap m)(x := None)"
      "mem_left m' = mem_left m" by auto
  with holds_upd [OF assms(1) m(2,3)] x assms(2) show ?thesis by auto
qed

text \<open>A new cell beside the list.\<close>

lemma holds_malloc:
  assumes "holds N m p l F" "0 < mem_left m"
  shows "\<exists>a m'. m_malloc m c = (a, m') \<and> a \<noteq> 0 \<and> mem_heap m a = None \<and> holds N m' p l (F(a \<mapsto> c))
     \<and> mem_heap m' = (mem_heap m)(a \<mapsto> c) \<and> mem_left m = Suc (mem_left m')"
proof -
  obtain a m' where "m_malloc m c = (a, m')" by fastforce
  with mem_ok_malloc [OF holds_ok [OF assms(1)] assms(2) this]
    holds_upd [OF assms(1), of m' a "Some c"] holds_sub [OF assms(1), of a]
  show ?thesis by auto
qed

text \<open>Appending a node that lies beside the list.\<close>

lemma holds_append:
  assumes "holds N m p l F" "N (mem_heap m) a 0 f t" "distinct f"
    and "\<And>x. x \<in> set f \<Longrightarrow> F x = mem_heap m x"
  shows "if p = 0 then holds N m a [t] (F |` (- set f))
    else \<exists>b m'. m_last (mem_heap m) p = Some (Ret b) \<and> set_next m b a = Ret m'
           \<and> holds N m' p (l @ [t]) (F |` (- set f)) \<and> mem_left m' = mem_left m"
proof -
  from assms(1) obtain fs where fs: "seg N (mem_heap m) p fs 0 l" "distinct (concat fs)"
      "F = mem_heap m |` (- set (concat fs))"
    by (auto simp: holds_def)
  note ok = holds_ok [OF assms(1)] and h0 = holds_heap0 [OF assms(1)]
  have dis: "set f \<inter> set (concat fs) = {}"
  proof -
    have "x \<notin> set (concat fs)" if "x \<in> set f" for x
      using assms(4) [OF that] node_dom [OF assms(2) that] unfolding fs(3) restrict_compl by metis
    then show ?thesis by auto
  qed
  show ?thesis
  proof (cases "p = 0")
    case True
    with seg_start [OF h0 fs(1)] fs(3) have "F = mem_heap m" "fs = []" "l = []" by (auto simp: restrict_map_def)
    moreover have "seg N (mem_heap m) a [f] 0 [t]" using assms(2) by simp
    ultimately have "holds N m a [t] (F |` (- set f))"
      unfolding holds_def using assms(3) ok by (intro conjI exI [of _ "[f]"]) auto
    with True show ?thesis by simp
  next
    case False
    with seg_start [OF h0 fs(1)] obtain gs g where g: "fs = gs @ [g]" by (cases fs rule: rev_cases) auto
    have last: "m_last (mem_heap m) p = Some (Ret (hd g))" using seg_last [of "mem_heap m", OF h0] fs(1) g by simp
    from fs(1) g obtain r n l1 t1 where n: "N (mem_heap m) r n g t1" "l = l1 @ [t1]"
    proof -
      have "length l = Suc (length gs)" using seg_length [OF fs(1)] g by simp
      then obtain l1 t1 where l: "l = l1 @ [t1]" by (cases l rule: rev_cases) auto
      from seg_appendD [OF fs(1) [unfolded l]] obtain hs hs' r
        where hs: "fs = hs @ hs'" "seg N (mem_heap m) r hs' 0 [t1]" by blast
      with seg_length [OF hs(2)] g have "hs' = [g]" by (cases hs') auto
      with hs(2) that l show ?thesis by auto
    qed
    from node_hd [OF n(1)] have hd: "hd g = r" "r \<in> set g" by auto
    from node_next [OF n(1)] obtain c where c: "mem_heap m r = Some c" "next_of c = Some n" by auto
    from mem_ok_set_next [OF ok c] obtain m' where m': "set_next m r a = Ret m'" "mem_ok m'"
      "mem_heap m' = (mem_heap m)(r \<mapsto> with_next c a)" "mem_left m' = mem_left m" by blast
    have "seg N (mem_heap m') p fs a l"
      using seg_relink [of "mem_heap m" p gs g 0 l c a] fs(1,2) g hd c(1) m'(3) by auto
    moreover have "r \<notin> set f" using dis hd g by auto
    then have "N (mem_heap m') a 0 f t" using m'(3) by (intro node_local [OF assms(2)]) auto
    then have "seg N (mem_heap m') a [f] 0 [t]" by simp
    ultimately have "seg N (mem_heap m') p (fs @ [f]) 0 (l @ [t])" by (rule seg_appendI)
    moreover have "distinct (concat (fs @ [f]))" using fs(2) assms(3) dis by auto
    moreover have "F |` (- set f) = mem_heap m' |` (- set (concat (fs @ [f])))"
      using fs(3) m'(3) hd g by (auto simp: restrict_map_def)
    ultimately have "holds N m' p (l @ [t]) (F |` (- set f))" unfolding holds_def using m'(2) by blast
    with False last hd(1) m' show ?thesis by auto
  qed
qed

end

section \<open>Finding and unlinking a node\<close>

text \<open>
  The list in memory is \<open>l1\<close>, a node at \<open>a\<close> with cells \<open>f\<close> that holds \<open>t\<close> and links to \<open>n\<close>, and
  \<open>l2\<close>; \<open>prev\<close> is the node before \<open>a\<close>, if any.
\<close>

definition at_node ::
  "'a node \<Rightarrow> memory \<Rightarrow> addr \<Rightarrow> 'a list \<Rightarrow> 'a \<Rightarrow> 'a list \<Rightarrow> heap \<Rightarrow> addr \<Rightarrow> addr \<Rightarrow> addr \<Rightarrow> addr list \<Rightarrow> bool" where
  "at_node N m p l1 t l2 F prev a n f \<longleftrightarrow> mem_ok m \<and>
     (\<exists>fs1 fs2. seg N (mem_heap m) p fs1 a l1 \<and> N (mem_heap m) a n f t \<and> seg N (mem_heap m) n fs2 0 l2
        \<and> distinct (concat (fs1 @ f # fs2)) \<and> F = mem_heap m |` (- set (concat (fs1 @ f # fs2)))
        \<and> prev = (if fs1 = [] then 0 else hd (last fs1)))"

context chain
begin

lemma find_absent:
  assumes "\<And>p n f t. N h p n f t \<Longrightarrow> test h p = Ret (P t)" "h 0 = None"
  shows "seg N h p fs 0 l \<Longrightarrow> \<forall>t \<in> set l. \<not> P t \<Longrightarrow> \<exists>r. m_find test h ot p = Some (Ret (r, 0))"
proof (induction l arbitrary: p fs ot)
  case (Cons t l)
  then obtain f fs' n where f: "N h p n f t" "seg N h n fs' 0 l" by (auto dest: seg_ConsD)
  from Cons.IH [OF f(2), of p] Cons.prems(2) obtain r where "m_find test h p n = Some (Ret (r, 0))" by auto
  with assms(1) [OF f(1)] node_next [OF f(1)] node_nz [OF assms(2) f(1)] Cons.prems(2) show ?case
    by (subst m_find.simps) auto
qed (simp add: m_find.simps)

lemma find_present:
  assumes "\<And>p n f t. N h p n f t \<Longrightarrow> test h p = Ret (P t)" "h 0 = None" "N h a n f t" "P t"
  shows "seg N h p fs a l \<Longrightarrow> \<forall>t \<in> set l. \<not> P t \<Longrightarrow>
    m_find test h ot p = Some (Ret (if fs = [] then ot else hd (last fs), a))"
proof (induction l arbitrary: p fs ot)
  case Nil
  with assms(1) [OF assms(3)] assms(4) node_nz [OF assms(2,3)] show ?case by (subst m_find.simps) simp
next
  case (Cons u l)
  then obtain g fs' k where g: "fs = g # fs'" "N h p k g u" "seg N h k fs' a l" by (auto dest: seg_ConsD)
  from Cons.IH [OF g(3), of p] Cons.prems(2)
  have "m_find test h p k = Some (Ret (if fs' = [] then p else hd (last fs'), a))" by auto
  with assms(1) [OF g(2)] node_next [OF g(2)] node_nz [OF assms(2) g(2)] node_hd [OF g(2)] Cons.prems(2) g(1)
  show ?case by (subst m_find.simps) auto
qed

text \<open>The search over a list in memory.\<close>

lemma holds_find:
  assumes "holds N m p l F" "\<And>p n f t. N (mem_heap m) p n f t \<Longrightarrow> test (mem_heap m) p = Ret (P t)"
  shows "(\<exists>r. m_find test (mem_heap m) 0 p = Some (Ret (r, 0)) \<and> (\<forall>t \<in> set l. \<not> P t)) \<or>
    (\<exists>l1 t l2 prev a n f. m_find test (mem_heap m) 0 p = Some (Ret (prev, a)) \<and> l = l1 @ t # l2 \<and> P t
       \<and> (\<forall>u \<in> set l1. \<not> P u) \<and> a \<noteq> 0 \<and> at_node N m p l1 t l2 F prev a n f)"
proof (cases "\<exists>t \<in> set l. P t")
  case False
  from assms(1) obtain fs where "seg N (mem_heap m) p fs 0 l" by (auto simp: holds_def)
  from find_absent [of "mem_heap m" test P, OF assms(2) holds_heap0 [OF assms(1)] this] False
  show ?thesis by auto
next
  case True
  then obtain l1 t l2 where l: "l = l1 @ t # l2" "P t" "\<forall>u \<in> set l1. \<not> P u"
    using split_list_first_prop [of l P] by blast
  from assms(1) obtain fs where fs: "seg N (mem_heap m) p fs 0 (l1 @ t # l2)" "distinct (concat fs)"
      "F = mem_heap m |` (- set (concat fs))" "mem_ok m"
    by (auto simp: holds_def l(1))
  from seg_appendD [OF fs(1)] obtain fs1 gs a
    where g: "fs = fs1 @ gs" "seg N (mem_heap m) p fs1 a l1" "seg N (mem_heap m) a gs 0 (t # l2)" by blast
  from seg_ConsD [OF g(3)] obtain f fs2 n
    where f: "gs = f # fs2" "N (mem_heap m) a n f t" "seg N (mem_heap m) n fs2 0 l2" by blast
  let ?prev = "if fs1 = [] then 0 else hd (last fs1)"
  have "at_node N m p l1 t l2 F ?prev a n f"
    unfolding at_node_def using fs g f by blast
  moreover have "m_find test (mem_heap m) 0 p = Some (Ret (?prev, a))"
    using find_present [of "mem_heap m" test P, OF assms(2) holds_heap0 [OF assms(1)] f(2) l(2) g(2) l(3)] by simp
  ultimately show ?thesis using l node_nz [OF holds_heap0 [OF assms(1)] f(2)] by blast
qed

lemma at_nodeD:
  assumes "at_node N m p l1 t l2 F prev a n f"
  shows "N (mem_heap m) a n f t" "distinct f" "mem_ok m" "holds N m p (l1 @ t # l2) F"
proof -
  from assms obtain fs1 fs2 where s: "seg N (mem_heap m) p fs1 a l1" "N (mem_heap m) a n f t"
      "seg N (mem_heap m) n fs2 0 l2" "distinct (concat (fs1 @ f # fs2))"
      "F = mem_heap m |` (- set (concat (fs1 @ f # fs2)))" "mem_ok m"
    by (auto simp: at_node_def)
  from s show "N (mem_heap m) a n f t" "distinct f" "mem_ok m" by auto
  have "seg N (mem_heap m) a (f # fs2) 0 (t # l2)" using s by auto
  from seg_appendI [OF s(1) this] s show "holds N m p (l1 @ t # l2) F" unfolding holds_def by blast
qed

text \<open>The node gets other contents, in cells it has or in new ones.\<close>

lemma at_node_replace:
  assumes "at_node N m p l1 t l2 F prev a n f" "mem_ok m1" "N (mem_heap m1) a n g u" "distinct g"
    and same: "\<And>x. x \<notin> set f \<Longrightarrow> x \<notin> set g \<Longrightarrow> mem_heap m1 x = mem_heap m x"
    and new: "\<And>x. x \<in> set g \<Longrightarrow> x \<notin> set f \<Longrightarrow> mem_heap m x = None"
    and gone: "\<And>x. x \<in> set f \<Longrightarrow> x \<notin> set g \<Longrightarrow> mem_heap m1 x = None"
  shows "holds N m1 p (l1 @ u # l2) F"
proof -
  from assms(1) obtain fs1 fs2 where s: "seg N (mem_heap m) p fs1 a l1" "seg N (mem_heap m) n fs2 0 l2"
      "distinct (concat (fs1 @ f # fs2))" "F = mem_heap m |` (- set (concat (fs1 @ f # fs2)))"
    by (auto simp: at_node_def)
  have out: "x \<notin> set f \<and> x \<notin> set g" if "x \<in> set (concat fs1) \<or> x \<in> set (concat fs2)" for x
  proof -
    have "set f \<inter> set (concat fs1) = {}" "set f \<inter> set (concat fs2) = {}" using s(3) by auto
    with that have f: "x \<notin> set f" by blast
    from that seg_dom [OF s(1), of x] seg_dom [OF s(2), of x] have "mem_heap m x \<noteq> None" by blast
    with f new [of x] show ?thesis by blast
  qed
  have "seg N (mem_heap m1) p fs1 a l1" using out same by (intro seg_local [OF s(1)]) blast
  moreover have "seg N (mem_heap m1) n fs2 0 l2" using out same by (intro seg_local [OF s(2)]) blast
  ultimately have "seg N (mem_heap m1) p (fs1 @ g # fs2) 0 (l1 @ u # l2)"
    using assms(3) by (intro seg_appendI) auto
  moreover have "set g \<inter> (set (concat fs1) \<union> set (concat fs2)) = {}" using out by blast
  with s(3) assms(4) have "distinct (concat (fs1 @ g # fs2))" by (auto simp: Int_Un_distrib)
  moreover have "F x = (mem_heap m1 |` (- set (concat (fs1 @ g # fs2)))) x" for x
    unfolding s(4) restrict_compl using same [of x] new [of x] gone [of x] by auto
  ultimately show ?thesis unfolding holds_def using assms(2) by blast
qed

text \<open>Once its cells are released the node is unlinked.\<close>

lemma at_node_unlink:
  assumes "at_node N m p l1 t l2 F prev a n f" "mem_ok m1" "mem_heap m1 = mem_heap m |` (- set f)"
  shows "if prev = 0 then holds N m1 n (l1 @ l2) F
    else \<exists>m2. set_next m1 prev n = Ret m2 \<and> holds N m2 p (l1 @ l2) F \<and> mem_left m2 = mem_left m1"
proof -
  from assms(1) obtain fs1 fs2 where s: "seg N (mem_heap m) p fs1 a l1" "N (mem_heap m) a n f t"
      "seg N (mem_heap m) n fs2 0 l2" "distinct (concat (fs1 @ f # fs2))"
      "F = mem_heap m |` (- set (concat (fs1 @ f # fs2)))" "mem_ok m"
      "prev = (if fs1 = [] then 0 else hd (last fs1))"
    by (auto simp: at_node_def)
  have h1: "mem_heap m1 x = mem_heap m x" if "x \<notin> set f" for x using that by (simp add: assms(3) restrict_compl)
  have s1: "seg N (mem_heap m1) p fs1 a l1" using s(4) by (intro seg_local [OF s(1)] h1) auto
  have s2: "seg N (mem_heap m1) n fs2 0 l2" using s(4) by (intro seg_local [OF s(3)] h1) auto
  have F1: "F = mem_heap m1 |` (- set (concat (fs1 @ fs2)))"
    unfolding s(5) assms(3) by (rule ext) (simp only: restrict_compl, simp)
  show ?thesis
  proof (cases "fs1 = []")
    case True
    with s(1,7) s2 F1 s(4) assms(2) show ?thesis by (auto simp: holds_def)
  next
    case False
    then obtain gs g where g: "fs1 = gs @ [g]" by (cases fs1 rule: rev_cases) auto
    have "length l1 = Suc (length gs)" using seg_length [OF s(1)] g by simp
    then obtain k1 u where k: "l1 = k1 @ [u]" by (cases l1 rule: rev_cases) auto
    from seg_appendD [OF s1 [unfolded k]] obtain hs hs' r
      where hs: "fs1 = hs @ hs'" "seg N (mem_heap m1) r hs' a [u]" by blast
    with seg_length [OF hs(2)] g have "hs' = [g]" by (cases hs') auto
    with hs have r: "N (mem_heap m1) r a g u" by auto
    from node_hd [OF r] have hd: "hd g = r" "r \<in> set g" by auto
    from node_next [OF r] obtain c where c: "mem_heap m1 r = Some c" "next_of c = Some a" by auto
    from mem_okD [OF assms(2) c(1)] have "r \<noteq> 0" by simp
    from mem_ok_set_next [OF assms(2) c] obtain m2 where m2: "set_next m1 r n = Ret m2" "mem_ok m2"
      "mem_heap m2 = (mem_heap m1)(r \<mapsto> with_next c n)" "mem_left m2 = mem_left m1" by blast
    have "seg N (mem_heap m2) p fs1 n l1"
    proof -
      have "distinct (concat (gs @ [g]))" using s(4) g by (simp add: Int_Un_distrib)
      with seg_relink [of "mem_heap m1" p gs g a l1 c n] s1 g hd c(1) m2(3) show ?thesis by simp
    qed
    moreover have "r \<notin> set (concat fs2)" using s(4) g hd by auto
    then have "seg N (mem_heap m2) n fs2 0 l2" using m2(3) by (intro seg_local [OF s2]) auto
    ultimately have "seg N (mem_heap m2) p (fs1 @ fs2) 0 (l1 @ l2)" by (rule seg_appendI)
    moreover have "F = mem_heap m2 |` (- set (concat (fs1 @ fs2)))"
      unfolding F1 m2(3) using g hd by (intro ext) (simp only: restrict_compl, auto)
    moreover have "distinct (concat (fs1 @ fs2))" using s(4) by (simp add: Int_Un_distrib)
    ultimately have "holds N m2 p (l1 @ l2) F" unfolding holds_def using m2(2) by blast
    with m2 hd g s(7) False \<open>r \<noteq> 0\<close> show ?thesis by auto
  qed
qed

end

end
