(* ===== verification/PListMem.thy ===== *)
theory PListMem
  imports Heap PList
begin

text \<open>
  The pointer lists of utils.c as nodes in memory: plist_add, plist_del, plist_in, plist_get,
  plist_pop, plist_count and plist_free.  \<open>plist_mem m p l F\<close> says that the memory holds the list
  \<open>l\<close> of theory PList, whose pointers are addresses, at \<open>p\<close>, each node owning the cell its pointer
  names, and \<open>F\<close> beside it.
\<close>

fun ptr :: "addr option \<Rightarrow> addr" where
  "ptr None = 0"
| "ptr (Some a) = a"

text \<open>A pointer that \<open>free\<close> accepts.\<close>

definition aux_cell :: "heap \<Rightarrow> addr option \<Rightarrow> bool" where
  "aux_cell h x = (case x of
       None \<Rightarrow> True
     | Some a \<Rightarrow> a \<noteq> 0 \<and> (case h a of None \<Rightarrow> False | Some (Lit s) \<Rightarrow> False | Some _ \<Rightarrow> True))"

definition pnode :: "heap \<Rightarrow> addr \<Rightarrow> addr \<Rightarrow> addr list \<Rightarrow> addr plist_s \<Rightarrow> bool" where
  "pnode h p n f t \<longleftrightarrow> f = p # (case paux t of None \<Rightarrow> [] | Some a \<Rightarrow> [a])
     \<and> h p = Some (PNode (pkey t) (ptr (paux t)) n) \<and> aux_cell h (paux t)"

abbreviation plist_mem :: "memory \<Rightarrow> addr \<Rightarrow> addr plist_t \<Rightarrow> heap \<Rightarrow> bool" where
  "plist_mem \<equiv> holds pnode"

section \<open>Operations\<close>

definition m_plist_add :: "memory \<Rightarrow> addr \<Rightarrow> u64 \<Rightarrow> addr \<Rightarrow> (addr \<times> memory) c_prog" where
  "m_plist_add m list key aux =
     (let (tmp, m0) = m_malloc m Undef
      in p_bind (Some (m_store m0 tmp (PNode key aux 0))) (\<lambda>m1.
        if list = 0 then Some (Ret (tmp, m1))
        else p_bind (m_last (mem_heap m1) list) (\<lambda>t.
          Some (c_bind (set_next m1 t tmp) (\<lambda>m2. Ret (list, m2))))))"

text \<open>\<open>t->key == key\<close>\<close>

definition pkey_test :: "u64 \<Rightarrow> heap \<Rightarrow> addr \<Rightarrow> bool c_result" where
  "pkey_test key h t = (case h t of Some (PNode k a n) \<Rightarrow> Ret (k = key) | _ \<Rightarrow> UB)"

text \<open>\<open>if (t->aux) free(t->aux); free(t);\<close>\<close>

definition pnode_free :: "memory \<Rightarrow> addr \<Rightarrow> addr \<Rightarrow> memory c_result" where
  "pnode_free m aux t =
     c_bind (if aux \<noteq> 0 then m_free m aux else Ret m) (\<lambda>m1. m_free m1 t)"

definition m_plist_del :: "memory \<Rightarrow> addr \<Rightarrow> u64 \<Rightarrow> (addr \<times> memory) c_prog" where
  "m_plist_del m list key =
     p_bind (m_find (pkey_test key) (mem_heap m) 0 list) (\<lambda>(ot, t).
       if t = 0 then Some (Ret (list, m))
       else case mem_heap m t of
         Some (PNode k aux tmp) \<Rightarrow>
           Some (c_bind (pnode_free m aux t) (\<lambda>m1.
             if ot = 0 then Ret (tmp, m1)
             else c_bind (set_next m1 ot tmp) (\<lambda>m2. Ret (list, m2))))
       | _ \<Rightarrow> Some UB)"

definition m_plist_in :: "memory \<Rightarrow> addr \<Rightarrow> u64 \<Rightarrow> bool c_prog" where
  "m_plist_in m list key =
     p_bind (m_find (pkey_test key) (mem_heap m) 0 list) (\<lambda>(ot, t). Some (Ret (t \<noteq> 0)))"

definition m_plist_get :: "memory \<Rightarrow> addr \<Rightarrow> int \<Rightarrow> addr c_prog" where
  "m_plist_get m list key =
     p_bind (m_find (pkey_test (word_of_int key)) (mem_heap m) 0 list) (\<lambda>(ot, t).
       if t = 0 then Some (Ret 0)
       else case mem_heap m t of Some (PNode k aux n) \<Rightarrow> Some (Ret aux) | _ \<Rightarrow> Some UB)"

text \<open>
  The loop of plist_pop: the descriptor and pointer of the open one (if any), the rest of the list,
  the descriptors closed, the memory.
\<close>

partial_function (option) m_plist_pop_loop ::
  "(int \<Rightarrow> bool) \<Rightarrow> memory \<Rightarrow> addr \<Rightarrow> int list \<Rightarrow> ((int \<times> addr) option \<times> addr \<times> int list \<times> memory) c_prog" where
  "m_plist_pop_loop closed m t cl =
     (if t = 0 then Some (Ret (None, 0, cl, m))
      else case mem_heap m t of
        Some (PNode k aux tmp) \<Rightarrow>
          (let fd = key_fd k
           in if closed fd
              then (case pnode_free m aux t of
                      UB \<Rightarrow> Some UB
                    | Ret m1 \<Rightarrow> m_plist_pop_loop closed m1 tmp (cl @ [fd]))
              else (case m_free m t of
                      UB \<Rightarrow> Some UB
                    | Ret m1 \<Rightarrow> Some (Ret (Some (fd, aux), tmp, cl, m1))))
      | _ \<Rightarrow> Some UB)"

text \<open>\<open>list\<close> is the value of \<open>*list\<close>; the result is the id, \<open>*aux\<close>, the new \<open>*list\<close>.\<close>

definition m_plist_pop ::
  "(int \<Rightarrow> bool) \<Rightarrow> memory \<Rightarrow> addr \<Rightarrow> (int \<times> addr option \<times> addr \<times> int list \<times> memory) c_prog" where
  "m_plist_pop closed m list =
     p_bind (m_plist_pop_loop closed m list []) (\<lambda>(r, t, cl, m1).
       case r of
         None \<Rightarrow> Some (Ret (0, None, t, cl, m1))
       | Some (fd, a) \<Rightarrow> Some (Ret (fd, Some a, t, cl, m1)))"

definition m_plist_count :: "memory \<Rightarrow> addr \<Rightarrow> nat c_prog" where
  "m_plist_count m list = m_count (mem_heap m) list 0"

partial_function (option) m_plist_free :: "memory \<Rightarrow> addr \<Rightarrow> (addr \<times> memory) c_prog" where
  "m_plist_free m list =
     (if list = 0 then Some (Ret (0, m))
      else case mem_heap m list of
        Some (PNode k aux t) \<Rightarrow>
          (case pnode_free m aux list of UB \<Rightarrow> Some UB | Ret m1 \<Rightarrow> m_plist_free m1 t)
      | _ \<Rightarrow> Some UB)"

text \<open>
  What proxy_connect does with the cache of connections when it has moved to another parent: a loop
  that closes every descriptor, then plist_free, whose result is not stored: the pointer to the
  list, returned here with the closed descriptors, is the one it was.
\<close>

partial_function (option) m_close_all :: "heap \<Rightarrow> addr \<Rightarrow> int list \<Rightarrow> int list c_prog" where
  "m_close_all h list cl =
     (if list = 0 then Some (Ret cl)
      else case h list of
        Some (PNode k aux tmp) \<Rightarrow> m_close_all h tmp (cl @ [key_fd k])
      | _ \<Rightarrow> Some UB)"

definition m_invalidate_cache :: "memory \<Rightarrow> addr \<Rightarrow> (int list \<times> addr \<times> memory) c_prog" where
  "m_invalidate_cache m connection_list =
     p_bind (m_close_all (mem_heap m) connection_list []) (\<lambda>cl.
     p_bind (m_plist_free m connection_list) (\<lambda>(_, m1). Some (Ret (cl, connection_list, m1))))"

section \<open>Pointer nodes form chains\<close>

lemma pnode_link:
  assumes "pnode h p n f t" "distinct f" "h p = Some c"
  shows "pnode (h(p \<mapsto> with_next c n')) p n' f t"
  using assms by (auto simp: pnode_def aux_cell_def split: option.splits)

interpretation pch: chain pnode
proof unfold_locales
  fix h h' :: heap and p n f t
  assume "pnode h p n f t" and "\<And>x. x \<in> set f \<Longrightarrow> h' x = h x"
  then show "pnode h' p n f t" by (auto simp: pnode_def aux_cell_def split: option.splits)
next
  fix h :: heap and p n f t x
  assume "pnode h p n f t" "x \<in> set f"
  then show "h x \<noteq> None" by (auto simp: pnode_def aux_cell_def split: option.splits)
next
  fix h :: heap and p n n' f t c
  assume "pnode h p n f t" "distinct f" "h p = Some c"
  then show "pnode (h(p \<mapsto> with_next c n')) p n' f t" by (rule pnode_link)
qed (auto simp: pnode_def)

lemma pkey_test_pnode: "pnode h p n f t \<Longrightarrow> pkey_test key h p = Ret (pkey t = key)"
  by (auto simp: pnode_def pkey_test_def)

section \<open>Refinement\<close>

lemma plist_find:
  assumes "plist_mem m p l F"
  shows "(\<exists>r. m_find (pkey_test key) (mem_heap m) 0 p = Some (Ret (r, 0)) \<and> \<not> plist_in l key) \<or>
    (\<exists>l1 t l2 prev a n f. m_find (pkey_test key) (mem_heap m) 0 p = Some (Ret (prev, a)) \<and> a \<noteq> 0
       \<and> l = l1 @ t # l2 \<and> pkey t = key \<and> \<not> plist_in l1 key
       \<and> at_node pnode m p l1 t l2 F prev a n f \<and> mem_heap m a = Some (PNode key (ptr (paux t)) n))"
proof -
  have test: "\<And>p n f t. pnode (mem_heap m) p n f t \<Longrightarrow> pkey_test key (mem_heap m) p = Ret (pkey t = key)"
    by (rule pkey_test_pnode)
  consider r where "m_find (pkey_test key) (mem_heap m) 0 p = Some (Ret (r, 0))" "\<forall>t \<in> set l. pkey t \<noteq> key"
    | l1 t l2 prev a n f where "m_find (pkey_test key) (mem_heap m) 0 p = Some (Ret (prev, a))" "l = l1 @ t # l2"
      "pkey t = key" "\<forall>u \<in> set l1. pkey u \<noteq> key" "a \<noteq> 0" "at_node pnode m p l1 t l2 F prev a n f"
    using pch.holds_find [OF assms, of "pkey_test key" "\<lambda>t. pkey t = key"] test by blast
  then show ?thesis
  proof cases
    case 1
    then show ?thesis by auto
  next
    case 2
    from pch.at_nodeD(1) [OF 2(6)] 2(3) have "mem_heap m a = Some (PNode key (ptr (paux t)) n)"
      by (auto simp: pnode_def)
    moreover have "\<not> plist_in l1 key" using 2(4) by auto
    ultimately show ?thesis using 2 by blast
  qed
qed

lemma pnode_free_ok:
  assumes "mem_ok m" "pnode (mem_heap m) a n f t" "distinct f"
  shows "\<exists>m1. pnode_free m (ptr (paux t)) a = Ret m1 \<and> mem_ok m1 \<and> mem_heap m1 = mem_heap m |` (- set f)
    \<and> mem_left m1 = mem_left m"
proof (cases "paux t")
  case None
  with assms mem_ok_free [of m a "PNode (pkey t) 0 n"] show ?thesis
    by (auto simp: pnode_def pnode_free_def restrict_map_def intro!: ext)
next
  case (Some x)
  with assms(2,3) obtain c where c: "f = [a, x]" "x \<noteq> 0" "x \<noteq> a" "mem_heap m x = Some c" "\<And>s. c \<noteq> Lit s"
    "mem_heap m a = Some (PNode (pkey t) x n)"
    by (auto simp: pnode_def aux_cell_def split: option.splits cell.splits)
  from mem_ok_free [OF assms(1) c(4,5)] obtain m1 where m1: "m_free m x = Ret m1" "mem_ok m1"
    "mem_heap m1 = (mem_heap m)(x := None)" "mem_left m1 = mem_left m" by auto
  from mem_ok_free [of m1 a "PNode (pkey t) x n"] m1 c obtain m2 where m2: "m_free m1 a = Ret m2" "mem_ok m2"
    "mem_heap m2 = (mem_heap m1)(a := None)" "mem_left m2 = mem_left m1" by auto
  have "mem_heap m2 = mem_heap m |` (- set f)"
    unfolding m2(3) m1(3) c(1) by (rule ext) (simp add: restrict_map_def)
  with m1 m2 c Some show ?thesis by (auto simp: pnode_free_def)
qed

lemma plist_del_split:
  "\<not> plist_in l1 k \<Longrightarrow> pkey t = k \<Longrightarrow> fst (plist_del (l1 @ t # l2) k) = l1 @ l2"
  by (induction l1) (auto split: prod.splits)

lemma m_plist_add_ok:
  assumes m: "plist_mem m p l F" and own: "aux_cell F x" and left: "0 < mem_left m"
  shows "\<exists>p' m'. m_plist_add m p key (ptr x) = Some (Ret (p', m'))
    \<and> plist_mem m' p' (plist_add l key x) (F |` (- set_option x)) \<and> mem_left m = Suc (mem_left m')"
proof -
  from pch.holds_malloc [OF m left, of Undef] obtain a m0 where m0: "m_malloc m Undef = (a, m0)" "a \<noteq> 0"
    "mem_heap m a = None" "plist_mem m0 p l (F(a \<mapsto> Undef))" "mem_heap m0 = (mem_heap m)(a \<mapsto> Undef)"
    "mem_left m = Suc (mem_left m0)" by auto
  from mem_ok_store [OF holds_ok [OF m0(4)], of a Undef "PNode key (ptr x) 0"] m0(5) obtain m1
    where m1: "m_store m0 a (PNode key (ptr x) 0) = Ret m1" "mem_ok m1"
      "mem_heap m1 = (mem_heap m0)(a \<mapsto> PNode key (ptr x) 0)" "mem_left m1 = mem_left m0" by auto
  define G where "G = F(a \<mapsto> Undef, a \<mapsto> PNode key (ptr x) 0)"
  have G: "plist_mem m1 p l G"
    unfolding G_def by (rule pch.holds_upd [OF m0(4) m1(2,3)]) (use m0(5) in simp)
  let ?t = "\<lparr>pkey = key, paux = x\<rparr>"
  let ?f = "a # (case x of None \<Rightarrow> [] | Some b \<Rightarrow> [b])"
  have sub: "mem_heap m b = F b" "b \<noteq> a" if "x = Some b" for b
    using that own holds_sub [OF m, of b] m0(3) by (auto simp: aux_cell_def split: option.splits)
  have n: "pnode (mem_heap m1) a 0 ?f ?t" "distinct ?f"
    using own sub m1(3) m0(5) by (auto simp: pnode_def aux_cell_def split: option.splits)
  have out: "G y = mem_heap m1 y" if "y \<in> set ?f" for y
    using that sub m1(3) m0(5) by (auto simp: G_def split: option.splits)
  have F: "G |` (- set ?f) = F |` (- set_option x)"
    using m0(3) holds_sub [OF m, of a] by (intro ext) (auto simp: G_def restrict_map_def split: option.splits)
  from pch.holds_append [OF G n out] F pch.holds_NULL [OF m] m0 m1 show ?thesis
    by (cases "p = 0") (auto simp: m_plist_add_def plist_add_append)
qed

lemma m_plist_del_ok:
  assumes "plist_mem m p l F"
  shows "\<exists>p' m'. m_plist_del m p key = Some (Ret (p', m')) \<and> plist_mem m' p' (fst (plist_del l key)) F
    \<and> mem_left m' = mem_left m"
  using plist_find [OF assms, of key]
proof (elim disjE exE conjE)
  fix r
  assume "m_find (pkey_test key) (mem_heap m) 0 p = Some (Ret (r, 0))" "\<not> plist_in l key"
  then show ?thesis using assms plist_del_absent [of l key] by (simp add: m_plist_del_def)
next
  fix l1 t l2 prev a n f
  assume *: "m_find (pkey_test key) (mem_heap m) 0 p = Some (Ret (prev, a))" "a \<noteq> 0" "l = l1 @ t # l2"
    "pkey t = key" "\<not> plist_in l1 key" "at_node pnode m p l1 t l2 F prev a n f"
    "mem_heap m a = Some (PNode key (ptr (paux t)) n)"
  from pnode_free_ok [OF pch.at_nodeD(3,1,2) [OF *(6)]] obtain m1
    where m1: "pnode_free m (ptr (paux t)) a = Ret m1" "mem_ok m1" "mem_heap m1 = mem_heap m |` (- set f)"
      "mem_left m1 = mem_left m" by blast
  from pch.at_node_unlink [OF *(6) m1(2,3)] m1 *(1,2,7) plist_del_split [OF *(5,4), of l2] show ?thesis
    unfolding *(3) by (cases "prev = 0") (auto simp: m_plist_del_def)
qed

text \<open>Releasing the first node of a list.\<close>

lemma plist_mem_step:
  assumes "plist_mem m p (t # ts) F"
  shows "\<exists>n m1. mem_heap m p = Some (PNode (pkey t) (ptr (paux t)) n) \<and> p \<noteq> 0
    \<and> pnode_free m (ptr (paux t)) p = Ret m1 \<and> plist_mem m1 n ts F \<and> mem_heap m1 \<subseteq>\<^sub>m mem_heap m
    \<and> mem_left m1 = mem_left m"
proof -
  from pch.holds_ConsD [OF assms] obtain n f F' where f: "pnode (mem_heap m) p n f t" "distinct f"
      "plist_mem m n ts F'" "\<forall>x \<in> set f. F' x = mem_heap m x" "F = F' |` (- set f)" by blast
  from pnode_free_ok [OF holds_ok [OF assms] f(1,2)] obtain m1
    where m1: "pnode_free m (ptr (paux t)) p = Ret m1" "mem_ok m1" "mem_heap m1 = mem_heap m |` (- set f)"
      "mem_left m1 = mem_left m" by blast
  from pch.holds_restrict [OF f(3) m1(2,3)] f(4,5) have "plist_mem m1 n ts F" by simp
  moreover have "mem_heap m p = Some (PNode (pkey t) (ptr (paux t)) n)" using f(1) by (simp add: pnode_def)
  moreover have "mem_heap m1 \<subseteq>\<^sub>m mem_heap m" unfolding m1(3) by (auto simp: map_le_def restrict_map_def split: if_splits)
  ultimately show ?thesis using m1 pch.holds_NULL [OF assms] by auto
qed

lemma m_plist_free_ok:
  "plist_mem m p l F \<Longrightarrow>
   \<exists>m'. m_plist_free m p = Some (Ret (0, m')) \<and> mem_ok m' \<and> mem_heap m' = F \<and> mem_left m' = mem_left m"
proof (induction l arbitrary: m p)
  case Nil
  then show ?case by (subst m_plist_free.simps) (auto simp: holds_Nil)
next
  case (Cons t ts)
  from plist_mem_step [OF Cons.prems] obtain n m1 where s: "p \<noteq> 0"
    "mem_heap m p = Some (PNode (pkey t) (ptr (paux t)) n)" "pnode_free m (ptr (paux t)) p = Ret m1"
    "plist_mem m1 n ts F" "mem_left m1 = mem_left m" by blast
  with Cons.IH [OF s(4)] show ?case by (subst m_plist_free.simps) auto
qed

text \<open>The pointer of the node found passes to the caller.\<close>

definition passed :: "memory \<Rightarrow> (int \<times> addr option) option \<Rightarrow> heap \<Rightarrow> heap" where
  "passed m r F = (case r of Some (fd, Some x) \<Rightarrow> F(x := mem_heap m x) | _ \<Rightarrow> F)"

lemma plist_mem_take:
  assumes "plist_mem m p (t # ts) F"
  shows "\<exists>n m1. mem_heap m p = Some (PNode (pkey t) (ptr (paux t)) n) \<and> p \<noteq> 0 \<and> m_free m p = Ret m1
    \<and> plist_mem m1 n ts (passed m (Some (fd, paux t)) F) \<and> aux_cell (mem_heap m) (paux t)
    \<and> mem_left m1 = mem_left m"
proof -
  from pch.holds_ConsD [OF assms] obtain n f F' where f: "pnode (mem_heap m) p n f t" "distinct f"
      "plist_mem m n ts F'" "\<forall>x \<in> set f. F' x = mem_heap m x" "F = F' |` (- set f)" by blast
  from f(1) have p: "f = p # (case paux t of None \<Rightarrow> [] | Some a \<Rightarrow> [a])"
    "mem_heap m p = Some (PNode (pkey t) (ptr (paux t)) n)" "aux_cell (mem_heap m) (paux t)" by (auto simp: pnode_def)
  from pch.holds_free [OF f(3), of p "PNode (pkey t) (ptr (paux t)) n"] f(4) p obtain m1
    where m1: "m_free m p = Ret m1" "plist_mem m1 n ts (F'(p := None))" "mem_left m1 = mem_left m" by auto
  have "F'(p := None) = passed m (Some (fd, paux t)) F"
    using f(2,4,5) p(1) by (intro ext) (auto simp: passed_def restrict_map_def split: option.splits)
  with m1 p(2,3) pch.holds_NULL [OF assms] show ?thesis by auto
qed

text \<open>The pointer found, if any.\<close>

definition found :: "(int \<times> addr option) option \<Rightarrow> addr option" where
  "found r = (case r of None \<Rightarrow> None | Some (fd, x) \<Rightarrow> x)"

lemma passed_mono:
  assumes "mem_heap m1 \<subseteq>\<^sub>m mem_heap m" "aux_cell (mem_heap m1) (found r)"
  shows "passed m1 r F = passed m r F \<and> aux_cell (mem_heap m) (found r)"
proof (cases "found r")
  case None
  then show ?thesis by (auto simp: passed_def found_def aux_cell_def split: option.splits)
next
  case (Some x)
  with assms have "mem_heap m x = mem_heap m1 x" by (auto simp: aux_cell_def map_le_def dom_def split: option.splits)
  with Some assms(2) show ?thesis by (auto simp: passed_def found_def aux_cell_def split: option.splits)
qed

lemma m_plist_pop_loop_ok:
  "plist_mem m p l F \<Longrightarrow> plist_pop_loop closed l cl fr = (r, rest, cl', fr') \<Longrightarrow>
   \<exists>p' m'. m_plist_pop_loop closed m p cl = Some (Ret (map_option (map_prod id ptr) r, p', cl', m'))
     \<and> plist_mem m' p' rest (passed m r F) \<and> aux_cell (mem_heap m) (found r) \<and> mem_left m' = mem_left m"
proof (induction l arbitrary: m p cl fr)
  case Nil
  then show ?case by (subst m_plist_pop_loop.simps) (auto simp: holds_Nil passed_def found_def aux_cell_def)
next
  case (Cons t ts)
  show ?case
  proof (cases "closed (key_fd (pkey t))")
    case True
    from plist_mem_step [OF Cons.prems(1)] obtain n m1 where s: "p \<noteq> 0"
      "mem_heap m p = Some (PNode (pkey t) (ptr (paux t)) n)" "pnode_free m (ptr (paux t)) p = Ret m1"
      "plist_mem m1 n ts F" "mem_heap m1 \<subseteq>\<^sub>m mem_heap m" "mem_left m1 = mem_left m" by blast
    from Cons.prems(2) True obtain fr1 where
      "plist_pop_loop closed ts (cl @ [key_fd (pkey t)]) fr1 = (r, rest, cl', fr')" by (auto simp: Let_def)
    from Cons.IH [OF s(4) this] obtain p' m' where
      "m_plist_pop_loop closed m1 n (cl @ [key_fd (pkey t)]) = Some (Ret (map_option (map_prod id ptr) r, p', cl', m'))"
      "plist_mem m' p' rest (passed m1 r F)" "aux_cell (mem_heap m1) (found r)" "mem_left m' = mem_left m1" by blast
    moreover note passed_mono [OF s(5) this(3), of F]
    ultimately show ?thesis using s True by (subst m_plist_pop_loop.simps) (auto simp: Let_def)
  next
    case False
    with Cons.prems(2) have r: "r = Some (key_fd (pkey t), paux t)" "rest = ts" "cl' = cl" by (auto simp: Let_def)
    from plist_mem_take [OF Cons.prems(1), of "key_fd (pkey t)"] False r show ?thesis
      by (subst m_plist_pop_loop.simps) (auto simp: Let_def found_def)
  qed
qed

lemma m_plist_pop_ok:
  assumes "plist_mem m p l F" "plist_pop_loop closed l [] [] = (r, rest, cl, fr)"
  shows "\<exists>p' m'. m_plist_pop closed m p =
       Some (Ret (pop_id (plist_pop closed l), map_option (ptr \<circ> snd) r, p', pop_closed (plist_pop closed l), m'))
     \<and> plist_mem m' p' (pop_list (plist_pop closed l)) (passed m r F) \<and> found r = pop_aux (plist_pop closed l)
     \<and> aux_cell (mem_heap m) (found r) \<and> mem_left m' = mem_left m"
  using m_plist_pop_loop_ok [OF assms] assms(2)
  by (auto simp: m_plist_pop_def plist_pop_def found_def split: option.splits)

lemma m_plist_get_ok:
  assumes "plist_mem m p l F"
  shows "m_plist_in m p key = Some (Ret (plist_in l key))"
    and "m_plist_get m p k = Some (Ret (ptr (plist_get l k)))"
    and "m_plist_count m p = Some (Ret (plist_count l))"
proof -
  show "m_plist_in m p key = Some (Ret (plist_in l key))"
    using plist_find [OF assms, of key] by (auto simp: m_plist_in_def)
  have "\<not> plist_in l1 (word_of_int k) \<Longrightarrow> plist_get (l1 @ l2) k = plist_get l2 k" for l1 l2 :: "addr plist_t"
    by (induction l1) auto
  moreover have "\<not> plist_in l (word_of_int k) \<Longrightarrow> plist_get l k = None" by (induction l) auto
  ultimately show "m_plist_get m p k = Some (Ret (ptr (plist_get l k)))"
    using plist_find [OF assms, of "word_of_int k"] by (auto simp: m_plist_get_def)
  from assms obtain fs where "seg pnode (mem_heap m) p fs 0 l" by (auto simp: holds_def)
  with pch.seg_count [of "mem_heap m" p fs l 0] holds_heap0 [OF assms]
  show "m_plist_count m p = Some (Ret (plist_count l))" by (simp add: m_plist_count_def)
qed

section \<open>The cache of connections after a change of the parent\<close>

lemma m_close_all_ok:
  "h 0 = None \<Longrightarrow> seg pnode h p fs 0 l \<Longrightarrow> m_close_all h p cl = Some (Ret (cl @ map (key_fd \<circ> pkey) l))"
proof (induction l arbitrary: p fs cl)
  case (Cons t l)
  then obtain f fs' n where f: "pnode h p n f t" "seg pnode h n fs' 0 l" by (auto dest: seg_ConsD)
  from pch.node_nz [OF Cons.prems(1) f(1)] have "p \<noteq> 0" .
  moreover from f(1) have "h p = Some (PNode (pkey t) (ptr (paux t)) n)" by (simp add: pnode_def)
  ultimately show ?case using Cons.IH [OF Cons.prems(1) f(2)] by (subst m_close_all.simps) simp
qed (simp add: m_close_all.simps)

text \<open>A pointer to a node that was freed.\<close>

lemma stale_uses:
  assumes "p \<noteq> 0" "mem_heap m p = None"
  shows "m_plist_pop closed m p = Some UB" "m_plist_free m p = Some UB" "m_close_all (mem_heap m) p cl = Some UB"
  using assms by (simp_all add: m_plist_pop_def m_plist_pop_loop.simps m_plist_free.simps m_close_all.simps)

lemma stale_add:
  assumes "mem_ok m" "p \<noteq> 0" "mem_heap m p = None" "p < mem_next m"
  shows "m_plist_add m p key aux = Some UB"
proof (cases "mem_left m")
  case 0
  with assms show ?thesis by (simp add: m_plist_add_def m_malloc_def m_store_def mem_ok_def)
next
  case (Suc k)
  with assms show ?thesis
    by (simp add: m_plist_add_def m_malloc_def m_store_def) (simp add: m_last.simps)
qed

lemma free_next:
  "m_free m p = Ret m' \<Longrightarrow> mem_next m' = mem_next m"
  by (auto simp: m_free_def split: if_splits option.splits cell.splits)

lemma plist_free_next:
  "plist_mem m p l F \<Longrightarrow> m_plist_free m p = Some (Ret (q, m')) \<Longrightarrow> mem_next m' = mem_next m"
proof (induction l arbitrary: m p)
  case Nil
  then show ?case by (simp add: holds_Nil m_plist_free.simps)
next
  case (Cons t ts)
  from plist_mem_step [OF Cons.prems(1)] obtain n m1 where s: "p \<noteq> 0"
    "mem_heap m p = Some (PNode (pkey t) (ptr (paux t)) n)" "pnode_free m (ptr (paux t)) p = Ret m1"
    "plist_mem m1 n ts F" by blast
  then have "m_plist_free m1 n = Some (Ret (q, m'))" using Cons.prems(2) by (subst (asm) m_plist_free.simps) simp
  from Cons.IH [OF s(4) this] s(3) show ?case
    by (auto simp: pnode_free_def c_bind_Ret_iff free_next split: if_splits)
qed

section \<open>Properties\<close>

text \<open>
  C30: The cache of connections after proxy_connect has moved to another parent.  Every connection is
  closed and the nodes of the list are freed, once each, with the credentials they own; but the
  pointer to the list is kept.  When there was a connection in the cache, every later use of it is
  a read of freed memory: the plist_pop of the next request, the plist_add that stores a connection and
  the next invalidation.  With an empty cache nothing happens and it stays usable.
\<close>

theorem cache_use_after_free:
  assumes "plist_mem m p l F"
  shows "\<exists>m'. m_invalidate_cache m p = Some (Ret (map (key_fd \<circ> pkey) l, p, m')) \<and> mem_heap m' = F
    \<and> (if l = [] then plist_mem m' p [] F
       else m_plist_pop closed m' p = Some UB \<and> m_plist_add m' p key aux = Some UB
            \<and> m_invalidate_cache m' p = Some UB)"
proof -
  from assms obtain fs where fs: "seg pnode (mem_heap m) p fs 0 l" by (auto simp: holds_def)
  from m_plist_free_ok [OF assms] obtain m' where m': "m_plist_free m p = Some (Ret (0, m'))" "mem_ok m'"
    "mem_heap m' = F" by blast
  have inv: "m_invalidate_cache m p = Some (Ret (map (key_fd \<circ> pkey) l, p, m'))"
    using m_close_all_ok [OF holds_heap0 [OF assms] fs, of "[]"] m'(1) by (simp add: m_invalidate_cache_def)
  show ?thesis
  proof (cases l)
    case Nil
    with assms m' inv show ?thesis by (auto simp: holds_Nil)
  next
    case (Cons t ts)
    with assms plist_mem_step [of m p t ts F] have p: "p \<noteq> 0" "mem_heap m p \<noteq> None" by auto
    have "F p = None" using pch.holds_first assms Cons by blast
    have lt: "p < mem_next m'"
      using mem_okD [OF holds_ok [OF assms]] p(2) plist_free_next [OF assms m'(1)] by auto
    have st: "mem_heap m' p = None" using \<open>F p = None\<close> m'(3) by simp
    from stale_uses [OF p(1) st] stale_add [OF m'(2) p(1) st lt] inv m'(3) Cons show ?thesis
      by (auto simp: m_invalidate_cache_def)
  qed
qed

definition cache_memory :: memory where
  "cache_memory = \<lparr>mem_heap = [1 \<mapsto> PNode 7 2 0, 2 \<mapsto> Raw [], 3 \<mapsto> Lit ''kept''], mem_next = 4, mem_left = 1\<rparr>"

theorem cache_use_after_free_witness:
  "\<exists>m'. m_invalidate_cache cache_memory 1 = Some (Ret ([7], 1, m')) \<and> mem_heap m' = [3 \<mapsto> Lit ''kept'']
    \<and> m_plist_pop (\<lambda>_. False) m' 1 = Some UB"
proof -
  have "plist_mem cache_memory 1 [\<lparr>pkey = 7, paux = Some 2\<rparr>] [3 \<mapsto> Lit ''kept'']"
    unfolding holds_def
    by (intro conjI exI [of _ "[[1, 2]]"])
       (auto simp: cache_memory_def mem_ok_def pnode_def aux_cell_def restrict_map_def)
  from cache_use_after_free [OF this, of "\<lambda>_. False"] show ?thesis by (auto simp: key_fd_def)
qed

end
