(* ===== verification/HListMem.thy ===== *)
theory HListMem
  imports Heap HList
begin

text \<open>
  The header lists of utils.c as nodes in memory: hlist_add with its flags, hlist_dup, hlist_del,
  hlist_mod, hlist_in, hlist_get, hlist_count and hlist_free, every \<open>malloc\<close>, \<open>strdup\<close> and \<open>free\<close>
  included.  \<open>hlist_mem m p l F\<close> says that the memory holds the abstract list \<open>l\<close> of theory HList at
  \<open>p\<close>, each node owning its two strings, and \<open>F\<close> beside it.
\<close>

fun hnode :: "heap \<Rightarrow> addr \<Rightarrow> addr \<Rightarrow> addr list \<Rightarrow> hlist_s \<Rightarrow> bool" where
  "hnode h p n [a, k, v] t \<longleftrightarrow>
     a = p \<and> h p = Some (HNode k v n) \<and> h k = Some (Str (hkey t)) \<and> h v = Some (Str (hvalue t))"
| "hnode h p n _ t \<longleftrightarrow> False"

abbreviation hlist_mem :: "memory \<Rightarrow> addr \<Rightarrow> hlist_t \<Rightarrow> heap \<Rightarrow> bool" where
  "hlist_mem \<equiv> holds hnode"

section \<open>Operations\<close>

text \<open>The flags say whether the node gets copies of the strings (\<open>HLIST_ALLOC\<close>) or the pointers.\<close>

definition hnode_new :: "memory \<Rightarrow> addr \<Rightarrow> addr \<Rightarrow> bool \<Rightarrow> bool \<Rightarrow> (addr \<times> memory) c_result" where
  "hnode_new m key val allockey allocvalue =
     (let (tmp, m1) = m_malloc m Undef
      in c_bind (if allockey then m_strdup m1 key else Ret (key, m1)) (\<lambda>(k, m2).
         c_bind (if allocvalue then m_strdup m2 val else Ret (val, m2)) (\<lambda>(v, m3).
         c_bind (m_store m3 tmp (HNode k v 0)) (\<lambda>m4. Ret (tmp, m4)))))"

definition m_hlist_add ::
  "memory \<Rightarrow> addr \<Rightarrow> addr \<Rightarrow> addr \<Rightarrow> bool \<Rightarrow> bool \<Rightarrow> (addr \<times> memory) c_prog" where
  "m_hlist_add m list key val allockey allocvalue =
     (if key = 0 \<or> val = 0 then Some (Ret (list, m))
      else p_bind (Some (hnode_new m key val allockey allocvalue)) (\<lambda>(tmp, m1).
        if list = 0 then Some (Ret (tmp, m1))
        else p_bind (m_last (mem_heap m1) list) (\<lambda>t.
          Some (c_bind (set_next m1 t tmp) (\<lambda>m2. Ret (list, m2))))))"

partial_function (option) m_hlist_dup_loop :: "memory \<Rightarrow> addr \<Rightarrow> addr \<Rightarrow> (addr \<times> memory) c_prog" where
  "m_hlist_dup_loop m tmp t =
     (if t = 0 then Some (Ret (tmp, m))
      else case mem_heap m t of
        Some (HNode k v n) \<Rightarrow>
          (case m_hlist_add m tmp k v True True of
             None \<Rightarrow> None
           | Some r \<Rightarrow>
               (case r of
                  UB \<Rightarrow> Some UB
                | Ret x \<Rightarrow>
                    (case mem_heap (snd x) t of
                       Some (HNode k' v' n') \<Rightarrow> m_hlist_dup_loop (snd x) (fst x) n'
                     | _ \<Rightarrow> Some UB)))
      | _ \<Rightarrow> Some UB)"

definition m_hlist_dup :: "memory \<Rightarrow> addr \<Rightarrow> (addr \<times> memory) c_prog" where
  "m_hlist_dup m list = m_hlist_dup_loop m 0 list"

text \<open>\<open>!strcasecmp(t->key, key)\<close>\<close>

definition key_test :: "addr \<Rightarrow> heap \<Rightarrow> addr \<Rightarrow> bool c_result" where
  "key_test key h t =
     (case h t of
        Some (HNode k v n) \<Rightarrow>
          c_bind (str_at h k) (\<lambda>a. c_bind (str_at h key) (\<lambda>b. Ret (strcaseeq a b)))
      | _ \<Rightarrow> UB)"

text \<open>\<open>free(t->key); free(t->value); free(t);\<close>\<close>

definition hnode_free :: "memory \<Rightarrow> addr \<Rightarrow> addr \<Rightarrow> addr \<Rightarrow> memory c_result" where
  "hnode_free m k v t = c_bind (m_free m k) (\<lambda>m1. c_bind (m_free m1 v) (\<lambda>m2. m_free m2 t))"

definition m_hlist_del :: "memory \<Rightarrow> addr \<Rightarrow> addr \<Rightarrow> (addr \<times> memory) c_prog" where
  "m_hlist_del m list key =
     p_bind (m_find (key_test key) (mem_heap m) 0 list) (\<lambda>(ot, t).
       if t = 0 then Some (Ret (list, m))
       else case mem_heap m t of
         Some (HNode k v tmp) \<Rightarrow>
           Some (c_bind (hnode_free m k v t) (\<lambda>m1.
             if ot = 0 then Ret (tmp, m1)
             else c_bind (set_next m1 ot tmp) (\<lambda>m2. Ret (list, m2))))
       | _ \<Rightarrow> Some UB)"

definition m_hlist_mod :: "memory \<Rightarrow> addr \<Rightarrow> addr \<Rightarrow> addr \<Rightarrow> bool \<Rightarrow> (addr \<times> memory) c_prog" where
  "m_hlist_mod m list key val add =
     p_bind (m_find (key_test key) (mem_heap m) 0 list) (\<lambda>(ot, t).
       if t \<noteq> 0
       then (case mem_heap m t of
           Some (HNode k v n) \<Rightarrow>
             Some (c_bind (m_free m v) (\<lambda>m1. c_bind (m_strdup m1 val) (\<lambda>(v', m2).
               c_bind (m_store m2 t (HNode k v' n)) (\<lambda>m3. Ret (list, m3)))))
         | _ \<Rightarrow> Some UB)
       else if add then m_hlist_add m list key val True True
       else Some (Ret (list, m)))"

definition m_hlist_in :: "memory \<Rightarrow> addr \<Rightarrow> addr \<Rightarrow> bool c_prog" where
  "m_hlist_in m list key =
     p_bind (m_find (key_test key) (mem_heap m) 0 list) (\<lambda>(ot, t). Some (Ret (t \<noteq> 0)))"

text \<open>Returns the pointer the node has, not a copy.\<close>

definition m_hlist_get :: "memory \<Rightarrow> addr \<Rightarrow> addr \<Rightarrow> addr c_prog" where
  "m_hlist_get m list key =
     p_bind (m_find (key_test key) (mem_heap m) 0 list) (\<lambda>(ot, t).
       if t = 0 then Some (Ret 0)
       else case mem_heap m t of Some (HNode k v n) \<Rightarrow> Some (Ret v) | _ \<Rightarrow> Some UB)"

definition m_hlist_count :: "memory \<Rightarrow> addr \<Rightarrow> nat c_prog" where
  "m_hlist_count m list = m_count (mem_heap m) list 0"

partial_function (option) m_hlist_free :: "memory \<Rightarrow> addr \<Rightarrow> (addr \<times> memory) c_prog" where
  "m_hlist_free m list =
     (if list = 0 then Some (Ret (0, m))
      else case mem_heap m list of
        Some (HNode k v t) \<Rightarrow>
          (case hnode_free m k v list of UB \<Rightarrow> Some UB | Ret m1 \<Rightarrow> m_hlist_free m1 t)
      | _ \<Rightarrow> Some UB)"

section \<open>Header nodes form chains\<close>

lemma hnode_iff:
  "hnode h p n f t \<longleftrightarrow> (\<exists>k v. f = [p, k, v] \<and> h p = Some (HNode k v n)
     \<and> h k = Some (Str (hkey t)) \<and> h v = Some (Str (hvalue t)))"
  by (cases "(h, p, n, f, t)" rule: hnode.cases) auto

lemma hnode_link:
  assumes "hnode h p n f t" "distinct f" "h p = Some c"
  shows "hnode (h(p \<mapsto> with_next c n')) p n' f t"
proof -
  from assms(1) obtain k v where "f = [p, k, v]" "h p = Some (HNode k v n)"
    "h k = Some (Str (hkey t))" "h v = Some (Str (hvalue t))" by (auto simp: hnode_iff)
  with assms(2,3) show ?thesis by (auto simp: hnode_iff)
qed

interpretation hch: chain hnode
proof unfold_locales
  fix h :: heap and p n n' f t c
  assume "hnode h p n f t" "distinct f" "h p = Some c"
  then show "hnode (h(p \<mapsto> with_next c n')) p n' f t" by (rule hnode_link)
qed (auto simp: hnode_iff)

lemma key_test_hnode:
  "str_at h key = Ret ks \<Longrightarrow> hnode h p n f t \<Longrightarrow> key_test key h p = Ret (strcaseeq (hkey t) ks)"
  by (auto simp: hnode_iff key_test_def str_at_def)

text \<open>The string compared with lies in the list or beside it; the search finds the first match.\<close>

lemma hlist_find:
  assumes "hlist_mem m p l F" "str_at (mem_heap m) key = Ret ks"
  shows "(\<exists>r. m_find (key_test key) (mem_heap m) 0 p = Some (Ret (r, 0)) \<and> \<not> hlist_in l ks) \<or>
    (\<exists>l1 t l2 prev a n k v. m_find (key_test key) (mem_heap m) 0 p = Some (Ret (prev, a)) \<and> a \<noteq> 0
       \<and> l = l1 @ t # l2 \<and> strcaseeq (hkey t) ks \<and> \<not> hlist_in l1 ks
       \<and> at_node hnode m p l1 t l2 F prev a n [a, k, v] \<and> mem_heap m a = Some (HNode k v n)
       \<and> mem_heap m k = Some (Str (hkey t)) \<and> mem_heap m v = Some (Str (hvalue t)))"
proof -
  have test: "\<And>p n f t. hnode (mem_heap m) p n f t \<Longrightarrow> key_test key (mem_heap m) p = Ret (strcaseeq (hkey t) ks)"
    by (rule key_test_hnode [OF assms(2)])
  consider r where "m_find (key_test key) (mem_heap m) 0 p = Some (Ret (r, 0))" "\<forall>t \<in> set l. \<not> strcaseeq (hkey t) ks"
    | l1 t l2 prev a n f where "m_find (key_test key) (mem_heap m) 0 p = Some (Ret (prev, a))" "l = l1 @ t # l2"
      "strcaseeq (hkey t) ks" "\<forall>u \<in> set l1. \<not> strcaseeq (hkey u) ks" "a \<noteq> 0" "at_node hnode m p l1 t l2 F prev a n f"
    using hch.holds_find [OF assms(1), of "key_test key" "\<lambda>t. strcaseeq (hkey t) ks"] test by blast
  then show ?thesis
  proof cases
    case 1
    then show ?thesis by (auto simp: hlist_in_iff)
  next
    case 2
    from hch.at_nodeD(1) [OF 2(6)] obtain k v where "f = [a, k, v]" "mem_heap m a = Some (HNode k v n)"
      "mem_heap m k = Some (Str (hkey t))" "mem_heap m v = Some (Str (hvalue t))" by (auto simp: hnode_iff)
    with 2 show ?thesis by (intro disjI2) (metis hlist_in_iff)
  qed
qed

lemma hnode_free_ok:
  assumes "mem_ok m" "mem_heap m a = Some (HNode k v n)" "mem_heap m k = Some (Str x)"
    "mem_heap m v = Some (Str y)" "distinct [a, k, v]"
  shows "\<exists>m1. hnode_free m k v a = Ret m1 \<and> mem_ok m1 \<and> mem_heap m1 = mem_heap m |` (- set [a, k, v])
    \<and> mem_left m1 = mem_left m"
proof -
  from mem_ok_free [OF assms(1,3)] obtain m1 where m1: "m_free m k = Ret m1" "mem_ok m1"
    "mem_heap m1 = (mem_heap m)(k := None)" "mem_left m1 = mem_left m" by auto
  from mem_ok_free [of m1 v "Str y"] m1 assms obtain m2 where m2: "m_free m1 v = Ret m2" "mem_ok m2"
    "mem_heap m2 = (mem_heap m1)(v := None)" "mem_left m2 = mem_left m1" by auto
  from mem_ok_free [of m2 a "HNode k v n"] m1 m2 assms obtain m3 where m3: "m_free m2 a = Ret m3" "mem_ok m3"
    "mem_heap m3 = (mem_heap m2)(a := None)" "mem_left m3 = mem_left m2" by auto
  have "mem_heap m3 = mem_heap m |` (- set [a, k, v])"
    unfolding m3(3) m2(3) m1(3) by (rule ext) (simp add: restrict_map_def)
  with m1 m2 m3 show ?thesis by (auto simp: hnode_free_def)
qed

section \<open>Refinement\<close>

lemma hlist_del_split:
  "\<not> hlist_in l1 k \<Longrightarrow> strcaseeq (hkey t) k \<Longrightarrow> hlist_del (l1 @ t # l2) k = l1 @ l2"
  by (induction l1) auto

lemma hlist_del_absent: "\<not> hlist_in l k \<Longrightarrow> hlist_del l k = l"
  by (induction l) auto

lemma m_hlist_del_ok:
  assumes "hlist_mem m p l F" "str_at (mem_heap m) key = Ret ks"
  shows "\<exists>p' m'. m_hlist_del m p key = Some (Ret (p', m')) \<and> hlist_mem m' p' (hlist_del l ks) F
    \<and> mem_left m' = mem_left m"
  using hlist_find [OF assms]
proof (elim disjE exE conjE)
  fix r
  assume "m_find (key_test key) (mem_heap m) 0 p = Some (Ret (r, 0))" "\<not> hlist_in l ks"
  then show ?thesis using assms(1) by (simp add: m_hlist_del_def hlist_del_absent)
next
  fix l1 t l2 prev a n k v
  assume *: "m_find (key_test key) (mem_heap m) 0 p = Some (Ret (prev, a))" "a \<noteq> 0" "l = l1 @ t # l2"
    "strcaseeq (hkey t) ks" "\<not> hlist_in l1 ks" "at_node hnode m p l1 t l2 F prev a n [a, k, v]"
    "mem_heap m a = Some (HNode k v n)" "mem_heap m k = Some (Str (hkey t))"
    "mem_heap m v = Some (Str (hvalue t))"
  from hnode_free_ok [OF hch.at_nodeD(3) [OF *(6)] *(7-9) hch.at_nodeD(2) [OF *(6)]] obtain m1
    where m1: "hnode_free m k v a = Ret m1" "mem_ok m1" "mem_heap m1 = mem_heap m |` (- set [a, k, v])"
      "mem_left m1 = mem_left m" by blast
  from hch.at_node_unlink [OF *(6) m1(2,3)] show ?thesis
    by (cases "prev = 0") (use * m1 in \<open>auto simp: m_hlist_del_def hlist_del_split\<close>)
qed

lemma m_hlist_free_ok:
  "hlist_mem m p l F \<Longrightarrow>
   \<exists>m'. m_hlist_free m p = Some (Ret (0, m')) \<and> mem_ok m' \<and> mem_heap m' = F \<and> mem_left m' = mem_left m"
proof (induction l arbitrary: m p F)
  case Nil
  then show ?case by (subst m_hlist_free.simps) (auto simp: holds_Nil)
next
  case (Cons t ts)
  note nz = hch.holds_NULL [OF Cons.prems]
  from hch.holds_ConsD [OF Cons.prems] obtain n f F' where f: "hnode (mem_heap m) p n f t" "distinct f"
      "hlist_mem m n ts F'" "\<forall>x \<in> set f. F' x = mem_heap m x" "F = F' |` (- set f)" by blast
  from f(1) obtain k v where kv: "f = [p, k, v]" "mem_heap m p = Some (HNode k v n)"
    "mem_heap m k = Some (Str (hkey t))" "mem_heap m v = Some (Str (hvalue t))" by (auto simp: hnode_iff)
  from hnode_free_ok [OF holds_ok [OF Cons.prems] kv(2-4)] f(2) kv(1) obtain m1
    where m1: "hnode_free m k v p = Ret m1" "mem_ok m1" "mem_heap m1 = mem_heap m |` (- set f)"
      "mem_left m1 = mem_left m" by blast
  from hch.holds_restrict [OF f(3) m1(2,3)] f(4,5) have "hlist_mem m1 n ts F" by simp
  from Cons.IH [OF this] nz kv(2) m1 show ?case by (subst m_hlist_free.simps) auto
qed

text \<open>A string that is copied, or one beside the list whose pointer is taken.\<close>

lemma dup_if_ok:
  assumes "hlist_mem m p l F" "str_at (mem_heap m) q = Ret x" "b \<Longrightarrow> 0 < mem_left m"
    "\<not> b \<Longrightarrow> F q = Some (Str x)"
  shows "\<exists>k m'. (if b then m_strdup m q else Ret (q, m)) = Ret (k, m') \<and> k \<noteq> 0
     \<and> hlist_mem m' p l (F(k \<mapsto> Str x)) \<and> mem_heap m' = (mem_heap m)(k \<mapsto> Str x)
     \<and> (if b then mem_heap m k = None else k = q) \<and> mem_left m = mem_left m' + of_bool b"
proof (cases b)
  case True
  from hch.holds_malloc [OF assms(1), of "Str x"] assms(2,3) True show ?thesis
    by (force simp: m_strdup_def)
next
  case False
  with assms(4) holds_sub [OF assms(1), of q] have "F q = Some (Str x)" "mem_heap m q = Some (Str x)" by auto
  with False assms(1) mem_okD [OF holds_ok [OF assms(1)], of q "Str x"] show ?thesis
    by (auto simp: fun_upd_idem)
qed

text \<open>The cells of the caller that become part of the list.\<close>

definition taken :: "bool \<Rightarrow> addr \<Rightarrow> addr set" where
  "taken alloc p = (if alloc then {} else {p})"

lemma hnode_new_ok:
  assumes m: "hlist_mem m p l F" and key: "str_at (mem_heap m) key = Ret ks" and val: "str_at (mem_heap m) val = Ret vs"
    and own: "\<not> ak \<Longrightarrow> F key = Some (Str ks)" "\<not> av \<Longrightarrow> F val = Some (Str vs)" "\<not> ak \<Longrightarrow> \<not> av \<Longrightarrow> key \<noteq> val"
    and left: "1 + of_bool ak + of_bool av \<le> mem_left m"
  shows "\<exists>a k v m' G. hnode_new m key val ak av = Ret (a, m') \<and> a \<noteq> 0 \<and> distinct [a, k, v]
     \<and> hlist_mem m' p l G \<and> hnode (mem_heap m') a 0 [a, k, v] \<lparr>hkey = ks, hvalue = vs\<rparr>
     \<and> (\<forall>x \<in> set [a, k, v]. G x = mem_heap m' x) \<and> G |` (- set [a, k, v]) = F |` (- (taken ak key \<union> taken av val))
     \<and> mem_left m = mem_left m' + 1 + of_bool ak + of_bool av"
proof -
  from hch.holds_malloc [OF m, of Undef] left obtain a m1 where m1: "m_malloc m Undef = (a, m1)" "a \<noteq> 0"
    "mem_heap m a = None" "hlist_mem m1 p l (F(a \<mapsto> Undef))" "mem_heap m1 = (mem_heap m)(a \<mapsto> Undef)"
    "mem_left m = Suc (mem_left m1)" by auto
  have ne: "key \<noteq> a" "val \<noteq> a" using str_at_dom [OF key] str_at_dom [OF val] m1(3) by auto
  from m1(5) ne key val have s1: "str_at (mem_heap m1) key = Ret ks" "str_at (mem_heap m1) val = Ret vs"
    by (simp_all add: str_at_def)
  have own1: "0 < mem_left m1" if ak using that left m1(6) by simp
  have own2: "(F(a \<mapsto> Undef)) key = Some (Str ks)" if "\<not> ak" using that own(1) ne by simp
  from dup_if_ok [OF m1(4) s1(1) own1 own2, of ak] obtain k m2
    where m2: "(if ak then m_strdup m1 key else Ret (key, m1)) = Ret (k, m2)" "hlist_mem m2 p l (F(a \<mapsto> Undef, k \<mapsto> Str ks))"
      "mem_heap m2 = (mem_heap m1)(k \<mapsto> Str ks)" "if ak then mem_heap m1 k = None else k = key"
      "mem_left m1 = mem_left m2 + of_bool ak" by blast
  have ka: "k \<noteq> a" using m2(4) m1(5) ne by (auto split: if_splits)
  have vk: "ak \<Longrightarrow> val \<noteq> k" using m2(4) s1(2) str_at_dom by fastforce
  have s2: "str_at (mem_heap m2) val = Ret vs"
    using m2(3,4) s1 by (auto simp: str_at_def split: if_splits)
  have own3: "0 < mem_left m2" if av using that left m1(6) m2(5) by simp
  have own4: "(F(a \<mapsto> Undef, k \<mapsto> Str ks)) val = Some (Str vs)" if "\<not> av"
    using that own(2,3) m2(4) ne vk by (cases ak) auto
  from dup_if_ok [OF m2(2) s2 own3 own4, of av] obtain v m3
    where m3: "(if av then m_strdup m2 val else Ret (val, m2)) = Ret (v, m3)"
      "hlist_mem m3 p l (F(a \<mapsto> Undef, k \<mapsto> Str ks, v \<mapsto> Str vs))"
      "mem_heap m3 = (mem_heap m2)(v \<mapsto> Str vs)" "if av then mem_heap m2 v = None else v = val"
      "mem_left m2 = mem_left m3 + of_bool av" by blast
  have va: "v \<noteq> a" "v \<noteq> k" using m3(4) m2(3,4) m1(5) ne ka vk own(3) by (auto split: if_splits)
  have a3: "mem_heap m3 a = Some Undef" using m3(3) m2(3) m1(5) ka va by simp
  from mem_ok_store [OF holds_ok [OF m3(2)] a3] obtain m4 where m4: "m_store m3 a (HNode k v 0) = Ret m4"
    "mem_ok m4" "mem_heap m4 = (mem_heap m3)(a \<mapsto> HNode k v 0)" "mem_left m4 = mem_left m3" by blast
  define G where "G = F(a \<mapsto> Undef, k \<mapsto> Str ks, v \<mapsto> Str vs, a \<mapsto> HNode k v 0)"
  have "hlist_mem m4 p l G"
    unfolding G_def by (rule hch.holds_upd [OF m3(2) m4(2,3)]) (use a3 ka va in simp)
  moreover have "hnode (mem_heap m4) a 0 [a, k, v] \<lparr>hkey = ks, hvalue = vs\<rparr>"
    using m4(3) m3(3) m2(3) ka va by simp
  moreover have "\<forall>x \<in> set [a, k, v]. G x = mem_heap m4 x"
    using m4(3) m3(3) m2(3) ka va by (simp add: G_def)
  moreover have Fn: "F x = None" if "mem_heap m x = None" for x using holds_sub [OF m, of x] that by auto
  then have "G |` (- set [a, k, v]) = F |` (- (taken ak key \<union> taken av val))"
    using m1(3,5) m2(3,4) m3(4) ka va
    by (intro ext) (auto simp: G_def restrict_map_def taken_def split: if_splits)
  ultimately show ?thesis using m1 m2 m3 m4 ka va
    by (intro exI [of _ a] exI [of _ k] exI [of _ v] exI [of _ m4] exI [of _ G])
       (simp add: hnode_new_def)
qed

lemma m_hlist_add_ok:
  assumes m: "hlist_mem m p l F" and key: "str_at (mem_heap m) key = Ret ks" and val: "str_at (mem_heap m) val = Ret vs"
    and own: "\<not> ak \<Longrightarrow> F key = Some (Str ks)" "\<not> av \<Longrightarrow> F val = Some (Str vs)" "\<not> ak \<Longrightarrow> \<not> av \<Longrightarrow> key \<noteq> val"
    and left: "1 + of_bool ak + of_bool av \<le> mem_left m"
  shows "\<exists>p' m'. m_hlist_add m p key val ak av = Some (Ret (p', m'))
     \<and> hlist_mem m' p' (hlist_add l (Some ks) (Some vs)) (F |` (- (taken ak key \<union> taken av val)))
     \<and> mem_left m = mem_left m' + 1 + of_bool ak + of_bool av"
proof -
  from hnode_new_ok [OF assms] obtain a k v m1 G where n: "hnode_new m key val ak av = Ret (a, m1)" "a \<noteq> 0"
    "distinct [a, k, v]" "hlist_mem m1 p l G" "hnode (mem_heap m1) a 0 [a, k, v] \<lparr>hkey = ks, hvalue = vs\<rparr>"
    "\<forall>x \<in> set [a, k, v]. G x = mem_heap m1 x" "G |` (- set [a, k, v]) = F |` (- (taken ak key \<union> taken av val))"
    "mem_left m = mem_left m1 + 1 + of_bool ak + of_bool av" by blast
  have "key \<noteq> 0" "val \<noteq> 0" using str_at_nz [OF holds_ok [OF m]] key val by blast+
  moreover have "if p = 0 then hlist_mem m1 a [\<lparr>hkey = ks, hvalue = vs\<rparr>] (F |` (- (taken ak key \<union> taken av val)))
    else \<exists>b m'. m_last (mem_heap m1) p = Some (Ret b) \<and> set_next m1 b a = Ret m'
      \<and> hlist_mem m' p (l @ [\<lparr>hkey = ks, hvalue = vs\<rparr>]) (F |` (- (taken ak key \<union> taken av val)))
      \<and> mem_left m' = mem_left m1"
    unfolding n(7) [symmetric] using hch.holds_append [OF n(4,5,3)] n(6) by blast
  ultimately show ?thesis using n(1,8) hch.holds_NULL [OF m]
    by (cases "p = 0") (auto simp: m_hlist_add_def hlist_add_def)
qed

lemma m_hlist_add_copy:
  assumes "hlist_mem m p l F" "str_at (mem_heap m) key = Ret ks" "str_at (mem_heap m) val = Ret vs" "3 \<le> mem_left m"
  shows "\<exists>p' m'. m_hlist_add m p key val True True = Some (Ret (p', m'))
     \<and> hlist_mem m' p' (hlist_add l (Some ks) (Some vs)) F \<and> mem_left m = mem_left m' + 3"
  using m_hlist_add_ok [OF assms(1-3), of True True] assms(4) by (auto simp: taken_def restrict_map_def)

lemma hlist_set_first_split:
  "\<not> hlist_in l1 k \<Longrightarrow> strcaseeq (hkey t) k \<Longrightarrow>
   hlist_set_first (l1 @ t # l2) k v = l1 @ t\<lparr>hvalue := v\<rparr> # l2"
  by (induction l1) auto

text \<open>The new value is a string beside the list (the old value is released before it is copied).\<close>

lemma m_hlist_mod_ok:
  assumes m: "hlist_mem m p l F" and key: "str_at (mem_heap m) key = Ret ks" and val: "str_at F val = Ret vs"
    and left: "3 \<le> mem_left m"
  shows "\<exists>p' m'. m_hlist_mod m p key val add = Some (Ret (p', m')) \<and> hlist_mem m' p' (hlist_mod l ks vs add) F
    \<and> mem_left m \<le> mem_left m' + 3"
proof -
  have vsub: "mem_heap m val = F val" using holds_sub [OF m, of val] str_at_dom [OF val] by auto
  then have val': "str_at (mem_heap m) val = Ret vs" using val by (simp add: str_at_def)
  show ?thesis using hlist_find [OF m key]
  proof (elim disjE exE conjE)
    fix r
    assume "m_find (key_test key) (mem_heap m) 0 p = Some (Ret (r, 0))" "\<not> hlist_in l ks"
    with m_hlist_add_copy [OF m key val' left] m show ?thesis
      by (cases add) (auto simp: m_hlist_mod_def hlist_mod_def)
  next
    fix l1 t l2 prev a n k v
    assume *: "m_find (key_test key) (mem_heap m) 0 p = Some (Ret (prev, a))" "a \<noteq> 0" "l = l1 @ t # l2"
      "strcaseeq (hkey t) ks" "\<not> hlist_in l1 ks" "at_node hnode m p l1 t l2 F prev a n [a, k, v]"
      "mem_heap m a = Some (HNode k v n)" "mem_heap m k = Some (Str (hkey t))"
      "mem_heap m v = Some (Str (hvalue t))"
    have d: "distinct [a, k, v]" using hch.at_nodeD(2) [OF *(6)] .
    have "F v = None" using *(6) by (auto simp: at_node_def restrict_compl)
    then have vv: "val \<noteq> v" using vsub *(9) by auto
    from mem_ok_free [OF holds_ok [OF m] *(9)] obtain m1 where m1: "m_free m v = Ret m1" "mem_ok m1"
      "mem_heap m1 = (mem_heap m)(v := None)" "mem_left m1 = mem_left m" by auto
    have "str_at (mem_heap m1) val = Ret vs" using m1(3) vv val' by (simp add: str_at_def)
    from mem_ok_strdup [OF m1(2) _ this] left m1(4) obtain w m2 where m2: "m_strdup m1 val = Ret (w, m2)"
      "mem_ok m2" "mem_heap m1 w = None" "mem_heap m2 = (mem_heap m1)(w \<mapsto> Str vs)"
      "mem_left m1 = Suc (mem_left m2)" by auto
    have w: "w \<noteq> a" "w \<noteq> k" using m2(3) m1(3) *(7,8) d by (auto split: if_splits)
    have a2: "mem_heap m2 a = Some (HNode k v n)" using m2(4) m1(3) w d *(7) by simp
    from mem_ok_store [OF m2(2) a2] obtain m3 where m3: "m_store m2 a (HNode k w n) = Ret m3" "mem_ok m3"
      "mem_heap m3 = (mem_heap m2)(a \<mapsto> HNode k w n)" "mem_left m3 = mem_left m2" by blast
    have h3: "mem_heap m3 = (mem_heap m)(v := None, w \<mapsto> Str vs, a \<mapsto> HNode k w n)"
      using m1(3) m2(4) m3(3) by simp
    have "hlist_mem m3 p (l1 @ t\<lparr>hvalue := vs\<rparr> # l2) F"
    proof (rule hch.at_node_replace [OF *(6) m3(2), of "[a, k, w]"])
      show "hnode (mem_heap m3) a n [a, k, w] (t\<lparr>hvalue := vs\<rparr>)" using h3 w d *(8) by simp
      show "\<And>x. x \<in> set [a, k, w] \<Longrightarrow> x \<notin> set [a, k, v] \<Longrightarrow> mem_heap m x = None"
        using m2(3) m1(3) by (auto split: if_splits)
    qed (use h3 w d in auto)
    moreover have "hlist_mod l ks vs add = l1 @ t\<lparr>hvalue := vs\<rparr> # l2"
      using *(3-5) by (simp add: hlist_mod_def hlist_set_first_split) (auto simp: hlist_in_iff)
    ultimately show ?thesis using * m1 m2 m3 left by (simp add: m_hlist_mod_def)
  qed
qed

lemma m_hlist_dup_loop_ok:
  "hlist_mem m tmp acc G \<Longrightarrow> G 0 = None \<Longrightarrow> seg hnode G t fs 0 l \<Longrightarrow> 3 * length l \<le> mem_left m \<Longrightarrow>
   \<exists>p' m'. m_hlist_dup_loop m tmp t = Some (Ret (p', m')) \<and> hlist_mem m' p' (hlist_dup_loop acc l) G
     \<and> mem_left m = mem_left m' + 3 * length l"
proof (induction l arbitrary: m tmp acc t fs)
  case Nil
  then show ?case by (subst m_hlist_dup_loop.simps) auto
next
  case (Cons u l)
  from Cons.prems(3) obtain f fs' n where f: "hnode G t n f u" "seg hnode G n fs' 0 l" by (auto dest: seg_ConsD)
  from f(1) obtain k v where kv: "G t = Some (HNode k v n)" "G k = Some (Str (hkey u))"
    "G v = Some (Str (hvalue u))" by (auto simp: hnode_iff)
  have sub: "mem_heap m t = G t" "mem_heap m k = G k" "mem_heap m v = G v"
    using holds_sub [OF Cons.prems(1)] kv by (metis option.distinct(1))+
  have s: "str_at (mem_heap m) k = Ret (hkey u)" "str_at (mem_heap m) v = Ret (hvalue u)"
    using sub kv by (simp_all add: str_at_def)
  from m_hlist_add_copy [OF Cons.prems(1) s] Cons.prems(4) obtain p1 m1
    where m1: "m_hlist_add m tmp k v True True = Some (Ret (p1, m1))"
      "hlist_mem m1 p1 (hlist_add acc (Some (hkey u)) (Some (hvalue u))) G"
      "mem_left m = mem_left m1 + 3"
    by auto
  have t1: "mem_heap m1 t = Some (HNode k v n)" using holds_sub [OF m1(2), of t] kv(1) by simp
  have "t \<noteq> 0" using Cons.prems(2) kv(1) by (intro notI) simp
  moreover from Cons.IH [OF m1(2) Cons.prems(2) f(2)] Cons.prems(4) m1(3) obtain p' m'
    where "m_hlist_dup_loop m1 p1 n = Some (Ret (p', m'))" "mem_left m1 = mem_left m' + 3 * length l"
      "hlist_mem m' p' (hlist_dup_loop (hlist_add acc (Some (hkey u)) (Some (hvalue u))) l) G" by auto
  ultimately show ?case using m1 t1 sub kv by (subst m_hlist_dup_loop.simps) simp
qed

text \<open>The copy is made beside everything that was there, the original included.\<close>

lemma m_hlist_dup_ok:
  assumes "hlist_mem m p l F" "3 * length l \<le> mem_left m"
  shows "\<exists>p' m'. m_hlist_dup m p = Some (Ret (p', m')) \<and> hlist_mem m' p' (hlist_dup l) (mem_heap m)
    \<and> mem_left m = mem_left m' + 3 * length l"
proof -
  from assms(1) obtain fs where "seg hnode (mem_heap m) p fs 0 l" by (auto simp: holds_def)
  moreover have "hlist_mem m 0 [] (mem_heap m)" using holds_ok [OF assms(1)] by (simp add: holds_Nil)
  ultimately show ?thesis
    using m_hlist_dup_loop_ok [of m 0 "[]" "mem_heap m" p fs l] holds_heap0 [OF assms(1)] assms(2)
    by (simp add: m_hlist_dup_def hlist_dup_def del: hlist_dup_id)
qed

text \<open>Nothing but the list is needed to look up, and nothing changes.\<close>

lemma m_hlist_get_ok:
  assumes "hlist_mem m p l F" "str_at (mem_heap m) key = Ret ks"
  shows "m_hlist_in m p key = Some (Ret (hlist_in l ks))"
    and "\<exists>a. m_hlist_get m p key = Some (Ret a) \<and>
      (case hlist_get l ks of None \<Rightarrow> a = 0 | Some v \<Rightarrow> mem_heap m a = Some (Str v) \<and> F a = None)"
    and "m_hlist_count m p = Some (Ret (hlist_count l))"
proof -
  consider r where "m_find (key_test key) (mem_heap m) 0 p = Some (Ret (r, 0))" "\<not> hlist_in l ks"
    | l1 t l2 prev a n k v where "m_find (key_test key) (mem_heap m) 0 p = Some (Ret (prev, a))" "a \<noteq> 0"
      "l = l1 @ t # l2" "strcaseeq (hkey t) ks" "\<not> hlist_in l1 ks" "at_node hnode m p l1 t l2 F prev a n [a, k, v]"
      "mem_heap m a = Some (HNode k v n)" "mem_heap m v = Some (Str (hvalue t))"
    using hlist_find [OF assms] by blast
  note cs = this
  show "m_hlist_in m p key = Some (Ret (hlist_in l ks))"
    by (rule cs) (auto simp: m_hlist_in_def hlist_in_iff)
  show "\<exists>a. m_hlist_get m p key = Some (Ret a) \<and>
      (case hlist_get l ks of None \<Rightarrow> a = 0 | Some v \<Rightarrow> mem_heap m a = Some (Str v) \<and> F a = None)"
  proof (rule cs)
    fix l1 t l2 prev a n k v
    assume *: "m_find (key_test key) (mem_heap m) 0 p = Some (Ret (prev, a))" "a \<noteq> 0"
      "l = l1 @ t # l2" "strcaseeq (hkey t) ks" "\<not> hlist_in l1 ks" "at_node hnode m p l1 t l2 F prev a n [a, k, v]"
      "mem_heap m a = Some (HNode k v n)" "mem_heap m v = Some (Str (hvalue t))"
    have "F v = None" using *(6) by (auto simp: at_node_def restrict_compl)
    moreover have "hlist_get l ks = Some (hvalue t)"
      using *(3-5) by (simp add: hlist_get_append hlist_in_get)
    ultimately show ?thesis using * by (simp add: m_hlist_get_def)
  qed (simp add: m_hlist_get_def hlist_in_get)
  from assms(1) obtain fs where "seg hnode (mem_heap m) p fs 0 l" by (auto simp: holds_def)
  with hch.seg_count [of "mem_heap m" p fs l 0] holds_heap0 [OF assms(1)]
  show "m_hlist_count m p = Some (Ret (hlist_count l))" by (simp add: m_hlist_count_def)
qed

section \<open>The life of a list\<close>

text \<open>
  What a client does with a list: its operations in any order, with strings that lie beside the
  list (literals, strings of its own or of another list).
\<close>

datatype hop =
    HAdd addr addr
  | HDel addr
  | HMod addr addr bool

fun m_hop :: "memory \<Rightarrow> addr \<Rightarrow> hop \<Rightarrow> (addr \<times> memory) c_prog" where
  "m_hop m p (HAdd k v) = m_hlist_add m p k v True True"
| "m_hop m p (HDel k) = m_hlist_del m p k"
| "m_hop m p (HMod k v add) = m_hlist_mod m p k v add"

fun m_hops :: "memory \<Rightarrow> addr \<Rightarrow> hop list \<Rightarrow> (addr \<times> memory) c_prog" where
  "m_hops m p [] = Some (Ret (p, m))"
| "m_hops m p (op # ops) = p_bind (m_hop m p op) (\<lambda>(p', m'). m_hops m' p' ops)"

text \<open>The same on the abstract list, with the strings the pointers name.\<close>

definition text_at :: "heap \<Rightarrow> addr \<Rightarrow> string" where
  "text_at h p = the_ret (str_at h p)"

fun hop_abs :: "heap \<Rightarrow> hop \<Rightarrow> hlist_t \<Rightarrow> hlist_t" where
  "hop_abs h (HAdd k v) l = hlist_add l (Some (text_at h k)) (Some (text_at h v))"
| "hop_abs h (HDel k) l = hlist_del l (text_at h k)"
| "hop_abs h (HMod k v add) l = hlist_mod l (text_at h k) (text_at h v) add"

fun hop_strs :: "hop \<Rightarrow> addr list" where
  "hop_strs (HAdd k v) = [k, v]"
| "hop_strs (HDel k) = [k]"
| "hop_strs (HMod k v add) = [k, v]"

definition hop_ok :: "heap \<Rightarrow> hop \<Rightarrow> bool" where
  "hop_ok h op \<longleftrightarrow> list_all (\<lambda>p. str_at h p \<noteq> UB) (hop_strs op)"

lemma str_beside:
  assumes "hlist_mem m p l F" "str_at F q \<noteq> UB"
  shows "str_at F q = Ret (text_at F q) \<and> str_at (mem_heap m) q = Ret (text_at F q)"
proof -
  from assms(2) obtain s where s: "str_at F q = Ret s" by (cases "str_at F q") auto
  with holds_sub [OF assms(1), of q] str_at_dom [OF s] have "mem_heap m q = F q" by auto
  with s show ?thesis by (simp add: text_at_def str_at_def)
qed

lemma m_hop_ok:
  assumes "hlist_mem m p l F" "hop_ok F op" "3 \<le> mem_left m"
  shows "\<exists>p' m'. m_hop m p op = Some (Ret (p', m')) \<and> hlist_mem m' p' (hop_abs F op l) F \<and> mem_left m \<le> mem_left m' + 3"
proof (cases op)
  case (HAdd k v)
  with assms(2) str_beside [OF assms(1), of k] str_beside [OF assms(1), of v]
    m_hlist_add_copy [OF assms(1) _ _ assms(3), of k "text_at F k" v "text_at F v"]
  show ?thesis by (auto simp: hop_ok_def)
next
  case (HDel k)
  with assms(2) str_beside [OF assms(1), of k] m_hlist_del_ok [OF assms(1), of k "text_at F k"]
  show ?thesis by (auto simp: hop_ok_def)
next
  case (HMod k v add)
  with assms(2) str_beside [OF assms(1), of k] str_beside [OF assms(1), of v]
    m_hlist_mod_ok [OF assms(1) _ _ assms(3), of k "text_at F k" v "text_at F v" add]
  show ?thesis by (auto simp: hop_ok_def)
qed

lemma m_hops_ok:
  "hlist_mem m p l F \<Longrightarrow> list_all (hop_ok F) ops \<Longrightarrow> 3 * length ops \<le> mem_left m \<Longrightarrow>
   \<exists>p' m'. m_hops m p ops = Some (Ret (p', m')) \<and> hlist_mem m' p' (fold (hop_abs F) ops l) F"
proof (induction ops arbitrary: m p l)
  case (Cons op ops)
  from m_hop_ok [OF Cons.prems(1), of op] Cons.prems(2,3) obtain p1 m1 where m1: "m_hop m p op = Some (Ret (p1, m1))"
    "hlist_mem m1 p1 (hop_abs F op l) F" "mem_left m \<le> mem_left m1 + 3" by auto
  from Cons.IH [OF m1(2)] Cons.prems(2,3) m1(1,3) show ?case by auto
qed simp

text \<open>A value that lies in the node itself is read after it has been released.\<close>

lemma m_hlist_mod_self:
  assumes "hlist_mem m p l F" "str_at (mem_heap m) key = Ret ks" "m_hlist_get m p key = Some (Ret v)" "v \<noteq> 0"
  shows "m_hlist_mod m p key v add = Some UB"
  using hlist_find [OF assms(1,2)]
proof (elim disjE exE conjE)
  fix l1 t l2 prev a n k w
  assume *: "m_find (key_test key) (mem_heap m) 0 p = Some (Ret (prev, a))" "a \<noteq> 0"
    "mem_heap m a = Some (HNode k w n)" "mem_heap m w = Some (Str (hvalue t))"
  with assms(3) have "v = w" by (simp add: m_hlist_get_def)
  from mem_ok_free [OF holds_ok [OF assms(1)] *(4)] obtain m1 where "m_free m w = Ret m1"
    "mem_heap m1 = (mem_heap m)(w := None)" by auto
  with * \<open>v = w\<close> show ?thesis by (simp add: m_hlist_mod_def m_strdup_def str_at_def)
qed (use assms(3,4) in \<open>simp add: m_hlist_get_def\<close>)

section \<open>Properties\<close>

text \<open>
  C22: A list of headers in memory goes through any sequence of hlist_add (with copies), hlist_del
  and hlist_mod and is then freed.  Every step is defined and ends: nothing is read or freed that
  is not allocated.  The list in memory is the one the abstract operations give, everything beside
  it is unchanged, and after hlist_free the heap is what it was before the list was begun: nothing
  is leaked.  The strings are any that lie beside the list, and three allocations for each
  operation have to succeed.
\<close>

theorem header_list_life:
  assumes "mem_ok m" "list_all (hop_ok (mem_heap m)) ops" "3 * length ops \<le> mem_left m"
  shows "\<exists>p m1 m2. m_hops m 0 ops = Some (Ret (p, m1))
    \<and> hlist_mem m1 p (fold (hop_abs (mem_heap m)) ops []) (mem_heap m)
    \<and> m_hlist_free m1 p = Some (Ret (0, m2)) \<and> mem_heap m2 = mem_heap m"
proof -
  have "hlist_mem m 0 [] (mem_heap m)" using assms(1) by (simp add: holds_Nil)
  from m_hops_ok [OF this assms(2,3)] show ?thesis using m_hlist_free_ok by blast
qed

definition sample_memory :: memory where
  "sample_memory = \<lparr>mem_heap = [1 \<mapsto> Lit ''Host'', 2 \<mapsto> Str ''a'', 3 \<mapsto> Lit ''host'', 4 \<mapsto> Lit ''b'', 5 \<mapsto> Lit ''Via''],
     mem_next = 6, mem_left = 12\<rparr>"

theorem header_list_life_witness:
  "\<exists>p m1 m2. m_hops sample_memory 0 [HAdd 1 2, HAdd 5 2, HMod 3 4 False, HDel 5] = Some (Ret (p, m1))
    \<and> hlist_mem m1 p [\<lparr>hkey = ''Host'', hvalue = ''b''\<rparr>] (mem_heap sample_memory)
    \<and> m_hlist_free m1 p = Some (Ret (0, m2)) \<and> mem_heap m2 = mem_heap sample_memory"
proof -
  have "fold (hop_abs (mem_heap sample_memory)) [HAdd 1 2, HAdd 5 2, HMod 3 4 False, HDel 5] []
      = [\<lparr>hkey = ''Host'', hvalue = ''b''\<rparr>]"
    by code_simp
  then show ?thesis
    using header_list_life [of sample_memory "[HAdd 1 2, HAdd 5 2, HMod 3 4 False, HDel 5]"]
    by (simp add: sample_memory_def mem_ok_def hop_ok_def str_at_def)
qed

end
