(* ===== verification/StructMem.thy ===== *)
theory StructMem
  imports HListMem RRData ConfigFile
begin

text \<open>
  The structures of utils.c and config.c that own memory: new_rr_data, reset_rr_data, copy_rr_data,
  dup_rr_data and free_rr_data, and config_set, config_pop and config_close, with every allocation
  and release.  A structure is a cell \<open>Struct\<close> of its numbers and its pointers in the order of
  the declaration.
\<close>

section \<open>Requests and responses\<close>

text \<open>The seven guarded \<open>free\<close> of the strings and the body: \<open>if (data->x) free(data->x);\<close>\<close>

fun m_free_all :: "memory \<Rightarrow> addr list \<Rightarrow> memory c_result" where
  "m_free_all m [] = Ret m"
| "m_free_all m (p # ps) = c_bind (if p \<noteq> 0 then m_free m p else Ret m) (\<lambda>m1. m_free_all m1 ps)"

definition m_rr_free_members :: "memory \<Rightarrow> addr list \<Rightarrow> memory c_prog" where
  "m_rr_free_members m ps =
     (case ps of
        [headers, method, url, rel_url, hostname, http, msg, body, errmsg] \<Rightarrow>
          p_bind (if headers \<noteq> 0 then m_hlist_free m headers else Some (Ret (0, m))) (\<lambda>(_, m1).
            Some (m_free_all m1 [method, url, rel_url, hostname, http, msg, body]))
      | _ \<Rightarrow> Some UB)"

definition m_new_rr_data :: "memory \<Rightarrow> (addr \<times> memory) c_result" where
  "m_new_rr_data m =
     (let (data, m1) = m_malloc m Undef
      in c_bind (m_store m1 data (Struct [0, 0, 0, 0, 1, 0] [0, 0, 0, 0, 0, 0, 0, 0, 0]))
           (\<lambda>m2. Ret (data, m2)))"

definition m_reset_rr_data :: "memory \<Rightarrow> addr \<Rightarrow> (addr \<times> memory) c_prog" where
  "m_reset_rr_data m data =
     (if data = 0 then Some (Ret (0, m))
      else case mem_heap m data of
        Some (Struct ns ps) \<Rightarrow>
          p_bind (Some (m_store m data (Struct [0, 0, 0, 0, 1, 0] ps))) (\<lambda>m1.
          p_bind (m_rr_free_members m1 ps) (\<lambda>m2.
          Some (c_bind (m_store m2 data (Struct [0, 0, 0, 0, 1, 0] [0, 0, 0, 0, 0, 0, 0, 0, 0]))
                  (\<lambda>m3. Ret (data, m3)))))
      | _ \<Rightarrow> Some UB)"

definition m_free_rr_data :: "memory \<Rightarrow> addr \<Rightarrow> memory c_prog" where
  "m_free_rr_data m data =
     (if data = 0 then Some (Ret m)
      else case mem_heap m data of
        Some (Struct ns ps) \<Rightarrow> p_bind (m_rr_free_members m ps) (\<lambda>m1. Some (m_free m1 data))
      | _ \<Rightarrow> Some UB)"

text \<open>\<open>if (src->x) dst->x = strdup(src->x);\<close> for the six strings; \<open>dst->x\<close> is NULL before.\<close>

fun m_dup_all :: "memory \<Rightarrow> addr list \<Rightarrow> (addr list \<times> memory) c_result" where
  "m_dup_all m [] = Ret ([], m)"
| "m_dup_all m (p # ps) =
     c_bind (if p \<noteq> 0 then m_strdup m p else Ret (0, m)) (\<lambda>(q, m1).
     c_bind (m_dup_all m1 ps) (\<lambda>(qs, m2). Ret (q # qs, m2)))"

text \<open>The body: a zeroed buffer of \<open>body_len\<close> bytes and memcpy.\<close>

definition m_dup_body :: "memory \<Rightarrow> addr \<Rightarrow> int \<Rightarrow> (addr \<times> memory) c_result" where
  "m_dup_body m body len =
     (if body \<noteq> 0 \<and> 0 < len
      then (case mem_heap m body of
              Some (Raw b) \<Rightarrow>
                (let (q, m1) = m_malloc m Undef
                 in c_bind (m_store m1 q (Raw (replicate (nat len) 0))) (\<lambda>m2.
                    c_bind (memcpy (replicate (nat len) 0) b (nat len)) (\<lambda>b'.
                    c_bind (m_store m2 q (Raw b')) (\<lambda>m3. Ret (q, m3)))))
            | _ \<Rightarrow> UB)
      else Ret (0, m))"

definition m_copy_rr_data :: "memory \<Rightarrow> addr \<Rightarrow> addr \<Rightarrow> (addr \<times> memory) c_prog" where
  "m_copy_rr_data m dst src =
     (if src = 0 \<or> dst = 0 then Some (Ret (0, m))
      else p_bind (m_reset_rr_data m dst) (\<lambda>(_, m1).
        case mem_heap m1 src of
          Some (Struct [req, code, skip_http, body_len, empt, port]
             [headers, method, url, rel_url, hostname, http, msg, body, errmsg]) \<Rightarrow>
            p_bind (if headers \<noteq> 0 then m_hlist_dup m1 headers else Some (Ret (0, m1))) (\<lambda>(hs, m2).
            p_bind (Some (m_dup_all m2 [method, url, rel_url, hostname, http, msg])) (\<lambda>(qs, m3).
            p_bind (Some (m_dup_body m3 body body_len)) (\<lambda>(b, m4).
            Some (c_bind (m_store m4 dst (Struct [req, code, skip_http, body_len, empt, port]
                    (hs # qs @ [b, 0]))) (\<lambda>m5. Ret (dst, m5))))))
        | _ \<Rightarrow> Some UB))"

definition m_dup_rr_data :: "memory \<Rightarrow> addr \<Rightarrow> (addr \<times> memory) c_prog" where
  "m_dup_rr_data m data =
     (if data = 0 then Some (Ret (0, m))
      else p_bind (Some (m_new_rr_data m)) (\<lambda>(tmp, m1). m_copy_rr_data m1 tmp data))"

section \<open>The configuration store\<close>

text \<open>A configuration is a structure with the list of options alone.\<close>

definition conf_options :: "memory \<Rightarrow> addr \<Rightarrow> addr c_result" where
  "conf_options m cf = (case mem_heap m cf of Some (Struct [] [options]) \<Rightarrow> Ret options | _ \<Rightarrow> UB)"

definition m_config_set :: "memory \<Rightarrow> addr \<Rightarrow> addr \<Rightarrow> addr \<Rightarrow> memory c_prog" where
  "m_config_set m cf option val =
     p_bind (Some (conf_options m cf)) (\<lambda>options.
     p_bind (m_hlist_mod m options option val True) (\<lambda>(options', m1).
     Some (m_store m1 cf (Struct [] [options']))))"

definition m_config_pop :: "memory \<Rightarrow> addr \<Rightarrow> addr \<Rightarrow> (addr \<times> memory) c_prog" where
  "m_config_pop m cf option =
     p_bind (Some (conf_options m cf)) (\<lambda>options.
     p_bind (m_hlist_get m options option) (\<lambda>tmp.
       if tmp = 0 then Some (Ret (0, m))
       else p_bind (Some (m_strdup m tmp)) (\<lambda>(tmp', m1).
         p_bind (m_hlist_del m1 options option) (\<lambda>(options', m2).
         Some (c_bind (m_store m2 cf (Struct [] [options'])) (\<lambda>m3. Ret (tmp', m3)))))))"

definition m_config_close :: "memory \<Rightarrow> addr \<Rightarrow> memory c_prog" where
  "m_config_close m cf =
     (if cf = 0 then Some (Ret m)
      else p_bind (Some (conf_options m cf)) (\<lambda>options.
        p_bind (m_hlist_free m options) (\<lambda>(options', m1).
        Some (c_bind (m_store m1 cf (Struct [] [options'])) (\<lambda>m2. m_free m2 cf)))))"

section \<open>What a structure owns\<close>

definition sptr :: "heap \<Rightarrow> addr \<Rightarrow> string option \<Rightarrow> bool" where
  "sptr h q x = (case x of None \<Rightarrow> q = 0 | Some s \<Rightarrow> q \<noteq> 0 \<and> h q = Some (Str s))"

definition bptr :: "heap \<Rightarrow> addr \<Rightarrow> byte list option \<Rightarrow> bool" where
  "bptr h q x = (case x of None \<Rightarrow> q = 0 | Some b \<Rightarrow> q \<noteq> 0 \<and> h q = Some (Raw b))"

definition rr_nums :: "rr_data_s \<Rightarrow> int list" where
  "rr_nums d = [rr_req d, rr_code d, rr_skip_http d, rr_body_len d, rr_empty d, rr_port d]"

definition rr_strs :: "rr_data_s \<Rightarrow> string option list" where
  "rr_strs d = [rr_method d, rr_url d, rr_rel_url d, rr_hostname d, rr_http d, rr_msg d]"

definition nz :: "addr list \<Rightarrow> addr list" where
  "nz ps = filter (\<lambda>p. p \<noteq> 0) ps"

text \<open>
  The memory holds the structure \<open>d\<close> at \<open>p\<close> and \<open>F\<close> beside it.  The structure owns its header list,
  its strings and its body; the error text is a literal that it does not own.
\<close>

definition rr_mem :: "memory \<Rightarrow> addr \<Rightarrow> rr_data_s \<Rightarrow> heap \<Rightarrow> bool" where
  "rr_mem m p d F \<longleftrightarrow>
     (\<exists>hs qs b e G. hlist_mem m hs (rr_headers d) G \<and> G p = Some (Struct (rr_nums d) (hs # qs @ [b, e]))
        \<and> list_all2 (sptr G) qs (rr_strs d) \<and> bptr G b (rr_body d) \<and> distinct (p # nz (qs @ [b]))
        \<and> F = G |` (- set (p # nz (qs @ [b])))
        \<and> (case rr_errmsg d of None \<Rightarrow> e = 0 | Some s \<Rightarrow> F e = Some (Lit s)))"

lemma sptr_simps [simp]: "sptr h q None \<longleftrightarrow> q = 0" "sptr h q (Some s) \<longleftrightarrow> q \<noteq> 0 \<and> h q = Some (Str s)"
  by (simp_all add: sptr_def)

lemma bptr_simps [simp]: "bptr h q None \<longleftrightarrow> q = 0" "bptr h q (Some b) \<longleftrightarrow> q \<noteq> 0 \<and> h q = Some (Raw b)"
  by (simp_all add: bptr_def)

lemma nz_simps [simp]: "nz [] = []" "nz (p # ps) = (if p = 0 then nz ps else p # nz ps)" "nz (ps @ qs) = nz ps @ nz qs"
  by (simp_all add: nz_def)

lemma nz_replicate [simp]: "nz (replicate n 0) = []"
  by (induction n) auto

lemma m_free_all_ok:
  "mem_ok m \<Longrightarrow> distinct (nz ps) \<Longrightarrow> (\<And>q. q \<in> set (nz ps) \<Longrightarrow> \<exists>c. mem_heap m q = Some c \<and> (\<forall>s. c \<noteq> Lit s)) \<Longrightarrow>
   \<exists>m'. m_free_all m ps = Ret m' \<and> mem_ok m' \<and> mem_heap m' = mem_heap m |` (- set (nz ps)) \<and> mem_left m' = mem_left m"
proof (induction ps arbitrary: m)
  case Nil
  then show ?case by (auto simp: restrict_map_def)
next
  case (Cons p ps)
  show ?case
  proof (cases "p = 0")
    case True
    with Cons show ?thesis by auto
  next
    case False
    with Cons.prems(3) [of p] obtain c where c: "mem_heap m p = Some c" "\<And>s. c \<noteq> Lit s" by auto
    from mem_ok_free [OF Cons.prems(1) c] obtain m1 where m1: "m_free m p = Ret m1" "mem_ok m1"
      "mem_heap m1 = (mem_heap m)(p := None)" "mem_left m1 = mem_left m" by auto
    from False Cons.prems(2) have d: "distinct (nz ps)" "p \<notin> set (nz ps)" by auto
    have "\<exists>c. mem_heap m1 q = Some c \<and> (\<forall>s. c \<noteq> Lit s)" if "q \<in> set (nz ps)" for q
      using Cons.prems(3) [of q] that d(2) False m1(3) by auto
    from Cons.IH [OF m1(2) d(1) this] obtain m2 where m2: "m_free_all m1 ps = Ret m2" "mem_ok m2"
      "mem_heap m2 = mem_heap m1 |` (- set (nz ps))" "mem_left m2 = mem_left m1" by auto
    have "mem_heap m2 = mem_heap m |` (- set (nz (p # ps)))"
      unfolding m2(3) m1(3) using False by (intro ext) (auto simp: restrict_map_def)
    with False m1 m2 show ?thesis by auto
  qed
qed

lemma sptr_cell: "list_all2 (sptr G) qs xs \<Longrightarrow> q \<in> set (nz qs) \<Longrightarrow> \<exists>c. G q = Some c \<and> (\<forall>s. c \<noteq> Lit s)"
  by (induction rule: list_all2_induct) (auto simp: sptr_def split: option.splits if_splits)

lemma bptr_cell: "bptr G b x \<Longrightarrow> b \<noteq> 0 \<Longrightarrow> \<exists>c. G b = Some c \<and> (\<forall>s. c \<noteq> Lit s)"
  by (auto simp: bptr_def split: option.splits)

lemma sptr_local:
  "list_all2 (sptr G) qs xs \<Longrightarrow> (\<And>x. x \<in> set (nz qs) \<Longrightarrow> G' x = G x) \<Longrightarrow> list_all2 (sptr G') qs xs"
  by (induction rule: list_all2_induct) (auto simp: sptr_def split: option.splits if_splits)

lemma bptr_local: "bptr G b x \<Longrightarrow> (b \<noteq> 0 \<Longrightarrow> G' b = G b) \<Longrightarrow> bptr G' b x"
  by (auto simp: bptr_def split: option.splits)

lemma m_rr_free_members_ok:
  assumes "hlist_mem m hs l G" "list_all2 (sptr G) qs xs" "length xs = 6" "bptr G b y" "distinct (nz (qs @ [b]))"
  shows "\<exists>m'. m_rr_free_members m (hs # qs @ [b, e]) = Some (Ret m') \<and> mem_ok m'
    \<and> mem_heap m' = G |` (- set (nz (qs @ [b]))) \<and> mem_left m' = mem_left m"
proof -
  have "length qs = 6" using assms(2,3) by (simp add: list_all2_lengthD)
  then obtain q1 q2 q3 q4 q5 q6 where q: "qs = [q1, q2, q3, q4, q5, q6]"
    by (auto simp: eval_nat_numeral length_Suc_conv)
  from m_hlist_free_ok [OF assms(1)] hch.holds_NULL [OF assms(1)] assms(1) obtain m1
    where m1: "(if hs \<noteq> 0 then m_hlist_free m hs else Some (Ret (0, m))) = Some (Ret (0, m1))" "mem_ok m1"
      "mem_heap m1 = G" "mem_left m1 = mem_left m"
    by (cases "hs = 0") (auto simp: holds_Nil)
  have "\<exists>c. mem_heap m1 x = Some c \<and> (\<forall>s. c \<noteq> Lit s)" if "x \<in> set (nz (qs @ [b]))" for x
    using that sptr_cell [OF assms(2), of x] bptr_cell [OF assms(4)] m1(3) by (auto split: if_splits)
  from m_free_all_ok [OF m1(2) assms(5) this] obtain m2 where "m_free_all m1 (qs @ [b]) = Ret m2" "mem_ok m2"
    "mem_heap m2 = mem_heap m1 |` (- set (nz (qs @ [b])))" "mem_left m2 = mem_left m1" by blast
  with m1 show ?thesis unfolding q by (simp add: m_rr_free_members_def del: m_free_all.simps)
qed

lemma rr_strs_length [simp]: "length (rr_strs d) = 6"
  by (simp add: rr_strs_def)

lemma rr_mem_ok: "rr_mem m p d F \<Longrightarrow> mem_ok m \<and> p \<noteq> 0"
proof -
  assume "rr_mem m p d F"
  then obtain hs G c where "hlist_mem m hs (rr_headers d) G" "G p = Some c" by (auto simp: rr_mem_def)
  with holds_sub [OF this(1), of p] mem_okD [OF holds_ok [OF this(1)], of p c] holds_ok [OF this(1)]
  show ?thesis by auto
qed

text \<open>A fresh structure owns itself alone.\<close>

lemma rr_mem_new:
  assumes "mem_ok m" "mem_heap m p = Some (Struct [0, 0, 0, 0, 1, 0] [0, 0, 0, 0, 0, 0, 0, 0, 0])"
  shows "rr_mem m p new_rr_data ((mem_heap m)(p := None))"
proof -
  have "hlist_mem m 0 [] (mem_heap m)" using assms(1) by (simp add: holds_Nil)
  then show ?thesis unfolding rr_mem_def using assms(2)
    by (intro exI [of _ 0] exI [of _ "replicate 6 0"] exI [of _ "mem_heap m"])
       (auto simp: new_rr_data_def rr_nums_def rr_strs_def sptr_def bptr_def eval_nat_numeral restrict_map_def)
qed

lemma m_new_rr_data_ok:
  assumes "mem_ok m" "0 < mem_left m"
  shows "\<exists>p m'. m_new_rr_data m = Ret (p, m') \<and> rr_mem m' p new_rr_data (mem_heap m) \<and> mem_left m = Suc (mem_left m')"
proof -
  obtain p m1 where "m_malloc m Undef = (p, m1)" by fastforce
  with mem_ok_malloc [OF assms this] have m1: "m_malloc m Undef = (p, m1)" "mem_ok m1" "p \<noteq> 0" "mem_heap m p = None"
    "mem_heap m1 = (mem_heap m)(p \<mapsto> Undef)" "mem_left m = Suc (mem_left m1)" by auto
  from mem_ok_store [OF m1(2), of p Undef "Struct [0, 0, 0, 0, 1, 0] [0, 0, 0, 0, 0, 0, 0, 0, 0]"] m1(5)
  obtain m2 where m2: "m_store m1 p (Struct [0, 0, 0, 0, 1, 0] [0, 0, 0, 0, 0, 0, 0, 0, 0]) = Ret m2" "mem_ok m2"
    "mem_heap m2 = (mem_heap m1)(p \<mapsto> Struct [0, 0, 0, 0, 1, 0] [0, 0, 0, 0, 0, 0, 0, 0, 0])"
    "mem_left m2 = mem_left m1" by auto
  have "(mem_heap m2)(p := None) = mem_heap m" using m2(3) m1(4,5) by auto
  with rr_mem_new [OF m2(2), of p] m2 m1 show ?thesis by (auto simp: m_new_rr_data_def)
qed

lemma m_reset_rr_data_ok:
  assumes "rr_mem m p d F"
  shows "\<exists>m'. m_reset_rr_data m p = Some (Ret (p, m')) \<and> rr_mem m' p new_rr_data F
    \<and> mem_heap m' = F(p \<mapsto> Struct [0, 0, 0, 0, 1, 0] [0, 0, 0, 0, 0, 0, 0, 0, 0]) \<and> mem_left m' = mem_left m"
proof -
  from assms obtain hs qs b e G where r: "hlist_mem m hs (rr_headers d) G"
      "G p = Some (Struct (rr_nums d) (hs # qs @ [b, e]))" "list_all2 (sptr G) qs (rr_strs d)" "bptr G b (rr_body d)"
      "distinct (p # nz (qs @ [b]))" "F = G |` (- set (p # nz (qs @ [b])))"
    by (auto simp: rr_mem_def)
  let ?c = "Struct [0, 0, 0, 0, 1, 0] (hs # qs @ [b, e])" and ?z = "Struct [0, 0, 0, 0, 1, 0] [0, 0, 0, 0, 0, 0, 0, 0, 0]"
  have hp: "mem_heap m p = Some (Struct (rr_nums d) (hs # qs @ [b, e]))" using r(2) holds_sub [OF r(1), of p] by simp
  from mem_ok_store [OF holds_ok [OF r(1)] hp, of ?c] obtain m1 where m1: "m_store m p ?c = Ret m1" "mem_ok m1"
    "mem_heap m1 = (mem_heap m)(p \<mapsto> ?c)" "mem_left m1 = mem_left m" by blast
  from hch.holds_upd [OF r(1) m1(2,3)] r(2) hp have h1: "hlist_mem m1 hs (rr_headers d) (G(p \<mapsto> ?c))" by simp
  have "list_all2 (sptr (G(p \<mapsto> ?c))) qs (rr_strs d)" using r(5) by (intro sptr_local [OF r(3)]) auto
  moreover have "bptr (G(p \<mapsto> ?c)) b (rr_body d)" using r(5) by (intro bptr_local [OF r(4)]) auto
  ultimately have rep: "list_all2 (sptr (G(p \<mapsto> ?c))) qs (rr_strs d)" "bptr (G(p \<mapsto> ?c)) b (rr_body d)" by blast+
  from m_rr_free_members_ok [OF h1 rep(1) rr_strs_length rep(2)] r(5) obtain m2
    where m2: "m_rr_free_members m1 (hs # qs @ [b, e]) = Some (Ret m2)" "mem_ok m2"
      "mem_heap m2 = G(p \<mapsto> ?c) |` (- set (nz (qs @ [b])))" "mem_left m2 = mem_left m1" by auto
  have "mem_heap m2 p = Some ?c" using m2(3) r(5) by (auto simp: restrict_map_def)
  from mem_ok_store [OF m2(2) this, of ?z] obtain m3 where m3: "m_store m2 p ?z = Ret m3" "mem_ok m3"
    "mem_heap m3 = (mem_heap m2)(p \<mapsto> ?z)" "mem_left m3 = mem_left m2" by blast
  have F: "mem_heap m3 = F(p \<mapsto> ?z)" "F p = None"
    unfolding m3(3) m2(3) r(6) by (auto simp: restrict_map_def)
  then have "(mem_heap m3)(p := None) = F" by auto
  with rr_mem_new [OF m3(2), of p] F have "rr_mem m3 p new_rr_data F" by simp
  with m1 m2 m3 F hp rr_mem_ok [OF assms] show ?thesis by (simp add: m_reset_rr_data_def)
qed

lemma m_free_rr_data_ok:
  assumes "rr_mem m p d F"
  shows "\<exists>m'. m_free_rr_data m p = Some (Ret m') \<and> mem_ok m' \<and> mem_heap m' = F \<and> mem_left m' = mem_left m"
proof -
  from assms obtain hs qs b e G where r: "hlist_mem m hs (rr_headers d) G"
      "G p = Some (Struct (rr_nums d) (hs # qs @ [b, e]))" "list_all2 (sptr G) qs (rr_strs d)" "bptr G b (rr_body d)"
      "distinct (p # nz (qs @ [b]))" "F = G |` (- set (p # nz (qs @ [b])))"
    by (auto simp: rr_mem_def)
  have hp: "mem_heap m p = Some (Struct (rr_nums d) (hs # qs @ [b, e]))" using r(2) holds_sub [OF r(1), of p] by simp
  from m_rr_free_members_ok [OF r(1,3) rr_strs_length r(4)] r(5) obtain m1
    where m1: "m_rr_free_members m (hs # qs @ [b, e]) = Some (Ret m1)" "mem_ok m1"
      "mem_heap m1 = G |` (- set (nz (qs @ [b])))" "mem_left m1 = mem_left m" by auto
  have "mem_heap m1 p = Some (Struct (rr_nums d) (hs # qs @ [b, e]))"
    using m1(3) r(2,5) by (auto simp: restrict_map_def)
  from mem_ok_free [OF m1(2) this] obtain m2 where m2: "m_free m1 p = Ret m2" "mem_ok m2"
    "mem_heap m2 = (mem_heap m1)(p := None)" "mem_left m2 = mem_left m1" by auto
  have "mem_heap m2 = F" unfolding m2(3) m1(3) r(6) by (rule ext) (simp add: restrict_map_def)
  with m1 m2 hp rr_mem_ok [OF assms] show ?thesis by (simp add: m_free_rr_data_def)
qed

section \<open>Copies\<close>

lemma restrict_insert:
  "G(a \<mapsto> c) = G' |` (- A) \<Longrightarrow> G a = None \<Longrightarrow> G = G' |` (- insert a A)"
  by (rule ext) (metis (no_types, lifting) fun_upd_apply insert_iff restrict_compl)

text \<open>Strings copied beside everything else.\<close>

lemma m_dup_all_ok:
  "hlist_mem m hs l G \<Longrightarrow> list_all2 (sptr (mem_heap m)) ps xs \<Longrightarrow> length ps \<le> mem_left m \<Longrightarrow>
   \<exists>qs m' G'. m_dup_all m ps = Ret (qs, m') \<and> hlist_mem m' hs l G' \<and> list_all2 (sptr G') qs xs
     \<and> distinct (nz qs) \<and> (\<forall>x \<in> set (nz qs). mem_heap m x = None) \<and> G = G' |` (- set (nz qs))
     \<and> (\<forall>x. mem_heap m x \<noteq> None \<longrightarrow> mem_heap m' x = mem_heap m x) \<and> mem_left m \<le> mem_left m' + length ps"
proof (induction ps arbitrary: m G xs)
  case Nil
  then show ?case by (intro exI [of _ "[]"] exI [of _ m] exI [of _ G]) (auto simp: restrict_map_def)
next
  case (Cons p ps)
  from Cons.prems(2) obtain x ys where xs: "xs = x # ys" "sptr (mem_heap m) p x" "list_all2 (sptr (mem_heap m)) ps ys"
    by (cases xs) auto
  show ?case
  proof (cases "p = 0")
    case True
    with xs(2) have x: "x = None" by (auto simp: sptr_def split: option.splits)
    from Cons.IH [OF Cons.prems(1) xs(3)] Cons.prems(3) obtain qs m' G' where IH: "m_dup_all m ps = Ret (qs, m')"
      "hlist_mem m' hs l G'" "list_all2 (sptr G') qs ys" "distinct (nz qs)" "\<forall>x \<in> set (nz qs). mem_heap m x = None"
      "G = G' |` (- set (nz qs))" "\<forall>x. mem_heap m x \<noteq> None \<longrightarrow> mem_heap m' x = mem_heap m x"
      "mem_left m \<le> mem_left m' + length ps" by auto
    with True x xs(1) show ?thesis
      by (intro exI [of _ "0 # qs"] exI [of _ m'] exI [of _ G']) simp
  next
    case False
    with xs(2) obtain s where x: "x = Some s" "mem_heap m p = Some (Str s)" by (auto simp: sptr_def split: option.splits)
    from hch.holds_malloc [OF Cons.prems(1), of "Str s"] Cons.prems(3) obtain a m1 where m1: "m_malloc m (Str s) = (a, m1)"
      "a \<noteq> 0" "mem_heap m a = None" "hlist_mem m1 hs l (G(a \<mapsto> Str s))" "mem_heap m1 = (mem_heap m)(a \<mapsto> Str s)"
      "mem_left m = Suc (mem_left m1)" by auto
    have ps: "list_all2 (sptr (mem_heap m1)) ps ys"
      using sptr_cell [OF xs(3)] m1(3,5) by (intro sptr_local [OF xs(3)]) fastforce
    have le: "length ps \<le> mem_left m1" using Cons.prems(3) m1(6) by simp
    from Cons.IH [OF m1(4) ps le] obtain qs m' G' where IH: "m_dup_all m1 ps = Ret (qs, m')"
      "hlist_mem m' hs l G'" "list_all2 (sptr G') qs ys" "distinct (nz qs)" "\<forall>x \<in> set (nz qs). mem_heap m1 x = None"
      "G(a \<mapsto> Str s) = G' |` (- set (nz qs))" "\<forall>x. mem_heap m1 x \<noteq> None \<longrightarrow> mem_heap m' x = mem_heap m1 x"
      "mem_left m1 \<le> mem_left m' + length ps" by blast
    have aq: "a \<notin> set (nz qs)" using IH(5) m1(5) by auto
    have "G' a = Some (Str s)" using fun_cong [OF IH(6), of a] aq by (simp add: restrict_map_def)
    moreover have "G = G' |` (- set (nz (a # qs)))"
      using restrict_insert [OF IH(6)] holds_sub [OF Cons.prems(1), of a] m1(2,3) by auto
    moreover have "\<forall>y. mem_heap m y \<noteq> None \<longrightarrow> mem_heap m' y = mem_heap m y"
    proof (intro allI impI)
      fix y
      assume "mem_heap m y \<noteq> None"
      with m1(3,5) IH(7) show "mem_heap m' y = mem_heap m y" by (cases "y = a") auto
    qed
    moreover have "\<forall>y \<in> set (nz (a # qs)). mem_heap m y = None"
      using IH(5) m1(3,5) by (auto split: if_splits)
    moreover have "m_dup_all m (p # ps) = Ret (a # qs, m')"
      using False x m1(1) IH(1) by (simp add: m_strdup_def str_at_def)
    ultimately show ?thesis using False x xs(1) m1(2,6) IH aq
      by (intro exI [of _ "a # qs"] exI [of _ m'] exI [of _ G']) simp
  qed
qed

text \<open>The part of a body that its length covers.\<close>

definition body_kept :: "int \<Rightarrow> byte list option \<Rightarrow> byte list option" where
  "body_kept len b = (if len > 0 then map_option (take (nat len)) b else None)"

lemma m_dup_body_ok:
  assumes "hlist_mem m hs l G" "bptr (mem_heap m) b y" "case y of None \<Rightarrow> True | Some z \<Rightarrow> len \<le> int (length z)"
    "0 < mem_left m"
  shows "\<exists>q m' G'. m_dup_body m b len = Ret (q, m') \<and> hlist_mem m' hs l G' \<and> bptr G' q (body_kept len y)
    \<and> (q \<noteq> 0 \<longrightarrow> mem_heap m q = None) \<and> G = G' |` (- set (nz [q])) \<and> mem_left m \<le> Suc (mem_left m')"
proof (cases "b \<noteq> 0 \<and> 0 < len")
  case False
  with assms(2) have "body_kept len y = None" by (auto simp: bptr_def body_kept_def split: option.splits)
  with False assms(1) show ?thesis
    by (intro exI [of _ 0] exI [of _ m] exI [of _ G]) (auto simp: m_dup_body_def bptr_def restrict_map_def)
next
  case True
  with assms(2) obtain z where z: "y = Some z" "mem_heap m b = Some (Raw z)" by (auto simp: bptr_def split: option.splits)
  from hch.holds_malloc [OF assms(1,4), of Undef] obtain q m1 where m1: "m_malloc m Undef = (q, m1)" "q \<noteq> 0"
    "mem_heap m q = None" "hlist_mem m1 hs l (G(q \<mapsto> Undef))" "mem_heap m1 = (mem_heap m)(q \<mapsto> Undef)"
    "mem_left m = Suc (mem_left m1)" by auto
  from mem_ok_store [OF holds_ok [OF m1(4)], of q Undef "Raw (replicate (nat len) 0)"] m1(5) obtain m2
    where m2: "m_store m1 q (Raw (replicate (nat len) 0)) = Ret m2" "mem_ok m2"
      "mem_heap m2 = (mem_heap m1)(q \<mapsto> Raw (replicate (nat len) 0))" "mem_left m2 = mem_left m1" by auto
  have h2: "hlist_mem m2 hs l (G(q \<mapsto> Undef, q \<mapsto> Raw (replicate (nat len) 0)))"
    by (rule hch.holds_upd [OF m1(4) m2(2,3)]) (use m1(5) in simp)
  from mem_ok_store [OF m2(2), of q _ "Raw (take (nat len) z)"] m2(3) obtain m3
    where m3: "m_store m2 q (Raw (take (nat len) z)) = Ret m3" "mem_ok m3"
      "mem_heap m3 = (mem_heap m2)(q \<mapsto> Raw (take (nat len) z))" "mem_left m3 = mem_left m2" by auto
  define G' where "G' = G(q \<mapsto> Undef, q \<mapsto> Raw (replicate (nat len) 0), q \<mapsto> Raw (take (nat len) z))"
  have "hlist_mem m3 hs l G'"
    unfolding G'_def by (rule hch.holds_upd [OF h2 m3(2,3)]) (use m2(3) in simp)
  moreover have "nat len \<le> length z" using assms(3) z(1) by simp
  moreover have "G = G' |` (- set (nz [q]))"
    using m1(2,3) holds_sub [OF assms(1), of q] by (intro ext) (auto simp: G'_def restrict_map_def)
  moreover from True z(2) m1(1) m2(1) m3(1) calculation(2) have "m_dup_body m b len = Ret (q, m3)"
    by (simp add: m_dup_body_def memcpy_def)
  moreover have "bptr G' q (body_kept len y)" using True z(1) m1(2) by (simp add: body_kept_def G'_def)
  moreover have "mem_left m \<le> Suc (mem_left m3)" using m1(6) m2(4) m3(4) by simp
  ultimately show ?thesis using m1(3) by blast
qed

lemma hlist_dup_if_ok:
  assumes "mem_ok m" "seg hnode (mem_heap m) hs fs 0 l" "3 * length l \<le> mem_left m"
  shows "\<exists>h' m'. (if hs \<noteq> 0 then m_hlist_dup m hs else Some (Ret (0, m))) = Some (Ret (h', m'))
    \<and> hlist_mem m' h' l (mem_heap m) \<and> mem_left m = mem_left m' + 3 * length l"
proof -
  have h0: "mem_heap m 0 = None" using assms(1) by (simp add: mem_ok_def)
  have "hlist_mem m 0 [] (mem_heap m)" using assms(1) by (simp add: holds_Nil)
  from m_hlist_dup_loop_ok [OF this h0 assms(2,3)] show ?thesis
  proof (cases "hs = 0")
    case True
    with hch.seg_start [of "mem_heap m" hs fs l] h0 assms(2) have "l = []" by blast
    with True \<open>hlist_mem m 0 [] (mem_heap m)\<close> show ?thesis by simp
  qed (simp add: m_hlist_dup_def hlist_dup_loop_append)
qed

text \<open>What the source of a copy has, read in any heap that extends its own.\<close>

lemma rr_mem_read:
  assumes "rr_mem m p d F" "\<And>x. mem_heap m x \<noteq> None \<Longrightarrow> h x = mem_heap m x"
  shows "\<exists>hs qs b e fs. h p = Some (Struct (rr_nums d) (hs # qs @ [b, e])) \<and> seg hnode h hs fs 0 (rr_headers d)
    \<and> list_all2 (sptr h) qs (rr_strs d) \<and> bptr h b (rr_body d)"
proof -
  from assms(1) obtain hs qs b e G where r: "hlist_mem m hs (rr_headers d) G"
      "G p = Some (Struct (rr_nums d) (hs # qs @ [b, e]))" "list_all2 (sptr G) qs (rr_strs d)" "bptr G b (rr_body d)"
    by (auto simp: rr_mem_def)
  from r(1) obtain fs where fs: "seg hnode (mem_heap m) hs fs 0 (rr_headers d)" by (auto simp: holds_def)
  have G: "h x = G x" if "G x \<noteq> None" for x using holds_sub [OF r(1), of x] assms(2) [of x] that by auto
  have "seg hnode h hs fs 0 (rr_headers d)"
    by (rule hch.seg_local [OF fs]) (use hch.seg_dom [OF fs] assms(2) in blast)
  moreover have "list_all2 (sptr h) qs (rr_strs d)"
    by (rule sptr_local [OF r(3)]) (use sptr_cell [OF r(3)] G in fastforce)
  moreover have "bptr h b (rr_body d)"
    by (rule bptr_local [OF r(4)]) (use bptr_cell [OF r(4)] G in fastforce)
  ultimately show ?thesis using r(2) G [of p] by auto
qed

lemma rr_nums_upd [simp]: "rr_nums (s\<lparr>rr_errmsg := e, rr_body := b\<rparr>) = rr_nums s"
  "rr_strs (s\<lparr>rr_errmsg := e, rr_body := b\<rparr>) = rr_strs s"
  by (simp_all add: rr_nums_def rr_strs_def)

text \<open>The destination is another structure than the source, which lies beside it.\<close>

lemma m_copy_rr_data_ok:
  assumes dst: "rr_mem m dst d F" and src: "rr_mem (m\<lparr>mem_heap := F\<rparr>) src s F2" and wf: "body_wf s"
    and left: "3 * length (rr_headers s) + 7 \<le> mem_left m"
  shows "\<exists>m'. m_copy_rr_data m dst src = Some (Ret (dst, m'))
    \<and> rr_mem m' dst (s\<lparr>rr_errmsg := None, rr_body := body_kept (rr_body_len s) (rr_body s)\<rparr>) F"
proof -
  let ?z = "Struct [0, 0, 0, 0, 1, 0] [0, 0, 0, 0, 0, 0, 0, 0, 0]"
  from m_reset_rr_data_ok [OF dst] obtain m1 where m1: "m_reset_rr_data m dst = Some (Ret (dst, m1))"
    "rr_mem m1 dst new_rr_data F" "mem_heap m1 = F(dst \<mapsto> ?z)" "mem_left m1 = mem_left m" by blast
  have Fd: "F dst = None" using dst by (auto simp: rr_mem_def restrict_map_def)
  have "mem_heap m1 x = F x" if "F x \<noteq> None" for x using that m1(3) Fd by auto
  from rr_mem_read [OF src, of "mem_heap m1"] this obtain hs qs b e fs
    where r: "mem_heap m1 src = Some (Struct (rr_nums s) (hs # qs @ [b, e]))" "seg hnode (mem_heap m1) hs fs 0 (rr_headers s)"
      "list_all2 (sptr (mem_heap m1)) qs (rr_strs s)" "bptr (mem_heap m1) b (rr_body s)" by auto
  have len: "length qs = 6" using r(3) by (simp add: list_all2_lengthD)
  then obtain q1 q2 q3 q4 q5 q6 where q: "qs = [q1, q2, q3, q4, q5, q6]"
    by (auto simp: eval_nat_numeral length_Suc_conv)
  have ok1: "mem_ok m1" using rr_mem_ok [OF m1(2)] by simp
  from hlist_dup_if_ok [OF ok1 r(2)] left m1(4) obtain h' m2
    where m2: "(if hs \<noteq> 0 then m_hlist_dup m1 hs else Some (Ret (0, m1))) = Some (Ret (h', m2))"
      "hlist_mem m2 h' (rr_headers s) (mem_heap m1)" "mem_left m1 = mem_left m2 + 3 * length (rr_headers s)"
    by auto
  have sub2: "mem_heap m2 x = mem_heap m1 x" if "mem_heap m1 x \<noteq> None" for x
    using holds_sub [OF m2(2), of x] that by auto
  have r3: "list_all2 (sptr (mem_heap m2)) qs (rr_strs s)"
    by (rule sptr_local [OF r(3)]) (use sptr_cell [OF r(3)] sub2 in fastforce)
  have "length qs \<le> mem_left m2" using len left m1(4) m2(3) by simp
  from m_dup_all_ok [OF m2(2) r3 this] obtain ps m3 G3 where m3: "m_dup_all m2 qs = Ret (ps, m3)"
    "hlist_mem m3 h' (rr_headers s) G3" "list_all2 (sptr G3) ps (rr_strs s)" "distinct (nz ps)"
    "\<forall>x \<in> set (nz ps). mem_heap m2 x = None" "mem_heap m1 = G3 |` (- set (nz ps))"
    "\<forall>x. mem_heap m2 x \<noteq> None \<longrightarrow> mem_heap m3 x = mem_heap m2 x" "mem_left m2 \<le> mem_left m3 + length qs" by blast
  have r4: "bptr (mem_heap m3) b (rr_body s)"
    by (rule bptr_local [OF r(4)]) (use bptr_cell [OF r(4)] sub2 m3(7) in fastforce)
  have wf': "case rr_body s of None \<Rightarrow> True | Some z \<Rightarrow> rr_body_len s \<le> int (length z)" using wf by (simp add: body_wf_def)
  have "0 < mem_left m3" using len left m1(4) m2(3) m3(8) by simp
  from m_dup_body_ok [OF m3(2) r4 wf' this] obtain b' m4 G4 where m4: "m_dup_body m3 b (rr_body_len s) = Ret (b', m4)"
    "hlist_mem m4 h' (rr_headers s) G4" "bptr G4 b' (body_kept (rr_body_len s) (rr_body s))"
    "b' \<noteq> 0 \<longrightarrow> mem_heap m3 b' = None" "G3 = G4 |` (- set (nz [b']))" by blast
  have z1: "mem_heap m1 dst = Some ?z" using m1(3) by simp
  have dp: "dst \<notin> set (nz ps)" using m3(5) sub2 [of dst] z1 by auto
  have bd: "b' \<noteq> 0 \<Longrightarrow> b' \<noteq> dst \<and> b' \<notin> set (nz ps)"
    using m4(4) m3(3,7) sub2 [of dst] z1 sptr_cell [OF m3(3), of b'] holds_sub [OF m3(2), of b'] by auto
  have G4s: "G4 x = mem_heap m1 x" if "x \<notin> set (nz (ps @ [b']))" for x
    using that fun_cong [OF m3(6), of x] fun_cong [OF m4(5), of x] by (simp add: restrict_compl split: if_splits)
  have h4: "mem_heap m4 dst = Some ?z" "G4 dst = Some ?z"
  proof -
    have "dst \<notin> set (nz (ps @ [b']))" using dp bd by (cases "b' = 0") auto
    from G4s [OF this] holds_sub [OF m4(2), of dst] z1
    show "mem_heap m4 dst = Some ?z" "G4 dst = Some ?z" by auto
  qed
  let ?c = "Struct (rr_nums s) (h' # ps @ [b', 0])"
  from mem_ok_store [OF holds_ok [OF m4(2)] h4(1), of ?c] obtain m5 where m5: "m_store m4 dst ?c = Ret m5" "mem_ok m5"
    "mem_heap m5 = (mem_heap m4)(dst \<mapsto> ?c)" by blast
  have h5: "hlist_mem m5 h' (rr_headers s) (G4(dst \<mapsto> ?c))"
    by (rule hch.holds_upd [OF m4(2) m5(2,3)]) (simp add: h4)
  have "rr_mem m5 dst (s\<lparr>rr_errmsg := None, rr_body := body_kept (rr_body_len s) (rr_body s)\<rparr>) F"
    unfolding rr_mem_def
  proof (intro exI conjI)
    show "hlist_mem m5 h' (rr_headers (s\<lparr>rr_errmsg := None, rr_body := body_kept (rr_body_len s) (rr_body s)\<rparr>)) (G4(dst \<mapsto> ?c))"
      using h5 by simp
    have G3s: "G4 x = G3 x" if "x \<in> set (nz ps)" for x
      using that fun_cong [OF m4(5), of x] bd by (auto simp: restrict_compl split: if_splits)
    show "list_all2 (sptr (G4(dst \<mapsto> ?c))) ps (rr_strs (s\<lparr>rr_errmsg := None, rr_body := body_kept (rr_body_len s) (rr_body s)\<rparr>))"
      unfolding rr_nums_upd by (rule sptr_local [OF m3(3)]) (use G3s dp in auto)
    show "bptr (G4(dst \<mapsto> ?c)) b' (rr_body (s\<lparr>rr_errmsg := None, rr_body := body_kept (rr_body_len s) (rr_body s)\<rparr>))"
      using bptr_local [OF m4(3), of "G4(dst \<mapsto> ?c)"] bd by simp
    show "distinct (dst # nz (ps @ [b']))" using m3(4) dp bd by auto
    have new: "mem_heap m1 x = None" if "x \<in> set (nz (ps @ [b']))" for x
    proof (cases "x \<in> set (nz ps)")
      case True
      with m3(5) sub2 [of x] show ?thesis by (cases "mem_heap m1 x") auto
    next
      case False
      with that have "b' \<noteq> 0" "x = b'" by (auto split: if_splits)
      with m4(4) m3(7) sub2 [of x] show ?thesis by (metis option.distinct(1))
    qed
    show "F = G4(dst \<mapsto> ?c) |` (- set (dst # nz (ps @ [b'])))"
    proof
      fix x
      show "F x = (G4(dst \<mapsto> ?c) |` (- set (dst # nz (ps @ [b'])))) x"
        using G4s [of x] new [of x] m1(3) Fd unfolding restrict_compl
        by (cases "x = dst"; cases "x \<in> set (nz (ps @ [b']))") simp_all
    qed
  qed (simp_all)
  moreover have "src \<noteq> 0" "dst \<noteq> 0" using rr_mem_ok [OF src] rr_mem_ok [OF dst] by auto
  ultimately show ?thesis
    using m1(1) r(1) m2(1) m3(1) m4(1) m5(1) by (simp add: m_copy_rr_data_def q rr_nums_def)
qed

lemma m_dup_rr_data_ok:
  assumes src: "rr_mem m src s F" and wf: "body_wf s" and left: "3 * length (rr_headers s) + 8 \<le> mem_left m"
  shows "\<exists>p m'. m_dup_rr_data m src = Some (Ret (p, m'))
    \<and> rr_mem m' p (s\<lparr>rr_errmsg := None, rr_body := body_kept (rr_body_len s) (rr_body s)\<rparr>) (mem_heap m)"
proof -
  have ok: "mem_ok m" "src \<noteq> 0" using rr_mem_ok [OF src] by auto
  from m_new_rr_data_ok [OF ok(1)] left obtain p m1 where m1: "m_new_rr_data m = Ret (p, m1)"
    "rr_mem m1 p new_rr_data (mem_heap m)" "mem_left m = Suc (mem_left m1)" by auto
  let ?m = "m1\<lparr>mem_heap := mem_heap m\<rparr>"
  have sub: "mem_heap m x = None" if "mem_heap m1 x = None" for x
    using m1(2) that by (auto simp: rr_mem_def restrict_compl dest!: holds_sub [where x = x])
  have "mem_ok ?m" using rr_mem_ok [OF m1(2)] sub by (auto simp: mem_ok_def)
  with src have "rr_mem ?m src s F" by (auto simp: rr_mem_def holds_def)
  from m_copy_rr_data_ok [OF m1(2) this wf] left m1 ok show ?thesis by (auto simp: m_dup_rr_data_def)
qed

section \<open>The configuration store in memory\<close>

definition conf_mem :: "memory \<Rightarrow> addr \<Rightarrow> config_s \<Rightarrow> heap \<Rightarrow> bool" where
  "conf_mem m cf c F \<longleftrightarrow>
     (\<exists>p G. hlist_mem m p (cf_options c) G \<and> G cf = Some (Struct [] [p]) \<and> F = G(cf := None))"

lemma conf_memD:
  "conf_mem m cf c F \<Longrightarrow> \<exists>p G. hlist_mem m p (cf_options c) G \<and> G cf = Some (Struct [] [p])
     \<and> mem_heap m cf = Some (Struct [] [p]) \<and> F = G(cf := None) \<and> conf_options m cf = Ret p \<and> cf \<noteq> 0"
proof -
  assume "conf_mem m cf c F"
  then obtain p G where g: "hlist_mem m p (cf_options c) G" "G cf = Some (Struct [] [p])" "F = G(cf := None)"
    by (auto simp: conf_mem_def)
  with holds_sub [OF g(1), of cf] have "mem_heap m cf = Some (Struct [] [p])" by simp
  with g mem_okD [OF holds_ok [OF g(1)] this] show ?thesis by (auto simp: conf_options_def)
qed

lemma conf_upd: "(c :: config_s)\<lparr>cf_options := l\<rparr> = \<lparr>cf_options = l\<rparr>"
  by (cases c) simp

lemma conf_mem_store:
  assumes "hlist_mem m p l G" "G cf = Some x"
  shows "\<exists>m'. m_store m cf (Struct [] [p]) = Ret m' \<and> conf_mem m' cf \<lparr>cf_options = l\<rparr> (G(cf := None))"
proof -
  have "mem_heap m cf = Some x" using holds_sub [OF assms(1), of cf] assms(2) by simp
  from mem_ok_store [OF holds_ok [OF assms(1)] this] obtain m' where m': "m_store m cf (Struct [] [p]) = Ret m'"
    "mem_ok m'" "mem_heap m' = (mem_heap m)(cf \<mapsto> Struct [] [p])" by blast
  from hch.holds_upd [OF assms(1) m'(2,3)] \<open>mem_heap m cf = Some x\<close> assms(2)
  have "hlist_mem m' p l (G(cf \<mapsto> Struct [] [p]))" by simp
  then have "conf_mem m' cf \<lparr>cf_options = l\<rparr> (G(cf := None))"
    unfolding conf_mem_def by (intro exI [of _ p] exI [of _ "G(cf \<mapsto> Struct [] [p])"]) simp
  with m'(1) show ?thesis by blast
qed

lemma m_config_set_ok:
  assumes "conf_mem m cf c F" "str_at (mem_heap m) option = Ret ks" "str_at F val = Ret vs" "3 \<le> mem_left m"
  shows "\<exists>m'. m_config_set m cf option val = Some (Ret m') \<and> conf_mem m' cf (config_set c ks vs) F"
proof -
  from conf_memD [OF assms(1)] obtain p G where g: "hlist_mem m p (cf_options c) G" "G cf = Some (Struct [] [p])"
    "F = G(cf := None)" "conf_options m cf = Ret p" by blast
  have "val \<noteq> cf" using str_at_dom [OF assms(3)] g(3) by auto
  then have "str_at G val = Ret vs" using assms(3) g(3) by (simp add: str_at_def)
  from m_hlist_mod_ok [OF g(1) assms(2) this assms(4), of True] obtain p' m1
    where m1: "m_hlist_mod m p option val True = Some (Ret (p', m1))" "hlist_mem m1 p' (hlist_mod (cf_options c) ks vs True) G"
    by blast
  from conf_mem_store [OF m1(2) g(2)] g(3,4) m1(1) show ?thesis
    by (auto simp: m_config_set_def config_set_def conf_upd)
qed

lemma m_config_pop_ok:
  assumes "conf_mem m cf c F" "str_at (mem_heap m) option = Ret ks" "0 < mem_left m"
  shows "\<exists>a m'. m_config_pop m cf option = Some (Ret (a, m'))
    \<and> (case config_pop c ks of
         (None, c') \<Rightarrow> a = 0 \<and> conf_mem m' cf c' F
       | (Some v, c') \<Rightarrow> a \<noteq> 0 \<and> F a = None \<and> conf_mem m' cf c' (F(a \<mapsto> Str v)))"
proof -
  from conf_memD [OF assms(1)] obtain p G where g: "hlist_mem m p (cf_options c) G" "G cf = Some (Struct [] [p])"
    "mem_heap m cf = Some (Struct [] [p])" "F = G(cf := None)" "conf_options m cf = Ret p" by blast
  from m_hlist_get_ok(2) [OF g(1) assms(2)] obtain b where b: "m_hlist_get m p option = Some (Ret b)"
    "case hlist_get (cf_options c) ks of None \<Rightarrow> b = 0 | Some v \<Rightarrow> mem_heap m b = Some (Str v) \<and> G b = None" by blast
  show ?thesis
  proof (cases "hlist_get (cf_options c) ks")
    case None
    with b g(5) assms(1) show ?thesis by (simp add: m_config_pop_def config_pop_def)
  next
    case (Some v)
    with b(2) mem_okD [OF holds_ok [OF g(1)], of b "Str v"] have bv: "mem_heap m b = Some (Str v)" "b \<noteq> 0" by auto
    from hch.holds_malloc [OF g(1) assms(3), of "Str v"] obtain a m1 where m1: "m_malloc m (Str v) = (a, m1)" "a \<noteq> 0"
      "mem_heap m a = None" "hlist_mem m1 p (cf_options c) (G(a \<mapsto> Str v))" "mem_heap m1 = (mem_heap m)(a \<mapsto> Str v)"
      by blast
    have ne: "option \<noteq> a" "cf \<noteq> a" using str_at_dom [OF assms(2)] m1(3) g(3) by auto
    then have "str_at (mem_heap m1) option = Ret ks" using m1(5) assms(2) by (simp add: str_at_def)
    from m_hlist_del_ok [OF m1(4) this] obtain p' m2 where m2: "m_hlist_del m1 p option = Some (Ret (p', m2))"
      "hlist_mem m2 p' (hlist_del (cf_options c) ks) (G(a \<mapsto> Str v))" by blast
    have cf: "(G(a \<mapsto> Str v)) cf = Some (Struct [] [p])" using g(2) ne by simp
    from conf_mem_store [OF m2(2) cf] obtain m3 where m3: "m_store m2 cf (Struct [] [p']) = Ret m3"
      "conf_mem m3 cf \<lparr>cf_options = hlist_del (cf_options c) ks\<rparr> (F(a \<mapsto> Str v))"
    proof -
      have "(G(a \<mapsto> Str v))(cf := None) = F(a \<mapsto> Str v)" using g(4) ne by auto
      from conf_mem_store [OF m2(2) cf, unfolded this] that show ?thesis by blast
    qed
    have "m_config_pop m cf option = Some (Ret (a, m3))"
      using g(5) b(1) bv m1(1) m2(1) m3(1) by (simp add: m_config_pop_def m_strdup_def str_at_def)
    moreover have "F a = None" using g(4) holds_sub [OF g(1), of a] m1(3) by auto
    ultimately show ?thesis using Some m1(2) m3(2) by (auto simp: config_pop_def conf_upd)
  qed
qed

lemma m_config_close_ok:
  assumes "conf_mem m cf c F"
  shows "\<exists>m'. m_config_close m cf = Some (Ret m') \<and> mem_ok m' \<and> mem_heap m' = F"
proof -
  from conf_memD [OF assms] obtain p G where g: "hlist_mem m p (cf_options c) G" "G cf = Some (Struct [] [p])"
    "F = G(cf := None)" "conf_options m cf = Ret p" "cf \<noteq> 0" by blast
  from m_hlist_free_ok [OF g(1)] obtain m1 where m1: "m_hlist_free m p = Some (Ret (0, m1))" "mem_ok m1" "mem_heap m1 = G"
    by blast
  from mem_ok_store [OF m1(2), of cf _ "Struct [] [0]"] m1(3) g(2) obtain m2 where m2: "m_store m1 cf (Struct [] [0]) = Ret m2"
    "mem_ok m2" "mem_heap m2 = G(cf \<mapsto> Struct [] [0])" by auto
  from mem_ok_free [OF m2(2), of cf "Struct [] [0]"] m2(3) obtain m3 where m3: "m_free m2 cf = Ret m3" "mem_ok m3"
    "mem_heap m3 = G(cf := None)" by auto
  with g m1 m2 show ?thesis by (auto simp: m_config_close_def)
qed

section \<open>Properties\<close>

text \<open>
  C25: A request or response in memory, its headers, strings and body included, is duplicated by
  dup_rr_data into a structure of its own: the copy is the one RRData.dup_rr_data gives, everything
  that was there before, the original included, is as it was, and freeing the copy leaves exactly
  that.  Freeing the original too leaves exactly what was beside it: the two share nothing, and
  nothing is freed twice or lost.
\<close>

theorem rr_data_owned:
  assumes "rr_mem m src s F" "body_wf s" "3 * length (rr_headers s) + 8 \<le> mem_left m"
  shows "\<exists>p m1 m2 m3 s'. m_dup_rr_data m src = Some (Ret (p, m1)) \<and> dup_rr_data (Some s) = Ret (Some s')
    \<and> rr_mem m1 p s' (mem_heap m) \<and> m_free_rr_data m1 p = Some (Ret m2) \<and> mem_heap m2 = mem_heap m
    \<and> m_free_rr_data m2 src = Some (Ret m3) \<and> mem_heap m3 = F"
proof -
  let ?s = "s\<lparr>rr_errmsg := None, rr_body := body_kept (rr_body_len s) (rr_body s)\<rparr>"
  from m_dup_rr_data_ok [OF assms] obtain p m1 where m1: "m_dup_rr_data m src = Some (Ret (p, m1))"
    "rr_mem m1 p ?s (mem_heap m)" by blast
  from m_free_rr_data_ok [OF m1(2)] obtain m2 where m2: "m_free_rr_data m1 p = Some (Ret m2)" "mem_ok m2"
    "mem_heap m2 = mem_heap m" by blast
  with assms(1) have "rr_mem m2 src s F" by (auto simp: rr_mem_def holds_def)
  from m_free_rr_data_ok [OF this] obtain m3 where m3: "m_free_rr_data m2 src = Some (Ret m3)" "mem_heap m3 = F" by blast
  have "dup_rr_data (Some s) = Ret (Some ?s)"
    using copy_rr_data_eq [OF assms(2), of new_rr_data] by (simp add: body_kept_def)
  with m1 m2 m3 show ?thesis by blast
qed

definition sample_request :: rr_data_s where
  "sample_request = new_rr_data\<lparr>rr_req := 1, rr_headers := [\<lparr>hkey = ''Host'', hvalue = ''a''\<rparr>], rr_method := Some ''GET''\<rparr>"

definition request_memory :: memory where
  "request_memory = \<lparr>mem_heap = [1 \<mapsto> Struct [1, 0, 0, 0, 1, 0] [2, 5, 0, 0, 0, 0, 0, 0, 0], 2 \<mapsto> HNode 3 4 0,
     3 \<mapsto> Str ''Host'', 4 \<mapsto> Str ''a'', 5 \<mapsto> Str ''GET'', 6 \<mapsto> Lit ''kept''], mem_next = 7, mem_left = 11\<rparr>"

lemma request_memory_rep: "rr_mem request_memory 1 sample_request [6 \<mapsto> Lit ''kept'']"
proof -
  have h: "hlist_mem request_memory 2 [\<lparr>hkey = ''Host'', hvalue = ''a''\<rparr>] (mem_heap request_memory |` (- {2, 3, 4}))"
    unfolding holds_def
    by (intro conjI exI [of _ "[[2, 3, 4]]"]) (auto simp: request_memory_def mem_ok_def)
  show ?thesis
    unfolding rr_mem_def
    by (rule exI [of _ 2], rule exI [of _ "[5, 0, 0, 0, 0, 0]"], rule exI [of _ 0], rule exI [of _ 0],
        rule exI [of _ "mem_heap request_memory |` (- {2, 3, 4})"])
       (use h in \<open>auto simp: sample_request_def new_rr_data_def rr_nums_def rr_strs_def request_memory_def restrict_map_def\<close>)
qed

theorem rr_data_owned_witness:
  "\<exists>p m1 m2 m3 s'. m_dup_rr_data request_memory 1 = Some (Ret (p, m1)) \<and> dup_rr_data (Some sample_request) = Ret (Some s')
    \<and> rr_mem m1 p s' (mem_heap request_memory) \<and> m_free_rr_data m1 p = Some (Ret m2)
    \<and> mem_heap m2 = mem_heap request_memory \<and> m_free_rr_data m2 1 = Some (Ret m3) \<and> mem_heap m3 = [6 \<mapsto> Lit ''kept'']"
  using rr_data_owned [OF request_memory_rep]
  by (simp add: sample_request_def request_memory_def new_rr_data_def body_wf_def)

text \<open>
  config_pop on the store in memory.  It gives the caller a string of its own (a fresh copy, not
  the node's) and takes the option out of the list with everything its node owned; without such an
  option it returns NULL and changes nothing.  The store then is the one of the abstract
  config_pop, and config_close leaves exactly what was beside it and the string the caller got.
\<close>

theorem config_pop_owned:
  assumes "conf_mem m cf c F" "str_at (mem_heap m) option = Ret ks" "0 < mem_left m"
  shows "\<exists>a m1 m2 c' G. m_config_pop m cf option = Some (Ret (a, m1)) \<and> c' = snd (config_pop c ks)
    \<and> conf_mem m1 cf c' G
    \<and> (case fst (config_pop c ks) of None \<Rightarrow> a = 0 \<and> G = F | Some v \<Rightarrow> a \<noteq> 0 \<and> F a = None \<and> G = F(a \<mapsto> Str v))
    \<and> m_config_close m1 cf = Some (Ret m2) \<and> mem_heap m2 = G"
proof -
  from m_config_pop_ok [OF assms] obtain a m1 where a: "m_config_pop m cf option = Some (Ret (a, m1))"
    "case config_pop c ks of (None, c') \<Rightarrow> a = 0 \<and> conf_mem m1 cf c' F
       | (Some v, c') \<Rightarrow> a \<noteq> 0 \<and> F a = None \<and> conf_mem m1 cf c' (F(a \<mapsto> Str v))"
    by (elim exE conjE)
  define G where "G = (case fst (config_pop c ks) of None \<Rightarrow> F | Some v \<Rightarrow> F(a \<mapsto> Str v))"
  from a(2) have G: "conf_mem m1 cf (snd (config_pop c ks)) G"
    by (auto simp: G_def split: prod.splits option.splits)
  from m_config_close_ok [OF G] obtain m2 where m2: "m_config_close m1 cf = Some (Ret m2)" "mem_heap m2 = G" by blast
  have "case fst (config_pop c ks) of None \<Rightarrow> a = 0 \<and> G = F | Some v \<Rightarrow> a \<noteq> 0 \<and> F a = None \<and> G = F(a \<mapsto> Str v)"
    using a(2) by (auto simp: G_def split: prod.splits option.splits)
  with a(1) G m2 show ?thesis by blast
qed

definition conf_memory :: memory where
  "conf_memory = \<lparr>mem_heap = [1 \<mapsto> Struct [] [2], 2 \<mapsto> HNode 3 4 0, 3 \<mapsto> Str ''Proxy'', 4 \<mapsto> Str ''p:80'', 5 \<mapsto> Lit ''proxy''],
     mem_next = 6, mem_left = 1\<rparr>"

lemma conf_memory_rep:
  "conf_mem conf_memory 1 \<lparr>cf_options = [\<lparr>hkey = ''Proxy'', hvalue = ''p:80''\<rparr>]\<rparr> [5 \<mapsto> Lit ''proxy'']"
proof -
  have "hlist_mem conf_memory 2 [\<lparr>hkey = ''Proxy'', hvalue = ''p:80''\<rparr>] (mem_heap conf_memory |` (- {2, 3, 4}))"
    unfolding holds_def
    by (intro conjI exI [of _ "[[2, 3, 4]]"]) (auto simp: conf_memory_def mem_ok_def)
  then show ?thesis
    unfolding conf_mem_def
    by (intro exI [of _ 2] exI [of _ "mem_heap conf_memory |` (- {2, 3, 4})"])
       (auto simp: conf_memory_def restrict_map_def)
qed

theorem config_pop_owned_witness:
  "\<exists>a m1 m2. m_config_pop conf_memory 1 5 = Some (Ret (a, m1)) \<and> conf_mem m1 1 \<lparr>cf_options = []\<rparr> [5 \<mapsto> Lit ''proxy'', a \<mapsto> Str ''p:80'']
    \<and> m_config_close m1 1 = Some (Ret m2) \<and> mem_heap m2 = [5 \<mapsto> Lit ''proxy'', a \<mapsto> Str ''p:80'']"
proof -
  have "config_pop \<lparr>cf_options = [\<lparr>hkey = ''Proxy'', hvalue = ''p:80''\<rparr>]\<rparr> ''proxy'' = (Some ''p:80'', \<lparr>cf_options = []\<rparr>)"
    by code_simp
  moreover have "str_at (mem_heap conf_memory) 5 = Ret ''proxy''" "0 < mem_left conf_memory"
    by (simp_all add: conf_memory_def str_at_def)
  ultimately show ?thesis using config_pop_owned [OF conf_memory_rep, of 5 "''proxy''"] by auto
qed

end
