(* ===== verification/Threads.thy ===== *)
theory Threads
  imports Parents
begin

text \<open>
  The threads of the proxy at work on the globals they share: the table of parents with its current
  entry and the cache of connections (forward.c).  A thread is at a stage of forward_request and
  proxy_connect; a step is what one thread does between two points where another may come in:
  one critical section under a mutex, or one access outside of any.  The steps of the threads are
  interleaved in every order.  The definitions of theory Parents are the critical sections.
\<close>

section \<open>Steps of one thread\<close>

text \<open>
  \<open>prev\<close> is the thread's local variable of that name, \<open>loop\<close> the count of its attempts, \<open>key\<close> the
  number of the parent it has picked, \<open>i\<close> the descriptor.
\<close>

datatype stage =
    Fetch
  | Enter
  | First int
  | Pick int int
  | Dial int int int
  | Advance int int
  | Compare int int
  | Drop int
  | Busy int
  | Keep int
  | Finished

text \<open>
  What a step depends on beside the globals: the connections that so_closed finds closed, what the
  thread does with its connection in the end (it is closed before a retry and before
  proxy_authenticate connects again), its credentials.
\<close>

datatype after_busy = Retry_request | Reconnect | Store_connection | Close_connection

record choice =
  ch_closed :: "int \<Rightarrow> bool"
  ch_after :: after_busy
  ch_creds :: auth_s

text \<open>
  The attempt at the parent that was picked, which need not be the current one any more: the entry is
  resolved and connected to outside of the mutex.
\<close>

definition dial :: "gai \<Rightarrow> int \<Rightarrow> globals \<Rightarrow> (int \<times> globals) c_result" where
  "dial getaddrinfo key g =
     c_bind (parent_attempt getaddrinfo (g\<lparr>g_parent_curr := key\<rparr>)) (\<lambda>((i, p), g1).
       Ret (i, g1\<lparr>g_parent_curr := g_parent_curr g\<rparr>))"

definition thread_step :: "gai \<Rightarrow> choice \<Rightarrow> globals \<Rightarrow> stage \<Rightarrow> (globals \<times> stage) c_result" where
  "thread_step getaddrinfo ch g st =
     (case st of
        Fetch \<Rightarrow> c_bind (cache_take (ch_closed ch) g) (\<lambda>((i, a), g1).
          Ret (g1, if i \<noteq> 0 then Busy i else Enter))
      | Enter \<Rightarrow> Ret (g, First (g_parent_curr g))
      | First prev \<Rightarrow>
          (if g_parent_curr g = 0
           then (if plist_get (g_parents g) 1 = None then UB else Ret (g\<lparr>g_parent_curr := 1\<rparr>, Pick prev 0))
           else Ret (g, Pick prev 0))
      | Pick prev loop \<Rightarrow> Ret (g, Dial prev loop (g_parent_curr g))
      | Dial prev loop key \<Rightarrow> c_bind (dial getaddrinfo key g) (\<lambda>(i, g1).
          Ret (g1, if i > 0 then Compare prev i else Advance prev loop))
      | Advance prev loop \<Rightarrow> c_bind (next_parent g) (\<lambda>g1.
          Ret (g1, if loop + 1 < g_parent_count g1 then Pick prev (loop + 1) else Compare prev 0))
      | Compare prev i \<Rightarrow>
          Ret (g, if prev \<noteq> g_parent_curr g then Drop i else if i > 0 then Busy i else Finished)
      | Drop i \<Rightarrow> c_bind (invalidate_cache g) (\<lambda>g1. Ret (g1, if i > 0 then Busy i else Finished))
      | Busy i \<Rightarrow>
          Ret (g, case ch_after ch of
                    Retry_request \<Rightarrow> Fetch
                  | Reconnect \<Rightarrow> Enter
                  | Store_connection \<Rightarrow> Keep i
                  | Close_connection \<Rightarrow> Finished)
      | Keep i \<Rightarrow> c_bind (cache_store i (ch_creds ch) g) (\<lambda>g1. Ret (g1, Finished))
      | Finished \<Rightarrow> Ret (g, Fetch))"

section \<open>Interleaving\<close>

type_synonym system = "globals \<times> stage list"

inductive sys_step :: "gai \<Rightarrow> system \<Rightarrow> system \<Rightarrow> bool" for ga where
  Step: "t < length ts \<Longrightarrow> thread_step ga ch g (ts ! t) = Ret (g', st) \<Longrightarrow>
    sys_step ga (g, ts) (g', ts[t := st])"

inductive sys_reach :: "gai \<Rightarrow> system \<Rightarrow> system \<Rightarrow> bool" for ga s0 where
  Here: "sys_reach ga s0 s0"
| Later: "sys_reach ga s0 s \<Longrightarrow> sys_step ga s s' \<Longrightarrow> sys_reach ga s0 s'"

inductive_cases sys_stepE: "sys_step ga s s'"

text \<open>A schedule, for concrete runs: which thread, with which choice.\<close>

fun sys_run :: "gai \<Rightarrow> (nat \<times> choice) list \<Rightarrow> system \<Rightarrow> system c_result" where
  "sys_run ga [] s = Ret s"
| "sys_run ga ((t, ch) # sched) (g, ts) =
     (if t < length ts
      then c_bind (thread_step ga ch g (ts ! t)) (\<lambda>(g', st). sys_run ga sched (g', ts[t := st]))
      else Ret (g, ts))"

lemma sys_reach_trans: "sys_reach ga s1 s2 \<Longrightarrow> sys_reach ga s0 s1 \<Longrightarrow> sys_reach ga s0 s2"
  by (induction rule: sys_reach.induct) (auto intro: sys_reach.Later)

lemma sys_run_reach: "sys_run ga sched s = Ret s' \<Longrightarrow> sys_reach ga s s'"
proof (induction ga sched s rule: sys_run.induct)
  case (1 ga s)
  then show ?case by (auto intro: sys_reach.Here)
next
  case (2 ga t ch sched g ts)
  show ?case
  proof (cases "t < length ts")
    case True
    with "2.prems" obtain g' st where s: "thread_step ga ch g (ts ! t) = Ret (g', st)"
      "sys_run ga sched (g', ts[t := st]) = Ret s'" by (auto simp: c_bind_Ret_iff)
    have "sys_reach ga (g, ts) (g', ts[t := st])"
      using sys_reach.Later [OF sys_reach.Here sys_step.Step [OF True s(1)]] .
    with "2.IH" [OF True s(2)] show ?thesis using sys_reach_trans by blast
  next
    case False
    with "2.prems" show ?thesis by (auto intro: sys_reach.Here)
  qed
qed

section \<open>The table of parents\<close>

definition table_inv :: "int \<Rightarrow> globals \<Rightarrow> bool" where
  "table_inv n g \<longleftrightarrow> parents_wf g \<and> g_parent_count g = n \<and> 1 \<le> n \<and> 0 \<le> g_parent_curr g \<and> g_parent_curr g \<le> n"

text \<open>A thread that is past the first section finds a current parent.\<close>

definition stage_ok :: "globals \<Rightarrow> stage \<Rightarrow> bool" where
  "stage_ok g st \<longleftrightarrow> (case st of
       Pick prev loop \<Rightarrow> 1 \<le> g_parent_curr g
     | Dial prev loop key \<Rightarrow> 1 \<le> g_parent_curr g \<and> 1 \<le> key \<and> key \<le> g_parent_count g
     | Advance prev loop \<Rightarrow> 1 \<le> g_parent_curr g
     | _ \<Rightarrow> True)"

fun uses_cache :: "stage \<Rightarrow> bool" where
  "uses_cache Fetch = True"
| "uses_cache (Drop i) = True"
| "uses_cache (Keep i) = True"
| "uses_cache _ = False"

lemma dial_result:
  assumes "table_inv n g" "1 \<le> key" "key \<le> n"
  obtains i g1 where "dial ga key g = Ret (i, g1)" "table_inv n g1" "g_parent_curr g1 = g_parent_curr g"
    "g_cache g1 = g_cache g"
    "(i \<le> 0 \<and> g_connects g1 = g_connects g) \<or> (\<exists>p. g_connects g = (i, p) # g_connects g1)"
proof -
  from assms have wf: "parents_wf g" "g_parent_count g = n" by (auto simp: table_inv_def)
  obtain a where a: "plist_get (g_parents g) key = Some a"
    using parents_get [OF wf(1) assms(2)] assms(3) wf(2) by auto
  define a' where "a' = (if px_resolved a = 0 then
      (case so_resolv ga (px_host a) (px_hostname a) of
         (ok, host) \<Rightarrow> a\<lparr>px_host := host, px_resolved := (if ok then 1 else 0)\<rparr>) else a)"
  define g2 where "g2 = g\<lparr>g_parent_curr := key, g_parents := plist_upd (g_parents g) key a'\<rparr>"
  have pa: "parent_attempt ga (g\<lparr>g_parent_curr := key\<rparr>) =
      Ret (if px_resolved a' \<noteq> 0 then so_connect (px_host a') (px_port a') g2 else ((0, None), g2))"
    by (simp add: parent_attempt_def a Let_def a'_def g2_def)
  have "None \<notin> set (map paux (plist_upd (g_parents g) key a'))"
    using plist_upd_aux [of None "g_parents g"] wf(1) by (auto simp: parents_wf_def)
  then have wf2: "parents_wf (g2\<lparr>g_parent_curr := c\<rparr>)" for c
    using wf(1) by (simp add: parents_wf_def g2_def del: set_map)
  obtain i q g3 where g3: "(if px_resolved a' \<noteq> 0 then so_connect (px_host a') (px_port a') g2 else ((0, None), g2)) = ((i, q), g3)"
    by (metis prod.exhaust)
  have c: "g_parents g3 = g_parents g2" "g_parent_count g3 = n" "g_cache g3 = g_cache g"
    "(i \<le> 0 \<and> g_connects g3 = g_connects g) \<or> (\<exists>p. g_connects g = (i, p) # g_connects g3)"
    using g3 wf(2) by (auto simp: so_connect_def g2_def Let_def split: if_splits list.splits prod.splits)
  have "parents_wf (g3\<lparr>g_parent_curr := g_parent_curr g\<rparr>)"
    using wf2 [of 0] c(1,2) wf(2) by (simp add: parents_wf_def g2_def)
  then have "table_inv n (g3\<lparr>g_parent_curr := g_parent_curr g\<rparr>)"
    using assms(1) c(2) by (simp add: table_inv_def)
  moreover have "dial ga key g = Ret (i, g3\<lparr>g_parent_curr := g_parent_curr g\<rparr>)"
    by (simp add: dial_def pa g3)
  ultimately show thesis using that [of i "g3\<lparr>g_parent_curr := g_parent_curr g\<rparr>"] c by simp
qed

lemma advance_result:
  assumes "table_inv n g"
  obtains c where "next_parent g = Ret (g\<lparr>g_parent_curr := c\<rparr>)" "1 \<le> c" "c \<le> n"
proof -
  define c where "c = (if g_parent_curr g \<ge> g_parent_count g then 0 else g_parent_curr g) + 1"
  have "1 \<le> c" "c \<le> g_parent_count g" using assms by (auto simp: c_def table_inv_def)
  with parents_get [of g c] assms obtain a where "plist_get (g_parents g) c = Some a"
    by (auto simp: table_inv_def)
  then have "next_parent g = Ret (g\<lparr>g_parent_curr := c\<rparr>)" by (simp add: next_parent_def Let_def c_def)
  with \<open>1 \<le> c\<close> \<open>c \<le> g_parent_count g\<close> assms that show thesis by (auto simp: table_inv_def)
qed

lemma table_inv_upd:
  "table_inv n g \<Longrightarrow> 0 \<le> c \<Longrightarrow> c \<le> n \<Longrightarrow> table_inv n (g\<lparr>g_parent_curr := c\<rparr>)"
  "table_inv n (g\<lparr>g_cache := x\<rparr>) = table_inv n g"
  by (simp_all add: table_inv_def parents_wf_def)

text \<open>One step keeps the table, and only the cache can make it undefined.\<close>

lemma thread_step_table:
  assumes "table_inv n g" "stage_ok g st"
  shows "case thread_step ga ch g st of
      UB \<Rightarrow> g_cache g = None \<and> uses_cache st
    | Ret (g', st') \<Rightarrow> table_inv n g' \<and> stage_ok g' st' \<and> (1 \<le> g_parent_curr g \<longrightarrow> 1 \<le> g_parent_curr g')"
proof (cases st)
  case Fetch
  with assms show ?thesis
    by (cases "g_cache g") (auto simp: thread_step_def cache_take_def Let_def table_inv_upd stage_ok_def)
next
  case (First prev)
  have "plist_get (g_parents g) 1 \<noteq> None"
    using parents_get [of g 1] assms(1) by (auto simp: table_inv_def)
  with First assms show ?thesis
    by (auto simp: thread_step_def table_inv_upd stage_ok_def) (auto simp: table_inv_def parents_wf_def)
next
  case (Dial prev loop key)
  with assms have k: "1 \<le> key" "key \<le> n" by (auto simp: stage_ok_def table_inv_def)
  from dial_result [OF assms(1) k, of ga] obtain i g1 where d: "dial ga key g = Ret (i, g1)" "table_inv n g1"
    "g_parent_curr g1 = g_parent_curr g" by blast
  with Dial assms(2) show ?thesis by (auto simp: thread_step_def stage_ok_def)
next
  case (Advance prev loop)
  from advance_result [OF assms(1)] obtain c where "next_parent g = Ret (g\<lparr>g_parent_curr := c\<rparr>)" "1 \<le> c" "c \<le> n"
    by blast
  with Advance assms show ?thesis by (auto simp: thread_step_def stage_ok_def table_inv_upd)
next
  case (Pick prev loop)
  with assms show ?thesis by (auto simp: thread_step_def stage_ok_def table_inv_def)
next
  case (Drop i)
  with assms show ?thesis
    by (cases "g_cache g") (auto simp: thread_step_def invalidate_cache_def table_inv_upd stage_ok_def)
next
  case (Keep i)
  with assms show ?thesis
    by (cases "g_cache g") (auto simp: thread_step_def cache_store_def table_inv_upd stage_ok_def)
qed (use assms in \<open>auto simp: thread_step_def stage_ok_def split: after_busy.split\<close>)

lemma stage_ok_mono:
  "stage_ok g st \<Longrightarrow> g_parent_count g' = g_parent_count g \<Longrightarrow> (1 \<le> g_parent_curr g \<longrightarrow> 1 \<le> g_parent_curr g') \<Longrightarrow> stage_ok g' st"
  by (auto simp: stage_ok_def split: stage.splits)

definition sys_table :: "int \<Rightarrow> system \<Rightarrow> bool" where
  "sys_table n s \<longleftrightarrow> (case s of (g, ts) \<Rightarrow> table_inv n g \<and> (\<forall>st \<in> set ts. stage_ok g st))"

lemma sys_step_table: "sys_step ga s s' \<Longrightarrow> sys_table n s \<Longrightarrow> sys_table n s'"
proof (induction rule: sys_step.induct)
  case (Step t ts ch g g' st)
  then have "table_inv n g" "stage_ok g (ts ! t)" by (auto simp: sys_table_def)
  from thread_step_table [OF this, of ga ch] Step(2)
  have r: "table_inv n g'" "stage_ok g' st" "1 \<le> g_parent_curr g \<longrightarrow> 1 \<le> g_parent_curr g'" by auto
  have "g_parent_count g' = g_parent_count g" using r(1) \<open>table_inv n g\<close> by (simp add: table_inv_def)
  then have "stage_ok g' u" if "u \<in> set ts" for u
    using stage_ok_mono r(3) Step.prems that by (auto simp: sys_table_def)
  with r(1,2) show ?case by (auto simp: sys_table_def dest!: set_update_subset_insert [THEN subsetD])
qed

lemma sys_reach_table: "sys_reach ga s0 s \<Longrightarrow> sys_table n s0 \<Longrightarrow> sys_table n s"
  by (induction rule: sys_reach.induct) (auto intro: sys_step_table)

section \<open>Who has a connection\<close>

definition as_fd :: "int \<Rightarrow> int list" where
  "as_fd i = (if i > 0 then [i] else [])"

text \<open>The descriptor a thread has in its hands, those in the cache, those of connections to come.\<close>

definition held :: "stage \<Rightarrow> int list" where
  "held st = (case st of Compare prev i \<Rightarrow> as_fd i | Drop i \<Rightarrow> as_fd i | Busy i \<Rightarrow> as_fd i | Keep i \<Rightarrow> as_fd i | _ \<Rightarrow> [])"

definition cached :: "globals \<Rightarrow> int list" where
  "cached g = (case g_cache g of None \<Rightarrow> [] | Some l \<Rightarrow> map (\<lambda>t. key_fd (pkey t)) l)"

definition coming :: "globals \<Rightarrow> int list" where
  "coming g = concat (map (\<lambda>c. as_fd (fst c)) (g_connects g))"

definition shared_fds :: "globals \<Rightarrow> int multiset" where
  "shared_fds g = mset (cached g) + mset (coming g)"

definition all_fds :: "system \<Rightarrow> int multiset" where
  "all_fds s = (case s of (g, ts) \<Rightarrow> shared_fds g + (\<Sum>st \<in># mset ts. mset (held st)))"

definition fd_range :: "int multiset \<Rightarrow> bool" where
  "fd_range M \<longleftrightarrow> (\<forall>x \<in># M. 0 < x \<and> x < 2 ^ 31)"

lemma cache_take_fds:
  assumes "cache_take closed g = Ret ((i, a), g')"
  shows "mset (as_fd i) + shared_fds g' \<subseteq># shared_fds g" "i = 0 \<or> i \<in># shared_fds g"
proof -
  from assms obtain l where l: "g_cache g = Some l" "i = pop_id (plist_pop closed l)"
    "g' = g\<lparr>g_cache := Some (pop_list (plist_pop closed l))\<rparr>"
    by (auto simp: cache_take_def Let_def split: option.splits)
  have "mset (as_fd (pop_id (plist_pop closed l))) + mset (map (\<lambda>t. key_fd (pkey t)) (pop_list (plist_pop closed l)))
      \<subseteq># mset (map (\<lambda>t. key_fd (pkey t)) l)
    \<and> (pop_id (plist_pop closed l) = 0 \<or> pop_id (plist_pop closed l) \<in> set (map (\<lambda>t. key_fd (pkey t)) l))"
  proof (cases "\<forall>t \<in> set l. closed (key_fd (pkey t))")
    case True
    then show ?thesis by (simp add: plist_pop_all_dead as_fd_def)
  next
    case False
    then obtain d n r where d: "l = d @ n # r" "\<not> closed (key_fd (pkey n))" "\<forall>t \<in> set d. closed (key_fd (pkey t))"
      using split_list_first_prop [of l "\<lambda>t. \<not> closed (key_fd (pkey t))"] by auto
    show ?thesis unfolding d(1) plist_pop_live [OF d(3,2)] by (simp add: as_fd_def)
  qed
  with l show "mset (as_fd i) + shared_fds g' \<subseteq># shared_fds g" "i = 0 \<or> i \<in># shared_fds g"
    by (auto simp: shared_fds_def cached_def coming_def add.assoc [symmetric])
qed

text \<open>A thread that uses or stores a connection has one.\<close>

definition has_fd :: "stage \<Rightarrow> bool" where
  "has_fd st = (case st of Busy i \<Rightarrow> 0 < i | Keep i \<Rightarrow> 0 < i | _ \<Rightarrow> True)"

lemma thread_step_fds:
  assumes "table_inv n g" "stage_ok g st" "thread_step ga ch g st = Ret (g', st')"
    and range: "fd_range (mset (held st) + shared_fds g)" and has: "has_fd st"
  shows "mset (held st') + shared_fds g' \<subseteq># mset (held st) + shared_fds g \<and> has_fd st'"
proof (cases st)
  case Fetch
  with assms(3) obtain i a where f: "cache_take (ch_closed ch) g = Ret ((i, a), g')" "st' = (if i \<noteq> 0 then Busy i else Enter)"
    by (auto simp: thread_step_def c_bind_Ret_iff)
  from cache_take_fds(2) [OF f(1)] range have "i = 0 \<or> 0 < i" by (auto simp: fd_range_def)
  with cache_take_fds(1) [OF f(1)] f(2) Fetch show ?thesis by (auto simp: held_def as_fd_def has_fd_def)
next
  case (First prev)
  with assms(3) show ?thesis
    by (auto simp: thread_step_def held_def has_fd_def shared_fds_def cached_def coming_def split: if_splits)
next
  case (Dial prev loop key)
  with assms have k: "1 \<le> key" "key \<le> n" by (auto simp: stage_ok_def table_inv_def)
  from dial_result [OF assms(1) k, of ga] obtain i g1 where d: "dial ga key g = Ret (i, g1)" "g_cache g1 = g_cache g"
    "(i \<le> 0 \<and> g_connects g1 = g_connects g) \<or> (\<exists>p. g_connects g = (i, p) # g_connects g1)" by blast
  from d(3) have "mset (as_fd i) + mset (coming g1) = mset (coming g)" by (auto simp: coming_def as_fd_def)
  then have "mset (as_fd i) + shared_fds g1 = shared_fds g" using d(2) by (simp add: shared_fds_def cached_def)
  moreover have "mset (held st') = mset (as_fd i)" "g' = g1"
    using assms(3) Dial d(1) by (auto simp: thread_step_def held_def as_fd_def)
  moreover have "has_fd st'" using assms(3) Dial d(1) by (auto simp: thread_step_def has_fd_def)
  ultimately show ?thesis using Dial by (simp add: held_def)
next
  case (Advance prev loop)
  from advance_result [OF assms(1)] obtain c where "next_parent g = Ret (g\<lparr>g_parent_curr := c\<rparr>)" by blast
  with Advance assms(3) show ?thesis
    by (auto simp: thread_step_def held_def as_fd_def has_fd_def shared_fds_def cached_def coming_def)
next
  case (Drop i)
  with assms(3) show ?thesis
    by (auto simp: thread_step_def c_bind_Ret_iff invalidate_cache_def held_def as_fd_def has_fd_def shared_fds_def cached_def
        coming_def split: option.splits if_splits)
next
  case (Busy i)
  with assms(3) has show ?thesis by (auto simp: thread_step_def held_def as_fd_def has_fd_def split: after_busy.splits)
next
  case (Keep i)
  with assms(3) obtain l where l: "g_cache g = Some l" "st' = Finished"
    "g' = g\<lparr>g_cache := Some (plist_add l (word_of_int i) (Some (ch_creds ch)))\<rparr>"
    by (auto simp: thread_step_def c_bind_Ret_iff cache_store_def split: option.splits)
  have "0 < i" using has Keep by (simp add: has_fd_def)
  with range Keep have "key_fd (word_of_int i) = i"
    by (intro key_fd_of) (auto simp: fd_range_def held_def as_fd_def)
  with l \<open>0 < i\<close> Keep show ?thesis
    by (simp add: held_def as_fd_def has_fd_def shared_fds_def cached_def coming_def plist_add_append)
qed (use assms(3) has in \<open>auto simp: thread_step_def held_def as_fd_def has_fd_def split: if_splits\<close>)

section \<open>No two threads have the same connection\<close>

definition sys_fds :: "system \<Rightarrow> bool" where
  "sys_fds s \<longleftrightarrow> fd_range (all_fds s) \<and> (\<forall>x. count (all_fds s) x \<le> 1) \<and> (\<forall>st \<in> set (snd s). has_fd st)"

definition others :: "stage list \<Rightarrow> nat \<Rightarrow> stage multiset" where
  "others ts t = mset ts - {#ts ! t#}"

lemma all_fds_split:
  "t < length ts \<Longrightarrow>
   all_fds (g, ts) = mset (held (ts ! t)) + shared_fds g + (\<Sum>st \<in># others ts t. mset (held st))"
proof -
  assume "t < length ts"
  then have "mset ts = add_mset (ts ! t) (others ts t)" by (simp add: others_def)
  then show ?thesis by (simp add: all_fds_def ac_simps)
qed

lemma others_update: "t < length ts \<Longrightarrow> others (ts[t := x]) t = others ts t"
  by (simp add: others_def mset_update)

lemma others_mem:
  assumes "t < length ts" "u < length ts" "u \<noteq> t"
  shows "ts ! u \<in># others ts t"
proof -
  have "ts = take t ts @ ts ! t # drop (Suc t) ts" using assms(1) by (simp add: id_take_nth_drop)
  then have "mset ts = add_mset (ts ! t) (mset (take t ts @ drop (Suc t) ts))"
    by (metis mset.simps(2) mset_append union_mset_add_mset_right)
  then have "others ts t = mset (take t ts @ drop (Suc t) ts)" by (simp add: others_def)
  moreover have "ts ! u \<in> set (take t ts @ drop (Suc t) ts)"
  proof (cases "u < t")
    case True
    then have "take t ts ! u \<in> set (take t ts)" using assms(2) by (intro nth_mem) simp
    with True show ?thesis by simp
  next
    case False
    with assms have "drop (Suc t) ts ! (u - Suc t) \<in> set (drop (Suc t) ts)" by (intro nth_mem) simp
    moreover have "drop (Suc t) ts ! (u - Suc t) = ts ! u" using False assms by (simp add: nth_drop)
    ultimately show ?thesis by simp
  qed
  ultimately show ?thesis by simp
qed

lemma sys_step_fds:
  assumes "sys_step ga s s'" "sys_table n s" "sys_fds s"
  shows "sys_fds s'"
  using assms
proof (induction rule: sys_step.induct)
  case (Step t ts ch g g' st)
  from Step(3) Step(1) have tb: "table_inv n g" "stage_ok g (ts ! t)" by (auto simp: sys_table_def)
  let ?O = "\<Sum>st \<in># others ts t. mset (held st)"
  have split: "all_fds (g, ts) = mset (held (ts ! t)) + shared_fds g + ?O" by (rule all_fds_split [OF Step(1)])
  have "fd_range (mset (held (ts ! t)) + shared_fds g)"
    using Step(4) unfolding sys_fds_def split by (simp add: fd_range_def)
  moreover have "has_fd (ts ! t)" using Step(1,4) by (simp add: sys_fds_def)
  ultimately have st: "mset (held st) + shared_fds g' \<subseteq># mset (held (ts ! t)) + shared_fds g" "has_fd st"
    using thread_step_fds [OF tb Step(2)] by auto
  have "all_fds (g', ts[t := st]) = mset (held st) + shared_fds g' + ?O"
    using all_fds_split [of t "ts[t := st]" g'] Step(1) by (simp add: others_update)
  with st(1) split have sub: "all_fds (g', ts[t := st]) \<subseteq># all_fds (g, ts)" by simp
  have "count (all_fds (g', ts[t := st])) x \<le> 1" for x
    using mset_subset_eq_count [OF sub, of x] Step(4) unfolding sys_fds_def by (meson order_trans)
  moreover have "fd_range (all_fds (g', ts[t := st]))"
    using Step(4) sub unfolding sys_fds_def fd_range_def by (meson mset_subset_eqD)
  moreover have "\<forall>u \<in> set (ts[t := st]). has_fd u"
    using st(2) Step(4) by (auto simp: sys_fds_def dest!: set_update_subset_insert [THEN subsetD])
  ultimately show ?case by (simp add: sys_fds_def)
qed

lemma sys_reach_fds: "sys_reach ga s0 s \<Longrightarrow> sys_table n s0 \<Longrightarrow> sys_fds s0 \<Longrightarrow> sys_fds s"
proof (induction rule: sys_reach.induct)
  case (Later s s')
  then show ?case using sys_step_fds sys_reach_table by blast
qed

lemma sys_fds_unique:
  assumes "sys_fds (g, ts)" "t < length ts" "i \<in> set (held (ts ! t))"
  shows "i \<notin> set (cached g)" "u < length ts \<Longrightarrow> u \<noteq> t \<Longrightarrow> i \<notin> set (held (ts ! u))"
proof -
  let ?O = "\<Sum>st \<in># others ts t. mset (held st)"
  have one: "count (mset (held (ts ! t))) i + count (shared_fds g) i + count ?O i \<le> 1"
    using assms(1) all_fds_split [OF assms(2), of g] by (simp add: sys_fds_def)
  have ge: "1 \<le> count (mset (held (ts ! t))) i" using assms(3) by (simp add: Suc_le_eq count_greater_zero_iff)
  with one have "count (shared_fds g) i = 0" by linarith
  then show "i \<notin> set (cached g)" by (auto simp: shared_fds_def)
  assume u: "u < length ts" "u \<noteq> t"
  from one ge have z: "count ?O i = 0" by linarith
  from others_mem [OF assms(2) u] obtain R where "others ts t = add_mset (ts ! u) R"
    by (metis multi_member_split)
  with z show "i \<notin> set (held (ts ! u))" by (auto simp: count_eq_zero_iff)
qed

section \<open>Properties\<close>

text \<open>Threads before their first request, on a table that is filled and connections named apart.\<close>

definition sys_start :: "globals \<Rightarrow> nat \<Rightarrow> system" where
  "sys_start g k = (g, replicate k Finished)"

definition start_ok :: "globals \<Rightarrow> bool" where
  "start_ok g \<longleftrightarrow> parents_wf g \<and> 1 \<le> g_parent_count g \<and> 0 \<le> g_parent_curr g \<and> g_parent_curr g \<le> g_parent_count g
     \<and> distinct (cached g @ coming g) \<and> (\<forall>x \<in> set (cached g @ coming g). 0 < x \<and> x < 2 ^ 31)"

lemma start_inv:
  assumes "start_ok g"
  shows "sys_table (g_parent_count g) (sys_start g k)" "sys_fds (sys_start g k)"
proof -
  show "sys_table (g_parent_count g) (sys_start g k)"
    using assms by (auto simp: start_ok_def sys_start_def sys_table_def table_inv_def stage_ok_def)
  have "all_fds (sys_start g k) = mset (cached g @ coming g)"
    by (simp add: sys_start_def all_fds_def shared_fds_def held_def)
  moreover have "count (mset (cached g @ coming g)) x \<le> 1" for x
    using assms unfolding start_ok_def by (metis distinct_count_atmost_1 le_numeral_extra(4) zero_le_one)
  ultimately show "sys_fds (sys_start g k)"
    using assms by (simp add: sys_fds_def fd_range_def start_ok_def) (auto simp: sys_start_def has_fd_def)
qed

text \<open>
  C16: Any number of threads at work on the shared globals, their critical sections interleaved in
  every order.  Whatever state is reached, the current parent is an entry of the table (or none
  yet), and a thread that follows it never reads a null pointer: the only steps that can leave
  defined behaviour are those that touch the cache of connections after it was freed.  And no
  connection is in two hands: what one thread uses is neither in the cache nor with another thread,
  so that closing the connections of the cache never closes one in use.
\<close>

theorem threads_share_safely:
  assumes "start_ok g0" "sys_reach ga (sys_start g0 k) (g, ts)" "t < length ts"
  shows "0 \<le> g_parent_curr g \<and> g_parent_curr g \<le> g_parent_count g0
    \<and> (thread_step ga ch g (ts ! t) = UB \<longrightarrow> g_cache g = None \<and> uses_cache (ts ! t))
    \<and> (\<forall>i \<in> set (held (ts ! t)). i \<notin> set (cached g)
         \<and> (\<forall>u < length ts. u \<noteq> t \<longrightarrow> i \<notin> set (held (ts ! u))))"
proof -
  note inv = start_inv [OF assms(1), of k]
  have tb: "sys_table (g_parent_count g0) (g, ts)" by (rule sys_reach_table [OF assms(2) inv(1)])
  then have t: "table_inv (g_parent_count g0) g" "stage_ok g (ts ! t)" using assms(3) by (auto simp: sys_table_def)
  have fds: "sys_fds (g, ts)" by (rule sys_reach_fds [OF assms(2) inv])
  show ?thesis
    using t(1) thread_step_table [OF t, of ga ch] sys_fds_unique [OF fds assms(3)]
    by (auto simp: table_inv_def)
qed

definition late_globals :: globals where
  "late_globals = two_parents\<lparr>g_connects :=
     [(-1, (\<lparr>p_in = \<lparr>so_segs = [], so_err = False\<rparr>, p_out = \<lparr>sk_out = [], sk_plan = []\<rparr>\<rparr>)),
      (7, (\<lparr>p_in = \<lparr>so_segs = [], so_err = False\<rparr>, p_out = \<lparr>sk_out = [], sk_plan = []\<rparr>\<rparr>)),
      (8, (\<lparr>p_in = \<lparr>so_segs = [], so_err = False\<rparr>, p_out = \<lparr>sk_out = [], sk_plan = []\<rparr>\<rparr>))]\<rparr>"

definition storing :: choice where
  "storing = \<lparr>ch_closed = (\<lambda>_. False), ch_after = Store_connection, ch_creds = new_auth\<rparr>"

definition turns :: "nat \<Rightarrow> nat \<Rightarrow> (nat \<times> choice) list" where
  "turns t n = replicate n (t, storing)"

lemma late_globals_ok: "start_ok late_globals"
proof -
  have "parents_wf late_globals" using two_parents_wf(1) by (simp add: late_globals_def parents_wf_def)
  then show ?thesis
    by (simp add: start_ok_def late_globals_def two_parents_def no_globals_def cached_def coming_def as_fd_def)
qed

theorem threads_share_safely_witness:
  "\<exists>g ts. sys_run (\<lambda>_. None) (turns 0 3 @ turns 1 12) (sys_start late_globals 2) = Ret (g, ts)
    \<and> ts = [First 1, Keep 7] \<and> g_parent_curr g \<le> 2 \<and> 7 \<notin> set (cached g)
    \<and> thread_step (\<lambda>_. None) storing g (ts ! 0) \<noteq> UB"
proof -
  have "case sys_run (\<lambda>_. None) (turns 0 3 @ turns 1 12) (sys_start late_globals 2) of
      UB \<Rightarrow> False | Ret (g, ts) \<Rightarrow> ts = [First 1, Keep 7]"
    by code_simp
  then obtain g ts where r: "sys_run (\<lambda>_. None) (turns 0 3 @ turns 1 12) (sys_start late_globals 2) = Ret (g, ts)"
    "ts = [First 1, Keep 7]"
    by (cases "sys_run (\<lambda>_. None) (turns 0 3 @ turns 1 12) (sys_start late_globals 2)") auto
  have "g_parent_count late_globals = 2" by (simp add: late_globals_def two_parents_def)
  with threads_share_safely [OF late_globals_ok sys_run_reach [OF r(1)], of 0 storing]
    threads_share_safely [OF late_globals_ok sys_run_reach [OF r(1)], of 1 storing] r
  show ?thesis by (auto simp: held_def as_fd_def)
qed

text \<open>
  The cache is freed by a thread that never moved to another parent.  In any state the threads can
  reach, a thread that has read \<open>prev\<close> as the current parent, outside of the mutex, and now connects to
  the current one at once, leaves the cache as it is exactly if the parent it has read is still the
  current one.  If another thread has moved on in between, the thread frees the cache, which by now
  has the connections to the new parent, and every later look-up or store reads freed memory.
\<close>

lemma late_connect:
  assumes "t < length ts" "ts ! t = First prev" "g_parent_curr g \<noteq> 0" "g_cache g = Some l"
    "dial ga (g_parent_curr g) g = Ret (i, g1)" "0 < i" "g_parent_curr g1 = g_parent_curr g" "g_cache g1 = g_cache g"
  shows "sys_reach ga (g, ts) (g1\<lparr>g_cache := (if prev = g_parent_curr g \<or> l = [] then Some l else None)\<rparr>, ts[t := Busy i])"
proof -
  let ?c = "g_parent_curr g"
  note s = sys_reach.Later [OF _ sys_step.Step [where ch = storing]]
  have "sys_reach ga (g, ts) (g, ts[t := Pick prev 0])"
    by (rule s [OF sys_reach.Here]) (simp_all add: thread_step_def assms(1-3))
  then have "sys_reach ga (g, ts) (g, (ts[t := Pick prev 0])[t := Dial prev 0 ?c])"
    by (rule s) (simp_all add: thread_step_def assms(1))
  then have "sys_reach ga (g, ts) (g1, (ts[t := Pick prev 0, t := Dial prev 0 ?c])[t := Compare prev i])"
    by (rule s) (simp_all add: thread_step_def assms(1,5,6))
  then have C: "sys_reach ga (g, ts) (g1, ts[t := Compare prev i])" by simp
  show ?thesis
  proof (cases "prev = ?c")
    case True
    have "sys_reach ga (g, ts) (g1, (ts[t := Compare prev i])[t := Busy i])"
      by (rule s [OF C]) (simp_all add: thread_step_def assms(1,6,7) True)
    moreover have "g1\<lparr>g_cache := Some l\<rparr> = g1" using assms(4,8) by simp
    ultimately show ?thesis using True by simp
  next
    case False
    have "sys_reach ga (g, ts) (g1, (ts[t := Compare prev i])[t := Drop i])"
      by (rule s [OF C]) (simp_all add: thread_step_def assms(1,7) False)
    then have "sys_reach ga (g, ts) (g1\<lparr>g_cache := (if l = [] then Some [] else None)\<rparr>, (ts[t := Compare prev i, t := Drop i])[t := Busy i])"
      by (rule s) (simp_all add: thread_step_def invalidate_cache_def assms(1,4,6,8))
    with False show ?thesis by auto
  qed
qed

theorem late_invalidation:
  assumes "start_ok g0" "sys_reach ga (sys_start g0 k) (g, ts)" "t < length ts" "ts ! t = First prev"
    "g_parent_curr g \<noteq> 0" "g_cache g = Some l" "dial ga (g_parent_curr g) g = Ret (i, g1)" "0 < i"
  shows "\<exists>g'. sys_reach ga (sys_start g0 k) (g', ts[t := Busy i]) \<and> g_parent_curr g' = g_parent_curr g
    \<and> g_cache g' = (if prev = g_parent_curr g \<or> l = [] then Some l else None)
    \<and> (prev \<noteq> g_parent_curr g \<and> l \<noteq> [] \<longrightarrow> (\<forall>ch st. uses_cache st \<longrightarrow> thread_step ga ch g' st = UB))"
proof -
  have tb: "table_inv (g_parent_count g0) g"
    using sys_reach_table [OF assms(2) start_inv(1) [OF assms(1)]] by (simp add: sys_table_def)
  then have c: "1 \<le> g_parent_curr g" "g_parent_curr g \<le> g_parent_count g0" using assms(5) by (auto simp: table_inv_def)
  from dial_result [OF tb c, of ga] assms(7) have f: "g_parent_curr g1 = g_parent_curr g" "g_cache g1 = g_cache g" by auto
  have "thread_step ga ch h st = UB" if "uses_cache st" "g_cache h = None" for ch h st
    using that by (cases st) (simp_all add: thread_step_def cache_take_def cache_store_def invalidate_cache_def)
  with sys_reach_trans [OF late_connect [OF assms(3-8) f] assms(2)] f(1) show ?thesis
    by (intro exI conjI) (assumption, auto)
qed

text \<open>
  Thread 1 finds the first parent dead, moves to the second with an empty cache and stores its
  connection, while thread 0 has read the first as the current one.
\<close>

theorem late_invalidation_witness:
  "\<exists>g ts g'. sys_run (\<lambda>_. None) (turns 0 3 @ turns 1 13) (sys_start late_globals 3) = Ret (g, ts)
    \<and> map pkey (the (g_cache g)) = [7] \<and> sys_reach (\<lambda>_. None) (sys_start late_globals 3) (g', ts[0 := Busy 8])
    \<and> g_cache g' = None \<and> thread_step (\<lambda>_. None) storing g' Fetch = UB"
proof -
  let ?run = "sys_run (\<lambda>_. None) (turns 0 3 @ turns 1 13) (sys_start late_globals 3)"
  have "case ?run of UB \<Rightarrow> False | Ret (g, ts) \<Rightarrow> length ts = 3 \<and> ts ! 0 = First 1 \<and> g_parent_curr g = 2
      \<and> g_cache g \<noteq> None \<and> map pkey (the (g_cache g)) = [7]
      \<and> (case dial (\<lambda>_. None) 2 g of UB \<Rightarrow> False | Ret (i, _) \<Rightarrow> i = 8)"
    by code_simp
  then obtain g ts l g1 where r: "?run = Ret (g, ts)" "length ts = 3" "ts ! 0 = First 1" "g_parent_curr g = 2"
    "g_cache g = Some l" "map pkey l = [7]" "dial (\<lambda>_. None) (g_parent_curr g) g = Ret (8, g1)"
    by (auto split: c_result.splits prod.splits)
  from late_invalidation [OF late_globals_ok sys_run_reach [OF r(1)] _ r(3) _ r(5,7)] r(2,4,6) obtain g' where
    "sys_reach (\<lambda>_. None) (sys_start late_globals 3) (g', ts[0 := Busy 8])" "g_cache g' = None"
    "\<forall>ch st. uses_cache st \<longrightarrow> thread_step (\<lambda>_. None) ch g' st = UB" by auto
  with r(1,5,6) show ?thesis by auto
qed

end
