(* ===== verification/Spec2Isabelle.thy ===== *)
theory Spec2Isabelle
  imports PList Base64 Acl RRData ConfigFile Ntlm SockIO Http Forward Options Pages Tunnels Socks5 Direct Request Proxy Server Program Detect Scanner Syscalls MdStream PListMem StructMem Threads
begin

text \<open>
  A verification development of cntlm 0.92.3 (directory cntlm-0.92.3), the authenticating HTTP proxy
  the repository ships: it accepts requests and tunnels of local clients and passes them on, with an
  NTLM handshake of its own, to a parent proxy or to a web server.

  THE PROGRAM AND ITS PARTS

  main (main.c) reads the command line and the configuration file, builds the tables of the program
  (parents, listeners, tunnels, rules, exceptions, users), settles credentials and hashes, becomes a
  daemon and runs the accept loop.  Each accepted connection becomes a thread: proxy_thread for a
  request, tunnel_thread for a forwarded port, socks5_thread for SOCKS5.  proxy_thread receives the
  request (http.c) and gives it to direct_request (direct.c) when the host is an exception, and to
  forward_request (forward.c) otherwise; either can hand back a request for the other one.
  forward_request takes an authenticated connection from the cache, or connects to a parent and runs
  proxy_authenticate, which builds its messages with ntlm.c on the digests and ciphers of xcrypt.c.
  utils.c has the data the parts share: lists of pointers, lists of headers, requests and responses,
  strings and base 64.

  THEORIES, FROM THE BOTTOM

  CPrelude    machine types, bytes and C strings, the functions of the C library the program calls;
              the type \<open>c_result\<close> of a computation that may leave defined behaviour (\<open>UB\<close>).
  PList       plist_* of utils.c, with the pointers it frees and the descriptors it closes; the locale
              \<open>conn_cache\<close> of the cache of connections.
  HList       hlist_* of utils.c; the locale \<open>header_store\<close>.
  Heap        cells, malloc and free, and chains of nodes; the locale \<open>chain\<close>, with what appending,
              finding and unlinking a node do, interpreted on both kinds of nodes.
  HListMem, PListMem, StructMem
              hlist_*, plist_*, rr_data_t and the configuration store over that heap, with every malloc,
              strdup and free: they refine the value-level operations of HList, PList, RRData and ConfigFile.
  Rules       the locale \<open>rule_list\<close> of lists where the first rule that decides wins, interpreted on
              acl_check, noproxy_match and the agents of the scanner.
  CString     strlcpy, strlcat, substr, trimr, urlencode, printmem, scanmem and the others of utils.c.
  Base64      to_base64 and from_base64; the locale \<open>codec\<close>, also interpreted on printmem and scanmem.
  Swap        swap.h.
  Acl         acl.c and so_resolv of socket.c.
  Auth        auth.c and the macros of auth.h.
  RRData      rr_data_t of utils.c.
  ConfigFile  config.c, and its store as queues of values in the locale \<open>option_queue\<close>.
  Des, MdHash, MdStream
              xcrypt.c: DES (locale \<open>feistel\<close>), MD4, MD5, HMAC (locale \<open>stream_hash\<close>) and the
              digests of files.
  Ntlm        ntlm.c.
  Syscalls    so_connect, so_listen and so_closed of socket.c over the system calls.
  SockIO      so_recvln of socket.c; data_send, chunked_data_send and tunnel of http.c.
  Http        the rest of http.c.
  Parents     parent_add of main.c, proxy_connect of forward.c and the globals they share.
  Threads     the threads at work on these globals, interleaved between their critical sections.
  Forward     proxy_authenticate and prepare_http_connect of forward.c.
  Options     listen_add, tunnel_add, noproxy_add and noproxy_match of main.c, and fnmatch.
  Pages       pages.c.
  Tunnels     host_connect and direct_tunnel of direct.c, forward_tunnel, tunnel_thread of main.c.
  Socks5      socks5_thread of main.c.
  Conversation, Direct, Request, Proxy
              www_authenticate and direct_request of direct.c, forward_request of forward.c,
              proxy_thread of main.c, with the steps the two request loops share.
  Scanner     scanner_hook of scanner.c, and forward_request with the plugin on.
  Server      the accept loop of main, with the proxy_thread it calls itself when it serializes, and the
              signal handler.
  CmdLine, Startup, Program
              main from its arguments to the accept loop, and the program as a whole.
  Detect      magic_auth_detect of forward.c.

  HOW STATE AND OPERATIONS CORRESPOND

  A struct is a record with the fields of the source behind a prefix (\<open>rr_headers\<close> is the headers of
  rr_data_s); a function has its name, and its text is split where a loop or a block with an exit of
  its own needs a definition.  A NULL pointer is \<open>None\<close>.  The integers that wrap or are cut are words or
  written out (\<open>to_int32\<close>); an \<open>int\<close> that stays small is an \<open>int\<close>.  Buffers of fixed size are lists of that
  size, and an access outside an object is the result \<open>UB\<close>, so that a theorem whose result is \<open>Ret\<close> is
  also one of memory safety.  The machine is LP64; only where the width of a pointer decides about an
  access (pthread_join in the accept loop) is it a parameter, \<open>sc_pointer\<close>.  A descriptor that is read is the list of segments its reads will find and
  how it ends (\<open>sock\<close>); one that is written is what has been accepted and a plan for the coming writes
  (\<open>sink\<close>); a connection is both (\<open>peer\<close>).  The globals are a record that is passed through.

  Parameters are what is not in the source: getaddrinfo (\<open>gai\<close>), the random numbers and the time
  (\<open>rnd\<close>), what select reports (\<open>sel list\<close>), the outcome of the coming connections (\<open>g_connects\<close>), the
  results of system calls (\<open>kernel\<close>), of accept, fork, pthread_create and pthread_join (\<open>machine\<close>,
  \<open>service\<close>) and the contents of memory that was not initialised.

  BOUNDS AND TERMINATION

  Loops over data that shrinks are total functions with a measure; so_recvln, the transfers and the
  tunnel are measured by what the stream still holds.  A loop that need not end, because it depends on
  a peer, because a size from the peer may be zero or because a list in memory may be cyclic, is
  a \<open>partial_function\<close> with the result \<open>None\<close> when it does not (type \<open>c_prog\<close>); the theorems about these have the conclusion that the result is
  \<open>Some (Ret _)\<close>, and where the loop always ends that is a theorem (\<open>chunked_data_send_returns\<close>).  No fuel is
  used.  Lengths below 2^31 (an \<open>int\<close>) are hypotheses where the code needs them.

  WHAT THE THEOREMS SHOW

  Data: round trips of base 64, hexadecimal text, DES, request and response heads; the digests equal
  the padded digests of the RFCs however the input is cut, HMAC that of RFC 2104; copies of
  structures are exact; the lists and structures in memory refine the abstract ones, and nothing is
  lost, freed twice or used after it was freed (\<open>header_list_life\<close>, \<open>rr_data_owned\<close>, \<open>config_pop_owned\<close>: the
  heap afterwards is exactly the cells beside the list); the option store refines queues.
  Protocol: the NTLMv2 response is the one the protocol defines and ntlm_response stays in its buffer
  exactly when the names fit; bodies of every framing are forwarded byte for byte; the handshakes with a
  parent and with a web server send and receive exactly the messages listed; of a request on a new
  connection, no client credentials go to the parent and no challenge of the parent to the client, and the
  other headers pass (without the scanner plugin); two requests share a connection.
  Program: what starts is well-formed; a pass of its accept loop comes to a defined end except in three
  cases, which the theorem lists (a listener beyond FD_SETSIZE, a thread that is joined where a pointer is wider
  than an int, a client that a serialized proxy_thread does not finish with); only allowed
  addresses are served; after a signal the loop ends when the threads have ended and, if some are
  still to be joined, a pointer fits into an int; printed hashes and detected profiles configure the
  program as they should.  Under every interleaving of the threads the current parent stays in its
  table and no connection is in two hands (\<open>threads_share_safely\<close>).
  The places where the code does otherwise are theorems too (named in their text blocks): over-reads of short
  hashes and bare challenges, the use of the freed cache after a change of the parent (\<open>cache_use_after_free\<close>) and the
  thread that frees it without having moved (\<open>late_invalidation\<close>), the null host of a
  status line, the start of the next message that is dropped after a HEAD, the data a retried request is sent with,
  the result of a thread that is stored through too narrow a pointer, the SOCKS connection that prevents a shutdown, the
  missing password that is not noticed, the overrun and the two status lines of the scanner.

  NOT MODELLED

  Debug and log output (the -v branches, syslog, the *_dump functions, the usage text) and what only
  serves it; the terminal settings of the password prompt; the redirection of the standard
  descriptors of a daemon; the scanner plugin inside proxy_thread (theory Scanner has the hook and a
  reply of forward_request with it); concurrency outside of theory Threads, which interleaves the
  threads' accesses to the parents and the cache (everywhere else the operations of a thread run to
  their end before another's); running out of memory, except in
  the theories over the heap, whose theorems assume enough allocations left.  Above these theories strings
  and lists are values, and who frees them is not recorded.  The macros of
  swap.h for big-endian fields are used nowhere.  The feature tests in config/, configure and the
  Makefiles, the packaging under debian/, rpm/ and win/, and the Java and Dart programs under server/ and
  client/ are not part of the proxy.
\<close>

end
